(* ===== verification/GoPrelude.thy ===== *)
theory GoPrelude imports Main "HOL-Library.Word" begin

text \<open>
  Prelude of the development: the machine types of Go, the sum type that carries
  panics through a computation, and the generic lemmas every component uses.
  A Go function that may panic becomes a function into \<open>'e + 'a\<close>: \<^const>\<open>Inl\<close> is the
  panic value, \<^const>\<open>Inr\<close> the normal result; \<open>bindE\<close> sequences two of them.
\<close>

unbundle bit_operations_syntax

type_synonym u8 = "8 word"
type_synonym u32 = "32 word"
type_synonym u64 = "64 word"
type_synonym bytes = "u8 list"

named_theorems wire_simps "unfolding rules of the wire-level operations"
named_theorems go_splits "case splits on the results of panicking operations"

section \<open>Computations that may panic\<close>

definition bindE :: "'e + 'a \<Rightarrow> ('a \<Rightarrow> 'e + 'b) \<Rightarrow> 'e + 'b" where
  "bindE m f = (case m of Inl e \<Rightarrow> Inl e | Inr x \<Rightarrow> f x)"

lemma bindE_Inl [simp]: "bindE (Inl e) f = Inl e"
  by (simp add: bindE_def)

lemma bindE_Inr [simp]: "bindE (Inr x) f = f x"
  by (simp add: bindE_def)

lemma bindE_eq_Inr: "bindE m f = Inr y \<longleftrightarrow> (\<exists>x. m = Inr x \<and> f x = Inr y)"
  by (cases m) auto

lemma bindE_eq_Inl: "bindE m f = Inl e \<longleftrightarrow> m = Inl e \<or> (\<exists>x. m = Inr x \<and> f x = Inl e)"
  by (cases m) auto

lemma bindE_assoc: "bindE (bindE m f) g = bindE m (\<lambda>x. bindE (f x) g)"
  by (cases m) auto

lemma bindE_cong [fundef_cong]:
  "m = m' \<Longrightarrow> (\<And>x. m' = Inr x \<Longrightarrow> f x = g x) \<Longrightarrow> bindE m f = bindE m' g"
  by (cases m') auto

definition bindO :: "'a option \<Rightarrow> ('a \<Rightarrow> 'b option) \<Rightarrow> 'b option" where
  "bindO m f = (case m of None \<Rightarrow> None | Some x \<Rightarrow> f x)"

lemma bindO_None [simp]: "bindO None f = None"
  by (simp add: bindO_def)

lemma bindO_Some [simp]: "bindO (Some x) f = f x"
  by (simp add: bindO_def)

lemma bindO_eq_Some: "bindO m f = Some y \<longleftrightarrow> (\<exists>x. m = Some x \<and> f x = Some y)"
  by (cases m) auto

text \<open>Evaluate a list of optional results, failing as soon as one is missing.\<close>

fun those_opt :: "'a option list \<Rightarrow> 'a list option" where
  "those_opt [] = Some []"
| "those_opt (x # xs) = bindO x (\<lambda>y. bindO (those_opt xs) (\<lambda>ys. Some (y # ys)))"

lemma those_opt_length: "those_opt xs = Some ys \<Longrightarrow> length ys = length xs"
  by (induction xs arbitrary: ys) (auto simp: bindO_eq_Some)

lemma those_opt_eq_Some:
  "those_opt xs = Some ys \<longleftrightarrow> list_all2 (\<lambda>x y. x = Some y) xs ys"
  by (induction xs arbitrary: ys) (auto simp: bindO_eq_Some list_all2_Cons1)

lemma those_opt_nth:
  "those_opt xs = Some ys \<Longrightarrow> i < length xs \<Longrightarrow> xs ! i = Some (ys ! i)"
  by (auto simp: those_opt_eq_Some dest: list_all2_nthD)

section \<open>Lists\<close>

lemma take_append_exact [simp]: "length xs = n \<Longrightarrow> take n (xs @ ys) = xs"
  by simp

lemma drop_append_exact [simp]: "length xs = n \<Longrightarrow> drop n (xs @ ys) = ys"
  by simp

lemma take_Suc_update:
  "n < length xs \<Longrightarrow> take (Suc n) (xs[n := x]) = take n xs @ [x]"
  by (simp add: take_Suc_conv_app_nth)

lemma list_all2_snoc:
  "list_all2 P (xs @ [x]) (ys @ [y]) \<longleftrightarrow> list_all2 P xs ys \<and> P x y"
proof -
  have "list_all2 P (xs @ [x]) (ys @ [y]) \<longleftrightarrow> length xs = length ys \<and>
      list_all2 P (xs @ [x]) (ys @ [y])"
    by (auto dest: list_all2_lengthD)
  also have "\<dots> \<longleftrightarrow> list_all2 P xs ys \<and> P x y"
    by (auto simp: list_all2_append intro!: list_all2_appendI dest: list_all2_lengthD)
  finally show ?thesis .
qed

lemma list_all_take: "list_all P xs \<Longrightarrow> list_all P (take n xs)"
  by (auto simp: list_all_iff dest: in_set_takeD)

section \<open>Words\<close>

lemma unat_of_nat32: "n < 2 ^ 32 \<Longrightarrow> unat (of_nat n :: u32) = n"
  by (simp add: unat_of_nat take_bit_nat_eq_self)

lemma unat_lt_pow32 [simp]: "unat (w :: u32) < 2 ^ 32"
  using unsigned_less [of w] by simp

lemma unat_lt_num32 [simp]: "unat (w :: u32) < 4294967296"
  using unat_lt_pow32 [of w] by simp

lemma of_nat_unat_id [simp]: "(of_nat (unat (w :: 'a::len word)) :: 'a word) = w"
  by simp

text \<open>
  \<open>int(n)\<close> of a \<open>uint32\<close> on a platform with a 64-bit \<open>int\<close>: the sign bit is never set,
  so the guards \<open>int(n) < 0\<close> of the generated code never fire there.
\<close>

definition go_int :: "u32 \<Rightarrow> int" where
  "go_int w = sint (ucast w :: u64)"

lemma go_int_uint: "go_int w = uint w"
proof -
  have "uint w < 2 ^ 32" using uint_lt2p [of w] by simp
  then have "take_bit 64 (uint w) = uint w" and "signed_take_bit 63 (uint w) = uint w"
    by (auto simp: take_bit_int_eq_self signed_take_bit_int_eq_self_iff
        intro: order_trans [of _ 0])
  then show ?thesis
    by (simp add: go_int_def sint_uint unsigned_ucast_eq)
qed

lemma go_int_nonneg [simp]: "\<not> go_int w < 0"
  by (simp add: go_int_uint)

lemma go_int_unat: "go_int w = int (unat w)"
  by (simp add: go_int_uint)

lemma nat_go_int [simp]: "nat (go_int w) = unat w"
  by (simp only: go_int_unat nat_int)

lemma go_int_le_iff [simp]: "go_int w \<le> int k \<longleftrightarrow> unat w \<le> k"
  by (simp only: go_int_unat of_nat_le_iff)

lemma go_int_leD: "go_int w \<le> i \<Longrightarrow> unat w \<le> nat i"
  by (metis nat_go_int nat_mono)

end
