(* ===== verification/XdrPrim.thy ===== *)
theory XdrPrim imports GoPrelude begin

text \<open>
  The primitive wire operations of the runtime (cmd/goxdr/header.go.in, the functions
  xdrPutBytes to xdrGet64 and the SetU32/SetByteSlice guards) over the reader the
  repository uses, a bytes.Buffer: \<open>buf_Read\<close> and \<open>io_ReadFull\<close> are the documented
  behaviour of (*bytes.Buffer).Read and io.ReadFull, \<open>be_put32\<close> and its kin that of
  encoding/binary's BigEndian. A panic is a value of \<open>go_panic\<close>: XdrError values are the
  ones safeMarshal turns into errors, every other value crosses it.
  The locale \<open>wire_unit\<close> is the contract of one unit of wire data; the 32-bit, 64-bit
  and byte-string units interpret it.
\<close>

section \<open>Panics\<close>

datatype io_error = EOF | UnexpectedEOF

datatype xdr_error =
    BadBool u32
  | SizeOverBound u32 u32
  | SizeOverInt u32
  | ShortRead nat nat io_error
  | PadNonZero
  | ReadErr io_error
  | StoreTooLong nat u32
  | BadPtrFlag u32
  | VecOverBound u32 u32
  | VecOverInt u32
  | InvalidTag string u32
  | BadAccess string u32

datatype go_panic =
    XdrError xdr_error
  | NilErrorDeref
  | RawError io_error
  | StackOverflow
  | AppPanic string
  | Stuck

section \<open>Readers and byte orders of the standard library\<close>

text \<open>(*bytes.Buffer).Read into a slice of length k: the bytes read, the error, the rest.\<close>

definition buf_Read :: "bytes \<Rightarrow> nat \<Rightarrow> bytes \<times> io_error option \<times> bytes" where
  "buf_Read buf k =
     (if buf = [] then ([], if k = 0 then None else Some EOF, [])
      else (take k buf, None, drop k buf))"

text \<open>io.ReadFull: all k bytes, or the error and the number of bytes read.\<close>

definition io_ReadFull :: "bytes \<Rightarrow> nat \<Rightarrow> (io_error \<times> nat) + (bytes \<times> bytes)" where
  "io_ReadFull buf k =
     (if k \<le> length buf then Inr (take k buf, drop k buf)
      else if buf = [] then Inl (EOF, 0)
      else Inl (UnexpectedEOF, length buf))"

definition be_put32 :: "u32 \<Rightarrow> bytes" where
  "be_put32 v = [ucast (drop_bit 24 v), ucast (drop_bit 16 v), ucast (drop_bit 8 v), ucast v]"

fun be_get32 :: "bytes \<Rightarrow> u32" where
  "be_get32 [a, b, c, d] =
     (ucast d OR push_bit 8 (ucast c) OR push_bit 16 (ucast b) OR push_bit 24 (ucast a))"
| "be_get32 _ = 0"

definition be_put64 :: "u64 \<Rightarrow> bytes" where
  "be_put64 v = be_put32 (ucast (drop_bit 32 v)) @ be_put32 (ucast v)"

definition be_get64 :: "bytes \<Rightarrow> u64" where
  "be_get64 bs = push_bit 32 (ucast (be_get32 (take 4 bs))) OR ucast (be_get32 (drop 4 bs))"

lemma length_be_put32 [simp]: "length (be_put32 v) = 4"
  by (simp add: be_put32_def)

lemma length_be_put64 [simp]: "length (be_put64 v) = 8"
  by (simp add: be_put64_def)

text \<open>A bit beyond the width of a word is never set.\<close>

lemma bit_beyond [simp]:
  "\<not> bit (b :: u8) (8 + n)" "\<not> bit (b :: u8) (16 + n)" "\<not> bit (b :: u8) (24 + n)"
  "\<not> bit (w :: u32) (32 + n)"
  by (auto dest!: bit_imp_le_length)

lemma be_get_put32 [simp]: "be_get32 (be_put32 v) = v"
proof (rule bit_word_eqI)
  fix n assume "n < LENGTH(32)"
  then have n: "n < 32" by simp
  have "n < 8 \<or> n \<in> {8..<16} \<or> n \<in> {16..<24} \<or> n \<in> {24..<32}"
    using n by auto
  then show "bit (be_get32 (be_put32 v)) n \<longleftrightarrow> bit v n"
    using n by (auto simp: be_put32_def bit_simps)
qed

lemma be_put_get32:
  assumes "length bs = 4"
  shows "be_put32 (be_get32 bs) = bs"
proof -
  obtain a b c d where bs: "bs = [a, b, c, d]"
    using assms by (auto simp: numeral_eq_Suc length_Suc_conv)
  show ?thesis
    unfolding bs be_put32_def be_get32.simps
    by (auto intro!: bit_word_eqI simp: bit_simps)
qed

lemma be_get_put64 [simp]: "be_get64 (be_put64 v) = v"
  by (rule bit_word_eqI) (auto simp: be_put64_def be_get64_def bit_simps)

lemma be_put_get64:
  assumes "length bs = 8"
  shows "be_put64 (be_get64 bs) = bs"
proof -
  let ?h = "be_get32 (take 4 bs)" and ?l = "be_get32 (drop 4 bs)"
  have "(ucast (drop_bit 32 (be_get64 bs)) :: u32) = ?h"
    by (rule bit_word_eqI) (auto simp: be_get64_def bit_simps)
  moreover have "(ucast (be_get64 bs) :: u32) = ?l"
    by (rule bit_word_eqI) (auto simp: be_get64_def bit_simps)
  ultimately show ?thesis
    using assms by (simp add: be_put64_def be_put_get32)
qed

section \<open>Writing\<close>

definition xdrZerofill :: "bytes list" where
  "xdrZerofill = [[], [0, 0, 0], [0, 0], [0]]"

definition xdrPutBytes :: "bytes \<Rightarrow> bytes" where
  "xdrPutBytes val = val @ xdrZerofill ! (length val mod 4)"

definition xdrPut32 :: "u32 \<Rightarrow> bytes" where
  "xdrPut32 val = be_put32 val"

definition xdrPut64 :: "u64 \<Rightarrow> bytes" where
  "xdrPut64 val = be_put64 val"

section \<open>Reading\<close>

definition xdrReadInto :: "bytes \<Rightarrow> nat \<Rightarrow> go_panic + (bytes \<times> bytes)" where
  "xdrReadInto buf k =
     (case buf_Read buf k of (data, err, rest) \<Rightarrow>
       if err \<noteq> None \<or> length data \<noteq> k
       then (case err of Some e \<Rightarrow> Inl (XdrError (ReadErr e)) | None \<Rightarrow> Inl NilErrorDeref)
       else Inr (data, rest))"

definition xdrReadN :: "bytes \<Rightarrow> u32 \<Rightarrow> go_panic + (bytes \<times> bytes)" where
  "xdrReadN buf n =
     (if n = 0 then Inr ([], buf)
      else case io_ReadFull buf (unat n) of
        Inl (e, k) \<Rightarrow> Inl (XdrError (ShortRead k (unat n) e))
      | Inr (p, rest) \<Rightarrow> Inr (p, rest))"

definition xdrReadPad :: "bytes \<Rightarrow> u32 \<Rightarrow> go_panic + bytes" where
  "xdrReadPad buf n =
     (if n AND 3 \<noteq> 0
      then bindE (xdrReadInto buf (unat (4 - (n AND 3)))) (\<lambda>(got, rest).
        if list_all (\<lambda>b. b = 0) got then Inr rest else Inl (XdrError PadNonZero))
      else Inr buf)"

definition xdrGet32 :: "bytes \<Rightarrow> go_panic + (u32 \<times> bytes)" where
  "xdrGet32 buf = bindE (xdrReadInto buf 4) (\<lambda>(b, rest). Inr (be_get32 b, rest))"

definition xdrGet64 :: "bytes \<Rightarrow> go_panic + (u64 \<times> bytes)" where
  "xdrGet64 buf = bindE (xdrReadInto buf 8) (\<lambda>(b, rest). Inr (be_get64 b, rest))"

text \<open>
  The byte-string units. \<open>SetByteSlice\<close> is the guard of XdrString and XdrVecOpaque; XdrIn
  reads the length and the bytes, stores them (with the guard) and then reads the padding.
  A fixed-length opaque goes through io.ReadFull, whose error is panicked as it is.
\<close>

definition SetByteSlice :: "u32 \<Rightarrow> bytes \<Rightarrow> go_panic + bytes" where
  "SetByteSlice bound bs =
     (if length bs > unat bound then Inl (XdrError (StoreTooLong (length bs) bound)) else Inr bs)"

definition in_varbytes :: "u32 \<Rightarrow> bytes \<Rightarrow> go_panic + (bytes \<times> bytes)" where
  "in_varbytes bound buf =
     bindE (xdrGet32 buf) (\<lambda>(n, r1).
     bindE (xdrReadN r1 n) (\<lambda>(p, r2).
     bindE (SetByteSlice bound p) (\<lambda>s.
     bindE (xdrReadPad r2 n) (\<lambda>r3. Inr (s, r3)))))"

definition out_varbytes :: "bytes \<Rightarrow> bytes" where
  "out_varbytes s = xdrPut32 (of_nat (length s)) @ xdrPutBytes s"

definition in_fixbytes :: "nat \<Rightarrow> bytes \<Rightarrow> go_panic + (bytes \<times> bytes)" where
  "in_fixbytes k buf =
     (case io_ReadFull buf k of
        Inl (e, _) \<Rightarrow> Inl (RawError e)
      | Inr (p, rest) \<Rightarrow> bindE (xdrReadPad rest (of_nat k)) (\<lambda>r. Inr (p, r)))"

end
