(* ===== verification/XdrUnits.thy ===== *)
theory XdrUnits imports XdrPrim begin

text \<open>
  The contract of one unit of wire data, the locale \<open>wire_unit\<close>: what \<open>get\<close> returns after
  \<open>put\<close>, and that \<open>get\<close> accepts nothing but the output of \<open>put\<close>. Its client lemmas (unique
  parsing, the prefix property) are proved once; the 32-bit and 64-bit words, the
  length-prefixed byte strings of string<> and opaque<>, and the fixed-length opaque[]
  interpret it.
\<close>

section \<open>The contract\<close>

locale wire_unit =
  fixes put :: "'a \<Rightarrow> bytes"
    and get :: "bytes \<Rightarrow> go_panic + ('a \<times> bytes)"
    and ok :: "'a \<Rightarrow> bool"
  assumes get_put: "ok a \<Longrightarrow> get (put a @ r) = Inr (a, r)"
    and get_only_put: "get bs = Inr (a, r) \<Longrightarrow> ok a \<and> bs = put a @ r"
begin

lemma get_eq_Inr: "get bs = Inr (a, r) \<longleftrightarrow> ok a \<and> bs = put a @ r"
  by (auto simp: get_put dest: get_only_put)

lemma get_split: "get bs = Inr ar \<longleftrightarrow> ok (fst ar) \<and> bs = put (fst ar) @ snd ar"
  using get_eq_Inr [of bs "fst ar" "snd ar"] by simp

lemma put_prefix_free:
  assumes "ok a" and "ok b" and "put a @ r = put b @ s"
  shows "a = b \<and> r = s"
  using get_put [OF assms(1), of r] get_put [OF assms(2), of s]
  unfolding assms(3) by simp

lemma get_consumes: "get bs = Inr (a, r) \<Longrightarrow> length bs = length (put a) + length r"
  by (auto dest: get_only_put)

end

section \<open>The reading primitives, characterised\<close>

lemma append_eq_take_drop: "buf = d @ r \<and> length d = k \<longleftrightarrow> k \<le> length buf \<and> d = take k buf \<and> r = drop k buf"
  by auto

lemma xdrReadInto_Inr:
  "xdrReadInto buf k = Inr (d, r) \<longleftrightarrow> buf = d @ r \<and> length d = k"
  unfolding append_eq_take_drop
  by (auto simp: xdrReadInto_def buf_Read_def split: option.splits)

lemma xdrReadInto_short:
  "length buf < k \<Longrightarrow>
   xdrReadInto buf k = (if buf = [] then Inl (XdrError (ReadErr EOF)) else Inl NilErrorDeref)"
  by (auto simp: xdrReadInto_def buf_Read_def)

lemma io_ReadFull_Inr: "io_ReadFull buf k = Inr (d, r) \<longleftrightarrow> buf = d @ r \<and> length d = k"
  unfolding append_eq_take_drop by (auto simp: io_ReadFull_def)

lemma xdrReadN_Inr: "xdrReadN buf n = Inr (d, r) \<longleftrightarrow> buf = d @ r \<and> length d = unat n"
  by (auto simp: xdrReadN_def io_ReadFull_Inr unat_eq_0 split: sum.splits prod.splits)
    (auto simp: io_ReadFull_def split: if_splits)

lemma unat_and3: "unat (n AND 3 :: u32) = unat n mod 4"
proof -
  have "n AND 3 = take_bit 2 n"
    by (simp add: take_bit_eq_mask mask_eq_exp_minus_1)
  then have "unat (n AND 3) = take_bit 2 (unat n)"
    by (simp only: unsigned_take_bit_eq)
  then show ?thesis by (simp add: take_bit_eq_mod)
qed

definition pad_len :: "nat \<Rightarrow> nat" where
  "pad_len k = (4 - k mod 4) mod 4"

lemma xdrZerofill_pad: "xdrZerofill ! (k mod 4) = replicate (pad_len k) 0"
proof -
  have three: "replicate 3 (0 :: u8) = [0, 0, 0]" and two: "replicate 2 (0 :: u8) = [0, 0]"
    by (simp_all add: eval_nat_numeral)
  have "k mod 4 = 0 \<or> k mod 4 = 1 \<or> k mod 4 = 2 \<or> k mod 4 = 3" by arith
  then show ?thesis
    by (elim disjE) (simp_all add: xdrZerofill_def pad_len_def three two)
qed

lemma list_all_zero_replicate: "list_all (\<lambda>b. b = 0) xs \<longleftrightarrow> xs = replicate (length xs) (0 :: u8)"
proof
  assume "list_all (\<lambda>b. b = 0) xs"
  then show "xs = replicate (length xs) 0"
    by (simp add: list_all_iff replicate_length_same)
next
  assume eq: "xs = replicate (length xs) 0"
  show "list_all (\<lambda>b. b = 0) xs" by (subst eq) (simp add: list_all_iff)
qed

lemma pad_sub: "n AND 3 \<noteq> 0 \<Longrightarrow> unat (4 - (n AND 3) :: u32) = pad_len (unat n)"
proof -
  assume "n AND 3 \<noteq> 0"
  then have "unat n mod 4 \<noteq> 0" using unat_and3 [of n] by (metis unat_eq_0)
  moreover have "n AND 3 \<le> 4"
    using unat_and3 [of n] by (simp add: word_le_nat_alt)
  then have "unat (4 - (n AND 3)) = 4 - unat n mod 4"
    using unat_and3 [of n] by (simp add: unat_sub)
  ultimately show ?thesis by (simp add: pad_len_def)
qed

lemma pad_len_0: "pad_len k = 0 \<longleftrightarrow> k mod 4 = 0"
  by (simp add: pad_len_def) presburger

lemma xdrReadPad_Inr:
  "xdrReadPad buf n = Inr r \<longleftrightarrow> buf = replicate (pad_len (unat n)) 0 @ r"
proof (cases "n AND 3 = 0")
  case True
  then have "unat n mod 4 = 0" using unat_and3 [of n] by simp
  then have "pad_len (unat n) = 0" by (simp add: pad_len_0)
  with True show ?thesis by (auto simp: xdrReadPad_def)
next
  case False
  then show ?thesis
    by (auto simp: xdrReadPad_def pad_sub bindE_eq_Inr xdrReadInto_Inr list_all_zero_replicate
        split: if_splits)
qed

section \<open>The units\<close>

interpretation w32: wire_unit xdrPut32 xdrGet32 "\<lambda>_. True"
proof unfold_locales
  show "xdrGet32 (xdrPut32 a @ r) = Inr (a, r)" for a r
    by (auto simp: xdrGet32_def xdrPut32_def bindE_eq_Inr xdrReadInto_Inr)
  show "xdrGet32 bs = Inr (a, r) \<Longrightarrow> True \<and> bs = xdrPut32 a @ r" for bs a r
    by (auto simp: xdrGet32_def xdrPut32_def bindE_eq_Inr xdrReadInto_Inr be_put_get32)
qed

interpretation w64: wire_unit xdrPut64 xdrGet64 "\<lambda>_. True"
proof unfold_locales
  show "xdrGet64 (xdrPut64 a @ r) = Inr (a, r)" for a r
    by (auto simp: xdrGet64_def xdrPut64_def bindE_eq_Inr xdrReadInto_Inr)
  show "xdrGet64 bs = Inr (a, r) \<Longrightarrow> True \<and> bs = xdrPut64 a @ r" for bs a r
    by (auto simp: xdrGet64_def xdrPut64_def bindE_eq_Inr xdrReadInto_Inr be_put_get64)
qed

lemma xdrPutBytes_pad: "xdrPutBytes s = s @ replicate (pad_len (length s)) 0"
  by (simp add: xdrPutBytes_def xdrZerofill_pad)

lemma SetByteSlice_Inr: "SetByteSlice bound p = Inr s \<longleftrightarrow> s = p \<and> length p \<le> unat bound"
  by (auto simp: SetByteSlice_def)

lemma in_varbytes_Inr:
  "in_varbytes bound bs = Inr (s, r) \<longleftrightarrow>
   length s \<le> unat bound \<and> bs = out_varbytes s @ r"
proof
  assume "in_varbytes bound bs = Inr (s, r)"
  then obtain n r1 r2 where "bs = xdrPut32 n @ r1" "r1 = s @ r2" "length s = unat n"
      "length s \<le> unat bound" "r2 = replicate (pad_len (unat n)) 0 @ r"
    by (auto simp: in_varbytes_def bindE_eq_Inr w32.get_split xdrReadN_Inr xdrReadPad_Inr
        SetByteSlice_Inr)
  then show "length s \<le> unat bound \<and> bs = out_varbytes s @ r"
    by (simp add: out_varbytes_def xdrPutBytes_pad)
next
  assume *: "length s \<le> unat bound \<and> bs = out_varbytes s @ r"
  have "length s < 2 ^ 32" using * unat_lt_pow32 [of bound] by (blast intro: le_less_trans)
  then have n: "unat (of_nat (length s) :: u32) = length s" by (rule unat_of_nat32)
  let ?rest = "s @ replicate (pad_len (length s)) 0 @ r"
  have "xdrGet32 bs = Inr (of_nat (length s), ?rest)"
    using * by (simp add: out_varbytes_def xdrPutBytes_pad w32.get_eq_Inr)
  moreover have "xdrReadN ?rest (of_nat (length s)) = Inr (s, replicate (pad_len (length s)) 0 @ r)"
    by (simp add: xdrReadN_Inr n)
  moreover have "xdrReadPad (replicate (pad_len (length s)) 0 @ r) (of_nat (length s)) = Inr r"
    by (simp add: xdrReadPad_Inr n)
  ultimately show "in_varbytes bound bs = Inr (s, r)"
    using * by (simp add: in_varbytes_def SetByteSlice_def)
qed

interpretation varb: wire_unit out_varbytes "in_varbytes bound" "\<lambda>s. length s \<le> unat bound"
  for bound
  by unfold_locales (auto simp: in_varbytes_Inr)

lemma pad_len_of_nat: "pad_len (unat (of_nat k :: u32)) = pad_len k"
proof -
  have "(k mod 4294967296) mod 4 = k mod 4" by (rule mod_mod_cancel) simp
  then show ?thesis by (simp add: pad_len_def unat_of_nat take_bit_eq_mod)
qed

lemma in_fixbytes_Inr:
  "in_fixbytes k bs = Inr (s, r) \<longleftrightarrow> length s = k \<and> bs = xdrPutBytes s @ r"
proof -
  have "in_fixbytes k bs = Inr (s, r) \<longleftrightarrow>
      (\<exists>q. io_ReadFull bs k = Inr (s, q) \<and> xdrReadPad q (of_nat k) = Inr r)"
    by (auto simp: in_fixbytes_def bindE_eq_Inr split: sum.splits prod.splits)
  then show ?thesis
    by (auto simp: io_ReadFull_Inr xdrReadPad_Inr pad_len_of_nat xdrPutBytes_pad)
qed

interpretation fixb: wire_unit xdrPutBytes "in_fixbytes k" "\<lambda>s. length s = k"
  for k
  by unfold_locales (auto simp: in_fixbytes_Inr)

lemma xdrPutBytes_aligned: "length (xdrPutBytes s) mod 4 = 0"
proof -
  let ?m = "length s mod 4"
  have "(length s + pad_len (length s)) mod 4 = (?m + (4 - ?m)) mod 4"
    unfolding pad_len_def by (simp only: mod_add_left_eq mod_add_right_eq)
  also have "?m + (4 - ?m) = 4" using mod_less_divisor [of 4 "length s"] by linarith
  finally have "(length s + pad_len (length s)) mod 4 = 0" by simp
  then show ?thesis by (simp add: xdrPutBytes_pad)
qed

end
