(* ===== verification/XdrSchema.thy ===== *)
theory XdrSchema imports XdrUnits begin

text \<open>
  The types of a generated package, in the form the emitter reads them
  (cmd/goxdr/syms.go, after get_typ has named the inline declarations and get_bound has
  evaluated the bounds): declarations with a qualifier, typedefs, enums, structs and unions.
  A package is the list of its type definitions by Go name. Every use of a named type
  goes through its name, as the generated code goes through the function XDR_T, so types
  may be recursive.

  The second half is the native side: the Go type of a declaration (decltype, with type
  aliases resolved), Go values, their zero values and their typing.
\<close>

section \<open>Declarations\<close>

datatype base = Bool | Int32 | Uint32 | Float32 | Int64 | Uint64 | Float64 | String | Byte | Void

datatype tname = Base base | Ident string

datatype qual_t = SCALAR | PTR | ARRAY | VEC

record rpc_decl =
  d_id :: string
  d_qual :: qual_t
  d_bound :: u32
  d_typ :: tname

record rpc_ufield =
  uf_cases :: "u32 list"
  uf_decl :: rpc_decl
  uf_hasdefault :: bool

record rpc_union =
  u_tagtype :: tname
  u_tagid :: string
  u_fields :: "rpc_ufield list"
  u_hasdefault :: bool

datatype rpc_sym =
    Sym_typedef rpc_decl
  | Sym_enum "(string \<times> u32) list"
  | Sym_struct "rpc_decl list"
  | Sym_union rpc_union

text \<open>
  The definitions of the package, and how deep defined types nest without a pointer, a
  slice or a union in between. Go's compiler rejects a package where there is no such
  bound (an invalid recursive type).
\<close>

record pkg =
  p_defs :: "(string \<times> rpc_sym) list"
  p_nest :: nat

definition sym_of :: "pkg \<Rightarrow> string \<Rightarrow> rpc_sym option" where
  "sym_of P s = map_of (p_defs P) s"

definition isVoid :: "rpc_ufield \<Rightarrow> bool" where
  "isVoid u \<longleftrightarrow> d_id (uf_decl u) = [] \<or> d_typ (uf_decl u) = Base Void"

text \<open>
  The switch on the discriminant: the arm whose case list holds the value, else the
  default arm. A field with a default label is emitted as \<open>default:\<close> only.
\<close>

definition select_arm :: "rpc_union \<Rightarrow> u32 \<Rightarrow> rpc_ufield option" where
  "select_arm u disc =
     (case find (\<lambda>f. \<not> uf_hasdefault f \<and> disc \<in> set (uf_cases f)) (u_fields u) of
        Some f \<Rightarrow> Some f
      | None \<Rightarrow> find uf_hasdefault (u_fields u))"

lemma find_in_set: "find p xs = Some x \<Longrightarrow> x \<in> set xs \<and> p x"
  by (induction xs) (auto split: if_splits)

lemma select_arm_in: "select_arm u disc = Some f \<Longrightarrow> f \<in> set (u_fields u)"
  by (auto simp: select_arm_def dest!: find_in_set split: option.splits)

section \<open>Go types\<close>

datatype gty =
    GBase base
  | GNamed string
  | GBytes
  | GByteArr nat
  | GPtr gty
  | GArr nat gty
  | GSlice gty

text \<open>
  The Go type of a declaration over the Go type of its base type: decltype. A string has
  the qualifier SCALAR; opaque is the base type byte with ARRAY or VEC.
\<close>

definition decltype :: "(tname \<Rightarrow> gty) \<Rightarrow> rpc_decl \<Rightarrow> gty" where
  "decltype ty d =
     (if d_typ d = Base String then GBase String
      else if d_typ d = Base Byte
      then (if d_qual d = VEC then GBytes else GByteArr (unat (d_bound d)))
      else case d_qual d of
        SCALAR \<Rightarrow> ty (d_typ d)
      | PTR \<Rightarrow> GPtr (ty (d_typ d))
      | ARRAY \<Rightarrow> GArr (unat (d_bound d)) (ty (d_typ d))
      | VEC \<Rightarrow> GSlice (ty (d_typ d)))"

text \<open>A typedef is a Go type alias: the alias is resolved, at most \<open>n\<close> typedefs deep.\<close>

fun go_typ_n :: "pkg \<Rightarrow> nat \<Rightarrow> tname \<Rightarrow> gty" where
  "go_typ_n P n (Base b) = GBase b"
| "go_typ_n P 0 (Ident s) = GNamed s"
| "go_typ_n P (Suc n) (Ident s) =
     (case sym_of P s of
        Some (Sym_typedef d) \<Rightarrow> decltype (go_typ_n P n) d
      | _ \<Rightarrow> GNamed s)"

definition go_typ :: "pkg \<Rightarrow> tname \<Rightarrow> gty" where
  "go_typ P = go_typ_n P (p_nest P)"

definition go_decl :: "pkg \<Rightarrow> rpc_decl \<Rightarrow> gty" where
  "go_decl P = decltype (go_typ P)"

section \<open>Go values\<close>

text \<open>
  Values of the native types. Integers, enums and floats are their bit patterns. A slice
  is its length and its backing array from the first element to the capacity. A union
  is its discriminant and the \<open>_u\<close> field, an interface value: nil, or a pointer to a body
  with its dynamic type.
\<close>

datatype val =
    VVoid
  | VBool bool
  | VNum32 u32
  | VNum64 u64
  | VString bytes
  | VBytes bytes
  | VByteArr bytes
  | VPtr "val option"
  | VArr "val list"
  | VSlice nat "val list"
  | VStruct "val list"
  | VUnion val "(gty \<times> val) option"

fun zero_base :: "base \<Rightarrow> val" where
  "zero_base Bool = VBool False"
| "zero_base Int64 = VNum64 0"
| "zero_base Uint64 = VNum64 0"
| "zero_base Float64 = VNum64 0"
| "zero_base String = VString []"
| "zero_base Byte = VVoid"
| "zero_base Void = VVoid"
| "zero_base _ = VNum32 0"

fun zero_n :: "pkg \<Rightarrow> nat \<Rightarrow> gty \<Rightarrow> val" where
  "zero_n P n (GBase b) = zero_base b"
| "zero_n P n GBytes = VBytes []"
| "zero_n P n (GByteArr k) = VByteArr (replicate k 0)"
| "zero_n P n (GPtr g) = VPtr None"
| "zero_n P n (GArr k g) = VArr (replicate k (zero_n P n g))"
| "zero_n P n (GSlice g) = VSlice 0 []"
| "zero_n P 0 (GNamed s) = VVoid"
| "zero_n P (Suc n) (GNamed s) =
     (case sym_of P s of
        Some (Sym_struct ds) \<Rightarrow> VStruct (map (\<lambda>d. zero_n P n (go_decl P d)) ds)
      | Some (Sym_enum tags) \<Rightarrow> VNum32 0
      | Some (Sym_union u) \<Rightarrow> VUnion (zero_n P n (go_typ P (u_tagtype u))) None
      | _ \<Rightarrow> VVoid)"

definition zero :: "pkg \<Rightarrow> gty \<Rightarrow> val" where
  "zero P = zero_n P (p_nest P)"

text \<open>GetU32 of the types implementing XdrNum32.\<close>

fun GetU32 :: "val \<Rightarrow> u32 option" where
  "GetU32 (VBool b) = Some (if b then 1 else 0)"
| "GetU32 (VNum32 w) = Some w"
| "GetU32 _ = None"

text \<open>
  The accessor of an arm of a union, \<open>func (u *U) Arm() *T\<close>: the body held by \<open>_u\<close> if it
  has the arm's Go type, a new zero body otherwise; a panic when the discriminant does
  not select the arm.
\<close>

definition arm_selected :: "rpc_union \<Rightarrow> rpc_ufield \<Rightarrow> u32 \<Rightarrow> bool" where
  "arm_selected u f disc =
     (if uf_hasdefault f
      then list_all (\<lambda>f'. uf_hasdefault f' \<or> disc \<notin> set (uf_cases f')) (u_fields u)
      else disc \<in> set (uf_cases f))"

definition arm_body :: "pkg \<Rightarrow> gty \<Rightarrow> (gty \<times> val) option \<Rightarrow> val" where
  "arm_body P g body =
     (case body of
        Some (g', b) \<Rightarrow> if g' = g then b else zero P g
      | None \<Rightarrow> zero P g)"

definition arm_access ::
  "pkg \<Rightarrow> rpc_union \<Rightarrow> rpc_ufield \<Rightarrow> u32 \<Rightarrow> (gty \<times> val) option \<Rightarrow> go_panic + val" where
  "arm_access P u f disc body =
     (if arm_selected u f disc
      then Inr (arm_body P (go_decl P (uf_decl f)) body)
      else Inl (XdrError (BadAccess (d_id (uf_decl f)) disc)))"

lemma select_arm_selected: "select_arm u disc = Some f \<Longrightarrow> arm_selected u f disc"
  by (auto simp: select_arm_def arm_selected_def list_all_iff find_None_iff
      dest!: find_in_set split: option.splits)

lemma arm_access_selected:
  "select_arm u disc = Some f \<Longrightarrow>
   arm_access P u f disc body = Inr (arm_body P (go_decl P (uf_decl f)) body)"
  by (simp add: arm_access_def select_arm_selected)

section \<open>Typing\<close>

text \<open>The dynamic types \<open>_u\<close> can hold: the Go types of the arms.\<close>

definition arm_gty :: "pkg \<Rightarrow> rpc_union \<Rightarrow> gty \<Rightarrow> bool" where
  "arm_gty P u g \<longleftrightarrow> (\<exists>f \<in> set (u_fields u). \<not> isVoid f \<and> g = go_decl P (uf_decl f))"

inductive has_gty :: "pkg \<Rightarrow> gty \<Rightarrow> val \<Rightarrow> bool" for P where
  hg_void: "has_gty P (GBase Void) VVoid"
| hg_bool: "has_gty P (GBase Bool) (VBool b)"
| hg_num32: "b \<in> {Int32, Uint32, Float32} \<Longrightarrow> has_gty P (GBase b) (VNum32 w)"
| hg_num64: "b \<in> {Int64, Uint64, Float64} \<Longrightarrow> has_gty P (GBase b) (VNum64 v)"
| hg_string: "has_gty P (GBase String) (VString s)"
| hg_bytes: "has_gty P GBytes (VBytes s)"
| hg_bytearr: "length s = k \<Longrightarrow> has_gty P (GByteArr k) (VByteArr s)"
| hg_nil: "has_gty P (GPtr g) (VPtr None)"
| hg_ptr: "has_gty P g v \<Longrightarrow> has_gty P (GPtr g) (VPtr (Some v))"
| hg_arr: "length vs = k \<Longrightarrow> \<forall>v \<in> set vs. has_gty P g v \<Longrightarrow> has_gty P (GArr k g) (VArr vs)"
| hg_slice: "l \<le> length vs \<Longrightarrow> \<forall>v \<in> set vs. has_gty P g v \<Longrightarrow> has_gty P (GSlice g) (VSlice l vs)"
| hg_enum: "sym_of P s = Some (Sym_enum tags) \<Longrightarrow> has_gty P (GNamed s) (VNum32 w)"
| hg_struct: "sym_of P s = Some (Sym_struct ds) \<Longrightarrow>
    list_all2 (\<lambda>d v. has_gty P (go_decl P d) v) ds vs \<Longrightarrow> has_gty P (GNamed s) (VStruct vs)"
| hg_union: "sym_of P s = Some (Sym_union u) \<Longrightarrow> has_gty P (go_typ P (u_tagtype u)) tag \<Longrightarrow>
    (\<forall>g b. body = Some (g, b) \<longrightarrow> has_gty P g b \<and> arm_gty P u g) \<Longrightarrow>
    has_gty P (GNamed s) (VUnion tag body)"

inductive_simps has_base_simps [simp]:
  "has_gty P (GBase Void) v" "has_gty P (GBase Bool) v" "has_gty P (GBase String) v"
  "has_gty P (GBase Byte) v" "has_gty P GBytes v" "has_gty P (GByteArr k) v"
  "has_gty P (GBase Int32) v" "has_gty P (GBase Uint32) v" "has_gty P (GBase Float32) v"
  "has_gty P (GBase Int64) v" "has_gty P (GBase Uint64) v" "has_gty P (GBase Float64) v"
inductive_simps has_ptr_simps [simp]: "has_gty P (GPtr g) v"
inductive_simps has_arr_simps [simp]: "has_gty P (GArr k g) v"
inductive_simps has_slice_simps [simp]: "has_gty P (GSlice g) v"
inductive_simps has_named_simps: "has_gty P (GNamed s) v"

end
