(* ===== verification/XdrWf.thy ===== *)
theory XdrWf imports XdrSchema begin

text \<open>
  Well-formed packages: what goxdr and the Go compiler together guarantee of an emitted
  package. Every name used is defined, aliases resolve, types are finite, union
  discriminants are int, unsigned int, bool or an enum. The check is executable. The
  main facts are the fixpoint equations of alias resolution and of zero values, and that
  zero values are well typed.
\<close>

section \<open>The check\<close>

definition decl_ok :: "pkg \<Rightarrow> rpc_decl \<Rightarrow> bool" where
  "decl_ok P d =
     (case d_typ d of
        Base b \<Rightarrow>
          (case b of
             Void \<Rightarrow> False
           | Byte \<Rightarrow> d_qual d = ARRAY \<or> d_qual d = VEC
           | String \<Rightarrow> d_qual d = SCALAR
           | _ \<Rightarrow> True)
      | Ident s \<Rightarrow> sym_of P s \<noteq> None)"

fun gty_ok :: "pkg \<Rightarrow> gty \<Rightarrow> bool" where
  "gty_ok P (GBase b) = (b \<noteq> Byte)"
| "gty_ok P (GNamed s) =
     (case sym_of P s of None \<Rightarrow> False | Some (Sym_typedef d) \<Rightarrow> False | Some _ \<Rightarrow> True)"
| "gty_ok P GBytes = True"
| "gty_ok P (GByteArr k) = True"
| "gty_ok P (GPtr g) = gty_ok P g"
| "gty_ok P (GArr k g) = gty_ok P g"
| "gty_ok P (GSlice g) = gty_ok P g"

definition tag_ok :: "pkg \<Rightarrow> tname \<Rightarrow> bool" where
  "tag_ok P t =
     ((case t of Base b \<Rightarrow> True | Ident s \<Rightarrow> sym_of P s \<noteq> None) \<and>
      (case go_typ P t of
         GBase b \<Rightarrow> b = Bool \<or> b = Int32 \<or> b = Uint32
       | GNamed s \<Rightarrow> (case sym_of P s of Some (Sym_enum _) \<Rightarrow> True | _ \<Rightarrow> False)
       | _ \<Rightarrow> False))"

definition wf_sym :: "pkg \<Rightarrow> string \<Rightarrow> rpc_sym \<Rightarrow> bool" where
  "wf_sym P s sd =
     (case sd of
        Sym_typedef d \<Rightarrow>
          go_typ P (Ident s) = go_decl P d \<and> decl_ok P d \<and> gty_ok P (go_decl P d)
      | Sym_enum tags \<Rightarrow> zero P (GNamed s) = VNum32 0
      | Sym_struct ds \<Rightarrow>
          zero P (GNamed s) = VStruct (map (\<lambda>d. zero P (go_decl P d)) ds) \<and>
          list_all (decl_ok P) ds
      | Sym_union u \<Rightarrow>
          zero P (GNamed s) = VUnion (zero P (go_typ P (u_tagtype u))) None \<and>
          tag_ok P (u_tagtype u) \<and>
          list_all (\<lambda>f. isVoid f \<or> decl_ok P (uf_decl f)) (u_fields u))"

definition wf_pkg :: "pkg \<Rightarrow> bool" where
  "wf_pkg P = list_all (\<lambda>(s, sd). wf_sym P s sd) (p_defs P)"

lemma wf_pkg_sym: "wf_pkg P \<Longrightarrow> sym_of P s = Some sd \<Longrightarrow> wf_sym P s sd"
  by (auto simp: wf_pkg_def sym_of_def list_all_iff dest!: map_of_SomeD)

section \<open>Alias resolution\<close>

lemma go_typ_Base [simp]: "go_typ P (Base b) = GBase b"
  by (simp add: go_typ_def)

lemma go_typ_typedef:
  "wf_pkg P \<Longrightarrow> sym_of P s = Some (Sym_typedef d) \<Longrightarrow> go_typ P (Ident s) = go_decl P d"
  by (auto dest!: wf_pkg_sym simp: wf_sym_def)

lemma go_typ_named:
  "sym_of P s = Some sd \<Longrightarrow> (\<And>d. sd \<noteq> Sym_typedef d) \<Longrightarrow> go_typ P (Ident s) = GNamed s"
  by (cases "p_nest P") (auto simp: go_typ_def split: rpc_sym.splits)

definition typ_ok :: "pkg \<Rightarrow> tname \<Rightarrow> bool" where
  "typ_ok P t = (case t of Base b \<Rightarrow> b \<noteq> Byte | Ident s \<Rightarrow> sym_of P s \<noteq> None)"

lemma go_typ_ok:
  assumes "wf_pkg P" and "typ_ok P t"
  shows "gty_ok P (go_typ P t)"
proof (cases t)
  case (Base b)
  with assms show ?thesis by (simp add: typ_ok_def)
next
  case (Ident s)
  with assms(2) obtain sd where sd: "sym_of P s = Some sd"
    by (auto simp: typ_ok_def)
  note wf = wf_pkg_sym [OF assms(1) sd]
  show ?thesis
  proof (cases "\<exists>d. sd = Sym_typedef d")
    case True
    with wf Ident show ?thesis by (auto simp: wf_sym_def)
  next
    case False
    with go_typ_named [OF sd] Ident sd show ?thesis
      by (auto split: rpc_sym.splits)
  qed
qed

lemma decl_typ_ok:
  "decl_ok P d \<Longrightarrow> d_typ d \<noteq> Base Byte \<Longrightarrow> typ_ok P (d_typ d)"
  by (auto simp: decl_ok_def typ_ok_def split: tname.splits base.splits)

lemma go_decl_ok: "wf_pkg P \<Longrightarrow> decl_ok P d \<Longrightarrow> gty_ok P (go_decl P d)"
  using go_typ_ok [of P "d_typ d"] decl_typ_ok [of P d]
  by (auto simp: go_decl_def decltype_def split: qual_t.splits)

section \<open>Zero values\<close>

lemma zero_simps [simp]:
  "zero P (GBase b) = zero_base b"
  "zero P GBytes = VBytes []"
  "zero P (GByteArr k) = VByteArr (replicate k 0)"
  "zero P (GPtr g) = VPtr None"
  "zero P (GArr k g) = VArr (replicate k (zero P g))"
  "zero P (GSlice g) = VSlice 0 []"
  by (cases "p_nest P"; simp add: zero_def)+

lemma size_in_list: "v \<in> set vs \<Longrightarrow> size v < Suc (size_list size vs)"
  by (induction vs) auto

lemma zero_base_typed: "b \<noteq> Byte \<Longrightarrow> has_gty P (GBase b) (zero_base b)"
  by (cases b) (auto intro: has_gty.intros)

lemma tag_gty_ok: "tag_ok P t \<Longrightarrow> gty_ok P (go_typ P t)"
  by (auto simp: tag_ok_def split: gty.splits rpc_sym.splits option.splits)

text \<open>The zero value of a type has that type: induction on the size of the value.\<close>

lemma zero_typed:
  assumes "wf_pkg P" and "gty_ok P g"
  shows "has_gty P g (zero P g)"
  using assms(2)
proof (induction "size (zero P g)" arbitrary: g rule: less_induct)
  case less
  have IH: "has_gty P g' (zero P g')"
    if "size (zero P g') < size (zero P g)" and "gty_ok P g'" for g'
    using less.hyps that by blast
  show ?case
  proof (cases g)
    case (GBase b)
    with less.prems show ?thesis by (simp add: zero_base_typed)
  next
    case (GNamed s)
    with less.prems obtain sd where sd: "sym_of P s = Some sd"
      and ntd: "\<And>d. sd \<noteq> Sym_typedef d"
      by (auto split: option.splits rpc_sym.splits)
    note wf = wf_pkg_sym [OF assms(1) sd, unfolded wf_sym_def]
    show ?thesis
    proof (cases sd)
      case (Sym_struct ds)
      with wf have z: "zero P g = VStruct (map (\<lambda>d. zero P (go_decl P d)) ds)"
        and ok: "list_all (decl_ok P) ds"
        using GNamed by auto
      have "has_gty P (go_decl P d) (zero P (go_decl P d))" if "d \<in> set ds" for d
      proof (rule IH)
        have "zero P (go_decl P d) \<in> set (map (\<lambda>d. zero P (go_decl P d)) ds)"
          using that by simp
        from size_in_list [OF this] z
        show "size (zero P (go_decl P d)) < size (zero P g)"
          by simp
        show "gty_ok P (go_decl P d)"
          using ok that assms(1) by (auto simp: list_all_iff intro: go_decl_ok)
      qed
      then have "list_all2 (\<lambda>d v. has_gty P (go_decl P d) v) ds
          (map (\<lambda>d. zero P (go_decl P d)) ds)"
        by (auto simp: list_all2_map2 intro: list.rel_refl_strong)
      then show ?thesis using GNamed Sym_struct sd z by (simp add: hg_struct)
    next
      case (Sym_union u)
      with wf have z: "zero P g = VUnion (zero P (go_typ P (u_tagtype u))) None"
        and ok: "tag_ok P (u_tagtype u)"
        using GNamed by auto
      have "has_gty P (go_typ P (u_tagtype u)) (zero P (go_typ P (u_tagtype u)))"
        using z ok by (auto intro: IH tag_gty_ok)
      then show ?thesis using GNamed Sym_union sd z by (simp add: hg_union)
    next
      case (Sym_enum tags)
      with wf GNamed sd show ?thesis by (simp add: hg_enum)
    qed (use ntd in simp)
  next
    case (GArr k g')
    show ?thesis
    proof (cases k)
      case 0
      with GArr show ?thesis by simp
    next
      case (Suc k')
      have "size (zero P g') < size (zero P g)" using GArr Suc by simp
      moreover have "gty_ok P g'" using GArr less.prems by simp
      ultimately have "has_gty P g' (zero P g')" by (rule IH)
      with GArr show ?thesis by simp
    qed
  qed (use less.prems in auto)
qed

lemma arm_body_typed:
  assumes "wf_pkg P" "gty_ok P g" "\<forall>g b. body = Some (g, b) \<longrightarrow> has_gty P g b"
  shows "has_gty P g (arm_body P g body)"
  using assms by (auto simp: arm_body_def zero_typed split: option.splits)

section \<open>Discriminants\<close>

lemma tag_GetU32:
  assumes "tag_ok P t" and "has_gty P (go_typ P t) v"
  shows "\<exists>w. GetU32 v = Some w"
  using assms
  by (auto simp: tag_ok_def has_named_simps split: gty.splits option.splits rpc_sym.splits)

end
