(* ===== verification/XdrMarshal.thy ===== *)
theory XdrMarshal imports XdrWf begin

text \<open>
  Marshaling as the generated code and the runtime do it: XdrOut.Marshal and
  XdrIn.Marshal (header.go.in) dispatch on the kind of value, the generated XdrRecurse
  and XdrMarshalN methods (the templates of goxdr.go) recurse. A decoder works in place:
  it gets the destination's old value, as the Go code gets a pointer, and reuses what the
  code reuses (pointed-to values, the body of a union, the elements of a slice).
  Recursion goes through XDR_T of a named type, so the number of nested named types is
  the recursion depth of the Go stack; the model bounds it, and going past the bound is
  the panic \<open>StackOverflow\<close>. Values of the wrong shape, which Go's types exclude, are \<open>Stuck\<close>.
\<close>

type_synonym encoder = "val \<Rightarrow> go_panic + bytes"
type_synonym decoder = "val \<Rightarrow> bytes \<Rightarrow> go_panic + (val \<times> bytes)"

section \<open>The XdrNum32 setters\<close>

definition bool_SetU32 :: "u32 \<Rightarrow> go_panic + bool" where
  "bool_SetU32 nv =
     (if nv = 0 then Inr False else if nv = 1 then Inr True else Inl (XdrError (BadBool nv)))"

definition size_SetU32 :: "u32 \<Rightarrow> u32 \<Rightarrow> go_panic + u32" where
  "size_SetU32 bound nv =
     (if nv > bound then Inl (XdrError (SizeOverBound nv bound))
      else if go_int nv < 0 then Inl (XdrError (SizeOverInt nv))
      else Inr nv)"

text \<open>SetU32 of the present flag of a pointer: nil, the old value kept, or a new zero value.\<close>

definition ptrflag_SetU32 :: "val \<Rightarrow> val option \<Rightarrow> u32 \<Rightarrow> go_panic + val option" where
  "ptrflag_SetU32 z p nv =
     (if nv = 0 then Inr None
      else if nv = 1 then Inr (Some (case p of None \<Rightarrow> z | Some v \<Rightarrow> v))
      else Inl (XdrError (BadPtrFlag nv)))"

section \<open>Slices\<close>

definition XdrCheckLen :: "u32 \<Rightarrow> u32 \<Rightarrow> go_panic + unit" where
  "XdrCheckLen bound len =
     (if len > bound then Inl (XdrError (VecOverBound len bound))
      else if go_int len < 0 then Inl (XdrError (VecOverInt len))
      else Inr ())"

text \<open>
  The new capacity when the slice must grow: twice the old one, but at least the length
  and at most the bound. The arithmetic is that of Go's 64-bit int and uint.
\<close>

definition vec_newcap :: "u32 \<Rightarrow> u32 \<Rightarrow> nat \<Rightarrow> nat" where
  "vec_newcap bound len cap =
     (let nc = (2 * of_nat cap :: u64);
          b = (ucast bound :: u64)
      in if sint nc < go_int len then nat (go_int len)
         else if nc > b
         then nat (sint (if sint b < 0 then drop_bit 1 (- 1) else b))
         else nat (sint nc))"

definition SetVecLen :: "u32 \<Rightarrow> val \<Rightarrow> u32 \<Rightarrow> nat \<times> val list \<Rightarrow> go_panic + (nat \<times> val list)" where
  "SetVecLen bound z len = (\<lambda>(l, b).
     bindE (XdrCheckLen bound len) (\<lambda>_.
       if go_int len \<le> int (length b) then Inr (nat (go_int len), b)
       else Inr (nat (go_int len),
                 take l b @ replicate (vec_newcap bound len (length b) - l) z)))"

section \<open>Decoding: XdrIn\<close>

fun in_bool :: decoder where
  "in_bool (VBool _) buf =
     bindE (xdrGet32 buf) (\<lambda>(w, r). bindE (bool_SetU32 w) (\<lambda>b. Inr (VBool b, r)))"
| "in_bool _ _ = Inl Stuck"

fun in_num32 :: decoder where
  "in_num32 (VNum32 _) buf = bindE (xdrGet32 buf) (\<lambda>(w, r). Inr (VNum32 w, r))"
| "in_num32 _ _ = Inl Stuck"

fun in_num64 :: decoder where
  "in_num64 (VNum64 _) buf = bindE (xdrGet64 buf) (\<lambda>(w, r). Inr (VNum64 w, r))"
| "in_num64 _ _ = Inl Stuck"

fun in_void :: decoder where
  "in_void VVoid buf = Inr (VVoid, buf)"
| "in_void _ _ = Inl Stuck"

definition in_base :: "base \<Rightarrow> decoder" where
  "in_base b =
     (case b of
        Bool \<Rightarrow> in_bool
      | Int32 \<Rightarrow> in_num32 | Uint32 \<Rightarrow> in_num32 | Float32 \<Rightarrow> in_num32
      | Int64 \<Rightarrow> in_num64 | Uint64 \<Rightarrow> in_num64 | Float64 \<Rightarrow> in_num64
      | Void \<Rightarrow> in_void
      | _ \<Rightarrow> (\<lambda>_ _. Inl Stuck))"

fun in_string :: "u32 \<Rightarrow> decoder" where
  "in_string bound (VString _) buf =
     bindE (in_varbytes bound buf) (\<lambda>(s, r). Inr (VString s, r))"
| "in_string _ _ _ = Inl Stuck"

fun in_vecopaque :: "u32 \<Rightarrow> decoder" where
  "in_vecopaque bound (VBytes _) buf =
     bindE (in_varbytes bound buf) (\<lambda>(s, r). Inr (VBytes s, r))"
| "in_vecopaque _ _ _ = Inl Stuck"

fun in_arropaque :: decoder where
  "in_arropaque (VByteArr old) buf =
     bindE (in_fixbytes (length old) buf) (\<lambda>(s, r). Inr (VByteArr s, r))"
| "in_arropaque _ _ = Inl Stuck"

text \<open>XdrRecurse of a pointer: the flag, then the pointed-to value if present.\<close>

fun in_ptr :: "val \<Rightarrow> decoder \<Rightarrow> decoder" where
  "in_ptr z dec (VPtr p) buf =
     bindE (xdrGet32 buf) (\<lambda>(w, r).
     bindE (ptrflag_SetU32 z p w) (\<lambda>p'.
       case p' of
         None \<Rightarrow> Inr (VPtr None, r)
       | Some old \<Rightarrow> bindE (dec old r) (\<lambda>(v, r'). Inr (VPtr (Some v), r'))))"
| "in_ptr _ _ _ _ = Inl Stuck"

fun in_elems :: "decoder \<Rightarrow> val list \<Rightarrow> bytes \<Rightarrow> go_panic + (val list \<times> bytes)" where
  "in_elems dec [] buf = Inr ([], buf)"
| "in_elems dec (old # olds) buf =
     bindE (dec old buf) (\<lambda>(v, r). bindE (in_elems dec olds r) (\<lambda>(vs, r'). Inr (v # vs, r')))"

fun in_array :: "decoder \<Rightarrow> decoder" where
  "in_array dec (VArr olds) buf = bindE (in_elems dec olds buf) (\<lambda>(vs, r). Inr (VArr vs, r))"
| "in_array _ _ _ = Inl Stuck"

text \<open>
  The loop of XdrMarshalN, k iterations from index i; the slice grows one by one. It runs
  with any XDR, of state \<open>'s\<close>.
\<close>

fun vec_loop ::
  "u32 \<Rightarrow> val \<Rightarrow> (val \<Rightarrow> 's \<Rightarrow> go_panic + (val \<times> 's)) \<Rightarrow> nat \<Rightarrow> nat \<Rightarrow> nat \<times> val list \<Rightarrow> 's \<Rightarrow>
   go_panic + ((nat \<times> val list) \<times> 's)" where
  "vec_loop bound z dec 0 i lb buf = Inr (lb, buf)"
| "vec_loop bound z dec (Suc k) i lb buf =
     bindE (if fst lb \<le> i then SetVecLen bound z (of_nat (i + 1)) lb else Inr lb) (\<lambda>(l, b).
     bindE (dec (b ! i) buf) (\<lambda>(v, r).
       vec_loop bound z dec k (i + 1) (l, b[i := v]) r))"

definition XdrMarshalN_in ::
  "u32 \<Rightarrow> val \<Rightarrow> (val \<Rightarrow> 's \<Rightarrow> go_panic + (val \<times> 's)) \<Rightarrow> u32 \<Rightarrow> nat \<times> val list \<Rightarrow> 's \<Rightarrow>
   go_panic + ((nat \<times> val list) \<times> 's)" where
  "XdrMarshalN_in bound z dec n lb buf =
     bindE (XdrCheckLen bound n) (\<lambda>_.
     bindE (vec_loop bound z dec (unat n) 0 lb buf) (\<lambda>((l, b), r).
       Inr ((if unat n < l then unat n else l, b), r)))"

fun in_vec :: "u32 \<Rightarrow> val \<Rightarrow> decoder \<Rightarrow> decoder" where
  "in_vec bound z dec (VSlice l b) buf =
     bindE (xdrGet32 buf) (\<lambda>(w, r).
     bindE (size_SetU32 bound w) (\<lambda>n.
     bindE (XdrMarshalN_in bound z dec n (l, b) r) (\<lambda>((l', b'), r').
       Inr (VSlice l' b', r'))))"
| "in_vec _ _ _ _ _ = Inl Stuck"

text \<open>
  xdrval: the XdrType a declaration marshals as. \<open>rec\<close> is XDR_T of the base type.
\<close>

definition in_decl :: "pkg \<Rightarrow> (tname \<Rightarrow> decoder) \<Rightarrow> rpc_decl \<Rightarrow> decoder" where
  "in_decl P rec d =
     (if d_typ d = Base String then in_string (d_bound d)
      else if d_typ d = Base Byte
      then (if d_qual d = VEC then in_vecopaque (d_bound d) else in_arropaque)
      else case d_qual d of
        SCALAR \<Rightarrow> rec (d_typ d)
      | PTR \<Rightarrow> in_ptr (zero P (go_typ P (d_typ d))) (rec (d_typ d))
      | ARRAY \<Rightarrow> in_array (rec (d_typ d))
      | VEC \<Rightarrow> in_vec (d_bound d) (zero P (go_typ P (d_typ d))) (rec (d_typ d)))"

fun in_fields :: "decoder list \<Rightarrow> val list \<Rightarrow> bytes \<Rightarrow> go_panic + (val list \<times> bytes)" where
  "in_fields [] [] buf = Inr ([], buf)"
| "in_fields (f # fs) (old # olds) buf =
     bindE (f old buf) (\<lambda>(v, r). bindE (in_fields fs olds r) (\<lambda>(vs, r'). Inr (v # vs, r')))"
| "in_fields _ _ _ = Inl Stuck"

fun in_struct :: "decoder list \<Rightarrow> decoder" where
  "in_struct fs (VStruct olds) buf = bindE (in_fields fs olds buf) (\<lambda>(vs, r). Inr (VStruct vs, r))"
| "in_struct _ _ _ = Inl Stuck"

text \<open>
  XdrRecurse of a union: the discriminant, then the switch; an arm's body is reached
  through its accessor, which stores a new body in \<open>_u\<close> when it has to allocate one.
\<close>

fun in_union :: "pkg \<Rightarrow> (tname \<Rightarrow> decoder) \<Rightarrow> rpc_union \<Rightarrow> decoder" where
  "in_union P rec u (VUnion tag body) buf =
     bindE (rec (u_tagtype u) tag buf) (\<lambda>(tag', r).
       case GetU32 tag' of
         None \<Rightarrow> Inl Stuck
       | Some disc \<Rightarrow>
         (case select_arm u disc of
            None \<Rightarrow> Inl (XdrError (InvalidTag (u_tagid u) disc))
          | Some f \<Rightarrow>
            if isVoid f then Inr (VUnion tag' body, r)
            else bindE (arm_access P u f disc body) (\<lambda>old.
              bindE (in_decl P rec (uf_decl f) old r) (\<lambda>(v, r').
                Inr (VUnion tag' (Some (go_decl P (uf_decl f), v)), r')))))"
| "in_union _ _ _ _ _ = Inl Stuck"

definition in_sym :: "pkg \<Rightarrow> (tname \<Rightarrow> decoder) \<Rightarrow> rpc_sym \<Rightarrow> decoder" where
  "in_sym P rec sd =
     (case sd of
        Sym_typedef d \<Rightarrow> in_decl P rec d
      | Sym_enum tags \<Rightarrow> in_num32
      | Sym_struct ds \<Rightarrow> in_struct (map (in_decl P rec) ds)
      | Sym_union u \<Rightarrow> in_union P rec u)"

fun in_typ :: "pkg \<Rightarrow> nat \<Rightarrow> tname \<Rightarrow> decoder" where
  "in_typ P 0 t = (\<lambda>_ _. Inl StackOverflow)"
| "in_typ P (Suc n) (Base b) = in_base b"
| "in_typ P (Suc n) (Ident s) =
     (case sym_of P s of
        None \<Rightarrow> (\<lambda>_ _. Inl Stuck)
      | Some sd \<Rightarrow> in_sym P (in_typ P n) sd)"

section \<open>Encoding: XdrOut\<close>

fun out_bool :: encoder where
  "out_bool (VBool b) = Inr (xdrPut32 (if b then 1 else 0))"
| "out_bool _ = Inl Stuck"

fun out_num32 :: encoder where
  "out_num32 (VNum32 w) = Inr (xdrPut32 w)"
| "out_num32 _ = Inl Stuck"

fun out_num64 :: encoder where
  "out_num64 (VNum64 w) = Inr (xdrPut64 w)"
| "out_num64 _ = Inl Stuck"

fun out_void :: encoder where
  "out_void VVoid = Inr []"
| "out_void _ = Inl Stuck"

definition out_base :: "base \<Rightarrow> encoder" where
  "out_base b =
     (case b of
        Bool \<Rightarrow> out_bool
      | Int32 \<Rightarrow> out_num32 | Uint32 \<Rightarrow> out_num32 | Float32 \<Rightarrow> out_num32
      | Int64 \<Rightarrow> out_num64 | Uint64 \<Rightarrow> out_num64 | Float64 \<Rightarrow> out_num64
      | Void \<Rightarrow> out_void
      | _ \<Rightarrow> (\<lambda>_. Inl Stuck))"

fun out_string :: encoder where
  "out_string (VString s) = Inr (out_varbytes s)"
| "out_string _ = Inl Stuck"

fun out_vecopaque :: encoder where
  "out_vecopaque (VBytes s) = Inr (out_varbytes s)"
| "out_vecopaque _ = Inl Stuck"

fun out_arropaque :: encoder where
  "out_arropaque (VByteArr s) = Inr (xdrPutBytes s)"
| "out_arropaque _ = Inl Stuck"

fun out_ptr :: "encoder \<Rightarrow> encoder" where
  "out_ptr enc (VPtr None) = Inr (xdrPut32 0)"
| "out_ptr enc (VPtr (Some v)) = bindE (enc v) (\<lambda>b. Inr (xdrPut32 1 @ b))"
| "out_ptr _ _ = Inl Stuck"

fun out_elems :: "encoder \<Rightarrow> val list \<Rightarrow> go_panic + bytes" where
  "out_elems enc [] = Inr []"
| "out_elems enc (v # vs) = bindE (enc v) (\<lambda>b. bindE (out_elems enc vs) (\<lambda>bs. Inr (b @ bs)))"

fun out_array :: "encoder \<Rightarrow> encoder" where
  "out_array enc (VArr vs) = out_elems enc vs"
| "out_array _ _ = Inl Stuck"

text \<open>
  XdrMarshalN when encoding: the count is the slice's own length, so the loop never grows
  the slice.
\<close>

fun out_vec :: "u32 \<Rightarrow> encoder \<Rightarrow> encoder" where
  "out_vec bound enc (VSlice l b) =
     bindE (XdrCheckLen bound (of_nat l)) (\<lambda>_.
     bindE (out_elems enc (take (unat (of_nat l :: u32)) b)) (\<lambda>bs.
       Inr (xdrPut32 (of_nat l) @ bs)))"
| "out_vec _ _ _ = Inl Stuck"

definition out_decl :: "pkg \<Rightarrow> (tname \<Rightarrow> encoder) \<Rightarrow> rpc_decl \<Rightarrow> encoder" where
  "out_decl P rec d =
     (if d_typ d = Base String then out_string
      else if d_typ d = Base Byte
      then (if d_qual d = VEC then out_vecopaque else out_arropaque)
      else case d_qual d of
        SCALAR \<Rightarrow> rec (d_typ d)
      | PTR \<Rightarrow> out_ptr (rec (d_typ d))
      | ARRAY \<Rightarrow> out_array (rec (d_typ d))
      | VEC \<Rightarrow> out_vec (d_bound d) (rec (d_typ d)))"

fun out_fields :: "encoder list \<Rightarrow> val list \<Rightarrow> go_panic + bytes" where
  "out_fields [] [] = Inr []"
| "out_fields (f # fs) (v # vs) = bindE (f v) (\<lambda>b. bindE (out_fields fs vs) (\<lambda>bs. Inr (b @ bs)))"
| "out_fields _ _ = Inl Stuck"

fun out_struct :: "encoder list \<Rightarrow> encoder" where
  "out_struct fs (VStruct vs) = out_fields fs vs"
| "out_struct _ _ = Inl Stuck"

fun out_union :: "pkg \<Rightarrow> (tname \<Rightarrow> encoder) \<Rightarrow> rpc_union \<Rightarrow> encoder" where
  "out_union P rec u (VUnion tag body) =
     bindE (rec (u_tagtype u) tag) (\<lambda>b.
       case GetU32 tag of
         None \<Rightarrow> Inl Stuck
       | Some disc \<Rightarrow>
         (case select_arm u disc of
            None \<Rightarrow> Inl (XdrError (InvalidTag (u_tagid u) disc))
          | Some f \<Rightarrow>
            if isVoid f then Inr b
            else bindE (arm_access P u f disc body) (\<lambda>v.
              bindE (out_decl P rec (uf_decl f) v) (\<lambda>bs. Inr (b @ bs)))))"
| "out_union _ _ _ _ = Inl Stuck"

definition out_sym :: "pkg \<Rightarrow> (tname \<Rightarrow> encoder) \<Rightarrow> rpc_sym \<Rightarrow> encoder" where
  "out_sym P rec sd =
     (case sd of
        Sym_typedef d \<Rightarrow> out_decl P rec d
      | Sym_enum tags \<Rightarrow> out_num32
      | Sym_struct ds \<Rightarrow> out_struct (map (out_decl P rec) ds)
      | Sym_union u \<Rightarrow> out_union P rec u)"

fun out_typ :: "pkg \<Rightarrow> nat \<Rightarrow> tname \<Rightarrow> encoder" where
  "out_typ P 0 t = (\<lambda>_. Inl StackOverflow)"
| "out_typ P (Suc n) (Base b) = out_base b"
| "out_typ P (Suc n) (Ident s) =
     (case sym_of P s of
        None \<Rightarrow> (\<lambda>_. Inl Stuck)
      | Some sd \<Rightarrow> out_sym P (out_typ P n) sd)"

end
