(* ===== verification/XdrSpec.thy ===== *)
theory XdrSpec imports XdrMarshal begin

text \<open>
  The abstract specification of marshaling. An XDR value (\<open>xval\<close>) is a value in the sense
  of RFC 4506, without Go's representation: no capacity, no unused union body, no pointers.
  \<open>rfc\<close> is its encoding by the RFC, \<open>conf_typ\<close> says which XDR values belong to a type
  (bounds included), and \<open>abs_typ\<close> is the abstraction of a Go value.
\<close>

section \<open>XDR values and their encoding\<close>

datatype xval =
    XVoid
  | XBool bool
  | X32 u32
  | X64 u64
  | XVar bytes
  | XFix bytes
  | XOpt "xval option"
  | XArr "xval list"
  | XVec "xval list"
  | XStruct "xval list"
  | XUnion xval "xval option"

definition zero_pad :: "bytes \<Rightarrow> bytes" where
  "zero_pad s = s @ replicate (pad_len (length s)) 0"

fun rfc :: "xval \<Rightarrow> bytes" where
  "rfc XVoid = []"
| "rfc (XBool b) = be_put32 (if b then 1 else 0)"
| "rfc (X32 w) = be_put32 w"
| "rfc (X64 w) = be_put64 w"
| "rfc (XVar s) = be_put32 (of_nat (length s)) @ zero_pad s"
| "rfc (XFix s) = zero_pad s"
| "rfc (XOpt None) = be_put32 0"
| "rfc (XOpt (Some a)) = be_put32 1 @ rfc a"
| "rfc (XArr as) = concat (map rfc as)"
| "rfc (XVec as) = be_put32 (of_nat (length as)) @ concat (map rfc as)"
| "rfc (XStruct as) = concat (map rfc as)"
| "rfc (XUnion t None) = rfc t"
| "rfc (XUnion t (Some a)) = rfc t @ rfc a"

fun xdisc :: "xval \<Rightarrow> u32 option" where
  "xdisc (XBool b) = Some (if b then 1 else 0)"
| "xdisc (X32 w) = Some w"
| "xdisc _ = None"

section \<open>Abstraction of Go values\<close>

type_synonym abstraction = "val \<Rightarrow> xval option"

fun abs_bool :: abstraction where
  "abs_bool (VBool b) = Some (XBool b)"
| "abs_bool _ = None"

fun abs_num32 :: abstraction where
  "abs_num32 (VNum32 w) = Some (X32 w)"
| "abs_num32 _ = None"

fun abs_num64 :: abstraction where
  "abs_num64 (VNum64 w) = Some (X64 w)"
| "abs_num64 _ = None"

fun abs_void :: abstraction where
  "abs_void VVoid = Some XVoid"
| "abs_void _ = None"

definition abs_base :: "base \<Rightarrow> abstraction" where
  "abs_base b =
     (case b of
        Bool \<Rightarrow> abs_bool
      | Int32 \<Rightarrow> abs_num32 | Uint32 \<Rightarrow> abs_num32 | Float32 \<Rightarrow> abs_num32
      | Int64 \<Rightarrow> abs_num64 | Uint64 \<Rightarrow> abs_num64 | Float64 \<Rightarrow> abs_num64
      | Void \<Rightarrow> abs_void
      | _ \<Rightarrow> (\<lambda>_. None))"

fun abs_string :: abstraction where
  "abs_string (VString s) = Some (XVar s)"
| "abs_string _ = None"

fun abs_vecopaque :: abstraction where
  "abs_vecopaque (VBytes s) = Some (XVar s)"
| "abs_vecopaque _ = None"

fun abs_arropaque :: abstraction where
  "abs_arropaque (VByteArr s) = Some (XFix s)"
| "abs_arropaque _ = None"

fun abs_ptr :: "abstraction \<Rightarrow> abstraction" where
  "abs_ptr f (VPtr None) = Some (XOpt None)"
| "abs_ptr f (VPtr (Some v)) = bindO (f v) (\<lambda>a. Some (XOpt (Some a)))"
| "abs_ptr _ _ = None"

fun abs_array :: "abstraction \<Rightarrow> abstraction" where
  "abs_array f (VArr vs) = bindO (those_opt (map f vs)) (\<lambda>as. Some (XArr as))"
| "abs_array _ _ = None"

text \<open>A slice stands for its first \<open>l\<close> elements; no XDR vector has \<open>2 ^ 32\<close> or more.\<close>

fun abs_vec :: "abstraction \<Rightarrow> abstraction" where
  "abs_vec f (VSlice l b) =
     (if l < 2 ^ 32 \<and> l \<le> length b
      then bindO (those_opt (map f (take l b))) (\<lambda>as. Some (XVec as)) else None)"
| "abs_vec _ _ = None"

definition abs_decl :: "(tname \<Rightarrow> abstraction) \<Rightarrow> rpc_decl \<Rightarrow> abstraction" where
  "abs_decl rec d =
     (if d_typ d = Base String then abs_string
      else if d_typ d = Base Byte then (if d_qual d = VEC then abs_vecopaque else abs_arropaque)
      else case d_qual d of
        SCALAR \<Rightarrow> rec (d_typ d)
      | PTR \<Rightarrow> abs_ptr (rec (d_typ d))
      | ARRAY \<Rightarrow> abs_array (rec (d_typ d))
      | VEC \<Rightarrow> abs_vec (rec (d_typ d)))"

fun abs_struct :: "abstraction list \<Rightarrow> abstraction" where
  "abs_struct fs (VStruct vs) =
     (if length fs = length vs
      then bindO (those_opt (map2 (\<lambda>f v. f v) fs vs)) (\<lambda>as. Some (XStruct as)) else None)"
| "abs_struct _ _ = None"

fun abs_union :: "pkg \<Rightarrow> (tname \<Rightarrow> abstraction) \<Rightarrow> rpc_union \<Rightarrow> abstraction" where
  "abs_union P rec u (VUnion tag body) =
     bindO (rec (u_tagtype u) tag) (\<lambda>ta.
     bindO (GetU32 tag) (\<lambda>disc.
     bindO (select_arm u disc) (\<lambda>f.
       if isVoid f then Some (XUnion ta None)
       else bindO (abs_decl rec (uf_decl f) (arm_body P (go_decl P (uf_decl f)) body)) (\<lambda>a.
         Some (XUnion ta (Some a))))))"
| "abs_union _ _ _ _ = None"

definition abs_sym :: "pkg \<Rightarrow> (tname \<Rightarrow> abstraction) \<Rightarrow> rpc_sym \<Rightarrow> abstraction" where
  "abs_sym P rec sd =
     (case sd of
        Sym_typedef d \<Rightarrow> abs_decl rec d
      | Sym_enum tags \<Rightarrow> abs_num32
      | Sym_struct ds \<Rightarrow> abs_struct (map (abs_decl rec) ds)
      | Sym_union u \<Rightarrow> abs_union P rec u)"

fun abs_typ :: "pkg \<Rightarrow> nat \<Rightarrow> tname \<Rightarrow> abstraction" where
  "abs_typ P 0 t = (\<lambda>_. None)"
| "abs_typ P (Suc n) (Base b) = abs_base b"
| "abs_typ P (Suc n) (Ident s) =
     (case sym_of P s of None \<Rightarrow> (\<lambda>_. None) | Some sd \<Rightarrow> abs_sym P (abs_typ P n) sd)"

section \<open>Conformance: the values of a type\<close>

type_synonym conformance = "xval \<Rightarrow> bool"

fun conf_base :: "base \<Rightarrow> conformance" where
  "conf_base Bool (XBool b) = True"
| "conf_base b (X32 w) = (b = Int32 \<or> b = Uint32 \<or> b = Float32)"
| "conf_base b (X64 w) = (b = Int64 \<or> b = Uint64 \<or> b = Float64)"
| "conf_base Void XVoid = True"
| "conf_base _ _ = False"

fun conf_num32 :: conformance where
  "conf_num32 (X32 w) = True"
| "conf_num32 _ = False"

fun conf_var :: "u32 \<Rightarrow> conformance" where
  "conf_var bound (XVar s) = (length s \<le> unat bound)"
| "conf_var _ _ = False"

fun conf_fix :: "nat \<Rightarrow> conformance" where
  "conf_fix k (XFix s) = (length s = k)"
| "conf_fix _ _ = False"

fun conf_opt :: "conformance \<Rightarrow> conformance" where
  "conf_opt c (XOpt None) = True"
| "conf_opt c (XOpt (Some a)) = c a"
| "conf_opt _ _ = False"

fun conf_arr :: "nat \<Rightarrow> conformance \<Rightarrow> conformance" where
  "conf_arr k c (XArr as) = (length as = k \<and> list_all c as)"
| "conf_arr _ _ _ = False"

fun conf_vec :: "u32 \<Rightarrow> conformance \<Rightarrow> conformance" where
  "conf_vec bound c (XVec as) = (length as \<le> unat bound \<and> list_all c as)"
| "conf_vec _ _ _ = False"

definition conf_decl :: "(tname \<Rightarrow> conformance) \<Rightarrow> rpc_decl \<Rightarrow> conformance" where
  "conf_decl rec d =
     (if d_typ d = Base String then conf_var (d_bound d)
      else if d_typ d = Base Byte
      then (if d_qual d = VEC then conf_var (d_bound d) else conf_fix (unat (d_bound d)))
      else case d_qual d of
        SCALAR \<Rightarrow> rec (d_typ d)
      | PTR \<Rightarrow> conf_opt (rec (d_typ d))
      | ARRAY \<Rightarrow> conf_arr (unat (d_bound d)) (rec (d_typ d))
      | VEC \<Rightarrow> conf_vec (d_bound d) (rec (d_typ d)))"

fun conf_struct :: "conformance list \<Rightarrow> conformance" where
  "conf_struct cs (XStruct as) = list_all2 (\<lambda>c a. c a) cs as"
| "conf_struct _ _ = False"

fun conf_union :: "(tname \<Rightarrow> conformance) \<Rightarrow> rpc_union \<Rightarrow> conformance" where
  "conf_union rec u (XUnion t body) =
     (rec (u_tagtype u) t \<and>
      (case xdisc t of
         None \<Rightarrow> False
       | Some disc \<Rightarrow>
         (case select_arm u disc of
            None \<Rightarrow> False
          | Some f \<Rightarrow>
            (case body of
               None \<Rightarrow> isVoid f
             | Some a \<Rightarrow> \<not> isVoid f \<and> conf_decl rec (uf_decl f) a))))"
| "conf_union _ _ _ = False"

definition conf_sym :: "(tname \<Rightarrow> conformance) \<Rightarrow> rpc_sym \<Rightarrow> conformance" where
  "conf_sym rec sd =
     (case sd of
        Sym_typedef d \<Rightarrow> conf_decl rec d
      | Sym_enum tags \<Rightarrow> conf_num32
      | Sym_struct ds \<Rightarrow> conf_struct (map (conf_decl rec) ds)
      | Sym_union u \<Rightarrow> conf_union rec u)"

fun conf_typ :: "pkg \<Rightarrow> nat \<Rightarrow> tname \<Rightarrow> conformance" where
  "conf_typ P 0 t = (\<lambda>_. False)"
| "conf_typ P (Suc n) (Base b) = conf_base b"
| "conf_typ P (Suc n) (Ident s) =
     (case sym_of P s of None \<Rightarrow> (\<lambda>_. False) | Some sd \<Rightarrow> conf_sym (conf_typ P n) sd)"

section \<open>Encodings are aligned\<close>

lemma zero_pad_PutBytes: "zero_pad s = xdrPutBytes s"
  by (simp add: zero_pad_def xdrPutBytes_pad)

lemma concat_aligned:
  "(\<And>a. a \<in> set as \<Longrightarrow> length (f a) mod 4 = (0 :: nat)) \<Longrightarrow> length (concat (map f as)) mod 4 = 0"
  by (induction as) (auto simp: mod_add_eq [symmetric])

lemma rfc_aligned: "length (rfc a) mod 4 = 0"
proof (induction a rule: rfc.induct)
  case (9 as)
  then show ?case by (simp only: rfc.simps) (rule concat_aligned, blast)
next
  case (10 as)
  then have "length (concat (map rfc as)) mod 4 = 0" by (intro concat_aligned) blast
  then show ?case by (simp add: mod_add_eq [symmetric])
next
  case (11 as)
  then show ?case by (simp only: rfc.simps) (rule concat_aligned, blast)
next
  case (5 s)
  have "(4 + length (zero_pad s)) mod 4 = 0"
    using xdrPutBytes_aligned [of s] by (simp add: zero_pad_PutBytes)
  then show ?case by simp
next
  case (6 s)
  show ?case using xdrPutBytes_aligned [of s] by (simp add: zero_pad_PutBytes)
qed (auto simp: mod_add_eq [symmetric])

end
