(* ===== verification/XdrCodec.thy ===== *)
theory XdrCodec imports XdrSpec begin

text \<open>
  The contract between the code and its specification, the locale \<open>coder\<close>: for the Go
  values \<open>ty\<close> of a type, the decoder accepts exactly the encodings of the conforming XDR
  values and stores a Go value that stands for the decoded one, and the encoder writes
  the encoding of what a Go value stands for. The client lemmas (round trip, canonicity,
  independence of the destination, unique parsing) and the closure of the contract under
  pointers, arrays and slices are proved inside the locale.
\<close>

section \<open>The contract\<close>

locale coder =
  fixes ty :: "val \<Rightarrow> bool"
    and enc :: encoder
    and dec :: decoder
    and ab :: abstraction
    and cf :: conformance
  assumes dec_sound: "ty old \<Longrightarrow> dec old buf = Inr (v, r) \<Longrightarrow>
      ty v \<and> (\<exists>a. cf a \<and> ab v = Some a \<and> buf = rfc a @ r)"
    and dec_complete: "ty old \<Longrightarrow> cf a \<Longrightarrow> \<exists>v. dec old (rfc a @ r) = Inr (v, r) \<and> ab v = Some a"
    and dec_safe: "ty old \<Longrightarrow> dec old buf \<noteq> Inl Stuck"
    and enc_sound: "enc v = Inr b \<Longrightarrow> ab v = Some a \<Longrightarrow> b = rfc a"
    and enc_complete: "cf a \<Longrightarrow> ab v = Some a \<Longrightarrow> enc v = Inr (rfc a)"
    and enc_safe: "ty v \<Longrightarrow> enc v \<noteq> Inl Stuck"
begin

lemma dec_completeE:
  assumes "ty old" and "cf a"
  obtains v where "dec old (rfc a @ r) = Inr (v, r)" and "ab v = Some a" and "ty v"
  using dec_complete [OF assms, of r] dec_sound [OF assms(1)] by blast

lemma dec_soundE:
  assumes "ty old" and "dec old buf = Inr (v, r)"
  obtains a where "cf a" and "ab v = Some a" and "buf = rfc a @ r" and "ty v"
  using dec_sound [OF assms] by blast

lemma round_trip:
  assumes "ty old" and "ab v = Some a" and "cf a"
  shows "\<exists>b v'. enc v = Inr b \<and> dec old (b @ r) = Inr (v', r) \<and> ty v' \<and> ab v' = ab v"
proof -
  obtain v' where "dec old (rfc a @ r) = Inr (v', r)" "ab v' = Some a" "ty v'"
    by (rule dec_completeE [OF assms(1,3)])
  with enc_complete [OF assms(3,2)] assms(2) show ?thesis by auto
qed

lemma canonical:
  assumes "ty old" and "dec old buf = Inr (v, r)"
  shows "\<exists>b. enc v = Inr b \<and> buf = b @ r"
proof -
  obtain a where "cf a" "ab v = Some a" "buf = rfc a @ r"
    by (rule dec_soundE [OF assms])
  then show ?thesis using enc_complete by blast
qed

lemma destination_independent:
  assumes "ty old" and "ty old'" and "dec old buf = Inr (v, r)"
  shows "\<exists>v'. dec old' buf = Inr (v', r) \<and> ab v' = ab v"
proof -
  obtain a where "cf a" "ab v = Some a" "buf = rfc a @ r"
    by (rule dec_soundE [OF assms(1,3)])
  then show ?thesis using dec_complete [OF assms(2), of a r] by auto
qed

lemma accepts_iff:
  assumes "ty old"
  shows "(\<exists>v. dec old buf = Inr (v, r) \<and> ab v = Some a) \<longleftrightarrow> cf a \<and> buf = rfc a @ r"
  using dec_soundE [OF assms] dec_complete [OF assms] by (metis option.inject)

lemma unique_parse:
  assumes "ty old" and "cf a" and "cf b" and "rfc a @ r = rfc b @ s"
  shows "a = b \<and> r = s"
proof -
  obtain v where v: "dec old (rfc a @ r) = Inr (v, r)" "ab v = Some a"
    using dec_complete [OF assms(1,2)] by blast
  obtain w where w: "dec old (rfc b @ s) = Inr (w, s)" "ab w = Some b"
    using dec_complete [OF assms(1,3)] by blast
  show ?thesis using v w unfolding assms(4) by simp
qed

end

section \<open>Sequences of elements\<close>

text \<open>Rewriting of the loops' results into facts about each element.\<close>

lemma out_elems_Stuck:
  "out_elems enc vs = Inl e \<Longrightarrow> \<exists>v \<in> set vs. enc v = Inl e"
  by (induction vs) (auto simp: bindE_eq_Inl)

context coder begin

lemma elems_enc_sound:
  "out_elems enc vs = Inr b \<Longrightarrow> those_opt (map ab vs) = Some as \<Longrightarrow> b = concat (map rfc as)"
  by (induction vs arbitrary: b as)
    (auto simp: bindE_eq_Inr bindO_eq_Some dest: enc_sound)

lemma elems_enc_complete:
  "those_opt (map ab vs) = Some as \<Longrightarrow> list_all cf as \<Longrightarrow>
   out_elems enc vs = Inr (concat (map rfc as))"
  by (induction vs arbitrary: as) (auto simp: bindO_eq_Some enc_complete)

lemma elems_enc_safe: "\<forall>v \<in> set vs. ty v \<Longrightarrow> out_elems enc vs \<noteq> Inl Stuck"
  using enc_safe out_elems_Stuck by blast

lemma elems_dec_sound:
  "\<forall>x \<in> set olds. ty x \<Longrightarrow> in_elems dec olds buf = Inr (vs, r) \<Longrightarrow>
   length vs = length olds \<and> (\<forall>v \<in> set vs. ty v) \<and>
   (\<exists>as. list_all cf as \<and> those_opt (map ab vs) = Some as \<and> buf = concat (map rfc as) @ r)"
proof (induction olds arbitrary: buf vs)
  case Nil
  then show ?case by (auto intro: exI [of _ "[]"])
next
  case (Cons x olds)
  from Cons.prems obtain v r1 vs' where
    d: "dec x buf = Inr (v, r1)" and rest: "in_elems dec olds r1 = Inr (vs', r)"
    and vs: "vs = v # vs'"
    by (auto simp: bindE_eq_Inr)
  from Cons.prems(1) have "ty x" by simp
  from this d obtain a where a: "cf a" "ab v = Some a" "buf = rfc a @ r1" "ty v"
    by (rule dec_soundE)
  from Cons.IH [OF _ rest] Cons.prems(1) obtain as where as: "length vs' = length olds"
      "\<forall>v \<in> set vs'. ty v" "list_all cf as" "those_opt (map ab vs') = Some as"
      "r1 = concat (map rfc as) @ r"
    by auto
  then show ?case using a vs by (auto intro!: exI [of _ "a # as"])
qed

lemma elems_dec_complete:
  "\<forall>x \<in> set olds. ty x \<Longrightarrow> length as = length olds \<Longrightarrow> list_all cf as \<Longrightarrow>
   \<exists>vs. in_elems dec olds (concat (map rfc as) @ r) = Inr (vs, r) \<and>
     those_opt (map ab vs) = Some as"
proof (induction olds arbitrary: as)
  case Nil
  then show ?case by simp
next
  case (Cons x olds)
  then obtain a as' where as: "as = a # as'" by (cases as) auto
  with Cons.prems have "ty x" "cf a" by auto
  then obtain v where v: "dec x (rfc a @ concat (map rfc as') @ r) =
      Inr (v, concat (map rfc as') @ r)" "ab v = Some a"
    by (rule dec_completeE)
  obtain vs where "in_elems dec olds (concat (map rfc as') @ r) = Inr (vs, r)"
      "those_opt (map ab vs) = Some as'"
    using Cons.IH [of as'] Cons.prems as by auto
  with v as show ?case by auto
qed

lemma elems_dec_safe: "\<forall>x \<in> set olds. ty x \<Longrightarrow> in_elems dec olds buf \<noteq> Inl Stuck"
  by (induction olds arbitrary: buf) (auto simp: bindE_eq_Inl dec_safe)

end

section \<open>Growing a slice\<close>

lemma vec_newcap_bounds:
  assumes "len \<le> bound"
  shows "unat len \<le> vec_newcap bound len cap" and "vec_newcap bound len cap \<le> unat bound"
proof -
  have le: "unat len \<le> unat bound" using assms by (simp add: word_le_nat_alt)
  have b: "sint (ucast bound :: u64) = int (unat bound)"
    using go_int_unat [of bound] by (simp add: go_int_def)
  have ub: "uint (ucast bound :: u64) = int (unat bound)"
    using uint_lt2p [of bound] by (simp add: unsigned_ucast_eq take_bit_int_eq_self)
  let ?nc = "2 * of_nat cap :: u64"
  have third: "nat (sint ?nc) \<le> unat bound" if "\<not> ?nc > ucast bound"
  proof -
    have u: "uint ?nc \<le> int (unat bound)"
      using that ub by (simp add: word_less_def not_less)
    then have "uint ?nc < 2 ^ 63"
      using uint_lt2p [of bound] by simp
    then have "sint ?nc = uint ?nc"
      by (simp add: sint_uint signed_take_bit_int_eq_self_iff order_trans [of _ 0])
    then show ?thesis using nat_mono [OF u] by (simp only: nat_int)
  qed
  show "unat len \<le> vec_newcap bound len cap"
    using le b by (auto simp: vec_newcap_def Let_def not_less dest: go_int_leD)
  show "vec_newcap bound len cap \<le> unat bound"
    using le b third by (auto simp: vec_newcap_def Let_def)
qed

lemma XdrCheckLen_ok [simp]: "XdrCheckLen bound len = Inr () \<longleftrightarrow> len \<le> bound"
  by (auto simp: XdrCheckLen_def)

text \<open>Growing by one element past the end: the elements before it stay in place.\<close>

lemma SetVecLen_spec:
  assumes "len \<le> bound" and "l \<le> length b"
  shows "\<exists>b'. SetVecLen bound z len (l, b) = Inr (unat len, b') \<and>
    unat len \<le> length b' \<and> take (min l (unat len)) b' = take (min l (unat len)) b \<and>
    set b' \<subseteq> insert z (set b) \<and> length b' \<le> max (length b) (unat bound)"
proof (cases "unat len \<le> length b")
  case True
  then show ?thesis
    using assms by (auto simp: SetVecLen_def bindE_def XdrCheckLen_def)
next
  case False
  note nc = vec_newcap_bounds [OF assms(1), of "length b"]
  let ?b' = "take l b @ replicate (vec_newcap bound len (length b) - l) z"
  have "SetVecLen bound z len (l, b) = Inr (unat len, ?b')"
    using False assms by (auto simp: SetVecLen_def bindE_def XdrCheckLen_def)
  moreover have "length ?b' = vec_newcap bound len (length b)"
    using False assms nc by simp
  moreover have "set ?b' \<subseteq> insert z (set b)" by (auto dest: in_set_takeD)
  moreover have "take (min l (unat len)) ?b' = take (min l (unat len)) b"
    using assms by (simp add: min_def)
  ultimately show ?thesis using nc by (intro exI [of _ ?b']) auto
qed

end
