(* ===== verification/XdrCompose.thy ===== *)
theory XdrCompose imports XdrCodec begin

text \<open>
  The contract of the codec, closed under what the generated code builds from it: the
  loop of XdrMarshalN and slices, pointers, arrays, declarations, structs and unions.
\<close>

section \<open>The loop of XdrMarshalN\<close>

lemma vec_step:
  assumes "i \<le> l" "l \<le> length b" "\<forall>x \<in> set b. Q x" "Q z" "i < unat bound"
  obtains l1 b1 where
    "(if l \<le> i then SetVecLen bound z (of_nat (i + 1)) (l, b) else Inr (l, b)) = Inr (l1, b1)"
    and "l1 = max l (i + 1)" and "l1 \<le> length b1" and "\<forall>x \<in> set b1. Q x"
    and "take i b1 = take i b"
proof (cases "l \<le> i")
  case True
  then have li: "l = i" using assms(1) by simp
  have "i + 1 < 2 ^ 32"
    using le_less_trans [OF Suc_leI [OF assms(5)] unat_lt_pow32] by (simp only: Suc_eq_plus1)
  then have u: "unat (of_nat (i + 1) :: u32) = i + 1" by (rule unat_of_nat32)
  then have "(of_nat (i + 1) :: u32) \<le> bound"
    using assms(5) by (simp add: word_le_nat_alt)
  from SetVecLen_spec [OF this assms(2), of z] obtain b1 where b1:
      "SetVecLen bound z (of_nat (i + 1)) (l, b) = Inr (i + 1, b1)" "i + 1 \<le> length b1"
      "take (min l (i + 1)) b1 = take (min l (i + 1)) b" "set b1 \<subseteq> insert z (set b)"
    unfolding u by blast
  show ?thesis by (rule that [of "i + 1" b1]) (use b1 li assms in auto)
next
  case False
  then show ?thesis by (intro that [of l b]) (use assms in auto)
qed

lemma drop_Suc_update: "drop (Suc i) (xs[i := v]) = drop (Suc i) xs"
  by (simp add: drop_update_swap)

lemma take_Suc_drop_nth: "i < length xs \<Longrightarrow> take (Suc k) (drop i xs) = xs ! i # take k (drop (Suc i) xs)"
  by (simp add: Cons_nth_drop_Suc [symmetric])

lemma nth_of_take_eq: "take (Suc i) xs = take i ys @ [v] \<Longrightarrow> i < length xs \<Longrightarrow> xs ! i = v"
  by (simp add: take_Suc_conv_app_nth)

context coder begin

lemma vec_loop_sound:
  assumes "ty z"
  shows "vec_loop bound z dec k i (l, b) buf = Inr ((l', b'), r) \<Longrightarrow> i \<le> l \<Longrightarrow> l \<le> length b \<Longrightarrow>
    \<forall>x \<in> set b. ty x \<Longrightarrow> i + k \<le> unat bound \<Longrightarrow>
    l' = max l (i + k) \<and> l' \<le> length b' \<and> (\<forall>x \<in> set b'. ty x) \<and> take i b' = take i b \<and>
    (\<exists>as. length as = k \<and> list_all cf as \<and> those_opt (map ab (take k (drop i b'))) = Some as \<and>
      buf = concat (map rfc as) @ r)"
proof (induction k arbitrary: i l b buf)
  case 0
  then show ?case by (auto intro: exI [of _ "[]"])
next
  case (Suc k)
  obtain l1 b1 where s: "(if l \<le> i then SetVecLen bound z (of_nat (i + 1)) (l, b)
      else Inr (l, b)) = Inr (l1, b1)" "l1 = max l (i + 1)" "l1 \<le> length b1"
      "\<forall>x \<in> set b1. ty x" "take i b1 = take i b"
    by (rule vec_step [of i l b ty z bound]) (use Suc.prems assms in auto)
  from Suc.prems(1) s(1) obtain v r1 where d: "dec (b1 ! i) buf = Inr (v, r1)"
      and rest: "vec_loop bound z dec k (i + 1) (l1, b1[i := v]) r1 = Inr ((l', b'), r)"
    by (auto simp: bindE_eq_Inr)
  have il: "i < length b1" using s by simp
  then have "ty (b1 ! i)" using s(4) by simp
  from this d obtain a where a: "cf a" "ab v = Some a" "buf = rfc a @ r1" "ty v"
    by (rule dec_soundE)
  have "\<forall>x \<in> set (b1[i := v]). ty x" using s(4) a(4) by (auto dest: set_update_subset_insert [THEN subsetD])
  note ty' = this
  have pre: "i + 1 \<le> l1" "l1 \<le> length (b1[i := v])" "i + 1 + k \<le> unat bound"
    using s Suc.prems(5) by auto
  from Suc.IH [OF rest pre(1,2) ty' pre(3)] obtain as where IH: "l' = max l1 (i + 1 + k)"
      "l' \<le> length b'" "\<forall>x \<in> set b'. ty x" "take (i + 1) b' = take (i + 1) (b1[i := v])"
      "length as = k" "list_all cf as" "those_opt (map ab (take k (drop (i + 1) b'))) = Some as"
      "r1 = concat (map rfc as) @ r"
    by blast
  have ib: "i < length b'" using IH(1,2) by simp
  have tk: "take (Suc i) b' = take i b @ [v]"
    using IH(4) take_Suc_update [OF il] s(5) by simp
  then have "take i b' = take i b"
    using ib by (simp add: take_Suc_conv_app_nth)
  moreover have "b' ! i = v" using nth_of_take_eq [OF tk ib] .
  ultimately show ?case using IH a s ib
    by (intro conjI exI [of _ "a # as"]) (simp_all add: take_Suc_drop_nth)
qed

lemma vec_loop_complete:
  assumes "ty z"
  shows "i \<le> l \<Longrightarrow> l \<le> length b \<Longrightarrow> \<forall>x \<in> set b. ty x \<Longrightarrow> i + length as \<le> unat bound \<Longrightarrow>
    list_all cf as \<Longrightarrow>
    \<exists>l' b'. vec_loop bound z dec (length as) i (l, b) (concat (map rfc as) @ r) = Inr ((l', b'), r) \<and>
      those_opt (map ab (take (length as) (drop i b'))) = Some as"
proof (induction as arbitrary: i l b)
  case Nil
  then show ?case by simp
next
  case (Cons a as)
  obtain l1 b1 where s: "(if l \<le> i then SetVecLen bound z (of_nat (i + 1)) (l, b)
      else Inr (l, b)) = Inr (l1, b1)" "l1 = max l (i + 1)" "l1 \<le> length b1"
      "\<forall>x \<in> set b1. ty x" "take i b1 = take i b"
    by (rule vec_step [of i l b ty z bound]) (use Cons.prems assms in auto)
  have il: "i < length b1" using s by simp
  then have "ty (b1 ! i)" using s(4) by simp
  moreover have "cf a" using Cons.prems by simp
  ultimately obtain v where v: "dec (b1 ! i) (rfc a @ concat (map rfc as) @ r) =
      Inr (v, concat (map rfc as) @ r)" "ab v = Some a" "ty v"
    by (rule dec_completeE)
  have ty': "\<forall>x \<in> set (b1[i := v]). ty x"
    using s(4) v(3) by (auto dest: set_update_subset_insert [THEN subsetD])
  have pre: "i + 1 \<le> l1" "l1 \<le> length (b1[i := v])" "i + 1 + length as \<le> unat bound"
    using s Cons.prems by auto
  from Cons.IH [OF pre(1,2) ty' pre(3)] Cons.prems obtain l' b' where r:
      "vec_loop bound z dec (length as) (i + 1) (l1, b1[i := v]) (concat (map rfc as) @ r) =
       Inr ((l', b'), r)" "those_opt (map ab (take (length as) (drop (i + 1) b'))) = Some as"
    by auto
  from vec_loop_sound [OF assms r(1) pre(1,2) ty' pre(3)]
  have tk: "take (Suc i) b' = take i b1 @ [v]" and ib: "i < length b'"
    using take_Suc_update [OF il, of v] by auto
  have "b' ! i = v" using nth_of_take_eq [OF tk ib] .
  then show ?case using r s(1) v ib by (auto simp: take_Suc_drop_nth)
qed

lemma vec_loop_safe:
  assumes "ty z"
  shows "i \<le> l \<Longrightarrow> l \<le> length b \<Longrightarrow> \<forall>x \<in> set b. ty x \<Longrightarrow> i + k \<le> unat bound \<Longrightarrow>
    vec_loop bound z dec k i (l, b) buf \<noteq> Inl Stuck"
proof (induction k arbitrary: i l b buf)
  case 0
  then show ?case by simp
next
  case (Suc k)
  obtain l1 b1 where s: "(if l \<le> i then SetVecLen bound z (of_nat (i + 1)) (l, b)
      else Inr (l, b)) = Inr (l1, b1)" "l1 = max l (i + 1)" "l1 \<le> length b1"
      "\<forall>x \<in> set b1. ty x" "take i b1 = take i b"
    by (rule vec_step [of i l b ty z bound]) (use Suc.prems assms in auto)
  have t: "ty (b1 ! i)" using s by simp
  have "vec_loop bound z dec k (i + 1) (l1, b1[i := v]) r1 \<noteq> Inl Stuck"
    if "dec (b1 ! i) buf = Inr (v, r1)" for v r1
  proof (rule Suc.IH)
    have "ty v" using dec_sound [OF t that] by simp
    then show "\<forall>x \<in> set (b1[i := v]). ty x"
      using s(4) by (auto dest: set_update_subset_insert [THEN subsetD])
  qed (use s Suc.prems in auto)
  then show ?case using s(1) dec_safe [OF t] by (auto simp: bindE_eq_Inl)
qed

end

section \<open>Pointers, arrays and slices\<close>

lemma ptrflag_SetU32_Inr:
  "ptrflag_SetU32 z p w = Inr q \<longleftrightarrow>
   w = 0 \<and> q = None \<or> w = 1 \<and> q = Some (case p of None \<Rightarrow> z | Some v \<Rightarrow> v)"
  by (auto simp: ptrflag_SetU32_def)

lemma size_SetU32_Inr: "size_SetU32 bound w = Inr n \<longleftrightarrow> n = w \<and> w \<le> bound"
  by (auto simp: size_SetU32_def)

lemma size_SetU32_not_Stuck [simp]: "size_SetU32 bound w \<noteq> Inl Stuck"
  by (auto simp: size_SetU32_def)

lemma ptrflag_not_Stuck [simp]: "ptrflag_SetU32 z p w \<noteq> Inl Stuck"
  by (auto simp: ptrflag_SetU32_def)

lemma XdrCheckLen_not_Stuck [simp]: "XdrCheckLen bound n \<noteq> Inl Stuck"
  by (auto simp: XdrCheckLen_def)

lemma xdrReadInto_not_Stuck [simp]: "xdrReadInto buf k \<noteq> Inl Stuck"
  by (auto simp: xdrReadInto_def split: prod.splits option.splits)

lemma xdrGet_not_Stuck [simp]: "xdrGet32 buf \<noteq> Inl Stuck" "xdrGet64 buf \<noteq> Inl Stuck"
  by (auto simp: xdrGet32_def xdrGet64_def bindE_eq_Inl)

text \<open>The encoding of a slice's length determines it when the slice is within its bound.\<close>

lemma len_le_bound: "n \<le> unat (bound :: u32) \<Longrightarrow> (of_nat n :: u32) \<le> bound \<and> unat (of_nat n :: u32) = n"
  using le_less_trans [OF _ unat_lt_pow32, of n bound] unat_of_nat32 [of n]
  by (simp add: word_le_nat_alt)

fun ptr_ty :: "(val \<Rightarrow> bool) \<Rightarrow> val \<Rightarrow> bool" where
  "ptr_ty ty (VPtr None) = True"
| "ptr_ty ty (VPtr (Some v)) = ty v"
| "ptr_ty _ _ = False"

fun arr_ty :: "nat \<Rightarrow> (val \<Rightarrow> bool) \<Rightarrow> val \<Rightarrow> bool" where
  "arr_ty k ty (VArr vs) = (length vs = k \<and> (\<forall>v \<in> set vs. ty v))"
| "arr_ty _ _ _ = False"

fun slice_ty :: "(val \<Rightarrow> bool) \<Rightarrow> val \<Rightarrow> bool" where
  "slice_ty ty (VSlice l b) = (l \<le> length b \<and> (\<forall>v \<in> set b. ty v))"
| "slice_ty _ _ = False"

lemma abs_ptr_Some:
  "abs_ptr ab v = Some a \<longleftrightarrow> v = VPtr None \<and> a = XOpt None \<or>
   (\<exists>x y. v = VPtr (Some x) \<and> ab x = Some y \<and> a = XOpt (Some y))"
  by (cases "(ab, v)" rule: abs_ptr.cases) (auto simp: bindO_eq_Some)

lemma abs_array_Some:
  "abs_array ab v = Some a \<longleftrightarrow>
   (\<exists>vs as. v = VArr vs \<and> those_opt (map ab vs) = Some as \<and> a = XArr as)"
  by (cases v) (auto simp: bindO_eq_Some)

lemma abs_vec_Some:
  "abs_vec ab v = Some a \<longleftrightarrow>
   (\<exists>l b as. v = VSlice l b \<and> l < 2 ^ 32 \<and> l \<le> length b \<and>
     those_opt (map ab (take l b)) = Some as \<and> a = XVec as)"
  by (cases v) (auto simp: bindO_eq_Some)

lemma conf_opt_iff: "conf_opt c a \<longleftrightarrow> a = XOpt None \<or> (\<exists>x. a = XOpt (Some x) \<and> c x)"
  by (cases "(c, a)" rule: conf_opt.cases) auto

lemma conf_arr_iff: "conf_arr k c a \<longleftrightarrow> (\<exists>as. a = XArr as \<and> length as = k \<and> list_all c as)"
  by (cases a) auto

lemma conf_vec_iff:
  "conf_vec bound c a \<longleftrightarrow> (\<exists>as. a = XVec as \<and> length as \<le> unat bound \<and> list_all c as)"
  by (cases a) auto

context coder begin

lemma coder_ptr:
  assumes "ty z"
  shows "coder (ptr_ty ty) (out_ptr enc) (in_ptr z dec) (abs_ptr ab) (conf_opt cf)"
proof (rule coder.intro)
  fix old buf v r assume t: "ptr_ty ty old" and d: "in_ptr z dec old buf = Inr (v, r)"
  from t obtain p where p: "old = VPtr p" "\<forall>x. p = Some x \<longrightarrow> ty x"
    by (cases "(ty, old)" rule: ptr_ty.cases) auto
  from d p(1) obtain w r1 q where w: "buf = xdrPut32 w @ r1" "ptrflag_SetU32 z p w = Inr q"
    "(case q of None \<Rightarrow> Inr (VPtr None, r1)
       | Some old \<Rightarrow> bindE (dec old r1) (\<lambda>(v, r'). Inr (VPtr (Some v), r'))) = Inr (v, r)"
    by (auto simp: bindE_eq_Inr w32.get_split)
  show "ptr_ty ty v \<and> (\<exists>a. conf_opt cf a \<and> abs_ptr ab v = Some a \<and> buf = rfc a @ r)"
  proof (cases q)
    case None
    with w show ?thesis
      by (auto simp: ptrflag_SetU32_Inr xdrPut32_def intro!: exI [of _ "XOpt None"])
  next
    case (Some x)
    with w p assms have x: "ty x" and w1: "w = 1"
      by (auto simp: ptrflag_SetU32_Inr split: option.splits)
    from w(3) Some obtain y where y: "dec x r1 = Inr (y, r)" "v = VPtr (Some y)"
      by (auto simp: bindE_eq_Inr)
    from x y(1) obtain a where "cf a" "ab y = Some a" "r1 = rfc a @ r" "ty y"
      by (rule dec_soundE)
    with y(2) w(1) w1 show ?thesis
      by (auto simp: xdrPut32_def intro!: exI [of _ "XOpt (Some a)"])
  qed
next
  fix old a r assume t: "ptr_ty ty old" and c: "conf_opt cf a"
  from t obtain p where p: "old = VPtr p" "\<forall>x. p = Some x \<longrightarrow> ty x"
    by (cases "(ty, old)" rule: ptr_ty.cases) auto
  from c show "\<exists>v. in_ptr z dec old (rfc a @ r) = Inr (v, r) \<and> abs_ptr ab v = Some a"
    unfolding conf_opt_iff
  proof (elim disjE exE conjE)
    assume "a = XOpt None"
    with p show ?thesis
      using w32.get_put [of 0 r] by (auto simp: ptrflag_SetU32_def xdrPut32_def)
  next
    fix x assume a: "a = XOpt (Some x)" and "cf x"
    have "ty (case p of None \<Rightarrow> z | Some v \<Rightarrow> v)"
      using p(2) assms by (auto split: option.splits)
    from this \<open>cf x\<close> obtain v where "dec (case p of None \<Rightarrow> z | Some v \<Rightarrow> v) (rfc x @ r) = Inr (v, r)"
      "ab v = Some x"
      by (rule dec_completeE)
    with a p(1) show ?thesis
      using w32.get_put [of 1 "rfc x @ r"] by (auto simp: ptrflag_SetU32_def xdrPut32_def)
  qed
next
  fix old buf assume t: "ptr_ty ty old"
  then obtain p where p: "old = VPtr p" "\<forall>x. p = Some x \<longrightarrow> ty x"
    by (cases "(ty, old)" rule: ptr_ty.cases) auto
  with assms show "in_ptr z dec old buf \<noteq> Inl Stuck"
    by (auto simp: bindE_eq_Inl ptrflag_SetU32_Inr dec_safe split: option.splits)
next
  fix v b a assume "out_ptr enc v = Inr b" "abs_ptr ab v = Some a"
  then show "b = rfc a"
    by (auto simp: abs_ptr_Some bindE_eq_Inr xdrPut32_def dest: enc_sound)
next
  fix a v assume "conf_opt cf a" "abs_ptr ab v = Some a"
  then show "out_ptr enc v = Inr (rfc a)"
    by (auto simp: abs_ptr_Some conf_opt_iff xdrPut32_def enc_complete)
next
  fix v assume "ptr_ty ty v"
  then show "out_ptr enc v \<noteq> Inl Stuck"
    by (cases "(ty, v)" rule: ptr_ty.cases) (auto simp: bindE_eq_Inl enc_safe)
qed

lemma coder_array:
  "coder (arr_ty k ty) (out_array enc) (in_array dec) (abs_array ab) (conf_arr k cf)"
proof (rule coder.intro)
  fix old buf v r assume t: "arr_ty k ty old" and d: "in_array dec old buf = Inr (v, r)"
  then obtain olds where old: "old = VArr olds" "length olds = k" "\<forall>x \<in> set olds. ty x"
    by (cases old) auto
  with d obtain vs where vs: "in_elems dec olds buf = Inr (vs, r)" "v = VArr vs"
    by (auto simp: bindE_eq_Inr)
  from elems_dec_sound [OF old(3) vs(1)] old vs(2) those_opt_length
  show "arr_ty k ty v \<and> (\<exists>a. conf_arr k cf a \<and> abs_array ab v = Some a \<and> buf = rfc a @ r)"
    by (fastforce simp: conf_arr_iff abs_array_Some)
next
  fix old a r assume t: "arr_ty k ty old" and c: "conf_arr k cf a"
  then obtain olds as where old: "old = VArr olds" "length as = length olds" "\<forall>x \<in> set olds. ty x"
    and as: "a = XArr as" "list_all cf as"
    by (cases old) (auto simp: conf_arr_iff)
  from elems_dec_complete [OF old(3,2) as(2), of r] old as
  show "\<exists>v. in_array dec old (rfc a @ r) = Inr (v, r) \<and> abs_array ab v = Some a"
    by (auto simp: bindE_eq_Inr)
next
  fix old buf assume "arr_ty k ty old"
  then show "in_array dec old buf \<noteq> Inl Stuck"
    by (cases old) (auto simp: bindE_eq_Inl elems_dec_safe)
next
  fix v b a assume "out_array enc v = Inr b" "abs_array ab v = Some a"
  then show "b = rfc a" by (auto simp: abs_array_Some dest: elems_enc_sound)
next
  fix a v assume "conf_arr k cf a" "abs_array ab v = Some a"
  then show "out_array enc v = Inr (rfc a)"
    by (auto simp: abs_array_Some conf_arr_iff elems_enc_complete)
next
  fix v assume "arr_ty k ty v"
  then show "out_array enc v \<noteq> Inl Stuck" by (cases v) (auto simp: elems_enc_safe)
qed

lemma XdrMarshalN_in_sound:
  assumes "ty z" "l \<le> length b" "\<forall>x \<in> set b. ty x"
    and "XdrMarshalN_in bound z dec n (l, b) buf = Inr ((l', b'), r)"
  shows "l' = unat n \<and> l' \<le> length b' \<and> (\<forall>x \<in> set b'. ty x) \<and>
    (\<exists>as. length as = unat n \<and> unat n \<le> unat bound \<and> list_all cf as \<and>
      those_opt (map ab (take l' b')) = Some as \<and> buf = concat (map rfc as) @ r)"
proof -
  from assms(4) obtain l1 where n: "unat n \<le> unat bound"
      and v: "vec_loop bound z dec (unat n) 0 (l, b) buf = Inr ((l1, b'), r)"
      and l': "l' = (if unat n < l1 then unat n else l1)"
    by (auto simp: XdrMarshalN_in_def bindE_eq_Inr word_le_nat_alt split: if_splits)
  from vec_loop_sound [OF assms(1) v _ assms(2,3)] n
  have "l1 = max l (unat n)" "l1 \<le> length b'" "\<forall>x \<in> set b'. ty x"
    "\<exists>as. length as = unat n \<and> list_all cf as \<and> those_opt (map ab (take (unat n) b')) = Some as \<and>
      buf = concat (map rfc as) @ r"
    by auto
  with l' n show ?thesis by (auto simp: max_def split: if_splits)
qed

lemma XdrMarshalN_in_complete:
  assumes "ty z" "l \<le> length b" "\<forall>x \<in> set b. ty x"
    and "length as \<le> unat bound" "list_all cf as"
  shows "\<exists>l' b'. XdrMarshalN_in bound z dec (of_nat (length as)) (l, b)
      (concat (map rfc as) @ r) = Inr ((l', b'), r) \<and>
    l' = length as \<and> l' \<le> length b' \<and> those_opt (map ab (take l' b')) = Some as"
proof -
  note u = len_le_bound [OF assms(4)]
  from vec_loop_complete [OF assms(1) _ assms(2,3) _ assms(5), of 0 bound r] assms(4)
  obtain l1 b' where v: "vec_loop bound z dec (length as) 0 (l, b) (concat (map rfc as) @ r) =
      Inr ((l1, b'), r)" "those_opt (map ab (take (length as) b')) = Some as"
    by auto
  have e: "XdrMarshalN_in bound z dec (of_nat (length as)) (l, b) (concat (map rfc as) @ r) =
      Inr ((if length as < l1 then length as else l1, b'), r)"
    using u v(1) by (simp add: XdrMarshalN_in_def XdrCheckLen_ok [THEN iffD2])
  from XdrMarshalN_in_sound [OF assms(1-3) e] u v(2) e show ?thesis
    by auto
qed

lemma XdrMarshalN_in_safe:
  assumes "ty z" "l \<le> length b" "\<forall>x \<in> set b. ty x"
  shows "XdrMarshalN_in bound z dec n (l, b) buf \<noteq> Inl Stuck"
  using vec_loop_safe [OF assms(1) _ assms(2,3)]
  by (auto simp: XdrMarshalN_in_def bindE_eq_Inl word_le_nat_alt)

lemma coder_vec:
  assumes z: "ty z"
  shows "coder (slice_ty ty) (out_vec bound enc) (in_vec bound z dec) (abs_vec ab)
    (conf_vec bound cf)"
proof (rule coder.intro)
  fix old buf v r assume t: "slice_ty ty old" and d: "in_vec bound z dec old buf = Inr (v, r)"
  then obtain l b where old: "old = VSlice l b" "l \<le> length b" "\<forall>x \<in> set b. ty x"
    by (cases old) auto
  with d obtain w r1 l' b' where w: "buf = xdrPut32 w @ r1" "v = VSlice l' b'"
      "XdrMarshalN_in bound z dec w (l, b) r1 = Inr ((l', b'), r)"
    by (auto simp: bindE_eq_Inr w32.get_split size_SetU32_Inr)
  from XdrMarshalN_in_sound [OF z old(2,3) w(3)] obtain as where
    m: "l' = unat w" "l' \<le> length b'" "\<forall>x \<in> set b'. ty x" "length as = unat w"
      "unat w \<le> unat bound" "list_all cf as" "those_opt (map ab (take l' b')) = Some as"
      "r1 = concat (map rfc as) @ r"
    by blast
  have "be_put32 w = be_put32 (of_nat (length as))" using m(4) by simp
  moreover have "l' < 2 ^ 32" using m(1) by simp
  ultimately show "slice_ty ty v \<and>
      (\<exists>a. conf_vec bound cf a \<and> abs_vec ab v = Some a \<and> buf = rfc a @ r)"
    using w m by (auto simp: conf_vec_iff abs_vec_Some xdrPut32_def)
next
  fix old a r assume t: "slice_ty ty old" and c: "conf_vec bound cf a"
  then obtain l b where old: "old = VSlice l b" "l \<le> length b" "\<forall>x \<in> set b. ty x"
    by (cases old) auto
  from c obtain as where a: "a = XVec as" "length as \<le> unat bound" "list_all cf as"
    by (auto simp: conf_vec_iff)
  note u = len_le_bound [OF a(2)]
  from XdrMarshalN_in_complete [OF z old(2,3) a(2,3), of r] obtain l' b' where
    m: "XdrMarshalN_in bound z dec (of_nat (length as)) (l, b) (concat (map rfc as) @ r) =
      Inr ((l', b'), r)" "l' = length as" "l' \<le> length b'" "those_opt (map ab (take l' b')) = Some as"
    by blast
  have "l' < 2 ^ 32" using m(2) a(2) unat_lt_pow32 [of bound] by (blast intro: le_less_trans)
  with m u a old w32.get_put [of "of_nat (length as)" "concat (map rfc as) @ r"]
  show "\<exists>v. in_vec bound z dec old (rfc a @ r) = Inr (v, r) \<and> abs_vec ab v = Some a"
    by (auto simp: bindE_eq_Inr size_SetU32_Inr xdrPut32_def)
next
  fix old buf assume "slice_ty ty old"
  then show "in_vec bound z dec old buf \<noteq> Inl Stuck"
    using z by (cases old) (auto simp: bindE_eq_Inl XdrMarshalN_in_safe)
next
  fix v b a assume e: "out_vec bound enc v = Inr b" and "abs_vec ab v = Some a"
  then obtain l c as where v: "v = VSlice l c" "l < 2 ^ 32" "l \<le> length c"
      "those_opt (map ab (take l c)) = Some as" "a = XVec as"
    by (auto simp: abs_vec_Some)
  have "length as = l" using those_opt_length [OF v(4)] v(3) by simp
  with e v show "b = rfc a"
    by (auto simp: bindE_eq_Inr unat_of_nat32 xdrPut32_def dest: elems_enc_sound)
next
  fix a v assume c: "conf_vec bound cf a" and "abs_vec ab v = Some a"
  then obtain l c as where v: "v = VSlice l c" "l < 2 ^ 32" "l \<le> length c"
      "those_opt (map ab (take l c)) = Some as" "a = XVec as"
    by (auto simp: abs_vec_Some)
  have "length as = l" using those_opt_length [OF v(4)] v(3) by simp
  with c v len_le_bound [of l bound] show "out_vec bound enc v = Inr (rfc a)"
    by (auto simp: conf_vec_iff elems_enc_complete xdrPut32_def XdrCheckLen_ok [THEN iffD2])
next
  fix v assume "slice_ty ty v"
  then show "out_vec bound enc v \<noteq> Inl Stuck"
    by (cases v) (auto simp: bindE_eq_Inl elems_enc_safe dest!: in_set_takeD intro!: elems_enc_safe)
qed

end

end
