(* ===== verification/XdrTyped.thy ===== *)
theory XdrTyped imports XdrCompose begin

text \<open>
  The contract \<open>coder\<close> of every type of a well-formed package, by induction on the depth
  of named types: base types, declarations, structs, unions and typedefs. It is the single
  fact from which the properties of marshaling follow.
\<close>

section \<open>Base types and byte strings\<close>

lemma bool_SetU32_Inr: "bool_SetU32 w = Inr b \<longleftrightarrow> w = (if b then 1 else 0)"
  by (auto simp: bool_SetU32_def)

lemma bool_SetU32_not_Stuck [simp]: "bool_SetU32 w \<noteq> Inl Stuck"
  by (auto simp: bool_SetU32_def)

lemma abs_prim_Some:
  "abs_bool v = Some a \<longleftrightarrow> (\<exists>b. v = VBool b \<and> a = XBool b)"
  "abs_num32 v = Some a \<longleftrightarrow> (\<exists>w. v = VNum32 w \<and> a = X32 w)"
  "abs_num64 v = Some a \<longleftrightarrow> (\<exists>w. v = VNum64 w \<and> a = X64 w)"
  "abs_void v = Some a \<longleftrightarrow> v = VVoid \<and> a = XVoid"
  "abs_string v = Some a \<longleftrightarrow> (\<exists>s. v = VString s \<and> a = XVar s)"
  "abs_vecopaque v = Some a \<longleftrightarrow> (\<exists>s. v = VBytes s \<and> a = XVar s)"
  "abs_arropaque v = Some a \<longleftrightarrow> (\<exists>s. v = VByteArr s \<and> a = XFix s)"
  by (cases v; auto)+

lemma conf_prim_iff:
  "conf_base Bool a \<longleftrightarrow> (\<exists>b. a = XBool b)"
  "conf_base Void a \<longleftrightarrow> a = XVoid"
  "b \<in> {Int32, Uint32, Float32} \<Longrightarrow> conf_base b a \<longleftrightarrow> (\<exists>w. a = X32 w)"
  "b \<in> {Int64, Uint64, Float64} \<Longrightarrow> conf_base b a \<longleftrightarrow> (\<exists>w. a = X64 w)"
  "conf_num32 a \<longleftrightarrow> (\<exists>w. a = X32 w)"
  "conf_var bound a \<longleftrightarrow> (\<exists>s. a = XVar s \<and> length s \<le> unat bound)"
  "conf_fix k a \<longleftrightarrow> (\<exists>s. a = XFix s \<and> length s = k)"
  by (cases a; auto)+

lemma coder_bool: "coder (has_gty P (GBase Bool)) out_bool in_bool abs_bool (conf_base Bool)"
  by unfold_locales
    (auto simp: bindE_eq_Inr bindE_eq_Inl w32.get_split bool_SetU32_Inr abs_prim_Some
      conf_prim_iff xdrPut32_def)

lemma coder_num32:
  assumes "\<And>v. ty v \<longleftrightarrow> (\<exists>w. v = VNum32 w)" and "\<And>a. cf a \<longleftrightarrow> (\<exists>w. a = X32 w)"
  shows "coder ty out_num32 in_num32 abs_num32 cf"
  by unfold_locales
    (auto simp: assms bindE_eq_Inr bindE_eq_Inl w32.get_split abs_prim_Some xdrPut32_def)

lemma coder_num64:
  assumes "\<And>v. ty v \<longleftrightarrow> (\<exists>w. v = VNum64 w)" and "\<And>a. cf a \<longleftrightarrow> (\<exists>w. a = X64 w)"
  shows "coder ty out_num64 in_num64 abs_num64 cf"
  by unfold_locales
    (auto simp: assms bindE_eq_Inr bindE_eq_Inl w64.get_split abs_prim_Some xdrPut64_def)

lemma coder_void: "coder (has_gty P (GBase Void)) out_void in_void abs_void (conf_base Void)"
  by unfold_locales (auto simp: abs_prim_Some conf_prim_iff)

lemma coder_base:
  assumes "b \<noteq> Byte" and "b \<noteq> String"
  shows "coder (has_gty P (GBase b)) (out_base b) (in_base b) (abs_base b) (conf_base b)"
  using assms
  by (cases b)
    (simp_all add: out_base_def in_base_def abs_base_def coder_bool coder_void coder_num32
      coder_num64 conf_prim_iff)

lemma xdrReadN_not_Stuck [simp]: "xdrReadN buf n \<noteq> Inl Stuck"
  by (auto simp: xdrReadN_def split: sum.splits prod.splits)

lemma xdrReadPad_not_Stuck [simp]: "xdrReadPad buf n \<noteq> Inl Stuck"
  by (auto simp: xdrReadPad_def bindE_eq_Inl split: if_splits)

lemma in_varbytes_not_Stuck [simp]: "in_varbytes bound buf \<noteq> Inl Stuck"
  by (auto simp: in_varbytes_def bindE_eq_Inl SetByteSlice_def split: if_splits)

lemma in_fixbytes_not_Stuck [simp]: "in_fixbytes k buf \<noteq> Inl Stuck"
  by (auto simp: in_fixbytes_def bindE_eq_Inl split: sum.splits prod.splits)

lemma out_varbytes_rfc: "out_varbytes s = rfc (XVar s)"
  by (simp add: out_varbytes_def xdrPut32_def zero_pad_PutBytes)

lemma coder_string:
  "coder (has_gty P (GBase String)) out_string (in_string bound) abs_string (conf_var bound)"
  by unfold_locales
    (auto simp: bindE_eq_Inr bindE_eq_Inl varb.get_split abs_prim_Some conf_prim_iff
      out_varbytes_rfc simp del: rfc.simps)

lemma coder_vecopaque:
  "coder (has_gty P GBytes) out_vecopaque (in_vecopaque bound) abs_vecopaque (conf_var bound)"
  by unfold_locales
    (auto simp: bindE_eq_Inr bindE_eq_Inl varb.get_split abs_prim_Some conf_prim_iff
      out_varbytes_rfc simp del: rfc.simps)

lemma coder_arropaque:
  "coder (has_gty P (GByteArr k)) out_arropaque in_arropaque abs_arropaque (conf_fix k)"
  by unfold_locales
    (auto simp: bindE_eq_Inr bindE_eq_Inl fixb.get_split abs_prim_Some conf_prim_iff
      zero_pad_PutBytes)

section \<open>Declarations\<close>

lemma has_gty_ptr: "has_gty P (GPtr g) = ptr_ty (has_gty P g)"
  by (rule ext) (metis has_ptr_simps ptr_ty.elims(2) ptr_ty.simps(1,2))

lemma has_gty_arr: "has_gty P (GArr k g) = arr_ty k (has_gty P g)"
proof
  show "has_gty P (GArr k g) v = arr_ty k (has_gty P g) v" for v by (cases v) auto
qed

lemma has_gty_slice: "has_gty P (GSlice g) = slice_ty (has_gty P g)"
proof
  show "has_gty P (GSlice g) v = slice_ty (has_gty P g) v" for v by (cases v) auto
qed

text \<open>The types XDR_T exists for: every type but string and opaque.\<close>

definition scalar_ok :: "pkg \<Rightarrow> tname \<Rightarrow> bool" where
  "scalar_ok P t \<longleftrightarrow> typ_ok P t \<and> t \<noteq> Base String"

definition coder_of ::
  "pkg \<Rightarrow> (tname \<Rightarrow> encoder) \<Rightarrow> (tname \<Rightarrow> decoder) \<Rightarrow> (tname \<Rightarrow> abstraction) \<Rightarrow>
   (tname \<Rightarrow> conformance) \<Rightarrow> tname \<Rightarrow> bool" where
  "coder_of P E D A C t \<longleftrightarrow> coder (has_gty P (go_typ P t)) (E t) (D t) (A t) (C t)"

lemma coder_decl:
  assumes wf: "wf_pkg P" and ok: "decl_ok P d"
    and rec: "\<And>t. scalar_ok P t \<Longrightarrow> coder_of P E D A C t"
  shows "coder (has_gty P (go_decl P d)) (out_decl P E d) (in_decl P D d) (abs_decl A d)
    (conf_decl C d)"
proof (cases "d_typ d = Base String \<or> d_typ d = Base Byte")
  case True
  with ok show ?thesis
    by (auto simp: go_decl_def decltype_def out_decl_def in_decl_def abs_decl_def conf_decl_def
        decl_ok_def coder_string coder_vecopaque coder_arropaque)
next
  case False
  then have t: "typ_ok P (d_typ d)" using decl_typ_ok [OF ok] by simp
  with False have "scalar_ok P (d_typ d)" by (simp add: scalar_ok_def)
  from rec [OF this]
  have c: "coder (has_gty P (go_typ P (d_typ d))) (E (d_typ d)) (D (d_typ d)) (A (d_typ d))
      (C (d_typ d))"
    by (simp add: coder_of_def)
  have z: "has_gty P (go_typ P (d_typ d)) (zero P (go_typ P (d_typ d)))"
    using wf go_typ_ok [OF wf t] by (rule zero_typed)
  show ?thesis
    using False c coder.coder_ptr [OF c z] coder.coder_array [OF c] coder.coder_vec [OF c z]
    by (cases "d_qual d")
      (simp_all add: go_decl_def decltype_def out_decl_def in_decl_def abs_decl_def
        conf_decl_def has_gty_ptr has_gty_arr has_gty_slice)
qed

section \<open>Structs\<close>

lemma fields_dec_sound:
  assumes "\<forall>d \<in> set ds. coder (T d) (E d) (D d) (A d) (C d)"
  shows "list_all2 T ds olds \<Longrightarrow> in_fields (map D ds) olds buf = Inr (vs, r) \<Longrightarrow>
    list_all2 T ds vs \<and> (\<exists>as. list_all2 C ds as \<and> list_all2 (\<lambda>(d, v) a. A d v = Some a) (zip ds vs) as \<and>
      buf = concat (map rfc as) @ r)"
  using assms
proof (induction ds arbitrary: olds vs buf)
  case Nil
  then show ?case by (auto intro: exI [of _ "[]"])
next
  case (Cons d ds)
  from Cons.prems(1) obtain o1 os where o: "olds = o1 # os" "T d o1" "list_all2 T ds os"
    by (auto simp: list_all2_Cons1)
  with Cons.prems(2) obtain v r1 vs' where v: "D d o1 buf = Inr (v, r1)"
      "in_fields (map D ds) os r1 = Inr (vs', r)" "vs = v # vs'"
    by (auto simp: bindE_eq_Inr)
  have "coder (T d) (E d) (D d) (A d) (C d)" using Cons.prems(3) by simp
  from coder.dec_sound [OF this o(2) v(1)] obtain a where
    "T d v" "C d a" "A d v = Some a" "buf = rfc a @ r1" by blast
  moreover from Cons.IH [OF o(3) v(2)] Cons.prems(3) obtain as where
    "list_all2 T ds vs'" "list_all2 C ds as"
    "list_all2 (\<lambda>(d, v) a. A d v = Some a) (zip ds vs') as" "r1 = concat (map rfc as) @ r"
    by auto
  ultimately show ?case using v(3) by (auto intro!: exI [of _ "a # as"])
qed

lemma fields_dec_complete:
  assumes "\<forall>d \<in> set ds. coder (T d) (E d) (D d) (A d) (C d)"
  shows "list_all2 T ds olds \<Longrightarrow> list_all2 C ds as \<Longrightarrow>
    \<exists>vs. in_fields (map D ds) olds (concat (map rfc as) @ r) = Inr (vs, r) \<and>
      list_all2 (\<lambda>(d, v) a. A d v = Some a) (zip ds vs) as \<and> length vs = length ds"
  using assms
proof (induction ds arbitrary: olds as)
  case Nil
  then show ?case by simp
next
  case (Cons d ds)
  from Cons.prems(1,2) obtain o1 os a as' where o: "olds = o1 # os" "T d o1" "list_all2 T ds os"
      "as = a # as'" "C d a" "list_all2 C ds as'"
    by (auto simp: list_all2_Cons1)
  have "coder (T d) (E d) (D d) (A d) (C d)" using Cons.prems(3) by simp
  from coder.dec_complete [OF this o(2,5), of "concat (map rfc as') @ r"] obtain v where
    "D d o1 (rfc a @ concat (map rfc as') @ r) = Inr (v, concat (map rfc as') @ r)" "A d v = Some a"
    by blast
  moreover from Cons.IH [OF o(3,6)] Cons.prems(3) obtain vs where
    "in_fields (map D ds) os (concat (map rfc as') @ r) = Inr (vs, r)"
    "list_all2 (\<lambda>(d, v) a. A d v = Some a) (zip ds vs) as'" "length vs = length ds"
    by auto
  ultimately show ?case using o(1,4) by (auto intro!: exI [of _ "v # vs"])
qed

lemma fields_dec_safe:
  "\<forall>d \<in> set ds. coder (T d) (E d) (D d) (A d) (C d) \<Longrightarrow> list_all2 T ds olds \<Longrightarrow>
   in_fields (map D ds) olds buf \<noteq> Inl Stuck"
  by (induction ds arbitrary: olds buf)
    (auto simp: list_all2_Cons1 bindE_eq_Inl dest: coder.dec_safe)

lemma fields_enc_sound:
  "\<forall>d \<in> set ds. coder (T d) (E d) (D d) (A d) (C d) \<Longrightarrow> length ds = length vs \<Longrightarrow>
   out_fields (map E ds) vs = Inr b \<Longrightarrow>
   list_all2 (\<lambda>(d, v) a. A d v = Some a) (zip ds vs) as \<Longrightarrow> b = concat (map rfc as)"
proof (induction ds arbitrary: vs as b)
  case (Cons d ds)
  then obtain v vs' a as' where "vs = v # vs'" "as = a # as'"
    by (cases vs; cases as) auto
  with Cons show ?case by (fastforce simp: bindE_eq_Inr dest: coder.enc_sound)
qed auto

lemma fields_enc_complete:
  "\<forall>d \<in> set ds. coder (T d) (E d) (D d) (A d) (C d) \<Longrightarrow> length ds = length vs \<Longrightarrow>
   list_all2 C ds as \<Longrightarrow>
   list_all2 (\<lambda>(d, v) a. A d v = Some a) (zip ds vs) as \<Longrightarrow>
   out_fields (map E ds) vs = Inr (concat (map rfc as))"
proof (induction ds arbitrary: vs as)
  case (Cons d ds)
  then obtain v vs' a as' where s: "vs = v # vs'" "as = a # as'"
    by (cases vs; cases as) auto
  with Cons.prems have "E d v = Inr (rfc a)" by (auto intro: coder.enc_complete)
  moreover have "out_fields (map E ds) vs' = Inr (concat (map rfc as'))"
    using Cons.prems s by (intro Cons.IH) auto
  ultimately show ?case using s by simp
qed auto

lemma fields_enc_safe:
  "\<forall>d \<in> set ds. coder (T d) (E d) (D d) (A d) (C d) \<Longrightarrow> list_all2 T ds vs \<Longrightarrow>
   out_fields (map E ds) vs \<noteq> Inl Stuck"
  by (induction ds arbitrary: vs) (auto simp: list_all2_Cons1 bindE_eq_Inl dest: coder.enc_safe)

lemma those_map2:
  "those_opt (map2 (\<lambda>f v. f v) (map A ds) vs) = Some as \<longleftrightarrow>
   list_all2 (\<lambda>(d, v) a. A d v = Some a) (zip ds vs) as"
  by (simp add: those_opt_eq_Some list_all2_map1 zip_map1 case_prod_unfold)

lemma abs_struct_Some:
  "abs_struct (map A ds) v = Some a \<longleftrightarrow>
   (\<exists>vs as. v = VStruct vs \<and> length ds = length vs \<and> a = XStruct as \<and>
     list_all2 (\<lambda>(d, v) a. A d v = Some a) (zip ds vs) as)"
  by (cases v) (auto simp: bindO_eq_Some those_map2)

lemma conf_struct_iff:
  "conf_struct (map C ds) a \<longleftrightarrow> (\<exists>as. a = XStruct as \<and> list_all2 C ds as)"
  by (cases a) (auto simp: list_all2_map1)

lemma coder_struct:
  assumes c: "\<forall>d \<in> set ds. coder (T d) (E d) (D d) (A d) (C d)"
    and ty: "\<And>v. ty v \<longleftrightarrow> (\<exists>vs. v = VStruct vs \<and> list_all2 T ds vs)"
  shows "coder ty (out_struct (map E ds)) (in_struct (map D ds)) (abs_struct (map A ds))
    (conf_struct (map C ds))"
proof (rule coder.intro)
  fix old buf v r assume "ty old" and "in_struct (map D ds) old buf = Inr (v, r)"
  then obtain olds vs where o: "list_all2 T ds olds" "in_fields (map D ds) olds buf = Inr (vs, r)"
      "v = VStruct vs"
    by (auto simp: ty bindE_eq_Inr)
  from fields_dec_sound [OF c o(1,2)] obtain as where as: "list_all2 T ds vs" "list_all2 C ds as"
      "list_all2 (\<lambda>(d, v) a. A d v = Some a) (zip ds vs) as" "buf = concat (map rfc as) @ r"
    by blast
  then have "abs_struct (map A ds) v = Some (XStruct as)"
    using o(3) list_all2_lengthD [OF as(1)] by (simp only: abs_struct_Some) simp
  moreover have "conf_struct (map C ds) (XStruct as)" "buf = rfc (XStruct as) @ r"
    using as by (simp_all add: list_all2_map1)
  ultimately show "ty v \<and> (\<exists>a. conf_struct (map C ds) a \<and> abs_struct (map A ds) v = Some a \<and>
      buf = rfc a @ r)" using as(1) o(3) ty by blast
next
  fix old a r assume "ty old" and "conf_struct (map C ds) a"
  then obtain olds as where o: "old = VStruct olds" "list_all2 T ds olds" "list_all2 C ds as"
      "a = XStruct as"
    by (auto simp: ty conf_struct_iff)
  from fields_dec_complete [OF c o(2,3), of r] obtain vs where vs:
      "in_fields (map D ds) olds (concat (map rfc as) @ r) = Inr (vs, r)"
      "list_all2 (\<lambda>(d, v) a. A d v = Some a) (zip ds vs) as" "length vs = length ds"
    by blast
  then have "in_struct (map D ds) old (rfc a @ r) = Inr (VStruct vs, r)"
    by (simp add: o(1,4))
  moreover have "abs_struct (map A ds) (VStruct vs) = Some a"
    using vs by (simp only: abs_struct_Some) (simp add: o(4))
  ultimately show "\<exists>v. in_struct (map D ds) old (rfc a @ r) = Inr (v, r) \<and>
      abs_struct (map A ds) v = Some a" by blast
next
  fix old buf assume "ty old"
  then show "in_struct (map D ds) old buf \<noteq> Inl Stuck"
    using fields_dec_safe [OF c] by (auto simp: ty bindE_eq_Inl)
next
  fix v b a assume "out_struct (map E ds) v = Inr b" "abs_struct (map A ds) v = Some a"
  then show "b = rfc a" using fields_enc_sound [OF c] by (auto simp: abs_struct_Some)
next
  fix a v assume "conf_struct (map C ds) a" "abs_struct (map A ds) v = Some a"
  then show "out_struct (map E ds) v = Inr (rfc a)"
    using fields_enc_complete [OF c] by (auto simp: abs_struct_Some conf_struct_iff)
next
  fix v assume "ty v"
  then show "out_struct (map E ds) v \<noteq> Inl Stuck" using fields_enc_safe [OF c] by (auto simp: ty)
qed

section \<open>Unions\<close>

lemma abs_union_Some:
  "abs_union P A u v = Some a \<longleftrightarrow>
   (\<exists>tag body ta disc f. v = VUnion tag body \<and> A (u_tagtype u) tag = Some ta \<and>
     GetU32 tag = Some disc \<and> select_arm u disc = Some f \<and>
     (if isVoid f then a = XUnion ta None
      else \<exists>x. abs_decl A (uf_decl f) (arm_body P (go_decl P (uf_decl f)) body) = Some x \<and>
        a = XUnion ta (Some x)))"
  by (cases v) (auto simp: bindO_eq_Some split: if_splits)

lemma in_union_Inr:
  assumes "in_union P D u (VUnion tag body) buf = Inr (v, r)"
  obtains tag' r1 w f where "D (u_tagtype u) tag buf = Inr (tag', r1)" and "GetU32 tag' = Some w"
    and "select_arm u w = Some f"
    and "isVoid f \<and> v = VUnion tag' body \<and> r1 = r \<or> \<not> isVoid f \<and>
      (\<exists>x. in_decl P D (uf_decl f) (arm_body P (go_decl P (uf_decl f)) body) r1 = Inr (x, r) \<and>
        v = VUnion tag' (Some (go_decl P (uf_decl f), x)))"
proof -
  from assms obtain tag' r1 where d: "D (u_tagtype u) tag buf = Inr (tag', r1)"
    by (auto simp: bindE_eq_Inr)
  with assms obtain w where w: "GetU32 tag' = Some w" by (cases "GetU32 tag'") auto
  with assms d obtain f where f: "select_arm u w = Some f" by (cases "select_arm u w") auto
  show thesis
    by (rule that [OF d w f])
      (use assms d w f in \<open>auto simp: bindE_eq_Inr arm_access_selected split: if_splits\<close>)
qed

lemma conf_union_iff:
  "conf_union C u a \<longleftrightarrow>
   (\<exists>t disc f. C (u_tagtype u) t \<and> xdisc t = Some disc \<and> select_arm u disc = Some f \<and>
     (if isVoid f then a = XUnion t None
      else \<exists>x. conf_decl C (uf_decl f) x \<and> a = XUnion t (Some x)))"
  by (cases a) (auto split: option.splits if_splits)

lemma coder_union:
  assumes tag: "coder (has_gty P (go_typ P (u_tagtype u))) (E (u_tagtype u)) (D (u_tagtype u))
      (A (u_tagtype u)) (C (u_tagtype u))"
    and disc: "\<And>v a w. A (u_tagtype u) v = Some a \<Longrightarrow> GetU32 v = Some w \<Longrightarrow> xdisc a = Some w"
    and arm: "\<And>f. f \<in> set (u_fields u) \<Longrightarrow> \<not> isVoid f \<Longrightarrow>
      coder (has_gty P (go_decl P (uf_decl f))) (out_decl P E (uf_decl f)) (in_decl P D (uf_decl f))
        (abs_decl A (uf_decl f)) (conf_decl C (uf_decl f)) \<and> gty_ok P (go_decl P (uf_decl f))"
    and wf: "wf_pkg P" "tag_ok P (u_tagtype u)"
    and ty: "\<And>v. ty v \<longleftrightarrow> (\<exists>tag body. v = VUnion tag body \<and> has_gty P (go_typ P (u_tagtype u)) tag \<and>
      (\<forall>g b. body = Some (g, b) \<longrightarrow> has_gty P g b \<and> arm_gty P u g))"
  shows "coder ty (out_union P E u) (in_union P D u) (abs_union P A u) (conf_union C u)"
proof (rule coder.intro)
  fix old buf v r assume "ty old" and e: "in_union P D u old buf = Inr (v, r)"
  then obtain tg body where "old = VUnion tg body" and o1: "has_gty P (go_typ P (u_tagtype u)) tg"
      "\<forall>g b. body = Some (g, b) \<longrightarrow> has_gty P g b \<and> arm_gty P u g"
    by (auto simp: ty)
  with e obtain tg' r1 w f where o: "has_gty P (go_typ P (u_tagtype u)) tg"
      "\<forall>g b. body = Some (g, b) \<longrightarrow> has_gty P g b \<and> arm_gty P u g" "D (u_tagtype u) tg buf = Inr (tg', r1)"
      "GetU32 tg' = Some w" "select_arm u w = Some f"
    and d: "isVoid f \<and> v = VUnion tg' body \<and> r1 = r \<or> \<not> isVoid f \<and>
      (\<exists>x. in_decl P D (uf_decl f) (arm_body P (go_decl P (uf_decl f)) body) r1 = Inr (x, r) \<and>
        v = VUnion tg' (Some (go_decl P (uf_decl f), x)))"
    by (blast elim: in_union_Inr)
  from coder.dec_sound [OF tag o(1,3)] obtain ta where ta: "has_gty P (go_typ P (u_tagtype u)) tg'"
      "C (u_tagtype u) ta" "A (u_tagtype u) tg' = Some ta" "buf = rfc ta @ r1"
    by blast
  note dw = disc [OF ta(3) o(4)]
  from d show "ty v \<and> (\<exists>a. conf_union C u a \<and> abs_union P A u v = Some a \<and> buf = rfc a @ r)"
  proof (elim disjE conjE exE)
    assume "isVoid f" "v = VUnion tg' body" "r1 = r"
    with o ta dw have "conf_union C u (XUnion ta None)" "abs_union P A u v = Some (XUnion ta None)"
      "ty v" "buf = rfc (XUnion ta None) @ r"
      by (simp_all add: ty)
    then show ?thesis by blast
  next
    fix x assume nv: "\<not> isVoid f" and x: "v = VUnion tg' (Some (go_decl P (uf_decl f), x))"
      "in_decl P D (uf_decl f) (arm_body P (go_decl P (uf_decl f)) body) r1 = Inr (x, r)"
    from arm [OF select_arm_in [OF o(5)] nv]
    have c: "coder (has_gty P (go_decl P (uf_decl f))) (out_decl P E (uf_decl f))
        (in_decl P D (uf_decl f)) (abs_decl A (uf_decl f)) (conf_decl C (uf_decl f))"
      and g: "gty_ok P (go_decl P (uf_decl f))" by auto
    have bt: "\<forall>g b. body = Some (g, b) \<longrightarrow> has_gty P g b" using o(2) by blast
    from coder.dec_sound [OF c arm_body_typed [OF wf(1) g bt] x(2)] obtain a where
      a: "has_gty P (go_decl P (uf_decl f)) x" "conf_decl C (uf_decl f) a"
        "abs_decl A (uf_decl f) x = Some a" "r1 = rfc a @ r"
      by blast
    then have "conf_union C u (XUnion ta (Some a))" "abs_union P A u v = Some (XUnion ta (Some a))"
      "buf = rfc (XUnion ta (Some a)) @ r"
      using nv o ta dw x(1) by (auto simp: abs_union_Some arm_body_def)
    moreover have "arm_gty P u (go_decl P (uf_decl f))"
      using select_arm_in [OF o(5)] nv unfolding arm_gty_def by blast
    then have "ty v" using a(1) ta(1) x(1) ty by auto
    ultimately show ?thesis by blast
  qed
next
  fix old a r assume "ty old" and "conf_union C u a"
  then obtain tg body t w f where o: "old = VUnion tg body" "has_gty P (go_typ P (u_tagtype u)) tg"
      "\<forall>g b. body = Some (g, b) \<longrightarrow> has_gty P g b" "C (u_tagtype u) t" "xdisc t = Some w"
      "select_arm u w = Some f"
    and c: "isVoid f \<and> a = XUnion t None \<or>
      \<not> isVoid f \<and> (\<exists>x. conf_decl C (uf_decl f) x \<and> a = XUnion t (Some x))"
    by (auto simp: ty conf_union_iff split: if_splits)
  have T: "\<exists>tg'. D (u_tagtype u) tg (rfc t @ q) = Inr (tg', q) \<and> A (u_tagtype u) tg' = Some t \<and>
      GetU32 tg' = Some w" for q
  proof -
    obtain tg' where tg': "D (u_tagtype u) tg (rfc t @ q) = Inr (tg', q)"
        "A (u_tagtype u) tg' = Some t" "has_gty P (go_typ P (u_tagtype u)) tg'"
      by (rule coder.dec_completeE [OF tag o(2,4)])
    moreover from tag_GetU32 [OF wf(2) tg'(3)] disc [OF tg'(2)] o(5) have "GetU32 tg' = Some w"
      by auto
    ultimately show ?thesis by blast
  qed
  from c show "\<exists>v. in_union P D u old (rfc a @ r) = Inr (v, r) \<and> abs_union P A u v = Some a"
  proof (elim disjE conjE exE)
    assume "isVoid f" "a = XUnion t None"
    with T [of r] o show ?thesis by (auto simp: abs_union_Some)
  next
    fix x assume nv: "\<not> isVoid f" and x: "conf_decl C (uf_decl f) x" "a = XUnion t (Some x)"
    from arm [OF select_arm_in [OF o(6)] nv]
    have cd: "coder (has_gty P (go_decl P (uf_decl f))) (out_decl P E (uf_decl f))
        (in_decl P D (uf_decl f)) (abs_decl A (uf_decl f)) (conf_decl C (uf_decl f))"
      and g: "gty_ok P (go_decl P (uf_decl f))" by auto
    from coder.dec_complete [OF cd arm_body_typed [OF wf(1) g o(3)] x(1), of r] obtain y where
      y: "in_decl P D (uf_decl f) (arm_body P (go_decl P (uf_decl f)) body) (rfc x @ r) = Inr (y, r)"
        "abs_decl A (uf_decl f) y = Some x"
      by blast
    from T [of "rfc x @ r"] obtain tg' where tg':
        "D (u_tagtype u) tg (rfc t @ rfc x @ r) = Inr (tg', rfc x @ r)"
        "A (u_tagtype u) tg' = Some t" "GetU32 tg' = Some w"
      by blast
    have "in_union P D u old (rfc a @ r) = Inr (VUnion tg' (Some (go_decl P (uf_decl f), y)), r)"
      using tg' y nv o x(2) by (simp add: arm_access_selected)
    moreover have "abs_union P A u (VUnion tg' (Some (go_decl P (uf_decl f), y))) = Some a"
      using tg' y nv o x(2) by (simp add: arm_body_def)
    ultimately show ?thesis by blast
  qed
next
  fix old buf assume "ty old"
  then obtain tg body where o: "old = VUnion tg body" "has_gty P (go_typ P (u_tagtype u)) tg"
      "\<forall>g b. body = Some (g, b) \<longrightarrow> has_gty P g b"
    by (auto simp: ty)
  have "in_decl P D (uf_decl f) (arm_body P (go_decl P (uf_decl f)) body) q \<noteq> Inl Stuck"
    if "select_arm u w = Some f" "\<not> isVoid f" for f q w
    using arm [OF select_arm_in [OF that(1)] that(2)] arm_body_typed [OF wf(1) _ o(3)]
    by (blast dest: coder.dec_safe)
  moreover have "\<exists>w. GetU32 tg' = Some w" if "D (u_tagtype u) tg buf = Inr (tg', q)" for tg' q
    using coder.dec_sound [OF tag o(2) that] tag_GetU32 [OF wf(2)] by blast
  ultimately show "in_union P D u old buf \<noteq> Inl Stuck"
    using o coder.dec_safe [OF tag o(2)]
    by (fastforce simp: bindE_eq_Inl arm_access_selected split: option.splits if_splits)
next
  fix v b a assume e: "out_union P E u v = Inr b" and "abs_union P A u v = Some a"
  then obtain tg body ta w f where v: "v = VUnion tg body" "A (u_tagtype u) tg = Some ta"
      "GetU32 tg = Some w" "select_arm u w = Some f"
    and x: "if isVoid f then a = XUnion ta None
      else \<exists>x. abs_decl A (uf_decl f) (arm_body P (go_decl P (uf_decl f)) body) = Some x \<and>
        a = XUnion ta (Some x)"
    unfolding abs_union_Some by blast
  from e v(1) obtain b1 where E1: "E (u_tagtype u) tg = Inr b1" by (auto simp: bindE_eq_Inr)
  note b1 = E1 coder.enc_sound [OF tag E1 v(2)]
  show "b = rfc a"
  proof (cases "isVoid f")
    case True
    with e v b1 x show ?thesis by simp
  next
    case False
    with x obtain y where y: "abs_decl A (uf_decl f) (arm_body P (go_decl P (uf_decl f)) body) = Some y"
        "a = XUnion ta (Some y)" by auto
    from e v b1 False obtain b2 where b2: "b = b1 @ b2"
        "out_decl P E (uf_decl f) (arm_body P (go_decl P (uf_decl f)) body) = Inr b2"
      by (auto simp: bindE_eq_Inr arm_access_selected)
    from arm [OF select_arm_in [OF v(4)] False] b2(2) y(1) have "b2 = rfc y"
      by (blast dest: coder.enc_sound)
    with b1 b2 y show ?thesis by simp
  qed
next
  fix a v assume c: "conf_union C u a" and "abs_union P A u v = Some a"
  then obtain tg body ta w f where v: "v = VUnion tg body" "A (u_tagtype u) tg = Some ta"
      "GetU32 tg = Some w" "select_arm u w = Some f"
    and x: "if isVoid f then a = XUnion ta None
      else \<exists>x. abs_decl A (uf_decl f) (arm_body P (go_decl P (uf_decl f)) body) = Some x \<and>
        a = XUnion ta (Some x)"
    unfolding abs_union_Some by blast
  note dw = disc [OF v(2,3)]
  have ct: "C (u_tagtype u) ta" using c x by (auto simp: conf_union_iff split: if_splits)
  note b = coder.enc_complete [OF tag this v(2)]
  show "out_union P E u v = Inr (rfc a)"
  proof (cases "isVoid f")
    case True
    with v x b show ?thesis by simp
  next
    case False
    with x obtain y where y: "abs_decl A (uf_decl f) (arm_body P (go_decl P (uf_decl f)) body) = Some y"
        "a = XUnion ta (Some y)" by auto
    from c y(2) dw v(4) have "conf_decl C (uf_decl f) y"
      by (auto simp: conf_union_iff split: if_splits)
    with arm [OF select_arm_in [OF v(4)] False] y(1)
    have "out_decl P E (uf_decl f) (arm_body P (go_decl P (uf_decl f)) body) = Inr (rfc y)"
      by (blast dest: coder.enc_complete)
    with v b y False show ?thesis by (simp add: arm_access_selected)
  qed
next
  fix v assume "ty v"
  then obtain tg body where o: "v = VUnion tg body" "has_gty P (go_typ P (u_tagtype u)) tg"
      "\<forall>g b. body = Some (g, b) \<longrightarrow> has_gty P g b"
    by (auto simp: ty)
  have "out_decl P E (uf_decl f) (arm_body P (go_decl P (uf_decl f)) body) \<noteq> Inl Stuck"
    if "select_arm u w = Some f" "\<not> isVoid f" for f w
    using arm [OF select_arm_in [OF that(1)] that(2)] arm_body_typed [OF wf(1) _ o(3)]
    by (blast dest: coder.enc_safe)
  with o coder.enc_safe [OF tag o(2)] tag_GetU32 [OF wf(2) o(2)]
  show "out_union P E u v \<noteq> Inl Stuck"
    by (auto simp: bindE_eq_Inl arm_access_selected split: option.splits if_splits)
qed

section \<open>All types\<close>

lemma prim_disc:
  "abs_base b v = Some a \<Longrightarrow> GetU32 v = Some w \<Longrightarrow> xdisc a = Some w"
  by (auto simp: abs_base_def abs_prim_Some split: base.splits)

lemma GetU32_Some: "GetU32 v = Some w \<longleftrightarrow> (\<exists>b. v = VBool b \<and> w = (if b then 1 else 0)) \<or> v = VNum32 w"
  by (cases v) auto

lemma abs_decl_disc:
  assumes "\<And>t v a w. A t v = Some a \<Longrightarrow> GetU32 v = Some w \<Longrightarrow> xdisc a = Some w"
  shows "abs_decl A d v = Some a \<Longrightarrow> GetU32 v = Some w \<Longrightarrow> xdisc a = Some w"
  using assms [of "d_typ d" v a w]
  by (auto simp: abs_decl_def GetU32_Some split: qual_t.splits if_splits)

lemma abs_typ_disc: "abs_typ P n t v = Some a \<Longrightarrow> GetU32 v = Some w \<Longrightarrow> xdisc a = Some w"
proof (induction n arbitrary: t v a w)
  case 0
  then show ?case by simp
next
  case (Suc n)
  show ?case
  proof (cases t)
    case (Base b)
    with Suc.prems show ?thesis by (auto intro: prim_disc)
  next
    case (Ident s)
    with Suc.prems obtain sd where sd: "abs_sym P (abs_typ P n) sd v = Some a"
      by (auto split: option.splits)
    show ?thesis
    proof (cases sd)
      case (Sym_typedef d)
      with sd Suc.prems(2) show ?thesis
        using abs_decl_disc [of "abs_typ P n", OF Suc.IH] by (simp add: abs_sym_def)
    qed (use sd Suc.prems(2) in \<open>auto simp: abs_sym_def GetU32_Some\<close>)
  qed
qed

lemma tag_scalar_ok: "tag_ok P t \<Longrightarrow> scalar_ok P t"
  by (auto simp: tag_ok_def scalar_ok_def typ_ok_def split: tname.splits)

lemma coder_sym:
  assumes wf: "wf_pkg P" and s: "sym_of P s = Some sd"
    and rec: "\<And>t. scalar_ok P t \<Longrightarrow> coder_of P E D A C t"
    and disc: "\<And>t v a w. A t v = Some a \<Longrightarrow> GetU32 v = Some w \<Longrightarrow> xdisc a = Some w"
  shows "coder (has_gty P (go_typ P (Ident s))) (out_sym P E sd) (in_sym P D sd) (abs_sym P A sd)
    (conf_sym C sd)"
proof -
  note wfs = wf_pkg_sym [OF wf s, unfolded wf_sym_def]
  note named = go_typ_named [OF s]
  show ?thesis
  proof (cases sd)
    case (Sym_typedef d)
    then have ok: "decl_ok P d" using wfs by simp
    have "coder (has_gty P (go_decl P d)) (out_decl P E d) (in_decl P D d) (abs_decl A d) (conf_decl C d)"
      by (rule coder_decl [OF wf ok rec])
    with Sym_typedef wfs show ?thesis
      by (simp add: out_sym_def in_sym_def abs_sym_def conf_sym_def)
  next
    case (Sym_enum tags)
    then have "\<And>v. has_gty P (GNamed s) v \<longleftrightarrow> (\<exists>w. v = VNum32 w)"
      using s by (auto simp: has_named_simps)
    with Sym_enum named show ?thesis
      by (simp add: out_sym_def in_sym_def abs_sym_def conf_sym_def coder_num32 conf_prim_iff)
  next
    case (Sym_struct ds)
    then have ok: "\<forall>d \<in> set ds. decl_ok P d" using wfs by (simp add: list_all_iff)
    have ty: "has_gty P (GNamed s) v \<longleftrightarrow>
        (\<exists>vs. v = VStruct vs \<and> list_all2 (\<lambda>d. has_gty P (go_decl P d)) ds vs)" for v
      using s Sym_struct by (auto simp: has_named_simps)
    have "coder (has_gty P (GNamed s)) (out_struct (map (out_decl P E) ds))
        (in_struct (map (in_decl P D) ds)) (abs_struct (map (abs_decl A) ds))
        (conf_struct (map (conf_decl C) ds))"
      by (rule coder_struct [OF _ ty]) (use ok coder_decl [OF wf _ rec] in blast)
    with Sym_struct named show ?thesis
      by (simp add: out_sym_def in_sym_def abs_sym_def conf_sym_def)
  next
    case (Sym_union u)
    then have tok: "tag_ok P (u_tagtype u)"
      and ok: "\<And>f. f \<in> set (u_fields u) \<Longrightarrow> \<not> isVoid f \<Longrightarrow> decl_ok P (uf_decl f)"
      using wfs by (auto simp: list_all_iff)
    have ty: "has_gty P (GNamed s) v \<longleftrightarrow> (\<exists>tag body. v = VUnion tag body \<and>
        has_gty P (go_typ P (u_tagtype u)) tag \<and>
        (\<forall>g b. body = Some (g, b) \<longrightarrow> has_gty P g b \<and> arm_gty P u g))" for v
      using s Sym_union by (auto simp: has_named_simps)
    have "coder (has_gty P (GNamed s)) (out_union P E u) (in_union P D u) (abs_union P A u)
        (conf_union C u)"
      by (rule coder_union [OF _ disc _ wf tok ty])
        (use rec [OF tag_scalar_ok [OF tok]] ok coder_decl [OF wf _ rec] go_decl_ok [OF wf]
         in \<open>auto simp: coder_of_def\<close>)
    with Sym_union named show ?thesis
      by (simp add: out_sym_def in_sym_def abs_sym_def conf_sym_def)
  qed
qed

theorem coder_typ:
  "wf_pkg P \<Longrightarrow> scalar_ok P t \<Longrightarrow>
   coder_of P (out_typ P n) (in_typ P n) (abs_typ P n) (conf_typ P n) t"
proof (induction n arbitrary: t)
  case 0
  then show ?case by (simp add: coder_of_def coder_def)
next
  case (Suc n)
  show ?case
  proof (cases t)
    case (Base b)
    with Suc.prems show ?thesis by (simp add: coder_of_def coder_base scalar_ok_def typ_ok_def)
  next
    case (Ident s)
    with Suc.prems obtain sd where s: "sym_of P s = Some sd" by (auto simp: scalar_ok_def typ_ok_def)
    from coder_sym [OF Suc.prems(1) s Suc.IH [OF Suc.prems(1)] abs_typ_disc] Ident s
    show ?thesis by (simp add: coder_of_def)
  qed
qed

end
