(* ===== verification/XdrDepth.thy ===== *)
theory XdrDepth imports XdrTyped begin

text \<open>
  The depth bound of the model. A result other than \<open>StackOverflow\<close> does not depend on the
  bound, and for every destination and every input some bound is enough: unmarshaling
  terminates, also for recursive types, because every way back into the same type reads at
  least four bytes first.
\<close>

section \<open>Results do not depend on the bound\<close>

definition dec_le :: "decoder \<Rightarrow> decoder \<Rightarrow> bool" where
  "dec_le f g \<longleftrightarrow> (\<forall>old buf. f old buf = Inl StackOverflow \<or> f old buf = g old buf)"

definition enc_le :: "encoder \<Rightarrow> encoder \<Rightarrow> bool" where
  "enc_le f g \<longleftrightarrow> (\<forall>v. f v = Inl StackOverflow \<or> f v = g v)"

lemma dec_leD: "dec_le f g \<Longrightarrow> f old buf \<noteq> Inl StackOverflow \<Longrightarrow> f old buf = g old buf"
  by (auto simp: dec_le_def)

lemma dec_le_refl [simp]: "dec_le f f"
  by (simp add: dec_le_def)

lemma enc_le_refl [simp]: "enc_le f f"
  by (simp add: enc_le_def)

definition res_le :: "go_panic + 'a \<Rightarrow> go_panic + 'a \<Rightarrow> bool" where
  "res_le x y \<longleftrightarrow> x = Inl StackOverflow \<or> x = y"

lemma res_le_refl [simp]: "res_le x x"
  by (simp add: res_le_def)

lemma res_le_bind: "res_le x y \<Longrightarrow> (\<And>a. y = Inr a \<Longrightarrow> res_le (f a) (g a)) \<Longrightarrow> res_le (bindE x f) (bindE y g)"
  by (cases y) (auto simp: res_le_def)

lemma dec_le_res: "dec_le f g \<longleftrightarrow> (\<forall>old buf. res_le (f old buf) (g old buf))"
  by (simp add: dec_le_def res_le_def)

lemma enc_le_res: "enc_le f g \<longleftrightarrow> (\<forall>v. res_le (f v) (g v))"
  by (simp add: enc_le_def res_le_def)

lemma in_ptr_mono: "dec_le f g \<Longrightarrow> dec_le (in_ptr z f) (in_ptr z g)"
  unfolding dec_le_res
proof (intro allI)
  fix old buf assume "\<forall>old buf. res_le (f old buf) (g old buf)"
  then show "res_le (in_ptr z f old buf) (in_ptr z g old buf)"
    by (cases old) (auto intro!: res_le_bind split: prod.splits option.splits)
qed

lemma in_elems_mono: "dec_le f g \<Longrightarrow> res_le (in_elems f olds buf) (in_elems g olds buf)"
  by (induction olds arbitrary: buf)
    (auto simp: dec_le_res intro!: res_le_bind split: prod.splits)

lemma in_array_mono: "dec_le f g \<Longrightarrow> dec_le (in_array f) (in_array g)"
  unfolding dec_le_res [of "in_array f"]
proof (intro allI)
  fix old buf assume "dec_le f g"
  then show "res_le (in_array f old buf) (in_array g old buf)"
    by (cases old) (auto intro!: res_le_bind in_elems_mono)
qed

lemma vec_loop_mono: "dec_le f g \<Longrightarrow> res_le (vec_loop bound z f k i lb buf) (vec_loop bound z g k i lb buf)"
  by (induction k arbitrary: i lb buf)
    (auto simp: dec_le_res intro!: res_le_bind split: prod.splits)

lemma in_vec_mono: "dec_le f g \<Longrightarrow> dec_le (in_vec bound z f) (in_vec bound z g)"
  unfolding dec_le_res [of "in_vec bound z f"]
proof (intro allI)
  fix old buf assume "dec_le f g"
  then show "res_le (in_vec bound z f old buf) (in_vec bound z g old buf)"
    by (cases old)
      (auto simp: XdrMarshalN_in_def intro!: res_le_bind vec_loop_mono split: prod.splits)
qed

lemma in_decl_mono: "(\<And>t. dec_le (D t) (D' t)) \<Longrightarrow> dec_le (in_decl P D d) (in_decl P D' d)"
  by (auto simp: in_decl_def in_ptr_mono in_array_mono in_vec_mono split: qual_t.splits)

lemma in_fields_mono:
  "list_all2 dec_le fs gs \<Longrightarrow> res_le (in_fields fs olds buf) (in_fields gs olds buf)"
proof (induction fs gs arbitrary: olds buf rule: list_all2_induct)
  case Nil
  then show ?case by simp
next
  case (Cons f fs g gs)
  then show ?case
    by (cases olds) (auto simp: dec_le_res intro!: res_le_bind split: prod.splits)
qed

lemma in_struct_mono: "list_all2 dec_le fs gs \<Longrightarrow> dec_le (in_struct fs) (in_struct gs)"
  unfolding dec_le_res [of "in_struct fs"]
proof (intro allI)
  fix old buf assume "list_all2 dec_le fs gs"
  then show "res_le (in_struct fs old buf) (in_struct gs old buf)"
    by (cases old) (auto intro!: res_le_bind in_fields_mono)
qed

lemma in_union_mono:
  assumes "\<And>t. dec_le (D t) (D' t)"
  shows "dec_le (in_union P D u) (in_union P D' u)"
  unfolding dec_le_res
proof (intro allI)
  fix old buf
  have "res_le (D t old buf) (D' t old buf)" "res_le (in_decl P D d old buf) (in_decl P D' d old buf)"
    for t d old buf
    using assms in_decl_mono [OF assms] by (auto simp: dec_le_res)
  then show "res_le (in_union P D u old buf) (in_union P D' u old buf)"
    by (cases old) (auto intro!: res_le_bind split: prod.splits option.splits)
qed

lemma in_sym_mono: "(\<And>t. dec_le (D t) (D' t)) \<Longrightarrow> dec_le (in_sym P D sd) (in_sym P D' sd)"
  by (cases sd)
    (auto simp: in_sym_def in_decl_mono in_union_mono list_all2_map1 list_all2_map2
      intro!: in_struct_mono list.rel_refl_strong)

lemma in_typ_mono_Suc: "dec_le (in_typ P n t) (in_typ P (Suc n) t)"
proof (induction n arbitrary: t)
  case 0
  then show ?case by (simp add: dec_le_def)
next
  case (Suc n)
  then show ?case by (cases t) (auto intro: in_sym_mono split: option.splits simp del: in_typ.simps(1))
qed

lemma in_typ_mono:
  assumes "n \<le> m" and "in_typ P n t old buf \<noteq> Inl StackOverflow"
  shows "in_typ P m t old buf = in_typ P n t old buf"
  using assms
  by (induction rule: dec_induct) (metis dec_leD in_typ_mono_Suc)+

section \<open>Some bound is enough\<close>

definition conv :: "pkg \<Rightarrow> tname \<Rightarrow> val \<Rightarrow> bytes \<Rightarrow> bool" where
  "conv P t old buf \<longleftrightarrow> (\<exists>n. in_typ P n t old buf \<noteq> Inl StackOverflow)"

text \<open>
  A family of computations indexed by the depth bound settles when it takes one value,
  not \<open>StackOverflow\<close>, from some bound on.
\<close>

definition settles :: "(nat \<Rightarrow> go_panic + 'a) \<Rightarrow> (go_panic + 'a) \<Rightarrow> bool" where
  "settles f x \<longleftrightarrow> x \<noteq> Inl StackOverflow \<and> (\<exists>n. \<forall>m \<ge> n. f m = x)"

lemma settles_const: "x \<noteq> Inl StackOverflow \<Longrightarrow> settles (\<lambda>_. x) x"
  by (simp add: settles_def)

lemma ex_settles_const: "x \<noteq> Inl StackOverflow \<Longrightarrow> \<exists>y. settles (\<lambda>_. x) y"
  using settles_const by blast

lemma settles_bind:
  assumes "settles f x" and "\<And>a. x = Inr a \<Longrightarrow> \<exists>y. settles (\<lambda>n. g n a) y"
  shows "\<exists>y. settles (\<lambda>n. bindE (f n) (g n)) y"
proof -
  from assms(1) obtain n where n: "x \<noteq> Inl StackOverflow" "\<And>m. n \<le> m \<Longrightarrow> f m = x"
    by (auto simp: settles_def)
  show ?thesis
  proof (cases x)
    case (Inl e)
    with n have "settles (\<lambda>n. bindE (f n) (g n)) (Inl e)"
      by (auto simp: settles_def intro!: exI [of _ n])
    then show ?thesis ..
  next
    case (Inr a)
    with assms(2) obtain y k where y: "y \<noteq> Inl StackOverflow" "\<And>m. k \<le> m \<Longrightarrow> g m a = y"
      by (auto simp: settles_def)
    have "settles (\<lambda>n. bindE (f n) (g n)) y"
      using y n Inr by (auto simp: settles_def intro!: exI [of _ "max n k"])
    then show ?thesis ..
  qed
qed

lemma settles_bind_ex:
  "\<exists>x. settles f x \<Longrightarrow> (\<And>a. \<exists>y. settles (\<lambda>n. g n a) y) \<Longrightarrow>
   \<exists>y. settles (\<lambda>n. bindE (f n) (g n)) y"
  by (blast intro: settles_bind)

lemma settles_bind_const:
  assumes "x \<noteq> Inl StackOverflow" and "\<And>a. x = Inr a \<Longrightarrow> \<exists>y. settles (\<lambda>n. g n a) y"
  shows "\<exists>y. settles (\<lambda>n. bindE x (g n)) y"
  by (rule settles_bind [OF settles_const [OF assms(1)] assms(2)])

lemma conv_settles: "conv P t old buf \<longleftrightarrow> (\<exists>x. settles (\<lambda>n. in_typ P n t old buf) x)"
proof
  assume "conv P t old buf"
  then obtain n where n: "in_typ P n t old buf \<noteq> Inl StackOverflow" by (auto simp: conv_def)
  then have "settles (\<lambda>n. in_typ P n t old buf) (in_typ P n t old buf)"
    unfolding settles_def by (blast intro: in_typ_mono)
  then show "\<exists>x. settles (\<lambda>n. in_typ P n t old buf) x" ..
qed (auto simp: settles_def conv_def)

lemma settles_result:
  assumes "settles (\<lambda>n. in_typ P n t old buf) (Inr (v, r))" "wf_pkg P" "scalar_ok P t"
    "has_gty P (go_typ P t) old"
  shows "has_gty P (go_typ P t) v" and "length r \<le> length buf"
proof -
  from assms(1) obtain n where n: "in_typ P n t old buf = Inr (v, r)" by (auto simp: settles_def)
  note c = coder_typ [OF assms(2,3), of n, unfolded coder_of_def]
  from coder.dec_soundE [OF c assms(4) n] obtain a where "buf = rfc a @ r" "has_gty P (go_typ P t) v"
    by blast
  then show "has_gty P (go_typ P t) v" "length r \<le> length buf" by auto
qed

section \<open>Termination of the compound decoders\<close>

lemma no_SO_prims [simp]:
  "xdrReadInto buf k \<noteq> Inl StackOverflow" "xdrGet32 buf \<noteq> Inl StackOverflow"
  "xdrGet64 buf \<noteq> Inl StackOverflow" "bool_SetU32 w \<noteq> Inl StackOverflow"
  "size_SetU32 bound w \<noteq> Inl StackOverflow" "ptrflag_SetU32 z p w \<noteq> Inl StackOverflow"
  "XdrCheckLen bound n \<noteq> Inl StackOverflow" "in_varbytes bound buf \<noteq> Inl StackOverflow"
  "in_fixbytes k buf \<noteq> Inl StackOverflow" "SetVecLen bound z len lb \<noteq> Inl StackOverflow"
proof -
  show ri: "xdrReadInto buf k \<noteq> Inl StackOverflow" for buf k
    by (auto simp: xdrReadInto_def split: prod.splits option.splits)
  then show "xdrGet32 buf \<noteq> Inl StackOverflow" "xdrGet64 buf \<noteq> Inl StackOverflow"
    by (auto simp: xdrGet32_def xdrGet64_def bindE_eq_Inl)
  have pad: "xdrReadPad buf n \<noteq> Inl StackOverflow" for buf n
    using ri by (auto simp: xdrReadPad_def bindE_eq_Inl split: if_splits)
  have rn: "xdrReadN buf n \<noteq> Inl StackOverflow" for buf n
    by (auto simp: xdrReadN_def split: sum.splits prod.splits)
  show "in_varbytes bound buf \<noteq> Inl StackOverflow"
    using ri pad rn
    by (auto simp: in_varbytes_def xdrGet32_def bindE_eq_Inl SetByteSlice_def split: if_splits)
  show "in_fixbytes k buf \<noteq> Inl StackOverflow"
    using pad by (auto simp: in_fixbytes_def bindE_eq_Inl split: sum.splits prod.splits)
  show "SetVecLen bound z len lb \<noteq> Inl StackOverflow"
    by (auto simp: SetVecLen_def XdrCheckLen_def bindE_eq_Inl split: prod.splits if_splits)
qed (auto simp: bool_SetU32_def size_SetU32_def ptrflag_SetU32_def XdrCheckLen_def)

text \<open>
  \<open>terminating T L D\<close>: on inputs of at most \<open>L\<close> bytes and destinations in \<open>T\<close>, the decoder
  settles, leaves a value in \<open>T\<close> and does not lengthen the input.
\<close>

definition terminating :: "(val \<Rightarrow> bool) \<Rightarrow> nat \<Rightarrow> (nat \<Rightarrow> decoder) \<Rightarrow> bool" where
  "terminating T L D \<longleftrightarrow>
     (\<forall>old buf. T old \<longrightarrow> length buf \<le> L \<longrightarrow> (\<exists>x. settles (\<lambda>n. D n old buf) x)) \<and>
     (\<forall>old buf v r. T old \<longrightarrow> settles (\<lambda>n. D n old buf) (Inr (v, r)) \<longrightarrow>
        T v \<and> length r \<le> length buf)"

lemma terminatingE:
  assumes "terminating T L D" "T old" "length buf \<le> L"
  obtains x where "settles (\<lambda>n. D n old buf) x"
    and "\<And>v r. x = Inr (v, r) \<Longrightarrow> T v \<and> length r \<le> length buf"
  using assms unfolding terminating_def by blast

lemma terminatingD:
  "terminating T L D \<Longrightarrow> T old \<Longrightarrow> length buf \<le> L \<Longrightarrow> \<exists>x. settles (\<lambda>n. D n old buf) x"
  unfolding terminating_def by blast

lemma in_elems_settles:
  assumes "terminating T L D"
  shows "\<forall>x \<in> set olds. T x \<Longrightarrow> length buf \<le> L \<Longrightarrow> \<exists>y. settles (\<lambda>n. in_elems (D n) olds buf) y"
proof (induction olds arbitrary: buf)
  case Nil
  then show ?case by (auto intro: settles_const)
next
  case (Cons x olds)
  then obtain y where y: "settles (\<lambda>n. D n x buf) y"
      "\<And>v r. y = Inr (v, r) \<Longrightarrow> T v \<and> length r \<le> length buf"
    using assms by (auto elim: terminatingE)
  show ?case
  proof (simp, rule settles_bind [OF y(1)])
    fix a assume a: "y = Inr a"
    obtain v r where vr: "a = (v, r)" by fastforce
    have "length r \<le> L" using y(2) a vr Cons.prems(2) by fastforce
    with Cons.IH [of r] Cons.prems(1) obtain w where "settles (\<lambda>n. in_elems (D n) olds r) w"
      by auto
    from settles_bind [OF this, of "\<lambda>_ (vs, r'). Inr (v # vs, r')"] vr
    show "\<exists>z. settles (\<lambda>n. case a of (v, r) \<Rightarrow> bindE (in_elems (D n) olds r)
        (\<lambda>(vs, r'). Inr (v # vs, r'))) z"
      by (auto split: prod.splits intro: settles_const)
  qed
qed

lemma vec_loop_settles:
  assumes "terminating T L D" "T z"
  shows "i \<le> l \<Longrightarrow> l \<le> length b \<Longrightarrow> \<forall>x \<in> set b. T x \<Longrightarrow> i + k \<le> unat bound \<Longrightarrow>
    length buf \<le> L \<Longrightarrow> \<exists>y. settles (\<lambda>n. vec_loop bound z (D n) k i (l, b) buf) y"
proof (induction k arbitrary: i l b buf)
  case 0
  then show ?case by (auto intro: settles_const)
next
  case (Suc k)
  obtain l1 b1 where s: "(if l \<le> i then SetVecLen bound z (of_nat (i + 1)) (l, b)
      else Inr (l, b)) = Inr (l1, b1)" "l1 = max l (i + 1)" "l1 \<le> length b1" "\<forall>x \<in> set b1. T x"
    by (rule vec_step [of i l b T z bound]) (use Suc.prems assms in auto)
  have "T (b1 ! i)" using s by simp
  then obtain y where y: "settles (\<lambda>n. D n (b1 ! i) buf) y"
      "\<And>v r. y = Inr (v, r) \<Longrightarrow> T v \<and> length r \<le> length buf"
    using assms(1) Suc.prems(5) by (auto elim: terminatingE)
  have "\<exists>w. settles (\<lambda>n. bindE (D n (b1 ! i) buf) (\<lambda>(v, r).
      vec_loop bound z (D n) k (i + 1) (l1, b1[i := v]) r)) w"
  proof (rule settles_bind [OF y(1)])
    fix a assume a: "y = Inr a"
    obtain v r where vr: "a = (v, r)" by fastforce
    with y(2) a have v: "T v" "length r \<le> length buf" by auto
    have "\<exists>w. settles (\<lambda>n. vec_loop bound z (D n) k (i + 1) (l1, b1[i := v]) r) w"
    proof (rule Suc.IH)
      show "\<forall>x \<in> set (b1[i := v]). T x"
        using s(4) v(1) by (auto dest: set_update_subset_insert [THEN subsetD])
    qed (use s v Suc.prems in auto)
    with vr show "\<exists>w. settles (\<lambda>n. case a of (v, r) \<Rightarrow>
        vec_loop bound z (D n) k (i + 1) (l1, b1[i := v]) r) w" by simp
  qed
  with s(1) show ?case by simp
qed

lemma in_decl_settles:
  assumes z: "T z" and buf: "length buf \<le> L" and t: "d_typ d \<noteq> Base String" "d_typ d \<noteq> Base Byte"
    and z_def: "z = zero P (go_typ P (d_typ d))"
    and same: "d_qual d = SCALAR \<or> d_qual d = ARRAY \<and> unat (d_bound d) \<noteq> 0 \<Longrightarrow>
      terminating T L (\<lambda>n. D n (d_typ d))"
    and short: "\<And>M. M < L \<Longrightarrow> terminating T M (\<lambda>n. D n (d_typ d))"
    and ty: "case d_qual d of SCALAR \<Rightarrow> T old | PTR \<Rightarrow> ptr_ty T old
      | ARRAY \<Rightarrow> arr_ty (unat (d_bound d)) T old | VEC \<Rightarrow> slice_ty T old"
  shows "\<exists>y. settles (\<lambda>n. in_decl P (D n) d old buf) y"
proof (cases "d_qual d")
  case SCALAR
  with t have "in_decl P (D n) d old buf = D n (d_typ d) old buf" for n by (simp add: in_decl_def)
  moreover have "T old" using SCALAR ty by simp
  then have "\<exists>y. settles (\<lambda>n. D n (d_typ d) old buf) y"
    using terminatingD [OF same _ buf] SCALAR by blast
  ultimately show ?thesis by simp
next
  case ARRAY
  with ty obtain olds where olds: "old = VArr olds" "length olds = unat (d_bound d)" "\<forall>x \<in> set olds. T x"
    by (cases old) auto
  have "\<exists>y. settles (\<lambda>n. in_elems (D n (d_typ d)) olds buf) y"
  proof (cases "olds = []")
    case True
    then show ?thesis by (auto intro: settles_const)
  next
    case False
    then have "terminating T L (\<lambda>n. D n (d_typ d))" using olds(2) ARRAY same by (metis length_0_conv)
    from in_elems_settles [OF this olds(3) buf] show ?thesis .
  qed
  then obtain y where "settles (\<lambda>n. in_elems (D n (d_typ d)) olds buf) y" ..
  from settles_bind [OF this, of "\<lambda>_ (vs, r). Inr (VArr vs, r)"] olds(1) ARRAY t
  show ?thesis by (auto simp: in_decl_def split: prod.splits intro: settles_const)
next
  case PTR
  with ty obtain p where p: "old = VPtr p" "\<forall>x. p = Some x \<longrightarrow> T x"
    by (cases "(T, old)" rule: ptr_ty.cases) auto
  have "\<exists>y. settles (\<lambda>n. case p' of None \<Rightarrow> Inr (VPtr None, r)
      | Some x \<Rightarrow> bindE (D n (d_typ d) x r) (\<lambda>(v, r'). Inr (VPtr (Some v), r'))) y"
    if g: "xdrGet32 buf = Inr (w, r)" and q: "ptrflag_SetU32 z p w = Inr p'" for w r p'
  proof (cases p')
    case None
    then show ?thesis by (auto intro: settles_const)
  next
    case (Some x)
    with q p z have x: "T x" by (auto simp: ptrflag_SetU32_Inr split: option.splits)
    have "length r < L" using g buf by (auto simp: w32.get_split xdrPut32_def)
    from terminatingD [OF short [OF this] x, of r] obtain y where
      "settles (\<lambda>n. D n (d_typ d) x r) y" by auto
    from settles_bind [OF this, of "\<lambda>_ (v, r'). Inr (VPtr (Some v), r')"] Some
    show ?thesis by (auto split: prod.splits intro: settles_const)
  qed
  then have "\<exists>y. settles (\<lambda>n. in_ptr z (D n (d_typ d)) old buf) y"
    unfolding p(1) in_ptr.simps by (intro settles_bind_const) (auto intro!: settles_bind_const)
  with PTR t z_def show ?thesis by (simp add: in_decl_def)
next
  case VEC
  with ty obtain l b where s: "old = VSlice l b" "l \<le> length b" "\<forall>x \<in> set b. T x"
    by (cases old) auto
  have "\<exists>y. settles (\<lambda>n. XdrMarshalN_in (d_bound d) z (D n (d_typ d)) w (l, b) r) y"
    if g: "xdrGet32 buf = Inr (q, r)" for q w r
    unfolding XdrMarshalN_in_def
  proof (rule settles_bind_const)
    fix a assume "XdrCheckLen (d_bound d) w = Inr a"
    then have b: "unat w \<le> unat (d_bound d)"
      by (auto simp: XdrCheckLen_def not_less word_le_nat_alt split: if_splits)
    have "length r < L" using g buf by (auto simp: w32.get_split xdrPut32_def)
    from vec_loop_settles [OF short [OF this] z _ s(2,3), of 0 "unat w" "d_bound d" r] b
    obtain y where "settles (\<lambda>n. vec_loop (d_bound d) z (D n (d_typ d)) (unat w) 0 (l, b) r) y"
      by auto
    then show "\<exists>y. settles (\<lambda>n. bindE (vec_loop (d_bound d) z (D n (d_typ d)) (unat w) 0 (l, b) r)
        (\<lambda>((l, b), r). Inr ((if unat w < l then unat w else l, b), r))) y"
      by (rule settles_bind) (auto split: prod.splits intro: settles_const)
  qed simp
  note loop = this
  have "\<exists>y. settles (\<lambda>n. in_vec (d_bound d) z (D n (d_typ d)) old buf) y"
    unfolding s(1) in_vec.simps
  proof (rule settles_bind_const, simp)
    fix q assume "xdrGet32 buf = Inr q"
    then obtain w r where q: "q = (w, r)" and g: "xdrGet32 buf = Inr (w, r)" by (cases q) auto
    show "\<exists>y. settles (\<lambda>n. case q of (w, r) \<Rightarrow> bindE (size_SetU32 (d_bound d) w) (\<lambda>k.
        bindE (XdrMarshalN_in (d_bound d) z (D n (d_typ d)) k (l, b) r) (\<lambda>((l', b'), r').
          Inr (VSlice l' b', r')))) y"
      unfolding q prod.case
    proof (rule settles_bind_const, simp)
      fix k
      show "\<exists>y. settles (\<lambda>n. bindE (XdrMarshalN_in (d_bound d) z (D n (d_typ d)) k (l, b) r)
          (\<lambda>((l', b'), r'). Inr (VSlice l' b', r'))) y"
        by (rule settles_bind_ex [OF loop [OF g]])
          (auto split: prod.splits intro: settles_const)
    qed
  qed
  with VEC t z_def show ?thesis by (simp add: in_decl_def)
qed

section \<open>Unmarshaling terminates\<close>

abbreviation term_typ :: "pkg \<Rightarrow> nat \<Rightarrow> tname \<Rightarrow> bool" where
  "term_typ P L t \<equiv> terminating (has_gty P (go_typ P t)) L (\<lambda>n. in_typ P n t)"

lemma term_typI:
  assumes "wf_pkg P" "scalar_ok P t"
    and "\<And>old buf. has_gty P (go_typ P t) old \<Longrightarrow> length buf \<le> L \<Longrightarrow>
      \<exists>x. settles (\<lambda>n. in_typ P (Suc n) t old buf) x"
  shows "term_typ P L t"
  unfolding terminating_def
proof (intro conjI allI impI)
  fix old and buf :: bytes assume "has_gty P (go_typ P t) old" "length buf \<le> L"
  from assms(3) [OF this] obtain x where x: "x \<noteq> Inl StackOverflow"
      "\<exists>n. \<forall>m \<ge> n. in_typ P (Suc m) t old buf = x"
    by (auto simp only: settles_def)
  then obtain n where "\<And>m. n \<le> m \<Longrightarrow> in_typ P (Suc m) t old buf = x" by blast
  then have "\<And>m. Suc n \<le> m \<Longrightarrow> in_typ P m t old buf = x" by (metis Suc_le_D Suc_le_mono)
  with x(1) show "\<exists>x. settles (\<lambda>n. in_typ P n t old buf) x" by (auto simp only: settles_def)
qed (use settles_result [OF _ assms(1,2)] in blast)+

lemma term_decl:
  assumes ok: "wf_pkg P" "decl_ok P d"
    and same: "d_qual d = SCALAR \<or> d_qual d = ARRAY \<and> unat (d_bound d) \<noteq> 0 \<Longrightarrow>
      d_typ d \<noteq> Base String \<Longrightarrow> d_typ d \<noteq> Base Byte \<Longrightarrow> term_typ P L (d_typ d)"
    and short: "\<And>M t. M < L \<Longrightarrow> scalar_ok P t \<Longrightarrow> term_typ P M t"
    and old: "has_gty P (go_decl P d) old" "length buf \<le> L"
  shows "\<exists>y. settles (\<lambda>n. in_decl P (in_typ P n) d old buf) y"
proof (cases "d_typ d = Base String \<or> d_typ d = Base Byte")
  case True
  with ok(2) old(1) show ?thesis
    by (auto simp: in_decl_def decl_ok_def go_decl_def decltype_def bindE_eq_Inl
        split: if_splits intro!: ex_settles_const)
qed (rule in_decl_settles [of "has_gty P (go_typ P (d_typ d))"],
  use assms decl_typ_ok [OF ok(2)] zero_typed [OF ok(1) go_typ_ok [OF ok(1)]] in
    \<open>auto simp: scalar_ok_def go_decl_def decltype_def has_gty_ptr has_gty_arr has_gty_slice
      split: qual_t.splits\<close>)

lemma settles_decl_rest:
  assumes "wf_pkg P" "decl_ok P d" "has_gty P (go_decl P d) old"
    and "settles (\<lambda>n. in_decl P (in_typ P n) d old buf) (Inr (v, r))"
  shows "length r \<le> length buf"
proof -
  from assms(4) obtain n where n: "in_decl P (in_typ P n) d old buf = Inr (v, r)"
    by (auto simp: settles_def)
  note c = coder_decl [OF assms(1,2), of "out_typ P n" "in_typ P n" "abs_typ P n" "conf_typ P n",
      OF coder_typ [OF assms(1)]]
  from coder.dec_soundE [OF c assms(3) n] show ?thesis by fastforce
qed

lemma in_fields_settles:
  assumes wf: "wf_pkg P"
    and conv: "\<And>d old b. d \<in> set ds \<Longrightarrow> has_gty P (go_decl P d) old \<Longrightarrow> length b \<le> L \<Longrightarrow>
      \<exists>y. settles (\<lambda>n. in_decl P (in_typ P n) d old b) y"
  shows "list_all (decl_ok P) ds \<Longrightarrow> list_all2 (\<lambda>d. has_gty P (go_decl P d)) ds olds \<Longrightarrow>
    length buf \<le> L \<Longrightarrow>
    \<exists>y. settles (\<lambda>n. in_fields (map (in_decl P (in_typ P n)) ds) olds buf) y"
  using conv
proof (induction ds arbitrary: olds buf)
  case Nil
  then show ?case by (auto intro: ex_settles_const)
next
  case (Cons d ds)
  from Cons.prems(2) obtain x xs where o: "olds = x # xs" "has_gty P (go_decl P d) x"
      "list_all2 (\<lambda>d. has_gty P (go_decl P d)) ds xs"
    by (auto simp: list_all2_Cons1)
  from Cons.prems(4) [of d x buf] o(2) Cons.prems(3) obtain y where
    y: "settles (\<lambda>n. in_decl P (in_typ P n) d x buf) y" by auto
  have "\<exists>w. settles (\<lambda>n. bindE (in_decl P (in_typ P n) d x buf) (\<lambda>(v, r).
      bindE (in_fields (map (in_decl P (in_typ P n)) ds) xs r) (\<lambda>(vs, r'). Inr (v # vs, r')))) w"
  proof (rule settles_bind [OF y])
    fix a assume a: "y = Inr a"
    obtain v r where vr: "a = (v, r)" by fastforce
    have dk: "decl_ok P d" using Cons.prems(1) by simp
    have "length r \<le> length buf"
      using settles_decl_rest [OF wf dk o(2), of buf v r] y a vr by simp
    then have "length r \<le> L" using Cons.prems(3) by simp
    then have "\<exists>w. settles (\<lambda>n. in_fields (map (in_decl P (in_typ P n)) ds) xs r) w"
      using Cons.prems(1,4) o(3) by (intro Cons.IH) auto
    from settles_bind_ex [OF this, of "\<lambda>_ (vs, r'). Inr (v # vs, r')"] vr
    show "\<exists>w. settles (\<lambda>n. case a of (v, r) \<Rightarrow>
        bindE (in_fields (map (in_decl P (in_typ P n)) ds) xs r) (\<lambda>(vs, r'). Inr (v # vs, r'))) w"
      by (auto split: prod.splits intro: ex_settles_const)
  qed
  with o(1) show ?case by simp
qed

text \<open>The discriminant of a union occupies four bytes.\<close>

lemma settles_tag:
  assumes "wf_pkg P" "tag_ok P t" "has_gty P (go_typ P t) tag"
    and "settles (\<lambda>n. in_typ P n t tag buf) (Inr (v, r))"
  shows "length r < length buf" and "\<exists>w. GetU32 v = Some w"
proof -
  from assms(4) obtain n where n: "in_typ P n t tag buf = Inr (v, r)" by (auto simp: settles_def)
  note c = coder_typ [OF assms(1) tag_scalar_ok [OF assms(2)], of n, unfolded coder_of_def]
  from coder.dec_soundE [OF c assms(3) n] obtain a where a: "abs_typ P n t v = Some a"
      "buf = rfc a @ r" "has_gty P (go_typ P t) v" by blast
  from tag_GetU32 [OF assms(2) a(3)] obtain w where w: "GetU32 v = Some w" ..
  then show "\<exists>w. GetU32 v = Some w" ..
  from abs_typ_disc [OF a(1) w] have "length (rfc a) = 4" by (cases a) auto
  then show "length r < length buf" using a(2) by simp
qed

lemma in_union_settles:
  assumes wf: "wf_pkg P" and tok: "tag_ok P (u_tagtype u)"
    and arms: "\<And>f. f \<in> set (u_fields u) \<Longrightarrow> \<not> isVoid f \<Longrightarrow> decl_ok P (uf_decl f)"
    and tag: "term_typ P L (u_tagtype u)"
    and short: "\<And>M t. M < L \<Longrightarrow> scalar_ok P t \<Longrightarrow> term_typ P M t"
    and old: "has_gty P (go_typ P (u_tagtype u)) tg" "\<forall>g b. body = Some (g, b) \<longrightarrow> has_gty P g b"
    and buf: "length buf \<le> L"
  shows "\<exists>y. settles (\<lambda>n. in_union P (in_typ P n) u (VUnion tg body) buf) y"
  unfolding in_union.simps
proof -
  from terminatingD [OF tag old(1) buf] obtain y where
    y: "settles (\<lambda>n. in_typ P n (u_tagtype u) tg buf) y" ..
  show "\<exists>y. settles (\<lambda>n. bindE (in_typ P n (u_tagtype u) tg buf) (\<lambda>(tag', r).
      case GetU32 tag' of None \<Rightarrow> Inl Stuck
      | Some disc \<Rightarrow> (case select_arm u disc of None \<Rightarrow> Inl (XdrError (InvalidTag (u_tagid u) disc))
        | Some f \<Rightarrow> if isVoid f then Inr (VUnion tag' body, r)
          else bindE (arm_access P u f disc body) (\<lambda>old.
            bindE (in_decl P (in_typ P n) (uf_decl f) old r) (\<lambda>(v, r').
              Inr (VUnion tag' (Some (go_decl P (uf_decl f), v)), r')))))) y"
  proof (rule settles_bind [OF y])
    fix a assume a: "y = Inr a"
    obtain tag' r where tr: "a = (tag', r)" by fastforce
    have yy: "settles (\<lambda>n. in_typ P n (u_tagtype u) tg buf) (Inr (tag', r))" using y a tr by simp
    from settles_tag [OF wf tok old(1) yy] obtain w where lr: "length r < L" and
      w: "GetU32 tag' = Some w" using buf by auto
    show "\<exists>y. settles (\<lambda>n. case a of (tag', r) \<Rightarrow>
        (case GetU32 tag' of None \<Rightarrow> Inl Stuck
        | Some disc \<Rightarrow> (case select_arm u disc of None \<Rightarrow> Inl (XdrError (InvalidTag (u_tagid u) disc))
          | Some f \<Rightarrow> if isVoid f then Inr (VUnion tag' body, r)
            else bindE (arm_access P u f disc body) (\<lambda>old.
              bindE (in_decl P (in_typ P n) (uf_decl f) old r) (\<lambda>(v, r').
                Inr (VUnion tag' (Some (go_decl P (uf_decl f), v)), r')))))) y"
    proof (cases "select_arm u w")
      case None
      with w tr show ?thesis by (auto intro: ex_settles_const)
    next
      case (Some f)
      show ?thesis
      proof (cases "isVoid f")
        case True
        with w tr Some show ?thesis by (auto intro: ex_settles_const)
      next
        case False
        note ok = arms [OF select_arm_in [OF Some] False]
        have "\<exists>y. settles (\<lambda>n. in_decl P (in_typ P n) (uf_decl f)
            (arm_body P (go_decl P (uf_decl f)) body) r) y"
          by (rule term_decl [OF wf ok _ _ _ order_refl])
            (use short lr decl_typ_ok [OF ok] arm_body_typed [OF wf go_decl_ok [OF wf ok] old(2)] in
              \<open>auto simp: scalar_ok_def\<close>)
        from settles_bind_ex [OF this, of "\<lambda>_ (v, r').
            Inr (VUnion tag' (Some (go_decl P (uf_decl f), v)), r')"] w tr Some False
        show ?thesis
          by (auto simp: arm_access_selected split: prod.splits intro: ex_settles_const)
      qed
    qed
  qed
qed

text \<open>
  One type, when shorter inputs and types with a smaller zero value are settled: aliases
  are followed by induction on the number of typedefs.
\<close>

lemma term_step:
  assumes wf: "wf_pkg P"
    and short: "\<And>M t. M < L \<Longrightarrow> scalar_ok P t \<Longrightarrow> term_typ P M t"
    and small: "\<And>t'. size (zero P (go_typ P t')) < size (zero P (go_typ P t)) \<Longrightarrow>
      scalar_ok P t' \<Longrightarrow> term_typ P L t'"
  shows "scalar_ok P t \<Longrightarrow> gty_ok P (go_typ_n P m t) \<Longrightarrow> go_typ_n P m t = go_typ P t \<Longrightarrow>
    term_typ P L t"
  using small
proof (induction m arbitrary: t rule: less_induct)
  case (less m)
  note ok = less.prems(1) and small = less.prems(4)
  show ?case
  proof (rule term_typI [OF wf ok])
    fix old and buf :: bytes
    assume old: "has_gty P (go_typ P t) old" and buf: "length buf \<le> L"
    show "\<exists>x. settles (\<lambda>n. in_typ P (Suc n) t old buf) x"
    proof (cases t)
      case (Base b)
      have "in_base b old buf \<noteq> Inl StackOverflow"
        using Base ok old
        by (cases b) (auto simp: in_base_def scalar_ok_def typ_ok_def bindE_eq_Inl)
      with Base show ?thesis by (auto intro: ex_settles_const)
    next
      case (Ident s)
      with ok obtain sd where s: "sym_of P s = Some sd" by (auto simp: scalar_ok_def typ_ok_def)
      note wfs = wf_pkg_sym [OF wf s, unfolded wf_sym_def]
      note named = go_typ_named [OF s]
      show ?thesis
      proof (cases sd)
        case (Sym_typedef d)
        then have g: "go_typ P t = go_decl P d" and dok: "decl_ok P d" using wfs Ident by auto
        have "\<exists>m'. m = Suc m'"
          using less.prems(2) Ident s Sym_typedef by (cases m) auto
        then obtain m' where m': "m = Suc m'" ..
        then have al: "decltype (go_typ_n P m') d = decltype (go_typ P) d"
            "gty_ok P (decltype (go_typ_n P m') d)"
          using less.prems(2,3) Ident s Sym_typedef g by (auto simp: go_decl_def)
        have "\<exists>y. settles (\<lambda>n. in_decl P (in_typ P n) d old buf) y"
        proof (rule term_decl [OF wf dok _ short])
          show "has_gty P (go_decl P d) old" using old g by simp
        next
          assume q: "d_qual d = SCALAR \<or> d_qual d = ARRAY \<and> unat (d_bound d) \<noteq> 0"
            and nb: "d_typ d \<noteq> Base String" "d_typ d \<noteq> Base Byte"
          have dsc: "scalar_ok P (d_typ d)" using decl_typ_ok [OF dok] nb by (simp add: scalar_ok_def)
          from q show "term_typ P L (d_typ d)"
          proof (elim disjE conjE)
            assume "d_qual d = SCALAR"
            with al nb g have e: "go_typ_n P m' (d_typ d) = go_typ P (d_typ d)"
                "gty_ok P (go_typ_n P m' (d_typ d))" "go_typ P (d_typ d) = go_typ P t"
              by (auto simp: decltype_def go_decl_def)
            show ?thesis
            proof (rule less.IH [OF _ dsc e(2,1)])
              show "m' < m" using m' by simp
              show "term_typ P L t'"
                if "size (zero P (go_typ P t')) < size (zero P (go_typ P (d_typ d)))" "scalar_ok P t'"
                for t'
                using that small unfolding e(3) by blast
            qed
          next
            assume "d_qual d = ARRAY" "unat (d_bound d) \<noteq> 0"
            then have "size (zero P (go_typ P (d_typ d))) < size (zero P (go_typ P t))"
              using g nb by (cases "unat (d_bound d)") (auto simp: go_decl_def decltype_def)
            then show ?thesis using small dsc by blast
          qed
        qed (use buf in auto)
        with Ident s Sym_typedef show ?thesis by (simp add: in_sym_def)
      next
        case (Sym_enum tags)
        have "in_num32 old buf \<noteq> Inl StackOverflow" by (cases old) (auto simp: bindE_eq_Inl)
        with Ident s Sym_enum show ?thesis by (auto simp: in_sym_def intro: ex_settles_const)
      next
        case (Sym_struct ds)
        then have zs: "zero P (go_typ P t) = VStruct (map (\<lambda>d. zero P (go_decl P d)) ds)"
          and dok: "list_all (decl_ok P) ds"
          using wfs named Ident by auto
        from old named Ident s Sym_struct obtain vs where vs: "old = VStruct vs"
            "list_all2 (\<lambda>d. has_gty P (go_decl P d)) ds vs"
          by (auto simp: has_named_simps)
        have "\<exists>y. settles (\<lambda>n. in_fields (map (in_decl P (in_typ P n)) ds) vs buf) y"
        proof (rule in_fields_settles [OF wf _ dok vs(2) buf])
          fix d old and b :: bytes
          assume d: "d \<in> set ds" "has_gty P (go_decl P d) old" "length b \<le> L"
          have ok: "decl_ok P d" using dok d(1) by (simp add: list_all_iff)
          have sz: "size (zero P (go_decl P d)) < size (zero P (go_typ P t))"
            using size_in_list [of "zero P (go_decl P d)" "map (\<lambda>d. zero P (go_decl P d)) ds"] d(1) zs
            by simp
          show "\<exists>y. settles (\<lambda>n. in_decl P (in_typ P n) d old b) y"
          proof (rule term_decl [OF wf ok _ short d(2,3)])
            assume q: "d_qual d = SCALAR \<or> d_qual d = ARRAY \<and> unat (d_bound d) \<noteq> 0"
              and nb: "d_typ d \<noteq> Base String" "d_typ d \<noteq> Base Byte"
            then have "size (zero P (go_typ P (d_typ d))) \<le> size (zero P (go_decl P d))"
              by (cases "unat (d_bound d)") (auto simp: go_decl_def decltype_def)
            with sz show "term_typ P L (d_typ d)"
              using small decl_typ_ok [OF ok nb(2)] nb(1) by (simp add: scalar_ok_def)
          qed
        qed
        from settles_bind_ex [OF this, of "\<lambda>_ (vs, r). Inr (VStruct vs, r)"] vs(1) Ident s Sym_struct
        show ?thesis
          by (auto simp: in_sym_def split: prod.splits intro: ex_settles_const)
      next
        case (Sym_union u)
        then have zs: "zero P (go_typ P t) = VUnion (zero P (go_typ P (u_tagtype u))) None"
          and tok: "tag_ok P (u_tagtype u)"
          and arms: "list_all (\<lambda>f. isVoid f \<or> decl_ok P (uf_decl f)) (u_fields u)"
          using wfs named Ident by auto
        from old named Ident s Sym_union obtain tg body where ub: "old = VUnion tg body"
            "has_gty P (go_typ P (u_tagtype u)) tg" "\<forall>g b. body = Some (g, b) \<longrightarrow> has_gty P g b"
          by (auto simp: has_named_simps)
        have "term_typ P L (u_tagtype u)" using small zs tag_scalar_ok [OF tok] by simp
        from in_union_settles [OF wf tok _ this short ub(2,3) buf] arms
        show ?thesis using ub(1) Ident s Sym_union by (auto simp: in_sym_def list_all_iff)
      qed
    qed
  qed
qed

theorem in_typ_terminating: "wf_pkg P \<Longrightarrow> scalar_ok P t \<Longrightarrow> term_typ P L t"
proof (induction L arbitrary: t rule: less_induct)
  case (less L)
  note short = less.IH [OF _ less.prems(1)]
  show ?case using less.prems(2)
  proof (induction "size (zero P (go_typ P t))" arbitrary: t rule: less_induct)
    case (less t)
    note wf = \<open>wf_pkg P\<close>
    have ok: "gty_ok P (go_typ_n P (p_nest P) t)"
      using go_typ_ok [OF wf] less.prems by (simp add: scalar_ok_def go_typ_def)
    show ?case
    proof (rule term_step [OF wf short _ less.prems ok])
      show "go_typ_n P (p_nest P) t = go_typ P t" by (simp add: go_typ_def)
    qed (use less.hyps in blast)+
  qed
qed

section \<open>Packages without recursion\<close>

text \<open>
  An executable check that \<open>n\<close> nested named types are enough for a type; then neither the
  decoder nor the encoder runs out of the bound, whatever the values.
\<close>

definition depth_decl :: "(tname \<Rightarrow> bool) \<Rightarrow> rpc_decl \<Rightarrow> bool" where
  "depth_decl rec d \<longleftrightarrow> d_typ d = Base String \<or> d_typ d = Base Byte \<or> rec (d_typ d)"

definition depth_sym :: "(tname \<Rightarrow> bool) \<Rightarrow> rpc_sym \<Rightarrow> bool" where
  "depth_sym rec sd =
     (case sd of
        Sym_typedef d \<Rightarrow> depth_decl rec d
      | Sym_enum tags \<Rightarrow> True
      | Sym_struct ds \<Rightarrow> list_all (depth_decl rec) ds
      | Sym_union u \<Rightarrow> rec (u_tagtype u) \<and>
          list_all (\<lambda>f. isVoid f \<or> depth_decl rec (uf_decl f)) (u_fields u))"

fun depth_typ :: "pkg \<Rightarrow> nat \<Rightarrow> tname \<Rightarrow> bool" where
  "depth_typ P 0 t = False"
| "depth_typ P (Suc n) (Base b) = True"
| "depth_typ P (Suc n) (Ident s) =
     (case sym_of P s of None \<Rightarrow> True | Some sd \<Rightarrow> depth_sym (depth_typ P n) sd)"

definition flat_dec :: "decoder \<Rightarrow> bool" where
  "flat_dec f \<longleftrightarrow> (\<forall>old buf. f old buf \<noteq> Inl StackOverflow)"

definition flat_enc :: "encoder \<Rightarrow> bool" where
  "flat_enc f \<longleftrightarrow> (\<forall>v. f v \<noteq> Inl StackOverflow)"

lemma flat_prims:
  "flat_dec in_bool" "flat_dec in_num32" "flat_dec in_num64" "flat_dec in_void"
  "flat_dec (in_string bound)" "flat_dec (in_vecopaque bound)" "flat_dec in_arropaque"
  unfolding flat_dec_def
  subgoal by (intro allI, rename_tac old buf, case_tac old) (auto simp: bindE_eq_Inl)
  subgoal by (intro allI, rename_tac old buf, case_tac old) (auto simp: bindE_eq_Inl)
  subgoal by (intro allI, rename_tac old buf, case_tac old) (auto simp: bindE_eq_Inl)
  subgoal by (intro allI, rename_tac old buf, case_tac old) auto
  subgoal by (intro allI, rename_tac old buf, case_tac old) (auto simp: bindE_eq_Inl)
  subgoal by (intro allI, rename_tac old buf, case_tac old) (auto simp: bindE_eq_Inl)
  subgoal by (intro allI, rename_tac old buf, case_tac old) (auto simp: bindE_eq_Inl)
  done

lemma flat_in_elems: "flat_dec f \<Longrightarrow> in_elems f olds buf \<noteq> Inl StackOverflow"
  by (induction olds arbitrary: buf) (auto simp: flat_dec_def bindE_eq_Inl)

lemma flat_vec_loop: "flat_dec f \<Longrightarrow> vec_loop bound z f k i lb buf \<noteq> Inl StackOverflow"
proof (induction k arbitrary: i lb buf)
  case (Suc k)
  then show ?case by (auto simp: flat_dec_def bindE_eq_Inl split: prod.splits)
qed simp

lemma flat_in_decl:
  assumes "depth_decl (\<lambda>t. flat_dec (D t)) d"
  shows "flat_dec (in_decl P D d)"
proof (cases "d_typ d = Base String \<or> d_typ d = Base Byte")
  case True
  then show ?thesis by (auto simp: in_decl_def flat_prims)
next
  case False
  then have f: "flat_dec (D (d_typ d))" using assms by (simp add: depth_decl_def)
  have "flat_dec (in_ptr z (D (d_typ d)))" for z
    unfolding flat_dec_def
  proof (intro allI)
    show "in_ptr z (D (d_typ d)) old buf \<noteq> Inl StackOverflow" for old buf
      using f by (cases old) (auto simp: flat_dec_def bindE_eq_Inl split: option.splits)
  qed
  moreover have "flat_dec (in_array (D (d_typ d)))"
    unfolding flat_dec_def
  proof (intro allI)
    show "in_array (D (d_typ d)) old buf \<noteq> Inl StackOverflow" for old buf
      using flat_in_elems [OF f] by (cases old) (auto simp: bindE_eq_Inl)
  qed
  moreover have "flat_dec (in_vec b z (D (d_typ d)))" for b z
    unfolding flat_dec_def
  proof (intro allI)
    show "in_vec b z (D (d_typ d)) old buf \<noteq> Inl StackOverflow" for old buf
      using flat_vec_loop [OF f] by (cases old) (auto simp: bindE_eq_Inl XdrMarshalN_in_def)
  qed
  ultimately show ?thesis using False f by (auto simp: in_decl_def split: qual_t.splits)
qed

lemma flat_in_fields: "\<forall>f \<in> set fs. flat_dec f \<Longrightarrow> in_fields fs olds buf \<noteq> Inl StackOverflow"
proof (induction fs arbitrary: olds buf)
  case Nil
  then show ?case by (cases olds) auto
next
  case (Cons f fs)
  then show ?case by (cases olds) (auto simp: flat_dec_def bindE_eq_Inl)
qed

lemma flat_in_sym:
  assumes "depth_sym (\<lambda>t. flat_dec (D t)) sd"
  shows "flat_dec (in_sym P D sd)"
proof (cases sd)
  case (Sym_struct ds)
  with assms have "\<forall>f \<in> set (map (in_decl P D) ds). flat_dec f"
    by (auto simp: depth_sym_def list_all_iff intro: flat_in_decl)
  then have "in_struct (map (in_decl P D) ds) old buf \<noteq> Inl StackOverflow" for old buf
    using flat_in_fields by (cases old) (auto simp: bindE_eq_Inl)
  with Sym_struct show ?thesis by (simp add: in_sym_def flat_dec_def)
next
  case (Sym_union u)
  with assms have tag: "flat_dec (D (u_tagtype u))"
    and arms: "\<And>w f. select_arm u w = Some f \<Longrightarrow> \<not> isVoid f \<Longrightarrow> flat_dec (in_decl P D (uf_decl f))"
    by (auto simp: depth_sym_def list_all_iff dest!: select_arm_in intro: flat_in_decl)
  have "in_union P D u old buf \<noteq> Inl StackOverflow" for old buf
  proof (cases old)
    case (VUnion tag body)
    with tag arms show ?thesis
      by (fastforce simp: flat_dec_def bindE_eq_Inl arm_access_selected split: option.splits if_splits)
  qed auto
  with Sym_union show ?thesis by (simp add: in_sym_def flat_dec_def)
qed (use assms in \<open>auto simp: depth_sym_def in_sym_def flat_in_decl flat_prims\<close>)

lemma depth_decl_mono: "(\<And>t. p t \<Longrightarrow> q t) \<Longrightarrow> depth_decl p d \<Longrightarrow> depth_decl q d"
  by (auto simp: depth_decl_def)

lemma depth_sym_mono: "(\<And>t. p t \<Longrightarrow> q t) \<Longrightarrow> depth_sym p sd \<Longrightarrow> depth_sym q sd"
  by (auto simp: depth_sym_def list_all_iff split: rpc_sym.splits intro: depth_decl_mono)

lemma depth_typ_flat: "depth_typ P n t \<Longrightarrow> flat_dec (in_typ P n t)"
proof (induction n arbitrary: t)
  case (Suc n)
  show ?case
  proof (cases t)
    case (Base b)
    then show ?thesis by (auto simp: in_base_def flat_prims flat_dec_def [of "\<lambda>_ _. Inl Stuck"] split: base.splits)
  next
    case (Ident s)
    with Suc show ?thesis
      by (auto split: option.splits intro!: flat_in_sym depth_sym_mono [OF Suc.IH]
          simp: flat_dec_def [of "\<lambda>_ _. Inl Stuck"])
  qed
qed simp

end
