(* ===== verification/XdrPanics.thy ===== *)
theory XdrPanics imports XdrDepth begin

text \<open>
  Which panics unmarshaling can raise. xdrReadInto calls err.Error() with a nil err when a
  read is short but not empty, and XdrIn panics with the reader's own error on a short
  opaque[n]; neither is an XdrError, so neither is caught by safeMarshal. This theory shows
  when they cannot happen: an input whose length is a multiple of four, read into a type
  without 64-bit numbers and without opaque[n] for positive n.
\<close>

section \<open>The panics that cross safeMarshal\<close>

definition calm :: "go_panic \<Rightarrow> bool" where
  "calm p \<longleftrightarrow> p \<noteq> NilErrorDeref \<and> (\<forall>e. p \<noteq> RawError e) \<and> (\<forall>s. p \<noteq> AppPanic s)"

lemma calm_simps [simp]:
  "calm (XdrError e)" "calm StackOverflow" "calm Stuck" "\<not> calm NilErrorDeref" "\<not> calm (RawError x)"
  "\<not> calm (AppPanic s)"
  by (simp_all add: calm_def)

definition aligned :: "bytes \<Rightarrow> bool" where
  "aligned buf \<longleftrightarrow> length buf mod 4 = 0"

definition calm_dec :: "(val \<Rightarrow> bool) \<Rightarrow> decoder \<Rightarrow> bool" where
  "calm_dec T D \<longleftrightarrow> (\<forall>old buf p. T old \<longrightarrow> aligned buf \<longrightarrow> D old buf = Inl p \<longrightarrow> calm p)"

lemma calm_decD: "calm_dec T D \<Longrightarrow> T old \<Longrightarrow> aligned buf \<Longrightarrow> D old buf = Inl p \<Longrightarrow> calm p"
  unfolding calm_dec_def by blast

lemma xdrGet32_calm: "aligned buf \<Longrightarrow> xdrGet32 buf = Inl p \<Longrightarrow> calm p"
proof -
  assume a: "aligned buf" and p: "xdrGet32 buf = Inl p"
  show "calm p"
  proof (cases "length buf < 4")
    case True
    with a have "buf = []" by (simp add: aligned_def)
    with p show ?thesis by (auto simp: xdrGet32_def xdrReadInto_def buf_Read_def)
  next
    case False
    then have "xdrReadInto buf 4 = Inr (take 4 buf, drop 4 buf)"
      by (subst xdrReadInto_Inr) simp
    with p show ?thesis by (simp add: xdrGet32_def)
  qed
qed

lemma xdrGet32_aligned: "aligned buf \<Longrightarrow> xdrGet32 buf = Inr (w, r) \<Longrightarrow> aligned r"
  by (auto simp: w32.get_split xdrPut32_def aligned_def)

text \<open>After n bytes of an aligned input, the padding of n bytes is there.\<close>

lemma pad_present:
  assumes "(k + m) mod 4 = (0 :: nat)"
  shows "pad_len k \<le> m"
proof (rule ccontr)
  assume "\<not> pad_len k \<le> m"
  then have m0: "m < (4 - k mod 4) mod 4" by (simp add: pad_len_def)
  have "(4 - k mod 4) mod 4 \<le> 4 - k mod 4" by (rule mod_less_eq_dividend)
  with m0 have m: "m < 4 - k mod 4" "k mod 4 \<noteq> 0" by (auto intro: ccontr)
  have "(k mod 4 + m) mod 4 = 0" using assms by (simp add: mod_add_left_eq)
  moreover have "k mod 4 + m < 4" using m(1) by simp
  ultimately show False using m(2) by simp
qed

lemma xdrReadPad_calm:
  assumes "(unat n + length buf) mod 4 = 0" and "xdrReadPad buf n = Inl p"
  shows "calm p"
proof (cases "n AND 3 = 0")
  case True
  with assms(2) show ?thesis by (simp add: xdrReadPad_def)
next
  case False
  have "pad_len (unat n) \<le> length buf" by (rule pad_present [OF assms(1)])
  then have "xdrReadInto buf (pad_len (unat n)) =
      Inr (take (pad_len (unat n)) buf, drop (pad_len (unat n)) buf)"
    by (subst xdrReadInto_Inr) simp
  with assms(2) False show ?thesis by (auto simp: xdrReadPad_def pad_sub split: if_splits)
qed

lemma xdrReadN_calm: "xdrReadN buf n = Inl p \<Longrightarrow> calm p"
  by (auto simp: xdrReadN_def split: if_splits sum.splits prod.splits)

lemma in_varbytes_calm:
  assumes "aligned buf" and "in_varbytes bound buf = Inl p"
  shows "calm p"
proof -
  have "calm p" if g: "xdrGet32 buf = Inr (n, r1)" "xdrReadN r1 n = Inr (d, r2)"
      "xdrReadPad r2 n = Inl p" for n r1 d r2
  proof (rule xdrReadPad_calm [OF _ g(3)])
    show "(unat n + length r2) mod 4 = 0"
      using xdrGet32_aligned [OF assms(1) g(1)] g(2) by (auto simp: xdrReadN_Inr aligned_def)
  qed
  with assms show ?thesis
    by (auto simp: in_varbytes_def bindE_eq_Inl SetByteSlice_def split: if_splits
        dest: xdrGet32_calm xdrReadN_calm)
qed

lemma in_fixbytes_0: "in_fixbytes 0 buf = Inr ([], buf)"
  by (simp add: in_fixbytes_Inr xdrPutBytes_def xdrZerofill_def)

section \<open>Compound types\<close>

context coder begin

lemma dec_aligned:
  assumes "ty old" "aligned buf" "dec old buf = Inr (v, r)"
  shows "ty v" and "aligned r"
proof -
  from dec_soundE [OF assms(1,3)] obtain a where a: "buf = rfc a @ r" "ty v" by blast
  then have "(length (rfc a) mod 4 + length r mod 4) mod 4 = 0"
    using assms(2) by (simp add: mod_add_eq aligned_def)
  with rfc_aligned [of a] a show "ty v" "aligned r" by (auto simp: aligned_def)
qed

lemma calm_ptr:
  assumes "ty z" "calm_dec ty dec"
  shows "calm_dec (ptr_ty ty) (in_ptr z dec)"
  unfolding calm_dec_def
proof (intro allI impI)
  fix old buf p assume t: "ptr_ty ty old" and al: "aligned buf" and d: "in_ptr z dec old buf = Inl p"
  from t obtain q where q: "old = VPtr q" "\<forall>x. q = Some x \<longrightarrow> ty x"
    by (cases "(ty, old)" rule: ptr_ty.cases) auto
  show "calm p"
    using d al q assms
    by (auto simp: bindE_eq_Inl ptrflag_SetU32_def split: if_splits option.splits
        dest: xdrGet32_calm xdrGet32_aligned calm_decD)
qed

lemma calm_elems:
  assumes "calm_dec ty dec"
  shows "\<forall>x \<in> set olds. ty x \<Longrightarrow> aligned buf \<Longrightarrow> in_elems dec olds buf = Inl p \<Longrightarrow> calm p"
proof (induction olds arbitrary: buf)
  case (Cons x olds)
  from Cons.prems(3) consider "dec x buf = Inl p"
    | v r where "dec x buf = Inr (v, r)" "in_elems dec olds r = Inl p"
    by (auto simp: bindE_eq_Inl)
  then show ?case
  proof cases
    case 1
    then show ?thesis using calm_decD [OF assms _ Cons.prems(2) 1] Cons.prems(1) by simp
  next
    case 2
    then show ?thesis using Cons.IH [OF _ _ 2(2)] Cons.prems dec_aligned(2) [OF _ _ 2(1)] by simp
  qed
qed simp

lemma calm_array: "calm_dec ty dec \<Longrightarrow> calm_dec (arr_ty k ty) (in_array dec)"
  unfolding calm_dec_def [of "arr_ty k ty"]
proof (intro allI impI)
  fix old buf p assume c: "calm_dec ty dec" and t: "arr_ty k ty old" and al: "aligned buf"
    and d: "in_array dec old buf = Inl p"
  with calm_elems [OF c] show "calm p" by (cases old) (auto simp: bindE_eq_Inl)
qed

lemma calm_vec_loop:
  assumes "ty z" "calm_dec ty dec"
  shows "i \<le> l \<Longrightarrow> l \<le> length b \<Longrightarrow> \<forall>x \<in> set b. ty x \<Longrightarrow> i + k \<le> unat bound \<Longrightarrow> aligned buf \<Longrightarrow>
    vec_loop bound z dec k i (l, b) buf = Inl p \<Longrightarrow> calm p"
proof (induction k arbitrary: i l b buf)
  case (Suc k)
  obtain l1 b1 where s: "(if l \<le> i then SetVecLen bound z (of_nat (i + 1)) (l, b)
      else Inr (l, b)) = Inr (l1, b1)" "l1 = max l (i + 1)" "l1 \<le> length b1" "\<forall>x \<in> set b1. ty x"
    by (rule vec_step [of i l b ty z bound]) (use Suc.prems assms in auto)
  have t: "ty (b1 ! i)" using s by simp
  from Suc.prems(6) s(1) consider "dec (b1 ! i) buf = Inl p"
    | v r where "dec (b1 ! i) buf = Inr (v, r)" "vec_loop bound z dec k (i + 1) (l1, b1[i := v]) r = Inl p"
    by (auto simp: bindE_eq_Inl)
  then show ?case
  proof cases
    case 1
    then show ?thesis using calm_decD [OF assms(2) t Suc.prems(5)] by blast
  next
    case 2
    note da = dec_aligned [OF t Suc.prems(5) 2(1)]
    show ?thesis
    proof (rule Suc.IH [OF _ _ _ _ da(2) 2(2)])
      show "\<forall>x \<in> set (b1[i := v]). ty x"
        using s(4) da(1) by (auto dest: set_update_subset_insert [THEN subsetD])
    qed (use s Suc.prems in auto)
  qed
qed simp

lemma calm_vec:
  assumes "ty z" "calm_dec ty dec"
  shows "calm_dec (slice_ty ty) (in_vec bound z dec)"
  unfolding calm_dec_def
proof (intro allI impI)
  fix old buf p assume t: "slice_ty ty old" and al: "aligned buf" and d: "in_vec bound z dec old buf = Inl p"
  from t obtain l b where s: "old = VSlice l b" "l \<le> length b" "\<forall>x \<in> set b. ty x" by (cases old) auto
  have "calm p" if "XdrMarshalN_in bound z dec n (l, b) r = Inl p" "aligned r" for n r
  proof (cases "n \<le> bound")
    case True
    with that(1) have "vec_loop bound z dec (unat n) 0 (l, b) r = Inl p"
      by (auto simp: XdrMarshalN_in_def bindE_eq_Inl XdrCheckLen_def split: if_splits)
    with calm_vec_loop [OF assms _ s(2,3), of 0 "unat n" bound r p] True that(2) show ?thesis
      by (auto simp: word_le_nat_alt)
  next
    case False
    then have "XdrCheckLen bound n = Inl (XdrError (VecOverBound n bound))"
      by (simp add: XdrCheckLen_def not_le)
    with that(1) show ?thesis by (auto simp: XdrMarshalN_in_def)
  qed
  with d s al show "calm p"
    by (auto simp: bindE_eq_Inl size_SetU32_def split: if_splits
        dest: xdrGet32_calm xdrGet32_aligned)
qed

end

section \<open>Plain packages\<close>

definition plain_tname :: "tname \<Rightarrow> bool" where
  "plain_tname t \<longleftrightarrow> t \<noteq> Base Int64 \<and> t \<noteq> Base Uint64 \<and> t \<noteq> Base Float64"

definition plain_decl :: "rpc_decl \<Rightarrow> bool" where
  "plain_decl d \<longleftrightarrow>
     (if d_typ d = Base Byte then d_qual d = VEC \<or> d_bound d = 0 else plain_tname (d_typ d))"

definition plain_sym :: "rpc_sym \<Rightarrow> bool" where
  "plain_sym sd =
     (case sd of
        Sym_typedef d \<Rightarrow> plain_decl d
      | Sym_enum tags \<Rightarrow> True
      | Sym_struct ds \<Rightarrow> list_all plain_decl ds
      | Sym_union u \<Rightarrow> plain_tname (u_tagtype u) \<and>
          list_all (\<lambda>f. isVoid f \<or> plain_decl (uf_decl f)) (u_fields u))"

definition plain_pkg :: "pkg \<Rightarrow> bool" where
  "plain_pkg P = list_all (\<lambda>(s, sd). plain_sym sd) (p_defs P)"

lemma plain_pkg_sym: "plain_pkg P \<Longrightarrow> sym_of P s = Some sd \<Longrightarrow> plain_sym sd"
  by (auto simp: plain_pkg_def sym_of_def list_all_iff dest!: map_of_SomeD)

lemma calm_decl:
  assumes wf: "wf_pkg P" and ok: "decl_ok P d" and pl: "plain_decl d"
    and rec: "\<And>t. scalar_ok P t \<Longrightarrow> coder_of P E D A C t"
    and cm: "\<And>t. scalar_ok P t \<Longrightarrow> plain_tname t \<Longrightarrow> calm_dec (has_gty P (go_typ P t)) (D t)"
  shows "calm_dec (has_gty P (go_decl P d)) (in_decl P D d)"
proof (cases "d_typ d = Base String \<or> d_typ d = Base Byte")
  case True
  show ?thesis
    unfolding calm_dec_def
  proof (intro allI impI)
    fix old buf p
    assume t: "has_gty P (go_decl P d) old" and al: "aligned buf" and e: "in_decl P D d old buf = Inl p"
    from True show "calm p"
    proof
      assume "d_typ d = Base String"
      with t e show ?thesis
        using in_varbytes_calm [OF al]
        by (auto simp: in_decl_def go_decl_def decltype_def bindE_eq_Inl)
    next
      assume b: "d_typ d = Base Byte"
      show ?thesis
      proof (cases "d_qual d = VEC")
        case True
        with b t e show ?thesis
          using in_varbytes_calm [OF al]
          by (auto simp: in_decl_def go_decl_def decltype_def bindE_eq_Inl)
      next
        case False
        with b pl have "d_bound d = 0" by (simp add: plain_decl_def)
        with False b t e show ?thesis
          by (auto simp: in_decl_def go_decl_def decltype_def bindE_eq_Inl in_fixbytes_0)
      qed
    qed
  qed
next
  case False
  then have t: "typ_ok P (d_typ d)" using decl_typ_ok [OF ok] by simp
  with False have sc: "scalar_ok P (d_typ d)" by (simp add: scalar_ok_def)
  from rec [OF sc] have c: "coder (has_gty P (go_typ P (d_typ d))) (E (d_typ d)) (D (d_typ d))
      (A (d_typ d)) (C (d_typ d))"
    by (simp add: coder_of_def)
  have z: "has_gty P (go_typ P (d_typ d)) (zero P (go_typ P (d_typ d)))"
    using wf go_typ_ok [OF wf t] by (rule zero_typed)
  have f: "calm_dec (has_gty P (go_typ P (d_typ d))) (D (d_typ d))"
    using cm [OF sc] pl False by (simp add: plain_decl_def)
  show ?thesis
    using False f coder.calm_ptr [OF c z f] coder.calm_array [OF c f] coder.calm_vec [OF c z f]
    by (cases "d_qual d")
      (simp_all add: go_decl_def decltype_def in_decl_def has_gty_ptr has_gty_arr has_gty_slice)
qed

lemma calm_fields:
  assumes "\<forall>d \<in> set ds. coder (T d) (E d) (D d) (A d) (C d) \<and> calm_dec (T d) (D d)"
  shows "list_all2 T ds olds \<Longrightarrow> aligned buf \<Longrightarrow> in_fields (map D ds) olds buf = Inl p \<Longrightarrow> calm p"
  using assms
proof (induction ds arbitrary: olds buf)
  case (Cons d ds)
  from Cons.prems(1) obtain x xs where o: "olds = x # xs" "T d x" "list_all2 T ds xs"
    by (auto simp: list_all2_Cons1)
  with Cons.prems(3) consider "D d x buf = Inl p"
    | v r where "D d x buf = Inr (v, r)" "in_fields (map D ds) xs r = Inl p"
    by (auto simp: bindE_eq_Inl)
  moreover have c: "coder (T d) (E d) (D d) (A d) (C d)" "calm_dec (T d) (D d)"
    using Cons.prems(4) by auto
  ultimately show ?case
  proof cases
    case 1
    then show ?thesis using calm_decD [OF c(2) o(2) Cons.prems(2)] by blast
  next
    case 2
    show ?thesis
      using Cons.IH [OF o(3) coder.dec_aligned(2) [OF c(1) o(2) Cons.prems(2) 2(1)] 2(2)] Cons.prems(4)
      by simp
  qed
qed simp

lemma calm_union:
  assumes tag: "coder (has_gty P (go_typ P (u_tagtype u))) (E (u_tagtype u)) (D (u_tagtype u))
      (A (u_tagtype u)) (C (u_tagtype u))"
    and ctag: "calm_dec (has_gty P (go_typ P (u_tagtype u))) (D (u_tagtype u))"
    and arm: "\<And>f. f \<in> set (u_fields u) \<Longrightarrow> \<not> isVoid f \<Longrightarrow>
      calm_dec (has_gty P (go_decl P (uf_decl f))) (in_decl P D (uf_decl f)) \<and>
      gty_ok P (go_decl P (uf_decl f))"
    and wf: "wf_pkg P"
    and old: "has_gty P (go_typ P (u_tagtype u)) tg" "\<forall>g b. body = Some (g, b) \<longrightarrow> has_gty P g b"
    and al: "aligned buf" and e: "in_union P D u (VUnion tg body) buf = Inl p"
  shows "calm p"
proof (cases "D (u_tagtype u) tg buf")
  case (Inl q)
  with e calm_decD [OF ctag old(1) al Inl] show ?thesis by simp
next
  case (Inr a)
  obtain tg' r where tr: "D (u_tagtype u) tg buf = Inr (tg', r)" using Inr by (cases a) auto
  from coder.dec_aligned(2) [OF tag old(1) al tr] have ar: "aligned r" .
  show ?thesis
  proof (cases "\<exists>w f. GetU32 tg' = Some w \<and> select_arm u w = Some f \<and> \<not> isVoid f")
    case True
    then obtain w f where w: "GetU32 tg' = Some w" "select_arm u w = Some f" "\<not> isVoid f" by blast
    note a = arm [OF select_arm_in [OF w(2)] w(3)]
    from e tr w have "in_decl P D (uf_decl f) (arm_body P (go_decl P (uf_decl f)) body) r = Inl p"
      by (auto simp: arm_access_selected bindE_eq_Inl)
    with calm_decD [OF _ _ ar] a arm_body_typed [OF wf _ old(2)] show ?thesis by blast
  next
    case False
    with e tr show ?thesis by (auto split: option.splits if_splits)
  qed
qed

lemma tag_plain_or_named: "tag_ok P t \<Longrightarrow> plain_tname t"
  by (auto simp: tag_ok_def plain_tname_def)

theorem calm_typ:
  "wf_pkg P \<Longrightarrow> plain_pkg P \<Longrightarrow> scalar_ok P t \<Longrightarrow> plain_tname t \<Longrightarrow>
   calm_dec (has_gty P (go_typ P t)) (in_typ P n t)"
proof (induction n arbitrary: t)
  case 0
  then show ?case by (simp add: calm_dec_def)
next
  case (Suc n)
  note wf = Suc.prems(1)
  note rec = coder_typ [OF wf, of _ n]
  note IH = Suc.IH [OF wf Suc.prems(2)]
  note decl = calm_decl [OF wf _ _ rec IH]
  show ?case
  proof (cases t)
    case (Base b)
    have "calm p" if "has_gty P (GBase b) old" "aligned buf" "in_base b old buf = Inl p" for old buf p
      using that Suc.prems(3,4) Base
      by (cases b) (auto simp: in_base_def bindE_eq_Inl bool_SetU32_def plain_tname_def
          scalar_ok_def typ_ok_def split: if_splits dest: xdrGet32_calm)
    then show ?thesis using Base by (auto simp: calm_dec_def)
  next
    case (Ident s)
    with Suc.prems obtain sd where s: "sym_of P s = Some sd" by (auto simp: scalar_ok_def typ_ok_def)
    note wfs = wf_pkg_sym [OF wf s, unfolded wf_sym_def]
    note pls = plain_pkg_sym [OF Suc.prems(2) s, unfolded plain_sym_def]
    note named = go_typ_named [OF s]
    show ?thesis
    proof (cases sd)
      case (Sym_typedef d)
      with wfs pls decl Ident s show ?thesis by (auto simp: in_sym_def)
    next
      case (Sym_enum tags)
      with Ident s named show ?thesis
        by (auto simp: calm_dec_def in_sym_def has_named_simps bindE_eq_Inl dest: xdrGet32_calm)
    next
      case (Sym_struct ds)
      then have c: "\<forall>d \<in> set ds. coder (has_gty P (go_decl P d)) (out_decl P (out_typ P n) d)
          (in_decl P (in_typ P n) d) (abs_decl (abs_typ P n) d) (conf_decl (conf_typ P n) d) \<and>
          calm_dec (has_gty P (go_decl P d)) (in_decl P (in_typ P n) d)"
        using wfs pls by (auto simp: list_all_iff intro: coder_decl [OF wf _ rec] decl)
      show ?thesis
        unfolding calm_dec_def
      proof (intro allI impI)
        fix old buf p assume "has_gty P (go_typ P t) old" "aligned buf" "in_typ P (Suc n) t old buf = Inl p"
        with calm_fields [OF c] Ident s Sym_struct named show "calm p"
          by (auto simp: in_sym_def has_named_simps bindE_eq_Inl)
      qed
    next
      case (Sym_union u)
      then have tok: "tag_ok P (u_tagtype u)" using wfs by simp
      have arms: "calm_dec (has_gty P (go_decl P (uf_decl f))) (in_decl P (in_typ P n) (uf_decl f)) \<and>
          gty_ok P (go_decl P (uf_decl f))" if "f \<in> set (u_fields u)" "\<not> isVoid f" for f
        using wfs pls Sym_union that by (auto simp: list_all_iff intro: decl go_decl_ok [OF wf])
      note tag = rec [OF tag_scalar_ok [OF tok], unfolded coder_of_def]
      note ctag = IH [OF tag_scalar_ok [OF tok] tag_plain_or_named [OF tok]]
      show ?thesis
        unfolding calm_dec_def
      proof (intro allI impI)
        fix old buf p
        assume o: "has_gty P (go_typ P t) old" "aligned buf" "in_typ P (Suc n) t old buf = Inl p"
        then obtain tg body where u: "old = VUnion tg body" "has_gty P (go_typ P (u_tagtype u)) tg"
            "\<forall>g b. body = Some (g, b) \<longrightarrow> has_gty P g b"
          using Ident s Sym_union named by (auto simp: has_named_simps)
        show "calm p"
          by (rule calm_union [where P = P and u = u and E = "out_typ P n" and D = "in_typ P n"
                and A = "abs_typ P n" and C = "conf_typ P n", OF tag ctag arms wf u(2,3) o(2)])
            (use o(3) u(1) Ident s Sym_union in \<open>auto simp: in_sym_def\<close>)
      qed
    qed
  qed
qed

end
