(* ===== verification/XdrUnion.thy ===== *)
theory XdrUnion imports XdrPanics begin

text \<open>
  The methods goxdr emits for a union beside XdrRecurse (rpc_union.emit in goxdr.go):
  XdrValid, XdrValidTags, XdrUnionBody and XdrUnionBodyName. All of them are switches on
  the discriminant generated from the same field list; the lemmas show that they agree.
\<close>

section \<open>The emitted switches\<close>

definition XdrValid :: "rpc_union \<Rightarrow> u32 \<Rightarrow> bool" where
  "XdrValid u disc \<longleftrightarrow>
     (if u_hasdefault u then True else list_ex (\<lambda>f. disc \<in> set (uf_cases f)) (u_fields u))"

definition XdrValidTags :: "rpc_union \<Rightarrow> u32 list option" where
  "XdrValidTags u =
     (if u_hasdefault u then None else Some (concat (map uf_cases (u_fields u))))"

definition XdrUnionBodyName :: "rpc_union \<Rightarrow> u32 \<Rightarrow> string" where
  "XdrUnionBodyName u disc =
     (case select_arm u disc of
        None \<Rightarrow> []
      | Some f \<Rightarrow> if isVoid f then [] else d_id (uf_decl f))"

text \<open>XdrUnionBody: nil, or the body of the selected arm, reached through its accessor.\<close>

definition XdrUnionBody ::
  "pkg \<Rightarrow> rpc_union \<Rightarrow> u32 \<Rightarrow> (gty \<times> val) option \<Rightarrow> go_panic + (rpc_decl \<times> val) option" where
  "XdrUnionBody P u disc body =
     (case select_arm u disc of
        None \<Rightarrow> Inr None
      | Some f \<Rightarrow>
          if isVoid f then Inr None
          else bindE (arm_access P u f disc body) (\<lambda>v. Inr (Some (uf_decl f, v))))"

text \<open>
  What the Go compiler checks of the emitted switches: no duplicate case, at most one
  default; and the emitter's flag says whether there is one.
\<close>

definition union_ok :: "rpc_union \<Rightarrow> bool" where
  "union_ok u \<longleftrightarrow>
     distinct (concat (map uf_cases (filter (\<lambda>f. \<not> uf_hasdefault f) (u_fields u)))) \<and>
     length (filter uf_hasdefault (u_fields u)) \<le> 1 \<and>
     u_hasdefault u = list_ex uf_hasdefault (u_fields u)"

section \<open>Agreement\<close>

lemma distinct_concat_unique:
  assumes "distinct (concat (map h xs))" "x \<in> set xs" "y \<in> set xs" "d \<in> set (h x)" "d \<in> set (h y)"
  shows "x = y"
  using assms by (induction xs) auto

lemma filter_le1: "length (filter p xs) \<le> 1 \<Longrightarrow> x \<in> set xs \<Longrightarrow> y \<in> set xs \<Longrightarrow> p x \<Longrightarrow> p y \<Longrightarrow> x = y"
  by (induction xs) (auto simp: filter_empty_conv split: if_splits)

lemma select_arm_iff:
  assumes ok: "union_ok u" and f: "f \<in> set (u_fields u)"
  shows "select_arm u disc = Some f \<longleftrightarrow> arm_selected u f disc"
proof
  assume s: "arm_selected u f disc"
  let ?p = "\<lambda>f. \<not> uf_hasdefault f \<and> disc \<in> set (uf_cases f)"
  show "select_arm u disc = Some f"
  proof (cases "uf_hasdefault f")
    case True
    with s have n: "find ?p (u_fields u) = None"
      by (auto simp: arm_selected_def list_all_iff find_None_iff)
    have "\<exists>g. find uf_hasdefault (u_fields u) = Some g"
      using f True by (cases "find uf_hasdefault (u_fields u)") (auto simp: find_None_iff)
    then obtain g where g: "find uf_hasdefault (u_fields u) = Some g" ..
    from find_in_set [OF g] filter_le1 [OF _ f, of uf_hasdefault g] ok True have "g = f"
      by (auto simp: union_ok_def)
    with n g show ?thesis by (simp add: select_arm_def)
  next
    case False
    with s have d: "disc \<in> set (uf_cases f)" by (simp add: arm_selected_def)
    have "\<exists>g. find ?p (u_fields u) = Some g"
      using f False d by (cases "find ?p (u_fields u)") (auto simp: find_None_iff)
    then obtain g where g: "find ?p (u_fields u) = Some g" ..
    from find_in_set [OF g] have "g = f"
      using ok f False d
        distinct_concat_unique [of uf_cases "filter (\<lambda>f. \<not> uf_hasdefault f) (u_fields u)" g f disc]
      by (auto simp: union_ok_def)
    with g show ?thesis by (simp add: select_arm_def)
  qed
qed (rule select_arm_selected)

lemma select_arm_None:
  "select_arm u disc = None \<longleftrightarrow>
   \<not> list_ex (\<lambda>f. uf_hasdefault f \<or> disc \<in> set (uf_cases f)) (u_fields u)"
  by (auto simp: select_arm_def find_None_iff list_ex_iff dest!: find_in_set split: option.splits)

lemma XdrValid_select:
  assumes "union_ok u"
  shows "XdrValid u disc \<longleftrightarrow> select_arm u disc \<noteq> None"
proof (cases "u_hasdefault u")
  case True
  with assms show ?thesis by (auto simp: XdrValid_def select_arm_None union_ok_def list_ex_iff)
next
  case False
  with assms show ?thesis by (auto simp: XdrValid_def select_arm_None union_ok_def list_ex_iff)
qed

lemma XdrValidTags_valid:
  "XdrValidTags u = Some tags \<Longrightarrow> disc \<in> set tags \<longleftrightarrow> XdrValid u disc"
  by (auto simp: XdrValidTags_def XdrValid_def list_ex_iff split: if_splits)

lemma arm_access_iff:
  "(\<exists>v. arm_access P u f disc body = Inr v) \<longleftrightarrow> arm_selected u f disc"
  by (simp add: arm_access_def)

lemma XdrUnionBody_total: "\<exists>x. XdrUnionBody P u disc body = Inr x"
  by (auto simp: XdrUnionBody_def arm_access_selected split: option.splits)

end
