(* ===== verification/XdrCorrect.thy ===== *)
theory XdrCorrect imports XdrUnion begin

text \<open>
  The properties of marshaling, stated for every well-formed package and every type
  XDR_T exists for, with witnesses at a recursive example type (a linked list of nodes
  with a bounded vector and a bounded string).
\<close>

section \<open>A recursive example\<close>

definition ex_pkg :: pkg where
  "ex_pkg =
     \<lparr>p_defs =
        [(''Node'', Sym_struct
            [\<lparr>d_id = ''Vals'', d_qual = VEC, d_bound = 3, d_typ = Base Int32\<rparr>,
             \<lparr>d_id = ''Name'', d_qual = SCALAR, d_bound = 8, d_typ = Base String\<rparr>,
             \<lparr>d_id = ''Next'', d_qual = PTR, d_bound = 0, d_typ = Ident ''Node''\<rparr>])],
      p_nest = 2\<rparr>"

definition ex_zero :: val where
  "ex_zero = VStruct [VSlice 0 [], VString [], VPtr None]"

definition ex_val :: val where
  "ex_val = VStruct [VSlice 1 [VNum32 7], VString [65], VPtr (Some
     (VStruct [VSlice 0 [], VString [], VPtr None]))]"

definition ex_xval :: xval where
  "ex_xval = XStruct [XVec [X32 7], XVar [65], XOpt (Some
     (XStruct [XVec [], XVar [], XOpt None]))]"

lemma ex_wf: "wf_pkg ex_pkg"
  by code_simp

lemma ex_scalar: "scalar_ok ex_pkg (Ident ''Node'')"
  by code_simp

lemma ex_zero_typed: "has_gty ex_pkg (go_typ ex_pkg (Ident ''Node'')) ex_zero"
proof -
  have "zero ex_pkg (go_typ ex_pkg (Ident ''Node'')) = ex_zero" by code_simp
  with zero_typed [OF ex_wf, of "go_typ ex_pkg (Ident ''Node'')"] go_typ_ok [OF ex_wf] ex_scalar
  show ?thesis by (simp add: scalar_ok_def)
qed

section \<open>Round trip and canonicity\<close>

text \<open>
  C1. Unmarshaling what was marshaled, into any destination of the type, gives back a value
  that stands for the same XDR value and leaves the rest of the input unread.
\<close>

theorem marshal_round_trip:
  assumes "wf_pkg P" and "scalar_ok P t" and "has_gty P (go_typ P t) old"
    and "abs_typ P n t v = Some a" and "conf_typ P n t a"
  shows "\<exists>b v'. out_typ P n t v = Inr b \<and> in_typ P n t old (b @ r) = Inr (v', r) \<and>
    has_gty P (go_typ P t) v' \<and> abs_typ P n t v' = Some a"
proof -
  note c = coder_typ [OF assms(1,2), of n, unfolded coder_of_def]
  from coder.round_trip [OF c assms(3-5)] assms(4) show ?thesis by simp
qed

lemma ex_Node: "sym_of ex_pkg ''Node'' = Some (Sym_struct
    [\<lparr>d_id = ''Vals'', d_qual = VEC, d_bound = 3, d_typ = Base Int32\<rparr>,
     \<lparr>d_id = ''Name'', d_qual = SCALAR, d_bound = 8, d_typ = Base String\<rparr>,
     \<lparr>d_id = ''Next'', d_qual = PTR, d_bound = 0, d_typ = Ident ''Node''\<rparr>])"
  by (simp add: sym_of_def ex_pkg_def)

lemma three: "3 = Suc (Suc (Suc 0))"
  by simp

lemmas ex_eval = ex_Node abs_sym_def abs_decl_def abs_base_def conf_sym_def conf_decl_def
  in_sym_def in_decl_def in_base_def out_sym_def out_decl_def out_base_def

lemma ex_abs: "abs_typ ex_pkg 3 (Ident ''Node'') ex_val = Some ex_xval"
  unfolding three by (simp add: ex_eval ex_val_def ex_xval_def)

lemma ex_conf: "conf_typ ex_pkg 3 (Ident ''Node'') ex_xval"
  unfolding three by (simp add: ex_eval ex_xval_def)

theorem marshal_round_trip_witness:
  "\<exists>b v'. out_typ ex_pkg 3 (Ident ''Node'') ex_val = Inr b \<and>
    in_typ ex_pkg 3 (Ident ''Node'') ex_zero (b @ [1, 2]) = Inr (v', [1, 2]) \<and>
    has_gty ex_pkg (go_typ ex_pkg (Ident ''Node'')) v' \<and>
    abs_typ ex_pkg 3 (Ident ''Node'') v' = Some ex_xval"
  by (rule marshal_round_trip [OF ex_wf ex_scalar ex_zero_typed ex_abs ex_conf])

text \<open>
  C3. Only canonical encodings are accepted: whatever was unmarshaled marshals back to
  exactly the bytes consumed.
\<close>

theorem unmarshal_canonical:
  assumes "wf_pkg P" and "scalar_ok P t" and "has_gty P (go_typ P t) old"
    and "in_typ P n t old buf = Inr (v, r)"
  shows "\<exists>b. out_typ P n t v = Inr b \<and> buf = b @ r"
proof -
  note c = coder_typ [OF assms(1,2), of n, unfolded coder_of_def]
  from coder.canonical [OF c assms(3,4)] show ?thesis .
qed

lemma ex_decode:
  "in_typ ex_pkg 3 (Ident ''Node'') ex_zero
     [0,0,0,1, 0,0,0,7, 0,0,0,1, 65,0,0,0, 0,0,0,0, 9] =
   Inr (VStruct [VSlice 1 [VNum32 7], VString [65], VPtr None], [9])"
  by code_simp

theorem unmarshal_canonical_witness:
  "\<exists>b. out_typ ex_pkg 3 (Ident ''Node'') (VStruct [VSlice 1 [VNum32 7], VString [65], VPtr None]) = Inr b \<and>
    [0,0,0,1, 0,0,0,7, 0,0,0,1, 65,0,0,0, 0,0,0,0, 9] = b @ [9]"
  by (rule unmarshal_canonical [OF ex_wf ex_scalar ex_zero_typed ex_decode])



text \<open>
  C5. Marshaling is type safe: unmarshaling into a value of the type leaves a value of the
  type, and neither direction ever meets a value of the wrong shape.
\<close>

theorem marshal_type_safe:
  assumes "wf_pkg P" and "scalar_ok P t" and "has_gty P (go_typ P t) old"
  shows "in_typ P n t old buf \<noteq> Inl Stuck \<and> out_typ P n t old \<noteq> Inl Stuck \<and>
    (case in_typ P n t old buf of
       Inl _ \<Rightarrow> True
     | Inr (v, r) \<Rightarrow> has_gty P (go_typ P t) v)"
proof -
  note c = coder_typ [OF assms(1,2), of n, unfolded coder_of_def]
  show ?thesis
    using coder.dec_safe [OF c assms(3)] coder.enc_safe [OF c assms(3)] coder.dec_sound [OF c assms(3)]
    by (auto split: sum.splits prod.splits)
qed

theorem marshal_type_safe_witness:
  "in_typ ex_pkg 3 (Ident ''Node'') ex_zero [1] \<noteq> Inl Stuck \<and>
   out_typ ex_pkg 3 (Ident ''Node'') ex_zero \<noteq> Inl Stuck \<and>
    (case in_typ ex_pkg 3 (Ident ''Node'') ex_zero [1] of
       Inl _ \<Rightarrow> True
     | Inr (v, r) \<Rightarrow> has_gty ex_pkg (go_typ ex_pkg (Ident ''Node'')) v)"
  by (rule marshal_type_safe [OF ex_wf ex_scalar ex_zero_typed])

text \<open>
  C6. Unmarshaling terminates, for recursive types too: for every destination and input
  there is a recursion depth from which on the result is one and the same, and it is not
  the stack overflow.
\<close>

theorem unmarshal_terminates:
  assumes "wf_pkg P" and "scalar_ok P t" and "has_gty P (go_typ P t) old"
  shows "\<exists>res n. res \<noteq> Inl StackOverflow \<and> (\<forall>m \<ge> n. in_typ P m t old buf = res)"
  using terminatingD [OF in_typ_terminating [OF assms(1,2)] assms(3) order_refl, of buf]
  unfolding settles_def by blast

theorem unmarshal_terminates_witness:
  "\<exists>res n. res \<noteq> Inl StackOverflow \<and>
     (\<forall>m \<ge> n. in_typ ex_pkg m (Ident ''Node'') ex_zero [0, 0, 0, 0, 0, 0, 0, 0, 0, 0, 0, 1] = res)"
  by (rule unmarshal_terminates [OF ex_wf ex_scalar ex_zero_typed])

text \<open>
  C7. On an input whose length is a multiple of four, unmarshaling a type without 64-bit
  numbers and opaque[n] never panics with anything but an XdrError, so safeMarshal turns
  every failure into an error. (On other inputs it does not: see the RPC header.)
\<close>

theorem unmarshal_aligned_calm:
  assumes "wf_pkg P" and "plain_pkg P" and "scalar_ok P t" and "plain_tname t"
    and "has_gty P (go_typ P t) old" and "length buf mod 4 = 0"
  shows "in_typ P n t old buf \<noteq> Inl NilErrorDeref \<and> in_typ P n t old buf \<noteq> Inl (RawError e)"
proof -
  have "aligned buf" using assms(6) by (simp only: aligned_def)
  from calm_decD [OF calm_typ [OF assms(1-4)] assms(5) this, of n]
  have "\<And>p. in_typ P n t old buf = Inl p \<Longrightarrow> calm p" .
  then show ?thesis by (auto simp: calm_def)
qed

theorem unmarshal_aligned_calm_witness:
  "in_typ ex_pkg 3 (Ident ''Node'') ex_zero [0, 0, 0, 9] \<noteq> Inl NilErrorDeref \<and>
   in_typ ex_pkg 3 (Ident ''Node'') ex_zero [0, 0, 0, 9] \<noteq> Inl (RawError EOF)"
  by (rule unmarshal_aligned_calm [OF ex_wf _ ex_scalar _ ex_zero_typed]) code_simp+

text \<open>
  C4. What is marshaled is the RFC 4506 encoding of the value, and a multiple of four
  bytes long.
\<close>

theorem marshal_is_rfc4506:
  assumes "wf_pkg P" and "scalar_ok P t" and "out_typ P n t v = Inr b" and "abs_typ P n t v = Some a"
  shows "b = rfc a \<and> length b mod 4 = 0"
proof -
  note c = coder_typ [OF assms(1,2), of n, unfolded coder_of_def]
  from coder.enc_sound [OF c assms(3,4)] have "b = rfc a" .
  moreover have "length (rfc a) mod 4 = 0" by (rule rfc_aligned)
  ultimately show ?thesis by (simp only: refl simp_thms)
qed

lemma ex_encode: "out_typ ex_pkg 3 (Ident ''Node'') ex_zero = Inr [0,0,0,0, 0,0,0,0, 0,0,0,0]"
  unfolding three by (simp add: ex_eval ex_zero_def XdrCheckLen_def xdrPut32_def be_put32_def out_varbytes_def
      xdrPutBytes_def xdrZerofill_def)

lemma ex_abs_zero: "abs_typ ex_pkg 3 (Ident ''Node'') ex_zero = Some (XStruct [XVec [], XVar [], XOpt None])"
  unfolding three by (simp add: ex_eval ex_zero_def)

theorem marshal_is_rfc4506_witness:
  "[0,0,0,0, 0,0,0,0, 0,0,0,0] = rfc (XStruct [XVec [], XVar [], XOpt None]) \<and>
   length [0,0,0,0, 0,0,0,0, 0,0,0,0 :: u8] mod 4 = 0"
  by (rule marshal_is_rfc4506 [OF ex_wf ex_scalar ex_encode ex_abs_zero])

text \<open>
  C8. What was in the destination does not matter: two destinations of the type accept the
  same inputs, leave the same rest and stand for the same value afterwards, although
  unmarshaling reuses their slices, pointers and union bodies.
\<close>

theorem unmarshal_destination_independent:
  assumes "wf_pkg P" and "scalar_ok P t" and "has_gty P (go_typ P t) old"
    and "has_gty P (go_typ P t) old'" and "in_typ P n t old buf = Inr (v, r)"
  shows "\<exists>v'. in_typ P n t old' buf = Inr (v', r) \<and> abs_typ P n t v' = abs_typ P n t v"
proof -
  note c = coder_typ [OF assms(1,2), of n, unfolded coder_of_def]
  from coder.destination_independent [OF c assms(3-5)] show ?thesis .
qed

lemma ex_val_typed: "has_gty ex_pkg (go_typ ex_pkg (Ident ''Node'')) ex_val"
proof -
  have "go_typ ex_pkg (Ident ''Node'') = GNamed ''Node''" by (rule go_typ_named [OF ex_Node]) simp
  then show ?thesis
    by (simp add: ex_val_def has_named_simps ex_Node go_decl_def decltype_def)
qed

theorem unmarshal_destination_independent_witness:
  "\<exists>v'. in_typ ex_pkg 3 (Ident ''Node'') ex_val
      [0,0,0,1, 0,0,0,7, 0,0,0,1, 65,0,0,0, 0,0,0,0, 9] = Inr (v', [9]) \<and>
    abs_typ ex_pkg 3 (Ident ''Node'') v' =
    abs_typ ex_pkg 3 (Ident ''Node'') (VStruct [VSlice 1 [VNum32 7], VString [65], VPtr None])"
  by (rule unmarshal_destination_independent [OF ex_wf ex_scalar ex_zero_typed ex_val_typed ex_decode])

section \<open>Slices and unions\<close>

text \<open>
  C9. SetVecLen of a slice within its bound: it never fails, the new length is the one
  asked for, the elements below both lengths stay, and the capacity never exceeds the
  larger of the old capacity and the bound. Beyond the bound it panics with an XdrError.
\<close>

theorem SetVecLen_correct:
  assumes "l \<le> length b"
  shows "if len \<le> bound
    then \<exists>b'. SetVecLen bound z len (l, b) = Inr (unat len, b') \<and> unat len \<le> length b' \<and>
      take (min l (unat len)) b' = take (min l (unat len)) b \<and>
      length b' \<le> max (length b) (unat bound)
    else SetVecLen bound z len (l, b) = Inl (XdrError (VecOverBound len bound))"
proof (cases "len \<le> bound")
  case True
  from SetVecLen_spec [OF this assms, of z] True show ?thesis by auto
next
  case False
  then show ?thesis by (auto simp: SetVecLen_def XdrCheckLen_def not_le)
qed

theorem SetVecLen_correct_witness:
  "if (3 :: u32) \<le> 4
    then \<exists>b'. SetVecLen 4 (VBool False) 3 (1, [VBool True]) = Inr (unat (3 :: u32), b') \<and>
      unat (3 :: u32) \<le> length b' \<and>
      take (min 1 (unat (3 :: u32))) b' = take (min 1 (unat (3 :: u32))) [VBool True] \<and>
      length b' \<le> max (length [VBool True]) (unat (4 :: u32))
    else SetVecLen 4 (VBool False) 3 (1, [VBool True]) = Inl (XdrError (VecOverBound 3 4))"
  by (rule SetVecLen_correct) simp

text \<open>
  The switches emitted for a union agree: the accessor of an arm returns exactly when
  XdrRecurse marshals that arm, XdrValid holds exactly when some arm is selected, and then
  marshaling does not reject the discriminant.
\<close>

lemma union_switches_agree:
  assumes "union_ok u" and "f \<in> set (u_fields u)"
  shows "((\<exists>v. arm_access P u f disc body = Inr v) \<longleftrightarrow> select_arm u disc = Some f) \<and>
    (XdrValid u disc \<longleftrightarrow> (\<exists>g. select_arm u disc = Some g)) \<and>
    (select_arm u disc = Some f \<longrightarrow> \<not> isVoid f \<longrightarrow>
       XdrUnionBody P u disc body =
         Inr (Some (uf_decl f, arm_body P (go_decl P (uf_decl f)) body)) \<and>
       XdrUnionBodyName u disc = d_id (uf_decl f))"
proof (intro conjI impI)
  show "(\<exists>v. arm_access P u f disc body = Inr v) \<longleftrightarrow> select_arm u disc = Some f"
    using select_arm_iff [OF assms] by (simp add: arm_access_iff)
  show "XdrValid u disc \<longleftrightarrow> (\<exists>g. select_arm u disc = Some g)"
    using XdrValid_select [OF assms(1)] by simp
qed (simp_all add: XdrUnionBody_def XdrUnionBodyName_def arm_access_selected)

definition ex_union :: rpc_union where
  "ex_union = \<lparr>u_tagtype = Base Int32, u_tagid = ''T'',
     u_fields = [\<lparr>uf_cases = [1], uf_decl = \<lparr>d_id = ''A'', d_qual = SCALAR, d_bound = 0,
                    d_typ = Base Int32\<rparr>, uf_hasdefault = False\<rparr>],
     u_hasdefault = False\<rparr>"

lemma union_switches_agree_witness:
  "((\<exists>v. arm_access ex_pkg ex_union (hd (u_fields ex_union)) 1 None = Inr v) \<longleftrightarrow>
      select_arm ex_union 1 = Some (hd (u_fields ex_union))) \<and>
    (XdrValid ex_union 1 \<longleftrightarrow> (\<exists>g. select_arm ex_union 1 = Some g)) \<and>
    XdrUnionBody ex_pkg ex_union 1 None =
      Inr (Some (uf_decl (hd (u_fields ex_union)),
        arm_body ex_pkg (go_decl ex_pkg (uf_decl (hd (u_fields ex_union)))) None)) \<and>
    XdrUnionBodyName ex_union 1 = d_id (uf_decl (hd (u_fields ex_union)))"
proof -
  have ok: "union_ok ex_union" by (simp add: ex_union_def union_ok_def)
  have f: "hd (u_fields ex_union) \<in> set (u_fields ex_union)" by (simp add: ex_union_def)
  have s: "select_arm ex_union 1 = Some (hd (u_fields ex_union))" "\<not> isVoid (hd (u_fields ex_union))"
    by (simp_all add: ex_union_def select_arm_def isVoid_def)
  note t = union_switches_agree [OF ok f, of ex_pkg 1 None]
  show ?thesis
    by (intro conjI) (rule t [THEN conjunct1], rule t [THEN conjunct2, THEN conjunct1],
      use t [THEN conjunct2, THEN conjunct2] s in auto)
qed

end
