(* ===== verification/RpcMsg.thy ===== *)
theory RpcMsg imports XdrDepth begin

text \<open>
  The RPC message header of RFC 5531: the package goxdr emits for rpc/rpc_msg.x, the Go
  types of that package as records, and the operations of rpc/util.go and rpc/msg.go on
  them (SetStat, IsSuccess, safeMarshal, GetMsg, Serialize, Xid). A record is embedded in
  the values of the codec by \<open>val_of\<close>, so that GetMsg and Serialize are the generic
  decoder and encoder at the type Rpc_msg.
\<close>

section \<open>The package of rpc_msg.x\<close>

abbreviation scalar_d :: "string \<Rightarrow> tname \<Rightarrow> rpc_decl" where
  "scalar_d i t \<equiv> \<lparr>d_id = i, d_qual = SCALAR, d_bound = 0, d_typ = t\<rparr>"

abbreviation void_f :: "u32 list \<Rightarrow> bool \<Rightarrow> rpc_ufield" where
  "void_f cs def \<equiv> \<lparr>uf_cases = cs, uf_decl = scalar_d [] (Base Void), uf_hasdefault = def\<rparr>"

abbreviation arm_f :: "u32 list \<Rightarrow> rpc_decl \<Rightarrow> rpc_ufield" where
  "arm_f cs d \<equiv> \<lparr>uf_cases = cs, uf_decl = d, uf_hasdefault = False\<rparr>"

definition sym_auth_flavor :: rpc_sym where
  "sym_auth_flavor = Sym_enum
     [(''AUTH_NONE'', 0), (''AUTH_SYS'', 1), (''AUTH_SHORT'', 2), (''AUTH_DH'', 3), (''RPCSEC_GSS'', 6)]"

definition sym_opaque_auth :: rpc_sym where
  "sym_opaque_auth = Sym_struct
     [scalar_d ''Flavor'' (Ident ''Auth_flavor''),
      \<lparr>d_id = ''Body'', d_qual = VEC, d_bound = 400, d_typ = Base Byte\<rparr>]"

definition sym_msg_type :: rpc_sym where
  "sym_msg_type = Sym_enum [(''CALL'', 0), (''REPLY'', 1)]"

definition sym_reply_stat :: rpc_sym where
  "sym_reply_stat = Sym_enum [(''MSG_ACCEPTED'', 0), (''MSG_DENIED'', 1)]"

definition sym_accept_stat :: rpc_sym where
  "sym_accept_stat = Sym_enum
     [(''SUCCESS'', 0), (''PROG_UNAVAIL'', 1), (''PROG_MISMATCH'', 2), (''PROC_UNAVAIL'', 3),
      (''GARBAGE_ARGS'', 4), (''SYSTEM_ERR'', 5)]"

definition sym_reject_stat :: rpc_sym where
  "sym_reject_stat = Sym_enum [(''RPC_MISMATCH'', 0), (''AUTH_ERROR'', 1)]"

definition sym_auth_stat :: rpc_sym where
  "sym_auth_stat = Sym_enum
     [(''AUTH_OK'', 0), (''AUTH_BADCRED'', 1), (''AUTH_REJECTEDCRED'', 2), (''AUTH_BADVERF'', 3),
      (''AUTH_REJECTEDVERF'', 4), (''AUTH_TOOWEAK'', 5), (''AUTH_INVALIDRESP'', 6),
      (''AUTH_FAILED'', 7), (''AUTH_KERB_GENERIC'', 8), (''AUTH_TIMEEXPIRE'', 9),
      (''AUTH_TKT_FILE'', 10), (''AUTH_DECODE'', 11), (''AUTH_NET_ADDR'', 12),
      (''RPCSEC_GSS_CREDPROBLEM'', 13), (''RPCSEC_GSS_CTXPROBLEM'', 14)]"

definition sym_call_body :: rpc_sym where
  "sym_call_body = Sym_struct
     [scalar_d ''Rpcvers'' (Base Uint32), scalar_d ''Prog'' (Base Uint32),
      scalar_d ''Vers'' (Base Uint32), scalar_d ''Proc'' (Base Uint32),
      scalar_d ''Cred'' (Ident ''Opaque_auth''), scalar_d ''Verf'' (Ident ''Opaque_auth'')]"

definition sym_mismatch_info :: rpc_sym where
  "sym_mismatch_info = Sym_struct [scalar_d ''Low'' (Base Uint32), scalar_d ''High'' (Base Uint32)]"

definition sym_reply_data :: rpc_sym where
  "sym_reply_data = Sym_union
     \<lparr>u_tagtype = Ident ''Accept_stat'', u_tagid = ''Stat'',
      u_fields =
        [arm_f [0] \<lparr>d_id = ''Results'', d_qual = ARRAY, d_bound = 0, d_typ = Base Byte\<rparr>,
         arm_f [2] (scalar_d ''Mismatch_info''
           (Ident ''XdrAnon_Accepted_reply_Reply_data_Mismatch_info'')),
         void_f [] True],
      u_hasdefault = True\<rparr>"

definition sym_accepted_reply :: rpc_sym where
  "sym_accepted_reply = Sym_struct
     [scalar_d ''Verf'' (Ident ''Opaque_auth''),
      scalar_d ''Reply_data'' (Ident ''XdrAnon_Accepted_reply_Reply_data'')]"

definition sym_rejected_reply :: rpc_sym where
  "sym_rejected_reply = Sym_union
     \<lparr>u_tagtype = Ident ''Reject_stat'', u_tagid = ''Stat'',
      u_fields =
        [arm_f [0] (scalar_d ''Mismatch_info'' (Ident ''XdrAnon_Rejected_reply_Mismatch_info'')),
         arm_f [1] (scalar_d ''Rj_why'' (Ident ''Auth_stat''))],
      u_hasdefault = False\<rparr>"

definition sym_reply_body :: rpc_sym where
  "sym_reply_body = Sym_union
     \<lparr>u_tagtype = Ident ''Reply_stat'', u_tagid = ''Stat'',
      u_fields =
        [arm_f [0] (scalar_d ''Areply'' (Ident ''Accepted_reply'')),
         arm_f [1] (scalar_d ''Rreply'' (Ident ''Rejected_reply''))],
      u_hasdefault = False\<rparr>"

definition sym_msg_body :: rpc_sym where
  "sym_msg_body = Sym_union
     \<lparr>u_tagtype = Ident ''Msg_type'', u_tagid = ''Mtype'',
      u_fields =
        [arm_f [0] (scalar_d ''Cbody'' (Ident ''Call_body'')),
         arm_f [1] (scalar_d ''Rbody'' (Ident ''Reply_body''))],
      u_hasdefault = False\<rparr>"

definition sym_rpc_msg :: rpc_sym where
  "sym_rpc_msg = Sym_struct
     [scalar_d ''Xid'' (Base Uint32), scalar_d ''Body'' (Ident ''XdrAnon_Rpc_msg_Body'')]"

definition rpc_pkg :: pkg where
  "rpc_pkg =
     \<lparr>p_defs =
        [(''Auth_flavor'', sym_auth_flavor),
         (''Opaque_auth'', sym_opaque_auth),
         (''Msg_type'', sym_msg_type),
         (''Reply_stat'', sym_reply_stat),
         (''Accept_stat'', sym_accept_stat),
         (''Reject_stat'', sym_reject_stat),
         (''Auth_stat'', sym_auth_stat),
         (''Call_body'', sym_call_body),
         (''XdrAnon_Accepted_reply_Reply_data_Mismatch_info'', sym_mismatch_info),
         (''XdrAnon_Accepted_reply_Reply_data'', sym_reply_data),
         (''Accepted_reply'', sym_accepted_reply),
         (''XdrAnon_Rejected_reply_Mismatch_info'', sym_mismatch_info),
         (''Rejected_reply'', sym_rejected_reply),
         (''Reply_body'', sym_reply_body),
         (''XdrAnon_Rpc_msg_Body'', sym_msg_body),
         (''Rpc_msg'', sym_rpc_msg)],
      p_nest = 6\<rparr>"

lemmas rpc_sym_defs = sym_auth_flavor_def sym_opaque_auth_def sym_msg_type_def sym_reply_stat_def
  sym_accept_stat_def sym_reject_stat_def sym_auth_stat_def sym_call_body_def
  sym_mismatch_info_def sym_reply_data_def sym_accepted_reply_def sym_rejected_reply_def
  sym_reply_body_def sym_msg_body_def sym_rpc_msg_def

lemma wf_rpc_pkg: "wf_pkg rpc_pkg"
  by code_simp

lemma rpc_sym_of [simp]:
  "sym_of rpc_pkg ''Auth_flavor'' = Some sym_auth_flavor"
  "sym_of rpc_pkg ''Opaque_auth'' = Some sym_opaque_auth"
  "sym_of rpc_pkg ''Msg_type'' = Some sym_msg_type"
  "sym_of rpc_pkg ''Reply_stat'' = Some sym_reply_stat"
  "sym_of rpc_pkg ''Accept_stat'' = Some sym_accept_stat"
  "sym_of rpc_pkg ''Reject_stat'' = Some sym_reject_stat"
  "sym_of rpc_pkg ''Auth_stat'' = Some sym_auth_stat"
  "sym_of rpc_pkg ''Call_body'' = Some sym_call_body"
  "sym_of rpc_pkg ''XdrAnon_Accepted_reply_Reply_data_Mismatch_info'' = Some sym_mismatch_info"
  "sym_of rpc_pkg ''XdrAnon_Accepted_reply_Reply_data'' = Some sym_reply_data"
  "sym_of rpc_pkg ''Accepted_reply'' = Some sym_accepted_reply"
  "sym_of rpc_pkg ''XdrAnon_Rejected_reply_Mismatch_info'' = Some sym_mismatch_info"
  "sym_of rpc_pkg ''Rejected_reply'' = Some sym_rejected_reply"
  "sym_of rpc_pkg ''Reply_body'' = Some sym_reply_body"
  "sym_of rpc_pkg ''XdrAnon_Rpc_msg_Body'' = Some sym_msg_body"
  "sym_of rpc_pkg ''Rpc_msg'' = Some sym_rpc_msg"
  by (simp_all add: sym_of_def rpc_pkg_def)

section \<open>The Go types of the header\<close>

text \<open>
  Structs are records; a union is a record of its discriminant and the \<open>_u\<close> field, whose
  constructors are nil and one per arm that is not void. Enums are \<open>u32\<close>.
\<close>

record opaque_auth =
  oa_Flavor :: u32
  oa_Body :: bytes

record call_body =
  Rpcvers :: u32
  Prog :: u32
  Vers :: u32
  Proc :: u32
  Cred :: opaque_auth
  Verf :: opaque_auth

record mismatch =
  Low :: u32
  High :: u32

datatype reply_data_u = RD_nil | RD_results | RD_mismatch mismatch

record reply_data =
  rd_Stat :: u32
  rd_u :: reply_data_u

record accepted_reply =
  ar_Verf :: opaque_auth
  ar_Reply_data :: reply_data

datatype rejected_u = RJ_nil | RJ_mismatch mismatch | RJ_why u32

record rejected_reply =
  rj_Stat :: u32
  rj_u :: rejected_u

datatype reply_body_u = RB_nil | RB_areply accepted_reply | RB_rreply rejected_reply

record reply_body =
  rb_Stat :: u32
  rb_u :: reply_body_u

datatype msg_body_u = MB_nil | MB_cbody call_body | MB_rbody reply_body

record msg_body =
  Mtype :: u32
  mb_u :: msg_body_u

record rpc_msg =
  Xid :: u32
  Body :: msg_body

definition CALL :: u32 where "CALL = 0"
definition REPLY :: u32 where "REPLY = 1"
definition MSG_ACCEPTED :: u32 where "MSG_ACCEPTED = 0"
definition MSG_DENIED :: u32 where "MSG_DENIED = 1"
definition SUCCESS :: u32 where "SUCCESS = 0"
definition PROG_UNAVAIL :: u32 where "PROG_UNAVAIL = 1"
definition PROG_MISMATCH :: u32 where "PROG_MISMATCH = 2"
definition PROC_UNAVAIL :: u32 where "PROC_UNAVAIL = 3"
definition GARBAGE_ARGS :: u32 where "GARBAGE_ARGS = 4"
definition SYSTEM_ERR :: u32 where "SYSTEM_ERR = 5"
definition RPC_MISMATCH :: u32 where "RPC_MISMATCH = 0"
definition AUTH_ERROR :: u32 where "AUTH_ERROR = 1"

text \<open>The pseudo status codes of rpc/util.go.\<close>

definition SEND_ERR :: u32 where "SEND_ERR = 97"
definition CANCELED :: u32 where "CANCELED = 98"
definition GARBAGE_RET :: u32 where "GARBAGE_RET = 99"

lemmas rpc_consts = CALL_def REPLY_def MSG_ACCEPTED_def MSG_DENIED_def SUCCESS_def
  PROG_UNAVAIL_def PROG_MISMATCH_def PROC_UNAVAIL_def GARBAGE_ARGS_def SYSTEM_ERR_def
  RPC_MISMATCH_def AUTH_ERROR_def SEND_ERR_def CANCELED_def GARBAGE_RET_def

section \<open>Embedding into the values of the codec\<close>

definition val_oa :: "opaque_auth \<Rightarrow> val" where
  "val_oa a = VStruct [VNum32 (oa_Flavor a), VBytes (oa_Body a)]"

definition val_call :: "call_body \<Rightarrow> val" where
  "val_call c = VStruct
     [VNum32 (Rpcvers c), VNum32 (Prog c), VNum32 (Vers c), VNum32 (Proc c),
      val_oa (Cred c), val_oa (Verf c)]"

definition val_mm :: "mismatch \<Rightarrow> val" where
  "val_mm m = VStruct [VNum32 (Low m), VNum32 (High m)]"

definition val_rd :: "reply_data \<Rightarrow> val" where
  "val_rd d = VUnion (VNum32 (rd_Stat d))
     (case rd_u d of
        RD_nil \<Rightarrow> None
      | RD_results \<Rightarrow> Some (GByteArr 0, VByteArr [])
      | RD_mismatch m \<Rightarrow>
          Some (GNamed ''XdrAnon_Accepted_reply_Reply_data_Mismatch_info'', val_mm m))"

definition val_ar :: "accepted_reply \<Rightarrow> val" where
  "val_ar a = VStruct [val_oa (ar_Verf a), val_rd (ar_Reply_data a)]"

definition val_rj :: "rejected_reply \<Rightarrow> val" where
  "val_rj r = VUnion (VNum32 (rj_Stat r))
     (case rj_u r of
        RJ_nil \<Rightarrow> None
      | RJ_mismatch m \<Rightarrow> Some (GNamed ''XdrAnon_Rejected_reply_Mismatch_info'', val_mm m)
      | RJ_why w \<Rightarrow> Some (GNamed ''Auth_stat'', VNum32 w))"

definition val_rb :: "reply_body \<Rightarrow> val" where
  "val_rb r = VUnion (VNum32 (rb_Stat r))
     (case rb_u r of
        RB_nil \<Rightarrow> None
      | RB_areply a \<Rightarrow> Some (GNamed ''Accepted_reply'', val_ar a)
      | RB_rreply x \<Rightarrow> Some (GNamed ''Rejected_reply'', val_rj x))"

definition val_body :: "msg_body \<Rightarrow> val" where
  "val_body b = VUnion (VNum32 (Mtype b))
     (case mb_u b of
        MB_nil \<Rightarrow> None
      | MB_cbody c \<Rightarrow> Some (GNamed ''Call_body'', val_call c)
      | MB_rbody r \<Rightarrow> Some (GNamed ''Reply_body'', val_rb r))"

definition val_of :: "rpc_msg \<Rightarrow> val" where
  "val_of m = VStruct [VNum32 (Xid m), val_body (Body m)]"

text \<open>The partial inverses, over projections of values.\<close>

fun as_num :: "val \<Rightarrow> u32 option" where
  "as_num (VNum32 w) = Some w"
| "as_num _ = None"

fun as_bytes :: "val \<Rightarrow> bytes option" where
  "as_bytes (VBytes s) = Some s"
| "as_bytes _ = None"

fun as_struct :: "val \<Rightarrow> val list option" where
  "as_struct (VStruct vs) = Some vs"
| "as_struct _ = None"

fun as_union :: "val \<Rightarrow> (val \<times> (gty \<times> val) option) option" where
  "as_union (VUnion t b) = Some (t, b)"
| "as_union _ = None"

definition oa_val :: "val \<Rightarrow> opaque_auth option" where
  "oa_val v = bindO (as_struct v) (\<lambda>vs.
     case vs of
       [f, b] \<Rightarrow> bindO (as_num f) (\<lambda>f. bindO (as_bytes b) (\<lambda>b.
         Some \<lparr>oa_Flavor = f, oa_Body = b\<rparr>))
     | _ \<Rightarrow> None)"

definition call_val :: "val \<Rightarrow> call_body option" where
  "call_val v = bindO (as_struct v) (\<lambda>vs.
     case vs of
       [rv, pg, vs, pc, cr, vf] \<Rightarrow>
         bindO (as_num rv) (\<lambda>rv. bindO (as_num pg) (\<lambda>pg. bindO (as_num vs) (\<lambda>vs.
         bindO (as_num pc) (\<lambda>pc. bindO (oa_val cr) (\<lambda>c. bindO (oa_val vf) (\<lambda>v.
           Some \<lparr>Rpcvers = rv, Prog = pg, Vers = vs, Proc = pc, Cred = c, Verf = v\<rparr>))))))
     | _ \<Rightarrow> None)"

definition mm_val :: "val \<Rightarrow> mismatch option" where
  "mm_val v = bindO (as_struct v) (\<lambda>vs.
     case vs of
       [l, h] \<Rightarrow> bindO (as_num l) (\<lambda>l. bindO (as_num h) (\<lambda>h. Some \<lparr>Low = l, High = h\<rparr>))
     | _ \<Rightarrow> None)"

definition rd_val :: "val \<Rightarrow> reply_data option" where
  "rd_val v = bindO (as_union v) (\<lambda>(t, b). bindO (as_num t) (\<lambda>st.
     bindO (case b of
         None \<Rightarrow> Some RD_nil
       | Some (g, x) \<Rightarrow> if g = GByteArr 0 then Some RD_results
           else bindO (mm_val x) (\<lambda>m. Some (RD_mismatch m)))
       (\<lambda>u. Some \<lparr>rd_Stat = st, rd_u = u\<rparr>)))"

definition ar_val :: "val \<Rightarrow> accepted_reply option" where
  "ar_val v = bindO (as_struct v) (\<lambda>vs.
     case vs of
       [vf, rd] \<Rightarrow>
         bindO (oa_val vf) (\<lambda>v. bindO (rd_val rd) (\<lambda>d. Some \<lparr>ar_Verf = v, ar_Reply_data = d\<rparr>))
     | _ \<Rightarrow> None)"

definition rj_val :: "val \<Rightarrow> rejected_reply option" where
  "rj_val v = bindO (as_union v) (\<lambda>(t, b). bindO (as_num t) (\<lambda>st.
     bindO (case b of
         None \<Rightarrow> Some RJ_nil
       | Some (g, x) \<Rightarrow> if g = GNamed ''Auth_stat'' then bindO (as_num x) (\<lambda>w. Some (RJ_why w))
           else bindO (mm_val x) (\<lambda>m. Some (RJ_mismatch m)))
       (\<lambda>u. Some \<lparr>rj_Stat = st, rj_u = u\<rparr>)))"

definition rb_val :: "val \<Rightarrow> reply_body option" where
  "rb_val v = bindO (as_union v) (\<lambda>(t, b). bindO (as_num t) (\<lambda>st.
     bindO (case b of
         None \<Rightarrow> Some RB_nil
       | Some (g, x) \<Rightarrow> if g = GNamed ''Accepted_reply'' then bindO (ar_val x) (\<lambda>a. Some (RB_areply a))
           else bindO (rj_val x) (\<lambda>r. Some (RB_rreply r)))
       (\<lambda>u. Some \<lparr>rb_Stat = st, rb_u = u\<rparr>)))"

definition body_val :: "val \<Rightarrow> msg_body option" where
  "body_val v = bindO (as_union v) (\<lambda>(t, b). bindO (as_num t) (\<lambda>mt.
     bindO (case b of
         None \<Rightarrow> Some MB_nil
       | Some (g, x) \<Rightarrow> if g = GNamed ''Call_body'' then bindO (call_val x) (\<lambda>c. Some (MB_cbody c))
           else bindO (rb_val x) (\<lambda>r. Some (MB_rbody r)))
       (\<lambda>u. Some \<lparr>Mtype = mt, mb_u = u\<rparr>)))"

definition msg_val :: "val \<Rightarrow> rpc_msg option" where
  "msg_val v = bindO (as_struct v) (\<lambda>vs.
     case vs of
       [x, b] \<Rightarrow> bindO (as_num x) (\<lambda>x. bindO (body_val b) (\<lambda>b. Some \<lparr>Xid = x, Body = b\<rparr>))
     | _ \<Rightarrow> None)"

lemma val_inverses [simp]:
  "oa_val (val_oa a) = Some a"
  "call_val (val_call c) = Some c"
  "mm_val (val_mm m) = Some m"
  "rd_val (val_rd d) = Some d"
  "ar_val (val_ar ar) = Some ar"
  "rj_val (val_rj rj) = Some rj"
  "rb_val (val_rb rb) = Some rb"
  "body_val (val_body b) = Some b"
  "msg_val (val_of msg) = Some msg"
proof -
  show oa [simp]: "oa_val (val_oa a) = Some a" for a by (simp add: val_oa_def oa_val_def)
  show call [simp]: "call_val (val_call c) = Some c" for c by (simp add: val_call_def call_val_def)
  show mm [simp]: "mm_val (val_mm m) = Some m" for m by (simp add: val_mm_def mm_val_def)
  show rd [simp]: "rd_val (val_rd d) = Some d" for d
    by (cases d; cases "rd_u d") (auto simp: val_rd_def rd_val_def)
  show ar [simp]: "ar_val (val_ar ar) = Some ar" for ar by (simp add: val_ar_def ar_val_def)
  show rj [simp]: "rj_val (val_rj rj) = Some rj" for rj
    by (cases rj; cases "rj_u rj") (auto simp: val_rj_def rj_val_def)
  show rb [simp]: "rb_val (val_rb rb) = Some rb" for rb
    by (cases rb; cases "rb_u rb") (auto simp: val_rb_def rb_val_def)
  show body [simp]: "body_val (val_body b) = Some b" for b
    by (cases b; cases "mb_u b") (auto simp: val_body_def body_val_def)
  show "msg_val (val_of msg) = Some msg" by (simp add: val_of_def msg_val_def)
qed

section \<open>The embedding is exactly the typed values\<close>

lemma rpc_go_typ [simp]:
  "go_typ rpc_pkg (Ident ''Auth_flavor'') = GNamed ''Auth_flavor''"
  "go_typ rpc_pkg (Ident ''Opaque_auth'') = GNamed ''Opaque_auth''"
  "go_typ rpc_pkg (Ident ''Msg_type'') = GNamed ''Msg_type''"
  "go_typ rpc_pkg (Ident ''Reply_stat'') = GNamed ''Reply_stat''"
  "go_typ rpc_pkg (Ident ''Accept_stat'') = GNamed ''Accept_stat''"
  "go_typ rpc_pkg (Ident ''Reject_stat'') = GNamed ''Reject_stat''"
  "go_typ rpc_pkg (Ident ''Auth_stat'') = GNamed ''Auth_stat''"
  "go_typ rpc_pkg (Ident ''Call_body'') = GNamed ''Call_body''"
  "go_typ rpc_pkg (Ident ''XdrAnon_Accepted_reply_Reply_data_Mismatch_info'') =
     GNamed ''XdrAnon_Accepted_reply_Reply_data_Mismatch_info''"
  "go_typ rpc_pkg (Ident ''XdrAnon_Accepted_reply_Reply_data'') =
     GNamed ''XdrAnon_Accepted_reply_Reply_data''"
  "go_typ rpc_pkg (Ident ''Accepted_reply'') = GNamed ''Accepted_reply''"
  "go_typ rpc_pkg (Ident ''XdrAnon_Rejected_reply_Mismatch_info'') =
     GNamed ''XdrAnon_Rejected_reply_Mismatch_info''"
  "go_typ rpc_pkg (Ident ''Rejected_reply'') = GNamed ''Rejected_reply''"
  "go_typ rpc_pkg (Ident ''Reply_body'') = GNamed ''Reply_body''"
  "go_typ rpc_pkg (Ident ''XdrAnon_Rpc_msg_Body'') = GNamed ''XdrAnon_Rpc_msg_Body''"
  "go_typ rpc_pkg (Ident ''Rpc_msg'') = GNamed ''Rpc_msg''"
  by (auto intro!: go_typ_named [OF rpc_sym_of(1)] go_typ_named [OF rpc_sym_of(2)]
      go_typ_named [OF rpc_sym_of(3)] go_typ_named [OF rpc_sym_of(4)]
      go_typ_named [OF rpc_sym_of(5)] go_typ_named [OF rpc_sym_of(6)]
      go_typ_named [OF rpc_sym_of(7)] go_typ_named [OF rpc_sym_of(8)]
      go_typ_named [OF rpc_sym_of(9)] go_typ_named [OF rpc_sym_of(10)]
      go_typ_named [OF rpc_sym_of(11)] go_typ_named [OF rpc_sym_of(12)]
      go_typ_named [OF rpc_sym_of(13)] go_typ_named [OF rpc_sym_of(14)]
      go_typ_named [OF rpc_sym_of(15)] go_typ_named [OF rpc_sym_of(16)] simp: rpc_sym_defs)

lemma typed_enum:
  "sym_of P s = Some (Sym_enum tags) \<Longrightarrow> has_gty P (GNamed s) v \<longleftrightarrow> (\<exists>w. v = VNum32 w)"
  by (auto simp: has_named_simps)

lemma typed_struct:
  "sym_of P s = Some (Sym_struct ds) \<Longrightarrow>
   has_gty P (GNamed s) v \<longleftrightarrow> (\<exists>vs. v = VStruct vs \<and> list_all2 (\<lambda>d. has_gty P (go_decl P d)) ds vs)"
  by (auto simp: has_named_simps)

lemma typed_union:
  "sym_of P s = Some (Sym_union u) \<Longrightarrow>
   has_gty P (GNamed s) v \<longleftrightarrow> (\<exists>tag body. v = VUnion tag body \<and>
     has_gty P (go_typ P (u_tagtype u)) tag \<and>
     (\<forall>g b. body = Some (g, b) \<longrightarrow> has_gty P g b \<and> arm_gty P u g))"
  by (auto simp: has_named_simps)

lemma typed_enums [simp]:
  "has_gty rpc_pkg (GNamed ''Auth_flavor'') v \<longleftrightarrow> (\<exists>w. v = VNum32 w)"
  "has_gty rpc_pkg (GNamed ''Msg_type'') v \<longleftrightarrow> (\<exists>w. v = VNum32 w)"
  "has_gty rpc_pkg (GNamed ''Reply_stat'') v \<longleftrightarrow> (\<exists>w. v = VNum32 w)"
  "has_gty rpc_pkg (GNamed ''Accept_stat'') v \<longleftrightarrow> (\<exists>w. v = VNum32 w)"
  "has_gty rpc_pkg (GNamed ''Reject_stat'') v \<longleftrightarrow> (\<exists>w. v = VNum32 w)"
  "has_gty rpc_pkg (GNamed ''Auth_stat'') v \<longleftrightarrow> (\<exists>w. v = VNum32 w)"
  by (rule typed_enum; simp add: rpc_sym_defs)+

lemma go_decl_scalar [simp]: "go_decl P (scalar_d i (Ident s)) = go_typ P (Ident s)"
  by (simp add: go_decl_def decltype_def)

lemma go_decl_u32 [simp]: "go_decl P (scalar_d i (Base Uint32)) = GBase Uint32"
  by (simp add: go_decl_def decltype_def)

lemma go_decl_opaque [simp]:
  "go_decl P \<lparr>d_id = i, d_qual = VEC, d_bound = b, d_typ = Base Byte\<rparr> = GBytes"
  "go_decl P \<lparr>d_id = i, d_qual = ARRAY, d_bound = b, d_typ = Base Byte\<rparr> = GByteArr (unat b)"
  by (simp_all add: go_decl_def decltype_def)

lemma typed_oa: "has_gty rpc_pkg (GNamed ''Opaque_auth'') v \<longleftrightarrow> (\<exists>a. v = val_oa a)"
proof -
  have "(\<exists>a. v = val_oa a) \<longleftrightarrow> (\<exists>f b. v = VStruct [VNum32 f, VBytes b])"
    by (metis opaque_auth.select_convs(1,2) val_oa_def)
  then show ?thesis
    by (auto simp: typed_struct sym_opaque_auth_def list_all2_Cons1)
qed

lemma typed_mm:
  "has_gty rpc_pkg (GNamed ''XdrAnon_Accepted_reply_Reply_data_Mismatch_info'') v \<longleftrightarrow> (\<exists>m. v = val_mm m)"
  "has_gty rpc_pkg (GNamed ''XdrAnon_Rejected_reply_Mismatch_info'') v \<longleftrightarrow> (\<exists>m. v = val_mm m)"
proof -
  have "(\<exists>m. v = val_mm m) \<longleftrightarrow> (\<exists>l h. v = VStruct [VNum32 l, VNum32 h])"
    by (metis mismatch.select_convs(1,2) val_mm_def)
  then show
    "has_gty rpc_pkg (GNamed ''XdrAnon_Accepted_reply_Reply_data_Mismatch_info'') v \<longleftrightarrow> (\<exists>m. v = val_mm m)"
    "has_gty rpc_pkg (GNamed ''XdrAnon_Rejected_reply_Mismatch_info'') v \<longleftrightarrow> (\<exists>m. v = val_mm m)"
    by (auto simp: typed_struct sym_mismatch_info_def list_all2_Cons1)
qed

lemma typed_call: "has_gty rpc_pkg (GNamed ''Call_body'') v \<longleftrightarrow> (\<exists>c. v = val_call c)"
proof
  assume "has_gty rpc_pkg (GNamed ''Call_body'') v"
  then obtain a b c d e f where "v = VStruct [VNum32 a, VNum32 b, VNum32 c, VNum32 d, val_oa e, val_oa f]"
    by (auto simp: typed_struct sym_call_body_def list_all2_Cons1 typed_oa)
  then have "v = val_call \<lparr>Rpcvers = a, Prog = b, Vers = c, Proc = d, Cred = e, Verf = f\<rparr>"
    by (simp add: val_call_def)
  then show "\<exists>c. v = val_call c" ..
qed (auto simp: val_call_def typed_struct sym_call_body_def typed_oa)

lemma typed_rd:
  "has_gty rpc_pkg (GNamed ''XdrAnon_Accepted_reply_Reply_data'') v \<longleftrightarrow> (\<exists>d. v = val_rd d)"
proof
  assume "has_gty rpc_pkg (GNamed ''XdrAnon_Accepted_reply_Reply_data'') v"
  then obtain st body where v: "v = VUnion (VNum32 st) body"
      "\<forall>g b. body = Some (g, b) \<longrightarrow> has_gty rpc_pkg g b \<and> (g = GByteArr 0 \<or> g = GNamed ''XdrAnon_Accepted_reply_Reply_data_Mismatch_info'')"
    by (auto simp: typed_union sym_reply_data_def arm_gty_def isVoid_def)
  show "\<exists>d. v = val_rd d"
  proof (cases body)
    case None
    with v have "v = val_rd \<lparr>rd_Stat = st, rd_u = RD_nil\<rparr>" by (simp add: val_rd_def)
    then show ?thesis ..
  next
    case (Some gb)
    with v have "v = val_rd \<lparr>rd_Stat = st, rd_u = RD_results\<rparr> \<or>
        (\<exists>m. v = val_rd \<lparr>rd_Stat = st, rd_u = RD_mismatch m\<rparr>)"
      by (cases gb) (auto simp: val_rd_def typed_mm)
    then show ?thesis by blast
  qed
next
  assume "\<exists>d. v = val_rd d"
  then obtain d where "v = val_rd d" ..
  then show "has_gty rpc_pkg (GNamed ''XdrAnon_Accepted_reply_Reply_data'') v"
    by (cases "rd_u d") (auto simp: val_rd_def typed_union sym_reply_data_def arm_gty_def isVoid_def typed_mm)
qed

lemma typed_rj: "has_gty rpc_pkg (GNamed ''Rejected_reply'') v \<longleftrightarrow> (\<exists>d. v = val_rj d)"
proof
  assume "has_gty rpc_pkg (GNamed ''Rejected_reply'') v"
  then obtain st body where v: "v = VUnion (VNum32 st) body"
      "\<forall>g b. body = Some (g, b) \<longrightarrow> has_gty rpc_pkg g b \<and> (g = GNamed ''XdrAnon_Rejected_reply_Mismatch_info'' \<or> g = GNamed ''Auth_stat'')"
    by (auto simp: typed_union sym_rejected_reply_def arm_gty_def isVoid_def)
  show "\<exists>d. v = val_rj d"
  proof (cases body)
    case None
    with v have "v = val_rj \<lparr>rj_Stat = st, rj_u = RJ_nil\<rparr>" by (simp add: val_rj_def)
    then show ?thesis ..
  next
    case (Some gb)
    with v have "(\<exists>w. v = val_rj \<lparr>rj_Stat = st, rj_u = RJ_why w\<rparr>) \<or>
        (\<exists>m. v = val_rj \<lparr>rj_Stat = st, rj_u = RJ_mismatch m\<rparr>)"
      by (cases gb) (auto simp: val_rj_def typed_mm)
    then show ?thesis by blast
  qed
next
  assume "\<exists>d. v = val_rj d"
  then obtain d where "v = val_rj d" ..
  then show "has_gty rpc_pkg (GNamed ''Rejected_reply'') v"
    by (cases "rj_u d") (auto simp: val_rj_def typed_union sym_rejected_reply_def arm_gty_def isVoid_def typed_mm)
qed

lemma typed_ar: "has_gty rpc_pkg (GNamed ''Accepted_reply'') v \<longleftrightarrow> (\<exists>a. v = val_ar a)"
proof -
  have "(\<exists>a. v = val_ar a) \<longleftrightarrow> (\<exists>o1 d. v = VStruct [val_oa o1, val_rd d])"
    by (metis accepted_reply.select_convs(1,2) val_ar_def)
  then show ?thesis
    by (simp add: typed_struct sym_accepted_reply_def list_all2_Cons1 typed_oa typed_rd) blast
qed

lemma typed_rb: "has_gty rpc_pkg (GNamed ''Reply_body'') v \<longleftrightarrow> (\<exists>r. v = val_rb r)"
proof
  assume "has_gty rpc_pkg (GNamed ''Reply_body'') v"
  then obtain st body where v: "v = VUnion (VNum32 st) body"
      "\<forall>g b. body = Some (g, b) \<longrightarrow> has_gty rpc_pkg g b \<and> (g = GNamed ''Accepted_reply'' \<or> g = GNamed ''Rejected_reply'')"
    by (auto simp: typed_union sym_reply_body_def arm_gty_def isVoid_def)
  show "\<exists>r. v = val_rb r"
  proof (cases body)
    case None
    with v have "v = val_rb \<lparr>rb_Stat = st, rb_u = RB_nil\<rparr>" by (simp add: val_rb_def)
    then show ?thesis ..
  next
    case (Some gb)
    with v have "(\<exists>a. v = val_rb \<lparr>rb_Stat = st, rb_u = RB_areply a\<rparr>) \<or>
        (\<exists>r. v = val_rb \<lparr>rb_Stat = st, rb_u = RB_rreply r\<rparr>)"
      by (cases gb) (auto simp: val_rb_def typed_ar typed_rj)
    then show ?thesis by blast
  qed
next
  assume "\<exists>r. v = val_rb r"
  then obtain r where "v = val_rb r" ..
  then show "has_gty rpc_pkg (GNamed ''Reply_body'') v"
    by (cases "rb_u r") (auto simp: val_rb_def typed_union sym_reply_body_def arm_gty_def isVoid_def typed_ar typed_rj)
qed

lemma typed_body: "has_gty rpc_pkg (GNamed ''XdrAnon_Rpc_msg_Body'') v \<longleftrightarrow> (\<exists>b. v = val_body b)"
proof
  assume "has_gty rpc_pkg (GNamed ''XdrAnon_Rpc_msg_Body'') v"
  then obtain mt body where v: "v = VUnion (VNum32 mt) body"
      "\<forall>g b. body = Some (g, b) \<longrightarrow> has_gty rpc_pkg g b \<and> (g = GNamed ''Call_body'' \<or> g = GNamed ''Reply_body'')"
    by (auto simp: typed_union sym_msg_body_def arm_gty_def isVoid_def)
  show "\<exists>b. v = val_body b"
  proof (cases body)
    case None
    with v have "v = val_body \<lparr>Mtype = mt, mb_u = MB_nil\<rparr>" by (simp add: val_body_def)
    then show ?thesis ..
  next
    case (Some gb)
    with v have "(\<exists>a. v = val_body \<lparr>Mtype = mt, mb_u = MB_cbody a\<rparr>) \<or>
        (\<exists>r. v = val_body \<lparr>Mtype = mt, mb_u = MB_rbody r\<rparr>)"
      by (cases gb) (auto simp: val_body_def typed_call typed_rb)
    then show ?thesis by blast
  qed
next
  assume "\<exists>b. v = val_body b"
  then obtain b where "v = val_body b" ..
  then show "has_gty rpc_pkg (GNamed ''XdrAnon_Rpc_msg_Body'') v"
    by (cases "mb_u b") (auto simp: val_body_def typed_union sym_msg_body_def arm_gty_def isVoid_def typed_call typed_rb)
qed

theorem typed_msg: "has_gty rpc_pkg (GNamed ''Rpc_msg'') v \<longleftrightarrow> (\<exists>m. v = val_of m)"
proof -
  have "(\<exists>m. v = val_of m) \<longleftrightarrow> (\<exists>x b. v = VStruct [VNum32 x, val_body b])"
    by (metis rpc_msg.select_convs(1,2) val_of_def)
  then show ?thesis
    by (simp add: typed_struct sym_rpc_msg_def list_all2_Cons1 typed_body) blast
qed

section \<open>Accessors of the header's unions\<close>

text \<open>
  The emitted accessors: the arm's body, a new zero body if \<open>_u\<close> holds no such body, and a
  panic when the discriminant does not select the arm. A modifying use stores the body.
\<close>

definition zero_oa :: opaque_auth where "zero_oa = \<lparr>oa_Flavor = 0, oa_Body = []\<rparr>"
definition zero_mm :: mismatch where "zero_mm = \<lparr>Low = 0, High = 0\<rparr>"
definition zero_rd :: reply_data where "zero_rd = \<lparr>rd_Stat = 0, rd_u = RD_nil\<rparr>"
definition zero_rj :: rejected_reply where "zero_rj = \<lparr>rj_Stat = 0, rj_u = RJ_nil\<rparr>"
definition zero_rb :: reply_body where "zero_rb = \<lparr>rb_Stat = 0, rb_u = RB_nil\<rparr>"
definition zero_ar :: accepted_reply where
  "zero_ar = \<lparr>ar_Verf = zero_oa, ar_Reply_data = zero_rd\<rparr>"
definition zero_call :: call_body where
  "zero_call = \<lparr>Rpcvers = 0, Prog = 0, Vers = 0, Proc = 0, Cred = zero_oa, Verf = zero_oa\<rparr>"
definition zero_msg :: rpc_msg where
  "zero_msg = \<lparr>Xid = 0, Body = \<lparr>Mtype = 0, mb_u = MB_nil\<rparr>\<rparr>"

lemmas rpc_zeros = zero_oa_def zero_mm_def zero_rd_def zero_rj_def zero_rb_def zero_ar_def
  zero_call_def zero_msg_def

definition bad_access :: "string \<Rightarrow> u32 \<Rightarrow> go_panic + 'a" where
  "bad_access arm disc = Inl (XdrError (BadAccess arm disc))"

definition Cbody :: "msg_body \<Rightarrow> go_panic + call_body" where
  "Cbody b =
     (if Mtype b = CALL then Inr (case mb_u b of MB_cbody c \<Rightarrow> c | _ \<Rightarrow> zero_call)
      else bad_access ''Cbody'' (Mtype b))"

definition Rbody :: "msg_body \<Rightarrow> go_panic + reply_body" where
  "Rbody b =
     (if Mtype b = REPLY then Inr (case mb_u b of MB_rbody r \<Rightarrow> r | _ \<Rightarrow> zero_rb)
      else bad_access ''Rbody'' (Mtype b))"

definition Areply :: "reply_body \<Rightarrow> go_panic + accepted_reply" where
  "Areply r =
     (if rb_Stat r = MSG_ACCEPTED then Inr (case rb_u r of RB_areply a \<Rightarrow> a | _ \<Rightarrow> zero_ar)
      else bad_access ''Areply'' (rb_Stat r))"

definition Rreply :: "reply_body \<Rightarrow> go_panic + rejected_reply" where
  "Rreply r =
     (if rb_Stat r = MSG_DENIED then Inr (case rb_u r of RB_rreply x \<Rightarrow> x | _ \<Rightarrow> zero_rj)
      else bad_access ''Rreply'' (rb_Stat r))"

definition rd_Mismatch_info :: "reply_data \<Rightarrow> go_panic + mismatch" where
  "rd_Mismatch_info d =
     (if rd_Stat d = PROG_MISMATCH then Inr (case rd_u d of RD_mismatch m \<Rightarrow> m | _ \<Rightarrow> zero_mm)
      else bad_access ''Mismatch_info'' (rd_Stat d))"

definition rj_Mismatch_info :: "rejected_reply \<Rightarrow> go_panic + mismatch" where
  "rj_Mismatch_info r =
     (if rj_Stat r = RPC_MISMATCH then Inr (case rj_u r of RJ_mismatch m \<Rightarrow> m | _ \<Rightarrow> zero_mm)
      else bad_access ''Mismatch_info'' (rj_Stat r))"

definition with_Cbody :: "(call_body \<Rightarrow> call_body) \<Rightarrow> msg_body \<Rightarrow> go_panic + msg_body" where
  "with_Cbody f b = bindE (Cbody b) (\<lambda>c. Inr (b\<lparr>mb_u := MB_cbody (f c)\<rparr>))"

definition with_Rbody ::
  "(reply_body \<Rightarrow> go_panic + reply_body) \<Rightarrow> msg_body \<Rightarrow> go_panic + msg_body" where
  "with_Rbody f b = bindE (Rbody b) (\<lambda>r. bindE (f r) (\<lambda>r'. Inr (b\<lparr>mb_u := MB_rbody r'\<rparr>)))"

definition with_Areply ::
  "(accepted_reply \<Rightarrow> go_panic + accepted_reply) \<Rightarrow> reply_body \<Rightarrow> go_panic + reply_body" where
  "with_Areply f r = bindE (Areply r) (\<lambda>a. bindE (f a) (\<lambda>a'. Inr (r\<lparr>rb_u := RB_areply a'\<rparr>)))"

definition with_Rreply ::
  "(rejected_reply \<Rightarrow> go_panic + rejected_reply) \<Rightarrow> reply_body \<Rightarrow> go_panic + reply_body" where
  "with_Rreply f r = bindE (Rreply r) (\<lambda>a. bindE (f a) (\<lambda>a'. Inr (r\<lparr>rb_u := RB_rreply a'\<rparr>)))"

definition with_rd_mismatch ::
  "(mismatch \<Rightarrow> mismatch) \<Rightarrow> reply_data \<Rightarrow> go_panic + reply_data" where
  "with_rd_mismatch f d = bindE (rd_Mismatch_info d) (\<lambda>m. Inr (d\<lparr>rd_u := RD_mismatch (f m)\<rparr>))"

definition with_rj_mismatch ::
  "(mismatch \<Rightarrow> mismatch) \<Rightarrow> rejected_reply \<Rightarrow> go_panic + rejected_reply" where
  "with_rj_mismatch f r = bindE (rj_Mismatch_info r) (\<lambda>m. Inr (r\<lparr>rj_u := RJ_mismatch (f m)\<rparr>))"

section \<open>Operations on headers (rpc/util.go)\<close>

definition SetStat :: "rpc_msg \<Rightarrow> u32 \<Rightarrow> go_panic + rpc_msg" where
  "SetStat msg stat =
     bindE (with_Rbody
              (\<lambda>rb. with_Areply
                (\<lambda>ar. Inr (ar\<lparr>ar_Reply_data := (ar_Reply_data ar)\<lparr>rd_Stat := stat\<rparr>\<rparr>))
                (rb\<lparr>rb_Stat := MSG_ACCEPTED\<rparr>))
              ((Body msg)\<lparr>Mtype := REPLY\<rparr>))
       (\<lambda>b. Inr (msg\<lparr>Body := b\<rparr>))"

text \<open>
  IsSuccess of a non-nil message; the conjunction is evaluated left to right, so no
  accessor is called unless its discriminant selects it.
\<close>

definition IsSuccess :: "rpc_msg \<Rightarrow> go_panic + bool" where
  "IsSuccess m =
     (if Mtype (Body m) \<noteq> REPLY then Inr False
      else bindE (Rbody (Body m)) (\<lambda>rb.
        if rb_Stat rb \<noteq> MSG_ACCEPTED then Inr False
        else bindE (Areply rb) (\<lambda>ar. Inr (rd_Stat (ar_Reply_data ar) = SUCCESS))))"

text \<open>
  safeMarshal: the deferred function turns an XdrError panic into an error and panics again
  with every other value.
\<close>

definition safeMarshal :: "go_panic + 'a \<Rightarrow> go_panic + (xdr_error + 'a)" where
  "safeMarshal x =
     (case x of
        Inl p \<Rightarrow> (case p of XdrError e \<Rightarrow> Inr (Inl e) | _ \<Rightarrow> Inl p)
      | Inr y \<Rightarrow> Inr (Inr y))"

definition rpc_depth :: nat where "rpc_depth = 7"

definition marshal_msg :: "rpc_msg \<Rightarrow> go_panic + bytes" where
  "marshal_msg m = out_typ rpc_pkg rpc_depth (Ident ''Rpc_msg'') (val_of m)"

definition unmarshal_msg :: "rpc_msg \<Rightarrow> bytes \<Rightarrow> go_panic + (rpc_msg \<times> bytes)" where
  "unmarshal_msg old buf =
     bindE (in_typ rpc_pkg rpc_depth (Ident ''Rpc_msg'') (val_of old) buf) (\<lambda>(v, r).
       case msg_val v of None \<Rightarrow> Inl Stuck | Some m \<Rightarrow> Inr (m, r))"

definition GetMsg :: "bytes \<Rightarrow> go_panic + (xdr_error + (rpc_msg \<times> bytes))" where
  "GetMsg buf = safeMarshal (unmarshal_msg zero_msg buf)"

section \<open>Messages (rpc/msg.go)\<close>

definition msg_Xid :: "bytes \<Rightarrow> u32" where
  "msg_Xid bs =
     (if 4 \<le> length bs
      then push_bit 24 (ucast (bs ! 0)) OR push_bit 16 (ucast (bs ! 1)) OR
           push_bit 8 (ucast (bs ! 2)) OR ucast (bs ! 3)
      else 0)"

text \<open>Serialize of marshalable values, each given by its encoding, into the buffer.\<close>

fun Serialize :: "bytes \<Rightarrow> (go_panic + bytes) list \<Rightarrow> go_panic + bytes" where
  "Serialize buf [] = Inr buf"
| "Serialize buf (v # vs) = bindE v (\<lambda>b. Serialize (buf @ b) vs)"

section \<open>Lemmas on the header\<close>

lemma rpc_consts_distinct [simp]:
  "CALL \<noteq> REPLY" "REPLY \<noteq> CALL" "MSG_ACCEPTED \<noteq> MSG_DENIED" "MSG_DENIED \<noteq> MSG_ACCEPTED"
  by (simp_all add: rpc_consts)

lemma SetStat_eq:
  "SetStat msg stat = Inr (msg\<lparr>Body := \<lparr>Mtype = REPLY, mb_u = MB_rbody
     (let rb = (case mb_u (Body msg) of MB_rbody r \<Rightarrow> r | _ \<Rightarrow> zero_rb);
          ar = (case rb_u rb of RB_areply a \<Rightarrow> a | _ \<Rightarrow> zero_ar)
      in \<lparr>rb_Stat = MSG_ACCEPTED,
          rb_u = RB_areply (ar\<lparr>ar_Reply_data := (ar_Reply_data ar)\<lparr>rd_Stat := stat\<rparr>\<rparr>)\<rparr>)\<rparr>\<rparr>)"
  by (simp add: SetStat_def with_Rbody_def with_Areply_def Rbody_def Areply_def Let_def)

lemma IsSuccess_total: "\<exists>b. IsSuccess m = Inr b"
  by (auto simp: IsSuccess_def Rbody_def Areply_def)

lemma IsSuccess_SetStat: "SetStat msg stat = Inr m \<Longrightarrow> IsSuccess m = Inr (stat = SUCCESS)"
  by (auto simp: SetStat_eq IsSuccess_def Rbody_def Areply_def Let_def)

lemma Xid_SetStat: "SetStat msg stat = Inr m \<Longrightarrow> Xid m = Xid msg"
  by (auto simp: SetStat_eq)

lemma Serialize_append: "Serialize buf vs = bindE (Serialize [] vs) (\<lambda>b. Inr (buf @ b))"
proof (induction vs arbitrary: buf)
  case (Cons v vs)
  show ?case
  proof (cases v)
    case (Inr b)
    then show ?thesis using Cons.IH [of "buf @ b"] Cons.IH [of b] by (simp add: bindE_assoc)
  qed simp
qed simp

section \<open>Coding of headers\<close>

lemma rpc_scalar_ok: "scalar_ok rpc_pkg (Ident ''Rpc_msg'')"
  by (simp add: scalar_ok_def typ_ok_def)

interpretation msg_coder: coder "has_gty rpc_pkg (GNamed ''Rpc_msg'')"
  "out_typ rpc_pkg n (Ident ''Rpc_msg'')" "in_typ rpc_pkg n (Ident ''Rpc_msg'')"
  "abs_typ rpc_pkg n (Ident ''Rpc_msg'')" "conf_typ rpc_pkg n (Ident ''Rpc_msg'')"
  for n
  using coder_typ [OF wf_rpc_pkg rpc_scalar_ok, of n] by (simp add: coder_of_def)

lemma rpc_depth_enough: "depth_typ rpc_pkg rpc_depth (Ident ''Rpc_msg'')"
  by code_simp

definition abs_msg :: "rpc_msg \<Rightarrow> xval option" where
  "abs_msg m = abs_typ rpc_pkg rpc_depth (Ident ''Rpc_msg'') (val_of m)"

definition conf_msg :: "xval \<Rightarrow> bool" where
  "conf_msg = conf_typ rpc_pkg rpc_depth (Ident ''Rpc_msg'')"

lemma unmarshal_msg_Inr:
  "unmarshal_msg old buf = Inr (m, r) \<longleftrightarrow>
   in_typ rpc_pkg rpc_depth (Ident ''Rpc_msg'') (val_of old) buf = Inr (val_of m, r)"
proof
  assume "unmarshal_msg old buf = Inr (m, r)"
  then obtain v where v: "in_typ rpc_pkg rpc_depth (Ident ''Rpc_msg'') (val_of old) buf = Inr (v, r)"
      "msg_val v = Some m"
    by (auto simp: unmarshal_msg_def bindE_eq_Inr split: option.splits)
  have "has_gty rpc_pkg (GNamed ''Rpc_msg'') v"
    using msg_coder.dec_sound [OF _ v(1)] by (simp add: typed_msg) blast
  with v show "in_typ rpc_pkg rpc_depth (Ident ''Rpc_msg'') (val_of old) buf = Inr (val_of m, r)"
    by (auto simp: typed_msg)
qed (simp add: unmarshal_msg_def)

lemma unmarshal_msg_Inl:
  "unmarshal_msg old buf = Inl p \<longleftrightarrow>
   in_typ rpc_pkg rpc_depth (Ident ''Rpc_msg'') (val_of old) buf = Inl p"
proof -
  have "msg_val v \<noteq> None"
    if "in_typ rpc_pkg rpc_depth (Ident ''Rpc_msg'') (val_of old) buf = Inr (v, r)" for v r
  proof -
    have "has_gty rpc_pkg (GNamed ''Rpc_msg'') v"
      using msg_coder.dec_sound [OF _ that] by (simp add: typed_msg) blast
    then show ?thesis by (auto simp: typed_msg)
  qed
  then show ?thesis by (fastforce simp: unmarshal_msg_def bindE_eq_Inl split: option.splits)
qed

end
