(* ===== verification/RpcWire.thy ===== *)
theory RpcWire imports RpcMsg begin

text \<open>
  What a header means on the wire: \<open>x_msg\<close> is the XDR value of a header record,
  \<open>msg_fits\<close> the bounds and discriminants its encoding needs, and \<open>norm_msg\<close> forgets what
  is not on the wire (bodies of arms the discriminant does not select).
\<close>

section \<open>The XDR value of a header\<close>

definition x_oa :: "opaque_auth \<Rightarrow> xval" where
  "x_oa a = XStruct [X32 (oa_Flavor a), XVar (oa_Body a)]"

definition x_call :: "call_body \<Rightarrow> xval" where
  "x_call c = XStruct
     [X32 (Rpcvers c), X32 (Prog c), X32 (Vers c), X32 (Proc c), x_oa (Cred c), x_oa (Verf c)]"

definition x_mm :: "mismatch \<Rightarrow> xval" where
  "x_mm m = XStruct [X32 (Low m), X32 (High m)]"

definition rd_mm :: "reply_data \<Rightarrow> mismatch" where
  "rd_mm d = (case rd_u d of RD_mismatch m \<Rightarrow> m | _ \<Rightarrow> zero_mm)"

definition x_rd :: "reply_data \<Rightarrow> xval" where
  "x_rd d = XUnion (X32 (rd_Stat d))
     (if rd_Stat d = SUCCESS then Some (XFix [])
      else if rd_Stat d = PROG_MISMATCH then Some (x_mm (rd_mm d)) else None)"

definition x_ar :: "accepted_reply \<Rightarrow> xval" where
  "x_ar a = XStruct [x_oa (ar_Verf a), x_rd (ar_Reply_data a)]"

definition rj_mm :: "rejected_reply \<Rightarrow> mismatch" where
  "rj_mm r = (case rj_u r of RJ_mismatch m \<Rightarrow> m | _ \<Rightarrow> zero_mm)"

definition rj_why :: "rejected_reply \<Rightarrow> u32" where
  "rj_why r = (case rj_u r of RJ_why w \<Rightarrow> w | _ \<Rightarrow> 0)"

definition x_rj :: "rejected_reply \<Rightarrow> xval option" where
  "x_rj r =
     (if rj_Stat r = RPC_MISMATCH then Some (XUnion (X32 (rj_Stat r)) (Some (x_mm (rj_mm r))))
      else if rj_Stat r = AUTH_ERROR then Some (XUnion (X32 (rj_Stat r)) (Some (X32 (rj_why r))))
      else None)"

definition rb_ar :: "reply_body \<Rightarrow> accepted_reply" where
  "rb_ar r = (case rb_u r of RB_areply a \<Rightarrow> a | _ \<Rightarrow> zero_ar)"

definition rb_rj :: "reply_body \<Rightarrow> rejected_reply" where
  "rb_rj r = (case rb_u r of RB_rreply x \<Rightarrow> x | _ \<Rightarrow> zero_rj)"

definition x_rb :: "reply_body \<Rightarrow> xval option" where
  "x_rb r =
     (if rb_Stat r = MSG_ACCEPTED then Some (XUnion (X32 (rb_Stat r)) (Some (x_ar (rb_ar r))))
      else if rb_Stat r = MSG_DENIED
      then bindO (x_rj (rb_rj r)) (\<lambda>x. Some (XUnion (X32 (rb_Stat r)) (Some x)))
      else None)"

definition mb_call :: "msg_body \<Rightarrow> call_body" where
  "mb_call b = (case mb_u b of MB_cbody c \<Rightarrow> c | _ \<Rightarrow> zero_call)"

definition mb_rb :: "msg_body \<Rightarrow> reply_body" where
  "mb_rb b = (case mb_u b of MB_rbody r \<Rightarrow> r | _ \<Rightarrow> zero_rb)"

definition x_body :: "msg_body \<Rightarrow> xval option" where
  "x_body b =
     (if Mtype b = CALL then Some (XUnion (X32 (Mtype b)) (Some (x_call (mb_call b))))
      else if Mtype b = REPLY
      then bindO (x_rb (mb_rb b)) (\<lambda>x. Some (XUnion (X32 (Mtype b)) (Some x)))
      else None)"

definition x_msg :: "rpc_msg \<Rightarrow> xval option" where
  "x_msg m = bindO (x_body (Body m)) (\<lambda>b. Some (XStruct [X32 (Xid m), b]))"

lemmas x_defs = x_oa_def x_call_def x_mm_def x_rd_def x_ar_def x_rj_def x_rb_def x_body_def x_msg_def
lemmas body_defs = rd_mm_def rj_mm_def rj_why_def rb_ar_def rb_rj_def mb_call_def mb_rb_def

section \<open>It is the abstraction of the codec\<close>

lemma abs_scalar [simp]: "t \<noteq> Base String \<Longrightarrow> t \<noteq> Base Byte \<Longrightarrow> abs_decl rec (scalar_d i t) = rec t"
  by (simp add: abs_decl_def)

lemma abs_opaque [simp]:
  "abs_decl rec \<lparr>d_id = i, d_qual = VEC, d_bound = b, d_typ = Base Byte\<rparr> = abs_vecopaque"
  "abs_decl rec \<lparr>d_id = i, d_qual = ARRAY, d_bound = b, d_typ = Base Byte\<rparr> = abs_arropaque"
  by (simp_all add: abs_decl_def)

lemma abs_Uint32 [simp]: "abs_base Uint32 = abs_num32"
  by (simp add: abs_base_def)

lemma abs_enums [simp]:
  "abs_typ rpc_pkg (Suc n) (Ident ''Auth_flavor'') = abs_num32"
  "abs_typ rpc_pkg (Suc n) (Ident ''Msg_type'') = abs_num32"
  "abs_typ rpc_pkg (Suc n) (Ident ''Reply_stat'') = abs_num32"
  "abs_typ rpc_pkg (Suc n) (Ident ''Accept_stat'') = abs_num32"
  "abs_typ rpc_pkg (Suc n) (Ident ''Reject_stat'') = abs_num32"
  "abs_typ rpc_pkg (Suc n) (Ident ''Auth_stat'') = abs_num32"
  by (simp_all add: rpc_sym_defs abs_sym_def)

lemma abs_oa: "abs_typ rpc_pkg (Suc (Suc n)) (Ident ''Opaque_auth'') (val_oa a) = Some (x_oa a)"
  by (subst abs_typ.simps)
    (simp add: sym_opaque_auth_def abs_sym_def val_oa_def x_oa_def del: abs_typ.simps(3))

lemma abs_call: "abs_typ rpc_pkg (Suc (Suc (Suc n))) (Ident ''Call_body'') (val_call c) = Some (x_call c)"
  by (subst abs_typ.simps)
    (simp add: sym_call_body_def abs_sym_def val_call_def x_call_def abs_oa del: abs_typ.simps(3))

lemma abs_mm:
  "abs_typ rpc_pkg (Suc (Suc n)) (Ident ''XdrAnon_Accepted_reply_Reply_data_Mismatch_info'')
     (val_mm m) = Some (x_mm m)"
  "abs_typ rpc_pkg (Suc (Suc n)) (Ident ''XdrAnon_Rejected_reply_Mismatch_info'') (val_mm m) =
     Some (x_mm m)"
  by (simp_all add: sym_mismatch_info_def abs_sym_def val_mm_def x_mm_def)

lemma rpc_zero_mm:
  "zero rpc_pkg (GNamed ''XdrAnon_Accepted_reply_Reply_data_Mismatch_info'') = val_mm zero_mm"
  "zero rpc_pkg (GNamed ''XdrAnon_Rejected_reply_Mismatch_info'') = val_mm zero_mm"
  by code_simp+

lemma rpc_zero_others:
  "zero rpc_pkg (GNamed ''Auth_stat'') = VNum32 0"
  "zero rpc_pkg (GNamed ''Accepted_reply'') = val_ar zero_ar"
  "zero rpc_pkg (GNamed ''Rejected_reply'') = val_rj zero_rj"
  "zero rpc_pkg (GNamed ''Call_body'') = val_call zero_call"
  "zero rpc_pkg (GNamed ''Reply_body'') = val_rb zero_rb"
  "zero rpc_pkg (GNamed ''Rpc_msg'') = val_of zero_msg"
  by code_simp+

lemma abs_rd:
  "abs_typ rpc_pkg (Suc (Suc (Suc n))) (Ident ''XdrAnon_Accepted_reply_Reply_data'') (val_rd d) =
   Some (x_rd d)"
  by (subst abs_typ.simps)
    (auto simp: sym_reply_data_def abs_sym_def val_rd_def x_rd_def select_arm_def isVoid_def
      arm_body_def rd_mm_def rpc_zero_mm abs_mm rpc_consts simp del: abs_typ.simps(3)
      split: reply_data_u.splits)

lemma abs_ar:
  "abs_typ rpc_pkg (Suc (Suc (Suc (Suc n)))) (Ident ''Accepted_reply'') (val_ar a) = Some (x_ar a)"
  by (subst abs_typ.simps)
    (simp add: sym_accepted_reply_def abs_sym_def val_ar_def x_ar_def abs_oa abs_rd
      del: abs_typ.simps(3))

lemma abs_rj:
  "abs_typ rpc_pkg (Suc (Suc (Suc n))) (Ident ''Rejected_reply'') (val_rj r) = x_rj r"
  by (subst abs_typ.simps)
    (auto simp: sym_rejected_reply_def abs_sym_def val_rj_def x_rj_def select_arm_def isVoid_def
      arm_body_def rj_mm_def rj_why_def rpc_zero_mm rpc_zero_others abs_mm rpc_consts
      simp del: abs_typ.simps(3) split: rejected_u.splits)

lemma abs_rb:
  "abs_typ rpc_pkg (Suc (Suc (Suc (Suc (Suc n))))) (Ident ''Reply_body'') (val_rb r) = x_rb r"
  by (subst abs_typ.simps)
    (auto simp: sym_reply_body_def abs_sym_def val_rb_def x_rb_def select_arm_def isVoid_def
      arm_body_def rb_ar_def rb_rj_def rpc_zero_others abs_ar abs_rj rpc_consts
      simp del: abs_typ.simps(3) split: reply_body_u.splits)

lemma abs_body:
  "abs_typ rpc_pkg (Suc (Suc (Suc (Suc (Suc (Suc n)))))) (Ident ''XdrAnon_Rpc_msg_Body'')
     (val_body b) = x_body b"
  by (subst abs_typ.simps)
    (auto simp: sym_msg_body_def abs_sym_def val_body_def x_body_def select_arm_def isVoid_def
      arm_body_def mb_call_def mb_rb_def rpc_zero_others abs_call abs_rb rpc_consts
      simp del: abs_typ.simps(3) split: msg_body_u.splits)

lemma abs_msg_x: "abs_msg m = x_msg m"
proof -
  have seven: "rpc_depth = Suc (Suc (Suc (Suc (Suc (Suc (Suc 0))))))" by (simp add: rpc_depth_def)
  show ?thesis
    unfolding abs_msg_def seven
    by (subst abs_typ.simps)
      (cases "x_body (Body m)"; simp add: sym_rpc_msg_def abs_sym_def val_of_def x_msg_def abs_body
        del: abs_typ.simps(3))
qed

section \<open>Bounds and normal forms\<close>

definition oa_fits :: "opaque_auth \<Rightarrow> bool" where
  "oa_fits a \<longleftrightarrow> length (oa_Body a) \<le> 400"

definition call_fits :: "call_body \<Rightarrow> bool" where
  "call_fits c \<longleftrightarrow> oa_fits (Cred c) \<and> oa_fits (Verf c)"

definition rb_fits :: "reply_body \<Rightarrow> bool" where
  "rb_fits r \<longleftrightarrow>
     (if rb_Stat r = MSG_ACCEPTED then oa_fits (ar_Verf (rb_ar r))
      else rb_Stat r = MSG_DENIED \<and> rj_Stat (rb_rj r) \<in> {RPC_MISMATCH, AUTH_ERROR})"

text \<open>Discriminants that select an arm, and authenticators within the bound of opaque_auth.\<close>

definition msg_fits :: "rpc_msg \<Rightarrow> bool" where
  "msg_fits m \<longleftrightarrow>
     (if Mtype (Body m) = CALL then call_fits (mb_call (Body m))
      else Mtype (Body m) = REPLY \<and> rb_fits (mb_rb (Body m)))"

definition norm_rd :: "reply_data \<Rightarrow> reply_data" where
  "norm_rd d = d\<lparr>rd_u :=
     (if rd_Stat d = SUCCESS then RD_results
      else if rd_Stat d = PROG_MISMATCH then RD_mismatch (rd_mm d) else RD_nil)\<rparr>"

definition norm_ar :: "accepted_reply \<Rightarrow> accepted_reply" where
  "norm_ar a = a\<lparr>ar_Reply_data := norm_rd (ar_Reply_data a)\<rparr>"

definition norm_rj :: "rejected_reply \<Rightarrow> rejected_reply" where
  "norm_rj r = r\<lparr>rj_u :=
     (if rj_Stat r = RPC_MISMATCH then RJ_mismatch (rj_mm r)
      else if rj_Stat r = AUTH_ERROR then RJ_why (rj_why r) else RJ_nil)\<rparr>"

definition norm_rb :: "reply_body \<Rightarrow> reply_body" where
  "norm_rb r = r\<lparr>rb_u :=
     (if rb_Stat r = MSG_ACCEPTED then RB_areply (norm_ar (rb_ar r))
      else if rb_Stat r = MSG_DENIED then RB_rreply (norm_rj (rb_rj r)) else RB_nil)\<rparr>"

definition norm_body :: "msg_body \<Rightarrow> msg_body" where
  "norm_body b = b\<lparr>mb_u :=
     (if Mtype b = CALL then MB_cbody (mb_call b)
      else if Mtype b = REPLY then MB_rbody (norm_rb (mb_rb b)) else MB_nil)\<rparr>"

definition norm_msg :: "rpc_msg \<Rightarrow> rpc_msg" where
  "norm_msg m = m\<lparr>Body := norm_body (Body m)\<rparr>"

lemmas norm_defs = norm_rd_def norm_ar_def norm_rj_def norm_rb_def norm_body_def norm_msg_def
lemmas fits_defs = oa_fits_def call_fits_def rb_fits_def msg_fits_def

text \<open>The wire value determines the normal form.\<close>

lemma x_oa_inj [simp]: "x_oa a = x_oa b \<longleftrightarrow> a = b"
  by (auto simp: x_oa_def)

lemma x_mm_inj [simp]: "x_mm a = x_mm b \<longleftrightarrow> a = b"
  by (auto simp: x_mm_def)

lemma x_call_inj [simp]: "x_call a = x_call b \<longleftrightarrow> a = b"
  by (auto simp: x_call_def)

lemma x_rd_inj: "x_rd a = x_rd b \<Longrightarrow> norm_rd a = norm_rd b"
  by (cases a; cases b) (auto simp: x_rd_def norm_rd_def split: if_splits)

lemma x_ar_inj: "x_ar a = x_ar b \<Longrightarrow> norm_ar a = norm_ar b"
  by (cases a; cases b) (auto simp: x_ar_def norm_ar_def dest: x_rd_inj)

lemma x_rj_inj: "x_rj a = Some x \<Longrightarrow> x_rj b = Some x \<Longrightarrow> norm_rj a = norm_rj b"
  by (cases a; cases b) (auto simp: x_rj_def norm_rj_def rpc_consts split: if_splits)

lemma x_rb_inj: "x_rb a = Some x \<Longrightarrow> x_rb b = Some x \<Longrightarrow> norm_rb a = norm_rb b"
  by (cases a; cases b)
    (auto simp: x_rb_def norm_rb_def bindO_eq_Some split: if_splits dest: x_ar_inj x_rj_inj)

lemma x_body_inj: "x_body a = Some x \<Longrightarrow> x_body b = Some x \<Longrightarrow> norm_body a = norm_body b"
  by (cases a; cases b)
    (auto simp: x_body_def norm_body_def bindO_eq_Some split: if_splits dest: x_rb_inj)

lemma x_msg_inj: "x_msg a = Some x \<Longrightarrow> x_msg b = Some x \<Longrightarrow> norm_msg a = norm_msg b"
  by (cases a; cases b) (auto simp: x_msg_def norm_msg_def bindO_eq_Some dest: x_body_inj)

section \<open>Conformance\<close>

lemma conf_scalar [simp]: "t \<noteq> Base String \<Longrightarrow> t \<noteq> Base Byte \<Longrightarrow> conf_decl rec (scalar_d i t) = rec t"
  by (simp add: conf_decl_def)

lemma conf_opaque [simp]:
  "conf_decl rec \<lparr>d_id = i, d_qual = VEC, d_bound = b, d_typ = Base Byte\<rparr> = conf_var b"
  "conf_decl rec \<lparr>d_id = i, d_qual = ARRAY, d_bound = b, d_typ = Base Byte\<rparr> = conf_fix (unat b)"
  by (simp_all add: conf_decl_def)

lemma conf_enums [simp]:
  "conf_typ rpc_pkg (Suc n) (Ident ''Auth_flavor'') = conf_num32"
  "conf_typ rpc_pkg (Suc n) (Ident ''Msg_type'') = conf_num32"
  "conf_typ rpc_pkg (Suc n) (Ident ''Reply_stat'') = conf_num32"
  "conf_typ rpc_pkg (Suc n) (Ident ''Accept_stat'') = conf_num32"
  "conf_typ rpc_pkg (Suc n) (Ident ''Reject_stat'') = conf_num32"
  "conf_typ rpc_pkg (Suc n) (Ident ''Auth_stat'') = conf_num32"
  by (simp_all add: rpc_sym_defs conf_sym_def)

lemma conf_oa: "conf_typ rpc_pkg (Suc (Suc n)) (Ident ''Opaque_auth'') (x_oa a) = oa_fits a"
  by (subst conf_typ.simps)
    (simp add: sym_opaque_auth_def conf_sym_def x_oa_def oa_fits_def del: conf_typ.simps(3))

lemma conf_call:
  "conf_typ rpc_pkg (Suc (Suc (Suc n))) (Ident ''Call_body'') (x_call c) = call_fits c"
  by (subst conf_typ.simps)
    (simp add: sym_call_body_def conf_sym_def x_call_def conf_oa call_fits_def
      del: conf_typ.simps(3))

lemma conf_mm:
  "conf_typ rpc_pkg (Suc (Suc n)) (Ident ''XdrAnon_Accepted_reply_Reply_data_Mismatch_info'') (x_mm m)"
  "conf_typ rpc_pkg (Suc (Suc n)) (Ident ''XdrAnon_Rejected_reply_Mismatch_info'') (x_mm m)"
  by (simp_all add: sym_mismatch_info_def conf_sym_def x_mm_def)

lemma conf_rd:
  "conf_typ rpc_pkg (Suc (Suc (Suc n))) (Ident ''XdrAnon_Accepted_reply_Reply_data'') (x_rd d)"
  by (subst conf_typ.simps)
    (auto simp: sym_reply_data_def conf_sym_def x_rd_def select_arm_def isVoid_def conf_mm
      rpc_consts simp del: conf_typ.simps(3))

lemma conf_ar:
  "conf_typ rpc_pkg (Suc (Suc (Suc (Suc n)))) (Ident ''Accepted_reply'') (x_ar a) =
   oa_fits (ar_Verf a)"
  by (subst conf_typ.simps)
    (simp add: sym_accepted_reply_def conf_sym_def x_ar_def conf_oa conf_rd del: conf_typ.simps(3))

lemma conf_rj:
  "x_rj r = Some x \<Longrightarrow> conf_typ rpc_pkg (Suc (Suc (Suc n))) (Ident ''Rejected_reply'') x"
  by (subst conf_typ.simps)
    (auto simp: sym_rejected_reply_def conf_sym_def x_rj_def select_arm_def isVoid_def conf_mm
      rpc_consts simp del: conf_typ.simps(3) split: if_splits)

lemma x_rj_stat: "x_rj r = Some x \<Longrightarrow> rj_Stat r = RPC_MISMATCH \<or> rj_Stat r = AUTH_ERROR"
  by (auto simp: x_rj_def split: if_splits)

lemma conf_rb:
  "x_rb r = Some x \<Longrightarrow>
   conf_typ rpc_pkg (Suc (Suc (Suc (Suc (Suc n))))) (Ident ''Reply_body'') x = rb_fits r"
  by (subst conf_typ.simps)
    (auto simp: sym_reply_body_def conf_sym_def x_rb_def select_arm_def isVoid_def conf_ar conf_rj
      rb_fits_def rpc_consts bindO_eq_Some simp del: conf_typ.simps(3) split: if_splits
      dest: x_rj_stat [unfolded rpc_consts])

lemma conf_body:
  "x_body b = Some x \<Longrightarrow>
   conf_typ rpc_pkg (Suc (Suc (Suc (Suc (Suc (Suc n)))))) (Ident ''XdrAnon_Rpc_msg_Body'') x =
   (if Mtype b = CALL then call_fits (mb_call b) else rb_fits (mb_rb b))"
  by (subst conf_typ.simps)
    (auto simp: sym_msg_body_def conf_sym_def x_body_def select_arm_def isVoid_def conf_call conf_rb
      rpc_consts bindO_eq_Some simp del: conf_typ.simps(3) split: if_splits)

lemma conf_msg_fits: "x_msg m = Some a \<Longrightarrow> conf_msg a = msg_fits m"
proof -
  assume x: "x_msg m = Some a"
  have seven: "rpc_depth = Suc (Suc (Suc (Suc (Suc (Suc (Suc 0))))))" by (simp add: rpc_depth_def)
  from x obtain b where b: "x_body (Body m) = Some b" "a = XStruct [X32 (Xid m), b]"
    by (auto simp: x_msg_def bindO_eq_Some)
  have "Mtype (Body m) = CALL \<or> Mtype (Body m) = REPLY"
    using b(1) by (auto simp: x_body_def split: if_splits)
  then show ?thesis
    unfolding conf_msg_def seven
    by (subst conf_typ.simps)
      (auto simp: sym_rpc_msg_def conf_sym_def b(2) conf_body [OF b(1)] msg_fits_def
        simp del: conf_typ.simps(3))
qed

lemma msg_fits_x: "msg_fits m \<Longrightarrow> \<exists>a. x_msg m = Some a \<and> conf_msg a"
proof -
  assume f: "msg_fits m"
  then have "\<exists>a. x_msg m = Some a"
    by (auto simp: msg_fits_def rb_fits_def x_msg_def x_body_def x_rb_def x_rj_def split: if_splits)
  with f conf_msg_fits show ?thesis by blast
qed

section \<open>GetMsg and Serialize\<close>

lemma safeMarshal_simps [simp]:
  "safeMarshal (Inr y) = Inr (Inr y)"
  "safeMarshal (Inl (XdrError e)) = Inr (Inl e)"
  by (simp_all add: safeMarshal_def)

lemma safeMarshal_eq:
  "safeMarshal x = Inl p \<longleftrightarrow> x = Inl p \<and> (\<forall>e. p \<noteq> XdrError e)"
  "safeMarshal x = Inr (Inl e) \<longleftrightarrow> x = Inl (XdrError e)"
  "safeMarshal x = Inr (Inr y) \<longleftrightarrow> x = Inr y"
  by (auto simp: safeMarshal_def split: sum.splits go_panic.splits)

lemma unmarshal_marshal:
  assumes "msg_fits m"
  shows "\<exists>b m'. marshal_msg m = Inr b \<and> unmarshal_msg old (b @ r) = Inr (m', r) \<and>
    norm_msg m' = norm_msg m"
proof -
  from msg_fits_x [OF assms] obtain a where a: "x_msg m = Some a" "conf_msg a" by blast
  have "has_gty rpc_pkg (GNamed ''Rpc_msg'') (val_of old)" by (auto simp: typed_msg)
  from msg_coder.round_trip [OF this, of rpc_depth "val_of m" a r] a
  obtain b v' where b: "out_typ rpc_pkg rpc_depth (Ident ''Rpc_msg'') (val_of m) = Inr b"
      "in_typ rpc_pkg rpc_depth (Ident ''Rpc_msg'') (val_of old) (b @ r) = Inr (v', r)"
      "has_gty rpc_pkg (GNamed ''Rpc_msg'') v'"
      "abs_typ rpc_pkg rpc_depth (Ident ''Rpc_msg'') v' = abs_msg m"
    by (auto simp: abs_msg_x [symmetric] abs_msg_def conf_msg_def)
  from b(3) obtain m' where m': "v' = val_of m'" by (auto simp: typed_msg)
  with b a have "x_msg m' = Some a" by (simp add: abs_msg_x [symmetric] abs_msg_def)
  from x_msg_inj [OF this a(1)] b m' show ?thesis
    by (auto simp: marshal_msg_def unmarshal_msg_Inr)
qed

lemma unmarshal_msg_panics:
  "unmarshal_msg old buf \<noteq> Inl Stuck" "unmarshal_msg old buf \<noteq> Inl StackOverflow"
proof -
  have "has_gty rpc_pkg (GNamed ''Rpc_msg'') (val_of old)" by (auto simp: typed_msg)
  from msg_coder.dec_safe [OF this] show "unmarshal_msg old buf \<noteq> Inl Stuck"
    by (simp add: unmarshal_msg_Inl)
  from depth_typ_flat [OF rpc_depth_enough] show "unmarshal_msg old buf \<noteq> Inl StackOverflow"
    by (simp add: unmarshal_msg_Inl flat_dec_def)
qed

lemma unmarshal_msg_canonical:
  assumes "unmarshal_msg old buf = Inr (m, r)"
  shows "\<exists>b. marshal_msg m = Inr b \<and> buf = b @ r \<and> msg_fits m"
proof -
  have ty: "has_gty rpc_pkg (GNamed ''Rpc_msg'') (val_of old)" by (auto simp: typed_msg)
  note d = assms [unfolded unmarshal_msg_Inr]
  from msg_coder.dec_soundE [OF ty d] obtain a where a:
      "conf_typ rpc_pkg rpc_depth (Ident ''Rpc_msg'') a"
      "abs_typ rpc_pkg rpc_depth (Ident ''Rpc_msg'') (val_of m) = Some a"
    by blast
  then have "msg_fits m" using conf_msg_fits [of m a] by (simp add: abs_msg_x [symmetric] abs_msg_def conf_msg_def)
  with msg_coder.canonical [OF ty d] show ?thesis by (auto simp: marshal_msg_def)
qed

end
