(* ===== verification/RpcServer.thy ===== *)
theory RpcServer imports RpcWire begin

text \<open>
  The server side of rpc/util.go: the table of registered program versions (RpcSrv,
  Register) and the dispatch of a call (GetProc), every branch of which formats the reply
  header. The interfaces XdrSrv and XdrSrvProc of the runtime are records of functions,
  since their implementations are generated per program or written by the user. Go's
  iteration order over a map is a parameter of the loop that ranges over one.
\<close>

section \<open>Services\<close>

text \<open>
  A procedure of a service as the dispatcher uses it: unmarshaling into GetArg(), Do() and
  marshaling of GetRes().
\<close>

record srv_proc =
  sp_in :: "bytes \<Rightarrow> go_panic + (val \<times> bytes)"
  sp_Do :: "val \<Rightarrow> go_panic + val"
  sp_out :: "val \<Rightarrow> go_panic + bytes"

record xdr_srv =
  sv_Prog :: u32
  sv_Vers :: u32
  sv_GetProc :: "u32 \<Rightarrow> srv_proc option"

type_synonym srv_prog = "u32 \<rightharpoonup> xdr_srv"
type_synonym rpc_srv = "u32 \<rightharpoonup> srv_prog"

definition Register :: "xdr_srv \<Rightarrow> rpc_srv \<Rightarrow> rpc_srv" where
  "Register srv s =
     (let prog = (case s (sv_Prog srv) of None \<Rightarrow> Map.empty | Some p \<Rightarrow> p)
      in s(sv_Prog srv \<mapsto> prog(sv_Vers srv \<mapsto> srv)))"

section \<open>Dispatch\<close>

text \<open>The loop over the registered versions, in the iteration order of the map.\<close>

definition ver_step :: "u32 \<Rightarrow> mismatch \<Rightarrow> mismatch" where
  "ver_step i mmi =
     (let m1 = (if i < Low mmi then mmi\<lparr>Low := i\<rparr> else mmi)
      in if i > High m1 then m1\<lparr>High := i\<rparr> else m1)"

definition with_reply_mismatch :: "(mismatch \<Rightarrow> mismatch) \<Rightarrow> rpc_msg \<Rightarrow> go_panic + rpc_msg" where
  "with_reply_mismatch f msg =
     bindE (with_Rbody
              (with_Areply (\<lambda>ar. bindE (with_rd_mismatch f (ar_Reply_data ar)) (\<lambda>d.
                 Inr (ar\<lparr>ar_Reply_data := d\<rparr>))))
              (Body msg))
       (\<lambda>b. Inr (msg\<lparr>Body := b\<rparr>))"

definition deny_version :: "rpc_msg \<Rightarrow> go_panic + rpc_msg" where
  "deny_version msg =
     bindE (with_Rbody
              (\<lambda>rb. with_Rreply
                 (\<lambda>rr. with_rj_mismatch (\<lambda>m. m\<lparr>Low := 2, High := 2\<rparr>) (rr\<lparr>rj_Stat := RPC_MISMATCH\<rparr>))
                 (rb\<lparr>rb_Stat := MSG_DENIED\<rparr>))
              ((Body msg)\<lparr>Mtype := REPLY\<rparr>))
       (\<lambda>b. Inr (msg\<lparr>Body := b\<rparr>))"

definition GetProc ::
  "(srv_prog \<Rightarrow> u32 list) \<Rightarrow> rpc_srv \<Rightarrow> rpc_msg \<Rightarrow> bytes option \<Rightarrow>
   go_panic + (rpc_msg option \<times> (srv_proc \<times> val option) option)" where
  "GetProc ord s cmsg inp =
     (if Mtype (Body cmsg) \<noteq> CALL then Inr (None, None)
      else
        let rmsg = zero_msg\<lparr>Xid := Xid cmsg\<rparr>;
            stat = (\<lambda>st. bindE (SetStat rmsg st) (\<lambda>m. Inr (Some m, None)))
        in bindE (Cbody (Body cmsg)) (\<lambda>cb.
          if Rpcvers cb \<noteq> 2 then bindE (deny_version rmsg) (\<lambda>m. Inr (Some m, None))
          else case s (Prog cb) of
            None \<Rightarrow> stat PROG_UNAVAIL
          | Some prog \<Rightarrow>
            (case prog (Vers cb) of
               None \<Rightarrow>
                 bindE (SetStat rmsg PROG_MISMATCH) (\<lambda>m.
                 bindE (with_reply_mismatch (\<lambda>mmi. fold ver_step (ord prog) (mmi\<lparr>Low := 0xffffffff\<rparr>)) m)
                   (\<lambda>m'. Inr (Some m', None)))
             | Some vers \<Rightarrow>
               (case sv_GetProc vers (Proc cb) of
                  None \<Rightarrow> stat PROC_UNAVAIL
                | Some proc \<Rightarrow>
                  (case inp of
                     None \<Rightarrow> bindE (SetStat rmsg SUCCESS) (\<lambda>m. Inr (Some m, Some (proc, None)))
                   | Some buf \<Rightarrow>
                     bindE (safeMarshal (sp_in proc buf)) (\<lambda>r.
                       case r of
                         Inl e \<Rightarrow> stat GARBAGE_ARGS
                       | Inr (arg, rest) \<Rightarrow>
                           bindE (SetStat rmsg SUCCESS) (\<lambda>m. Inr (Some m, Some (proc, Some arg)))))))))"

section \<open>Replies as values\<close>

definition accepted_msg :: "u32 \<Rightarrow> u32 \<Rightarrow> reply_data_u \<Rightarrow> rpc_msg" where
  "accepted_msg x st u =
     \<lparr>Xid = x, Body = \<lparr>Mtype = REPLY, mb_u = MB_rbody
       \<lparr>rb_Stat = MSG_ACCEPTED, rb_u = RB_areply
         \<lparr>ar_Verf = zero_oa, ar_Reply_data = \<lparr>rd_Stat = st, rd_u = u\<rparr>\<rparr>\<rparr>\<rparr>\<rparr>"

definition denied_msg :: "u32 \<Rightarrow> rpc_msg" where
  "denied_msg x =
     \<lparr>Xid = x, Body = \<lparr>Mtype = REPLY, mb_u = MB_rbody
       \<lparr>rb_Stat = MSG_DENIED, rb_u = RB_rreply
         \<lparr>rj_Stat = RPC_MISMATCH, rj_u = RJ_mismatch \<lparr>Low = 2, High = 2\<rparr>\<rparr>\<rparr>\<rparr>\<rparr>"

lemma SetStat_zero: "SetStat (zero_msg\<lparr>Xid := x\<rparr>) st = Inr (accepted_msg x st RD_nil)"
  by (simp add: SetStat_eq accepted_msg_def rpc_zeros)

lemma deny_zero: "deny_version (zero_msg\<lparr>Xid := x\<rparr>) = Inr (denied_msg x)"
  by (simp add: deny_version_def with_Rbody_def with_Rreply_def with_rj_mismatch_def Rbody_def
      Rreply_def rj_Mismatch_info_def denied_msg_def rpc_zeros)

lemma with_reply_mismatch_accepted:
  "with_reply_mismatch f (accepted_msg x PROG_MISMATCH RD_nil) =
   Inr (accepted_msg x PROG_MISMATCH (RD_mismatch (f zero_mm)))"
  by (simp add: with_reply_mismatch_def with_Rbody_def with_Areply_def with_rd_mismatch_def
      Rbody_def Areply_def rd_Mismatch_info_def accepted_msg_def)

lemma Cbody_call: "Mtype b = CALL \<Longrightarrow> Cbody b = Inr (mb_call b)"
  by (simp add: Cbody_def mb_call_def)

text \<open>The range the loop computes, whatever the order.\<close>

lemma ver_step_simps [simp]:
  "Low (ver_step i m) = min i (Low m)" "High (ver_step i m) = max i (High m)"
  by (auto simp: ver_step_def Let_def min_def max_def)

lemma fold_ver_step:
  "Low (fold ver_step is m) = fold min is (Low m)" "High (fold ver_step is m) = fold max is (High m)"
  by (induction "is" arbitrary: m) auto

lemma Low_versions:
  assumes "set is = V" "V \<noteq> {}"
  shows "Low (fold ver_step is (m\<lparr>Low := 0xffffffff\<rparr>)) = Min V"
proof -
  have top: "(x :: u32) \<le> 0xffffffff" for x
  proof -
    have "unat x < 4294967296" by (rule unat_lt_num32)
    then have "unat x \<le> 4294967295" by linarith
    then show ?thesis by (simp add: word_le_nat_alt)
  qed
  have "fold min is (0xffffffff :: u32) = Min (insert 0xffffffff (set is))"
    using Min.set_eq_fold [of "0xffffffff :: u32" "is"] by simp
  also have "\<dots> = Min V"
    using assms top by (subst Min_insert) (auto simp: min_def intro: antisym)
  finally show ?thesis by (simp add: fold_ver_step)
qed

lemma High_versions:
  assumes "set is = V" "V \<noteq> {}" "High m = 0"
  shows "High (fold ver_step is (m\<lparr>Low := w\<rparr>)) = Max V"
proof -
  have "fold max is (0 :: u32) = Max (insert 0 (set is))"
    using Max.set_eq_fold [of 0 "is"] by simp
  also have "\<dots> = Max V"
    using assms by (subst Max_insert) (auto simp: max_def)
  finally show ?thesis using assms(3) by (simp add: fold_ver_step)
qed

section \<open>The table\<close>

text \<open>What Register maintains: a service is found under its own program and version.\<close>

definition srv_ok :: "rpc_srv \<Rightarrow> bool" where
  "srv_ok s \<longleftrightarrow> finite (dom s) \<and>
     (\<forall>p prog. s p = Some prog \<longrightarrow> finite (dom prog) \<and> prog \<noteq> Map.empty \<and>
        (\<forall>v srv. prog v = Some srv \<longrightarrow> sv_Prog srv = p \<and> sv_Vers srv = v))"

lemma srv_ok_empty: "srv_ok Map.empty"
  by (simp add: srv_ok_def)

lemma srv_ok_Register: "srv_ok s \<Longrightarrow> srv_ok (Register srv s)"
  by (auto simp: srv_ok_def Register_def Let_def split: option.splits if_splits)

definition srv_lookup :: "rpc_srv \<Rightarrow> u32 \<Rightarrow> u32 \<Rightarrow> xdr_srv option" where
  "srv_lookup s p v = bindO (s p) (\<lambda>prog. prog v)"

lemma srv_lookup_Register:
  "srv_lookup (Register srv s) p v =
   (if p = sv_Prog srv \<and> v = sv_Vers srv then Some srv else srv_lookup s p v)"
  by (auto simp: srv_lookup_def Register_def Let_def split: option.splits)

section \<open>GetProc, branch by branch\<close>

lemmas GetProc_eval = GetProc_def Let_def Cbody_call SetStat_zero deny_zero
  with_reply_mismatch_accepted

lemma GetProc_not_call: "Mtype (Body m) \<noteq> CALL \<Longrightarrow> GetProc ord s m inp = Inr (None, None)"
  by (simp add: GetProc_def)

lemma GetProc_rpcvers:
  "Mtype (Body m) = CALL \<Longrightarrow> Rpcvers (mb_call (Body m)) \<noteq> 2 \<Longrightarrow>
   GetProc ord s m inp = Inr (Some (denied_msg (Xid m)), None)"
  by (simp add: GetProc_eval)

lemma GetProc_prog:
  "Mtype (Body m) = CALL \<Longrightarrow> Rpcvers (mb_call (Body m)) = 2 \<Longrightarrow>
   s (Prog (mb_call (Body m))) = None \<Longrightarrow>
   GetProc ord s m inp = Inr (Some (accepted_msg (Xid m) PROG_UNAVAIL RD_nil), None)"
  by (simp add: GetProc_eval)

lemma GetProc_vers:
  "Mtype (Body m) = CALL \<Longrightarrow> Rpcvers (mb_call (Body m)) = 2 \<Longrightarrow>
   s (Prog (mb_call (Body m))) = Some prog \<Longrightarrow> prog (Vers (mb_call (Body m))) = None \<Longrightarrow>
   GetProc ord s m inp = Inr (Some (accepted_msg (Xid m) PROG_MISMATCH
     (RD_mismatch (fold ver_step (ord prog) (zero_mm\<lparr>Low := 0xffffffff\<rparr>)))), None)"
  by (simp add: GetProc_eval)

lemma GetProc_proc:
  "Mtype (Body m) = CALL \<Longrightarrow> Rpcvers (mb_call (Body m)) = 2 \<Longrightarrow>
   s (Prog (mb_call (Body m))) = Some prog \<Longrightarrow> prog (Vers (mb_call (Body m))) = Some srv \<Longrightarrow>
   sv_GetProc srv (Proc (mb_call (Body m))) = None \<Longrightarrow>
   GetProc ord s m inp = Inr (Some (accepted_msg (Xid m) PROC_UNAVAIL RD_nil), None)"
  by (simp add: GetProc_eval)

lemma GetProc_found:
  "Mtype (Body m) = CALL \<Longrightarrow> Rpcvers (mb_call (Body m)) = 2 \<Longrightarrow>
   s (Prog (mb_call (Body m))) = Some prog \<Longrightarrow> prog (Vers (mb_call (Body m))) = Some srv \<Longrightarrow>
   sv_GetProc srv (Proc (mb_call (Body m))) = Some proc \<Longrightarrow>
   GetProc ord s m (Some buf) =
     (case sp_in proc buf of
        Inl (XdrError e) \<Rightarrow> Inr (Some (accepted_msg (Xid m) GARBAGE_ARGS RD_nil), None)
      | Inl p \<Rightarrow> Inl p
      | Inr (arg, rest) \<Rightarrow>
          Inr (Some (accepted_msg (Xid m) SUCCESS RD_nil), Some (proc, Some arg)))"
  by (auto simp: GetProc_eval safeMarshal_def split: sum.splits go_panic.splits)

lemma GetProc_found_nil:
  "Mtype (Body m) = CALL \<Longrightarrow> Rpcvers (mb_call (Body m)) = 2 \<Longrightarrow>
   s (Prog (mb_call (Body m))) = Some prog \<Longrightarrow> prog (Vers (mb_call (Body m))) = Some srv \<Longrightarrow>
   sv_GetProc srv (Proc (mb_call (Body m))) = Some proc \<Longrightarrow>
   GetProc ord s m None =
     Inr (Some (accepted_msg (Xid m) SUCCESS RD_nil), Some (proc, None))"
  by (simp add: GetProc_eval)

text \<open>The status of the reply to a call, as RFC 5531 orders the checks.\<close>

fun arg_stat :: "srv_proc \<Rightarrow> bytes option \<Rightarrow> u32" where
  "arg_stat proc None = SUCCESS"
| "arg_stat proc (Some buf) = (case sp_in proc buf of Inl p \<Rightarrow> GARBAGE_ARGS | Inr x \<Rightarrow> SUCCESS)"

definition call_stat :: "rpc_srv \<Rightarrow> call_body \<Rightarrow> bytes option \<Rightarrow> u32" where
  "call_stat s cb inp =
     (case s (Prog cb) of
        None \<Rightarrow> PROG_UNAVAIL
      | Some prog \<Rightarrow>
        (case prog (Vers cb) of
           None \<Rightarrow> PROG_MISMATCH
         | Some srv \<Rightarrow>
           (case sv_GetProc srv (Proc cb) of None \<Rightarrow> PROC_UNAVAIL | Some proc \<Rightarrow> arg_stat proc inp)))"

definition version_range :: "srv_prog \<Rightarrow> mismatch" where
  "version_range prog = \<lparr>Low = Min (dom prog), High = Max (dom prog)\<rparr>"

lemma GetProc_call:
  assumes call: "Mtype (Body m) = CALL" "Rpcvers (mb_call (Body m)) = 2"
    and res: "GetProc ord s m inp = Inr (r, p)"
    and ord: "\<And>prog. prog \<in> ran s \<Longrightarrow> set (ord prog) = dom prog" and ok: "srv_ok s"
  shows "r = Some (accepted_msg (Xid m) (call_stat s (mb_call (Body m)) inp)
      (if call_stat s (mb_call (Body m)) inp = PROG_MISMATCH
       then RD_mismatch (version_range (the (s (Prog (mb_call (Body m)))))) else RD_nil))"
    and "p \<noteq> None \<longleftrightarrow> call_stat s (mb_call (Body m)) inp = SUCCESS"
proof -
  let ?cb = "mb_call (Body m)"
  have "r = Some (accepted_msg (Xid m) (call_stat s ?cb inp)
      (if call_stat s ?cb inp = PROG_MISMATCH
       then RD_mismatch (version_range (the (s (Prog ?cb)))) else RD_nil)) \<and>
    (p \<noteq> None \<longleftrightarrow> call_stat s ?cb inp = SUCCESS)"
  proof (cases "s (Prog ?cb)")
    case None
    with GetProc_prog [where s = s and m = m, OF call None] res show ?thesis
      by (auto simp: call_stat_def rpc_consts)
  next
    case (Some prog)
    have o: "set (ord prog) = dom prog" "dom prog \<noteq> {}"
      using ord Some ok by (auto simp: ran_def srv_ok_def)
    show ?thesis
    proof (cases "prog (Vers ?cb)")
      case None
      have "fold ver_step (ord prog) (zero_mm\<lparr>Low := 0xffffffff\<rparr>) = version_range prog"
        using Low_versions [OF o, of zero_mm] High_versions [OF o, of zero_mm]
        by (simp add: version_range_def zero_mm_def)
      with GetProc_vers [where s = s and m = m, OF call Some None] res Some None show ?thesis
        by (auto simp: call_stat_def rpc_consts)
    next
      case v: (Some srv)
      show ?thesis
      proof (cases "sv_GetProc srv (Proc ?cb)")
        case None
        with GetProc_proc [where s = s and m = m, OF call Some v None] res Some v show ?thesis
          by (auto simp: call_stat_def rpc_consts)
      next
        case f: (Some proc)
        with GetProc_found [where s = s and m = m, OF call Some v f] GetProc_found_nil [where s = s and m = m, OF call Some v f] res Some v
        show ?thesis
          by (cases inp)
            (auto simp: call_stat_def rpc_consts split: sum.splits go_panic.splits prod.splits)
      qed
    qed
  qed
  then show "r = Some (accepted_msg (Xid m) (call_stat s ?cb inp)
      (if call_stat s ?cb inp = PROG_MISMATCH
       then RD_mismatch (version_range (the (s (Prog ?cb)))) else RD_nil))"
    and "p \<noteq> None \<longleftrightarrow> call_stat s ?cb inp = SUCCESS"
    by auto
qed

text \<open>Every reply header fits the wire format.\<close>

lemma accepted_msg_fits: "msg_fits (accepted_msg x st u)"
  by (simp add: msg_fits_def accepted_msg_def mb_rb_def rb_fits_def rb_ar_def oa_fits_def zero_oa_def
      rpc_consts)

lemma denied_msg_fits: "msg_fits (denied_msg x)"
  by (simp add: msg_fits_def denied_msg_def mb_rb_def rb_fits_def rb_rj_def rpc_consts)

end
