(* ===== verification/ObjPool.thy ===== *)
theory ObjPool imports GoPrelude begin

text \<open>
  The object pools of the xdr package (xdr/arena.go, xdr/pool.go) and their contract, the
  locale \<open>object_pool\<close>. Objects live in a store from addresses to contents. What the
  runtime decides (the address of a newly allocated object, which pooled object a sync.Pool
  returns and whether it returns one at all) is an argument of Get, the environment.
  The contract is relative to the set of objects handed out and not yet recycled.
\<close>

section \<open>The contract\<close>

text \<open>
  A client's use of a pool: it gets objects and recycles ones it holds. The list of objects
  held is part of the run; a Get outside the environment's promises or a Recycle of
  something not held is not a run.
\<close>

datatype 'e pool_op = OpGet 'e | OpRecycle nat

fun pool_run ::
  "('e \<Rightarrow> 'p \<Rightarrow> 'p \<times> nat) \<Rightarrow> (nat \<Rightarrow> 'p \<Rightarrow> 'p) \<Rightarrow> ('p \<Rightarrow> nat set \<Rightarrow> 'e \<Rightarrow> bool) \<Rightarrow>
   'e pool_op list \<Rightarrow> 'p \<Rightarrow> nat list \<Rightarrow> ('p \<times> nat list) option" where
  "pool_run get rcy env [] p held = Some (p, held)"
| "pool_run get rcy env (OpGet e # ops) p held =
     (if env p (set held) e
      then case get e p of (p', a) \<Rightarrow> pool_run get rcy env ops p' (a # held) else None)"
| "pool_run get rcy env (OpRecycle a # ops) p held =
     (if a \<in> set held then pool_run get rcy env ops (rcy a p) (remove1 a held) else None)"

locale object_pool =
  fixes Get :: "'e \<Rightarrow> 'p \<Rightarrow> 'p \<times> nat"
    and Recycle :: "nat \<Rightarrow> 'p \<Rightarrow> 'p"
    and obj :: "'p \<Rightarrow> nat \<Rightarrow> 'o"
    and env_ok :: "'p \<Rightarrow> nat set \<Rightarrow> 'e \<Rightarrow> bool"
    and inv :: "'p \<Rightarrow> nat set \<Rightarrow> bool"
    and clean :: "'p \<Rightarrow> 'o \<Rightarrow> bool"
  assumes Get_new: "inv p H \<Longrightarrow> env_ok p H e \<Longrightarrow> Get e p = (p', a) \<Longrightarrow> a \<notin> H"
    and Get_inv: "inv p H \<Longrightarrow> env_ok p H e \<Longrightarrow> Get e p = (p', a) \<Longrightarrow> inv p' (insert a H)"
    and Get_clean: "inv p H \<Longrightarrow> env_ok p H e \<Longrightarrow> Get e p = (p', a) \<Longrightarrow> clean p' (obj p' a)"
    and Get_frame: "inv p H \<Longrightarrow> env_ok p H e \<Longrightarrow> Get e p = (p', a) \<Longrightarrow> b \<in> H \<Longrightarrow> obj p' b = obj p b"
    and Recycle_inv: "inv p H \<Longrightarrow> a \<in> H \<Longrightarrow> inv (Recycle a p) (H - {a})"
    and Recycle_frame: "inv p H \<Longrightarrow> a \<in> H \<Longrightarrow> b \<in> H - {a} \<Longrightarrow> obj (Recycle a p) b = obj p b"
begin

text \<open>No object is ever handed out twice.\<close>

lemma run_ok:
  "pool_run Get Recycle env_ok ops p held = Some (p', held') \<Longrightarrow> inv p (set held) \<Longrightarrow> distinct held \<Longrightarrow>
   inv p' (set held') \<and> distinct held'"
proof (induction ops arbitrary: p held)
  case (Cons op ops)
  show ?case
  proof (cases op)
    case (OpGet e)
    obtain p1 a where g: "Get e p = (p1, a)" by fastforce
    with Cons.prems(1) OpGet have e: "env_ok p (set held) e" "pool_run Get Recycle env_ok ops p1 (a # held) = Some (p', held')"
      by (auto split: if_splits)
    from Cons.IH [OF e(2)] Get_inv [OF Cons.prems(2) e(1) g] Get_new [OF Cons.prems(2) e(1) g] Cons.prems(3)
    show ?thesis by simp
  next
    case (OpRecycle a)
    with Cons.prems(1) have r: "a \<in> set held"
        "pool_run Get Recycle env_ok ops (Recycle a p) (remove1 a held) = Some (p', held')"
      by (auto split: if_splits)
    from Cons.IH [OF r(2)] Recycle_inv [OF Cons.prems(2) r(1)] Cons.prems(3) show ?thesis by simp
  qed
qed simp

text \<open>Two objects in use at the same time are different, and getting one leaves the other.\<close>

lemma Get_twice:
  assumes "inv p H" "env_ok p H e" "Get e p = (p1, a)" "env_ok p1 (insert a H) e'"
    and "Get e' p1 = (p2, b)"
  shows "a \<noteq> b" and "inv p2 (insert b (insert a H))" and "obj p2 a = obj p1 a"
proof -
  note i1 = Get_inv [OF assms(1-3)]
  show "a \<noteq> b" using Get_new [OF i1 assms(4,5)] by blast
  show "inv p2 (insert b (insert a H))" by (rule Get_inv [OF i1 assms(4,5)])
  show "obj p2 a = obj p1 a" by (rule Get_frame [OF i1 assms(4,5)]) simp
qed

text \<open>Getting and recycling at once changes nothing for the objects in use.\<close>

lemma Get_Recycle:
  assumes "inv p H" "env_ok p H e" "Get e p = (p1, a)"
  shows "inv (Recycle a p1) H" and "b \<in> H \<Longrightarrow> obj (Recycle a p1) b = obj p b"
proof -
  note n = Get_new [OF assms] and i = Get_inv [OF assms]
  have "insert a H - {a} = H" using n by blast
  with Recycle_inv [OF i, of a] show "inv (Recycle a p1) H" by simp
  show "obj (Recycle a p1) b = obj p b" if "b \<in> H"
    using that n Recycle_frame [OF i, of a b] Get_frame [OF assms that] by auto
qed

end

section \<open>Arena (xdr/arena.go)\<close>

text \<open>
  The objects of an arena are an array at address \<open>ar_base\<close> of \<open>ar_n\<close> elements of
  \<open>ar_size\<close> bytes. \<open>reset\<close> is the arena's reset function, \<open>zero\<close> the zero object.
\<close>

record 'o arena =
  ar_base :: nat
  ar_size :: nat
  ar_n :: nat
  ar_reset :: "'o \<Rightarrow> 'o"
  ar_zero :: 'o
  ar_free :: "nat list"
  ar_numGet :: nat
  ar_numMiss :: nat
  ar_store :: "nat \<Rightarrow> 'o"

definition ar_addr :: "('o, 'z) arena_scheme \<Rightarrow> nat \<Rightarrow> nat" where
  "ar_addr a i = ar_base a + i * ar_size a"

definition NewArena :: "nat \<Rightarrow> nat \<Rightarrow> nat \<Rightarrow> ('o \<Rightarrow> 'o) \<Rightarrow> 'o \<Rightarrow> (nat \<Rightarrow> 'o) \<Rightarrow> 'o arena" where
  "NewArena base sz n reset zero mem =
     \<lparr>ar_base = base, ar_size = sz, ar_n = n, ar_reset = reset, ar_zero = zero,
      ar_free = map (\<lambda>i. base + i * sz) [0..<n], ar_numGet = 0, ar_numMiss = 0,
      ar_store = (\<lambda>x. if \<exists>i \<in> set [0..<n]. x = base + i * sz then zero else mem x)\<rparr>"

definition contains :: "('o, 'z) arena_scheme \<Rightarrow> nat \<Rightarrow> bool" where
  "contains a ptr =
     (if ar_n a = 0 \<or> ptr = 0 then False
      else let first = ar_addr a 0; last = ar_addr a (ar_n a - 1)
           in if ar_size a = 0 then ptr = first
              else ptr \<ge> first \<and> ptr \<le> last \<and> (ptr - first) mod ar_size a = 0)"

text \<open>Get; \<open>new\<close> is the address of the object allocated when the free list is empty.\<close>

definition ar_Get :: "nat \<Rightarrow> 'o arena \<Rightarrow> 'o arena \<times> nat" where
  "ar_Get new a =
     (if ar_free a = []
      then (a\<lparr>ar_numMiss := ar_numMiss a + 1,
              ar_store := (ar_store a)(new := ar_reset a (ar_zero a))\<rparr>, new)
      else let ptr = last (ar_free a)
           in (a\<lparr>ar_numGet := ar_numGet a + 1, ar_free := butlast (ar_free a),
                 ar_store := (ar_store a)(ptr := ar_reset a (ar_store a ptr))\<rparr>, ptr))"

definition ar_Recycle :: "nat \<Rightarrow> 'o arena \<Rightarrow> 'o arena" where
  "ar_Recycle x a =
     (if \<not> contains a x then a
      else a\<lparr>ar_store := (ar_store a)(x := ar_reset a (ar_store a x)), ar_free := ar_free a @ [x]\<rparr>)"

text \<open>
  The arena's invariant relative to the set \<open>H\<close> of objects in use: the free list holds
  each of its objects once, all of them in the array and none in use, and no object of
  the array is lost.
\<close>

definition ar_inv :: "('o, 'z) arena_scheme \<Rightarrow> nat set \<Rightarrow> bool" where
  "ar_inv a H \<longleftrightarrow>
     0 < ar_size a \<and> 0 < ar_base a \<and> distinct (ar_free a) \<and>
     set (ar_free a) \<subseteq> ar_addr a ` {..<ar_n a} \<and> set (ar_free a) \<inter> H = {} \<and>
     ar_addr a ` {..<ar_n a} \<subseteq> set (ar_free a) \<union> H"

definition ar_env :: "('o, 'z) arena_scheme \<Rightarrow> nat set \<Rightarrow> nat \<Rightarrow> bool" where
  "ar_env a H new \<longleftrightarrow> new \<notin> H \<and> new \<notin> ar_addr a ` {..<ar_n a}"

definition ar_clean :: "('o, 'z) arena_scheme \<Rightarrow> 'o \<Rightarrow> bool" where
  "ar_clean a x \<longleftrightarrow> (\<exists>y. x = ar_reset a y)"

text \<open>The pointer arithmetic of \<open>contains\<close> decides membership in the array.\<close>

lemma contains_iff:
  assumes "0 < ar_size a" and "0 < ar_base a"
  shows "contains a x \<longleftrightarrow> x \<in> ar_addr a ` {..<ar_n a}"
proof
  assume c: "contains a x"
  then have n: "0 < ar_n a" and lo: "ar_base a \<le> x" and
    hi: "x \<le> ar_base a + (ar_n a - 1) * ar_size a" and m: "(x - ar_base a) mod ar_size a = 0"
    using assms by (auto simp: contains_def Let_def ar_addr_def split: if_splits)
  define i where "i = (x - ar_base a) div ar_size a"
  have xi: "x = ar_base a + i * ar_size a"
    using m lo unfolding i_def by (metis div_mult_mod_eq add.right_neutral le_add_diff_inverse)
  with hi have "i * ar_size a \<le> (ar_n a - 1) * ar_size a" by simp
  with assms(1) n have "i < ar_n a" by (simp add: mult_le_cancel2)
  with xi show "x \<in> ar_addr a ` {..<ar_n a}" by (auto simp: ar_addr_def)
next
  assume "x \<in> ar_addr a ` {..<ar_n a}"
  then obtain i where i: "i < ar_n a" "x = ar_base a + i * ar_size a" by (auto simp: ar_addr_def)
  then have "i * ar_size a \<le> (ar_n a - 1) * ar_size a" by (intro mult_le_mono1) simp
  with i assms show "contains a x" by (auto simp: contains_def Let_def ar_addr_def)
qed

lemma ar_addr_upd [simp]:
  "ar_addr (a\<lparr>ar_store := s\<rparr>) = ar_addr a" "ar_addr (a\<lparr>ar_free := f\<rparr>) = ar_addr a"
  "ar_addr (a\<lparr>ar_numGet := g\<rparr>) = ar_addr a" "ar_addr (a\<lparr>ar_numMiss := m\<rparr>) = ar_addr a"
  by (auto simp: ar_addr_def fun_eq_iff)

lemma ar_Recycle_eq:
  "ar_inv a H \<Longrightarrow> ar_Recycle x a =
     (if x \<in> ar_addr a ` {..<ar_n a}
      then a\<lparr>ar_store := (ar_store a)(x := ar_reset a (ar_store a x)), ar_free := ar_free a @ [x]\<rparr>
      else a)"
  by (simp add: ar_Recycle_def contains_iff ar_inv_def)

interpretation arena: object_pool ar_Get ar_Recycle ar_store ar_env ar_inv ar_clean
proof unfold_locales
  fix p :: "'o arena" and H e p' a
  assume i: "ar_inv p H" and e: "ar_env p H e" and g: "ar_Get e p = (p', a)"
  have shape: "(ar_free p = [] \<and> a = e) \<or>
      (\<exists>xs. ar_free p = xs @ [a] \<and> ar_free p' = xs)"
  proof (cases "ar_free p" rule: rev_cases)
    case Nil
    with g show ?thesis by (simp add: ar_Get_def)
  next
    case (snoc xs y)
    with g show ?thesis by (auto simp: ar_Get_def Let_def)
  qed
  have same: "ar_addr p' = ar_addr p" "ar_size p' = ar_size p" "ar_base p' = ar_base p"
    "ar_n p' = ar_n p" "ar_free p = [] \<Longrightarrow> ar_free p' = []"
    using g by (auto simp: ar_Get_def Let_def split: if_splits)
  show n: "a \<notin> H"
    using i e shape by (auto simp: ar_inv_def ar_env_def)
  show "ar_inv p' (insert a H)"
    using i e shape same by (auto simp: ar_inv_def ar_env_def)
  show "ar_clean p' (ar_store p' a)"
    using g by (auto simp: ar_Get_def ar_clean_def Let_def split: if_splits)
  show "ar_store p' b = ar_store p b" if "b \<in> H" for b
    using g n that by (auto simp: ar_Get_def Let_def split: if_splits)
next
  fix p :: "'o arena" and H a
  assume i: "ar_inv p H" and a: "a \<in> H"
  then show "ar_inv (ar_Recycle a p) (H - {a})"
    by (auto simp: ar_Recycle_eq [OF i]) (auto simp: ar_inv_def)
  show "ar_store (ar_Recycle a p) b = ar_store p b" if "b \<in> H - {a}" for b
    using that by (auto simp: ar_Recycle_eq [OF i])
qed

text \<open>A new arena satisfies its invariant with nothing in use.\<close>

lemma NewArena_inv: "0 < sz \<Longrightarrow> 0 < base \<Longrightarrow> ar_inv (NewArena base sz n r z mem) {}"
  by (auto simp: ar_inv_def NewArena_def distinct_map inj_on_def ar_addr_def)

section \<open>Pool (xdr/pool.go)\<close>

text \<open>
  A Pool wraps a sync.Pool. Its documentation promises of Get only that it returns some
  object put before, which it removes, or the result of New. The environment of a Get is
  the runtime's choice among the pooled objects, if any, and the address New would use.
\<close>

record 'o pool =
  po_reset :: "'o \<Rightarrow> 'o"
  po_zero :: 'o
  po_free :: "nat list"
  po_numGet :: nat
  po_numMiss :: nat
  po_store :: "nat \<Rightarrow> 'o"

definition NewPool :: "('o \<Rightarrow> 'o) \<Rightarrow> 'o \<Rightarrow> (nat \<Rightarrow> 'o) \<Rightarrow> 'o pool" where
  "NewPool reset zero mem =
     \<lparr>po_reset = reset, po_zero = zero, po_free = [], po_numGet = 0, po_numMiss = 0, po_store = mem\<rparr>"

definition po_New :: "nat \<Rightarrow> 'o pool \<Rightarrow> 'o pool \<times> nat" where
  "po_New new p =
     (p\<lparr>po_numMiss := po_numMiss p + 1, po_store := (po_store p)(new := po_reset p (po_zero p))\<rparr>, new)"

definition sync_Get :: "nat option \<times> nat \<Rightarrow> 'o pool \<Rightarrow> 'o pool \<times> nat" where
  "sync_Get e p =
     (case fst e of
        None \<Rightarrow> po_New (snd e) p
      | Some i \<Rightarrow>
          if i < length (po_free p)
          then (p\<lparr>po_free := take i (po_free p) @ drop (Suc i) (po_free p)\<rparr>, po_free p ! i)
          else po_New (snd e) p)"

definition po_Get :: "nat option \<times> nat \<Rightarrow> 'o pool \<Rightarrow> 'o pool \<times> nat" where
  "po_Get e p =
     (case sync_Get e p of (p1, a) \<Rightarrow>
       (p1\<lparr>po_store := (po_store p1)(a := po_reset p1 (po_store p1 a)),
           po_numGet := po_numGet p1 + 1\<rparr>, a))"

definition po_Recycle :: "nat \<Rightarrow> 'o pool \<Rightarrow> 'o pool" where
  "po_Recycle a p =
     p\<lparr>po_store := (po_store p)(a := po_reset p (po_store p a)), po_free := a # po_free p\<rparr>"

definition po_inv :: "('o, 'z) pool_scheme \<Rightarrow> nat set \<Rightarrow> bool" where
  "po_inv p H \<longleftrightarrow> distinct (po_free p) \<and> set (po_free p) \<inter> H = {}"

definition po_env :: "('o, 'z) pool_scheme \<Rightarrow> nat set \<Rightarrow> nat option \<times> nat \<Rightarrow> bool" where
  "po_env p H e \<longleftrightarrow> snd e \<notin> H \<and> snd e \<notin> set (po_free p)"

definition po_clean :: "('o, 'z) pool_scheme \<Rightarrow> 'o \<Rightarrow> bool" where
  "po_clean p x \<longleftrightarrow> (\<exists>y. x = po_reset p y)"

lemma sync_Get_cases:
  assumes "sync_Get e p = (p1, a)"
  obtains (new) "a = snd e" and "po_free p1 = po_free p" and "po_reset p1 = po_reset p"
      and "\<And>b. b \<noteq> a \<Longrightarrow> po_store p1 b = po_store p b"
  | (pooled) i where "i < length (po_free p)" and "a = po_free p ! i" and "po_reset p1 = po_reset p"
      and "po_free p1 = take i (po_free p) @ drop (Suc i) (po_free p)" and "po_store p1 = po_store p"
  using assms by (auto simp: sync_Get_def po_New_def split: option.splits if_splits)

lemma po_Get_props:
  assumes i: "po_inv p H" and e: "po_env p H e" and g: "po_Get e p = (p', a)"
  shows "a \<notin> H" and "po_inv p' (insert a H)" and "po_clean p' (po_store p' a)"
    and "b \<noteq> a \<Longrightarrow> po_store p' b = po_store p b"
proof -
  obtain p1 where s: "sync_Get e p = (p1, a)"
    and p': "p' = p1\<lparr>po_store := (po_store p1)(a := po_reset p1 (po_store p1 a)),
           po_numGet := po_numGet p1 + 1\<rparr>"
    using g by (auto simp: po_Get_def split: prod.splits)
  have "a \<notin> H \<and> po_inv p' (insert a H) \<and> (b \<noteq> a \<longrightarrow> po_store p' b = po_store p b)"
    using s
  proof (cases rule: sync_Get_cases)
    case new
    with i e show ?thesis by (auto simp: p' po_inv_def po_env_def)
  next
    case (pooled i)
    have d: "distinct (take i (po_free p) @ po_free p ! i # drop (Suc i) (po_free p))"
      using \<open>po_inv p H\<close> pooled(1) by (simp add: po_inv_def id_take_nth_drop [symmetric])
    have m: "set (po_free p1) \<subseteq> set (po_free p)"
      using pooled(4) by (auto dest: in_set_takeD in_set_dropD)
    have "a \<notin> set (po_free p1)" using d pooled by auto
    moreover have "a \<in> set (po_free p)" using pooled by simp
    moreover have "distinct (po_free p1)" using d pooled by simp
    ultimately show ?thesis using \<open>po_inv p H\<close> m pooled(5) by (auto simp: p' po_inv_def)
  qed
  then show "a \<notin> H" "po_inv p' (insert a H)" "b \<noteq> a \<Longrightarrow> po_store p' b = po_store p b" by auto
  show "po_clean p' (po_store p' a)" by (auto simp: p' po_clean_def)
qed

interpretation pool: object_pool po_Get po_Recycle po_store po_env po_inv po_clean
proof unfold_locales
  fix p :: "'o pool" and H e p' a
  assume a: "po_inv p H" "po_env p H e" "po_Get e p = (p', a)"
  show "a \<notin> H" "po_inv p' (insert a H)" "po_clean p' (po_store p' a)"
    by (rule po_Get_props [OF a])+
  show "po_store p' b = po_store p b" if "b \<in> H" for b
    using po_Get_props(1,4) [OF a] that by metis
next
  fix p :: "'o pool" and H a
  assume "po_inv p H" and "a \<in> H"
  then show "po_inv (po_Recycle a p) (H - {a})" by (auto simp: po_inv_def po_Recycle_def)
qed (auto simp: po_Recycle_def)

lemma NewPool_inv: "po_inv (NewPool r z mem) {}"
  by (simp add: po_inv_def NewPool_def)

section \<open>Either pool, behind an interface\<close>

text \<open>
  rpc/msgpool.go and rpc/callpool.go hide an arena or a pool behind one interface value;
  calls dispatch on its dynamic type. Clients also write to the objects they hold.
\<close>

datatype 'o any_pool = AnArena "'o arena" | APool "'o pool"

definition ap_Get :: "nat option \<times> nat \<Rightarrow> 'o any_pool \<Rightarrow> 'o any_pool \<times> nat" where
  "ap_Get e p =
     (case p of
        AnArena a \<Rightarrow> (case ar_Get (snd e) a of (a', x) \<Rightarrow> (AnArena a', x))
      | APool q \<Rightarrow> (case po_Get e q of (q', x) \<Rightarrow> (APool q', x)))"

definition ap_Recycle :: "nat \<Rightarrow> 'o any_pool \<Rightarrow> 'o any_pool" where
  "ap_Recycle x p =
     (case p of AnArena a \<Rightarrow> AnArena (ar_Recycle x a) | APool q \<Rightarrow> APool (po_Recycle x q))"

definition ap_obj :: "'o any_pool \<Rightarrow> nat \<Rightarrow> 'o" where
  "ap_obj p = (case p of AnArena a \<Rightarrow> ar_store a | APool q \<Rightarrow> po_store q)"

definition ap_put :: "nat \<Rightarrow> 'o \<Rightarrow> 'o any_pool \<Rightarrow> 'o any_pool" where
  "ap_put x v p =
     (case p of
        AnArena a \<Rightarrow> AnArena (a\<lparr>ar_store := (ar_store a)(x := v)\<rparr>)
      | APool q \<Rightarrow> APool (q\<lparr>po_store := (po_store q)(x := v)\<rparr>))"

definition ap_inv :: "'o any_pool \<Rightarrow> nat set \<Rightarrow> bool" where
  "ap_inv p H = (case p of AnArena a \<Rightarrow> ar_inv a H | APool q \<Rightarrow> po_inv q H)"

definition ap_env :: "'o any_pool \<Rightarrow> nat set \<Rightarrow> nat option \<times> nat \<Rightarrow> bool" where
  "ap_env p H e = (case p of AnArena a \<Rightarrow> ar_env a H (snd e) | APool q \<Rightarrow> po_env q H e)"

definition ap_clean :: "'o any_pool \<Rightarrow> 'o \<Rightarrow> bool" where
  "ap_clean p x = (case p of AnArena a \<Rightarrow> ar_clean a x | APool q \<Rightarrow> po_clean q x)"

locale object_store = object_pool +
  fixes put :: "nat \<Rightarrow> 'o \<Rightarrow> 'p \<Rightarrow> 'p"
  assumes put_inv: "inv p H \<Longrightarrow> a \<in> H \<Longrightarrow> inv (put a x p) H"
    and put_obj: "obj (put a x p) b = (if b = a then x else obj p b)"
begin

text \<open>Allocating an object and filling it in, as NewCall and NewMessage do.\<close>

lemma Get_put:
  assumes "inv p H" "env_ok p H e" "Get e p = (p1, a)"
  shows "inv (put a x p1) (insert a H)" and "obj (put a x p1) a = x"
    and "b \<in> H \<Longrightarrow> obj (put a x p1) b = obj p b"
  using Get_new [OF assms] Get_inv [OF assms] Get_frame [OF assms]
  by (auto simp: put_obj intro: put_inv)

end

lemmas ap_defs = ap_inv_def ap_env_def ap_Get_def ap_clean_def ap_obj_def ap_Recycle_def

lemma ap_Get_props:
  assumes "ap_inv p H" and "ap_env p H e" and "ap_Get e p = (p', a)"
  shows "a \<notin> H \<and> ap_inv p' (insert a H) \<and> ap_clean p' (ap_obj p' a) \<and>
    (\<forall>b \<in> H. ap_obj p' b = ap_obj p b)"
proof (cases p)
  case (AnArena q)
  obtain q' where g: "ar_Get (snd e) q = (q', a)" and p': "p' = AnArena q'"
    using assms(3) AnArena by (auto simp: ap_Get_def split: prod.splits)
  have i: "ar_inv q H" "ar_env q H (snd e)" using assms AnArena by (simp_all add: ap_defs)
  show ?thesis
    using arena.Get_new [OF i g] arena.Get_inv [OF i g] arena.Get_clean [OF i g]
      arena.Get_frame [OF i g] AnArena p'
    by (simp add: ap_defs)
next
  case (APool q)
  obtain q' where g: "po_Get e q = (q', a)" and p': "p' = APool q'"
    using assms(3) APool by (auto simp: ap_Get_def split: prod.splits)
  have i: "po_inv q H" "po_env q H e" using assms APool by (simp_all add: ap_defs)
  show ?thesis
    using pool.Get_new [OF i g] pool.Get_inv [OF i g] pool.Get_clean [OF i g]
      pool.Get_frame [OF i g] APool p'
    by (simp add: ap_defs)
qed

interpretation anyp: object_store ap_Get ap_Recycle ap_obj ap_env ap_inv ap_clean ap_put
proof unfold_locales
  fix p :: "'o any_pool" and H e p' a
  assume a: "ap_inv p H" "ap_env p H e" "ap_Get e p = (p', a)"
  note g = ap_Get_props [OF a]
  show "a \<notin> H" using g by blast
  show "ap_inv p' (insert a H)" using g by blast
  show "ap_clean p' (ap_obj p' a)" using g by blast
  show "ap_obj p' b = ap_obj p b" if "b \<in> H" for b using g that by blast
next
  fix p :: "'o any_pool" and H a
  assume a: "ap_inv p H" "a \<in> H"
  show "ap_inv (ap_Recycle a p) (H - {a})"
    using a arena.Recycle_inv pool.Recycle_inv by (cases p) (auto simp: ap_defs)
  show "ap_obj (ap_Recycle a p) b = ap_obj p b" if b: "b \<in> H - {a}" for b
  proof (cases p)
    case (AnArena q)
    then show ?thesis using a arena.Recycle_frame [OF _ a(2) b, of q] by (simp add: ap_defs)
  next
    case (APool q)
    then show ?thesis using a pool.Recycle_frame [OF _ a(2) b, of q] by (simp add: ap_defs)
  qed
next
  fix p :: "'o any_pool" and H a x
  assume "ap_inv p H" "a \<in> H"
  then show "ap_inv (ap_put a x p) H"
    by (cases p) (auto simp: ap_inv_def ap_put_def ar_inv_def po_inv_def)
next
  fix p :: "'o any_pool" and a b x
  show "ap_obj (ap_put a x p) b = (if b = a then x else ap_obj p b)"
    by (cases p) (auto simp: ap_obj_def ap_put_def)
qed

end
