(* ===== verification/CallSet.thy ===== *)
theory CallSet imports RpcWire ObjPool begin

text \<open>
  Pending calls of an RPC client: CallSet of rpc/util.go over the call pools of
  rpc/callpool.go. The operations run under the CallSet's lock, so each is one atomic step.
  The pending calls are objects of the pool; the map holds their addresses. A callback is a
  number; the callbacks an operation makes are its output. The proofs use the pool only
  through its contract (\<open>object_store\<close>).
\<close>

section \<open>Pending calls\<close>

text \<open>
  xdr.XdrProc as the client uses it: the three numbers and unmarshaling into GetRes().
\<close>

record xdr_proc =
  xp_Prog :: u32
  xp_Vers :: u32
  xp_Proc :: u32
  xp_in :: "bytes \<Rightarrow> go_panic + (val \<times> bytes)"

record pending =
  pc_Proc :: "xdr_proc option"
  pc_Cb :: "nat option"
  pc_Server :: string

definition zero_pending :: pending where
  "zero_pending = \<lparr>pc_Proc = None, pc_Cb = None, pc_Server = []\<rparr>"

type_synonym call_pool = "pending any_pool"

definition NewCallArena :: "nat \<Rightarrow> nat \<Rightarrow> nat \<Rightarrow> (nat \<Rightarrow> pending) \<Rightarrow> call_pool" where
  "NewCallArena base sz cap mem =
     AnArena (NewArena base sz cap (\<lambda>_. zero_pending) zero_pending mem)"

definition NewCallPool :: "(nat \<Rightarrow> pending) \<Rightarrow> call_pool" where
  "NewCallPool mem = APool (NewPool (\<lambda>_. zero_pending) zero_pending mem)"

text \<open>The CallSet; a nil map and an empty one behave alike in every operation.\<close>

record callset =
  cs_pool :: call_pool
  cs_lastXid :: u32
  cs_calls :: "u32 \<rightharpoonup> nat"

section \<open>Allocating an XID\<close>

text \<open>The loop of NewCall; it runs forever when every XID is pending.\<close>

partial_function (option) next_xid :: "(u32 \<Rightarrow> bool) \<Rightarrow> u32 \<Rightarrow> u32 option" where
  "next_xid used x = (if used (x + 1) then next_xid used (x + 1) else Some (x + 1))"

lemma next_xid_skip: "used (x + 1) \<Longrightarrow> next_xid used x = next_xid used (x + 1)"
  by (subst next_xid.simps) simp

lemma next_xid_stop: "\<not> used (x + 1) \<Longrightarrow> next_xid used x = Some (x + 1)"
  by (subst next_xid.simps) simp

lemma next_xid_sound: "next_xid used x = Some y \<Longrightarrow> \<not> used y"
proof -
  assume a: "next_xid used x = Some y"
  have "(case (used, x) of (u, x) \<Rightarrow> \<lambda>y. \<not> u y) y"
  proof (rule next_xid.raw_induct [of "\<lambda>u x y. \<not> u y" "(used, x)" y])
    show "\<not> u z"
      if "\<And>x b y. f x b = Some y \<Longrightarrow> \<not> x y" "(if u (w + 1) then f u (w + 1) else Some (w + 1)) = Some z"
      for f u w z
      using that by (auto split: if_splits)
  qed (use a in simp)
  then show "\<not> used y" by simp
qed

text \<open>The first free XID after the last one used, counting modulo \<open>2 ^ 32\<close>.\<close>

lemma next_xid_first:
  "\<not> used (x + of_nat (Suc k)) \<Longrightarrow> (\<And>i. i < k \<Longrightarrow> used (x + of_nat (Suc i))) \<Longrightarrow>
   next_xid used x = Some (x + of_nat (Suc k))"
proof (induction k arbitrary: x)
  case 0
  then show ?case by (simp add: next_xid_stop)
next
  case (Suc k)
  from Suc.prems(2) [of 0] have "used (x + 1)" by simp
  moreover have "next_xid used (x + 1) = Some (x + 1 + of_nat (Suc k))"
  proof (rule Suc.IH)
    show "\<not> used (x + 1 + of_nat (Suc k))" using Suc.prems(1) by (simp add: add.assoc)
    show "used (x + 1 + of_nat (Suc i))" if "i < k" for i
      using Suc.prems(2) [of "Suc i"] that by (simp add: add.assoc)
  qed
  ultimately show ?case by (simp add: next_xid_skip add.assoc)
qed

lemma next_xid_terminates: "(\<exists>y. next_xid used x = Some y) \<longleftrightarrow> (\<exists>z. \<not> used z)"
proof
  assume "\<exists>z. \<not> used z"
  then obtain z where z: "\<not> used z" ..
  let ?free = "\<lambda>k. \<not> used (x + of_nat (Suc k))"
  have "?free (unat (z - x - 1))" using z by simp
  then have "?free (LEAST k. ?free k)" by (rule LeastI)
  moreover have "used (x + of_nat (Suc i))" if "i < (LEAST k. ?free k)" for i
    using not_less_Least [OF that] by simp
  ultimately show "\<exists>y. next_xid used x = Some y" using next_xid_first by blast
qed (auto dest: next_xid_sound)

section \<open>Operations\<close>

definition call_header :: "u32 \<Rightarrow> xdr_proc \<Rightarrow> go_panic + rpc_msg" where
  "call_header xid proc =
     bindE (with_Cbody (\<lambda>c. c\<lparr>Rpcvers := 2\<rparr>) ((Body zero_msg)\<lparr>Mtype := CALL\<rparr>)) (\<lambda>b1.
     bindE (with_Cbody (\<lambda>c. c\<lparr>Prog := xp_Prog proc\<rparr>) b1) (\<lambda>b2.
     bindE (with_Cbody (\<lambda>c. c\<lparr>Vers := xp_Vers proc\<rparr>) b2) (\<lambda>b3.
     bindE (with_Cbody (\<lambda>c. c\<lparr>Proc := xp_Proc proc\<rparr>) b3) (\<lambda>b4.
       Inr \<lparr>Xid = xid, Body = b4\<rparr>))))"

definition NewCall ::
  "nat option \<times> nat \<Rightarrow> string \<Rightarrow> xdr_proc \<Rightarrow> nat \<Rightarrow> callset \<Rightarrow>
   (go_panic + (rpc_msg \<times> callset)) option" where
  "NewCall e server proc cb cs =
     bindO (next_xid (\<lambda>x. cs_calls cs x \<noteq> None) (cs_lastXid cs)) (\<lambda>xid.
       Some (case ap_Get e (cs_pool cs) of (p1, a) \<Rightarrow>
         let p2 = ap_put a ((ap_obj p1 a)\<lparr>pc_Proc := Some proc, pc_Cb := Some cb, pc_Server := server\<rparr>) p1;
             cs' = cs\<lparr>cs_pool := p2, cs_lastXid := xid, cs_calls := (cs_calls cs)(xid \<mapsto> a)\<rparr>
         in bindE (call_header xid proc) (\<lambda>m. Inr (m, cs'))))"

definition delete_call :: "u32 \<Rightarrow> callset \<Rightarrow> callset" where
  "delete_call xid cs =
     (let cs1 = (case cs_calls cs xid of
                   None \<Rightarrow> cs
                 | Some a \<Rightarrow> cs\<lparr>cs_pool := ap_Recycle a (cs_pool cs)\<rparr>)
      in cs1\<lparr>cs_calls := (cs_calls cs1)(xid := None)\<rparr>)"

definition Delete :: "u32 \<Rightarrow> callset \<Rightarrow> callset" where
  "Delete xid cs = delete_call xid cs"

definition Cancel :: "u32 \<Rightarrow> u32 list \<Rightarrow> callset \<Rightarrow> go_panic + ((nat option \<times> rpc_msg) list \<times> callset)" where
  "Cancel xid reason cs =
     (case cs_calls cs xid of
        None \<Rightarrow> Inr ([], cs)
      | Some a \<Rightarrow>
          bindE (if reason = [] \<or> hd reason = SUCCESS
                 then SetStat (zero_msg\<lparr>Xid := xid\<rparr>) CANCELED
                 else SetStat (zero_msg\<lparr>Xid := xid\<rparr>) (hd reason)) (\<lambda>rmsg.
            Inr ([(pc_Cb (ap_obj (cs_pool cs) a), rmsg)],
                 cs\<lparr>cs_calls := (cs_calls cs)(xid := None),
                    cs_pool := ap_Recycle a (cs_pool cs)\<rparr>)))"

text \<open>CancelAll; \<open>ord\<close> lists the pending XIDs in the map's iteration order.\<close>

fun cancel_loop ::
  "(u32 \<rightharpoonup> nat) \<Rightarrow> u32 list \<Rightarrow> call_pool \<Rightarrow>
   go_panic + ((nat option \<times> rpc_msg) list \<times> call_pool)" where
  "cancel_loop calls [] p = Inr ([], p)"
| "cancel_loop calls (xid # xs) p =
     (case calls xid of
        None \<Rightarrow> cancel_loop calls xs p
      | Some a \<Rightarrow>
          bindE (SetStat (zero_msg\<lparr>Xid := xid\<rparr>) CANCELED) (\<lambda>rmsg.
          bindE (cancel_loop calls xs (ap_Recycle a p)) (\<lambda>(ev, p').
            Inr ((pc_Cb (ap_obj p a), rmsg) # ev, p'))))"

definition CancelAll :: "u32 list \<Rightarrow> callset \<Rightarrow> go_panic + ((nat option \<times> rpc_msg) list \<times> callset)" where
  "CancelAll ord cs =
     bindE (cancel_loop (cs_calls cs) ord (cs_pool cs)) (\<lambda>(ev, p).
       Inr (ev, cs\<lparr>cs_calls := Map.empty, cs_pool := p\<rparr>))"

text \<open>
  GetReply: the matching call's procedure and callback, the header (its status rewritten
  when the result does not unmarshal) and the unmarshaled result.
\<close>

definition GetReply ::
  "string \<Rightarrow> rpc_msg \<Rightarrow> bytes \<Rightarrow> callset \<Rightarrow>
   go_panic + ((xdr_proc option \<times> nat option \<times> val option) option \<times> rpc_msg \<times> callset)" where
  "GetReply server rmsg buf cs =
     (if Mtype (Body rmsg) \<noteq> REPLY then Inr (None, rmsg, cs)
      else case cs_calls cs (Xid rmsg) of
        None \<Rightarrow> Inr (None, rmsg, cs)
      | Some a \<Rightarrow>
          let pc = ap_obj (cs_pool cs) a in
          if pc_Server pc \<noteq> server then Inr (None, rmsg, cs)
          else
            let cs1 = cs\<lparr>cs_calls := (cs_calls cs)(Xid rmsg := None)\<rparr>;
                done = (\<lambda>res m. Inr (Some (pc_Proc pc, pc_Cb pc, res), m,
                          cs1\<lparr>cs_pool := ap_Recycle a (cs_pool cs1)\<rparr>))
            in bindE (IsSuccess rmsg) (\<lambda>ok.
              if \<not> ok then done None rmsg
              else case pc_Proc pc of
                None \<Rightarrow> Inl NilErrorDeref
              | Some proc \<Rightarrow>
                bindE (safeMarshal (xp_in proc buf)) (\<lambda>r.
                  case r of
                    Inr (res, rest) \<Rightarrow> done (Some res) rmsg
                  | Inl e \<Rightarrow>
                      bindE (with_Rbody (with_Areply (\<lambda>ar.
                               Inr (ar\<lparr>ar_Reply_data := (ar_Reply_data ar)\<lparr>rd_Stat := GARBAGE_RET\<rparr>\<rparr>)))
                             (Body rmsg)) (\<lambda>b.
                        done None (rmsg\<lparr>Body := b\<rparr>)))))"

section \<open>The abstract view and the invariant\<close>

text \<open>
  A CallSet stands for a finite map from XIDs to pending calls. The invariant: the pool
  agrees that exactly the objects in the map are in use, no two XIDs share one, and every
  pending call has its procedure and its callback.
\<close>

definition view :: "callset \<Rightarrow> (u32 \<rightharpoonup> pending)" where
  "view cs = (\<lambda>x. map_option (ap_obj (cs_pool cs)) (cs_calls cs x))"

definition cs_inv :: "callset \<Rightarrow> bool" where
  "cs_inv cs \<longleftrightarrow>
     ap_inv (cs_pool cs) (ran (cs_calls cs)) \<and> inj_on (cs_calls cs) (dom (cs_calls cs)) \<and>
     (\<forall>x pc. view cs x = Some pc \<longrightarrow> pc_Proc pc \<noteq> None \<and> pc_Cb pc \<noteq> None)"

definition call_msg :: "u32 \<Rightarrow> xdr_proc \<Rightarrow> rpc_msg" where
  "call_msg xid proc =
     \<lparr>Xid = xid, Body = \<lparr>Mtype = CALL, mb_u = MB_cbody
       \<lparr>Rpcvers = 2, Prog = xp_Prog proc, Vers = xp_Vers proc, Proc = xp_Proc proc,
        Cred = zero_oa, Verf = zero_oa\<rparr>\<rparr>\<rparr>"

lemma call_header_eq: "call_header xid proc = Inr (call_msg xid proc)"
  by (simp add: call_header_def with_Cbody_def Cbody_def call_msg_def rpc_zeros)

lemma view_eq_None [simp]: "view cs x = None \<longleftrightarrow> cs_calls cs x = None"
  by (simp add: view_def)

lemma ran_remove:
  "inj_on m (dom m) \<Longrightarrow> m x = Some a \<Longrightarrow> ran (m(x := None)) = ran m - {a}"
proof
  assume i: "inj_on m (dom m)" and a: "m x = Some a"
  show "ran (m(x := None)) \<subseteq> ran m - {a}"
    using i a by (auto simp: ran_def inj_on_def dom_def split: if_splits)
  show "ran m - {a} \<subseteq> ran (m(x := None))"
    using a by (auto simp: ran_def) (metis option.inject)
qed

lemma inj_remove: "inj_on m (dom m) \<Longrightarrow> inj_on (m(x := None)) (dom (m(x := None)))"
  by (auto simp: inj_on_def dom_def split: if_splits)

lemma in_ran: "m x = Some a \<Longrightarrow> a \<in> ran m"
  by (auto simp: ran_def)

text \<open>Removing a pending call and recycling its object.\<close>

lemma remove_call:
  assumes inv: "cs_inv cs" and c: "cs_calls cs x = Some a"
    and cs': "cs_pool cs' = ap_Recycle a (cs_pool cs)" "cs_calls cs' = (cs_calls cs)(x := None)"
  shows "cs_inv cs'" and "view cs' = (view cs)(x := None)"
proof -
  have i: "ap_inv (cs_pool cs) (ran (cs_calls cs))" "inj_on (cs_calls cs) (dom (cs_calls cs))"
    using inv by (auto simp: cs_inv_def)
  note r = ran_remove [OF i(2) c]
  have "ap_obj (ap_Recycle a (cs_pool cs)) b = ap_obj (cs_pool cs) b"
    if "cs_calls cs y = Some b" "y \<noteq> x" for y b
  proof (rule anyp.Recycle_frame [OF i(1) in_ran [where m = "cs_calls cs", OF c]])
    have "b \<noteq> a" using that c i(2) by (auto simp: inj_on_def dom_def)
    then show "b \<in> ran (cs_calls cs) - {a}" using that in_ran by fastforce
  qed
  then show v: "view cs' = (view cs)(x := None)"
    by (auto simp: view_def cs' fun_eq_iff map_option_case split: option.splits)
  show "cs_inv cs'"
    using anyp.Recycle_inv [OF i(1) in_ran [where m = "cs_calls cs", OF c]] inj_remove [OF i(2)] inv
    unfolding cs_inv_def v cs' r by (auto split: if_splits)
qed

lemma NewCall_spec:
  assumes inv: "cs_inv cs" and env: "ap_env (cs_pool cs) (ran (cs_calls cs)) e"
    and new: "NewCall e server proc cb cs = Some r"
  obtains xid cs' where "r = Inr (call_msg xid proc, cs')" and "cs_calls cs xid = None"
    and "next_xid (\<lambda>x. cs_calls cs x \<noteq> None) (cs_lastXid cs) = Some xid"
    and "cs_lastXid cs' = xid" and "cs_inv cs'"
    and "view cs' = (view cs)(xid \<mapsto> \<lparr>pc_Proc = Some proc, pc_Cb = Some cb, pc_Server = server\<rparr>)"
proof -
  from new obtain xid where x: "next_xid (\<lambda>x. cs_calls cs x \<noteq> None) (cs_lastXid cs) = Some xid"
    by (auto simp: NewCall_def bindO_eq_Some)
  have free: "cs_calls cs xid = None" using next_xid_sound [OF x] by simp
  obtain p1 a where g: "ap_Get e (cs_pool cs) = (p1, a)" by fastforce
  let ?pc = "\<lparr>pc_Proc = Some proc, pc_Cb = Some cb, pc_Server = server\<rparr>"
  let ?cs = "cs\<lparr>cs_pool := ap_put a ?pc p1, cs_lastXid := xid, cs_calls := (cs_calls cs)(xid \<mapsto> a)\<rparr>"
  have pc: "(ap_obj p1 a)\<lparr>pc_Proc := Some proc, pc_Cb := Some cb, pc_Server := server\<rparr> = ?pc" by simp
  have r: "r = Inr (call_msg xid proc, ?cs)"
    using new x g by (simp add: NewCall_def call_header_eq Let_def pc)
  have i: "ap_inv (cs_pool cs) (ran (cs_calls cs))" "inj_on (cs_calls cs) (dom (cs_calls cs))"
    using inv by (auto simp: cs_inv_def)
  note gp = anyp.Get_put [OF i(1) env g] and nw = anyp.Get_new [OF i(1) env g]
  have v: "view ?cs = (view cs)(xid \<mapsto> ?pc)"
  proof
    show "view ?cs y = ((view cs)(xid \<mapsto> ?pc)) y" for y
      using gp(2) gp(3) [OF in_ran [where m = "cs_calls cs" and x = y]]
      by (cases "cs_calls cs y") (auto simp: view_def)
  qed
  have "inj_on ((cs_calls cs)(xid \<mapsto> a)) (dom ((cs_calls cs)(xid \<mapsto> a)))"
    using i(2) nw by (auto simp: inj_on_def dom_def ran_def split: if_splits)
  moreover have "ran ((cs_calls cs)(xid \<mapsto> a)) = insert a (ran (cs_calls cs))"
    using free by simp
  ultimately have "cs_inv ?cs"
    using gp(1) inv unfolding cs_inv_def v by (auto split: if_splits)
  with that [OF r free x _ _ v] show thesis by simp
qed

lemma Delete_spec:
  assumes "cs_inv cs"
  shows "cs_inv (Delete xid cs)" and "view (Delete xid cs) = (view cs)(xid := None)"
proof -
  have "cs_inv (Delete xid cs) \<and> view (Delete xid cs) = (view cs)(xid := None)"
  proof (cases "cs_calls cs xid")
    case None
    then have "Delete xid cs = cs" by (simp add: Delete_def delete_call_def fun_upd_idem)
    with assms None show ?thesis by (simp add: fun_upd_idem)
  next
    case (Some a)
    show ?thesis
      using remove_call [OF assms Some, of "Delete xid cs"] Some
      by (simp add: Delete_def delete_call_def)
  qed
  then show "cs_inv (Delete xid cs)" "view (Delete xid cs) = (view cs)(xid := None)" by auto
qed

text \<open>The reply a cancelled call gets.\<close>

definition cancel_msg :: "u32 \<Rightarrow> u32 \<Rightarrow> rpc_msg" where
  "cancel_msg xid stat =
     \<lparr>Xid = xid, Body = \<lparr>Mtype = REPLY, mb_u = MB_rbody
       \<lparr>rb_Stat = MSG_ACCEPTED, rb_u = RB_areply
         \<lparr>ar_Verf = zero_oa, ar_Reply_data = \<lparr>rd_Stat = stat, rd_u = RD_nil\<rparr>\<rparr>\<rparr>\<rparr>\<rparr>"

definition cancel_stat :: "u32 list \<Rightarrow> u32" where
  "cancel_stat reason = (if reason = [] \<or> hd reason = SUCCESS then CANCELED else hd reason)"

lemma SetStat_cancel: "SetStat (zero_msg\<lparr>Xid := x\<rparr>) st = Inr (cancel_msg x st)"
  by (simp add: SetStat_eq cancel_msg_def rpc_zeros)

lemma Cancel_spec:
  assumes "cs_inv cs"
  shows "\<exists>cs'. Cancel xid reason cs =
      Inr (case view cs xid of None \<Rightarrow> [] | Some pc \<Rightarrow> [(pc_Cb pc, cancel_msg xid (cancel_stat reason))], cs')
    \<and> cs_inv cs' \<and> view cs' = (view cs)(xid := None)"
proof (cases "cs_calls cs xid")
  case None
  with assms show ?thesis by (auto simp: Cancel_def view_def fun_upd_idem)
next
  case (Some a)
  let ?cs = "cs\<lparr>cs_calls := (cs_calls cs)(xid := None), cs_pool := ap_Recycle a (cs_pool cs)\<rparr>"
  have "Cancel xid reason cs =
      Inr ([(pc_Cb (ap_obj (cs_pool cs) a), cancel_msg xid (cancel_stat reason))], ?cs)"
    using Some by (simp add: Cancel_def SetStat_cancel cancel_stat_def)
  moreover have "view cs xid = Some (ap_obj (cs_pool cs) a)" using Some by (simp add: view_def)
  ultimately show ?thesis using remove_call [OF assms Some, of ?cs] by simp
qed

lemma cancel_loop_cong:
  "(\<And>x. x \<in> set xs \<Longrightarrow> c x = c' x) \<Longrightarrow> cancel_loop c xs p = cancel_loop c' xs p"
  by (induction xs arbitrary: p) (auto split: option.splits)

lemma cancel_loop_spec:
  "cs_inv cs \<Longrightarrow> distinct xs \<Longrightarrow> set xs \<subseteq> dom (cs_calls cs) \<Longrightarrow>
   \<exists>cs'. cancel_loop (cs_calls cs) xs (cs_pool cs) =
       Inr (map (\<lambda>x. (pc_Cb (the (view cs x)), cancel_msg x CANCELED)) xs, cs_pool cs') \<and>
     cs_inv cs' \<and> cs_calls cs' = cs_calls cs |` (- set xs) \<and> cs_lastXid cs' = cs_lastXid cs"
proof (induction xs arbitrary: cs)
  case Nil
  then show ?case by (auto simp: restrict_map_def intro!: exI [of _ cs])
next
  case (Cons x xs)
  from Cons.prems(3) obtain a where a: "cs_calls cs x = Some a" by auto
  let ?cs = "cs\<lparr>cs_calls := (cs_calls cs)(x := None), cs_pool := ap_Recycle a (cs_pool cs)\<rparr>"
  have rm: "cs_inv ?cs" "view ?cs = (view cs)(x := None)"
    using remove_call [OF Cons.prems(1) a, of ?cs] by simp_all
  have sub: "set xs \<subseteq> dom (cs_calls ?cs)" and dx: "distinct xs" using Cons.prems(2,3) by auto
  from Cons.IH [OF rm(1) dx sub] obtain cs' where cs':
    "cancel_loop (cs_calls ?cs) xs (cs_pool ?cs) =
       Inr (map (\<lambda>x. (pc_Cb (the (view ?cs x)), cancel_msg x CANCELED)) xs, cs_pool cs')"
    "cs_inv cs'" "cs_calls cs' = cs_calls ?cs |` (- set xs)" "cs_lastXid cs' = cs_lastXid ?cs"
    by blast
  have "cancel_loop (cs_calls cs) xs (cs_pool ?cs) = cancel_loop (cs_calls ?cs) xs (cs_pool ?cs)"
    by (rule cancel_loop_cong) (use Cons.prems(2) in auto)
  moreover have "map (\<lambda>x. (pc_Cb (the (view ?cs x)), cancel_msg x CANCELED)) xs =
      map (\<lambda>x. (pc_Cb (the (view cs x)), cancel_msg x CANCELED)) xs"
    using Cons.prems(2) unfolding rm(2) by auto
  moreover have "view cs x = Some (ap_obj (cs_pool cs) a)" using a by (simp add: view_def)
  ultimately have "cancel_loop (cs_calls cs) (x # xs) (cs_pool cs) =
      Inr (map (\<lambda>x. (pc_Cb (the (view cs x)), cancel_msg x CANCELED)) (x # xs), cs_pool cs')"
    using cs'(1) a by (simp add: SetStat_cancel)
  moreover have "cs_calls cs' = cs_calls cs |` (- set (x # xs))"
    using cs'(3) by (auto simp: restrict_map_def fun_eq_iff)
  ultimately show ?case using cs'(2,4) by auto
qed

lemma CancelAll_spec:
  assumes "cs_inv cs" and "distinct ord" and "set ord = dom (cs_calls cs)"
  shows "\<exists>cs'. CancelAll ord cs =
      Inr (map (\<lambda>x. (pc_Cb (the (view cs x)), cancel_msg x CANCELED)) ord, cs') \<and>
    cs_inv cs' \<and> view cs' = Map.empty"
proof -
  from cancel_loop_spec [OF assms(1,2)] assms(3) obtain cs' where cs':
    "cancel_loop (cs_calls cs) ord (cs_pool cs) =
       Inr (map (\<lambda>x. (pc_Cb (the (view cs x)), cancel_msg x CANCELED)) ord, cs_pool cs')"
    "cs_inv cs'" "cs_calls cs' = cs_calls cs |` (- set ord)" "cs_lastXid cs' = cs_lastXid cs"
    by auto
  have "cs_calls cs' = Map.empty" using cs'(3) assms(3) by (auto simp: restrict_map_def fun_eq_iff domIff)
  with cs' have "CancelAll ord cs =
      Inr (map (\<lambda>x. (pc_Cb (the (view cs x)), cancel_msg x CANCELED)) ord, cs')"
    by (simp add: CancelAll_def)
  with cs'(2) \<open>cs_calls cs' = Map.empty\<close> show ?thesis by (auto simp: view_def)
qed

text \<open>What a reply to a pending call turns into.\<close>

definition garbage_msg :: "rpc_msg \<Rightarrow> rpc_msg" where
  "garbage_msg m =
     m\<lparr>Body := (Body m)\<lparr>mb_u := MB_rbody ((mb_rb (Body m))\<lparr>rb_u :=
       RB_areply ((rb_ar (mb_rb (Body m)))\<lparr>ar_Reply_data :=
         (ar_Reply_data (rb_ar (mb_rb (Body m))))\<lparr>rd_Stat := GARBAGE_RET\<rparr>\<rparr>)\<rparr>)\<rparr>\<rparr>"

definition succeeded :: "rpc_msg \<Rightarrow> bool" where
  "succeeded m \<longleftrightarrow> Mtype (Body m) = REPLY \<and> rb_Stat (mb_rb (Body m)) = MSG_ACCEPTED \<and>
     rd_Stat (ar_Reply_data (rb_ar (mb_rb (Body m)))) = SUCCESS"

lemma IsSuccess_succeeded: "IsSuccess m = Inr (succeeded m)"
  by (auto simp: IsSuccess_def succeeded_def Rbody_def Areply_def mb_rb_def rb_ar_def)

lemma garbage_step:
  "succeeded m \<Longrightarrow>
   with_Rbody (with_Areply (\<lambda>ar.
     Inr (ar\<lparr>ar_Reply_data := (ar_Reply_data ar)\<lparr>rd_Stat := GARBAGE_RET\<rparr>\<rparr>))) (Body m) =
   Inr (Body (garbage_msg m))"
  by (simp add: with_Rbody_def with_Areply_def Rbody_def Areply_def succeeded_def garbage_msg_def
      mb_rb_def rb_ar_def)

definition reply_outcome ::
  "xdr_proc \<Rightarrow> rpc_msg \<Rightarrow> bytes \<Rightarrow> go_panic + (val option \<times> rpc_msg)" where
  "reply_outcome proc m buf =
     (if succeeded m
      then case xp_in proc buf of
             Inr (res, rest) \<Rightarrow> Inr (Some res, m)
           | Inl p \<Rightarrow> (case p of XdrError e \<Rightarrow> Inr (None, garbage_msg m) | _ \<Rightarrow> Inl p)
      else Inr (None, m))"

lemma GetReply_match:
  assumes inv: "cs_inv cs" and m: "Mtype (Body m) = REPLY"
    and pc: "view cs (Xid m) = Some pc" "pc_Server pc = server" "pc_Proc pc = Some proc"
  shows "\<exists>cs'. GetReply server m buf cs =
      bindE (reply_outcome proc m buf) (\<lambda>(res, m'). Inr (Some (Some proc, pc_Cb pc, res), m', cs')) \<and>
    cs_inv cs' \<and> view cs' = (view cs)(Xid m := None)"
proof -
  from pc(1) obtain a where a: "cs_calls cs (Xid m) = Some a" "ap_obj (cs_pool cs) a = pc"
    by (auto simp: view_def)
  let ?cs = "cs\<lparr>cs_calls := (cs_calls cs)(Xid m := None), cs_pool := ap_Recycle a (cs_pool cs)\<rparr>"
  have "GetReply server m buf cs =
      bindE (reply_outcome proc m buf) (\<lambda>(res, m'). Inr (Some (Some proc, pc_Cb pc, res), m', ?cs))"
    using a m pc garbage_step [of m]
    by (auto simp: GetReply_def Let_def IsSuccess_succeeded reply_outcome_def safeMarshal_def
        garbage_msg_def split: sum.splits go_panic.splits prod.splits)
  with remove_call [OF inv a(1), of ?cs] show ?thesis by (intro exI [of _ ?cs]) simp
qed

lemma GetReply_no_match:
  assumes "\<And>pc. Mtype (Body m) = REPLY \<Longrightarrow> view cs (Xid m) = Some pc \<Longrightarrow> pc_Server pc \<noteq> server"
  shows "GetReply server m buf cs = Inr (None, m, cs)"
proof (cases "Mtype (Body m) = REPLY")
  case r: True
  show ?thesis
  proof (cases "cs_calls cs (Xid m)")
    case None
    with r show ?thesis by (simp add: GetReply_def)
  next
    case (Some a)
    with assms [OF r, of "ap_obj (cs_pool cs) a"] r show ?thesis
      by (simp add: GetReply_def view_def)
  qed
qed (simp add: GetReply_def)

end
