(* ===== verification/CallLife.thy ===== *)
theory CallLife imports CallSet begin

text \<open>
  The life of a call: the operations of a CallSet as a step relation, in whatever order
  its users issue them, with a record of the callbacks handed in, made and given up. The
  invariant accounts for every callback: it is pending, was called once, or was deleted.
\<close>

section \<open>Steps\<close>

record life =
  lf_cs :: callset
  lf_issued :: "nat \<rightharpoonup> u32"
  lf_fired :: "(nat \<times> rpc_msg) list"
  lf_deleted :: "nat set"

definition pending_cb :: "callset \<Rightarrow> nat set" where
  "pending_cb cs = {cb. \<exists>x pc. view cs x = Some pc \<and> pc_Cb pc = Some cb}"

text \<open>
  A reply's callback is made by the caller of GetReply (doMsg in driver.go) right after it;
  the other callbacks are made by the CallSet itself.
\<close>

inductive cl_step :: "life \<Rightarrow> life \<Rightarrow> bool" where
  cl_new: "lf_issued s cb = None \<Longrightarrow> ap_env (cs_pool (lf_cs s)) (ran (cs_calls (lf_cs s))) e \<Longrightarrow>
    NewCall e server proc cb (lf_cs s) = Some (Inr (m, cs')) \<Longrightarrow>
    cl_step s (s\<lparr>lf_cs := cs', lf_issued := (lf_issued s)(cb \<mapsto> Xid m)\<rparr>)"
| cl_delete: "cl_step s (s\<lparr>lf_cs := Delete x (lf_cs s),
    lf_deleted := lf_deleted s \<union> {cb. \<exists>pc. view (lf_cs s) x = Some pc \<and> pc_Cb pc = Some cb}\<rparr>)"
| cl_cancel: "Cancel x reason (lf_cs s) = Inr (ev, cs') \<Longrightarrow>
    cl_step s (s\<lparr>lf_cs := cs', lf_fired := lf_fired s @ map (\<lambda>(c, m). (the c, m)) ev\<rparr>)"
| cl_cancel_all: "distinct ord \<Longrightarrow> set ord = dom (cs_calls (lf_cs s)) \<Longrightarrow>
    CancelAll ord (lf_cs s) = Inr (ev, cs') \<Longrightarrow>
    cl_step s (s\<lparr>lf_cs := cs', lf_fired := lf_fired s @ map (\<lambda>(c, m). (the c, m)) ev\<rparr>)"
| cl_reply: "GetReply server m buf (lf_cs s) = Inr (Some (proc, cb, res), m', cs') \<Longrightarrow>
    cl_step s (s\<lparr>lf_cs := cs', lf_fired := lf_fired s @ [(the cb, m')]\<rparr>)"
| cl_no_reply: "GetReply server m buf (lf_cs s) = Inr (None, m', cs') \<Longrightarrow>
    cl_step s (s\<lparr>lf_cs := cs'\<rparr>)"

inductive cl_reach :: "callset \<Rightarrow> life \<Rightarrow> bool" for cs0 where
  cl_init: "cl_reach cs0 \<lparr>lf_cs = cs0, lf_issued = Map.empty, lf_fired = [], lf_deleted = {}\<rparr>"
| cl_more: "cl_reach cs0 s \<Longrightarrow> cl_step s s' \<Longrightarrow> cl_reach cs0 s'"

inductive_cases cl_stepE: "cl_step s s'"

section \<open>The invariant\<close>

definition life_inv :: "life \<Rightarrow> bool" where
  "life_inv s \<longleftrightarrow>
     cs_inv (lf_cs s) \<and>
     (\<forall>x pc cb. view (lf_cs s) x = Some pc \<longrightarrow> pc_Cb pc = Some cb \<longrightarrow> lf_issued s cb = Some x) \<and>
     distinct (map fst (lf_fired s)) \<and>
     (\<forall>(cb, m) \<in> set (lf_fired s). lf_issued s cb = Some (Xid m)) \<and>
     fst ` set (lf_fired s) \<inter> pending_cb (lf_cs s) = {} \<and>
     lf_deleted s \<inter> pending_cb (lf_cs s) = {} \<and>
     fst ` set (lf_fired s) \<inter> lf_deleted s = {} \<and>
     dom (lf_issued s) = fst ` set (lf_fired s) \<union> lf_deleted s \<union> pending_cb (lf_cs s)"

lemma pending_remove:
  assumes "\<forall>x pc cb. view cs x = Some pc \<longrightarrow> pc_Cb pc = Some cb \<longrightarrow> iss cb = Some x"
    and "view cs' = (view cs)(x := None)"
  shows "pending_cb cs' = pending_cb cs - {cb. \<exists>pc. view cs x = Some pc \<and> pc_Cb pc = Some cb}"
proof -
  have *: "y = x" if "view cs y = Some pc" "view cs x = Some pc'" "pc_Cb pc = Some cb" "pc_Cb pc' = Some cb"
    for y pc pc' cb
  proof -
    have "iss cb = Some y" "iss cb = Some x" using assms(1) that by blast+
    then show ?thesis by simp
  qed
  show ?thesis unfolding pending_cb_def assms(2) by (auto dest: *)
qed

text \<open>One pending call leaves the map and its callback is accounted for as called.\<close>

lemma life_fire:
  assumes inv: "life_inv s" and pc: "view (lf_cs s) x = Some pc" "pc_Cb pc = Some cb"
    and cs': "cs_inv cs'" "view cs' = (view (lf_cs s))(x := None)" and m: "Xid m = x"
  shows "life_inv (s\<lparr>lf_cs := cs', lf_fired := lf_fired s @ [(cb, m)]\<rparr>)"
proof -
  have iss: "\<forall>x pc cb. view (lf_cs s) x = Some pc \<longrightarrow> pc_Cb pc = Some cb \<longrightarrow> lf_issued s cb = Some x"
    using inv by (simp add: life_inv_def)
  have p: "pending_cb cs' = pending_cb (lf_cs s) - {cb}"
    using pending_remove [OF iss cs'(2)] pc by auto
  have in_p: "cb \<in> pending_cb (lf_cs s)" using pc by (auto simp: pending_cb_def)
  have "lf_issued s cb = Some (Xid m)" using iss pc m by blast
  moreover have "cb \<notin> fst ` set (lf_fired s)" "cb \<notin> lf_deleted s" using inv in_p by (auto simp: life_inv_def)
  ultimately show ?thesis
    using inv cs' in_p unfolding life_inv_def by (auto simp: p split: if_splits)
qed

lemma life_new:
  assumes inv: "life_inv s" and new: "lf_issued s cb = None"
    and x: "view (lf_cs s) x = None" "pc_Cb pc = Some cb"
    and cs': "cs_inv cs'" "view cs' = (view (lf_cs s))(x \<mapsto> pc)"
  shows "life_inv (s\<lparr>lf_cs := cs', lf_issued := (lf_issued s)(cb \<mapsto> x)\<rparr>)"
proof -
  have p: "pending_cb cs' = insert cb (pending_cb (lf_cs s))"
  proof
    show "pending_cb cs' \<subseteq> insert cb (pending_cb (lf_cs s))"
      using x unfolding pending_cb_def cs'(2) by (auto split: if_splits)
    show "insert cb (pending_cb (lf_cs s)) \<subseteq> pending_cb cs'"
    proof
      fix c assume "c \<in> insert cb (pending_cb (lf_cs s))"
      then consider "c = cb" | y pc' where "view (lf_cs s) y = Some pc'" "pc_Cb pc' = Some c"
        by (auto simp: pending_cb_def)
      then show "c \<in> pending_cb cs'"
      proof cases
        case 1
        then show ?thesis using x(2) cs'(2) by (auto simp: pending_cb_def)
      next
        case (2 y pc')
        have "y \<noteq> x" using 2(1) x(1) by (metis option.distinct(1))
        then have "view cs' y = Some pc'" using 2(1) cs'(2) by simp
        with 2(2) show ?thesis by (auto simp: pending_cb_def)
      qed
    qed
  qed
  have d: "dom (lf_issued s) = fst ` set (lf_fired s) \<union> lf_deleted s \<union> pending_cb (lf_cs s)"
    using inv by (simp add: life_inv_def)
  have n: "cb \<notin> fst ` set (lf_fired s)" "cb \<notin> lf_deleted s" "cb \<notin> pending_cb (lf_cs s)"
    using new d by (auto simp: domIff)
  have f: "lf_issued s c \<noteq> None" if "(c, m) \<in> set (lf_fired s)" for c m
    using inv that by (force simp: life_inv_def)
  show ?thesis
    using inv new n x cs' unfolding life_inv_def
    by (auto split: if_splits simp: p d dest: f)
qed

lemma life_delete:
  assumes inv: "life_inv s" and cs': "cs_inv cs'" "view cs' = (view (lf_cs s))(x := None)"
  shows "life_inv (s\<lparr>lf_cs := cs',
    lf_deleted := lf_deleted s \<union> {cb. \<exists>pc. view (lf_cs s) x = Some pc \<and> pc_Cb pc = Some cb}\<rparr>)"
proof -
  have iss: "\<forall>x pc cb. view (lf_cs s) x = Some pc \<longrightarrow> pc_Cb pc = Some cb \<longrightarrow> lf_issued s cb = Some x"
    using inv by (simp add: life_inv_def)
  note p = pending_remove [OF iss cs'(2)]
  have sub: "{cb. \<exists>pc. view (lf_cs s) x = Some pc \<and> pc_Cb pc = Some cb} \<subseteq> pending_cb (lf_cs s)"
    by (auto simp: pending_cb_def)
  show ?thesis
    using inv cs' sub unfolding life_inv_def by (auto simp: p split: if_splits)
qed

text \<open>CancelAll: every pending call leaves at once.\<close>

lemma life_cancel_all:
  assumes inv: "life_inv s" and o: "distinct ord" "set ord = dom (cs_calls (lf_cs s))"
    and cs': "cs_inv cs'" "view cs' = Map.empty"
    and ev: "ev = map (\<lambda>x. (pc_Cb (the (view (lf_cs s) x)), cancel_msg x CANCELED)) ord"
  shows "life_inv (s\<lparr>lf_cs := cs', lf_fired := lf_fired s @ map (\<lambda>(c, m). (the c, m)) ev\<rparr>)"
proof -
  have iss: "\<forall>x pc cb. view (lf_cs s) x = Some pc \<longrightarrow> pc_Cb pc = Some cb \<longrightarrow> lf_issued s cb = Some x"
    and cb: "\<forall>x pc. view (lf_cs s) x = Some pc \<longrightarrow> pc_Cb pc \<noteq> None"
    using inv by (auto simp: life_inv_def cs_inv_def)
  define c where "c = (\<lambda>x. the (pc_Cb (the (view (lf_cs s) x))))"
  have dom: "set ord = dom (view (lf_cs s))" using o(2) by (simp add: dom_def view_def)
  have c: "lf_issued s (c x) = Some x" "c x \<in> pending_cb (lf_cs s)" if "x \<in> set ord" for x
  proof -
    from that dom obtain pc where pc: "view (lf_cs s) x = Some pc" by auto
    with cb obtain d where "pc_Cb pc = Some d" by blast
    with pc iss show "lf_issued s (c x) = Some x" "c x \<in> pending_cb (lf_cs s)"
      by (auto simp: c_def pending_cb_def)
  qed
  have inj: "inj_on c (set ord)" by (rule inj_onI) (metis c(1) option.inject)
  have p: "c ` set ord = pending_cb (lf_cs s)"
  proof
    show "c ` set ord \<subseteq> pending_cb (lf_cs s)" using c(2) by blast
    show "pending_cb (lf_cs s) \<subseteq> c ` set ord"
      unfolding dom by (force simp: pending_cb_def c_def)
  qed
  have p': "pending_cb cs' = {}" by (simp add: pending_cb_def cs'(2))
  have f: "map (\<lambda>(c, m). (the c, m)) ev = map (\<lambda>x. (c x, cancel_msg x CANCELED)) ord"
    by (simp add: ev c_def)
  have fs: "fst ` set (map (\<lambda>x. (c x, cancel_msg x CANCELED)) ord) = pending_cb (lf_cs s)"
    by (simp add: image_image p)
  have ds: "distinct (map fst (map (\<lambda>x. (c x, cancel_msg x CANCELED)) ord))"
    using o(1) inj by (simp add: distinct_map comp_def)
  have xs: "\<forall>(d, m) \<in> set (map (\<lambda>x. (c x, cancel_msg x CANCELED)) ord). lf_issued s d = Some (Xid m)"
    using c(1) by (auto simp: cancel_msg_def)
  show ?thesis
    using inv cs' ds xs fs unfolding life_inv_def f
    by (simp add: p' image_Un del: map_map) (auto simp: image_Un)
qed

lemma Inr_eq_bindE: "Inr y = bindE m f \<longleftrightarrow> (\<exists>x. m = Inr x \<and> f x = Inr y)"
  by (cases m) auto

lemma life_step:
  assumes "cl_step s s'" and inv: "life_inv s"
  shows "life_inv s'"
  using assms(1)
proof (cases rule: cl_step.cases)
  case (cl_new cb e server proc m cs')
  have i: "cs_inv (lf_cs s)" using inv by (simp add: life_inv_def)
  from NewCall_spec [OF i cl_new(3,4)] obtain xid where
    x: "m = call_msg xid proc" "cs_calls (lf_cs s) xid = None" "cs_inv cs'"
      "view cs' = (view (lf_cs s))(xid \<mapsto> \<lparr>pc_Proc = Some proc, pc_Cb = Some cb, pc_Server = server\<rparr>)"
    by auto
  have "Xid m = xid" using x(1) by (simp add: call_msg_def)
  with life_new [OF inv cl_new(2) _ _ x(3,4)] x(2) cl_new(1) show ?thesis by simp
next
  case (cl_delete x)
  have i: "cs_inv (lf_cs s)" using inv by (simp add: life_inv_def)
  from life_delete [OF inv Delete_spec [OF i]] cl_delete show ?thesis by simp
next
  case (cl_cancel x reason ev cs')
  have i: "cs_inv (lf_cs s)" using inv by (simp add: life_inv_def)
  from Cancel_spec [OF i, of x reason] cl_cancel(2) have c: "cs_inv cs'"
      "view cs' = (view (lf_cs s))(x := None)"
      "ev = (case view (lf_cs s) x of None \<Rightarrow> []
        | Some pc \<Rightarrow> [(pc_Cb pc, cancel_msg x (cancel_stat reason))])"
    by auto
  show ?thesis
  proof (cases "view (lf_cs s) x")
    case None
    have e: "{cb. \<exists>pc. view (lf_cs s) x = Some pc \<and> pc_Cb pc = Some cb} = {}"
      by (simp only: None) simp
    have "ev = []" using c(3) by (simp only: None option.case)
    then have "s' = s\<lparr>lf_cs := cs', lf_deleted := lf_deleted s \<union>
        {cb. \<exists>pc. view (lf_cs s) x = Some pc \<and> pc_Cb pc = Some cb}\<rparr>"
      using cl_cancel(1) unfolding e by simp
    with life_delete [OF inv c(1,2)] show ?thesis by simp
  next
    case (Some pc)
    with i obtain cb where "pc_Cb pc = Some cb" by (auto simp: cs_inv_def)
    with life_fire [OF inv Some this c(1,2), of "cancel_msg x (cancel_stat reason)"] cl_cancel(1) c(3) Some
    show ?thesis by (simp add: cancel_msg_def)
  qed
next
  case (cl_cancel_all ord ev cs')
  have i: "cs_inv (lf_cs s)" using inv by (simp add: life_inv_def)
  from CancelAll_spec [OF i cl_cancel_all(2,3)] cl_cancel_all(4)
  have c: "cs_inv cs'" "view cs' = Map.empty"
      "ev = map (\<lambda>x. (pc_Cb (the (view (lf_cs s) x)), cancel_msg x CANCELED)) ord"
    by auto
  from life_cancel_all [OF inv cl_cancel_all(2,3) c] cl_cancel_all(1) show ?thesis by simp
next
  case (cl_reply server m buf proc cb res m' cs')
  have i: "cs_inv (lf_cs s)" using inv by (simp add: life_inv_def)
  have "\<exists>pc. Mtype (Body m) = REPLY \<and> view (lf_cs s) (Xid m) = Some pc \<and> pc_Server pc = server"
    using GetReply_no_match [of m "lf_cs s" server buf] cl_reply(2) by auto
  then obtain pc where pc: "Mtype (Body m) = REPLY" "view (lf_cs s) (Xid m) = Some pc"
      "pc_Server pc = server"
    by blast
  with i obtain pr d where pd: "pc_Proc pc = Some pr" "pc_Cb pc = Some d" by (fastforce simp: cs_inv_def)
  from GetReply_match [OF i pc pd(1), of buf] cl_reply(2) pd(2)
  have c: "cb = Some d" "cs_inv cs'" "view cs' = (view (lf_cs s))(Xid m := None)"
      "reply_outcome pr m buf = Inr (res, m')"
    by (auto simp: bindE_eq_Inr Inr_eq_bindE)
  have "Xid m' = Xid m"
    using c(4) by (auto simp: reply_outcome_def garbage_msg_def split: if_splits sum.splits go_panic.splits)
  with life_fire [OF inv pc(2) pd(2) c(2,3)] cl_reply(1) c(1) show ?thesis by simp
next
  case (cl_no_reply server m buf m' cs')
  have "cs' = lf_cs s"
  proof (rule ccontr)
    assume n: "cs' \<noteq> lf_cs s"
    have i: "cs_inv (lf_cs s)" using inv by (simp add: life_inv_def)
    have "\<exists>pc. Mtype (Body m) = REPLY \<and> view (lf_cs s) (Xid m) = Some pc \<and> pc_Server pc = server"
      using GetReply_no_match [of m "lf_cs s" server buf] cl_no_reply(2) n by auto
    then obtain pc where pc: "Mtype (Body m) = REPLY" "view (lf_cs s) (Xid m) = Some pc"
        "pc_Server pc = server"
      by blast
    with i obtain pr where "pc_Proc pc = Some pr" by (fastforce simp: cs_inv_def)
    from GetReply_match [OF i pc this, of buf] cl_no_reply(2) show False
      by (auto simp: bindE_eq_Inr Inr_eq_bindE)
  qed
  with cl_no_reply(1) inv show ?thesis by simp
qed

lemma life_reach:
  assumes "cs_inv cs0" and "cs_calls cs0 = Map.empty"
  shows "cl_reach cs0 s \<Longrightarrow> life_inv s"
proof (induction rule: cl_reach.induct)
  case cl_init
  have "pending_cb cs0 = {}" using assms(2) by (simp add: pending_cb_def view_def)
  with assms show ?case by (simp add: life_inv_def view_def)
qed (rule life_step)

end
