(* ===== verification/RpcCorrect.thy ===== *)
theory RpcCorrect imports XdrPanics RpcServer CallLife begin

text \<open>
  The properties of the RPC runtime's parts, each with a witness: message headers on the
  wire, the dispatcher, and the set of pending calls.
\<close>

section \<open>Headers\<close>

lemma unmarshal_zero_eq:
  "GetMsg buf = Inr (Inr (m, r)) \<longleftrightarrow> unmarshal_msg zero_msg buf = Inr (m, r)"
  by (simp add: GetMsg_def safeMarshal_eq)

lemma Xid_of_encoding:
  assumes "marshal_msg m = Inr b" and "msg_fits m"
  shows "msg_Xid (b @ r) = Xid m"
proof -
  from msg_fits_x [OF assms(2)] obtain a where a: "x_msg m = Some a" by blast
  have "b = rfc a"
    using msg_coder.enc_sound [of rpc_depth "val_of m" b a] assms(1) a
    by (simp add: marshal_msg_def abs_msg_x [symmetric] abs_msg_def)
  moreover from a obtain y where "a = XStruct [X32 (Xid m), y]"
    by (auto simp: x_msg_def bindO_eq_Some)
  ultimately obtain t where t: "b = be_put32 (Xid m) @ t" by simp
  have "msg_Xid (be_put32 w @ t') = be_get32 (be_put32 w)" for w t'
    by (simp add: msg_Xid_def be_put32_def ac_simps)
  then show ?thesis by (simp add: t)
qed

text \<open>
  C10. A header whose discriminants and authenticators fit the protocol is serialized, and
  GetMsg reads it back, with the same Xid, discriminants and selected bodies, from the
  front of a longer message; Xid() reads its XID out of the bytes.
\<close>

theorem GetMsg_Serialize:
  assumes "msg_fits m"
  shows "\<exists>b m'. Serialize buf [marshal_msg m] = Inr (buf @ b) \<and> GetMsg (b @ r) = Inr (Inr (m', r)) \<and>
    norm_msg m' = norm_msg m \<and> msg_Xid (b @ r) = Xid m"
proof -
  from unmarshal_marshal [OF assms, of zero_msg r] obtain b m' where
    b: "marshal_msg m = Inr b" "unmarshal_msg zero_msg (b @ r) = Inr (m', r)" "norm_msg m' = norm_msg m"
    by blast
  with Xid_of_encoding [OF b(1) assms] show ?thesis by (auto simp: unmarshal_zero_eq)
qed

lemma ex_call_fits: "msg_fits (call_msg 7 \<lparr>xp_Prog = 1, xp_Vers = 2, xp_Proc = 3, xp_in = (\<lambda>b. Inr (VBool True, b))\<rparr>)"
  by (simp add: msg_fits_def call_msg_def mb_call_def call_fits_def oa_fits_def zero_oa_def rpc_consts)

theorem GetMsg_Serialize_witness:
  "\<exists>b m'. Serialize [] [marshal_msg (call_msg 7 \<lparr>xp_Prog = 1, xp_Vers = 2, xp_Proc = 3, xp_in = (\<lambda>b. Inr (VBool True, b))\<rparr>)] =
      Inr ([] @ b) \<and> GetMsg (b @ [9]) = Inr (Inr (m', [9])) \<and>
    norm_msg m' = norm_msg (call_msg 7 \<lparr>xp_Prog = 1, xp_Vers = 2, xp_Proc = 3, xp_in = (\<lambda>b. Inr (VBool True, b))\<rparr>) \<and>
    msg_Xid (b @ [9]) = Xid (call_msg 7 \<lparr>xp_Prog = 1, xp_Vers = 2, xp_Proc = 3, xp_in = (\<lambda>b. Inr (VBool True, b))\<rparr>)"
  by (rule GetMsg_Serialize [OF ex_call_fits])

text \<open>
  GetMsg accepts nothing but the encodings of such headers: what it read, serialized
  again, is the prefix of the message it consumed.
\<close>

lemma GetMsg_canonical:
  assumes "GetMsg buf = Inr (Inr (m, r))"
  shows "msg_fits m \<and> (\<exists>b. Serialize [] [marshal_msg m] = Inr b \<and> buf = b @ r)"
  using unmarshal_msg_canonical [OF assms [unfolded unmarshal_zero_eq]] by auto

lemma ex_reply_bytes:
  "GetMsg [0,0,0,5, 0,0,0,1, 0,0,0,1, 0,0,0,1, 0,0,0,4] = Inr (Inr
     (\<lparr>Xid = 5, Body = \<lparr>Mtype = 1, mb_u = MB_rbody
        \<lparr>rb_Stat = 1, rb_u = RB_rreply \<lparr>rj_Stat = 1, rj_u = RJ_why 4\<rparr>\<rparr>\<rparr>\<rparr>, []))"
  by code_simp

lemma GetMsg_canonical_witness:
  "msg_fits \<lparr>Xid = 5, Body = \<lparr>Mtype = 1, mb_u = MB_rbody
        \<lparr>rb_Stat = 1, rb_u = RB_rreply \<lparr>rj_Stat = 1, rj_u = RJ_why 4\<rparr>\<rparr>\<rparr>\<rparr> \<and>
   (\<exists>b. Serialize [] [marshal_msg \<lparr>Xid = 5, Body = \<lparr>Mtype = 1, mb_u = MB_rbody
        \<lparr>rb_Stat = 1, rb_u = RB_rreply \<lparr>rj_Stat = 1, rj_u = RJ_why 4\<rparr>\<rparr>\<rparr>\<rparr>] = Inr b \<and>
      [0,0,0,5, 0,0,0,1, 0,0,0,1, 0,0,0,1, 0,0,0,4] = b @ [])"
  by (rule GetMsg_canonical [OF ex_reply_bytes])

lemma plain_rpc_pkg: "plain_pkg rpc_pkg" "plain_tname (Ident ''Rpc_msg'')"
  by code_simp+

lemma GetMsg_total:
  assumes "length buf mod 4 = 0"
  shows "\<exists>res. GetMsg buf = Inr res"
proof (cases "unmarshal_msg zero_msg buf")
  case (Inr y)
  then show ?thesis by (simp add: GetMsg_def)
next
  case (Inl p)
  have al: "aligned buf" using assms by (simp only: aligned_def)
  have ty: "has_gty rpc_pkg (go_typ rpc_pkg (Ident ''Rpc_msg'')) (val_of zero_msg)"
    by (auto simp: typed_msg)
  from calm_decD [OF calm_typ [OF wf_rpc_pkg plain_rpc_pkg(1) rpc_scalar_ok plain_rpc_pkg(2)] ty al]
    Inl have "calm p" by (simp add: unmarshal_msg_Inl)
  moreover have "p \<noteq> Stuck" "p \<noteq> StackOverflow" using Inl unmarshal_msg_panics by metis+
  ultimately obtain e where "p = XdrError e" by (cases p) (auto simp: calm_def)
  with Inl show ?thesis by (simp add: GetMsg_def)
qed

text \<open>
  GetMsg of a message whose length is a multiple of four returns: a header or an
  error, but no panic.
\<close>

lemma GetMsg_no_panic:
  assumes "length buf mod 4 = 0"
  shows "\<exists>res. GetMsg buf = Inr res"
  by (rule GetMsg_total [OF assms])

lemma GetMsg_no_panic_witness: "\<exists>res. GetMsg [0, 0, 0, 1] = Inr res"
  by (rule GetMsg_no_panic) simp

text \<open>
  On a message of one to three bytes GetMsg does not return an error: the short read
  leaves a nil error, whose use is a run-time panic that safeMarshal does not catch.
\<close>

lemma GetMsg_stray_bytes:
  assumes "0 < length buf" and "length buf < 4"
  shows "GetMsg buf = Inl NilErrorDeref"
proof -
  have r: "xdrGet32 buf = Inl NilErrorDeref"
    using assms by (cases buf) (auto simp: xdrGet32_def xdrReadInto_def buf_Read_def)
  have seven: "rpc_depth = Suc (Suc (Suc (Suc (Suc (Suc (Suc 0))))))" by (simp add: rpc_depth_def)
  have "in_typ rpc_pkg rpc_depth (Ident ''Rpc_msg'') (val_of zero_msg) buf = Inl NilErrorDeref"
    unfolding seven by (subst in_typ.simps)
      (simp add: sym_rpc_msg_def in_sym_def in_decl_def in_base_def val_of_def r del: in_typ.simps(3))
  then show ?thesis by (simp add: GetMsg_def unmarshal_msg_def safeMarshal_def)
qed

lemma GetMsg_stray_bytes_witness: "GetMsg [0] = Inl NilErrorDeref"
  by (rule GetMsg_stray_bytes) simp_all

text \<open>
  SetStat makes an accepted reply of any header, keeping its XID, and IsSuccess of it
  holds exactly for SUCCESS. IsSuccess itself never panics.
\<close>

lemma SetStat_IsSuccess:
  "\<exists>m'. SetStat m stat = Inr m' \<and> IsSuccess m' = Inr (stat = SUCCESS) \<and> Xid m' = Xid m \<and>
     Mtype (Body m') = REPLY \<and> (\<exists>b. IsSuccess m = Inr b)"
proof -
  obtain m' where m': "SetStat m stat = Inr m'" by (simp add: SetStat_eq)
  then have "Mtype (Body m') = REPLY" by (auto simp: SetStat_eq)
  with m' IsSuccess_SetStat [OF m'] Xid_SetStat [OF m'] IsSuccess_total [of m] show ?thesis by blast
qed

section \<open>The dispatcher\<close>

text \<open>
  Register keeps every service under its own program and version, replaces the one
  registered there before, and leaves all others.
\<close>

lemma Register_lookup:
  assumes "srv_ok s"
  shows "srv_ok (Register srv s) \<and>
    srv_lookup (Register srv s) p v =
      (if p = sv_Prog srv \<and> v = sv_Vers srv then Some srv else srv_lookup s p v)"
  using srv_ok_Register [OF assms] srv_lookup_Register by blast

definition ex_srv :: xdr_srv where
  "ex_srv = \<lparr>sv_Prog = 9, sv_Vers = 2,
     sv_GetProc = (\<lambda>p. if p = 1
       then Some \<lparr>sp_in = (\<lambda>b. bindE (xdrGet32 b) (\<lambda>(w, r). Inr (VNum32 w, r))), sp_Do = Inr,
                  sp_out = (\<lambda>v. case v of VNum32 w \<Rightarrow> Inr (be_put32 w) | _ \<Rightarrow> Inl Stuck)\<rparr>
       else None)\<rparr>"

lemma Register_lookup_witness:
  "srv_ok (Register ex_srv Map.empty) \<and>
    srv_lookup (Register ex_srv Map.empty) 9 2 =
      (if 9 = sv_Prog ex_srv \<and> 2 = sv_Vers ex_srv then Some ex_srv else srv_lookup Map.empty 9 2)"
  by (rule Register_lookup [OF srv_ok_empty])

text \<open>
  C11. GetProc of a version 2 call, when it returns, has decided as RFC 5531 orders the
  checks: the reply carries the call's XID and the first status that applies, with the
  range of registered versions for PROG_MISMATCH, and a procedure is returned exactly
  with SUCCESS. It is independent of the order in which Go ranges over the versions.
\<close>

theorem GetProc_decides:
  assumes "Mtype (Body m) = CALL" and "Rpcvers (mb_call (Body m)) = 2" and "srv_ok s"
    and "\<And>prog. prog \<in> ran s \<Longrightarrow> set (ord prog) = dom prog"
    and "GetProc ord s m inp = Inr (r, p)"
  shows "r = Some (accepted_msg (Xid m) (call_stat s (mb_call (Body m)) inp)
      (if call_stat s (mb_call (Body m)) inp = PROG_MISMATCH
       then RD_mismatch (version_range (the (s (Prog (mb_call (Body m)))))) else RD_nil)) \<and>
    (p \<noteq> None \<longleftrightarrow> call_stat s (mb_call (Body m)) inp = SUCCESS)"
  using GetProc_call [OF assms(1,2,5,4,3)] by blast

definition ex_cmsg :: rpc_msg where
  "ex_cmsg = \<lparr>Xid = 7, Body = \<lparr>Mtype = 0, mb_u = MB_cbody
     \<lparr>Rpcvers = 2, Prog = 9, Vers = 4, Proc = 1, Cred = zero_oa, Verf = zero_oa\<rparr>\<rparr>\<rparr>"

lemma ex_GetProc:
  "GetProc (\<lambda>_. [2]) (Register ex_srv Map.empty) ex_cmsg None =
   Inr (Some (accepted_msg 7 PROG_MISMATCH (RD_mismatch \<lparr>Low = 2, High = 2\<rparr>)), None)"
proof -
  have "ver_step 2 (zero_mm\<lparr>Low := 0xffffffff\<rparr>) = \<lparr>Low = 2, High = 2\<rparr>" by code_simp
  then show ?thesis
    using GetProc_vers [of ex_cmsg "Register ex_srv Map.empty" "[2 \<mapsto> ex_srv]" "\<lambda>_. [2]" None]
    by (simp add: ex_cmsg_def mb_call_def Register_def ex_srv_def rpc_consts)
qed

theorem GetProc_decides_witness:
  "Some (accepted_msg 7 PROG_MISMATCH (RD_mismatch \<lparr>Low = 2, High = 2\<rparr>)) =
     Some (accepted_msg (Xid ex_cmsg) (call_stat (Register ex_srv Map.empty) (mb_call (Body ex_cmsg)) None)
      (if call_stat (Register ex_srv Map.empty) (mb_call (Body ex_cmsg)) None = PROG_MISMATCH
       then RD_mismatch (version_range (the (Register ex_srv Map.empty (Prog (mb_call (Body ex_cmsg))))))
       else RD_nil)) \<and>
    ((None :: (srv_proc \<times> val option) option) \<noteq> None \<longleftrightarrow>
      call_stat (Register ex_srv Map.empty) (mb_call (Body ex_cmsg)) None = SUCCESS)"
proof (rule GetProc_decides [OF _ _ srv_ok_Register [OF srv_ok_empty] _ ex_GetProc])
  show "set [2] = dom prog" if "prog \<in> ran (Register ex_srv Map.empty)" for prog
    using that by (auto simp: Register_def ex_srv_def ran_def split: if_splits)
qed (simp_all add: ex_cmsg_def mb_call_def rpc_consts)

lemma accepted_msg_sel [simp]:
  "Xid (accepted_msg x st u) = x" "Mtype (Body (accepted_msg x st u)) = REPLY"
  "succeeded (accepted_msg x st u) \<longleftrightarrow> st = SUCCESS"
  by (simp_all add: accepted_msg_def succeeded_def mb_rb_def rb_ar_def)

lemma denied_msg_sel [simp]:
  "Xid (denied_msg x) = x" "Mtype (Body (denied_msg x)) = REPLY" "\<not> succeeded (denied_msg x)"
  by (simp_all add: denied_msg_def succeeded_def mb_rb_def)

text \<open>What GetProc returns for a call: its shape, whatever the table.\<close>

definition proc_result :: "rpc_msg \<Rightarrow> rpc_msg option \<times> 'p option \<Rightarrow> bool" where
  "proc_result m rp \<longleftrightarrow>
     (case fst rp of
        None \<Rightarrow> Mtype (Body m) \<noteq> CALL \<and> snd rp = None
      | Some r \<Rightarrow> Mtype (Body m) = CALL \<and> Mtype (Body r) = REPLY \<and> msg_fits r \<and> Xid r = Xid m \<and>
          (succeeded r \<longleftrightarrow> snd rp \<noteq> None))"

lemma stat_distinct: "PROG_UNAVAIL \<noteq> SUCCESS" "PROG_MISMATCH \<noteq> SUCCESS" "PROC_UNAVAIL \<noteq> SUCCESS"
  "GARBAGE_ARGS \<noteq> SUCCESS"
  by (simp_all add: rpc_consts)

lemma proc_result_intros:
  "Mtype (Body m) = CALL \<Longrightarrow> st \<noteq> SUCCESS \<Longrightarrow> proc_result m (Some (accepted_msg (Xid m) st u), None)"
  "Mtype (Body m) = CALL \<Longrightarrow> proc_result m (Some (accepted_msg (Xid m) SUCCESS u), Some p)"
  "Mtype (Body m) = CALL \<Longrightarrow> proc_result m (Some (denied_msg (Xid m)), None)"
  "Mtype (Body m) \<noteq> CALL \<Longrightarrow> proc_result m (None, None)"
  by (simp_all add: proc_result_def accepted_msg_fits denied_msg_fits)

lemma GetProc_shape:
  "case GetProc ord s m inp of
     Inl q \<Rightarrow> (\<forall>e. q \<noteq> XdrError e) \<and>
       (\<exists>srv proc buf. srv_lookup s (Prog (mb_call (Body m))) (Vers (mb_call (Body m))) = Some srv \<and>
          sv_GetProc srv (Proc (mb_call (Body m))) = Some proc \<and> inp = Some buf \<and>
          sp_in proc buf = Inl q)
   | Inr rp \<Rightarrow> proc_result m rp"
proof (cases "Mtype (Body m) = CALL \<and> Rpcvers (mb_call (Body m)) = 2")
  case False
  then consider "Mtype (Body m) \<noteq> CALL" | "Mtype (Body m) = CALL" "Rpcvers (mb_call (Body m)) \<noteq> 2"
    by blast
  then show ?thesis
    by cases (simp_all add: GetProc_not_call GetProc_rpcvers proc_result_intros)
next
  case True
  then have call: "Mtype (Body m) = CALL" "Rpcvers (mb_call (Body m)) = 2" by auto
  note i = proc_result_intros(1) [OF call(1)]
  show ?thesis
  proof (cases "s (Prog (mb_call (Body m)))")
    case None
    then show ?thesis by (simp add: GetProc_prog [OF call] i stat_distinct)
  next
    case p: (Some prog)
    show ?thesis
    proof (cases "prog (Vers (mb_call (Body m)))")
      case None
      then show ?thesis by (simp add: GetProc_vers [where s = s, OF call p] i stat_distinct)
    next
      case v: (Some srv)
      show ?thesis
      proof (cases "sv_GetProc srv (Proc (mb_call (Body m)))")
        case None
        then show ?thesis by (simp add: GetProc_proc [where s = s, OF call p v] i stat_distinct)
      next
        case f: (Some proc)
        have l: "srv_lookup s (Prog (mb_call (Body m))) (Vers (mb_call (Body m))) = Some srv"
          using p v by (simp add: srv_lookup_def)
        show ?thesis
        proof (cases inp)
          case None
          then show ?thesis
            by (simp add: GetProc_found_nil [where s = s, OF call p v f] proc_result_intros(2) [OF call(1)])
        next
          case (Some buf)
          then show ?thesis
            using GetProc_found [where s = s, OF call p v f, of ord buf] l f
            by (cases "sp_in proc buf")
              (auto simp: proc_result_intros(2) [OF call(1)] i stat_distinct split: go_panic.splits)
        qed
      qed
    qed
  qed
qed

text \<open>
  Whatever the header and the registered services, GetProc answers calls and only
  calls, with a reply that fits the wire format and carries the call's XID, and returns a
  procedure exactly with a success; it panics only with a panic of the argument's
  unmarshaling that is not an XdrError.
\<close>

lemma GetProc_result:
  "case GetProc ord s m inp of
     Inl q \<Rightarrow> (\<forall>e. q \<noteq> XdrError e) \<and>
       (\<exists>srv proc buf. srv_lookup s (Prog (mb_call (Body m))) (Vers (mb_call (Body m))) = Some srv \<and>
          sv_GetProc srv (Proc (mb_call (Body m))) = Some proc \<and> inp = Some buf \<and>
          sp_in proc buf = Inl q)
   | Inr rp \<Rightarrow> proc_result m rp"
  by (rule GetProc_shape)

section \<open>Pending calls\<close>

text \<open>
  The search for an XID returns the first one after the last used that is not pending,
  counting modulo 2^32; it returns at all exactly when some XID is free.
\<close>

lemma next_xid_first_free:
  "(next_xid used x = Some y \<longleftrightarrow>
     (\<exists>k. y = x + of_nat (Suc k) \<and> \<not> used y \<and> list_all (\<lambda>i. used (x + of_nat (Suc i))) [0..<k])) \<and>
   ((\<exists>y. next_xid used x = Some y) \<longleftrightarrow> (\<exists>z. \<not> used z))"
proof -
  have e: "\<exists>k. \<not> used (x + of_nat (Suc k)) \<and> (\<forall>i < k. used (x + of_nat (Suc i)))" if "\<not> used z" for z
  proof -
    let ?free = "\<lambda>k. \<not> used (x + of_nat (Suc k))"
    have "?free (unat (z - x - 1))" using that by simp
    then have "?free (LEAST k. ?free k)" by (rule LeastI)
    then show ?thesis using not_less_Least [of _ ?free] by blast
  qed
  have "next_xid used x = Some y \<longleftrightarrow>
     (\<exists>k. y = x + of_nat (Suc k) \<and> \<not> used y \<and> (\<forall>i < k. used (x + of_nat (Suc i))))"
  proof
    assume y: "next_xid used x = Some y"
    from e [OF next_xid_sound [OF y]] obtain k where
      k: "\<not> used (x + of_nat (Suc k))" "\<forall>i < k. used (x + of_nat (Suc i))" by blast
    with next_xid_first [of used x k] y have "y = x + of_nat (Suc k)" by simp
    with k show "\<exists>k. y = x + of_nat (Suc k) \<and> \<not> used y \<and> (\<forall>i < k. used (x + of_nat (Suc i)))" by blast
  qed (use next_xid_first [of used x] in blast)
  then show ?thesis by (simp add: next_xid_terminates list_all_iff Ball_def)
qed

definition ex_proc :: xdr_proc where
  "ex_proc = \<lparr>xp_Prog = 9, xp_Vers = 2, xp_Proc = 1,
     xp_in = (\<lambda>b. bindE (xdrGet32 b) (\<lambda>(w, r). Inr (VNum32 w, r)))\<rparr>"

definition ex_cs :: callset where
  "ex_cs = \<lparr>cs_pool = NewCallPool (\<lambda>_. zero_pending), cs_lastXid = 0xffffffff, cs_calls = Map.empty\<rparr>"

lemma ex_cs_inv: "cs_inv ex_cs"
  by (simp add: cs_inv_def ex_cs_def view_def NewCallPool_def ap_inv_def NewPool_inv)

text \<open>
  C12. NewCall returns when fewer than 2^32 calls are pending: the header of a version 2
  call of the procedure with a new XID, under which exactly this call, its callback and its
  server are pending from then on; all other pending calls stay.
\<close>

theorem NewCall_correct:
  assumes "cs_inv cs" and "ap_env (cs_pool cs) (ran (cs_calls cs)) e" and "dom (cs_calls cs) \<noteq> UNIV"
  shows "\<exists>xid cs'. NewCall e server proc cb cs = Some (Inr (call_msg xid proc, cs')) \<and>
    view cs xid = None \<and> cs_inv cs' \<and> msg_fits (call_msg xid proc) \<and>
    view cs' = (view cs)(xid \<mapsto> \<lparr>pc_Proc = Some proc, pc_Cb = Some cb, pc_Server = server\<rparr>)"
proof -
  from assms(3) obtain y where "next_xid (\<lambda>x. cs_calls cs x \<noteq> None) (cs_lastXid cs) = Some y"
    using next_xid_terminates [of "\<lambda>x. cs_calls cs x \<noteq> None" "cs_lastXid cs"] by auto
  then obtain r where r: "NewCall e server proc cb cs = Some r" by (auto simp: NewCall_def)
  have fits: "msg_fits (call_msg x proc)" for x
    by (simp add: msg_fits_def call_msg_def mb_call_def call_fits_def oa_fits_def zero_oa_def rpc_consts)
  from NewCall_spec [OF assms(1,2) r] r fits show ?thesis by (metis view_eq_None)
qed

theorem NewCall_correct_witness:
  "\<exists>xid cs'. NewCall (None, 5) ''srv'' ex_proc 3 ex_cs = Some (Inr (call_msg xid ex_proc, cs')) \<and>
    view ex_cs xid = None \<and> cs_inv cs' \<and> msg_fits (call_msg xid ex_proc) \<and>
    view cs' = (view ex_cs)(xid \<mapsto> \<lparr>pc_Proc = Some ex_proc, pc_Cb = Some 3, pc_Server = ''srv''\<rparr>)"
  by (rule NewCall_correct [OF ex_cs_inv])
    (simp_all add: ex_cs_def NewCallPool_def NewPool_def ap_env_def po_env_def)

text \<open>A call set with one pending call, under XID 4.\<close>

definition ex_pc :: pending where
  "ex_pc = \<lparr>pc_Proc = Some ex_proc, pc_Cb = Some 3, pc_Server = ''srv''\<rparr>"

definition ex_cs1 :: callset where
  "ex_cs1 = \<lparr>cs_pool = NewCallPool (\<lambda>_. ex_pc), cs_lastXid = 4, cs_calls = [4 \<mapsto> 5]\<rparr>"

lemma ex_cs1_inv: "cs_inv ex_cs1"
  by (auto simp: cs_inv_def ex_cs1_def view_def NewCallPool_def ap_inv_def NewPool_def po_inv_def
      ap_obj_def ex_pc_def split: if_splits)

lemma ex_cs1_view: "view ex_cs1 = [4 \<mapsto> ex_pc]"
  by (auto simp: view_def ex_cs1_def ap_obj_def NewCallPool_def NewPool_def)

definition matches :: "string \<Rightarrow> rpc_msg \<Rightarrow> callset \<Rightarrow> bool" where
  "matches server m cs \<longleftrightarrow> Mtype (Body m) = REPLY \<and>
     (case view cs (Xid m) of None \<Rightarrow> False | Some pc \<Rightarrow> pc_Server pc = server)"

lemma GetReply_cases:
  assumes "cs_inv cs"
  shows "if matches server m cs
    then \<exists>cs' proc cb. view cs (Xid m) = Some \<lparr>pc_Proc = Some proc, pc_Cb = Some cb, pc_Server = server\<rparr> \<and>
      cs_inv cs' \<and> view cs' = (view cs)(Xid m := None) \<and>
      GetReply server m buf cs =
        bindE (reply_outcome proc m buf) (\<lambda>(res, m'). Inr (Some (Some proc, Some cb, res), m', cs'))
    else GetReply server m buf cs = Inr (None, m, cs)"
proof (cases "matches server m cs")
  case True
  then obtain pc where pc: "Mtype (Body m) = REPLY" "view cs (Xid m) = Some pc" "pc_Server pc = server"
    by (auto simp: matches_def split: option.splits)
  with assms obtain proc cb where "pc_Proc pc = Some proc" "pc_Cb pc = Some cb"
    by (fastforce simp: cs_inv_def)
  then have e: "pc = \<lparr>pc_Proc = Some proc, pc_Cb = Some cb, pc_Server = server\<rparr>" using pc(3) by simp
  from GetReply_match [OF assms pc, of proc buf] e pc(2) True show ?thesis by auto
next
  case False
  then have "GetReply server m buf cs = Inr (None, m, cs)"
    by (intro GetReply_no_match) (auto simp: matches_def)
  with False show ?thesis by simp
qed

text \<open>
  C13. GetReply: a reply is matched exactly with the call pending under its XID for the
  server it comes from. Then the call is no longer pending, its callback is returned, the
  result is unmarshaled when the reply is a success, and a result that does not unmarshal
  turns the reply into GARBAGE_RET. Any other message changes nothing.
\<close>

theorem GetReply_correct:
  assumes "cs_inv cs"
  shows "if matches server m cs
    then \<exists>cs' proc cb. view cs (Xid m) = Some \<lparr>pc_Proc = Some proc, pc_Cb = Some cb, pc_Server = server\<rparr> \<and>
      cs_inv cs' \<and> view cs' = (view cs)(Xid m := None) \<and>
      GetReply server m buf cs =
        bindE (reply_outcome proc m buf) (\<lambda>(res, m'). Inr (Some (Some proc, Some cb, res), m', cs'))
    else GetReply server m buf cs = Inr (None, m, cs)"
  by (rule GetReply_cases [OF assms])

theorem GetReply_correct_witness:
  "if matches ''srv'' (accepted_msg 4 SUCCESS RD_nil) ex_cs1
    then \<exists>cs' proc cb. view ex_cs1 (Xid (accepted_msg 4 SUCCESS RD_nil)) =
        Some \<lparr>pc_Proc = Some proc, pc_Cb = Some cb, pc_Server = ''srv''\<rparr> \<and>
      cs_inv cs' \<and> view cs' = (view ex_cs1)(Xid (accepted_msg 4 SUCCESS RD_nil) := None) \<and>
      GetReply ''srv'' (accepted_msg 4 SUCCESS RD_nil) [0, 0, 0, 8] ex_cs1 =
        bindE (reply_outcome proc (accepted_msg 4 SUCCESS RD_nil) [0, 0, 0, 8])
          (\<lambda>(res, m'). Inr (Some (Some proc, Some cb, res), m', cs'))
    else GetReply ''srv'' (accepted_msg 4 SUCCESS RD_nil) [0, 0, 0, 8] ex_cs1 =
      Inr (None, accepted_msg 4 SUCCESS RD_nil, ex_cs1)"
  by (rule GetReply_correct [OF ex_cs1_inv])

text \<open>
  CancelAll makes the callback of every pending call once, with a reply under its XID
  saying CANCELED, and leaves no call pending. Cancel does so for one call, with the status
  asked for, and without a call under that XID does nothing.
\<close>

lemma cancel_correct:
  assumes "cs_inv cs" and "distinct ord" and "set ord = dom (cs_calls cs)"
  shows "(\<exists>cs'. CancelAll ord cs =
      Inr (map (\<lambda>x. (pc_Cb (the (view cs x)), cancel_msg x CANCELED)) ord, cs') \<and>
      cs_inv cs' \<and> view cs' = Map.empty) \<and>
    (\<exists>cs'. Cancel xid reason cs =
      Inr (case view cs xid of None \<Rightarrow> [] | Some pc \<Rightarrow> [(pc_Cb pc, cancel_msg xid (cancel_stat reason))], cs')
      \<and> cs_inv cs' \<and> view cs' = (view cs)(xid := None))"
  using CancelAll_spec [OF assms] Cancel_spec [OF assms(1), of xid reason] by blast

lemma cancel_correct_witness:
  "(\<exists>cs'. CancelAll [4] ex_cs1 =
      Inr (map (\<lambda>x. (pc_Cb (the (view ex_cs1 x)), cancel_msg x CANCELED)) [4], cs') \<and>
      cs_inv cs' \<and> view cs' = Map.empty) \<and>
    (\<exists>cs'. Cancel 4 [SEND_ERR] ex_cs1 =
      Inr (case view ex_cs1 4 of None \<Rightarrow> []
        | Some pc \<Rightarrow> [(pc_Cb pc, cancel_msg 4 (cancel_stat [SEND_ERR]))], cs')
      \<and> cs_inv cs' \<and> view cs' = (view ex_cs1)(4 := None))"
  by (rule cancel_correct [OF ex_cs1_inv]) (simp_all add: ex_cs1_def)

text \<open>
  C14. Whatever calls, cancellations, deletions and replies a CallSet goes through, every
  callback it was given is made at most once, and exactly one of: still pending, made,
  given up by Delete; and the message it is made with carries the XID of its call.
\<close>

theorem callbacks_once:
  assumes "cs_inv cs0" and "cs_calls cs0 = Map.empty" and "cl_reach cs0 s"
  shows "distinct (map fst (lf_fired s)) \<and>
    dom (lf_issued s) = fst ` set (lf_fired s) \<union> lf_deleted s \<union> pending_cb (lf_cs s) \<and>
    fst ` set (lf_fired s) \<inter> pending_cb (lf_cs s) = {} \<and> fst ` set (lf_fired s) \<inter> lf_deleted s = {} \<and>
    lf_deleted s \<inter> pending_cb (lf_cs s) = {} \<and>
    list_all (\<lambda>(cb, m). lf_issued s cb = Some (Xid m)) (lf_fired s)"
  using life_reach [OF assms] by (simp add: life_inv_def list_all_iff)

lemma ex_life: "\<exists>s. cl_reach ex_cs s \<and> map fst (lf_fired s) = [3]"
proof -
  have env: "ap_env (cs_pool ex_cs) (ran (cs_calls ex_cs)) (None, 5)"
    by (simp add: ex_cs_def NewCallPool_def NewPool_def ap_env_def po_env_def)
  have "dom (cs_calls ex_cs) \<noteq> UNIV" by (simp add: ex_cs_def)
  then obtain y where "next_xid (\<lambda>x. cs_calls ex_cs x \<noteq> None) (cs_lastXid ex_cs) = Some y"
    using next_xid_terminates [of "\<lambda>x. cs_calls ex_cs x \<noteq> None" "cs_lastXid ex_cs"] by auto
  then obtain r where r: "NewCall (None, 5) ''srv'' ex_proc 3 ex_cs = Some r" by (auto simp: NewCall_def)
  from NewCall_spec [OF ex_cs_inv env r] obtain xid cs' where
    c: "r = Inr (call_msg xid ex_proc, cs')" "cs_inv cs'"
      "view cs' = (view ex_cs)(xid \<mapsto> \<lparr>pc_Proc = Some ex_proc, pc_Cb = Some 3, pc_Server = ''srv''\<rparr>)"
    by metis
  let ?s0 = "\<lparr>lf_cs = ex_cs, lf_issued = Map.empty, lf_fired = [], lf_deleted = {}\<rparr>"
  let ?s1 = "?s0\<lparr>lf_cs := cs', lf_issued := [3 \<mapsto> Xid (call_msg xid ex_proc)]\<rparr>"
  have "cl_step ?s0 ?s1"
    using cl_new [of ?s0 3 "(None, 5)" "''srv''" ex_proc "call_msg xid ex_proc" cs'] env r c(1) by simp
  then have r1: "cl_reach ex_cs ?s1" by (rule cl_more [OF cl_init])
  from Cancel_spec [OF c(2), of xid "[]"] c(3) obtain cs2 where
    "Cancel xid [] cs' = Inr ([(Some 3, cancel_msg xid (cancel_stat []))], cs2)" by auto
  then have "cl_step ?s1 (?s1\<lparr>lf_cs := cs2,
      lf_fired := lf_fired ?s1 @ map (\<lambda>(c, m). (the c, m)) [(Some 3, cancel_msg xid (cancel_stat []))]\<rparr>)"
    by (intro cl_cancel) simp
  from cl_more [OF r1 this] show ?thesis by (intro exI conjI) auto
qed

theorem callbacks_once_witness:
  "\<exists>s :: life. map fst (lf_fired s) = [3] \<and> distinct (map fst (lf_fired s)) \<and>
    dom (lf_issued s) = fst ` set (lf_fired s) \<union> lf_deleted s \<union> pending_cb (lf_cs s) \<and>
    list_all (\<lambda>(cb, m). lf_issued s cb = Some (Xid m)) (lf_fired s)"
proof -
  from ex_life obtain s where s: "cl_reach ex_cs s" "map fst (lf_fired s) = [3]"
    by (elim exE conjE)
  have "cs_calls ex_cs = Map.empty" by (simp add: ex_cs_def)
  note c = callbacks_once [OF ex_cs_inv this s(1)]
  show ?thesis
    using s(2) c [THEN conjunct1] c [THEN conjunct2, THEN conjunct1]
      c [THEN conjunct2, THEN conjunct2, THEN conjunct2, THEN conjunct2, THEN conjunct2]
    by (intro exI [of _ s] conjI)
qed

end
