(* ===== verification/PoolCorrect.thy ===== *)
theory PoolCorrect imports ObjPool begin

text \<open>The properties of the arena and of the pool, over every run of a client.\<close>

lemma ar_same:
  "ar_Get e a = (a', x) \<Longrightarrow> ar_n a' = ar_n a \<and> ar_base a' = ar_base a \<and> ar_size a' = ar_size a"
  by (auto simp: ar_Get_def Let_def split: if_splits)

lemma ar_run_same:
  "pool_run ar_Get ar_Recycle ar_env ops a held = Some (a', held') \<Longrightarrow>
   ar_n a' = ar_n a \<and> ar_base a' = ar_base a \<and> ar_size a' = ar_size a"
proof (induction ops arbitrary: a held)
  case (Cons op ops)
  then show ?case
    by (cases op) (auto simp: ar_Recycle_def split: if_splits prod.splits dest!: ar_same Cons.IH)
qed simp

lemma ar_addr_inj: "0 < ar_size a \<Longrightarrow> inj_on (ar_addr a) {..<ar_n a}"
  by (auto simp: inj_on_def ar_addr_def)

text \<open>
  Recycle decides by pointer arithmetic whether an object belongs to the arena, and
  decides correctly: an address passes exactly when it is that of one of the array's objects.
\<close>

lemma contains_exact:
  assumes "0 < ar_size a" and "0 < ar_base a"
  shows "contains a x \<longleftrightarrow> x \<in> set (map (ar_addr a) [0..<ar_n a])"
  using contains_iff [OF assms, of x] by (simp add: atLeast0LessThan)

definition ex_arena :: "nat arena" where
  "ex_arena = NewArena 4096 24 2 (\<lambda>_. 0) 0 (\<lambda>_. 7)"

lemma contains_exact_witness:
  "contains ex_arena 4120 \<longleftrightarrow> 4120 \<in> set (map (ar_addr ex_arena) [0..<ar_n ex_arena])"
  by (rule contains_exact) (simp_all add: ex_arena_def NewArena_def)

text \<open>
  C15. However a client gets and recycles objects, no object of an arena is handed out
  while it is in use, and none is lost: the free objects and the arena's objects in use
  add up to the capacity. Objects allocated beyond the capacity are never put on the list.
\<close>

theorem arena_sound:
  assumes "0 < sz" and "0 < base"
    and "pool_run ar_Get ar_Recycle ar_env ops (NewArena base sz n reset zero mem) [] = Some (a, held)"
  shows "distinct held \<and> set (ar_free a) \<inter> set held = {} \<and>
    length (ar_free a) + length (filter (contains a) held) = n"
proof -
  note i = NewArena_inv [OF assms(1,2), of n reset zero mem]
  from arena.run_ok [OF assms(3)] i have r: "ar_inv a (set held)" "distinct held" by simp_all
  have n: "ar_n a = n" "ar_size a = sz" "ar_base a = base"
    using ar_run_same [OF assms(3)] by (simp_all add: NewArena_def)
  have c: "contains a x \<longleftrightarrow> x \<in> ar_addr a ` {..<n}" for x
    using contains_iff [of a x] n assms(1,2) by simp
  have "set (ar_free a @ filter (contains a) held) = ar_addr a ` {..<n}"
    using r(1) n by (auto simp: ar_inv_def c)
  moreover have f: "set (ar_free a) \<inter> set held = {}" "distinct (ar_free a)"
    using r(1) by (auto simp: ar_inv_def)
  then have "distinct (ar_free a @ filter (contains a) held)" using r(2) by auto
  ultimately have "length (ar_free a @ filter (contains a) held) = card (ar_addr a ` {..<n})"
    by (metis distinct_card)
  also have "\<dots> = n" using ar_addr_inj [of a] n assms(1) by (simp add: card_image)
  finally show ?thesis using r(2) f(1) by simp
qed

lemma ex_arena_run:
  "\<exists>a. pool_run ar_Get ar_Recycle ar_env [OpGet 1, OpGet 1, OpGet 9, OpRecycle 4120, OpRecycle 9]
     (NewArena 4096 24 2 (\<lambda>_. 0) (0 :: nat) (\<lambda>_. 7)) [] = Some (a, [4096])"
  by (simp add: NewArena_def ar_Get_def ar_Recycle_def ar_env_def contains_def ar_addr_def upt_rec
      image_iff less_Suc_eq)

theorem arena_sound_witness:
  "\<exists>a :: nat arena. distinct [4096 :: nat] \<and> set (ar_free a) \<inter> set [4096] = {} \<and>
    length (ar_free a) + length (filter (contains a) [4096]) = 2"
proof -
  from ex_arena_run obtain a where a: "pool_run ar_Get ar_Recycle ar_env
     [OpGet 1, OpGet 1, OpGet 9, OpRecycle 4120, OpRecycle 9]
     (NewArena 4096 24 2 (\<lambda>_. 0) (0 :: nat) (\<lambda>_. 7)) [] = Some (a, [4096])" ..
  from arena_sound [OF _ _ a] show ?thesis by (intro exI [of _ a]) simp
qed

text \<open>
  The same of a Pool, whatever its sync.Pool decides to keep and to return: no object
  is handed out while it is in use, none is pooled twice, and what Get returns was reset.
\<close>

lemma pool_sound:
  assumes "pool_run po_Get po_Recycle po_env ops (NewPool reset zero mem) [] = Some (p, held)"
  shows "distinct held \<and> distinct (po_free p) \<and> set (po_free p) \<inter> set held = {} \<and>
    po_clean (fst (po_Get e p)) (po_store (fst (po_Get e p)) (snd (po_Get e p)))"
proof -
  from pool.run_ok [OF assms] NewPool_inv [of reset zero mem]
  have "po_inv p (set held)" "distinct held" by simp_all
  moreover have "po_clean (fst (po_Get e p)) (po_store (fst (po_Get e p)) (snd (po_Get e p)))"
    by (auto simp: po_Get_def po_clean_def split: prod.splits)
  ultimately show ?thesis by (simp add: po_inv_def)
qed

lemma ex_pool_run:
  "\<exists>p. pool_run po_Get po_Recycle po_env [OpGet (None, 5), OpRecycle 5, OpGet (Some 0, 6), OpGet (None, 6)]
     (NewPool (\<lambda>_. 0) (0 :: nat) (\<lambda>_. 7)) [] = Some (p, [6, 5])"
  by (simp add: NewPool_def po_Get_def sync_Get_def po_New_def po_Recycle_def po_env_def)

lemma pool_sound_witness:
  "\<exists>p :: nat pool. distinct [6, 5 :: nat] \<and> distinct (po_free p) \<and> set (po_free p) \<inter> set [6, 5] = {} \<and>
    po_clean (fst (po_Get (None, 9) p)) (po_store (fst (po_Get (None, 9) p)) (snd (po_Get (None, 9) p)))"
proof -
  from ex_pool_run obtain p where p: "pool_run po_Get po_Recycle po_env
     [OpGet (None, 5), OpRecycle 5, OpGet (Some 0, 6), OpGet (None, 6)]
     (NewPool (\<lambda>_. 0) (0 :: nat) (\<lambda>_. 7)) [] = Some (p, [6, 5])" ..
  from pool_sound [OF p, of "(None, 9)"] show ?thesis by (intro exI [of _ p])
qed

end
