(* ===== verification/StreamTransport.thy ===== *)
theory StreamTransport imports XdrUnits begin

text \<open>
  The record-marking transport of RFC 5531 (rpc/transport.go): how Send cuts a message
  into fragments, how Receive reassembles them within MaxMsgSize, and the atomic state
  machine behind fail and failed. The connection is a list of chunks, the pieces in which
  TCP happens to deliver the bytes, because Receive depends on them.
\<close>

section \<open>The connection\<close>

datatype tx_error = TransportClosed | TransportAbandoned | ShortHeader | TooLong int int
  | ConnErr io_error | WriteErr nat

type_synonym conn = "bytes list"

text \<open>net.Conn.Read into k bytes: what is there of the next chunk, at most k; EOF at the end.\<close>

fun conn_Read :: "conn \<Rightarrow> nat \<Rightarrow> io_error + (bytes \<times> conn)" where
  "conn_Read [] k = Inl EOF"
| "conn_Read (c # cs) k =
     (if c = [] then conn_Read cs k
      else Inr (take k c, if k < length c then drop k c # cs else cs))"

text \<open>io.CopyN: exactly n bytes, over as many reads as it takes.\<close>

fun conn_CopyN :: "conn \<Rightarrow> nat \<Rightarrow> io_error + (bytes \<times> conn)" where
  "conn_CopyN cs 0 = Inr ([], cs)"
| "conn_CopyN [] (Suc n) = Inl EOF"
| "conn_CopyN (c # cs) (Suc n) =
     (if length c \<le> Suc n
      then bindE (conn_CopyN cs (Suc n - length c)) (\<lambda>(d, cs'). Inr (c @ d, cs'))
      else Inr (take (Suc n) c, drop (Suc n) c # cs))"

lemma conn_Read_stream:
  "conn_Read cs k = Inr (d, cs') \<Longrightarrow> concat cs = d @ concat cs' \<and> length d \<le> k"
  by (induction cs k rule: conn_Read.induct) (auto split: if_splits)

lemma conn_CopyN_stream:
  "conn_CopyN cs n = Inr (d, cs') \<Longrightarrow> concat cs = d @ concat cs' \<and> length d = n"
proof (induction cs n arbitrary: d cs' rule: conn_CopyN.induct)
  case (3 c cs n)
  show ?case
  proof (cases "length c \<le> Suc n")
    case True
    with "3.prems" obtain d' where d': "conn_CopyN cs (Suc n - length c) = Inr (d', cs')" "d = c @ d'"
      by (auto simp: bindE_eq_Inr)
    from "3.IH" [OF True d'(1)] d'(2) True show ?thesis by auto
  next
    case False
    then have e: "d = take (Suc n) c" "cs' = drop (Suc n) c # cs" using "3.prems" by auto
    show ?thesis unfolding e using False by simp
  qed
qed auto

lemma conn_CopyN_enough: "n \<le> length (concat cs) \<Longrightarrow> \<exists>d cs'. conn_CopyN cs n = Inr (d, cs')"
proof (induction cs n rule: conn_CopyN.induct)
  case (3 c cs n)
  show ?case
  proof (cases "length c \<le> Suc n")
    case True
    have "Suc n - length c \<le> length (concat cs)"
      using "3.prems" by (simp add: le_diff_conv add.commute)
    with "3.IH" [OF True] True show ?thesis by auto
  qed auto
qed auto

section \<open>Sending\<close>

definition maxSegment :: nat where "maxSegment = 0x7fffffff"

text \<open>The buffers of the iov list, concatenated: a header and a fragment per round.\<close>

function send_frames :: "bytes \<Rightarrow> bytes" where
  "send_frames m =
     (if maxSegment < length m
      then be_put32 (of_nat maxSegment) @ take maxSegment m @ send_frames (drop maxSegment m)
      else be_put32 (0x80000000 OR of_nat (length m)) @ m)"
  by pat_completeness auto

termination by (relation "measure length") (auto simp: maxSegment_def)

declare send_frames.simps [simp del]

section \<open>Receiving\<close>

definition frag_len :: "bytes \<Rightarrow> nat" where
  "frag_len b = unat (be_get32 b AND 0x7fffffff)"

text \<open>
  The loop of Receive: \<open>acc\<close> is what ret holds. A header must arrive in one Read; the
  loop ends after the fragment whose header has the top bit of its first byte set.
\<close>

function recv_loop :: "int \<Rightarrow> conn \<Rightarrow> bytes \<Rightarrow> tx_error + (bytes \<times> conn)" where
  "recv_loop mx cs acc =
     (case conn_Read cs 4 of
        Inl e \<Rightarrow> Inl (ConnErr e)
      | Inr (b, cs1) \<Rightarrow>
          if length b \<noteq> 4 then Inl ShortHeader
          else if int (frag_len b) > mx - int (length acc)
          then Inl (TooLong (int (frag_len b) + int (length acc)) mx)
          else case conn_CopyN cs1 (frag_len b) of
            Inl e \<Rightarrow> Inl (ConnErr e)
          | Inr (d, cs2) \<Rightarrow>
              if hd b AND 0x80 = 0 then recv_loop mx cs2 (acc @ d) else Inr (acc @ d, cs2))"
  by pat_completeness auto

termination
proof (relation "measure (\<lambda>(mx, cs, acc). length (concat cs))")
  fix mx :: int and cs :: conn and acc b d :: bytes and cs1 cs2 :: conn and x1 x2
  assume r: "conn_Read cs 4 = Inr x1" "(b, cs1) = x1" "\<not> length b \<noteq> 4"
    and c: "conn_CopyN cs1 (frag_len b) = Inr x2" "(d, cs2) = x2"
  show "((mx, cs2, acc @ d), (mx, cs, acc)) \<in> measure (\<lambda>(mx, cs, acc). length (concat cs))"
    using conn_Read_stream [of cs 4 b cs1] conn_CopyN_stream [of cs1 "frag_len b" d cs2] r c
    by (auto simp del: length_concat)
qed simp

declare recv_loop.simps [simp del]

section \<open>Fragments\<close>

text \<open>The wire format of a sequence of fragments, the last one marked.\<close>

fun wire_frags :: "bytes list \<Rightarrow> bytes" where
  "wire_frags [] = []"
| "wire_frags [f] = be_put32 (0x80000000 OR of_nat (length f)) @ f"
| "wire_frags (f # fs) = be_put32 (of_nat (length f)) @ f @ wire_frags fs"

lemma hd_put32: "hd (be_put32 w) = ucast (drop_bit 24 w)"
  by (simp add: be_put32_def)

lemma top_bit: "(ucast (drop_bit 24 (w :: u32)) :: u8) AND 0x80 = 0 \<longleftrightarrow> \<not> bit w 31"
proof -
  have "(x :: u8) AND 0x80 = 0 \<longleftrightarrow> \<not> bit x 7" for x
    using bit_iff_and_push_bit_not_eq_0 [of x 7] by simp
  then show ?thesis by (simp add: bit_simps)
qed

lemma small_no_top: "n < 2 ^ 31 \<Longrightarrow> \<not> bit (of_nat n :: u32) 31"
proof -
  assume n: "n < 2 ^ 31"
  then have "\<not> bit (unat (of_nat n :: u32)) 31"
    by (subst unat_of_nat32) (auto simp: bit_iff_odd)
  then show ?thesis by (simp add: bit_unsigned_iff)
qed

lemma mask31: "(w :: u32) AND 0x7fffffff = take_bit 31 w"
  by (simp add: take_bit_eq_mask mask_eq_exp_minus_1)

lemma take31: "n < 2 ^ 31 \<Longrightarrow> unat (take_bit 31 (of_nat n :: u32)) = n"
  by (simp add: unsigned_take_bit_eq unat_of_nat32 take_bit_nat_eq_self)

lemma frag_len_plain: "n < 2 ^ 31 \<Longrightarrow> frag_len (be_put32 (of_nat n)) = n"
  by (simp only: frag_len_def mask31 be_get_put32 take31)

lemma frag_len_last: "n < 2 ^ 31 \<Longrightarrow> frag_len (be_put32 (0x80000000 OR of_nat n)) = n"
proof -
  assume n: "n < 2 ^ 31"
  have "take_bit 31 (0x80000000 OR of_nat n :: u32) = take_bit 31 (of_nat n)"
    by (simp add: take_bit_or)
  with n show ?thesis by (simp only: frag_len_def mask31 be_get_put32 take31)
qed

lemma bit_top: "bit (0x80000000 :: u32) n \<longleftrightarrow> n = 31"
proof -
  have "bit (push_bit 31 1 :: u32) n \<longleftrightarrow> n = 31"
    by (simp only: bit_push_bit_iff bit_1_iff) auto
  moreover have "push_bit 31 1 = (0x80000000 :: u32)" by simp
  ultimately show ?thesis by (simp only:)
qed

lemma last_top: "bit (0x80000000 OR w :: u32) 31"
  by (simp only: bit_or_iff bit_top simp_thms)

section \<open>Reassembly is the inverse of fragmentation\<close>

lemma recv_sound:
  "recv_loop mx cs acc = Inr (m, cs') \<Longrightarrow>
   \<exists>fs. fs \<noteq> [] \<and> m = acc @ concat fs \<and> concat cs = wire_frags fs @ concat cs' \<and>
     (\<forall>f \<in> set fs. length f < 2 ^ 31) \<and> int (length m) \<le> mx"
proof (induction mx cs acc rule: recv_loop.induct)
  case (1 mx cs acc)
  from "1.prems" obtain b cs1 d cs2 where
    b: "conn_Read cs 4 = Inr (b, cs1)" "length b = 4"
    and sz: "int (frag_len b) \<le> mx - int (length acc)"
    and d: "conn_CopyN cs1 (frag_len b) = Inr (d, cs2)"
    and rest: "if hd b AND 0x80 = 0 then recv_loop mx cs2 (acc @ d) = Inr (m, cs')
      else (acc @ d, cs2) = (m, cs')"
    by (subst (asm) recv_loop.simps) (auto split: sum.splits prod.splits if_splits)
  from conn_Read_stream [OF b(1)] conn_CopyN_stream [OF d]
  have st: "concat cs = b @ d @ concat cs2" "length d = frag_len b" by auto
  note bw = be_put_get32 [OF b(2)]
  have hb: "hd b AND 0x80 = 0 \<longleftrightarrow> \<not> bit (be_get32 b) 31"
    using top_bit [of "be_get32 b"] hd_put32 [of "be_get32 b"] unfolding bw by simp
  have fl: "frag_len b = unat (take_bit 31 (be_get32 b))" by (simp add: frag_len_def mask31)
  have small: "frag_len b < 2 ^ 31"
    using take_bit_nat_less_exp [of 31 "unat (be_get32 b)"] by (simp only: fl unsigned_take_bit_eq)
  then have sd: "length d < 2 ^ 31" using st(2) by simp
  have low: "take_bit 31 (be_get32 b) = of_nat (length d)" using st(2) fl by simp
  show ?case
  proof (cases "bit (be_get32 b) 31")
    case False
    then have "take_bit 31 (be_get32 b) = be_get32 b"
    proof (intro bit_word_eqI)
      fix n assume "n < LENGTH(32)"
      then have "n < 31 \<or> n = 31" by auto
      then show "bit (take_bit 31 (be_get32 b)) n = bit (be_get32 b) n"
        using False by (auto simp: bit_simps)
    qed
    with low have "be_get32 b = of_nat (length d)" by simp
    with bw have bd: "b = be_put32 (of_nat (length d))" by simp
    from False rest hb have r: "recv_loop mx cs2 (acc @ d) = Inr (m, cs')" by simp
    have nl: "\<not> length b \<noteq> 4" and ns: "\<not> int (frag_len b) > mx - int (length acc)"
      and h0: "hd b AND 0x80 = 0"
      using b(2) sz hb False by auto
    from "1.IH" [OF b(1) refl nl ns d refl h0 r] obtain fs where fs: "fs \<noteq> []"
      "m = (acc @ d) @ concat fs" "concat cs2 = wire_frags fs @ concat cs'"
      "\<forall>f \<in> set fs. length f < 2 ^ 31" "int (length m) \<le> mx"
      by blast
    have "wire_frags (d # fs) = be_put32 (of_nat (length d)) @ d @ wire_frags fs"
      using fs(1) by (cases fs) auto
    moreover have "concat cs = be_put32 (of_nat (length d)) @ d @ concat cs2"
      using st(1) bd by (simp only:)
    ultimately show ?thesis using fs sd by (intro exI [of _ "d # fs"]) auto
  next
    case True
    have e: "be_get32 b = 0x80000000 OR take_bit 31 (be_get32 b)"
    proof (rule bit_word_eqI)
      fix n assume "n < LENGTH(32)"
      then have "n = 31 \<or> n < 31" by auto
      then show "bit (be_get32 b) n = bit (0x80000000 OR take_bit 31 (be_get32 b)) n"
        using True unfolding bit_or_iff bit_top bit_take_bit_iff by auto
    qed
    have "be_get32 b = 0x80000000 OR of_nat (length d)" by (subst e) (simp only: low)
    with bw have bd: "b = be_put32 (0x80000000 OR of_nat (length d))" by simp
    from True rest hb have "m = acc @ d" "cs' = cs2" by auto
    moreover have "concat cs = be_put32 (0x80000000 OR of_nat (length d)) @ d @ concat cs2"
      using st(1) bd by (simp only:)
    moreover have "int (length (acc @ d)) \<le> mx" using sz st(2) by simp
    ultimately show ?thesis using sd by (intro exI [of _ "[d]"]) auto
  qed
qed

text \<open>Every fragment header of the stream comes in one Read.\<close>

fun hdr_whole :: "bytes list \<Rightarrow> conn \<Rightarrow> bool" where
  "hdr_whole [] cs = True"
| "hdr_whole (f # fs) cs =
     (case conn_Read cs 4 of
        Inl e \<Rightarrow> False
      | Inr (b, cs1) \<Rightarrow> length b = 4 \<and>
          (case conn_CopyN cs1 (length f) of Inl e \<Rightarrow> False | Inr (d, cs2) \<Rightarrow> hdr_whole fs cs2))"

lemma wire_frags_Cons:
  "wire_frags (f # fs) =
   be_put32 (if fs = [] then 0x80000000 OR of_nat (length f) else of_nat (length f)) @ f @
   wire_frags fs"
  by (cases fs) auto

lemma wire_frags_Nil: "wire_frags fs = [] \<longleftrightarrow> fs = []"
  by (cases fs) (auto simp: wire_frags_Cons be_put32_def simp del: wire_frags.simps(2,3))

lemma recv_complete:
  "fs \<noteq> [] \<Longrightarrow> concat cs = wire_frags fs @ rest \<Longrightarrow> \<forall>f \<in> set fs. length f < 2 ^ 31 \<Longrightarrow>
   int (length (acc @ concat fs)) \<le> mx \<Longrightarrow> hdr_whole fs cs \<Longrightarrow>
   \<exists>cs'. recv_loop mx cs acc = Inr (acc @ concat fs, cs') \<and> concat cs' = rest"
proof (induction fs arbitrary: cs acc)
  case (Cons f fs)
  from Cons.prems(5) obtain b cs1 d cs2 where b: "conn_Read cs 4 = Inr (b, cs1)" "length b = 4"
      and d: "conn_CopyN cs1 (length f) = Inr (d, cs2)" and w: "hdr_whole fs cs2"
    by (cases "conn_Read cs 4"; cases "conn_CopyN (snd (projr (conn_Read cs 4))) (length f)")
      (auto split: sum.splits prod.splits)
  let ?h = "be_put32 (if fs = [] then 0x80000000 OR of_nat (length f) else of_nat (length f))"
  from conn_Read_stream [OF b(1)] conn_CopyN_stream [OF d] Cons.prems(2)
  have "b @ d @ concat cs2 = ?h @ f @ wire_frags fs @ rest" "length d = length f"
    by (auto simp: wire_frags_Cons simp del: wire_frags.simps)
  with b(2) have bd: "b = ?h" "d = f" "concat cs2 = wire_frags fs @ rest"
    by (auto simp: append_eq_append_conv)
  have small: "length f < 2 ^ 31" using Cons.prems(3) by simp
  have fl: "frag_len b = length f"
    using frag_len_plain [OF small] frag_len_last [OF small] bd(1) by simp
  have top: "hd b AND 0x80 = 0 \<longleftrightarrow> fs \<noteq> []"
    using small_no_top [OF small] last_top by (auto simp: bd(1) hd_put32 top_bit)
  have sz: "\<not> int (frag_len b) > mx - int (length acc)" using Cons.prems(4) fl by simp
  have step: "recv_loop mx cs acc =
      (if hd b AND 0x80 = 0 then recv_loop mx cs2 (acc @ f) else Inr (acc @ f, cs2))"
    using b sz d fl bd(2) by (subst recv_loop.simps) simp
  show ?case
  proof (cases "fs = []")
    case True
    with step top bd(3) show ?thesis by simp
  next
    case False
    from Cons.IH [OF False bd(3) _ _ w, of "acc @ f"] Cons.prems(3,4)
    obtain cs' where "recv_loop mx cs2 (acc @ f) = Inr ((acc @ f) @ concat fs, cs')" "concat cs' = rest"
      by auto
    with step top False show ?thesis by simp
  qed
qed simp

lemma hdr_whole_one_chunk:
  "fs \<noteq> [] \<Longrightarrow> \<forall>f \<in> set fs. length f < 2 ^ 31 \<Longrightarrow> hdr_whole fs [wire_frags fs @ rest]"
proof (induction fs arbitrary: rest)
  case (Cons f fs)
  let ?h = "be_put32 (if fs = [] then 0x80000000 OR of_nat (length f) else of_nat (length f))"
  let ?t = "f @ wire_frags fs @ rest"
  have c: "[wire_frags (f # fs) @ rest] = [?h @ ?t]" by (simp add: wire_frags_Cons)
  let ?cs1 = "if 4 < length (?h @ ?t) then [?t] else []"
  have "conn_Read [x] 4 = Inr (take 4 x, if 4 < length x then [drop 4 x] else [])" if "x \<noteq> []" for x
    using that by simp
  from this [of "?h @ ?t"] have r: "conn_Read [?h @ ?t] 4 = Inr (?h, ?cs1)"
    by (simp add: take_Cons' drop_Cons' be_put32_def)
  show ?case
  proof (cases "?t = []")
    case True
    then have "f = []" "fs = []" by (auto simp: wire_frags_Nil)
    have "be_put32 2147483648 \<noteq> []" by (simp add: be_put32_def)
    then have "hdr_whole [[]] [wire_frags [[]] @ rest]" if "rest = []" using that by simp
    with True \<open>f = []\<close> \<open>fs = []\<close> show ?thesis by auto
  next
    case False
    then have cs1: "?cs1 = [?t]" by simp
    have cp: "\<exists>cs2. conn_CopyN [?t] (length f) = Inr (f, cs2) \<and>
        (cs2 = [wire_frags fs @ rest] \<or> wire_frags fs @ rest = [] \<and> cs2 = [])"
      by (cases "length f") auto
    then obtain cs2 where cs2: "conn_CopyN [?t] (length f) = Inr (f, cs2)"
        "cs2 = [wire_frags fs @ rest] \<or> wire_frags fs @ rest = [] \<and> cs2 = []" by blast
    have "hdr_whole fs cs2"
    proof (cases "fs = []")
      case False
      then have "wire_frags fs @ rest \<noteq> []" by (simp add: wire_frags_Nil)
      with cs2(2) Cons.IH [OF False] Cons.prems(2) show ?thesis by auto
    qed simp
    then show ?thesis unfolding c using r cs1 cs2(1) by simp
  qed
qed simp

section \<open>Fragments of a sent message\<close>

function segs :: "bytes \<Rightarrow> bytes list" where
  "segs m = (if maxSegment < length m then take maxSegment m # segs (drop maxSegment m) else [m])"
  by pat_completeness auto

termination by (relation "measure length") (auto simp: maxSegment_def)

declare segs.simps [simp del]

lemma segs_props:
  "segs m \<noteq> [] \<and> concat (segs m) = m \<and> (\<forall>f \<in> set (segs m). length f < 2 ^ 31) \<and>
   send_frames m = wire_frags (segs m)"
proof (induction m rule: segs.induct)
  case (1 m)
  show ?case
  proof (cases "maxSegment < length m")
    case True
    have s: "segs m = take maxSegment m # segs (drop maxSegment m)" using True by (subst segs.simps) simp
    have f: "send_frames m = be_put32 (of_nat maxSegment) @ take maxSegment m @ send_frames (drop maxSegment m)"
      using True by (subst send_frames.simps) simp
    have l: "length (take maxSegment m) = maxSegment" "maxSegment < 2 ^ 31"
      using True by (simp_all add: maxSegment_def)
    from "1.IH" [OF True] show ?thesis
      unfolding s f wire_frags_Cons using l by (simp del: length_take)
  next
    case False
    then have s: "segs m = [m]" by (subst segs.simps) simp
    from False have f: "send_frames m = be_put32 (0x80000000 OR of_nat (length m)) @ m"
      by (subst send_frames.simps) simp
    from False show ?thesis unfolding s f by (simp add: maxSegment_def)
  qed
qed

section \<open>The transport\<close>

text \<open>
  A StreamTransport used by one goroutine at a time: Send and Receive with the failure
  state. \<open>tx_out\<close> collects what was written; the outcome of a write is the environment's.
\<close>

record stream_tx =
  tx_okay :: int
  tx_err :: "tx_error option"
  tx_closes :: nat
  tx_MaxMsgSize :: int
  tx_conn :: conn
  tx_out :: bytes

definition NewStreamTransport :: "int \<Rightarrow> conn \<Rightarrow> stream_tx" where
  "NewStreamTransport mx c =
     \<lparr>tx_okay = 1, tx_err = None, tx_closes = 0, tx_MaxMsgSize = mx, tx_conn = c, tx_out = []\<rparr>"

definition tx_fail :: "tx_error \<Rightarrow> stream_tx \<Rightarrow> stream_tx" where
  "tx_fail e tx =
     (if tx_okay tx = 1
      then tx\<lparr>tx_okay := 0, tx_err := Some e, tx_closes := tx_closes tx + 1\<rparr> else tx)"

definition tx_Close :: "stream_tx \<Rightarrow> stream_tx" where
  "tx_Close tx = tx_fail TransportClosed tx"

definition CloseBecause :: "tx_error \<Rightarrow> stream_tx \<Rightarrow> stream_tx" where
  "CloseBecause e tx = tx_fail e tx"

definition tx_failed :: "stream_tx \<Rightarrow> bool" where
  "tx_failed tx \<longleftrightarrow> tx_okay tx = 0"

definition tx_Send :: "bytes \<Rightarrow> tx_error option \<Rightarrow> stream_tx \<Rightarrow> tx_error option \<times> stream_tx" where
  "tx_Send m wr tx =
     (if tx_failed tx then (tx_err tx, tx)
      else case wr of
        Some e \<Rightarrow> (Some e, tx_fail e tx)
      | None \<Rightarrow> (None, tx\<lparr>tx_out := tx_out tx @ send_frames m\<rparr>))"

definition tx_Receive :: "stream_tx \<Rightarrow> (tx_error option + bytes) \<times> stream_tx" where
  "tx_Receive tx =
     (if tx_failed tx then (Inl (tx_err tx), tx)
      else case recv_loop (tx_MaxMsgSize tx) (tx_conn tx) [] of
        Inl e \<Rightarrow> (Inl (Some e), tx_fail e tx)
      | Inr (m, cs) \<Rightarrow> (Inr m, tx\<lparr>tx_conn := cs\<rparr>))"

text \<open>What was sent is received, when it arrives as one chunk and fits.\<close>

lemma Send_Receive:
  assumes "tx_okay tx = 1" "tx_out tx = []" "tx_okay rx = 1" "int (length m) \<le> tx_MaxMsgSize rx"
    and "tx_Send m None tx = (None, tx')" "tx_conn rx = [tx_out tx' @ rest]"
  shows "\<exists>rx'. tx_Receive rx = (Inr m, rx') \<and> concat (tx_conn rx') = rest \<and> tx_okay rx' = 1"
proof -
  note sp = segs_props [of m]
  have out: "tx_out tx' = wire_frags (segs m)" using assms sp by (auto simp: tx_Send_def tx_failed_def)
  have w: "hdr_whole (segs m) (tx_conn rx)"
    unfolding assms(6) out by (rule hdr_whole_one_chunk) (use sp in blast)+
  have c: "concat (tx_conn rx) = wire_frags (segs m) @ rest" by (simp add: assms(6) out)
  have sz: "int (length ([] @ concat (segs m))) \<le> tx_MaxMsgSize rx" using sp assms(4) by simp
  from recv_complete [OF _ c _ sz w] sp obtain cs where
    "recv_loop (tx_MaxMsgSize rx) (tx_conn rx) [] = Inr (m, cs)" "concat cs = rest"
    by auto
  with assms(3) show ?thesis by (simp add: tx_Receive_def tx_failed_def)
qed

section \<open>fail and failed under concurrency\<close>

text \<open>
  Each goroutine runs fail(e) or failed() one atomic action at a time: the compare-and-swap,
  the store to err, the Close, the store of okay, and the loads of the spinning failed().
\<close>

datatype tx_pc =
    Idle
  | FailCAS tx_error
  | FailSet tx_error
  | FailClose
  | FailStore
  | Spin
  | SawOkay
  | SawErr "tx_error option"

record tx_sys =
  sy_okay :: int
  sy_err :: "tx_error option"
  sy_closes :: nat
  sy_pc :: "nat \<Rightarrow> tx_pc"

definition sy_init :: tx_sys where
  "sy_init = \<lparr>sy_okay = 1, sy_err = None, sy_closes = 0, sy_pc = (\<lambda>_. Idle)\<rparr>"

definition set_pc :: "nat \<Rightarrow> tx_pc \<Rightarrow> tx_sys \<Rightarrow> tx_sys" where
  "set_pc t p s = s\<lparr>sy_pc := (sy_pc s)(t := p)\<rparr>"

inductive tx_step :: "tx_sys \<Rightarrow> tx_sys \<Rightarrow> bool" where
  call_fail: "sy_pc s t \<in> {Idle, SawOkay} \<union> range SawErr \<Longrightarrow> tx_step s (set_pc t (FailCAS e) s)"
| call_failed: "sy_pc s t \<in> {Idle, SawOkay} \<union> range SawErr \<Longrightarrow> tx_step s (set_pc t Spin s)"
| cas_ok: "sy_pc s t = FailCAS e \<Longrightarrow> sy_okay s = 1 \<Longrightarrow>
    tx_step s (set_pc t (FailSet e) (s\<lparr>sy_okay := - 1\<rparr>))"
| cas_no: "sy_pc s t = FailCAS e \<Longrightarrow> sy_okay s \<noteq> 1 \<Longrightarrow> tx_step s (set_pc t Idle s)"
| store_err: "sy_pc s t = FailSet e \<Longrightarrow> tx_step s (set_pc t FailClose (s\<lparr>sy_err := Some e\<rparr>))"
| close_conn: "sy_pc s t = FailClose \<Longrightarrow>
    tx_step s (set_pc t FailStore (s\<lparr>sy_closes := sy_closes s + 1\<rparr>))"
| store_okay: "sy_pc s t = FailStore \<Longrightarrow> tx_step s (set_pc t Idle (s\<lparr>sy_okay := 0\<rparr>))"
| load_0: "sy_pc s t = Spin \<Longrightarrow> sy_okay s = 0 \<Longrightarrow> tx_step s (set_pc t (SawErr (sy_err s)) s)"
| load_1: "sy_pc s t = Spin \<Longrightarrow> sy_okay s = 1 \<Longrightarrow> tx_step s (set_pc t SawOkay s)"
| load_again: "sy_pc s t = Spin \<Longrightarrow> sy_okay s \<notin> {0, 1} \<Longrightarrow> tx_step s s"

inductive tx_reach :: "tx_sys \<Rightarrow> bool" where
  tx_start: "tx_reach sy_init"
| tx_next: "tx_reach s \<Longrightarrow> tx_step s s' \<Longrightarrow> tx_reach s'"

fun failing_pc :: "tx_pc \<Rightarrow> bool" where
  "failing_pc (FailSet e) \<longleftrightarrow> True"
| "failing_pc FailClose \<longleftrightarrow> True"
| "failing_pc FailStore \<longleftrightarrow> True"
| "failing_pc _ \<longleftrightarrow> False"

definition failing :: "tx_sys \<Rightarrow> nat \<Rightarrow> bool" where
  "failing s t \<longleftrightarrow> failing_pc (sy_pc s t)"

text \<open>
  While okay is -1 exactly one goroutine is between its compare-and-swap and its store, and
  err and the connection are as far as it has come; once okay is 0 they are final.
\<close>

fun pc_inv :: "tx_sys \<Rightarrow> tx_pc \<Rightarrow> bool" where
  "pc_inv s (FailSet e) \<longleftrightarrow> sy_err s = None \<and> sy_closes s = 0"
| "pc_inv s FailClose \<longleftrightarrow> sy_err s \<noteq> None \<and> sy_closes s = 0"
| "pc_inv s FailStore \<longleftrightarrow> sy_err s \<noteq> None \<and> sy_closes s = 1"
| "pc_inv s (SawErr x) \<longleftrightarrow> sy_okay s = 0 \<and> x = sy_err s"
| "pc_inv s _ \<longleftrightarrow> True"

definition lock_inv :: "tx_sys \<Rightarrow> bool" where
  "lock_inv s \<longleftrightarrow>
     (if sy_okay s = - 1
      then \<exists>t. failing s t \<and> (\<forall>t'. failing s t' \<longrightarrow> t' = t)
      else \<forall>t. \<not> failing s t)"

definition okay_inv :: "tx_sys \<Rightarrow> bool" where
  "okay_inv s \<longleftrightarrow>
     sy_okay s \<in> {1, - 1, 0} \<and>
     (sy_okay s = 1 \<longrightarrow> sy_err s = None \<and> sy_closes s = 0) \<and>
     (sy_okay s = 0 \<longrightarrow> sy_err s \<noteq> None \<and> sy_closes s = 1)"

definition tx_inv :: "tx_sys \<Rightarrow> bool" where
  "tx_inv s \<longleftrightarrow> okay_inv s \<and> lock_inv s \<and> (\<forall>t. pc_inv s (sy_pc s t))"

lemma tx_inv_init: "tx_inv sy_init"
  by (simp add: tx_inv_def okay_inv_def lock_inv_def sy_init_def failing_def)

lemma set_pc_sel [simp]:
  "sy_okay (set_pc t p s) = sy_okay s" "sy_err (set_pc t p s) = sy_err s"
  "sy_closes (set_pc t p s) = sy_closes s" "sy_pc (set_pc t p s) = (sy_pc s)(t := p)"
  by (simp_all add: set_pc_def)

lemma failing_set_pc [simp]:
  "failing (set_pc t p s) t' = (if t' = t then failing_pc p else failing s t')"
  by (simp add: failing_def)

text \<open>The pc of the other goroutines: unaffected, or there is none that matters.\<close>

lemma pc_inv_idle: "\<not> failing_pc p \<Longrightarrow> sy_okay s \<noteq> 0 \<Longrightarrow> pc_inv s p \<Longrightarrow> pc_inv s' p"
  by (cases p) auto

lemma pc_inv_same:
  "pc_inv s p \<Longrightarrow> sy_err s' = sy_err s \<Longrightarrow> sy_closes s' = sy_closes s \<Longrightarrow> sy_okay s' = sy_okay s \<Longrightarrow>
   pc_inv s' p"
  by (cases p) auto

lemma only_failing:
  "tx_inv s \<Longrightarrow> failing_pc (sy_pc s t) \<Longrightarrow>
   sy_okay s = - 1 \<and> (\<forall>t'. t' \<noteq> t \<longrightarrow> \<not> failing_pc (sy_pc s t'))"
  unfolding tx_inv_def lock_inv_def by (metis failing_def)

text \<open>A step that leaves the shared state alone and the goroutine outside fail.\<close>

lemma tx_inv_local:
  assumes "tx_inv s" "\<not> failing_pc (sy_pc s t)" "\<not> failing_pc p" "pc_inv s p"
  shows "tx_inv (set_pc t p s)"
proof -
  have "failing (set_pc t p s) u = failing s u" for u using assms(2,3) by (simp add: failing_def)
  moreover have "pc_inv (set_pc t p s) (sy_pc (set_pc t p s) u)" for u
    using assms(1,4) by (auto simp: tx_inv_def intro: pc_inv_same)
  ultimately show ?thesis using assms(1) by (simp add: tx_inv_def okay_inv_def lock_inv_def)
qed

text \<open>A step of the goroutine that holds okay at -1.\<close>

lemma tx_inv_holder:
  assumes i: "tx_inv s" and h: "failing_pc (sy_pc s t)" and p: "failing_pc p"
    and s': "sy_pc s' = (sy_pc s)(t := p)" "sy_okay s' = sy_okay s" "pc_inv s' p"
  shows "tx_inv s'"
proof -
  from only_failing [OF i h] have o: "sy_okay s = - 1"
    and n: "\<And>u. u \<noteq> t \<Longrightarrow> \<not> failing_pc (sy_pc s u)" by auto
  have "pc_inv s' (sy_pc s' u)" for u
    using s' n [of u] o i by (auto simp: tx_inv_def intro: pc_inv_idle [of _ s])
  moreover have "lock_inv s'" using s' o p n by (auto simp: lock_inv_def failing_def)
  moreover have "okay_inv s'" using s'(2) o by (simp add: okay_inv_def)
  ultimately show ?thesis by (simp add: tx_inv_def)
qed

lemma tx_inv_acquire:
  assumes i: "tx_inv s" and h: "sy_pc s t = FailCAS e" and o: "sy_okay s = 1"
  shows "tx_inv (set_pc t (FailSet e) (s\<lparr>sy_okay := - 1\<rparr>))"
proof -
  have n: "\<And>u. \<not> failing_pc (sy_pc s u)" "sy_err s = None" "sy_closes s = 0"
    using i o by (auto simp: tx_inv_def lock_inv_def okay_inv_def failing_def)
  have "pc_inv (set_pc t (FailSet e) (s\<lparr>sy_okay := - 1\<rparr>)) (sy_pc s u)" for u
    using n(1) [of u] o i by (auto simp: tx_inv_def intro: pc_inv_idle [of _ s])
  with n show ?thesis by (auto simp: tx_inv_def lock_inv_def okay_inv_def failing_def)
qed

lemma tx_inv_release:
  assumes i: "tx_inv s" and h: "sy_pc s t = FailStore"
  shows "tx_inv (set_pc t Idle (s\<lparr>sy_okay := 0\<rparr>))"
proof -
  from only_failing [OF i, of t] h have o: "sy_okay s = - 1"
    and n: "\<And>u. u \<noteq> t \<Longrightarrow> \<not> failing_pc (sy_pc s u)" by auto
  have e: "sy_err s \<noteq> None" "sy_closes s = 1"
    using i h unfolding tx_inv_def by (metis pc_inv.simps(3))+
  have "pc_inv (set_pc t Idle (s\<lparr>sy_okay := 0\<rparr>)) (sy_pc s u)" if "u \<noteq> t" for u
    using n [OF that] o i by (auto simp: tx_inv_def intro: pc_inv_idle [of _ s])
  with n e show ?thesis by (auto simp: tx_inv_def lock_inv_def okay_inv_def failing_def)
qed

lemma failing_pc_idle: "p \<in> {Idle, SawOkay} \<union> range SawErr \<Longrightarrow> \<not> failing_pc p"
  by auto

lemma tx_inv_step: "tx_step s s' \<Longrightarrow> tx_inv s \<Longrightarrow> tx_inv s'"
proof (induction rule: tx_step.induct)
  case (call_fail s t e)
  from call_fail(2) failing_pc_idle [OF call_fail(1)] show ?case by (rule tx_inv_local) simp_all
next
  case (call_failed s t)
  from call_failed(2) failing_pc_idle [OF call_failed(1)] show ?case by (rule tx_inv_local) simp_all
next
  case (cas_ok s t e)
  then show ?case by (intro tx_inv_acquire)
next
  case (cas_no s t e)
  from cas_no(3) show ?case by (rule tx_inv_local) (simp_all add: cas_no(1))
next
  case (store_err s t e)
  then have "pc_inv s (FailSet e)" unfolding tx_inv_def by metis
  with store_err(1) show ?case
    by (intro tx_inv_holder [OF store_err(2), of t FailClose]) auto
next
  case (close_conn s t)
  then have "pc_inv s FailClose" unfolding tx_inv_def by metis
  with close_conn(1) show ?case
    by (intro tx_inv_holder [OF close_conn(2), of t FailStore]) auto
next
  case (store_okay s t)
  then show ?case by (intro tx_inv_release)
next
  case (load_0 s t)
  from load_0(3) show ?case by (rule tx_inv_local) (simp_all add: load_0(1,2))
next
  case (load_1 s t)
  from load_1(3) show ?case by (rule tx_inv_local) (simp_all add: load_1(1,2))
qed auto

lemma tx_inv_reach: "tx_reach s \<Longrightarrow> tx_inv s"
  by (induction rule: tx_reach.induct) (auto intro: tx_inv_init tx_inv_step)

text \<open>Once failed, always failed, with the same error.\<close>

lemma tx_step_stable:
  assumes "tx_step s s'" "tx_inv s" "sy_okay s = 0"
  shows "sy_okay s' = 0 \<and> sy_err s' = sy_err s \<and> sy_closes s' = sy_closes s"
proof -
  have "\<not> failing_pc (sy_pc s t)" for t using only_failing [OF assms(2), of t] assms(3) by auto
  then have "sy_pc s t \<noteq> FailSet e" "sy_pc s t \<noteq> FailClose" "sy_pc s t \<noteq> FailStore" for t e
    by (metis failing_pc.simps)+
  with assms(1,3) show ?thesis by (cases rule: tx_step.cases) auto
qed

end
