(* ===== verification/TransportCorrect.thy ===== *)
theory TransportCorrect imports StreamTransport begin

text \<open>The properties of the stream transport, with witnesses.\<close>

section \<open>Messages over the connection\<close>

text \<open>
  C16. A message that was sent is received, whole and with the rest of the stream left
  over, when it is within the receiver's MaxMsgSize and every fragment header arrives in
  one piece; the rest of a fragment may arrive in any number of pieces.
\<close>

theorem Send_then_Receive:
  assumes "tx_okay tx = 1" and "tx_okay rx = 1" and "int (length m) \<le> tx_MaxMsgSize rx"
    and "tx_Send m None tx = (None, tx')" and "tx_out tx' = tx_out tx @ sent"
    and "concat (tx_conn rx) = sent @ rest" and "hdr_whole (segs m) (tx_conn rx)"
  shows "\<exists>rx'. tx_Receive rx = (Inr m, rx') \<and> concat (tx_conn rx') = rest \<and> tx_okay rx' = 1"
proof -
  note sp = segs_props [of m]
  have "sent = wire_frags (segs m)" using assms(1,4,5) sp by (auto simp: tx_Send_def tx_failed_def)
  with assms(6) have c: "concat (tx_conn rx) = wire_frags (segs m) @ rest" by simp
  have sz: "int (length ([] @ concat (segs m))) \<le> tx_MaxMsgSize rx" using sp assms(3) by simp
  from recv_complete [OF _ c _ sz assms(7)] sp obtain cs where
    "recv_loop (tx_MaxMsgSize rx) (tx_conn rx) [] = Inr (m, cs)" "concat cs = rest"
    by auto
  with assms(2) show ?thesis by (simp add: tx_Receive_def tx_failed_def)
qed

definition ex_tx :: "conn \<Rightarrow> stream_tx" where
  "ex_tx c = NewStreamTransport 10000000 c"

lemma ex_segs: "segs [1, 2, 3] = [[1, 2, 3]]"
  by (subst segs.simps) (simp add: maxSegment_def)

lemma ex_frames: "send_frames [1, 2, 3] = [128, 0, 0, 3, 1, 2, 3]"
  by (subst send_frames.simps) (simp add: maxSegment_def be_put32_def)

theorem Send_then_Receive_witness:
  "\<exists>rx'. tx_Receive (ex_tx [[128, 0, 0, 3], [1], [2, 3, 9]]) = (Inr [1, 2, 3], rx') \<and>
    concat (tx_conn rx') = [9] \<and> tx_okay rx' = 1"
proof (rule Send_then_Receive [of "ex_tx []" _ _ "(ex_tx [])\<lparr>tx_out := send_frames [1, 2, 3]\<rparr>"
      "send_frames [1, 2, 3]"])
  show "hdr_whole (segs [1, 2, 3]) (tx_conn (ex_tx [[128, 0, 0, 3], [1], [2, 3, 9]]))"
    by (simp add: ex_segs ex_tx_def NewStreamTransport_def eval_nat_numeral)
qed (simp_all add: ex_tx_def NewStreamTransport_def tx_Send_def tx_failed_def ex_frames)

text \<open>
  C17. What Receive returns is never longer than MaxMsgSize and is the concatenation of
  the fragments, up to and including the first one marked last, that the stream starts
  with; nothing beyond them is consumed.
\<close>

theorem Receive_sound:
  assumes "tx_Receive rx = (Inr m, rx')"
  shows "int (length m) \<le> tx_MaxMsgSize rx \<and> tx_okay rx' = tx_okay rx \<and>
    (\<exists>fs. fs \<noteq> [] \<and> m = concat fs \<and> list_all (\<lambda>f. length f < 2 ^ 31) fs \<and>
      concat (tx_conn rx) = wire_frags fs @ concat (tx_conn rx'))"
proof -
  from assms obtain cs where r: "recv_loop (tx_MaxMsgSize rx) (tx_conn rx) [] = Inr (m, cs)"
      "rx' = rx\<lparr>tx_conn := cs\<rparr>"
    by (auto simp: tx_Receive_def split: if_splits sum.splits prod.splits)
  from recv_sound [OF r(1)] r(2) show ?thesis by (auto simp: list_all_iff)
qed

lemma ex_two_frags:
  "recv_loop 10000000 [[0, 0, 0, 1, 7, 128, 0, 0, 1, 8]] [] = Inr ([7, 8], [])"
  by code_simp

theorem Receive_sound_witness:
  "int (length [7, 8 :: u8]) \<le> tx_MaxMsgSize (ex_tx [[0, 0, 0, 1, 7, 128, 0, 0, 1, 8]]) \<and>
    tx_okay (ex_tx []) = tx_okay (ex_tx [[0, 0, 0, 1, 7, 128, 0, 0, 1, 8]]) \<and>
    (\<exists>fs. fs \<noteq> [] \<and> [7, 8] = concat fs \<and> list_all (\<lambda>f. length f < 2 ^ 31) fs \<and>
      concat (tx_conn (ex_tx [[0, 0, 0, 1, 7, 128, 0, 0, 1, 8]])) =
        wire_frags fs @ concat (tx_conn (ex_tx [])))"
  by (rule Receive_sound)
    (simp add: tx_Receive_def tx_failed_def ex_tx_def NewStreamTransport_def ex_two_frags)

text \<open>
  Receive depends on how TCP cuts the stream: when fewer than the four bytes of a
  header are there at the time of the read, it fails the connection as a short read,
  whatever follows.
\<close>

lemma Receive_split_header:
  assumes "tx_okay rx = 1" and "tx_conn rx = c # cs" and "0 < length c" and "length c < 4"
  shows "tx_Receive rx = (Inl (Some ShortHeader), tx_fail ShortHeader rx) \<and>
    tx_okay (snd (tx_Receive rx)) = 0 \<and> tx_closes (snd (tx_Receive rx)) = tx_closes rx + 1"
proof -
  have "recv_loop (tx_MaxMsgSize rx) (c # cs) [] = Inl ShortHeader"
    using assms(3,4) by (subst recv_loop.simps) auto
  with assms(1,2) show ?thesis by (simp add: tx_Receive_def tx_failed_def tx_fail_def)
qed

lemma Receive_split_header_witness:
  "tx_Receive (ex_tx [[128, 0], [0, 1, 5]]) =
     (Inl (Some ShortHeader), tx_fail ShortHeader (ex_tx [[128, 0], [0, 1, 5]])) \<and>
    tx_okay (snd (tx_Receive (ex_tx [[128, 0], [0, 1, 5]]))) = 0 \<and>
    tx_closes (snd (tx_Receive (ex_tx [[128, 0], [0, 1, 5]]))) = tx_closes (ex_tx [[128, 0], [0, 1, 5]]) + 1"
  by (rule Receive_split_header [of _ "[128, 0]" "[[0, 1, 5]]"]) (simp_all add: ex_tx_def NewStreamTransport_def)

section \<open>Failure\<close>

text \<open>The operations of a transport in whatever order one goroutine makes them.\<close>

datatype tx_op = OpSend bytes "tx_error option" | OpReceive | OpClose | OpCloseBecause tx_error

fun tx_do :: "tx_op \<Rightarrow> stream_tx \<Rightarrow> stream_tx" where
  "tx_do (OpSend m wr) tx = snd (tx_Send m wr tx)"
| "tx_do OpReceive tx = snd (tx_Receive tx)"
| "tx_do OpClose tx = tx_Close tx"
| "tx_do (OpCloseBecause e) tx = CloseBecause e tx"

definition tx_sane :: "stream_tx \<Rightarrow> bool" where
  "tx_sane tx \<longleftrightarrow>
     (tx_okay tx = 1 \<and> tx_err tx = None \<and> tx_closes tx = 0 \<or>
      tx_okay tx = 0 \<and> tx_err tx \<noteq> None \<and> tx_closes tx = 1)"

lemma tx_sane_do: "tx_sane tx \<Longrightarrow> tx_sane (tx_do op tx)"
  by (cases op)
    (auto simp: tx_sane_def tx_Send_def tx_Receive_def tx_Close_def CloseBecause_def tx_fail_def tx_failed_def
      split: option.splits sum.splits prod.splits)

lemma tx_do_failed: "tx_okay tx = 0 \<Longrightarrow> tx_do op tx = tx"
  by (cases op) (auto simp: tx_Send_def tx_Receive_def tx_Close_def CloseBecause_def tx_fail_def tx_failed_def)

lemma tx_run_sane: "tx_sane tx \<Longrightarrow> tx_sane (fold tx_do ops tx)"
  by (induction ops arbitrary: tx) (auto intro: tx_sane_do)

lemma tx_run_failed: "tx_okay tx = 0 \<Longrightarrow> fold tx_do ops tx = tx"
  by (induction ops arbitrary: tx) (auto simp: tx_do_failed)

text \<open>
  From its creation on, a transport works or has failed once: the first failure sets
  err and closes the connection, exactly once, and from then on no operation changes
  anything and Send and Receive return that first error.
\<close>

lemma first_failure_sticks:
  assumes "tx = fold tx_do ops (NewStreamTransport mx c)"
  shows "(if tx_failed tx
     then tx_closes tx = 1 \<and> tx_err tx \<noteq> None \<and> fold tx_do later tx = tx \<and>
       tx_Send m wr tx = (tx_err tx, tx) \<and> tx_Receive tx = (Inl (tx_err tx), tx)
     else tx_okay tx = 1 \<and> tx_closes tx = 0 \<and> tx_err tx = None)"
proof -
  have "tx_sane tx" unfolding assms by (rule tx_run_sane) (simp add: tx_sane_def NewStreamTransport_def)
  then show ?thesis
    using tx_run_failed [of tx later] by (auto simp: tx_sane_def tx_failed_def tx_Send_def tx_Receive_def)
qed

lemma first_failure_sticks_witness:
  "(if tx_failed (fold tx_do [OpReceive, OpClose] (ex_tx []))
     then tx_closes (fold tx_do [OpReceive, OpClose] (ex_tx [])) = 1 \<and>
       tx_err (fold tx_do [OpReceive, OpClose] (ex_tx [])) \<noteq> None \<and>
       fold tx_do [OpClose] (fold tx_do [OpReceive, OpClose] (ex_tx [])) =
         fold tx_do [OpReceive, OpClose] (ex_tx []) \<and>
       tx_Send [] None (fold tx_do [OpReceive, OpClose] (ex_tx [])) =
         (tx_err (fold tx_do [OpReceive, OpClose] (ex_tx [])), fold tx_do [OpReceive, OpClose] (ex_tx [])) \<and>
       tx_Receive (fold tx_do [OpReceive, OpClose] (ex_tx [])) =
         (Inl (tx_err (fold tx_do [OpReceive, OpClose] (ex_tx []))), fold tx_do [OpReceive, OpClose] (ex_tx []))
     else tx_okay (fold tx_do [OpReceive, OpClose] (ex_tx [])) = 1 \<and>
       tx_closes (fold tx_do [OpReceive, OpClose] (ex_tx [])) = 0 \<and>
       tx_err (fold tx_do [OpReceive, OpClose] (ex_tx [])) = None)"
  by (rule first_failure_sticks) (simp only: ex_tx_def)

lemma tx_reach_stable:
  "tx_step\<^sup>*\<^sup>* s s' \<Longrightarrow> tx_inv s \<Longrightarrow> sy_okay s = 0 \<Longrightarrow>
   tx_inv s' \<and> sy_okay s' = 0 \<and> sy_err s' = sy_err s \<and> sy_closes s' = sy_closes s"
proof (induction rule: rtranclp_induct)
  case (step y z)
  then have y: "tx_inv y" "sy_okay y = 0" "sy_err y = sy_err s" "sy_closes y = sy_closes s" by auto
  from tx_step_stable [OF step.hyps(2) y(1,2)] tx_inv_step [OF step.hyps(2) y(1)] y(3,4)
  show ?case by simp
qed simp_all

text \<open>
  Under any interleaving of the atomic actions of fail and failed: err is written and
  the connection closed by at most one goroutine, once; a failed() that returned true goes
  with an err that is set and, whatever happens afterwards, never changes again.
\<close>

lemma fail_atomic:
  assumes "tx_reach s" and "sy_pc s t = SawErr x" and "tx_step\<^sup>*\<^sup>* s s'"
  shows "x \<noteq> None \<and> sy_err s = x \<and> sy_err s' = x \<and> sy_closes s = 1 \<and> sy_closes s' = 1 \<and>
    \<not> failing s' u"
proof -
  have i: "tx_inv s" by (rule tx_inv_reach [OF assms(1)])
  then have "pc_inv s (SawErr x)" using assms(2) unfolding tx_inv_def by metis
  then have o: "sy_okay s = 0" "x = sy_err s" by simp_all
  with i have e: "sy_err s \<noteq> None" "sy_closes s = 1" by (simp_all add: tx_inv_def okay_inv_def)
  from tx_reach_stable [OF assms(3) i o(1)] have s': "tx_inv s'" "sy_okay s' = 0"
      "sy_err s' = sy_err s" "sy_closes s' = 1"
    using e by simp_all
  from s'(1,2) have "\<not> failing s' u" by (simp add: tx_inv_def lock_inv_def)
  with o e s' show ?thesis by simp
qed

lemma ex_reach: "\<exists>s. tx_reach s \<and> sy_pc s 1 = SawErr (Some TransportClosed)"
proof -
  note r1 = tx_next [OF tx_start call_fail [of sy_init 0 TransportClosed]]
  note r2 = tx_next [OF r1 cas_ok [of _ 0 TransportClosed]]
  note r3 = tx_next [OF r2 store_err [of _ 0 TransportClosed]]
  note r4 = tx_next [OF r3 close_conn [of _ 0]]
  note r5 = tx_next [OF r4 store_okay [of _ 0]]
  note r6 = tx_next [OF r5 call_failed [of _ 1]]
  note r7 = tx_next [OF r6 load_0 [of _ 1]]
  show ?thesis
    by (rule exI, rule conjI, rule r7) (simp_all add: sy_init_def)
qed

lemma fail_atomic_witness:
  "\<exists>s :: tx_sys. sy_pc s 1 = SawErr (Some TransportClosed) \<and> sy_err s = Some TransportClosed \<and> sy_closes s = 1"
proof -
  from ex_reach obtain s where s: "tx_reach s" "sy_pc s 1 = SawErr (Some TransportClosed)"
    by (elim exE conjE)
  from fail_atomic [OF s rtranclp.rtrancl_refl] s(2) show ?thesis by blast
qed

end
