(* ===== verification/MsgPool.thy ===== *)
theory MsgPool imports RpcWire ObjPool begin

text \<open>
  Messages and their pools (rpc/msg.go, rpc/msgpool.go). A message is an object of the pool
  it came from; the clock readings of a message and its report hook are not modelled. The
  lemmas give what the operations do to the messages in use, from the contract of the pool.
\<close>

record message =
  m_buf :: bytes
  m_Peer :: string

definition zero_message :: message where
  "zero_message = \<lparr>m_buf = [], m_Peer = []\<rparr>"

type_synonym msg_pool = "message any_pool"

text \<open>The reset function of both pools: an empty buffer and no peer.\<close>

definition msg_reset :: "message \<Rightarrow> message" where
  "msg_reset m = m\<lparr>m_Peer := [], m_buf := []\<rparr>"

definition NewMsgArena :: "nat \<Rightarrow> nat \<Rightarrow> nat \<Rightarrow> (nat \<Rightarrow> message) \<Rightarrow> msg_pool" where
  "NewMsgArena base sz cap mem = AnArena (NewArena base sz cap msg_reset zero_message mem)"

definition NewMsgPool :: "(nat \<Rightarrow> message) \<Rightarrow> msg_pool" where
  "NewMsgPool mem = APool (NewPool msg_reset zero_message mem)"

definition NewMessage :: "nat option \<times> nat \<Rightarrow> string \<Rightarrow> msg_pool \<Rightarrow> msg_pool \<times> nat" where
  "NewMessage e peer p =
     (case ap_Get e p of (p', a) \<Rightarrow> (ap_put a ((ap_obj p' a)\<lparr>m_Peer := peer\<rparr>) p', a))"

definition msg_Recycle :: "nat \<Rightarrow> msg_pool \<Rightarrow> msg_pool" where
  "msg_Recycle a p = ap_Recycle a p"

text \<open>Serialize appends to the message's buffer.\<close>

definition msg_Serialize :: "nat \<Rightarrow> (go_panic + bytes) list \<Rightarrow> msg_pool \<Rightarrow> go_panic + msg_pool" where
  "msg_Serialize a vs p =
     bindE (Serialize (m_buf (ap_obj p a)) vs) (\<lambda>b.
       Inr (ap_put a ((ap_obj p a)\<lparr>m_buf := b\<rparr>) p))"

section \<open>The messages in use\<close>

text \<open>Every pool of messages resets with \<open>msg_reset\<close>.\<close>

definition mp_inv :: "msg_pool \<Rightarrow> nat set \<Rightarrow> bool" where
  "mp_inv p H \<longleftrightarrow> ap_inv p H \<and>
     (case p of AnArena a \<Rightarrow> ar_reset a = msg_reset | APool q \<Rightarrow> po_reset q = msg_reset)"

lemma reset_same:
  "ap_Get e p = (p', a) \<Longrightarrow>
   (case p of AnArena q \<Rightarrow> ar_reset q = f | APool q \<Rightarrow> po_reset q = f) \<Longrightarrow>
   (case p' of AnArena q \<Rightarrow> ar_reset q = f | APool q \<Rightarrow> po_reset q = f)"
  by (cases p)
    (auto simp: ap_Get_def ar_Get_def po_Get_def sync_Get_def po_New_def Let_def
      split: if_splits option.splits prod.splits)

lemma NewMessage_spec:
  assumes i: "mp_inv p H" and e: "ap_env p H e" and n: "NewMessage e peer p = (p', a)"
  shows "a \<notin> H" and "mp_inv p' (insert a H)" and "ap_obj p' a = \<lparr>m_buf = [], m_Peer = peer\<rparr>"
    and "b \<in> H \<Longrightarrow> ap_obj p' b = ap_obj p b"
proof -
  obtain p1 where g: "ap_Get e p = (p1, a)" and p': "p' = ap_put a ((ap_obj p1 a)\<lparr>m_Peer := peer\<rparr>) p1"
    using n by (auto simp: NewMessage_def split: prod.splits)
  have i': "ap_inv p H" using i by (simp add: mp_inv_def)
  note gp = anyp.Get_put [OF i' e g]
  show "a \<notin> H" by (rule anyp.Get_new [OF i' e g])
  have r: "(case p1 of AnArena q \<Rightarrow> ar_reset q = msg_reset | APool q \<Rightarrow> po_reset q = msg_reset)"
    using reset_same [OF g] i by (simp add: mp_inv_def)
  have "ap_clean p1 (ap_obj p1 a)" by (rule anyp.Get_clean [OF i' e g])
  with r obtain y where "ap_obj p1 a = msg_reset y"
    by (cases p1) (auto simp: ap_clean_def ar_clean_def po_clean_def)
  then show "ap_obj p' a = \<lparr>m_buf = [], m_Peer = peer\<rparr>" by (simp add: p' gp msg_reset_def)
  show "mp_inv p' (insert a H)"
    using gp(1) r unfolding p' mp_inv_def by (cases p1) (auto simp: ap_put_def)
  show "ap_obj p' b = ap_obj p b" if "b \<in> H" using gp(3) that by (simp add: p')
qed

lemma mp_put:
  "mp_inv p H \<Longrightarrow> a \<in> H \<Longrightarrow> mp_inv (ap_put a x p) H"
  using anyp.put_inv [of p H a x] by (cases p) (auto simp: mp_inv_def ap_put_def)

lemma Recycle_spec:
  assumes "mp_inv p H" and "a \<in> H"
  shows "mp_inv (msg_Recycle a p) (H - {a})"
    and "b \<in> H - {a} \<Longrightarrow> ap_obj (msg_Recycle a p) b = ap_obj p b"
  using assms anyp.Recycle_inv [of p H a] anyp.Recycle_frame [of p H a b]
  by (cases p; auto simp: mp_inv_def msg_Recycle_def ap_Recycle_def ar_Recycle_def po_Recycle_def)+

lemma msg_Serialize_spec:
  assumes "mp_inv p H" and "a \<in> H" and "msg_Serialize a vs p = Inr p'"
  shows "mp_inv p' H"
    and "\<exists>b. Serialize (m_buf (ap_obj p a)) vs = Inr b \<and> ap_obj p' a = (ap_obj p a)\<lparr>m_buf := b\<rparr>"
    and "b \<noteq> a \<Longrightarrow> ap_obj p' b = ap_obj p b"
  using assms mp_put [OF assms(1,2)]
  by (auto simp: msg_Serialize_def bindE_eq_Inr anyp.put_obj)

lemma NewMsgPool_inv: "mp_inv (NewMsgPool mem) {}"
  by (simp add: mp_inv_def NewMsgPool_def ap_inv_def NewPool_inv) (simp add: NewPool_def)

lemma NewMsgArena_inv: "0 < sz \<Longrightarrow> 0 < base \<Longrightarrow> mp_inv (NewMsgArena base sz n mem) {}"
  by (simp add: mp_inv_def NewMsgArena_def ap_inv_def NewArena_inv) (simp add: NewArena_def)

end
