(* ===== verification/Driver.thy ===== *)
theory Driver imports RpcServer CallSet MsgPool StreamTransport begin

text \<open>
  The RPC driver (rpc/driver.go): how a message received from the transport is handled
  (doMsg), how a call is sent and awaited (SendCall), what happens when the main loop ends
  (doMsgs), the goroutines between the channels and the transport (ReceiveChan, SendChan),
  and the idempotent unlock (mkUnlocker).
  Each function is one step of the driver's state: what other goroutines do in between is
  another step. What the runtime decides is an argument: the pools' environments, which
  case of a select is taken, the iteration order of a map. Logging and contexts' values
  are not modelled.
\<close>

section \<open>State\<close>

text \<open>
  The messages received belong to the pool of the transport, those to be sent to the
  driver's own; \<open>dr_out\<close> is the queue to the sending goroutine, \<open>dr_done\<close> whether the
  driver's context is done.
\<close>

record driver =
  dr_srv :: rpc_srv
  dr_cs :: callset
  dr_rx :: msg_pool
  dr_pool :: msg_pool
  dr_out :: "nat list"
  dr_done :: bool

datatype send_error = SendClosed | SendCtxErr

datatype select_case = Sent | DriverDone | CallDone

definition Close :: "driver \<Rightarrow> driver" where
  "Close dr = dr\<lparr>dr_done := True\<rparr>"

definition safeSend :: "select_case \<Rightarrow> nat \<Rightarrow> driver \<Rightarrow> send_error option \<times> driver" where
  "safeSend sel m dr =
     (case sel of
        Sent \<Rightarrow> (None, dr\<lparr>dr_out := dr_out dr @ [m]\<rparr>)
      | DriverDone \<Rightarrow> (Some SendClosed, Close (dr\<lparr>dr_pool := msg_Recycle m (dr_pool dr)\<rparr>))
      | CallDone \<Rightarrow> (Some SendCtxErr, dr\<lparr>dr_pool := msg_Recycle m (dr_pool dr)\<rparr>))"

definition dr_Register :: "xdr_srv \<Rightarrow> driver \<Rightarrow> driver" where
  "dr_Register srv dr = dr\<lparr>dr_srv := Register srv (dr_srv dr)\<rparr>"

section \<open>Calling\<close>

text \<open>
  SendCall up to the select that awaits the reply: the XID to wait for, or the error
  safeSend returned. \<open>arg\<close> is the encoding of the argument.
\<close>

definition SendCall ::
  "nat option \<times> nat \<Rightarrow> nat option \<times> nat \<Rightarrow> select_case \<Rightarrow> string \<Rightarrow> xdr_proc \<Rightarrow> go_panic + bytes \<Rightarrow>
   nat \<Rightarrow> driver \<Rightarrow> (go_panic + ((send_error + u32) \<times> driver)) option" where
  "SendCall ec em sel peer proc arg cb dr =
     bindO (NewCall ec peer proc cb (dr_cs dr)) (\<lambda>r.
       Some (bindE r (\<lambda>(cmsg, cs).
         case NewMessage em peer (dr_pool dr) of (p1, m) \<Rightarrow>
         bindE (msg_Serialize m [marshal_msg cmsg, arg] p1) (\<lambda>p2.
           case safeSend sel m (dr\<lparr>dr_cs := cs, dr_pool := p2\<rparr>) of
             (None, dr') \<Rightarrow> Inr (Inr (Xid cmsg), dr')
           | (Some err, dr') \<Rightarrow> Inr (Inl err, dr'\<lparr>dr_cs := Delete (Xid cmsg) (dr_cs dr')\<rparr>)))))"

datatype wait_case = GotReply rpc_msg | WaitDriverDone | WaitCallDone
datatype call_error = Replied_error rpc_msg | Call_error send_error

definition SendCall_wait :: "wait_case \<Rightarrow> u32 \<Rightarrow> driver \<Rightarrow> go_panic + (call_error option \<times> driver)" where
  "SendCall_wait w xid dr =
     (case w of
        GotReply rmsg \<Rightarrow>
          bindE (IsSuccess rmsg) (\<lambda>ok. Inr (if ok then None else Some (Replied_error rmsg), dr))
      | WaitDriverDone \<Rightarrow> Inr (Some (Call_error SendClosed), dr\<lparr>dr_cs := Delete xid (dr_cs dr)\<rparr>)
      | WaitCallDone \<Rightarrow> Inr (Some (Call_error SendCtxErr), dr\<lparr>dr_cs := Delete xid (dr_cs dr)\<rparr>))"

section \<open>Handling a message\<close>

datatype do_result =
    BadHeader xdr_error
  | Callback "nat option" rpc_msg "val option"
  | Ignored
  | Answered rpc_msg "send_error option"

text \<open>
  The deferred function of doMsg after Do() returned or panicked: the status of the reply,
  the reply with the result on success, the message recycled and the reply sent.
\<close>

definition finish_call ::
  "nat option \<times> nat \<Rightarrow> select_case \<Rightarrow> nat \<Rightarrow> srv_proc \<Rightarrow> rpc_msg \<Rightarrow> go_panic + val \<Rightarrow> driver \<Rightarrow>
   go_panic + (do_result \<times> driver)" where
  "finish_call em sel m proc rmsg res dr =
     bindE (case res of
              Inr v \<Rightarrow> Inr rmsg
            | Inl q \<Rightarrow> bindE (IsSuccess rmsg) (\<lambda>ok. if ok then SetStat rmsg SYSTEM_ERR else Inr rmsg))
       (\<lambda>r.
     case NewMessage em (m_Peer (ap_obj (dr_rx dr) m)) (dr_pool dr) of (p1, reply) \<Rightarrow>
     bindE (msg_Serialize reply [marshal_msg r] p1) (\<lambda>p2.
     bindE (IsSuccess r) (\<lambda>ok.
     bindE (if ok
            then msg_Serialize reply [case res of Inr v \<Rightarrow> sp_out proc v | Inl q \<Rightarrow> Inl Stuck] p2
            else Inr p2) (\<lambda>p3.
       case safeSend sel reply (dr\<lparr>dr_rx := msg_Recycle m (dr_rx dr), dr_pool := p3\<rparr>) of
         (err, dr') \<Rightarrow> Inr (Answered r err, dr')))))"

definition doMsg ::
  "(srv_prog \<Rightarrow> u32 list) \<Rightarrow> nat option \<times> nat \<Rightarrow> select_case \<Rightarrow> nat \<Rightarrow> driver \<Rightarrow>
   go_panic + (do_result \<times> driver)" where
  "doMsg ord em sel m dr =
     (let msg = ap_obj (dr_rx dr) m in
     bindE (GetMsg (m_buf msg)) (\<lambda>g.
     case g of
       Inl e \<Rightarrow> Inr (BadHeader e, Close (dr\<lparr>dr_rx := msg_Recycle m (dr_rx dr)\<rparr>))
     | Inr (hdr, body) \<Rightarrow>
       bindE (GetReply (m_Peer msg) hdr body (dr_cs dr)) (\<lambda>(found, hdr', cs).
       case found of
         Some (proc, cb, res) \<Rightarrow>
           Inr (Callback cb hdr' res, dr\<lparr>dr_cs := cs, dr_rx := msg_Recycle m (dr_rx dr)\<rparr>)
       | None \<Rightarrow>
         bindE (GetProc ord (dr_srv dr) hdr' (Some body)) (\<lambda>(rmsg, proc).
         case rmsg of
           None \<Rightarrow> Inr (Ignored, dr\<lparr>dr_cs := cs, dr_rx := msg_Recycle m (dr_rx dr)\<rparr>)
         | Some r \<Rightarrow>
           (case proc of
              None \<Rightarrow>
                (case NewMessage em (m_Peer msg) (dr_pool dr) of (p1, reply) \<Rightarrow>
                 bindE (msg_Serialize reply [marshal_msg r] p1) (\<lambda>p2.
                   case safeSend sel reply
                          (dr\<lparr>dr_cs := cs, dr_rx := msg_Recycle m (dr_rx dr), dr_pool := p2\<rparr>) of
                     (err, dr') \<Rightarrow> Inr (Answered r err, dr')))
            | Some (pr, arg) \<Rightarrow>
                finish_call em sel m pr r
                  (case arg of Some a \<Rightarrow> sp_Do pr a | None \<Rightarrow> Inl Stuck) (dr\<lparr>dr_cs := cs\<rparr>))))))"

text \<open>The deferred function of doMsgs, when the main loop returns.\<close>

definition doMsgs_exit :: "u32 list \<Rightarrow> driver \<Rightarrow> go_panic + ((nat option \<times> rpc_msg) list \<times> driver)" where
  "doMsgs_exit ord dr =
     bindE (CancelAll ord (dr_cs (Close dr))) (\<lambda>(ev, cs). Inr (ev, (Close dr)\<lparr>dr_cs := cs\<rparr>))"

section \<open>The goroutines at the transport\<close>

text \<open>The channel of received messages, by their bytes.\<close>

record recv_chan =
  rc_queue :: "bytes list"
  rc_closed :: bool

text \<open>One round of ReceiveChan; \<open>done\<close> is whether the select finds the context done.\<close>

definition ReceiveChan :: "bool \<Rightarrow> recv_chan \<times> stream_tx \<Rightarrow> recv_chan \<times> stream_tx" where
  "ReceiveChan done = (\<lambda>(c, t).
     case tx_Receive t of
       (Inl e, t') \<Rightarrow> (c\<lparr>rc_closed := True\<rparr>, tx_Close t')
     | (Inr m, t') \<Rightarrow>
         if done then (c\<lparr>rc_closed := True\<rparr>, CloseBecause TransportAbandoned t')
         else (c\<lparr>rc_queue := rc_queue c @ [m]\<rparr>, t'))"

text \<open>
  One round of SendChan with the onErr of NewDriverTuned, which cancels the call whose XID
  the message carries. The transport recycles the message.
\<close>

datatype send_case = SC_cancel | SC_closed | SC_message nat "tx_error option"

definition SendChan ::
  "send_case \<Rightarrow> stream_tx \<times> driver \<Rightarrow>
   go_panic + ((nat option \<times> rpc_msg) list \<times> bool \<times> (stream_tx \<times> driver))" where
  "SendChan ev = (\<lambda>(t, dr).
     case ev of
       SC_message m wr \<Rightarrow>
         let b = m_buf (ap_obj (dr_pool dr) m); xid = msg_Xid b in
         (case tx_Send b wr t of (err, t') \<Rightarrow>
            let dr' = dr\<lparr>dr_pool := msg_Recycle m (dr_pool dr)\<rparr> in
            if err \<noteq> None
            then bindE (Cancel xid [SEND_ERR] (dr_cs dr')) (\<lambda>(cbs, cs).
                   Inr (cbs, True, (tx_Close t', dr'\<lparr>dr_cs := cs\<rparr>)))
            else Inr ([], True, (t', dr')))
     | _ \<Rightarrow> Inr ([], False, (CloseBecause TransportAbandoned t, dr)))"

section \<open>Unlocking once\<close>

text \<open>
  The Locker shared by calls: who holds it, and whether it was ever unlocked while free,
  which is a fatal error of sync.Mutex. An unlocker is the closure of one call with its
  sync.Once.
\<close>

record lock_sys =
  lk_holder :: "nat option"
  lk_made :: "nat set"
  lk_done :: "nat set"
  lk_fatal :: bool

definition lock_init :: lock_sys where
  "lock_init = \<lparr>lk_holder = None, lk_made = {}, lk_done = {}, lk_fatal = False\<rparr>"

definition Unlock :: "lock_sys \<Rightarrow> lock_sys" where
  "Unlock s =
     (if lk_holder s = None then s\<lparr>lk_fatal := True\<rparr> else s\<lparr>lk_holder := None\<rparr>)"

text \<open>mkUnlocker of call \<open>i\<close>: Lock waits until the lock is free.\<close>

definition mkUnlocker :: "nat \<Rightarrow> lock_sys \<Rightarrow> lock_sys option" where
  "mkUnlocker i s =
     (if lk_holder s = None \<and> i \<notin> lk_made s
      then Some (s\<lparr>lk_holder := Some i, lk_made := insert i (lk_made s)\<rparr>) else None)"

text \<open>The closure it returns: once.Do(lock.Unlock).\<close>

definition run_unlock :: "nat \<Rightarrow> lock_sys \<Rightarrow> lock_sys" where
  "run_unlock i s =
     (if i \<in> lk_done s then s else Unlock (s\<lparr>lk_done := insert i (lk_done s)\<rparr>))"

inductive lk_reach :: "lock_sys \<Rightarrow> bool" where
  lk_start: "lk_reach lock_init"
| lk_lock: "lk_reach s \<Longrightarrow> mkUnlocker i s = Some s' \<Longrightarrow> lk_reach s'"
| lk_unlock: "lk_reach s \<Longrightarrow> i \<in> lk_made s \<Longrightarrow> lk_reach (run_unlock i s)"

definition lk_inv :: "lock_sys \<Rightarrow> bool" where
  "lk_inv s \<longleftrightarrow> \<not> lk_fatal s \<and> lk_done s \<subseteq> lk_made s \<and>
     (case lk_holder s of None \<Rightarrow> lk_made s = lk_done s
      | Some i \<Rightarrow> i \<notin> lk_done s \<and> lk_made s = insert i (lk_done s))"

lemma lk_reach_inv: "lk_reach s \<Longrightarrow> lk_inv s"
proof (induction rule: lk_reach.induct)
  case lk_start
  show ?case by (simp add: lk_inv_def lock_init_def)
next
  case (lk_lock s i s')
  then show ?case by (auto simp: lk_inv_def mkUnlocker_def split: if_splits)
next
  case (lk_unlock s i)
  then show ?case
    by (auto simp: lk_inv_def run_unlock_def Unlock_def split: option.splits if_splits)
qed

end
