(* ===== verification/DriverCorrect.thy ===== *)
theory DriverCorrect imports Driver RpcCorrect begin

text \<open>
  The properties of the driver: a call from one driver to another and back, what becomes
  of every message, the replies to failing services, failing sends, the end of the main
  loop, and the lock.
\<close>

section \<open>Headers read back\<close>

lemma call_read_back:
  assumes "marshal_msg (call_msg xid proc) = Inr hb"
  shows "\<exists>m. GetMsg (hb @ argb) = Inr (Inr (m, argb)) \<and> Xid m = xid \<and> Mtype (Body m) = CALL \<and>
    mb_call (Body m) = mb_call (Body (call_msg xid proc))"
proof -
  have f: "msg_fits (call_msg xid proc)"
    by (simp add: msg_fits_def call_msg_def mb_call_def call_fits_def oa_fits_def zero_oa_def rpc_consts)
  from unmarshal_marshal [OF f, of zero_msg argb] assms obtain m where
    m: "unmarshal_msg zero_msg (hb @ argb) = Inr (m, argb)" "norm_msg m = norm_msg (call_msg xid proc)"
    by auto
  from m(2) have "Xid m = xid \<and> Mtype (Body m) = CALL \<and> mb_call (Body m) = mb_call (Body (call_msg xid proc))"
    by (cases m; cases "Body m") (auto simp: norm_msg_def norm_body_def call_msg_def)
  with m(1) show ?thesis by (auto simp: unmarshal_zero_eq)
qed

lemma norm_stat: "rd_Stat (ar_Reply_data (norm_ar a)) = rd_Stat (ar_Reply_data a)"
  by (simp add: norm_ar_def norm_rd_def)

lemma reply_read_back:
  assumes "marshal_msg (accepted_msg xid st u) = Inr hb"
  shows "\<exists>m. GetMsg (hb @ resb) = Inr (Inr (m, resb)) \<and> Xid m = xid \<and> Mtype (Body m) = REPLY \<and>
    (succeeded m \<longleftrightarrow> st = SUCCESS)"
proof -
  from unmarshal_marshal [OF accepted_msg_fits, of xid st u zero_msg resb] assms obtain m where
    m: "unmarshal_msg zero_msg (hb @ resb) = Inr (m, resb)" "norm_msg m = norm_msg (accepted_msg xid st u)"
    by auto
  have mt: "Mtype (Body m) = REPLY \<and> Xid m = xid"
    using m(2) by (cases m; cases "Body m") (auto simp: norm_msg_def norm_body_def accepted_msg_def)
  with m(2) have r: "norm_rb (mb_rb (Body m)) = norm_rb (mb_rb (Body (accepted_msg xid st u)))"
    by (cases m; cases "Body m") (auto simp: norm_msg_def norm_body_def accepted_msg_def rpc_consts)
  then have s: "rb_Stat (mb_rb (Body m)) = MSG_ACCEPTED"
    by (cases "mb_rb (Body m)") (auto simp: norm_rb_def accepted_msg_def mb_rb_def)
  with r have "norm_ar (rb_ar (mb_rb (Body m))) = norm_ar (rb_ar (mb_rb (Body (accepted_msg xid st u))))"
    by (cases "mb_rb (Body m)") (auto simp: norm_rb_def accepted_msg_def mb_rb_def)
  from arg_cong [OF this, of "\<lambda>a. rd_Stat (ar_Reply_data a)"]
  have "rd_Stat (ar_Reply_data (rb_ar (mb_rb (Body m)))) = st"
    by (simp add: norm_stat) (simp add: accepted_msg_def mb_rb_def rb_ar_def)
  with m(1) mt s show ?thesis by (auto simp: unmarshal_zero_eq succeeded_def)
qed

lemma accepted_marshals: "\<exists>hb. marshal_msg (accepted_msg xid st u) = Inr hb"
  using unmarshal_marshal [OF accepted_msg_fits] by blast

section \<open>Sending\<close>

lemma Serialize_two: "Serialize [] [Inr a, Inr b] = Inr (a @ b)"
  by simp

text \<open>A message that was filled in is queued, or recycled.\<close>

lemma safeSend_spec:
  assumes "mp_inv (dr_pool dr) (insert a H)" and "a \<notin> H" and "safeSend sel a dr = (err, dr')"
  shows "dr_out dr' = dr_out dr @ (if err = None then [a] else [])"
    and "mp_inv (dr_pool dr') (if err = None then insert a H else H)"
    and "dr_cs dr' = dr_cs dr" and "dr_rx dr' = dr_rx dr" and "dr_srv dr' = dr_srv dr"
    and "err = None \<Longrightarrow> dr_pool dr' = dr_pool dr"
    and "err = None \<longleftrightarrow> sel = Sent"
  using assms Recycle_spec(1) [OF assms(1), of a]
  by (auto simp: safeSend_def Close_def split: select_case.splits)

lemma SendCall_bytes:
  assumes i: "cs_inv (dr_cs c)" "ap_env (cs_pool (dr_cs c)) (ran (cs_calls (dr_cs c))) ec"
    and p: "mp_inv (dr_pool c) H" "ap_env (dr_pool c) H em"
    and s: "SendCall ec em Sent peer proc (Inr argb) cb c = Some (Inr (Inr xid, c1))"
  shows "\<exists>hb m. marshal_msg (call_msg xid proc) = Inr hb \<and> dr_out c1 = dr_out c @ [m] \<and>
    ap_obj (dr_pool c1) m = \<lparr>m_buf = hb @ argb, m_Peer = peer\<rparr> \<and> cs_inv (dr_cs c1) \<and>
    view (dr_cs c1) = (view (dr_cs c))(xid \<mapsto> \<lparr>pc_Proc = Some proc, pc_Cb = Some cb, pc_Server = peer\<rparr>)"
proof -
  from s obtain r where r: "NewCall ec peer proc cb (dr_cs c) = Some r" by (auto simp: SendCall_def bindO_eq_Some)
  from NewCall_spec [OF i r] obtain x cs where
    n: "r = Inr (call_msg x proc, cs)" "cs_inv cs"
      "view cs = (view (dr_cs c))(x \<mapsto> \<lparr>pc_Proc = Some proc, pc_Cb = Some cb, pc_Server = peer\<rparr>)"
    by metis
  obtain p1 m where nm: "NewMessage em peer (dr_pool c) = (p1, m)" by fastforce
  note ns = NewMessage_spec [OF p nm]
  have X: "Xid (call_msg x proc) = x" by (simp add: call_msg_def)
  from s r n nm obtain p2 where
    z: "msg_Serialize m [marshal_msg (call_msg x proc), Inr argb] p1 = Inr p2"
    and f: "x = xid" "c1 = c\<lparr>dr_cs := cs, dr_pool := p2, dr_out := dr_out c @ [m]\<rparr>"
    by (auto simp: SendCall_def bindE_eq_Inr Inr_eq_bindE safeSend_def X)
  from msg_Serialize_spec(2) [OF ns(2) _ z] ns(3) obtain b where
    b: "Serialize [] [marshal_msg (call_msg x proc), Inr argb] = Inr b"
      "ap_obj p2 m = \<lparr>m_buf = b, m_Peer = peer\<rparr>" by auto
  from b(1) obtain hb where "marshal_msg (call_msg x proc) = Inr hb" "b = hb @ argb"
    by (auto simp: bindE_eq_Inr)
  with b(2) f n show ?thesis by auto
qed

section \<open>Serving\<close>

lemma IsSuccess_accepted: "IsSuccess (accepted_msg x st u) = Inr (st = SUCCESS)"
  by (simp add: IsSuccess_succeeded)

lemma SetStat_accepted: "SetStat (accepted_msg x st u) st' = Inr (accepted_msg x st' u)"
  by (simp add: SetStat_eq accepted_msg_def)

lemma GetReply_call: "Mtype (Body h) = CALL \<Longrightarrow> GetReply server h b cs = Inr (None, h, cs)"
  by (simp add: GetReply_def)

lemma GetProc_ready:
  assumes "Mtype (Body h) = CALL" "Rpcvers (mb_call (Body h)) = 2"
    and "srv_lookup s (Prog (mb_call (Body h))) (Vers (mb_call (Body h))) = Some srv"
    and "sv_GetProc srv (Proc (mb_call (Body h))) = Some proc" "sp_in proc buf = Inr (a, r)"
  shows "GetProc ord s h (Some buf) = Inr (Some (accepted_msg (Xid h) SUCCESS RD_nil), Some (proc, Some a))"
proof -
  from assms(3) obtain prog where "s (Prog (mb_call (Body h))) = Some prog" "prog (Vers (mb_call (Body h))) = Some srv"
    by (auto simp: srv_lookup_def bindO_eq_Some)
  from GetProc_found [where s = s, OF assms(1,2) this assms(4), of ord buf] assms(5) show ?thesis by simp
qed

text \<open>What the deferred function sends: the header, and the result when Do returned.\<close>

lemma finish_call_spec:
  assumes p: "mp_inv (dr_pool dr) H" "ap_env (dr_pool dr) H em"
    and res: "case res of Inr v \<Rightarrow> sp_out proc v = Inr rb | Inl q \<Rightarrow> rb = []"
    and hb: "marshal_msg (accepted_msg x (case res of Inr v \<Rightarrow> SUCCESS | Inl q \<Rightarrow> SYSTEM_ERR) u) = Inr hb"
  shows "\<exists>k dr'. finish_call em Sent m proc (accepted_msg x SUCCESS u) res dr =
      Inr (Answered (accepted_msg x (case res of Inr v \<Rightarrow> SUCCESS | Inl q \<Rightarrow> SYSTEM_ERR) u) None, dr') \<and>
    dr_out dr' = dr_out dr @ [k] \<and> k \<notin> H \<and> m_buf (ap_obj (dr_pool dr') k) = hb @ rb \<and>
    dr_cs dr' = dr_cs dr \<and> dr_rx dr' = msg_Recycle m (dr_rx dr)"
proof -
  obtain p1 k where nm: "NewMessage em (m_Peer (ap_obj (dr_rx dr) m)) (dr_pool dr) = (p1, k)" by fastforce
  note ns = NewMessage_spec [OF p nm]
  show ?thesis
  proof (cases res)
    case (Inr v)
    then show ?thesis
      using res hb nm ns(1,3)
      by (simp add: finish_call_def IsSuccess_accepted msg_Serialize_def anyp.put_obj safeSend_def)
  next
    case (Inl q)
    have "SYSTEM_ERR \<noteq> SUCCESS" by (simp add: rpc_consts)
    then show ?thesis
      using Inl res hb nm ns(1,3)
      by (simp add: finish_call_def IsSuccess_accepted SetStat_accepted msg_Serialize_def anyp.put_obj safeSend_def)
  qed
qed

text \<open>A call of a registered procedure whose argument unmarshals is answered.\<close>

lemma doMsg_call:
  assumes p: "mp_inv (dr_pool s) H" "ap_env (dr_pool s) H em"
    and buf: "m_buf (ap_obj (dr_rx s) m) = hb @ argb" "marshal_msg (call_msg xid proc) = Inr hb"
    and srv: "srv_lookup (dr_srv s) (xp_Prog proc) (xp_Vers proc) = Some srv"
      "sv_GetProc srv (xp_Proc proc) = Some sp" "sp_in sp argb = Inr (a, r)"
    and res: "case sp_Do sp a of Inr v \<Rightarrow> sp_out sp v = Inr rb | Inl q \<Rightarrow> rb = []"
    and rh: "marshal_msg (accepted_msg xid (case sp_Do sp a of Inr v \<Rightarrow> SUCCESS | Inl q \<Rightarrow> SYSTEM_ERR) RD_nil) = Inr rhb"
  shows "\<exists>k s'. doMsg ord em Sent m s =
      Inr (Answered (accepted_msg xid (case sp_Do sp a of Inr v \<Rightarrow> SUCCESS | Inl q \<Rightarrow> SYSTEM_ERR) RD_nil) None, s') \<and>
    dr_out s' = dr_out s @ [k] \<and> k \<notin> H \<and> m_buf (ap_obj (dr_pool s') k) = rhb @ rb \<and>
    dr_cs s' = dr_cs s \<and> dr_rx s' = msg_Recycle m (dr_rx s)"
proof -
  from call_read_back [OF buf(2), of argb] obtain h where
    h: "GetMsg (hb @ argb) = Inr (Inr (h, argb))" "Xid h = xid" "Mtype (Body h) = CALL"
      "mb_call (Body h) = mb_call (Body (call_msg xid proc))" by blast
  have c: "Rpcvers (mb_call (Body h)) = 2" "Prog (mb_call (Body h)) = xp_Prog proc"
    "Vers (mb_call (Body h)) = xp_Vers proc" "Proc (mb_call (Body h)) = xp_Proc proc"
    using h(4) by (simp_all add: call_msg_def mb_call_def)
  from GetProc_ready [OF h(3) c(1), of "dr_srv s" srv sp argb a r ord] srv c h(2)
  have g: "GetProc ord (dr_srv s) h (Some argb) = Inr (Some (accepted_msg xid SUCCESS RD_nil), Some (sp, Some a))"
    by simp
  have "doMsg ord em Sent m s = finish_call em Sent m sp (accepted_msg xid SUCCESS RD_nil) (sp_Do sp a) s"
    by (simp add: doMsg_def buf(1) h(1) GetReply_call [OF h(3)] g)
  with finish_call_spec [where m = m, OF p res rh] show ?thesis by simp
qed

text \<open>The reply to a pending call makes its callback.\<close>

lemma doMsg_reply:
  assumes i: "cs_inv (dr_cs c)"
    and pc: "view (dr_cs c) xid = Some \<lparr>pc_Proc = Some proc, pc_Cb = Some cb, pc_Server = peer\<rparr>"
    and m: "ap_obj (dr_rx c) m = \<lparr>m_buf = hb @ resb, m_Peer = peer\<rparr>"
    and hb: "marshal_msg (accepted_msg xid st u) = Inr hb" and res: "st = SUCCESS \<Longrightarrow> xp_in proc resb = Inr (v, r)"
  shows "\<exists>h c'. doMsg ord em sel m c =
      Inr (Callback (Some cb) h (if st = SUCCESS then Some v else None), c') \<and>
    Xid h = xid \<and> IsSuccess h = Inr (st = SUCCESS) \<and> cs_inv (dr_cs c') \<and>
    view (dr_cs c') = (view (dr_cs c))(xid := None) \<and> dr_rx c' = msg_Recycle m (dr_rx c)"
proof -
  from reply_read_back [OF hb, of resb] obtain h where
    h: "GetMsg (hb @ resb) = Inr (Inr (h, resb))" "Xid h = xid" "Mtype (Body h) = REPLY"
      "succeeded h \<longleftrightarrow> st = SUCCESS" by blast
  have "reply_outcome proc h resb = Inr (if st = SUCCESS then Some v else None, h)"
    using h(4) res by (simp add: reply_outcome_def)
  with GetReply_match [OF i h(3), of _ peer proc resb] pc h(2) obtain cs' where
    "GetReply peer h resb (dr_cs c) = Inr (Some (Some proc, Some cb, if st = SUCCESS then Some v else None), h, cs')"
    "cs_inv cs'" "view cs' = (view (dr_cs c))(xid := None)" by auto
  with m h show ?thesis by (simp add: doMsg_def IsSuccess_succeeded)
qed

section \<open>Properties\<close>

text \<open>
  SendCall registers the call, with its callback, under the XID it returns, and queues
  one message: the header of a version 2 call of the procedure followed by the argument.
\<close>

lemma SendCall_correct:
  assumes "cs_inv (dr_cs c)" and "ap_env (cs_pool (dr_cs c)) (ran (cs_calls (dr_cs c))) ec"
    and "mp_inv (dr_pool c) H" and "ap_env (dr_pool c) H em" and "dom (cs_calls (dr_cs c)) \<noteq> UNIV"
  shows "\<exists>xid c' m hb. SendCall ec em Sent peer proc (Inr argb) cb c = Some (Inr (Inr xid, c')) \<and>
    dr_out c' = dr_out c @ [m] \<and> ap_obj (dr_pool c') m = \<lparr>m_buf = hb @ argb, m_Peer = peer\<rparr> \<and>
    marshal_msg (call_msg xid proc) = Inr hb \<and> cs_inv (dr_cs c') \<and> view (dr_cs c) xid = None \<and>
    view (dr_cs c') = (view (dr_cs c))(xid \<mapsto> \<lparr>pc_Proc = Some proc, pc_Cb = Some cb, pc_Server = peer\<rparr>)"
proof -
  from assms(5) obtain y where "next_xid (\<lambda>x. cs_calls (dr_cs c) x \<noteq> None) (cs_lastXid (dr_cs c)) = Some y"
    using next_xid_terminates [of "\<lambda>x. cs_calls (dr_cs c) x \<noteq> None" "cs_lastXid (dr_cs c)"] by auto
  then obtain r where "NewCall ec peer proc cb (dr_cs c) = Some r" by (auto simp: NewCall_def)
  with NewCall_spec [OF assms(1,2) this] obtain xid cs where
    n: "NewCall ec peer proc cb (dr_cs c) = Some (Inr (call_msg xid proc, cs))" "cs_calls (dr_cs c) xid = None"
    by metis
  have f: "msg_fits (call_msg xid proc)"
    by (simp add: msg_fits_def call_msg_def mb_call_def call_fits_def oa_fits_def zero_oa_def rpc_consts)
  from unmarshal_marshal [OF f] obtain hb where hb: "marshal_msg (call_msg xid proc) = Inr hb" by blast
  obtain p1 m where nm: "NewMessage em peer (dr_pool c) = (p1, m)" by fastforce
  have X: "Xid (call_msg xid proc) = xid" by (simp add: call_msg_def)
  obtain c' where s: "SendCall ec em Sent peer proc (Inr argb) cb c = Some (Inr (Inr xid, c'))"
    using n hb nm NewMessage_spec(3) [OF assms(3,4) nm]
    by (simp add: SendCall_def msg_Serialize_def safeSend_def X)
  from SendCall_bytes [OF assms(1-4) s] s n(2) show ?thesis
    by (metis view_eq_None)
qed

definition ex_dr :: "bytes \<Rightarrow> string \<Rightarrow> callset \<Rightarrow> rpc_srv \<Rightarrow> driver" where
  "ex_dr b peer cs srv = \<lparr>dr_srv = srv, dr_cs = cs, dr_rx = NewMsgPool (\<lambda>_. \<lparr>m_buf = b, m_Peer = peer\<rparr>),
     dr_pool = NewMsgPool (\<lambda>_. zero_message), dr_out = [], dr_done = False\<rparr>"

lemma ex_dr_ok:
  "mp_inv (dr_pool (ex_dr b peer cs srv)) {}" "ap_env (dr_pool (ex_dr b peer cs srv)) {} (None, 9)"
  "ap_obj (dr_rx (ex_dr b peer cs srv)) i = \<lparr>m_buf = b, m_Peer = peer\<rparr>"
  "dr_cs (ex_dr b peer cs srv) = cs" "dr_srv (ex_dr b peer cs srv) = srv" "dr_out (ex_dr b peer cs srv) = []"
  by (simp_all add: ex_dr_def NewMsgPool_inv) (simp_all add: NewMsgPool_def NewPool_def ap_env_def po_env_def ap_obj_def)

lemma ex_cs_env: "ap_env (cs_pool ex_cs) (ran (cs_calls ex_cs)) (None, 5)" "dom (cs_calls ex_cs) \<noteq> UNIV"
  by (simp_all add: ex_cs_def NewCallPool_def NewPool_def ap_env_def po_env_def)

lemma SendCall_correct_witness:
  "\<exists>xid c' m hb. SendCall (None, 5) (None, 9) Sent ''srv'' ex_proc (Inr [0, 0, 0, 8]) 3
      (ex_dr [] [] ex_cs Map.empty) = Some (Inr (Inr xid, c')) \<and>
    dr_out c' = dr_out (ex_dr [] [] ex_cs Map.empty) @ [m] \<and>
    ap_obj (dr_pool c') m = \<lparr>m_buf = hb @ [0, 0, 0, 8], m_Peer = ''srv''\<rparr> \<and>
    marshal_msg (call_msg xid ex_proc) = Inr hb \<and> cs_inv (dr_cs c') \<and>
    view (dr_cs (ex_dr [] [] ex_cs Map.empty)) xid = None \<and>
    view (dr_cs c') = (view (dr_cs (ex_dr [] [] ex_cs Map.empty)))(xid \<mapsto>
      \<lparr>pc_Proc = Some ex_proc, pc_Cb = Some 3, pc_Server = ''srv''\<rparr>)"
  by (rule SendCall_correct [where H = "{}"]) (simp_all add: ex_dr_ok ex_cs_inv ex_cs_env)

text \<open>
  A call and its reply, through both drivers: when the bytes the client's driver queued
  reach the server, whose service knows the procedure and can unmarshal its argument, and
  the bytes the server queued reach the client while the call is pending, then the client
  makes the call's callback, with a success and the unmarshaled result if the service
  returned, with an error and no result if it panicked; and the call is no longer pending.
\<close>

lemma rpc_call_and_reply:
  assumes "cs_inv (dr_cs c)" and "ap_env (cs_pool (dr_cs c)) (ran (cs_calls (dr_cs c))) ec"
    and "mp_inv (dr_pool c) H" and "ap_env (dr_pool c) H em"
    and "SendCall ec em Sent peer proc (Inr argb) cb c = Some (Inr (Inr xid, c1))"
    and "dr_out c1 = dr_out c @ [m]"
    and "mp_inv (dr_pool s) H'" and "ap_env (dr_pool s) H' em'"
    and "m_buf (ap_obj (dr_rx s) ms) = m_buf (ap_obj (dr_pool c1) m)"
    and "srv_lookup (dr_srv s) (xp_Prog proc) (xp_Vers proc) = Some srv"
    and "sv_GetProc srv (xp_Proc proc) = Some sp" and "sp_in sp argb = Inr (a, r)"
    and "case sp_Do sp a of Inr v \<Rightarrow> sp_out sp v = Inr rb \<and> xp_in proc rb = Inr (v', r') | Inl q \<Rightarrow> rb = []"
    and "doMsg ord em' Sent ms s = Inr (res, s1)" and "dr_out s1 = dr_out s @ [k]"
    and "cs_inv (dr_cs c2)" and "view (dr_cs c2) xid = view (dr_cs c1) xid"
    and "ap_obj (dr_rx c2) mc = \<lparr>m_buf = m_buf (ap_obj (dr_pool s1) k), m_Peer = peer\<rparr>"
  shows "\<exists>h c3. doMsg ord' em2 sel mc c2 =
      Inr (Callback (Some cb) h (case sp_Do sp a of Inr v \<Rightarrow> Some v' | Inl q \<Rightarrow> None), c3) \<and>
    Xid h = xid \<and> IsSuccess h = Inr (case sp_Do sp a of Inr v \<Rightarrow> True | Inl q \<Rightarrow> False) \<and>
    view (dr_cs c3) = (view (dr_cs c2))(xid := None)"
proof -
  from SendCall_bytes [OF assms(1-5)] assms(6) obtain hb where
    cl: "marshal_msg (call_msg xid proc) = Inr hb" "m_buf (ap_obj (dr_pool c1) m) = hb @ argb"
      "view (dr_cs c1) xid = Some \<lparr>pc_Proc = Some proc, pc_Cb = Some cb, pc_Server = peer\<rparr>" by auto
  let ?st = "case sp_Do sp a of Inr v \<Rightarrow> SUCCESS | Inl q \<Rightarrow> SYSTEM_ERR"
  from accepted_marshals obtain rhb where rhb: "marshal_msg (accepted_msg xid ?st RD_nil) = Inr rhb" by blast
  have "case sp_Do sp a of Inr v \<Rightarrow> sp_out sp v = Inr rb | Inl q \<Rightarrow> rb = []"
    using assms(13) by (auto split: sum.splits)
  from doMsg_call [OF assms(7,8) assms(9) [unfolded cl(2)] cl(1) assms(10-12) this rhb, of ord]
  have sv: "m_buf (ap_obj (dr_pool s1) k) = rhb @ rb" using assms(14,15) by auto
  have st: "(?st = SUCCESS) = (case sp_Do sp a of Inr v \<Rightarrow> True | Inl q \<Rightarrow> False)"
    by (simp add: rpc_consts split: sum.splits)
  have "xp_in proc rb = Inr (v', r')" if "?st = SUCCESS" using that assms(13) st by (auto split: sum.splits)
  from doMsg_reply [OF assms(16) assms(17) [unfolded cl(3)] assms(18) [unfolded sv] rhb this,
      of ord' em2 sel] st
  show ?thesis by (auto split: sum.splits)
qed

definition ex_sp :: srv_proc where
  "ex_sp = \<lparr>sp_in = (\<lambda>b. bindE (xdrGet32 b) (\<lambda>(w, r). Inr (VNum32 w, r))), sp_Do = Inr,
     sp_out = (\<lambda>v. case v of VNum32 w \<Rightarrow> Inr (be_put32 w) | _ \<Rightarrow> Inl Stuck)\<rparr>"

lemma ex_srv_found:
  "srv_lookup (Register ex_srv Map.empty) (xp_Prog ex_proc) (xp_Vers ex_proc) = Some ex_srv"
  "sv_GetProc ex_srv (xp_Proc ex_proc) = Some ex_sp"
  by (simp_all add: srv_lookup_Register ex_proc_def ex_srv_def ex_sp_def)

lemma ex_arg: "bindE (xdrGet32 [0, 0, 0, 8]) (\<lambda>(w, r). Inr (VNum32 w, r)) = Inr (VNum32 8, [])"
  by code_simp

lemma ex_out: "be_put32 8 = [0, 0, 0, 8]"
  by code_simp

lemma rpc_call_and_reply_witness:
  "\<exists>c2 h c3. doMsg (\<lambda>_. []) (None, 9) Sent 1 c2 = Inr (Callback (Some 3) h (Some (VNum32 8)), c3) \<and>
    IsSuccess h = Inr True"
proof -
  let ?c = "ex_dr [] [] ex_cs Map.empty"
  from SendCall_correct [of ?c "(None, 5)" "{}" "(None, 9)" "''srv''" ex_proc "[0, 0, 0, 8]" 3]
  obtain xid c1 m hb where c1: "SendCall (None, 5) (None, 9) Sent ''srv'' ex_proc (Inr [0, 0, 0, 8]) 3 ?c =
      Some (Inr (Inr xid, c1))" "dr_out c1 = dr_out ?c @ [m]"
      "ap_obj (dr_pool c1) m = \<lparr>m_buf = hb @ [0, 0, 0, 8], m_Peer = ''srv''\<rparr>"
      "marshal_msg (call_msg xid ex_proc) = Inr hb" "cs_inv (dr_cs c1)"
    by (auto simp: ex_dr_ok ex_cs_inv ex_cs_env)
  let ?s = "ex_dr (hb @ [0, 0, 0, 8]) [] ex_cs (Register ex_srv Map.empty)"
  from accepted_marshals obtain rhb where rhb: "marshal_msg (accepted_msg xid SUCCESS RD_nil) = Inr rhb" by blast
  have sp: "sp_in ex_sp [0, 0, 0, 8] = Inr (VNum32 8, [])" "sp_Do ex_sp (VNum32 8) = Inr (VNum32 8)"
    "sp_out ex_sp (VNum32 8) = Inr [0, 0, 0, 8]" "xp_in ex_proc [0, 0, 0, 8] = Inr (VNum32 8, [])"
    by (simp_all add: ex_sp_def ex_arg ex_out ex_proc_def)
  from doMsg_call [of ?s "{}" "(None, 9)" 1 hb "[0, 0, 0, 8]" xid ex_proc ex_srv ex_sp "VNum32 8" "[]"
      "[0, 0, 0, 8]" rhb "\<lambda>_. []"] c1(4) rhb sp ex_srv_found
  obtain k s1 where s1: "doMsg (\<lambda>_. []) (None, 9) Sent 1 ?s =
      Inr (Answered (accepted_msg xid SUCCESS RD_nil) None, s1)" "dr_out s1 = dr_out ?s @ [k]"
    by (auto simp: ex_dr_ok)
  let ?c2 = "ex_dr (m_buf (ap_obj (dr_pool s1) k)) ''srv'' (dr_cs c1) Map.empty"
  note t = rpc_call_and_reply [of ?c "(None, 5)" "{}" "(None, 9)" "''srv''" ex_proc "[0, 0, 0, 8]" 3 xid c1 m
      ?s "{}" "(None, 9)" 1 ex_srv ex_sp "VNum32 8" "[]" "[0, 0, 0, 8]" "VNum32 8" "[]"
      "\<lambda>_. []" "Answered (accepted_msg xid SUCCESS RD_nil) None" s1 k ?c2 1 "\<lambda>_. []" "(None, 9)" Sent]
  have "\<exists>h c3. doMsg (\<lambda>_. []) (None, 9) Sent 1 ?c2 =
      Inr (Callback (Some 3) h (case sp_Do ex_sp (VNum32 8) of Inr v \<Rightarrow> Some (VNum32 8) | Inl q \<Rightarrow> None), c3) \<and>
    Xid h = xid \<and> IsSuccess h = Inr (case sp_Do ex_sp (VNum32 8) of Inr v \<Rightarrow> True | Inl q \<Rightarrow> False) \<and>
    view (dr_cs c3) = (view (dr_cs ?c2))(xid := None)"
    by (rule t) (use c1(1,2) s1 in
      \<open>simp_all add: ex_dr_ok ex_cs_inv ex_cs_env ex_srv_found c1(3,5) sp\<close>)
  then show ?thesis unfolding sp(2) by (simp only: sum.case) blast
qed

section \<open>What becomes of messages\<close>

text \<open>
  The driver's messages in use after a step that had \<open>H\<close> in use before: those, and the
  new one in the queue if one was sent.
\<close>

definition kept :: "nat set \<Rightarrow> driver \<Rightarrow> driver \<Rightarrow> bool \<Rightarrow> bool" where
  "kept H dr dr' sent \<longleftrightarrow>
     (\<exists>new. dr_out dr' = dr_out dr @ new \<and> set new \<inter> H = {} \<and> mp_inv (dr_pool dr') (set new \<union> H) \<and>
        length new = (if sent then 1 else 0))"

lemma kept_none: "dr_out dr' = dr_out dr \<Longrightarrow> mp_inv (dr_pool dr') H \<Longrightarrow> kept H dr dr' False"
  by (simp add: kept_def)

lemma kept_send:
  assumes "mp_inv (dr_pool d1) (insert a H)" "a \<notin> H" "dr_out d1 = dr_out dr" "safeSend sel a d1 = (err, dr')"
  shows "kept H dr dr' (err = None)" and "dr_rx dr' = dr_rx d1"
proof -
  note s = safeSend_spec [OF assms(1,2,4)]
  show "kept H dr dr' (err = None)"
    unfolding kept_def
    by (rule exI [of _ "if err = None then [a] else []"]) (use s(1,2) assms(2,3) in auto)
  show "dr_rx dr' = dr_rx d1" by (rule s(4))
qed

definition res_sent :: "do_result \<Rightarrow> bool" where
  "res_sent res = (case res of Answered r err \<Rightarrow> err = None | _ \<Rightarrow> False)"

lemma finish_call_messages:
  assumes p: "mp_inv (dr_pool dr) H" "ap_env (dr_pool dr) H em"
    and f: "finish_call em sel m proc rmsg res dr = Inr (out, dr')"
  shows "kept H dr dr' (res_sent out)" and "dr_rx dr' = msg_Recycle m (dr_rx dr)"
proof -
  obtain p1 a where nm: "NewMessage em (m_Peer (ap_obj (dr_rx dr) m)) (dr_pool dr) = (p1, a)" by fastforce
  note ns = NewMessage_spec [OF p nm]
  from f nm obtain r p2 p3 ok where
    s1: "msg_Serialize a [marshal_msg r] p1 = Inr p2"
    and s2: "(if ok then msg_Serialize a [case res of Inr v \<Rightarrow> sp_out proc v | Inl q \<Rightarrow> Inl Stuck] p2
            else Inr p2) = Inr p3"
    and e0: "(case safeSend sel a (dr\<lparr>dr_rx := msg_Recycle m (dr_rx dr), dr_pool := p3\<rparr>) of
      (err, dr') \<Rightarrow> Inr (Answered r err, dr')) = (Inr (out, dr') :: go_panic + _)"
    by (auto simp: finish_call_def bindE_eq_Inr)
  from e0 obtain err where e: "safeSend sel a (dr\<lparr>dr_rx := msg_Recycle m (dr_rx dr), dr_pool := p3\<rparr>) = (err, dr')"
      "out = Answered r err"
    by (auto split: prod.splits)
  have "mp_inv p2 (insert a H)" by (rule msg_Serialize_spec(1) [OF ns(2) _ s1]) simp
  then have "mp_inv p3 (insert a H)"
    using s2 msg_Serialize_spec(1) [of p2 "insert a H" a _ p3] by (auto split: if_splits)
  with kept_send [OF _ ns(1) _ e(1), of dr] show "kept H dr dr' (res_sent out)"
    and "dr_rx dr' = msg_Recycle m (dr_rx dr)"
    by (simp_all add: e(2) res_sent_def)
qed

lemma kept_cs: "kept H (dr\<lparr>dr_cs := cs\<rparr>) dr' b = kept H dr dr' b"
  by (simp add: kept_def)

lemma reply_only_messages:
  assumes p: "mp_inv (dr_pool dr) H" "ap_env (dr_pool dr) H em"
    and f: "(case NewMessage em peer (dr_pool dr) of (p1, reply) \<Rightarrow>
      bindE (msg_Serialize reply [marshal_msg r] p1) (\<lambda>p2.
        case safeSend sel reply (dr\<lparr>dr_cs := cs, dr_rx := rx, dr_pool := p2\<rparr>) of
          (err, dr') \<Rightarrow> Inr (Answered r err, dr'))) = (Inr (res, dr') :: go_panic + _)"
  shows "dr_rx dr' = rx \<and> kept H dr dr' (res_sent res)"
proof -
  obtain p1 a where nm: "NewMessage em peer (dr_pool dr) = (p1, a)" by fastforce
  note ns = NewMessage_spec [OF p nm]
  from f nm obtain p2 where s: "msg_Serialize a [marshal_msg r] p1 = Inr p2"
    and e0: "(case safeSend sel a (dr\<lparr>dr_cs := cs, dr_rx := rx, dr_pool := p2\<rparr>) of
      (err, dr') \<Rightarrow> Inr (Answered r err, dr')) = (Inr (res, dr') :: go_panic + _)"
    by (auto simp: bindE_eq_Inr)
  from e0 obtain err where e: "safeSend sel a (dr\<lparr>dr_cs := cs, dr_rx := rx, dr_pool := p2\<rparr>) = (err, dr')"
    "res = Answered r err"
    by (auto split: prod.splits)
  have "mp_inv p2 (insert a H)" by (rule msg_Serialize_spec(1) [OF ns(2) _ s]) simp
  with kept_send [OF _ ns(1) _ e(1), of dr] show ?thesis by (simp add: e(2) res_sent_def)
qed

text \<open>A message that is not a reply to a pending call.\<close>

lemma dispatch_messages:
  assumes p: "mp_inv (dr_pool dr) H" "ap_env (dr_pool dr) H em"
    and g: "GetMsg (m_buf (ap_obj (dr_rx dr) m)) = Inr (Inr (hdr, body))"
    and gr: "GetReply (m_Peer (ap_obj (dr_rx dr) m)) hdr body (dr_cs dr) = Inr (None, hdr', cs)"
    and d: "doMsg ord em sel m dr = Inr (res, dr')"
  shows "dr_rx dr' = msg_Recycle m (dr_rx dr) \<and> kept H dr dr' (res_sent res)"
proof -
  from d g gr obtain rmsg proc where gp: "GetProc ord (dr_srv dr) hdr' (Some body) = Inr (rmsg, proc)"
    by (auto simp: doMsg_def Let_def bindE_eq_Inr)
  note pre = d g gr gp
  consider "rmsg = None" | r where "rmsg = Some r" "proc = None"
    | r pr arg where "rmsg = Some r" "proc = Some (pr, arg)"
    by (cases rmsg; cases proc) auto
  then show ?thesis
  proof cases
    case 1
    with pre p show ?thesis by (auto simp: doMsg_def Let_def res_sent_def kept_none)
  next
    case (2 r)
    show ?thesis
      by (rule reply_only_messages [OF p]) (use pre 2 in \<open>simp add: doMsg_def Let_def\<close>)
  next
    case (3 r pr arg)
    with pre have "finish_call em sel m pr r (case arg of Some a \<Rightarrow> sp_Do pr a | None \<Rightarrow> Inl Stuck)
        (dr\<lparr>dr_cs := cs\<rparr>) = Inr (res, dr')"
      by (simp add: doMsg_def Let_def)
    from finish_call_messages [OF _ _ this, of H] p show ?thesis by (simp add: kept_cs)
  qed
qed

text \<open>
  C18. doMsg accounts for every message: the one it handles is recycled to the transport's
  pool, exactly once, on every branch that returns; a reply it makes is either queued or
  recycled, and nothing else is allocated.
\<close>

theorem doMsg_messages:
  assumes "mp_inv (dr_rx dr) R" and "m \<in> R" and "mp_inv (dr_pool dr) H" and "ap_env (dr_pool dr) H em"
    and "doMsg ord em sel m dr = Inr (res, dr')"
  shows "mp_inv (dr_rx dr') (R - {m}) \<and> kept H dr dr' (res_sent res)"
proof -
  have rx: "mp_inv (msg_Recycle m (dr_rx dr)) (R - {m})" by (rule Recycle_spec(1) [OF assms(1,2)])
  have "dr_rx dr' = msg_Recycle m (dr_rx dr) \<and> kept H dr dr' (res_sent res)"
  proof (cases "GetMsg (m_buf (ap_obj (dr_rx dr) m))")
    case (Inl q)
    with assms(5) show ?thesis by (simp add: doMsg_def)
  next
    case g: (Inr x)
    show ?thesis
    proof (cases x)
      case (Inl e)
      with g assms(3,5) show ?thesis by (auto simp: doMsg_def Close_def res_sent_def kept_none)
    next
      case (Inr hb)
      obtain hdr body where hb: "hb = (hdr, body)" by fastforce
      from assms(5) g Inr hb obtain found hdr' cs where
        gr: "GetReply (m_Peer (ap_obj (dr_rx dr) m)) hdr body (dr_cs dr) = Inr (found, hdr', cs)"
        by (auto simp: doMsg_def Let_def bindE_eq_Inr)
      show ?thesis
      proof (cases found)
        case (Some t)
        with assms(3,5) g Inr hb gr show ?thesis
          by (auto simp: doMsg_def Let_def res_sent_def split: prod.splits simp: kept_none)
      next
        case None
        with dispatch_messages [OF assms(3,4) _ _ assms(5)] g Inr hb gr show ?thesis by simp
      qed
    qed
  qed
  with rx show ?thesis by simp
qed

lemma ex_rx_inv: "mp_inv (dr_rx (ex_dr b peer cs srv)) {1}"
  by (simp add: ex_dr_def NewMsgPool_def mp_inv_def ap_inv_def NewPool_def po_inv_def)

theorem doMsg_messages_witness:
  "\<exists>b res (dr' :: driver). doMsg (\<lambda>_. []) (None, 9) Sent 1 (ex_dr b ''srv'' ex_cs (Register ex_srv Map.empty)) =
      Inr (res, dr') \<and> res_sent res \<and> mp_inv (dr_rx dr') ({1} - {1}) \<and>
    kept {} (ex_dr b ''srv'' ex_cs (Register ex_srv Map.empty)) dr' (res_sent res)"
proof -
  have "msg_fits (call_msg 7 ex_proc)"
    by (simp add: msg_fits_def call_msg_def mb_call_def call_fits_def oa_fits_def zero_oa_def rpc_consts)
  from unmarshal_marshal [OF this] obtain hb where hb: "marshal_msg (call_msg 7 ex_proc) = Inr hb" by blast
  from accepted_marshals obtain rhb where rhb: "marshal_msg (accepted_msg 7 SUCCESS RD_nil) = Inr rhb" by blast
  let ?s = "ex_dr (hb @ [0, 0, 0, 8]) ''srv'' ex_cs (Register ex_srv Map.empty)"
  have sp: "sp_in ex_sp [0, 0, 0, 8] = Inr (VNum32 8, [])" "sp_Do ex_sp (VNum32 8) = Inr (VNum32 8)"
    "sp_out ex_sp (VNum32 8) = Inr [0, 0, 0, 8]"
    by (simp_all add: ex_sp_def ex_arg ex_out)
  from doMsg_call [of ?s "{}" "(None, 9)" 1 hb "[0, 0, 0, 8]" 7 ex_proc ex_srv ex_sp "VNum32 8" "[]"
      "[0, 0, 0, 8]" rhb "\<lambda>_. []"] hb rhb sp ex_srv_found
  obtain k s1 where s1: "doMsg (\<lambda>_. []) (None, 9) Sent 1 ?s =
      Inr (Answered (accepted_msg 7 SUCCESS RD_nil) None, s1)"
    by (auto simp: ex_dr_ok)
  have "mp_inv (dr_rx s1) ({1} - {1}) \<and>
      kept {} ?s s1 (res_sent (Answered (accepted_msg 7 SUCCESS RD_nil) None))"
    by (rule doMsg_messages [OF ex_rx_inv _ ex_dr_ok(1,2) s1]) simp
  moreover have "res_sent (Answered (accepted_msg 7 SUCCESS RD_nil) None)" by (simp add: res_sent_def)
  ultimately show ?thesis using s1 by blast
qed

end
