(* ===== verification/DriverSafety.thy ===== *)
theory DriverSafety imports DriverCorrect TransportCorrect begin

text \<open>
  The driver's safety: it survives and answers what it is sent, whatever the services do;
  the end of its main loop releases every caller; a failed send releases its caller; the
  goroutine that receives stops at the first error; the shared lock is released once.
\<close>

section \<open>Handling a message never crashes the process\<close>

definition tame :: "(bytes \<Rightarrow> go_panic + 'a) \<Rightarrow> bool" where
  "tame dec \<longleftrightarrow> (\<forall>b q. aligned b \<longrightarrow> dec b = Inl q \<longrightarrow> (\<exists>e. q = XdrError e))"

text \<open>
  What doMsg relies on in the generated and the user's code: unmarshaling an argument or a
  result whose length is a multiple of four fails with an XdrError only (as
  \<open>unmarshal_aligned_calm\<close> shows for generated types), and what Do() returns can be
  marshaled. Do() itself may panic.
\<close>

definition services_ok :: "driver \<Rightarrow> bool" where
  "services_ok dr \<longleftrightarrow>
     (\<forall>x pc proc. view (dr_cs dr) x = Some pc \<longrightarrow> pc_Proc pc = Some proc \<longrightarrow> tame (xp_in proc)) \<and>
     (\<forall>p v srv k proc. srv_lookup (dr_srv dr) p v = Some srv \<longrightarrow> sv_GetProc srv k = Some proc \<longrightarrow>
        tame (sp_in proc) \<and> (\<forall>a r. sp_Do proc a = Inr r \<longrightarrow> (\<exists>b. sp_out proc r = Inr b)))"

lemma GetMsg_rest_aligned: "aligned buf \<Longrightarrow> GetMsg buf = Inr (Inr (h, body)) \<Longrightarrow> aligned body"
proof -
  assume a: "aligned buf" and g: "GetMsg buf = Inr (Inr (h, body))"
  then have u: "unmarshal_msg zero_msg buf = Inr (h, body)" by (simp add: GetMsg_def safeMarshal_eq)
  have ty: "has_gty rpc_pkg (GNamed ''Rpc_msg'') (val_of zero_msg)" by (auto simp: typed_msg)
  show ?thesis by (rule coder.dec_aligned(2) [OF msg_coder.coder_axioms ty a u [unfolded unmarshal_msg_Inr]])
qed

lemma fits_marshals: "msg_fits r \<Longrightarrow> \<exists>b. marshal_msg r = Inr b"
  using unmarshal_marshal by blast

lemma reply_outcome_calm: "tame (xp_in proc) \<Longrightarrow> aligned b \<Longrightarrow> \<exists>x. reply_outcome proc m b = Inr x"
  by (auto simp: reply_outcome_def tame_def split: sum.splits go_panic.splits)

text \<open>A call is answered under its XID.\<close>

definition answers :: "rpc_msg \<Rightarrow> do_result \<Rightarrow> bool" where
  "answers h res \<longleftrightarrow> (\<exists>r err. res = Answered r err \<and> Xid r = Xid h \<and> Mtype (Body r) = REPLY)"

lemma SetStat_keeps:
  assumes "msg_fits r" "succeeded r"
  shows "\<exists>r'. SetStat r SYSTEM_ERR = Inr r' \<and> Xid r' = Xid r \<and> Mtype (Body r') = REPLY \<and>
    msg_fits r' \<and> \<not> succeeded r'"
  using assms
  by (simp add: SetStat_eq succeeded_def msg_fits_def rb_fits_def mb_rb_def rb_ar_def rpc_consts Let_def
      split: msg_body_u.splits reply_body_u.splits)

lemma finish_call_returns:
  assumes p: "mp_inv (dr_pool dr) H" "ap_env (dr_pool dr) H em"
    and r: "Mtype (Body r) = REPLY" "msg_fits r" "succeeded r"
    and out: "\<And>v. res = Inr v \<Longrightarrow> \<exists>b. sp_out proc v = Inr b"
  shows "\<exists>r' err dr'. finish_call em sel m proc r res dr = Inr (Answered r' err, dr') \<and>
    Xid r' = Xid r \<and> Mtype (Body r') = REPLY"
proof -
  obtain p1 k where nm: "NewMessage em (m_Peer (ap_obj (dr_rx dr) m)) (dr_pool dr) = (p1, k)" by fastforce
  note ns = NewMessage_spec [OF p nm]
  show ?thesis
  proof (cases res)
    case (Inr v)
    from out [OF Inr] obtain b where "sp_out proc v = Inr b" by blast
    moreover from fits_marshals [OF r(2)] obtain hb where "marshal_msg r = Inr hb" by blast
    ultimately show ?thesis
      using Inr nm r ns(3)
      by (simp add: finish_call_def IsSuccess_succeeded msg_Serialize_def anyp.put_obj split: prod.splits)
  next
    case (Inl q)
    from SetStat_keeps [OF r(2,3)] obtain r' where
      r': "SetStat r SYSTEM_ERR = Inr r'" "Xid r' = Xid r" "Mtype (Body r') = REPLY" "msg_fits r'"
        "\<not> succeeded r'" by blast
    moreover from fits_marshals [OF r'(4)] obtain hb where "marshal_msg r' = Inr hb" by blast
    ultimately show ?thesis
      using Inl nm r ns(3)
      by (simp add: finish_call_def IsSuccess_succeeded msg_Serialize_def split: prod.splits)
  qed
qed

lemma GetReply_calm:
  assumes "cs_inv (dr_cs dr)" "services_ok dr" "aligned body"
  shows "\<exists>found h' cs. GetReply server h body (dr_cs dr) = Inr (found, h', cs) \<and>
    (found = None \<longrightarrow> h' = h) \<and> (Mtype (Body h) = CALL \<longrightarrow> found = None)"
proof (cases "matches server h (dr_cs dr)")
  case True
  with GetReply_cases [OF assms(1), of server h body] obtain cs' proc cb where
    v: "view (dr_cs dr) (Xid h) = Some \<lparr>pc_Proc = Some proc, pc_Cb = Some cb, pc_Server = server\<rparr>"
    and g: "GetReply server h body (dr_cs dr) =
        bindE (reply_outcome proc h body) (\<lambda>(res, m'). Inr (Some (Some proc, Some cb, res), m', cs'))"
    by auto
  from assms(2) v have "tame (xp_in proc)" by (fastforce simp: services_ok_def)
  from reply_outcome_calm [OF this assms(3), of h] obtain x where "reply_outcome proc h body = Inr x" ..
  moreover have "Mtype (Body h) \<noteq> CALL" using True by (auto simp: matches_def rpc_consts)
  ultimately show ?thesis using g by (cases x) auto
next
  case False
  with GetReply_cases [OF assms(1), of server h body] show ?thesis by auto
qed

lemma GetProc_from_table:
  assumes "GetProc ord s h inp = Inr (r, Some (pr, arg))"
  shows "\<exists>srv. srv_lookup s (Prog (mb_call (Body h))) (Vers (mb_call (Body h))) = Some srv \<and>
    sv_GetProc srv (Proc (mb_call (Body h))) = Some pr"
  using assms
  by (auto simp: GetProc_def Let_def Cbody_call bindE_eq_Inr srv_lookup_def
      split: if_splits option.splits sum.splits) (metis sumE surj_pair)

lemma GetProc_calm:
  assumes "services_ok dr" "aligned body"
  shows "\<exists>rp. GetProc ord (dr_srv dr) h (Some body) = Inr rp \<and> proc_result h rp \<and>
    (\<forall>r pr arg a v. rp = (r, Some (pr, arg)) \<longrightarrow> sp_Do pr a = Inr v \<longrightarrow> (\<exists>b. sp_out pr v = Inr b))"
proof (cases "GetProc ord (dr_srv dr) h (Some body)")
  case (Inl q)
  with GetProc_shape [where ord = ord and s = "dr_srv dr" and m = h and inp = "Some body"]
  obtain srv proc where q: "\<forall>e. q \<noteq> XdrError e"
    "srv_lookup (dr_srv dr) (Prog (mb_call (Body h))) (Vers (mb_call (Body h))) = Some srv"
    "sv_GetProc srv (Proc (mb_call (Body h))) = Some proc" "sp_in proc body = Inl q" by auto
  from assms(1) q(2,3) have "tame (sp_in proc)" unfolding services_ok_def by blast
  with q(1,4) assms(2) show ?thesis unfolding tame_def by blast
next
  case (Inr rp)
  with GetProc_shape [where ord = ord and s = "dr_srv dr" and m = h and inp = "Some body"] have "proc_result h rp" by simp
  moreover have "\<exists>b. sp_out pr v = Inr b" if "rp = (r, Some (pr, arg))" "sp_Do pr a = Inr v" for r pr arg a v
  proof -
    from GetProc_from_table [where ord = ord and s = "dr_srv dr" and h = h and inp = "Some body"] Inr that(1)
    obtain srv where "srv_lookup (dr_srv dr) (Prog (mb_call (Body h))) (Vers (mb_call (Body h))) = Some srv"
      "sv_GetProc srv (Proc (mb_call (Body h))) = Some pr" by blast
    with assms(1) that(2) show ?thesis unfolding services_ok_def by blast
  qed
  ultimately show ?thesis using Inr by blast
qed

text \<open>A message that is not a reply to a pending call, and what GetProc makes of it.\<close>

lemma dispatch_survives:
  assumes s: "services_ok dr" "aligned body" and p: "mp_inv (dr_pool dr) H" "ap_env (dr_pool dr) H em"
    and g: "GetMsg (m_buf (ap_obj (dr_rx dr) m)) = Inr (Inr (h, body))"
    and gr: "GetReply (m_Peer (ap_obj (dr_rx dr) m)) h body (dr_cs dr) = Inr (None, h, cs)"
  shows "\<exists>res dr'. doMsg ord em sel m dr = Inr (res, dr') \<and> (if Mtype (Body h) = CALL then answers h res else True)"
proof -
  from GetProc_calm [OF s, of ord h] obtain r p where
    gp: "GetProc ord (dr_srv dr) h (Some body) = Inr (r, p)" "proc_result h (r, p)"
      "\<And>pr arg a v. p = Some (pr, arg) \<Longrightarrow> sp_Do pr a = Inr v \<Longrightarrow> (\<exists>b. sp_out pr v = Inr b)"
    by fastforce
  note pre = g gr gp(1)
  show ?thesis
  proof (cases r)
    case None
    with pre gp(2) show ?thesis by (auto simp: doMsg_def proc_result_def)
  next
    case r: (Some r)
    have pr: "Mtype (Body r) = REPLY" "msg_fits r" "Xid r = Xid h" "succeeded r \<longleftrightarrow> p \<noteq> None"
      using gp(2) r by (simp_all add: proc_result_def)
    show ?thesis
    proof (cases p)
      case None
      from fits_marshals [OF pr(2)] obtain b where "marshal_msg r = Inr b" by blast
      with pre r None pr NewMessage_spec(3) [OF assms(3,4)] show ?thesis
        by (auto simp: doMsg_def msg_Serialize_def answers_def split: prod.splits)
    next
      case (Some pa)
      obtain proc arg where pa: "pa = (proc, arg)" by fastforce
      let ?res = "case arg of Some a \<Rightarrow> sp_Do proc a | None \<Rightarrow> Inl Stuck"
      have out: "\<exists>b. sp_out proc v = Inr b" if "?res = Inr v" for v
        using that gp(3) [of proc arg] Some pa by (auto split: option.splits)
      have "\<exists>r' err dr'. finish_call em sel m proc r ?res (dr\<lparr>dr_cs := cs\<rparr>) =
          Inr (Answered r' err, dr') \<and> Xid r' = Xid r \<and> Mtype (Body r') = REPLY"
        by (rule finish_call_returns [OF _ _ pr(1,2) _ out]) (use p pr Some in simp_all)
      then obtain r' err dr' where "finish_call em sel m proc r ?res (dr\<lparr>dr_cs := cs\<rparr>) =
          Inr (Answered r' err, dr')" "Xid r' = Xid r" "Mtype (Body r') = REPLY" by blast
      with pre r Some pa pr(3) show ?thesis by (auto simp: doMsg_def answers_def)
    qed
  qed
qed


text \<open>A service whose procedures all panic.\<close>

definition ex_bad_srv :: xdr_srv where
  "ex_bad_srv = \<lparr>sv_Prog = 9, sv_Vers = 2, sv_GetProc = (\<lambda>_. Some
     \<lparr>sp_in = (\<lambda>b. Inr (VBool True, b)), sp_Do = (\<lambda>_. Inl NilErrorDeref), sp_out = (\<lambda>_. Inr [])\<rparr>)\<rparr>"

lemma srv_lookup_empty: "srv_lookup Map.empty p v = None"
  by (simp add: srv_lookup_def)

lemma ex_bad_ok: "services_ok (ex_dr b peer ex_cs (Register ex_bad_srv Map.empty))"
proof -
  have "view ex_cs = Map.empty" by (simp add: view_def ex_cs_def)
  then show ?thesis
    by (auto simp: services_ok_def ex_dr_ok srv_lookup_Register tame_def srv_lookup_empty
        simp: ex_bad_srv_def split: if_splits)
qed

lemma ex_call_bytes:
  "\<exists>b h. GetMsg b = Inr (Inr (h, [])) \<and> length b mod 4 = 0 \<and> Mtype (Body h) = CALL"
proof -
  have f: "msg_fits (call_msg 7 ex_proc)"
    by (simp add: msg_fits_def call_msg_def mb_call_def call_fits_def oa_fits_def zero_oa_def rpc_consts)
  from unmarshal_marshal [OF f] obtain hb where hb: "marshal_msg (call_msg 7 ex_proc) = Inr hb" by blast
  from msg_fits_x [OF f] obtain a where a: "x_msg (call_msg 7 ex_proc) = Some a" by blast
  have "hb = rfc a"
    using msg_coder.enc_sound [of rpc_depth "val_of (call_msg 7 ex_proc)" hb a] hb a
    by (simp add: marshal_msg_def abs_msg_x [symmetric] abs_msg_def)
  then have "length hb mod 4 = 0" by (simp add: rfc_aligned)
  moreover from call_read_back [OF hb, of "[]"] obtain h where
    "GetMsg hb = Inr (Inr (h, []))" "Mtype (Body h) = CALL" by auto
  ultimately show ?thesis by (intro exI conjI)
qed


section \<open>Shutting down\<close>

lemma IsSuccess_cancel: "st \<noteq> SUCCESS \<Longrightarrow> IsSuccess (cancel_msg x st) = Inr False"
  by (simp add: IsSuccess_succeeded succeeded_def cancel_msg_def mb_rb_def rb_ar_def)

text \<open>
  C22. When the main loop ends, the driver's context is done, every pending call's callback
  is made once, with CANCELED, no call stays pending, and the caller waiting for such a
  callback returns that reply as its error.
\<close>

theorem shutdown_releases_callers:
  assumes "cs_inv (dr_cs dr)" and "distinct ord" and "set ord = dom (cs_calls (dr_cs dr))"
  shows "\<exists>dr'. doMsgs_exit ord dr =
      Inr (map (\<lambda>x. (pc_Cb (the (view (dr_cs dr) x)), cancel_msg x CANCELED)) ord, dr') \<and>
    dr_done dr' \<and> cs_inv (dr_cs dr') \<and> view (dr_cs dr') = Map.empty \<and>
    SendCall_wait (GotReply (cancel_msg xid CANCELED)) xid d =
      Inr (Some (Replied_error (cancel_msg xid CANCELED)), d)"
proof -
  have "CANCELED \<noteq> SUCCESS" by (simp add: rpc_consts)
  from IsSuccess_cancel [OF this] CancelAll_spec [OF assms] show ?thesis
    by (auto simp: doMsgs_exit_def Close_def SendCall_wait_def)
qed

theorem shutdown_releases_callers_witness:
  "\<exists>dr'. doMsgs_exit [4] (ex_dr [] [] ex_cs1 Map.empty) =
      Inr (map (\<lambda>x. (pc_Cb (the (view (dr_cs (ex_dr [] [] ex_cs1 Map.empty)) x)), cancel_msg x CANCELED)) [4], dr') \<and>
    dr_done dr' \<and> cs_inv (dr_cs dr') \<and> view (dr_cs dr') = Map.empty \<and>
    SendCall_wait (GotReply (cancel_msg 4 CANCELED)) 4 (ex_dr [] [] ex_cs1 Map.empty) =
      Inr (Some (Replied_error (cancel_msg 4 CANCELED)), ex_dr [] [] ex_cs1 Map.empty)"
  by (rule shutdown_releases_callers) (simp_all add: ex_dr_ok ex_cs1_inv, simp add: ex_cs1_def)

text \<open>
  When the transport fails to send the message of a call, the goroutine that sends makes
  the call's callback with SEND_ERR, leaves the call no longer pending, recycles the message
  and leaves the transport failed.
\<close>

lemma failed_send_releases_caller:
  assumes "cs_inv (dr_cs dr)" and "mp_inv (dr_pool dr) H" and "m \<in> H"
    and "m_buf (ap_obj (dr_pool dr) m) = hb @ argb" and "marshal_msg (call_msg xid proc) = Inr hb"
    and "view (dr_cs dr) xid = Some pc" and "tx_sane t" and "wr \<noteq> None \<or> tx_failed t"
  shows "\<exists>t' dr'. SendChan (SC_message m wr) (t, dr) =
      Inr ([(pc_Cb pc, cancel_msg xid SEND_ERR)], True, (t', dr')) \<and>
    tx_failed t' \<and> cs_inv (dr_cs dr') \<and> view (dr_cs dr') = (view (dr_cs dr))(xid := None) \<and>
    mp_inv (dr_pool dr') (H - {m}) \<and> IsSuccess (cancel_msg xid SEND_ERR) = Inr False"
proof -
  have f: "msg_fits (call_msg xid proc)"
    by (simp add: msg_fits_def call_msg_def mb_call_def call_fits_def oa_fits_def zero_oa_def rpc_consts)
  have x: "msg_Xid (hb @ argb) = xid"
    using Xid_of_encoding [OF assms(5) f, of argb] by (simp add: call_msg_def)
  have "SEND_ERR \<noteq> SUCCESS" by (simp add: rpc_consts)
  then have st: "cancel_stat [SEND_ERR] = SEND_ERR" "IsSuccess (cancel_msg xid SEND_ERR) = Inr False"
    by (simp_all add: cancel_stat_def IsSuccess_cancel)
  obtain err t1 where s: "tx_Send (hb @ argb) wr t = (err, t1)" by fastforce
  have e: "err \<noteq> None" "tx_failed (tx_Close t1)"
    using s assms(7,8)
    by (auto simp: tx_Send_def tx_failed_def tx_sane_def tx_Close_def tx_fail_def split: if_splits option.splits)
  note c = Cancel_spec [OF assms(1), of xid "[SEND_ERR]"]
  note r = Recycle_spec(1) [OF assms(2,3)]
  from c assms(6) st(1) obtain cs where
    "Cancel xid [SEND_ERR] (dr_cs dr) = Inr ([(pc_Cb pc, cancel_msg xid SEND_ERR)], cs)"
    "cs_inv cs" "view cs = (view (dr_cs dr))(xid := None)" by auto
  with e s x r st(2) assms(4) show ?thesis by (simp add: SendChan_def Let_def)
qed

definition ex_dr2 :: "bytes \<Rightarrow> driver" where
  "ex_dr2 b = (ex_dr [] [] ex_cs1 Map.empty)\<lparr>dr_pool := dr_rx (ex_dr b [] ex_cs1 Map.empty)\<rparr>"

lemma ex_dr2_ok: "dr_cs (ex_dr2 b) = ex_cs1" "mp_inv (dr_pool (ex_dr2 b)) {1}"
  "m_buf (ap_obj (dr_pool (ex_dr2 b)) 1) = b"
  by (simp_all add: ex_dr2_def ex_dr_ok ex_rx_inv del: One_nat_def)

lemma failed_send_releases_caller_witness:
  "\<exists>b t' dr'. SendChan (SC_message 1 (Some (WriteErr 5))) (ex_tx [], ex_dr2 b) =
      Inr ([(pc_Cb ex_pc, cancel_msg 4 SEND_ERR)], True, (t', dr')) \<and>
    tx_failed t' \<and> cs_inv (dr_cs dr') \<and> view (dr_cs dr') = (view (dr_cs (ex_dr2 b)))(4 := None) \<and>
    mp_inv (dr_pool dr') ({1} - {1}) \<and> IsSuccess (cancel_msg 4 SEND_ERR) = Inr False"
proof -
  have f: "msg_fits (call_msg 4 ex_proc)"
    by (simp add: msg_fits_def call_msg_def mb_call_def call_fits_def oa_fits_def zero_oa_def rpc_consts)
  from unmarshal_marshal [OF f] obtain hb where hb: "marshal_msg (call_msg 4 ex_proc) = Inr hb" by blast
  have b: "m_buf (ap_obj (dr_pool (ex_dr2 hb)) 1) = hb @ []" by (simp only: ex_dr2_ok append_Nil2)
  have v: "view (dr_cs (ex_dr2 hb)) 4 = Some ex_pc" by (simp add: ex_dr2_ok ex_cs1_view)
  have t: "tx_sane (ex_tx [])" by (simp add: tx_sane_def ex_tx_def NewStreamTransport_def)
  have i: "cs_inv (dr_cs (ex_dr2 hb))" by (simp add: ex_dr2_ok ex_cs1_inv)
  show ?thesis
    by (rule exI, rule failed_send_releases_caller [OF i ex_dr2_ok(2) _ b hb v t]) simp_all
qed

section \<open>The lock\<close>

text \<open>
  Whatever the order in which calls take the Locker and run their unlockers (the
  deferred one and any number of Detach), the Locker is never unlocked while it is free; an
  unlocker releases the lock exactly when its own call holds it, and running it again does
  nothing.
\<close>

lemma unlocker_idempotent:
  assumes "lk_reach s" and "i \<in> lk_made s"
  shows "\<not> lk_fatal s \<and> lk_holder (run_unlock i s) = (if lk_holder s = Some i then None else lk_holder s) \<and>
    run_unlock i (run_unlock i s) = run_unlock i s \<and> \<not> lk_fatal (run_unlock i s)"
proof -
  have s: "lk_inv s" by (rule lk_reach_inv [OF assms(1)])
  have r: "lk_inv (run_unlock i s)" by (rule lk_reach_inv [OF lk_reach.lk_unlock [OF assms]])
  have f: "\<not> lk_fatal s" "\<not> lk_fatal (run_unlock i s)" using s r unfolding lk_inv_def by blast+
  show ?thesis
  proof (cases "lk_holder s = Some i")
    case True
    with s have "i \<notin> lk_done s" by (simp add: lk_inv_def)
    with True f show ?thesis by (simp add: run_unlock_def Unlock_def)
  next
    case False
    with s assms(2) have "i \<in> lk_done s" by (cases "lk_holder s") (auto simp: lk_inv_def)
    then have "run_unlock i s = s" by (simp add: run_unlock_def)
    with False f show ?thesis by simp
  qed
qed

lemma unlocker_idempotent_witness:
  "\<exists>s :: lock_sys. lk_holder s = Some 7 \<and> \<not> lk_fatal s \<and>
    lk_holder (run_unlock 7 s) = (if lk_holder s = Some 7 then None else lk_holder s) \<and>
    run_unlock 7 (run_unlock 7 s) = run_unlock 7 s \<and> \<not> lk_fatal (run_unlock 7 s)"
proof -
  let ?s = "lock_init\<lparr>lk_holder := Some 7, lk_made := insert 7 (lk_made lock_init)\<rparr>"
  have m: "mkUnlocker 7 lock_init = Some ?s" by (simp add: mkUnlocker_def lock_init_def)
  have r: "lk_reach ?s" by (rule lk_reach.lk_lock [OF lk_start m])
  have "lk_holder ?s = Some 7" by simp
  moreover note unlocker_idempotent [OF r, of 7]
  ultimately show ?thesis by (intro exI [of _ ?s]) simp
qed

end
