(* ===== verification/Stubs.thy ===== *)
theory Stubs imports Driver XdrTyped begin

text \<open>
  The code goxdr emits for an RPC program (rpc_program.emit, getArgType and doClientProc in
  cmd/goxdr/goxdr.go): the XdrProc of each procedure, the entry of each version in
  XdrCatalog, the server type of a version and the methods of its client type.
  An argument or result of a method is a value, or under -p a pointer, which may be nil:
  both are \<open>val option\<close>, None for the nil pointer. A method of a service is a function of
  its arguments; it panics, returns an error or returns a result.
\<close>

section \<open>Programs\<close>

record rpc_proc =
  pr_id :: string
  pr_val :: u32
  pr_arg :: "tname list"
  pr_res :: tname

record rpc_vers =
  rv_id :: string
  rv_val :: u32
  rv_procs :: "rpc_proc list"

record rpc_program =
  rp_id :: string
  rp_val :: u32
  rp_vers :: "rpc_vers list"

section \<open>Arguments\<close>

text \<open>
  The type of an argument: XdrVoid, the type of the only argument, or a struct with a
  pointer per argument.
\<close>

datatype arg_type = Arg_void | Arg_one tname | Arg_struct "tname list"

fun getArgType :: "tname list \<Rightarrow> arg_type" where
  "getArgType [] = Arg_void"
| "getArgType [t] = Arg_one t"
| "getArgType ts = Arg_struct ts"

text \<open>What GetArg allocates when Arg is nil.\<close>

definition new_arg :: "pkg \<Rightarrow> arg_type \<Rightarrow> val" where
  "new_arg P a =
     (case a of
        Arg_void \<Rightarrow> VVoid
      | Arg_one t \<Rightarrow> zero P (go_typ P t)
      | Arg_struct ts \<Rightarrow> VStruct (map (\<lambda>t. VPtr None) ts))"

text \<open>XdrRecurse of the struct: a nil field is allocated, then what it points to is marshaled.\<close>

definition alloc :: "pkg \<Rightarrow> tname \<Rightarrow> val option \<Rightarrow> val" where
  "alloc P t p = (case p of None \<Rightarrow> zero P (go_typ P t) | Some v \<Rightarrow> v)"

definition in_field :: "pkg \<Rightarrow> nat \<Rightarrow> tname \<Rightarrow> decoder" where
  "in_field P n t f buf =
     (case f of
        VPtr p \<Rightarrow> bindE (in_typ P n t (alloc P t p) buf) (\<lambda>(v, r). Inr (VPtr (Some v), r))
      | _ \<Rightarrow> Inl Stuck)"

definition out_field :: "pkg \<Rightarrow> nat \<Rightarrow> tname \<Rightarrow> encoder" where
  "out_field P n t f = (case f of VPtr p \<Rightarrow> out_typ P n t (alloc P t p) | _ \<Rightarrow> Inl Stuck)"

definition in_arg :: "pkg \<Rightarrow> nat \<Rightarrow> arg_type \<Rightarrow> decoder" where
  "in_arg P n a =
     (case a of
        Arg_void \<Rightarrow> in_void
      | Arg_one t \<Rightarrow> in_typ P n t
      | Arg_struct ts \<Rightarrow> in_struct (map (in_field P n) ts))"

definition out_arg :: "pkg \<Rightarrow> nat \<Rightarrow> arg_type \<Rightarrow> encoder" where
  "out_arg P n a =
     (case a of
        Arg_void \<Rightarrow> out_void
      | Arg_one t \<Rightarrow> out_typ P n t
      | Arg_struct ts \<Rightarrow> out_struct (map (out_field P n) ts))"

section \<open>The procedures\<close>

text \<open>
  The XdrProc of a procedure with nil Arg and Res: GetRes and GetArg allocate what is
  unmarshaled into. It extends what the table of pending calls uses by GetArg.
\<close>

record gen_proc = xdr_proc +
  xp_arg :: "bytes \<Rightarrow> go_panic + (val \<times> bytes)"

definition xdrProc :: "pkg \<Rightarrow> nat \<Rightarrow> rpc_program \<Rightarrow> rpc_vers \<Rightarrow> rpc_proc \<Rightarrow> gen_proc" where
  "xdrProc P n r v p =
     \<lparr>xp_Prog = rp_val r, xp_Vers = rv_val v, xp_Proc = pr_val p,
      xp_in = in_typ P n (pr_res p) (zero P (go_typ P (pr_res p))),
      xp_arg = in_arg P n (getArgType (pr_arg p)) (new_arg P (getArgType (pr_arg p)))\<rparr>"

text \<open>The switch over the procedures of a version.\<close>

definition find_proc :: "rpc_vers \<Rightarrow> u32 \<Rightarrow> rpc_proc option" where
  "find_proc v x = find (\<lambda>p. pr_val p = x) (rv_procs v)"

type_synonym catalog = "u64 \<rightharpoonup> (u32 \<Rightarrow> gen_proc option)"

definition cat_key :: "u32 \<Rightarrow> u32 \<Rightarrow> u64" where
  "cat_key prog vers = or (push_bit 32 (ucast prog)) (ucast vers)"

definition init_vers :: "pkg \<Rightarrow> nat \<Rightarrow> rpc_program \<Rightarrow> rpc_vers \<Rightarrow> catalog \<Rightarrow> catalog" where
  "init_vers P n r v cat =
     cat(cat_key (rp_val r) (rv_val v) \<mapsto> (\<lambda>x. map_option (xdrProc P n r v) (find_proc v x)))"

definition XdrCatalog :: "pkg \<Rightarrow> nat \<Rightarrow> rpc_program list \<Rightarrow> catalog" where
  "XdrCatalog P n rs = fold (\<lambda>r. fold (init_vers P n r) (rp_vers r)) rs Map.empty"

section \<open>The server\<close>

type_synonym go_method = "val list \<Rightarrow> go_panic + (string + val option)"

fun deref_args :: "val list \<Rightarrow> go_panic + val list" where
  "deref_args [] = Inr []"
| "deref_args (VPtr (Some v) # fs) = bindE (deref_args fs) (\<lambda>vs. Inr (v # vs))"
| "deref_args _ = Inl Stuck"

definition do_args :: "arg_type \<Rightarrow> val \<Rightarrow> go_panic + val list" where
  "do_args a v =
     (case a of
        Arg_void \<Rightarrow> Inr []
      | Arg_one t \<Rightarrow> Inr [v]
      | Arg_struct ts \<Rightarrow> (case v of VStruct fs \<Rightarrow> deref_args fs | _ \<Rightarrow> Inl Stuck))"

text \<open>
  Do, which panics with the error the method returns, and GetRes: the value marshaled is
  the result, or a zero value when p.Res is nil.
\<close>

definition Do :: "rpc_proc \<Rightarrow> go_method \<Rightarrow> val \<Rightarrow> go_panic + val option" where
  "Do p f a =
     bindE (do_args (getArgType (pr_arg p)) a) (\<lambda>vs.
     bindE (f vs) (\<lambda>r.
       case r of
         Inl err \<Rightarrow> Inl (AppPanic err)
       | Inr res \<Rightarrow> Inr (if pr_res p = Base Void then None else res)))"

definition GetRes :: "pkg \<Rightarrow> rpc_proc \<Rightarrow> val option \<Rightarrow> val" where
  "GetRes P p res = alloc P (pr_res p) res"

definition xdrSrvProc :: "pkg \<Rightarrow> nat \<Rightarrow> rpc_proc \<Rightarrow> go_method \<Rightarrow> srv_proc" where
  "xdrSrvProc P n p f =
     \<lparr>sp_in = in_arg P n (getArgType (pr_arg p)) (new_arg P (getArgType (pr_arg p))),
      sp_Do = (\<lambda>a. bindE (Do p f a) (\<lambda>res. Inr (GetRes P p res))),
      sp_out = out_typ P n (pr_res p)\<rparr>"

definition vers_Server :: "pkg \<Rightarrow> nat \<Rightarrow> rpc_program \<Rightarrow> rpc_vers \<Rightarrow> (string \<Rightarrow> go_method) \<Rightarrow> xdr_srv" where
  "vers_Server P n r v srv =
     \<lparr>sv_Prog = rp_val r, sv_Vers = rv_val v,
      sv_GetProc = (\<lambda>x. map_option (\<lambda>p. xdrSrvProc P n p (srv (pr_id p))) (find_proc v x))\<rparr>"

section \<open>The client\<close>

text \<open>proc.Arg as a method of the client leaves it, and as GetArg then completes it.\<close>

definition set_args :: "pkg \<Rightarrow> rpc_proc \<Rightarrow> val option list \<Rightarrow> val" where
  "set_args P p as =
     (case getArgType (pr_arg p) of
        Arg_void \<Rightarrow> new_arg P Arg_void
      | Arg_one t \<Rightarrow> alloc P t (hd as)
      | Arg_struct ts \<Rightarrow> VStruct (map VPtr as))"

definition client_Send ::
  "pkg \<Rightarrow> nat \<Rightarrow> rpc_program \<Rightarrow> rpc_vers \<Rightarrow> rpc_proc \<Rightarrow> val option list \<Rightarrow>
   nat option \<times> nat \<Rightarrow> nat option \<times> nat \<Rightarrow> select_case \<Rightarrow> string \<Rightarrow> nat \<Rightarrow> driver \<Rightarrow>
   (go_panic + ((send_error + u32) \<times> driver)) option" where
  "client_Send P n r v p as ec em sel peer cb dr =
     SendCall ec em sel peer (xdr_proc.truncate (xdrProc P n r v p))
       (out_arg P n (getArgType (pr_arg p)) (set_args P p as)) cb dr"

text \<open>What the method returns, from the error of SendCall and the Res of the XdrProc.\<close>

definition client_return :: "rpc_proc \<Rightarrow> call_error option \<Rightarrow> val option \<Rightarrow> call_error + val option" where
  "client_return p err res =
     (case err of
        Some e \<Rightarrow> Inl e
      | None \<Rightarrow> Inr (if pr_res p = Base Void then None else res))"


end
