(* ===== verification/StubsCorrect.thy ===== *)
theory StubsCorrect imports Stubs DriverCorrect begin

text \<open>
  The emitted stubs: the contract \<open>coder\<close> of an argument, a call of a remote procedure from
  the client's method through both drivers to the method of the service and back, and
  the catalog.
\<close>

section \<open>The contract of an argument\<close>

definition has_field :: "pkg \<Rightarrow> tname \<Rightarrow> val \<Rightarrow> bool" where
  "has_field P t f \<longleftrightarrow> (\<exists>p. f = VPtr p \<and> has_gty P (go_typ P t) (alloc P t p))"

definition abs_field :: "pkg \<Rightarrow> nat \<Rightarrow> tname \<Rightarrow> abstraction" where
  "abs_field P n t f = (case f of VPtr p \<Rightarrow> abs_typ P n t (alloc P t p) | _ \<Rightarrow> None)"

lemma abs_field_Some: "abs_field P n t f = Some a \<longleftrightarrow> (\<exists>p. f = VPtr p \<and> abs_typ P n t (alloc P t p) = Some a)"
  by (cases f) (auto simp: abs_field_def)

lemma coder_field:
  assumes "wf_pkg P" "scalar_ok P t"
  shows "coder (has_field P t) (out_field P n t) (in_field P n t) (abs_field P n t) (conf_typ P n t)"
proof -
  note c = coder_typ [OF assms, of n, unfolded coder_of_def]
  show ?thesis
  proof (rule coder.intro)
    fix old buf v r assume "has_field P t old" "in_field P n t old buf = Inr (v, r)"
    then obtain p w where "has_gty P (go_typ P t) (alloc P t p)" "v = VPtr (Some w)"
      "in_typ P n t (alloc P t p) buf = Inr (w, r)"
      by (auto simp: has_field_def in_field_def bindE_eq_Inr)
    with coder.dec_sound [OF c, of "alloc P t p" buf w r]
    show "has_field P t v \<and> (\<exists>a. conf_typ P n t a \<and> abs_field P n t v = Some a \<and> buf = rfc a @ r)"
      by (auto simp: has_field_def abs_field_def alloc_def)
  next
    fix old a r assume "has_field P t old" "conf_typ P n t a"
    then obtain p where p: "old = VPtr p" "has_gty P (go_typ P t) (alloc P t p)" by (auto simp: has_field_def)
    from coder.dec_complete [OF c p(2) \<open>conf_typ P n t a\<close>, of r] p(1)
    show "\<exists>v. in_field P n t old (rfc a @ r) = Inr (v, r) \<and> abs_field P n t v = Some a"
      by (force simp: in_field_def abs_field_def alloc_def)
  next
    fix old buf assume "has_field P t old"
    then show "in_field P n t old buf \<noteq> Inl Stuck"
      using coder.dec_safe [OF c] by (auto simp: has_field_def in_field_def bindE_eq_Inl)
  next
    fix v b a assume "out_field P n t v = Inr b" "abs_field P n t v = Some a"
    then show "b = rfc a" using coder.enc_sound [OF c] by (auto simp: out_field_def abs_field_Some)
  next
    fix a v assume "conf_typ P n t a" "abs_field P n t v = Some a"
    then show "out_field P n t v = Inr (rfc a)"
      using coder.enc_complete [OF c] by (auto simp: out_field_def abs_field_Some)
  next
    fix v assume "has_field P t v"
    then show "out_field P n t v \<noteq> Inl Stuck"
      using coder.enc_safe [OF c] by (auto simp: out_field_def has_field_def)
  qed
qed

definition has_arg :: "pkg \<Rightarrow> arg_type \<Rightarrow> val \<Rightarrow> bool" where
  "has_arg P a v =
     (case a of
        Arg_void \<Rightarrow> v = VVoid
      | Arg_one t \<Rightarrow> has_gty P (go_typ P t) v
      | Arg_struct ts \<Rightarrow> (\<exists>vs. v = VStruct vs \<and> list_all2 (has_field P) ts vs))"

definition abs_arg :: "pkg \<Rightarrow> nat \<Rightarrow> arg_type \<Rightarrow> abstraction" where
  "abs_arg P n a =
     (case a of
        Arg_void \<Rightarrow> abs_void
      | Arg_one t \<Rightarrow> abs_typ P n t
      | Arg_struct ts \<Rightarrow> abs_struct (map (abs_field P n) ts))"

definition conf_arg :: "pkg \<Rightarrow> nat \<Rightarrow> arg_type \<Rightarrow> conformance" where
  "conf_arg P n a =
     (case a of
        Arg_void \<Rightarrow> conf_base Void
      | Arg_one t \<Rightarrow> conf_typ P n t
      | Arg_struct ts \<Rightarrow> conf_struct (map (conf_typ P n) ts))"

lemmas arg_defs = has_arg_def abs_arg_def conf_arg_def in_arg_def out_arg_def new_arg_def set_args_def do_args_def

lemma coder_arg:
  assumes wf: "wf_pkg P" and ok: "\<forall>t \<in> set ts. scalar_ok P t"
  shows "coder (has_arg P (getArgType ts)) (out_arg P n (getArgType ts)) (in_arg P n (getArgType ts))
    (abs_arg P n (getArgType ts)) (conf_arg P n (getArgType ts))"
proof (cases ts rule: getArgType.cases)
  case 1
  have "has_arg P Arg_void = has_gty P (GBase Void)" by (auto simp: has_arg_def)
  with 1 show ?thesis by (simp add: abs_arg_def conf_arg_def in_arg_def out_arg_def coder_void)
next
  case (2 t)
  have "has_arg P (Arg_one t) = has_gty P (go_typ P t)" by (simp add: has_arg_def fun_eq_iff)
  with 2 coder_typ [OF wf, of t n] ok show ?thesis
    by (simp add: abs_arg_def conf_arg_def in_arg_def out_arg_def coder_of_def)
next
  case (3 t u ts')
  have "coder (has_arg P (Arg_struct ts)) (out_struct (map (out_field P n) ts))
      (in_struct (map (in_field P n) ts)) (abs_struct (map (abs_field P n) ts)) (conf_struct (map (conf_typ P n) ts))"
    by (rule coder_struct) (use ok coder_field [OF wf] in \<open>auto simp: has_arg_def\<close>)
  with 3 show ?thesis by (simp add: abs_arg_def conf_arg_def in_arg_def out_arg_def)
qed

lemma new_arg_typed:
  assumes "wf_pkg P" "\<forall>t \<in> set ts. scalar_ok P t"
  shows "has_arg P (getArgType ts) (new_arg P (getArgType ts))"
proof -
  have z: "\<forall>t \<in> set ts. has_gty P (go_typ P t) (zero P (go_typ P t))"
    using assms zero_typed go_typ_ok by (auto simp: scalar_ok_def)
  then have "list_all2 (has_field P) ts (map (\<lambda>t. VPtr None) ts)"
    by (auto simp: list_all2_map2 has_field_def alloc_def intro!: list.rel_refl_strong)
  with z show ?thesis by (cases ts rule: getArgType.cases) (simp_all add: arg_defs)
qed

section \<open>The arguments a method is called with\<close>

text \<open>The values \<open>vs\<close> of the types \<open>ts\<close> stand for the XDR values \<open>xs\<close>.\<close>

definition stand_for :: "pkg \<Rightarrow> nat \<Rightarrow> tname list \<Rightarrow> val list \<Rightarrow> xval list \<Rightarrow> bool" where
  "stand_for P n ts vs xs \<longleftrightarrow> length vs = length ts \<and>
     list_all2 (\<lambda>(t, v) x. abs_typ P n t v = Some x) (zip ts vs) xs"

lemma stand_for_Nil [simp]: "stand_for P n [] vs xs \<longleftrightarrow> vs = [] \<and> xs = []"
  by (auto simp: stand_for_def)

lemma stand_for_Cons:
  "stand_for P n (t # ts) vs xs \<longleftrightarrow>
   (\<exists>v vs' x xs'. vs = v # vs' \<and> xs = x # xs' \<and> abs_typ P n t v = Some x \<and> stand_for P n ts vs' xs')"
  by (cases vs; cases xs) (auto simp: stand_for_def)

fun pack :: "xval list \<Rightarrow> xval" where
  "pack [] = XVoid"
| "pack [x] = x"
| "pack xs = XStruct xs"

lemma pack_inject: "length xs = length ys \<Longrightarrow> pack xs = pack ys \<Longrightarrow> xs = ys"
  by (cases xs rule: pack.cases; cases ys rule: pack.cases) auto

lemma abs_fields:
  "length as = length ts \<Longrightarrow> stand_for P n ts (map2 (alloc P) ts as) xs \<Longrightarrow>
   list_all2 (\<lambda>(t, f) x. abs_field P n t f = Some x) (zip ts (map VPtr as)) xs"
  by (induction ts arbitrary: as xs) (auto simp: stand_for_Cons length_Suc_conv abs_field_Some)

lemma abs_set_args:
  assumes "length as = length (pr_arg p)" "stand_for P n (pr_arg p) (map2 (alloc P) (pr_arg p) as) xs"
  shows "abs_arg P n (getArgType (pr_arg p)) (set_args P p as) = Some (pack xs)"
proof (cases "pr_arg p" rule: getArgType.cases)
  case (3 t u ts)
  from abs_fields [OF assms] have "abs_struct (map (abs_field P n) (pr_arg p)) (VStruct (map VPtr as)) = Some (XStruct xs)"
    unfolding abs_struct_Some using assms(1) by simp
  moreover have "pack xs = XStruct xs" using 3 assms by (auto simp: stand_for_Cons)
  ultimately show ?thesis using 3 by (simp add: abs_arg_def set_args_def)
qed (use assms in \<open>auto simp: arg_defs stand_for_Cons length_Suc_conv\<close>)

lemma conf_pack:
  "list_all2 (conf_typ P n) ts xs \<Longrightarrow> conf_arg P n (getArgType ts) (pack xs)"
  by (cases ts rule: getArgType.cases)
    (auto simp: conf_arg_def list_all2_Cons1 list_all2_map1 conf_prim_iff)

text \<open>After unmarshaling no pointer of the struct is nil.\<close>

lemma in_field_Inr: "in_field P n t f buf = Inr (v, r) \<Longrightarrow> \<exists>w. v = VPtr (Some w)"
  by (cases f) (auto simp: in_field_def bindE_eq_Inr)

lemma in_fields_deref:
  "in_fields (map (in_field P n) ts) olds buf = Inr (fs, r) \<Longrightarrow>
   \<exists>vs. fs = map (\<lambda>v. VPtr (Some v)) vs \<and> length vs = length ts"
proof (induction ts arbitrary: olds buf fs)
  case Nil
  then show ?case by (cases olds) auto
next
  case (Cons t ts)
  then obtain old olds' where o: "olds = old # olds'" by (cases olds) auto
  from Cons.prems o obtain v r' fs' where f: "fs = v # fs'" "in_field P n t old buf = Inr (v, r')"
    "in_fields (map (in_field P n) ts) olds' r' = Inr (fs', r)"
    by (auto simp: bindE_eq_Inr)
  obtain w where "v = VPtr (Some w)" using in_field_Inr [OF f(2)] by blast
  moreover obtain vs where "fs' = map (\<lambda>v. VPtr (Some v)) vs" "length vs = length ts"
    using Cons.IH [OF f(3)] by blast
  ultimately show ?case using f(1) by (intro exI [of _ "w # vs"]) simp
qed

lemma deref_args_map [simp]: "deref_args (map (\<lambda>v. VPtr (Some v)) vs) = Inr vs"
  by (induction vs) auto

lemma stand_for_fields:
  "length vs = length ts \<Longrightarrow>
   list_all2 (\<lambda>(t, f) x. abs_field P n t f = Some x) (zip ts (map (\<lambda>v. VPtr (Some v)) vs)) xs \<Longrightarrow>
   stand_for P n ts vs xs"
  by (induction ts arbitrary: vs xs)
    (auto simp: stand_for_Cons length_Suc_conv list_all2_Cons1 abs_field_Some alloc_def)

lemma in_arg_do_args:
  assumes "in_arg P n (getArgType ts) old buf = Inr (v, r)"
    and "abs_arg P n (getArgType ts) v = Some a"
  shows "\<exists>vs xs. do_args (getArgType ts) v = Inr vs \<and> stand_for P n ts vs xs \<and> a = pack xs"
proof (cases ts rule: getArgType.cases)
  case (3 t u ts')
  with assms(1) obtain olds fs where "in_fields (map (in_field P n) ts) olds buf = Inr (fs, r)" "v = VStruct fs"
    by (cases old) (auto simp: in_arg_def bindE_eq_Inr)
  with in_fields_deref [of P n ts] obtain vs where vs: "v = VStruct (map (\<lambda>v. VPtr (Some v)) vs)" "length vs = length ts"
    by blast
  from assms(2) 3 have "abs_struct (map (abs_field P n) ts) v = Some a" by (simp add: abs_arg_def)
  then obtain xs where "a = XStruct xs"
    "list_all2 (\<lambda>(t, f) x. abs_field P n t f = Some x) (zip ts (map (\<lambda>v. VPtr (Some v)) vs)) xs"
    unfolding abs_struct_Some vs(1) by auto
  moreover from this(2) stand_for_fields [OF vs(2)] have st: "stand_for P n ts vs xs" by blast
  moreover have "pack xs = XStruct xs" using st 3 by (auto simp: stand_for_Cons)
  ultimately show ?thesis using 3 vs(1) by (auto simp: do_args_def)
next
  case 1
  with assms show ?thesis by (cases v) (auto simp: arg_defs intro: exI [of _ "[]"])
next
  case (2 t)
  with assms show ?thesis by (auto simp: arg_defs stand_for_Cons intro!: exI [of _ "[a]"])
qed

lemma arg_round_trip:
  assumes wf: "wf_pkg P" "\<forall>t \<in> set (pr_arg p). scalar_ok P t"
    and as: "length as = length (pr_arg p)" "stand_for P n (pr_arg p) (map2 (alloc P) (pr_arg p) as) xs"
      "list_all2 (conf_typ P n) (pr_arg p) xs"
  shows "\<exists>b v vs. out_arg P n (getArgType (pr_arg p)) (set_args P p as) = Inr b \<and>
    in_arg P n (getArgType (pr_arg p)) (new_arg P (getArgType (pr_arg p))) (b @ r) = Inr (v, r) \<and>
    do_args (getArgType (pr_arg p)) v = Inr vs \<and> stand_for P n (pr_arg p) vs xs"
proof -
  from coder.round_trip [OF coder_arg [OF wf] new_arg_typed [OF wf] abs_set_args [OF as(1,2)] conf_pack [OF as(3)], of r]
  obtain b v where b: "out_arg P n (getArgType (pr_arg p)) (set_args P p as) = Inr b"
    "in_arg P n (getArgType (pr_arg p)) (new_arg P (getArgType (pr_arg p))) (b @ r) = Inr (v, r)"
    "abs_arg P n (getArgType (pr_arg p)) v = Some (pack xs)"
    using abs_set_args [OF as(1,2)] by auto
  from in_arg_do_args [OF b(2,3)] obtain vs ys where
    y: "do_args (getArgType (pr_arg p)) v = Inr vs" "stand_for P n (pr_arg p) vs ys" "pack xs = pack ys" by blast
  moreover have "length xs = length ys"
    using as(2) y(2) by (auto simp: stand_for_def dest!: list_all2_lengthD)
  ultimately show ?thesis using b pack_inject by blast
qed

section \<open>A remote call\<close>

text \<open>The result of a method that stands for an XDR value is marshaled and read back.\<close>

lemma res_round_trip:
  assumes "wf_pkg P" "scalar_ok P (pr_res p)" "abs_typ P n (pr_res p) (GetRes P p res) = Some y"
    and "conf_typ P n (pr_res p) y"
  shows "\<exists>b v. sp_out (xdrSrvProc P n p f) (GetRes P p res) = Inr b \<and>
    xp_in (xdr_proc.truncate (xdrProc P n r ve p)) b = Inr (v, []) \<and> abs_typ P n (pr_res p) v = Some y"
proof -
  note c = coder_typ [OF assms(1,2), of n, unfolded coder_of_def]
  have z: "has_gty P (go_typ P (pr_res p)) (zero P (go_typ P (pr_res p)))"
    using assms(1,2) zero_typed go_typ_ok by (auto simp: scalar_ok_def)
  from coder.round_trip [OF c z assms(3,4), of "[]"] assms(3) show ?thesis
    by (auto simp: xdrSrvProc_def xdrProc_def xdr_proc.defs)
qed

lemma vers_Server_GetProc:
  "find_proc v (pr_val p) = Some p \<Longrightarrow>
   sv_GetProc (vers_Server P n r v srv) (pr_val p) = Some (xdrSrvProc P n p (srv (pr_id p)))"
  by (simp add: vers_Server_def)

lemma xdrProc_numbers:
  "xp_Prog (xdr_proc.truncate (xdrProc P n r v p)) = rp_val r"
  "xp_Vers (xdr_proc.truncate (xdrProc P n r v p)) = rv_val v"
  "xp_Proc (xdr_proc.truncate (xdrProc P n r v p)) = pr_val p"
  by (simp_all add: xdrProc_def xdr_proc.defs)

text \<open>
  What the method of a service returns: a result that stands for an XDR value, or an
  error or a panic.
\<close>

definition method_result ::
  "pkg \<Rightarrow> nat \<Rightarrow> rpc_proc \<Rightarrow> go_panic + (string + val option) \<Rightarrow> xval option \<Rightarrow> bool" where
  "method_result P n p out y =
     (case out of
        Inr (Inr res) \<Rightarrow>
          (case y of
             None \<Rightarrow> False
           | Some x \<Rightarrow> conf_typ P n (pr_res p) x \<and>
               abs_typ P n (pr_res p) (GetRes P p (if pr_res p = Base Void then None else res)) = Some x)
      | _ \<Rightarrow> y = None)"

lemma Do_result:
  assumes "wf_pkg P" "scalar_ok P (pr_res p)" "do_args (getArgType (pr_arg p)) a = Inr vs"
    and "method_result P n p (f vs) y"
  shows "\<exists>rb v'. case sp_Do (xdrSrvProc P n p f) a of
      Inr w \<Rightarrow> sp_out (xdrSrvProc P n p f) w = Inr rb \<and> y \<noteq> None \<and>
        xp_in (xdr_proc.truncate (xdrProc P n r ve p)) rb = Inr (v', []) \<and> abs_typ P n (pr_res p) v' = y
    | Inl q \<Rightarrow> rb = [] \<and> y = None"
proof (cases "\<exists>res. f vs = Inr (Inr res)")
  case True
  then obtain res where f: "f vs = Inr (Inr res)" by blast
  let ?res = "if pr_res p = Base Void then None else res"
  from assms(4) f obtain x where x: "y = Some x" "conf_typ P n (pr_res p) x"
    "abs_typ P n (pr_res p) (GetRes P p ?res) = Some x"
    by (auto simp: method_result_def split: option.splits)
  from f assms(3) have "sp_Do (xdrSrvProc P n p f) a = Inr (GetRes P p ?res)"
    by (simp add: xdrSrvProc_def Do_def)
  with res_round_trip [OF assms(1,2) x(3,2), of f r ve] x(1) show ?thesis by auto
next
  case False
  with assms(3) have "\<exists>q. sp_Do (xdrSrvProc P n p f) a = Inl q"
    by (cases "f vs") (auto simp: xdrSrvProc_def Do_def split: sum.splits)
  moreover have "y = None" using False assms(4) by (auto simp: method_result_def split: sum.splits)
  ultimately show ?thesis by auto
qed

lemma client_returns:
  assumes "d = Inr (Callback cb h (if y \<noteq> None then Some v' else None), c3)" "IsSuccess h = Inr (y \<noteq> None)"
    and "y \<noteq> None \<Longrightarrow> abs_typ P n (pr_res p) v' = y"
  shows "\<exists>h res c3 err. d = Inr (Callback cb h res, c3) \<and> SendCall_wait (GotReply h) xid c3 = Inr (err, c3) \<and>
    (case y of
       None \<Rightarrow> client_return p err res = Inl (Replied_error h)
     | Some x \<Rightarrow> \<exists>v. abs_typ P n (pr_res p) v = Some x \<and>
         client_return p err res = Inr (if pr_res p = Base Void then None else Some v))"
  using assms
  by (intro exI [of _ h] exI [of _ "if y \<noteq> None then Some v' else None"] exI [of _ c3]
      exI [of _ "if y \<noteq> None then None else Some (Replied_error h)"])
    (cases y; cases "pr_res p = Base Void"; auto simp: SendCall_wait_def client_return_def)

text \<open>
  C19. A call of a method of the emitted client, through both drivers and the emitted server:
  if the arguments stand for the XDR values xs, and the method of the service answers
  arguments that stand for xs with y (Some for a result that stands for y, None for an error
  or a panic), then the server handles the call and queues one reply; and when that reply
  arrives while the call is pending, the client's method returns a result that stands for
  y, or the reply as an error.
\<close>

theorem remote_call:
  assumes wf: "wf_pkg P" "\<forall>t \<in> set (pr_arg p). scalar_ok P t" "scalar_ok P (pr_res p)"
    and as: "length as = length (pr_arg p)" "stand_for P n (pr_arg p) (map2 (alloc P) (pr_arg p) as) xs"
      "list_all2 (conf_typ P n) (pr_arg p) xs"
    and c: "cs_inv (dr_cs c)" "ap_env (cs_pool (dr_cs c)) (ran (cs_calls (dr_cs c))) ec"
      "mp_inv (dr_pool c) H" "ap_env (dr_pool c) H em"
      "client_Send P n r ve p as ec em Sent peer cb c = Some (Inr (Inr xid, c1))" "dr_out c1 = dr_out c @ [m]"
    and s: "mp_inv (dr_pool s) H'" "ap_env (dr_pool s) H' em'"
      "srv_lookup (dr_srv s) (rp_val r) (rv_val ve) = Some (vers_Server P n r ve srv)"
      "find_proc ve (pr_val p) = Some p" "m_buf (ap_obj (dr_rx s) ms) = m_buf (ap_obj (dr_pool c1) m)"
    and f: "\<And>vs. stand_for P n (pr_arg p) vs xs \<Longrightarrow> method_result P n p (srv (pr_id p) vs) y"
    and c2: "cs_inv (dr_cs c2)" "view (dr_cs c2) xid = view (dr_cs c1) xid"
  shows "\<exists>rmsg s1 k. doMsg ord em' Sent ms s = Inr (Answered rmsg None, s1) \<and> dr_out s1 = dr_out s @ [k] \<and>
    (ap_obj (dr_rx c2) mc = \<lparr>m_buf = m_buf (ap_obj (dr_pool s1) k), m_Peer = peer\<rparr> \<longrightarrow>
     (\<exists>h res c3 err. doMsg ord' em2 sel mc c2 = Inr (Callback (Some cb) h res, c3) \<and>
        SendCall_wait (GotReply h) xid c3 = Inr (err, c3) \<and>
        (case y of
           None \<Rightarrow> client_return p err res = Inl (Replied_error h)
         | Some x \<Rightarrow> \<exists>v. abs_typ P n (pr_res p) v = Some x \<and>
             client_return p err res = Inr (if pr_res p = Base Void then None else Some v))))"
proof -
  let ?proc = "xdr_proc.truncate (xdrProc P n r ve p)" and ?sp = "xdrSrvProc P n p (srv (pr_id p))"
  from arg_round_trip [OF wf(1,2) as, of "[]"] obtain b a vs where
    b: "out_arg P n (getArgType (pr_arg p)) (set_args P p as) = Inr b" "sp_in ?sp b = Inr (a, [])"
      "do_args (getArgType (pr_arg p)) a = Inr vs" "stand_for P n (pr_arg p) vs xs"
    by (auto simp: xdrSrvProc_def)
  from Do_result [where f = "srv (pr_id p)" and r = r and ve = ve, OF wf(1,3) b(3) f [OF b(4)]] obtain rb v' where
    d: "case sp_Do ?sp a of
        Inr w \<Rightarrow> sp_out ?sp w = Inr rb \<and> y \<noteq> None \<and> xp_in ?proc rb = Inr (v', []) \<and> abs_typ P n (pr_res p) v' = y
      | Inl q \<Rightarrow> rb = [] \<and> y = None" by blast
  let ?st = "case sp_Do ?sp a of Inr v \<Rightarrow> SUCCESS | Inl q \<Rightarrow> SYSTEM_ERR"
  have st: "?st = SUCCESS \<longleftrightarrow> y \<noteq> None" using d by (simp add: rpc_consts split: sum.splits)
  from SendCall_bytes [OF c(1-4) c(5) [unfolded client_Send_def b(1)]] c(6) obtain hb where
    cl: "marshal_msg (call_msg xid ?proc) = Inr hb" "m_buf (ap_obj (dr_pool c1) m) = hb @ b"
      "view (dr_cs c1) xid = Some \<lparr>pc_Proc = Some ?proc, pc_Cb = Some cb, pc_Server = peer\<rparr>" by auto
  from accepted_marshals obtain rhb where rhb: "marshal_msg (accepted_msg xid ?st RD_nil) = Inr rhb" by blast
  have "case sp_Do ?sp a of Inr v \<Rightarrow> sp_out ?sp v = Inr rb | Inl q \<Rightarrow> rb = []" using d by (auto split: sum.splits)
  from doMsg_call [OF s(1,2) s(5) [unfolded cl(2)] cl(1) _ _ b(2) this rhb, of "vers_Server P n r ve srv" ord]
    s(3) vers_Server_GetProc [OF s(4)]
  obtain k s1 where s1: "doMsg ord em' Sent ms s = Inr (Answered (accepted_msg xid ?st RD_nil) None, s1)"
    "dr_out s1 = dr_out s @ [k]" "m_buf (ap_obj (dr_pool s1) k) = rhb @ rb"
    by (auto simp: xdrProc_numbers)
  have v': "xp_in ?proc rb = Inr (v', []) \<and> abs_typ P n (pr_res p) v' = y" if "?st = SUCCESS"
    using d that st by (auto split: sum.splits)
  show ?thesis
  proof ((rule exI)+, rule conjI, rule s1(1), rule conjI, rule s1(2), rule impI)
    assume "ap_obj (dr_rx c2) mc = \<lparr>m_buf = m_buf (ap_obj (dr_pool s1) k), m_Peer = peer\<rparr>"
    from doMsg_reply [OF c2(1) c2(2) [unfolded cl(3)] this [unfolded s1(3)] rhb, of v' "[]" ord' em2 sel] v'
    obtain h c3 where "doMsg ord' em2 sel mc c2 = Inr (Callback (Some cb) h (if y \<noteq> None then Some v' else None), c3)"
      "IsSuccess h = Inr (y \<noteq> None)"
      unfolding st by blast
    then show "\<exists>h res c3 err. doMsg ord' em2 sel mc c2 = Inr (Callback (Some cb) h res, c3) \<and>
        SendCall_wait (GotReply h) xid c3 = Inr (err, c3) \<and>
        (case y of
           None \<Rightarrow> client_return p err res = Inl (Replied_error h)
         | Some x \<Rightarrow> \<exists>v. abs_typ P n (pr_res p) v = Some x \<and>
             client_return p err res = Inr (if pr_res p = Base Void then None else Some v))"
      by (rule client_returns) (use v' st in simp)
  qed
qed

definition ex_P :: pkg where
  "ex_P = \<lparr>p_defs = [], p_nest = 0\<rparr>"

definition ex_add :: rpc_proc where
  "ex_add = \<lparr>pr_id = ''add'', pr_val = 4, pr_arg = [Base Uint32, Base Uint32], pr_res = Base Uint32\<rparr>"

definition ex_vers :: rpc_vers where
  "ex_vers = \<lparr>rv_id = ''Calc_V1'', rv_val = 1, rv_procs = [ex_add]\<rparr>"

definition ex_prog :: rpc_program where
  "ex_prog = \<lparr>rp_id = ''Calc'', rp_val = 0x20000001, rp_vers = [ex_vers]\<rparr>"

definition ex_methods :: "string \<Rightarrow> go_method" where
  "ex_methods = (\<lambda>_ vs. case vs of [VNum32 a, VNum32 b] \<Rightarrow> Inr (Inr (Some (VNum32 (a + b)))) | _ \<Rightarrow> Inr (Inl ''bad''))"

lemma ex_add_simps:
  "pr_arg ex_add = [Base Uint32, Base Uint32]" "pr_res ex_add = Base Uint32" "pr_val ex_add = 4"
  "rp_val ex_prog = 0x20000001" "rv_val ex_vers = 1" "wf_pkg ex_P" "scalar_ok ex_P (Base Uint32)"
  "find_proc ex_vers 4 = Some ex_add" "length [Some (VNum32 3), None] = length (pr_arg ex_add)"
  "stand_for ex_P 1 (pr_arg ex_add) (map2 (alloc ex_P) (pr_arg ex_add) [Some (VNum32 3), None]) [X32 3, X32 0]"
  "list_all2 (conf_typ ex_P 1) (pr_arg ex_add) [X32 3, X32 0]"
  "out_arg ex_P 1 (getArgType (pr_arg ex_add)) (set_args ex_P ex_add [Some (VNum32 3), None]) = Inr [0, 0, 0, 3, 0, 0, 0, 0]"
  by code_simp+

lemma ex_method_result:
  "stand_for ex_P 1 (pr_arg ex_add) vs [X32 3, X32 0] \<Longrightarrow>
   method_result ex_P 1 ex_add (ex_methods (pr_id ex_add) vs) (Some (X32 3))"
  by (auto simp: ex_add_simps stand_for_Cons method_result_def ex_methods_def GetRes_def alloc_def
      abs_base_def abs_prim_Some)

lemma ex_client_Send:
  "client_Send ex_P 1 ex_prog ex_vers ex_add [Some (VNum32 3), None] ec em sel peer cb c =
   SendCall ec em sel peer (xdr_proc.truncate (xdrProc ex_P 1 ex_prog ex_vers ex_add))
     (Inr [0, 0, 0, 3, 0, 0, 0, 0]) cb c"
  by (simp only: client_Send_def ex_add_simps(12))

lemma ex_client_call:
  "\<exists>xid c1 m. client_Send ex_P 1 ex_prog ex_vers ex_add [Some (VNum32 3), None] (None, 5) (None, 9) Sent ''srv'' 3
      (ex_dr [] [] ex_cs Map.empty) = Some (Inr (Inr xid, c1)) \<and>
    dr_out c1 = dr_out (ex_dr [] [] ex_cs Map.empty) @ [m] \<and> cs_inv (dr_cs c1)"
  using SendCall_correct [of "ex_dr [] [] ex_cs Map.empty" "(None, 5)" "{}" "(None, 9)" "''srv''"
      "xdr_proc.truncate (xdrProc ex_P 1 ex_prog ex_vers ex_add)" "[0, 0, 0, 3, 0, 0, 0, 0]" 3]
  unfolding ex_client_Send by (auto simp: ex_dr_ok ex_cs_inv ex_cs_env)

lemma m_buf_ex_dr: "m_buf (ap_obj (dr_rx (ex_dr b peer cs srv)) i) = b"
  by (simp add: ex_dr_ok)

theorem remote_call_witness:
  "\<exists>xid c1 h res c2 c3 err v.
    client_Send ex_P 1 ex_prog ex_vers ex_add [Some (VNum32 3), None] (None, 5) (None, 9) Sent ''srv'' 3
      (ex_dr [] [] ex_cs Map.empty) = Some (Inr (Inr xid, c1)) \<and>
    doMsg (\<lambda>_. []) (None, 9) Sent 1 c2 = Inr (Callback (Some 3) h res, c3) \<and>
    SendCall_wait (GotReply h) xid c3 = Inr (err, c3) \<and>
    abs_typ ex_P 1 (Base Uint32) v = Some (X32 3) \<and> client_return ex_add err res = Inr (Some v)"
proof -
  let ?c = "ex_dr [] [] ex_cs Map.empty" and ?as = "[Some (VNum32 3), None]"
  from ex_client_call obtain xid c1 m where c1: "client_Send ex_P 1 ex_prog ex_vers ex_add ?as (None, 5) (None, 9) Sent ''srv'' 3 ?c =
      Some (Inr (Inr xid, c1))" "dr_out c1 = dr_out ?c @ [m]" "cs_inv (dr_cs c1)" by blast
  let ?s = "ex_dr (m_buf (ap_obj (dr_pool c1) m)) [] ex_cs (Register (vers_Server ex_P 1 ex_prog ex_vers ex_methods) Map.empty)"
  have srv: "srv_lookup (dr_srv ?s) (rp_val ex_prog) (rv_val ex_vers) = Some (vers_Server ex_P 1 ex_prog ex_vers ex_methods)"
    by (simp add: ex_dr_ok srv_lookup_Register vers_Server_def)
  note side = ex_add_simps(6-12) ex_cs_inv ex_cs_env ex_dr_ok m_buf_ex_dr c1 srv ex_method_result
  have t: "\<exists>rmsg s1 k. doMsg (\<lambda>_. []) (None, 9) Sent 1 ?s = Inr (Answered rmsg None, s1) \<and> dr_out s1 = dr_out ?s @ [k] \<and>
    (ap_obj (dr_rx c2) 1 = \<lparr>m_buf = m_buf (ap_obj (dr_pool s1) k), m_Peer = ''srv''\<rparr> \<longrightarrow>
     (\<exists>h res c3 err. doMsg (\<lambda>_. []) (None, 9) Sent 1 c2 = Inr (Callback (Some 3) h res, c3) \<and>
        SendCall_wait (GotReply h) xid c3 = Inr (err, c3) \<and>
        (case Some (X32 3) of
           None \<Rightarrow> client_return ex_add err res = Inl (Replied_error h)
         | Some x \<Rightarrow> \<exists>v. abs_typ ex_P 1 (pr_res ex_add) v = Some x \<and>
             client_return ex_add err res = Inr (if pr_res ex_add = Base Void then None else Some v))))"
    if "dr_cs c2 = dr_cs c1" for c2
    by (rule remote_call [where as = ?as and xs = "[X32 3, X32 0]" and c = ?c and ec = "(None, 5)" and H = "{}"
          and em = "(None, 9)" and m = m and H' = "{}" and p = ex_add and srv = ex_methods and ve = ex_vers and r = ex_prog])
      (use that side in \<open>simp_all only: ex_add_simps(1-5) list.set ball_simps simp_thms\<close>)
  from t [of c1] obtain rmsg s1 k where
    s1: "doMsg (\<lambda>_. []) (None, 9) Sent 1 ?s = Inr (Answered rmsg None, s1)" "dr_out s1 = dr_out ?s @ [k]" by blast
  let ?c2 = "ex_dr (m_buf (ap_obj (dr_pool s1) k)) ''srv'' (dr_cs c1) Map.empty"
  from t [of ?c2] s1 have "\<exists>h res c3 err. doMsg (\<lambda>_. []) (None, 9) Sent 1 ?c2 = Inr (Callback (Some 3) h res, c3) \<and>
      SendCall_wait (GotReply h) xid c3 = Inr (err, c3) \<and>
      (\<exists>v. abs_typ ex_P 1 (Base Uint32) v = Some (X32 3) \<and> client_return ex_add err res = Inr (Some v))"
    by (auto simp: ex_dr_ok ex_add_simps(1-5))
  with c1(1) show ?thesis by blast
qed

section \<open>The catalog\<close>

lemma cat_key_drop: "drop_bit 32 (cat_key p v) = ucast p" "take_bit 32 (cat_key p v) = ucast v"
  by (rule bit_word_eqI; auto simp: cat_key_def bit_simps dest: bit_imp_le_length)+

lemma ucast64_inject: "(ucast (p :: u32) :: u64) = ucast p' \<longleftrightarrow> p = p'"
proof -
  have "uint (ucast q :: u64) = uint q" for q :: u32
    using uint_lt2p [of q] by (simp add: unsigned_ucast_eq take_bit_int_eq_self)
  then show ?thesis by (metis word_uint_eq_iff)
qed

lemma cat_key_inject [simp]: "cat_key p v = cat_key p' v' \<longleftrightarrow> p = p' \<and> v = v'"
proof
  assume "cat_key p v = cat_key p' v'"
  with cat_key_drop [of p v] cat_key_drop [of p' v']
  have "(ucast p :: u64) = ucast p'" "(ucast v :: u64) = ucast v'" by auto
  then show "p = p' \<and> v = v'" by (simp add: ucast64_inject)
qed simp

text \<open>The versions of the programs, in the order their init functions run.\<close>

definition all_vers :: "rpc_program list \<Rightarrow> (rpc_program \<times> rpc_vers) list" where
  "all_vers rs = concat (map (\<lambda>r. map (Pair r) (rp_vers r)) rs)"

lemma XdrCatalog_fold: "XdrCatalog P n rs = fold (\<lambda>(r, v). init_vers P n r v) (all_vers rs) Map.empty"
proof -
  have "fold (\<lambda>r. fold (init_vers P n r) (rp_vers r)) rs = fold (\<lambda>(r, v). init_vers P n r v) (all_vers rs)"
    by (induction rs) (simp_all add: all_vers_def fold_map comp_def)
  then show ?thesis by (simp add: XdrCatalog_def)
qed

definition numbers :: "rpc_program \<times> rpc_vers \<Rightarrow> u32 \<times> u32" where
  "numbers = (\<lambda>(r, v). (rp_val r, rv_val v))"

lemma fold_init_vers:
  "fold (\<lambda>(r, v). init_vers P n r v) rvs cat (cat_key prog vers) =
   (case find (\<lambda>rv. numbers rv = (prog, vers)) (rev rvs) of
      Some (r, v) \<Rightarrow> Some (\<lambda>x. map_option (xdrProc P n r v) (find_proc v x))
    | None \<Rightarrow> cat (cat_key prog vers))"
proof (induction rvs rule: rev_induct)
  case (snoc rv rvs)
  then show ?case by (cases rv) (auto simp: init_vers_def numbers_def)
qed simp

lemma find_distinct:
  "distinct (map f xs) \<Longrightarrow> x \<in> set xs \<Longrightarrow> find (\<lambda>y. f y = f x) xs = Some x"
  by (induction xs) (auto simp: rev_image_eqI)

lemma catalog_lookup:
  assumes "distinct (map numbers (all_vers rs))" "(r, v) \<in> set (all_vers rs)"
  shows "XdrCatalog P n rs (cat_key (rp_val r) (rv_val v)) = Some (\<lambda>x. map_option (xdrProc P n r v) (find_proc v x))"
proof -
  have "distinct (map numbers (rev (all_vers rs)))" using assms(1) by (simp add: rev_map [symmetric])
  from find_distinct [OF this, of "(r, v)"] assms(2) show ?thesis
    by (simp add: XdrCatalog_fold fold_init_vers) (simp add: numbers_def)
qed

text \<open>
  XdrCatalog holds exactly the versions of the package's programs: when their numbers
  differ, the key of a program and a version number maps to the procedures of the version
  that has them, by number, and to nothing when there is none.
\<close>

lemma catalog_exact:
  assumes "distinct (map numbers (all_vers rs))"
  shows "(\<forall>(r, v) \<in> set (all_vers rs). XdrCatalog P n rs (cat_key (rp_val r) (rv_val v)) =
      Some (\<lambda>x. map_option (xdrProc P n r v) (find_proc v x))) \<and>
    ((prog, vers) \<notin> numbers ` set (all_vers rs) \<longrightarrow> XdrCatalog P n rs (cat_key prog vers) = None)"
proof -
  have "XdrCatalog P n rs (cat_key prog vers) = None" if "(prog, vers) \<notin> numbers ` set (all_vers rs)"
  proof -
    have "find (\<lambda>rv. numbers rv = (prog, vers)) (rev (all_vers rs)) = None"
      unfolding find_None_iff using that by (metis image_eqI set_rev)
    then show ?thesis by (simp only: XdrCatalog_fold fold_init_vers option.case)
  qed
  with catalog_lookup [OF assms] show ?thesis by blast
qed

lemma ex_all_vers: "distinct (map numbers (all_vers [ex_prog]))"
  by (simp add: all_vers_def ex_prog_def)

lemma catalog_exact_witness:
  "XdrCatalog ex_P 1 [ex_prog] (cat_key 0x20000001 1) =
     Some (\<lambda>x. map_option (xdrProc ex_P 1 ex_prog ex_vers) (find_proc ex_vers x)) \<and>
   XdrCatalog ex_P 1 [ex_prog] (cat_key 0x20000001 2) = None"
  using catalog_exact [OF ex_all_vers, of ex_P 1 "0x20000001" 2]
  by (simp add: all_vers_def numbers_def ex_add_simps) (simp add: ex_prog_def ex_vers_def)


end
