(* ===== verification/Decoder.thy ===== *)
theory Decoder imports StubsCorrect begin

text \<open>
  The trace decoder (rpc/decode.go): the header of a message, the procedure of a call by
  XdrCatalog, the procedure of a reply by a table of calls. The table is a field of the
  decoder that Decode only takes entries from.
\<close>

section \<open>Decode\<close>

record call_key =
  ck_Xid :: u32
  ck_Peer :: string

record rpc_decoder =
  dec_Calls :: "call_key \<rightharpoonup> gen_proc"

text \<open>A decoded XdrProc: the procedure, and the Arg or the Res that was unmarshaled.\<close>

datatype decoded = Dec_arg gen_proc val | Dec_res gen_proc val

definition decode_call :: "catalog \<Rightarrow> rpc_msg \<Rightarrow> bytes \<Rightarrow> go_panic + decoded option" where
  "decode_call cat msg body =
     bindE (Cbody (Body msg)) (\<lambda>cb.
       case cat (cat_key (Prog cb) (Vers cb)) of
         None \<Rightarrow> Inr None
       | Some f \<Rightarrow>
         (case f (Proc cb) of
            None \<Rightarrow> Inr None
          | Some p \<Rightarrow>
            bindE (safeMarshal (xp_arg p body)) (\<lambda>r.
              Inr (case r of Inl e \<Rightarrow> None | Inr (v, rest) \<Rightarrow> Some (Dec_arg p v)))))"

definition Decode ::
  "catalog \<Rightarrow> string \<Rightarrow> bytes \<Rightarrow> rpc_decoder \<Rightarrow>
   go_panic + ((rpc_msg option \<times> decoded option) \<times> rpc_decoder)" where
  "Decode cat peer buf d =
     bindE (GetMsg buf) (\<lambda>g.
     case g of
       Inl e \<Rightarrow> Inr ((None, None), d)
     | Inr (msg, body) \<Rightarrow>
       let ck = \<lparr>ck_Xid = Xid msg, ck_Peer = peer\<rparr>;
           call = bindE (decode_call cat msg body) (\<lambda>p. Inr ((Some msg, p), d))
       in if Mtype (Body msg) = REPLY
          then case dec_Calls d ck of
                 Some p \<Rightarrow>
                   bindE (safeMarshal (xp_in p body)) (\<lambda>r.
                     Inr ((Some msg, case r of Inl e \<Rightarrow> None | Inr (v, rest) \<Rightarrow> Some (Dec_res p v)),
                          d\<lparr>dec_Calls := (dec_Calls d)(ck := None)\<rparr>))
               | None \<Rightarrow> call
          else if Mtype (Body msg) \<noteq> CALL then Inr ((Some msg, None), d)
          else call)"

section \<open>Properties\<close>

text \<open>
  What a client's method queues, the decoder decodes: the header of the call, and the
  procedure with an argument that stands for the XDR values of the method's arguments.
\<close>

lemma Decode_call:
  assumes "wf_pkg P" "\<forall>t \<in> set (pr_arg p). scalar_ok P t"
    and "length as = length (pr_arg p)" "stand_for P n (pr_arg p) (map2 (alloc P) (pr_arg p) as) xs"
    and "list_all2 (conf_typ P n) (pr_arg p) xs"
    and "cs_inv (dr_cs c)" "ap_env (cs_pool (dr_cs c)) (ran (cs_calls (dr_cs c))) ec"
    and "mp_inv (dr_pool c) H" "ap_env (dr_pool c) H em"
    and "client_Send P n r ve p as ec em Sent peer cb c = Some (Inr (Inr xid, c1))" "dr_out c1 = dr_out c @ [m]"
    and "distinct (map numbers (all_vers rs))" "(r, ve) \<in> set (all_vers rs)" "find_proc ve (pr_val p) = Some p"
  shows "\<exists>msg v vs. Decode (XdrCatalog P n rs) from_peer (m_buf (ap_obj (dr_pool c1) m)) d =
      Inr ((Some msg, Some (Dec_arg (xdrProc P n r ve p) v)), d) \<and>
    Xid msg = xid \<and> Mtype (Body msg) = CALL \<and> do_args (getArgType (pr_arg p)) v = Inr vs \<and> stand_for P n (pr_arg p) vs xs"
proof -
  let ?proc = "xdr_proc.truncate (xdrProc P n r ve p)"
  from arg_round_trip [OF assms(1-5), of "[]"] obtain b v vs where
    b: "out_arg P n (getArgType (pr_arg p)) (set_args P p as) = Inr b" "xp_arg (xdrProc P n r ve p) b = Inr (v, [])"
      "do_args (getArgType (pr_arg p)) v = Inr vs" "stand_for P n (pr_arg p) vs xs"
    by (auto simp: xdrProc_def)
  from SendCall_bytes [OF assms(6-9) assms(10) [unfolded client_Send_def b(1)]] assms(11) obtain hb where
    hb: "marshal_msg (call_msg xid ?proc) = Inr hb" "m_buf (ap_obj (dr_pool c1) m) = hb @ b" by auto
  from call_read_back [OF hb(1), of b] obtain h where
    h: "GetMsg (hb @ b) = Inr (Inr (h, b))" "Xid h = xid" "Mtype (Body h) = CALL"
      "mb_call (Body h) = mb_call (Body (call_msg xid ?proc))" by blast
  have n: "Prog (mb_call (Body h)) = rp_val r" "Vers (mb_call (Body h)) = rv_val ve" "Proc (mb_call (Body h)) = pr_val p"
    using h(4) by (simp_all add: call_msg_def mb_call_def xdrProc_numbers)
  have "XdrCatalog P n rs (cat_key (rp_val r) (rv_val ve)) = Some (\<lambda>x. map_option (xdrProc P n r ve) (find_proc ve x))"
    by (rule catalog_lookup [OF assms(12,13)])
  then have "decode_call (XdrCatalog P n rs) h b = Inr (Some (Dec_arg (xdrProc P n r ve p) v))"
    by (simp add: decode_call_def Cbody_call [OF h(3)] n assms(14) b(2) safeMarshal_def)
  moreover have "CALL \<noteq> REPLY" by (simp add: rpc_consts)
  ultimately show ?thesis using h(1-3) hb(2) b(3,4) by (auto simp: Decode_def)
qed

lemma Decode_call_witness:
  "\<exists>xid c1 m msg v. client_Send ex_P 1 ex_prog ex_vers ex_add [Some (VNum32 3), None] (None, 5) (None, 9) Sent ''srv'' 3
      (ex_dr [] [] ex_cs Map.empty) = Some (Inr (Inr xid, c1)) \<and>
    Decode (XdrCatalog ex_P 1 [ex_prog]) ''cli'' (m_buf (ap_obj (dr_pool c1) m)) \<lparr>dec_Calls = Map.empty\<rparr> =
      Inr ((Some msg, Some (Dec_arg (xdrProc ex_P 1 ex_prog ex_vers ex_add) v)), \<lparr>dec_Calls = Map.empty\<rparr>) \<and>
    Xid msg = xid"
proof -
  from ex_client_call obtain xid c1 m where
    c1: "client_Send ex_P 1 ex_prog ex_vers ex_add [Some (VNum32 3), None] (None, 5) (None, 9) Sent ''srv'' 3
      (ex_dr [] [] ex_cs Map.empty) = Some (Inr (Inr xid, c1))"
      "dr_out c1 = dr_out (ex_dr [] [] ex_cs Map.empty) @ [m]" by blast
  have "(ex_prog, ex_vers) \<in> set (all_vers [ex_prog])" by (simp add: all_vers_def ex_prog_def)
  with Decode_call [OF _ _ ex_add_simps(9-11), of "ex_dr [] [] ex_cs Map.empty" "(None, 5)" "{}" "(None, 9)",
      OF _ _ _ _ _ _ c1 ex_all_vers, of "''cli''" "\<lparr>dec_Calls = Map.empty\<rparr>"] c1(1)
  show ?thesis by (auto simp: ex_add_simps(1-8) ex_dr_ok ex_cs_inv ex_cs_env)
qed

text \<open>Decoding a trace, message by message with the peer each came from.\<close>

fun decode_all ::
  "catalog \<Rightarrow> (string \<times> bytes) list \<Rightarrow> rpc_decoder \<Rightarrow>
   go_panic + ((rpc_msg option \<times> decoded option) list \<times> rpc_decoder)" where
  "decode_all cat [] d = Inr ([], d)"
| "decode_all cat ((peer, buf) # ms) d =
     bindE (Decode cat peer buf d) (\<lambda>(out, d1).
     bindE (decode_all cat ms d1) (\<lambda>(outs, d2). Inr (out # outs, d2)))"

definition is_reply :: "rpc_msg option \<times> decoded option \<Rightarrow> bool" where
  "is_reply out = (case fst out of None \<Rightarrow> False | Some msg \<Rightarrow> Mtype (Body msg) = REPLY)"

text \<open>A reply that is returned takes its entry from the table; nothing else changes it.\<close>

lemma Decode_table:
  assumes "Decode cat peer buf d = Inr (out, d')"
  shows "if is_reply out then \<exists>ck \<in> dom (dec_Calls d). dec_Calls d' = (dec_Calls d)(ck := None) else d' = d"
proof (cases "GetMsg buf")
  case (Inl q)
  with assms show ?thesis by (simp add: Decode_def)
next
  case (Inr g)
  show ?thesis
  proof (cases g)
    case (Inl e)
    with assms Inr show ?thesis by (auto simp: Decode_def is_reply_def)
  next
    case g: (Inr mb)
    obtain msg body where mb: "mb = (msg, body)" by fastforce
    have cb: "decode_call cat msg body = Inl (XdrError (BadAccess ''Cbody'' (Mtype (Body msg))))"
      if "Mtype (Body msg) = REPLY"
      using that by (simp add: decode_call_def Cbody_def bad_access_def rpc_consts)
    show ?thesis
      using assms Inr g mb cb
      by (auto simp: Decode_def is_reply_def Let_def bindE_eq_Inr split: option.splits if_splits)
  qed
qed


definition ex_table :: rpc_decoder where
  "ex_table = \<lparr>dec_Calls = [\<lparr>ck_Xid = 7, ck_Peer = ''srv''\<rparr> \<mapsto> xdrProc ex_P 1 ex_prog ex_vers ex_add]\<rparr>"

lemma ex_res: "xp_in (xdrProc ex_P 1 ex_prog ex_vers ex_add) [0, 0, 0, 3] = Inr (VNum32 3, [])"
  by code_simp



end
