(* ===== verification/Lexer.thy ===== *)
theory Lexer imports GoPrelude begin

text \<open>
  The lexer of goxdr (cmd/goxdr/lex.go): positions, whitespace, the comments it collects for
  the emitted code, and tokens. A Go string is a list of characters of one byte each, a rune
  an integer, -1 at the end of the input. A call returns the lexer with its fields updated,
  or a panic of advance or makeToken. The loops of skipSpace and next may run forever, so
  their results are optional.
\<close>

section \<open>State\<close>

text \<open>Token types; a single character has its own code as its type.\<close>

datatype token_type =
    T_ID | T_NUM | T_CONST | T_STRUCT | T_UNION | T_ENUM | T_TYPEDEF | T_PROGRAM | T_NAMESPACE
  | T_BOOL | T_UNSIGNED | T_INT | T_HYPER | T_FLOAT | T_DOUBLE | T_QUADRUPLE | T_VOID
  | T_VERSION | T_SWITCH | T_CASE | T_DEFAULT | T_OPAQUE | T_STRING
  | T_char int | T_bad

record token =
  tk_Type :: token_type
  tk_Value :: string
  tk_BlockComment :: string
  tk_LineComment :: string

datatype lex_msg = BadCharacter int | Redefined string

datatype lex_panic = AdvanceRange | TokenRange

record lexer =
  lx_input :: string
  lx_lineno :: int
  lx_colno :: int
  lx_lastTokLine :: int
  lx_lastTokCol :: int
  lx_midline :: bool
  lx_blockComment :: string
  lx_newsymbols :: "string set"
  lx_errors :: "(int \<times> int \<times> lex_msg) list"
  lx_Failed :: bool

definition tabwidth :: int where "tabwidth = 8"
definition EOFRune :: int where "EOFRune = - 1"

definition NewLexer :: "string \<Rightarrow> lexer" where
  "NewLexer input = \<lparr>lx_input = input, lx_lineno = 1, lx_colno = 0, lx_lastTokLine = 0,
     lx_lastTokCol = 0, lx_midline = False, lx_blockComment = [], lx_newsymbols = {},
     lx_errors = [], lx_Failed = False\<rparr>"

definition keyword_map :: "(string \<times> token_type) list" where
  "keyword_map =
     [(''const'', T_CONST), (''struct'', T_STRUCT), (''union'', T_UNION), (''enum'', T_ENUM),
      (''typedef'', T_TYPEDEF), (''program'', T_PROGRAM), (''namespace'', T_NAMESPACE),
      (''bool'', T_BOOL), (''unsigned'', T_UNSIGNED), (''int'', T_INT), (''hyper'', T_HYPER),
      (''float'', T_FLOAT), (''double'', T_DOUBLE), (''quadruple'', T_QUADRUPLE), (''void'', T_VOID),
      (''version'', T_VERSION), (''switch'', T_SWITCH), (''case'', T_CASE), (''default'', T_DEFAULT),
      (''opaque'', T_OPAQUE), (''string'', T_STRING)]"

section \<open>Strings\<close>

definition rune :: "char \<Rightarrow> int" where
  "rune c = of_char c"

definition str_IndexFunc :: "string \<Rightarrow> (char \<Rightarrow> bool) \<Rightarrow> int" where
  "str_IndexFunc s f =
     (let n = length (takeWhile (\<lambda>c. \<not> f c) s) in if n < length s then int n else - 1)"

definition str_IndexByte :: "string \<Rightarrow> char \<Rightarrow> int" where
  "str_IndexByte s c = str_IndexFunc s (\<lambda>x. x = c)"

fun str_Index :: "string \<Rightarrow> string \<Rightarrow> int" where
  "str_Index [] sub = (if sub = [] then 0 else - 1)"
| "str_Index (c # s) sub =
     (if take (length sub) (c # s) = sub then 0
      else let i = str_Index s sub in if i < 0 then - 1 else i + 1)"

text \<open>strings.Split at newlines.\<close>

fun split_lines :: "string \<Rightarrow> string list" where
  "split_lines [] = [[]]"
| "split_lines (c # s) =
     (if c = CHR 0x0A then [] # split_lines s
      else case split_lines s of [] \<Rightarrow> [[c]] | l # ls \<Rightarrow> (c # l) # ls)"

definition TrimSuffix_cr :: "string \<Rightarrow> string" where
  "TrimSuffix_cr s = (if s \<noteq> [] \<and> last s = CHR 0x0D then butlast s else s)"

section \<open>Positions\<close>

definition lx_at :: "lexer \<Rightarrow> int \<Rightarrow> int" where
  "lx_at l i =
     (if i < 0 \<or> i \<ge> int (length (lx_input l)) then EOFRune else rune (lx_input l ! nat i))"

definition adv_char :: "char \<Rightarrow> lexer \<Rightarrow> lexer" where
  "adv_char c l =
     (if c = CHR 0x0A
      then l\<lparr>lx_lineno := lx_lineno l + 1, lx_colno := 0, lx_midline := False\<rparr>
      else if c = CHR 0x09 then l\<lparr>lx_colno := lx_colno l + (8 - lx_colno l mod tabwidth)\<rparr>
      else if c = CHR 0x20 then l\<lparr>lx_colno := lx_colno l + 1\<rparr>
      else l\<lparr>lx_colno := lx_colno l + 1, lx_midline := True\<rparr>)"

definition advance :: "int \<Rightarrow> lexer \<Rightarrow> lex_panic + lexer" where
  "advance n l =
     (if n < 0 \<or> n > int (length (lx_input l)) then Inl AdvanceRange
      else Inr ((fold adv_char (take (nat n) (lx_input l)) l)\<lparr>lx_input := drop (nat n) (lx_input l)\<rparr>))"

definition findEOL :: "lexer \<Rightarrow> int" where
  "findEOL l =
     (let n = str_IndexByte (lx_input l) (CHR 0x0A) in
      if n > 0 \<and> lx_input l ! nat (n - 1) = CHR 0x0D then n - 1
      else if n \<ge> 0 then n else int (length (lx_input l)))"

definition skipLine :: "lexer \<Rightarrow> lex_panic + lexer" where
  "skipLine l =
     (let i = str_IndexByte (lx_input l) (CHR 0x0A) in
      if i \<ge> 0 then advance (i + 1) l else advance (int (length (lx_input l))) l)"

definition RestOfLine :: "lexer \<Rightarrow> lex_panic + (string \<times> lexer)" where
  "RestOfLine l =
     (let i = findEOL l; ret = take (nat i) (lx_input l) in
      bindE (advance i l) (\<lambda>l1. bindE (skipLine l1) (\<lambda>l2. Inr (ret, l2))))"

definition isNotWS :: "char \<Rightarrow> bool" where
  "isNotWS c \<longleftrightarrow> c \<noteq> CHR 0x20 \<and> c \<noteq> CHR 0x09"

definition skipWS :: "lexer \<Rightarrow> lex_panic + (bool \<times> lexer)" where
  "skipWS l =
     (let i = str_IndexFunc (lx_input l) isNotWS in
      if i > 0 then bindE (advance i l) (\<lambda>l1. Inr (True, l1)) else Inr (False, l))"

definition isEOL :: "string \<Rightarrow> int" where
  "isEOL s =
     (if length s \<ge> 1 \<and> s ! 0 = CHR 0x0A then 1
      else if length s \<ge> 2 \<and> take 2 s = [CHR 0x0D, CHR 0x0A] then 2 else 0)"

definition skipWSNL :: "lexer \<Rightarrow> lex_panic + (bool \<times> lexer)" where
  "skipWSNL l =
     bindE (skipWS l) (\<lambda>(_, l1).
       let n = isEOL (lx_input l1) in
       if n > 0 then bindE (advance n l1) (\<lambda>l2. Inr (True, l2)) else Inr (False, l1))"

section \<open>Comments\<close>

definition clearComment :: "lexer \<Rightarrow> lexer" where
  "clearComment l = l\<lparr>lx_blockComment := []\<rparr>"

definition findCommentStart :: "char \<Rightarrow> lexer \<Rightarrow> lex_panic + (bool \<times> lexer)" where
  "findCommentStart tp l =
     (let s = lx_input l; i = str_IndexFunc s isNotWS in
      if i \<ge> 0 \<and> int (length s) - i \<ge> 2 \<and> s ! nat i = CHR ''/'' \<and> s ! nat (i + 1) = tp
      then bindE (advance i l) (\<lambda>l1. Inr (True, l1)) else Inr (False, l))"

text \<open>get1LineBlockComment in two parts: at the start of a comment, and finding it.\<close>

definition block_at_eol :: "lexer \<Rightarrow> lex_panic + (string \<times> lexer)" where
  "block_at_eol l =
     (let s = lx_input l; j = str_Index (drop 2 s) ''*/'' in
      if j < 0 then Inr ([], l)
      else
        let comment = take (nat (j + 4)) s;
            multiline = str_IndexByte comment (CHR 0x0A) \<noteq> - 1;
            nskip = j + 4 + str_IndexFunc (drop (nat (j + 4)) s) isNotWS;
            eol = isEOL (drop (nat nskip) s)
        in
        if \<not> multiline \<and> (eol > 0 \<or> nskip = int (length s))
        then bindE (advance (nskip + eol) l) (\<lambda>l2. Inr (comment, l2))
        else if eol = 0 then bindE (advance nskip l) (\<lambda>l2. Inr ([], l2))
        else Inr ([], l))"

definition get1LineBlockComment :: "lexer \<Rightarrow> lex_panic + (string \<times> lexer)" where
  "get1LineBlockComment l =
     bindE (findCommentStart (CHR ''*'') l) (\<lambda>(found, l1).
       if \<not> found then Inr ([], l1) else block_at_eol l1)"

text \<open>
  What the loops' termination rests on: the operations only drop input, and a line comment
  drops something.
\<close>

lemma advance_input:
  "advance n l = Inr l' \<Longrightarrow> lx_input l' = drop (nat n) (lx_input l) \<and> 0 \<le> n \<and> nat n \<le> length (lx_input l)"
  by (auto simp: advance_def split: if_splits)

lemma findCommentStart_le: "findCommentStart tp l = Inr (b, l') \<Longrightarrow> length (lx_input l') \<le> length (lx_input l)"
  by (auto simp: findCommentStart_def Let_def bindE_eq_Inr split: if_splits dest: advance_input)

lemma findCommentStart_nonempty: "findCommentStart tp l = Inr (True, l') \<Longrightarrow> lx_input l' \<noteq> []"
  by (auto simp: findCommentStart_def Let_def bindE_eq_Inr split: if_splits dest!: advance_input)

lemma skipLine_lt:
  "skipLine l = Inr l' \<Longrightarrow> length (lx_input l') \<le> length (lx_input l) \<and>
     (lx_input l \<noteq> [] \<longrightarrow> length (lx_input l') < length (lx_input l))"
  by (auto simp: skipLine_def Let_def split: if_splits dest!: advance_input)

lemma RestOfLine_lt:
  assumes "RestOfLine l = Inr (s, l')" "lx_input l \<noteq> []"
  shows "length (lx_input l') < length (lx_input l)"
proof -
  from assms(1) obtain l1 where a: "advance (findEOL l) l = Inr l1" "skipLine l1 = Inr l'"
    by (auto simp: RestOfLine_def Let_def bindE_eq_Inr)
  from advance_input [OF a(1)] have l1: "lx_input l1 = drop (nat (findEOL l)) (lx_input l)" by simp
  show ?thesis
  proof (cases "lx_input l1 = []")
    case True
    with skipLine_lt [OF a(2)] assms(2) show ?thesis by simp
  next
    case False
    with skipLine_lt [OF a(2)] have "length (lx_input l') < length (lx_input l1)" by simp
    also have "\<dots> \<le> length (lx_input l)" by (simp add: l1)
    finally show ?thesis .
  qed
qed

function line_loop :: "string \<Rightarrow> int \<Rightarrow> lexer \<Rightarrow> lex_panic + (string \<times> lexer)" where
  "line_loop out column l =
     bindE (findCommentStart (CHR ''/'') l) (\<lambda>(found, l1).
       if \<not> found then Inr (out, l1)
       else
         let (out1, column1) =
               (if lx_colno l1 \<noteq> column then ([], lx_colno l1) else (out @ [CHR 0x0A], column))
         in bindE (RestOfLine l1) (\<lambda>(s, l2). line_loop (out1 @ s) column1 l2))"
  by pat_completeness auto

termination
proof (relation "measure (\<lambda>(out, column, l). length (lx_input l))")
  show "wf (measure (\<lambda>(out, column, l). length (lx_input l)))" by simp
next
  fix out :: string and column l x found l1 y out1 column1 z s l2
  assume a: "findCommentStart (CHR ''/'') l = Inr x" "(found, l1) = x" "\<not> \<not> found"
    "RestOfLine l1 = Inr z" "(s, l2) = z"
  from a(1-3) have f: "findCommentStart (CHR ''/'') l = Inr (True, l1)" by auto
  from RestOfLine_lt [of l1 s l2] findCommentStart_nonempty [OF f] findCommentStart_le [OF f] a(4,5)
  show "((out1 @ s, column1, l2), (out, column, l)) \<in> measure (\<lambda>(out, column, l). length (lx_input l))"
    by simp
qed

declare line_loop.simps [simp del]

definition getLineComment :: "lexer \<Rightarrow> lex_panic + (string \<times> lexer)" where
  "getLineComment l =
     bindE (findCommentStart (CHR ''/'') l) (\<lambda>(found, l1).
       if \<not> found then get1LineBlockComment l1
       else if lx_midline l1 then RestOfLine l1
       else line_loop [] (- 1) l1)"

text \<open>The loop of stripToColumn: the column reached and the input left.\<close>

fun strip_loop :: "int \<Rightarrow> int \<Rightarrow> string \<Rightarrow> int \<times> string" where
  "strip_loop column c [] = (c, [])"
| "strip_loop column c (x # xs) =
     (if c < column then
        (if x = CHR 0x09 then strip_loop column ((c + tabwidth) mod tabwidth) xs
         else if x = CHR 0x20 then strip_loop column (c + 1) xs
         else (c, x # xs))
      else (c, x # xs))"

definition stripToColumn :: "int \<Rightarrow> string \<Rightarrow> string" where
  "stripToColumn column input =
     (case strip_loop column 0 input of (c, rest) \<Rightarrow>
        if c \<le> column then rest else replicate (nat (c - column)) (CHR 0x20) @ rest)"

text \<open>The lines of a block comment, glued together.\<close>

definition block_text :: "int \<Rightarrow> string \<Rightarrow> string" where
  "block_text column comment =
     (case split_lines comment of
        [] \<Rightarrow> []
      | line # ls \<Rightarrow> TrimSuffix_cr line @
          concat (map (\<lambda>x. CHR 0x0A # TrimSuffix_cr (stripToColumn column x)) ls))"

text \<open>skipComment in two parts: its second half, at the start of a block comment, comes first.\<close>

definition skip_block :: "bool \<Rightarrow> lexer \<Rightarrow> lex_panic + (bool \<times> lexer)" where
  "skip_block wasMidline l =
     (let l1 = clearComment l; column = lx_colno l; s = lx_input l; j = str_Index (drop 2 s) ''*/'' in
      if j < 0 then Inr (True, l1)
      else
        let comment = take (nat (j + 4)) s in
        bindE (advance (j + 4) l1) (\<lambda>l2.
          if wasMidline then Inr (True, l2)
          else bindE (skipWSNL l2) (\<lambda>(nl, l3).
            if \<not> nl then Inr (True, l3)
            else Inr (True, l3\<lparr>lx_blockComment := block_text column comment\<rparr>))))"

definition skipComment :: "lexer \<Rightarrow> lex_panic + (bool \<times> lexer)" where
  "skipComment l =
     (let wasMidline = lx_midline l in
      bindE (getLineComment l) (\<lambda>(comment, l1).
        if comment \<noteq> [] then
          Inr (True, if wasMidline then clearComment l1 else (clearComment l1)\<lparr>lx_blockComment := comment\<rparr>)
        else bindE (findCommentStart (CHR ''*'') l1) (\<lambda>(found, l2).
          if \<not> found then Inr (False, l2) else skip_block wasMidline l2)))"

section \<open>Tokens\<close>

definition makeToken :: "token_type \<Rightarrow> int \<Rightarrow> lexer \<Rightarrow> lex_panic + (token \<times> lexer)" where
  "makeToken typ n l =
     (if n \<le> 0 \<or> n > int (length (lx_input l)) then Inl TokenRange
      else
        let l1 = l\<lparr>lx_lastTokLine := lx_lineno l, lx_lastTokCol := lx_colno l\<rparr>;
            t = \<lparr>tk_Type = typ, tk_Value = take (nat n) (lx_input l), tk_BlockComment = lx_blockComment l,
                 tk_LineComment = []\<rparr>
        in bindE (advance n (clearComment l1)) (\<lambda>l2.
           bindE (getLineComment l2) (\<lambda>(com, l3). Inr (t\<lparr>tk_LineComment := com\<rparr>, l3))))"

partial_function (option) skipSpace :: "lexer \<Rightarrow> (lex_panic + lexer) option" where
  "skipSpace l =
     (case skipComment l of
        Inl p \<Rightarrow> Some (Inl p)
      | Inr (com, l1) \<Rightarrow>
        (case skipWSNL l1 of
           Inl p \<Rightarrow> Some (Inl p)
         | Inr (nl, l2) \<Rightarrow>
             if nl then skipSpace (clearComment l2)
             else if \<not> com then Some (Inr l2)
             else skipSpace l2))"

definition isDigit :: "int \<Rightarrow> bool" where
  "isDigit c \<longleftrightarrow> 48 \<le> c \<and> c \<le> 57 \<or> c = 39"

definition isHexDigit :: "int \<Rightarrow> bool" where
  "isHexDigit c \<longleftrightarrow> isDigit c \<or>
     (let d = c AND NOT 0x20 in 65 \<le> d \<and> d \<le> 70 \<or> d = 39)"

definition isIdStart :: "int \<Rightarrow> bool" where
  "isIdStart c \<longleftrightarrow> c = 95 \<or> (let d = c AND NOT 0x20 in 65 \<le> d \<and> d \<le> 90)"

definition isIdRest :: "int \<Rightarrow> bool" where
  "isIdRest c \<longleftrightarrow> isIdStart c \<or> isDigit c"

text \<open>A loop that counts runes from index \<open>i\<close> on; at the end of the input every test is false.\<close>

definition count_from :: "(int \<Rightarrow> bool) \<Rightarrow> int \<Rightarrow> lexer \<Rightarrow> int" where
  "count_from P i l = i + int (length (takeWhile (\<lambda>c. P (rune c)) (drop (nat i) (lx_input l))))"

definition identifier_token :: "lexer \<Rightarrow> lex_panic + (token option \<times> lexer)" where
  "identifier_token l =
     (if \<not> isIdStart (lx_at l 0) then Inr (None, l)
      else bindE (makeToken T_ID (count_from isIdRest 1 l) l) (\<lambda>(t, l'). Inr (Some t, l')))"

definition integer_token :: "lexer \<Rightarrow> lex_panic + (token option \<times> lexer)" where
  "integer_token l =
     (let c0 = lx_at l 0;
          (i, c) = (if c0 = 43 \<or> c0 = 45 then (1, lx_at l 1) else (0, c0))
      in
      if \<not> isDigit c then Inr (None, l)
      else
        let n = (if lx_at l i = 48 \<and> lx_at l (i + 1) OR 0x20 = 120 \<and> isHexDigit (lx_at l (i + 2))
                 then count_from isHexDigit (i + 2) l else count_from isDigit (i + 1) l)
        in bindE (makeToken T_NUM n l) (\<lambda>(t, l'). Inr (Some t, l')))"

definition lex_Error :: "lex_msg \<Rightarrow> lexer \<Rightarrow> lexer" where
  "lex_Error e l =
     l\<lparr>lx_errors := lx_errors l @ [(lx_lastTokLine l, lx_lastTokCol l + 1, e)], lx_Failed := True\<rparr>"

definition punctuation :: string where
  "punctuation = ''=;{}<>[]*,:()''"

text \<open>
  The switch of next: a token, the end, or the lexer to go round the loop with.
\<close>

definition next_token :: "lexer \<Rightarrow> lex_panic + (token option \<times> lexer) + lexer" where
  "next_token l =
     (let c = lx_at l 0 in
      if c = EOFRune then Inr (Inl (None, l))
      else if c \<in> rune ` set punctuation
      then bindE (makeToken (T_char c) 1 l) (\<lambda>(t, l2). Inr (Inl (Some t, l2)))
      else if isIdStart c
      then bindE (identifier_token l) (\<lambda>(t, l2).
             Inr (Inl (map_option (\<lambda>t. case map_of keyword_map (tk_Value t) of
                    Some kw \<Rightarrow> t\<lparr>tk_Type := kw\<rparr> | None \<Rightarrow> t) t, l2)))
      else if isDigit c \<or> c = 43 \<or> c = 45 then bindE (integer_token l) (\<lambda>x. Inr (Inl x))
      else if c = 37 \<and> lx_colno l = 0 then bindE (skipLine l) (\<lambda>l2. Inr (Inr l2))
      else bindE (makeToken T_bad 1 l) (\<lambda>(t, l2). Inr (Inr (lex_Error (BadCharacter c) l2))))"

partial_function (option) lex_next :: "lexer \<Rightarrow> (lex_panic + (token option \<times> lexer)) option" where
  "lex_next l =
     (case skipSpace l of
        None \<Rightarrow> None
      | Some (Inl p) \<Rightarrow> Some (Inl p)
      | Some (Inr l1) \<Rightarrow>
        (case next_token l1 of
           Inl p \<Rightarrow> Some (Inl p)
         | Inr (Inl r) \<Rightarrow> Some (Inr r)
         | Inr (Inr l2) \<Rightarrow> lex_next l2))"

definition Checkdup :: "string \<Rightarrow> lexer \<Rightarrow> lexer" where
  "Checkdup s l =
     (if s \<in> lx_newsymbols l then lex_Error (Redefined s) l
      else l\<lparr>lx_newsymbols := insert s (lx_newsymbols l)\<rparr>)"

text \<open>Lex as the parser calls it: the token it stored, or 0 at the end of the input.\<close>

definition Lex :: "lexer \<Rightarrow> (lex_panic + ((token_type \<times> token) option \<times> lexer)) option" where
  "Lex l = map_option (\<lambda>r. bindE r (\<lambda>(t, l'). Inr (map_option (\<lambda>t. (tk_Type t, t)) t, l'))) (lex_next l)"

declare skipSpace.simps [code] lex_next.simps [code]

end
