(* ===== verification/LexerPos.thy ===== *)
theory LexerPos imports Lexer "HOL-Library.Sublist" begin

text \<open>
  How the lexer's operations move through the input: none of them panics, each consumes a
  prefix of the input and keeps the position of what it consumed.
\<close>

section \<open>Moving through the input\<close>

type_synonym pos = "int \<times> int \<times> bool"

definition lx_pos :: "lexer \<Rightarrow> pos" where
  "lx_pos l = (lx_lineno l, lx_colno l, lx_midline l)"

fun pos_char :: "char \<Rightarrow> pos \<Rightarrow> pos" where
  "pos_char c (ln, col, mid) =
     (if c = CHR 0x0A then (ln + 1, 0, False)
      else if c = CHR 0x09 then (ln, col + (8 - col mod 8), mid)
      else if c = CHR 0x20 then (ln, col + 1, mid)
      else (ln, col + 1, True))"

definition same_env :: "lexer \<Rightarrow> lexer \<Rightarrow> bool" where
  "same_env l l' \<longleftrightarrow> lx_newsymbols l' = lx_newsymbols l \<and> lx_errors l' = lx_errors l \<and> lx_Failed l' = lx_Failed l \<and>
     lx_lastTokLine l' = lx_lastTokLine l \<and> lx_lastTokCol l' = lx_lastTokCol l"

definition moved :: "lexer \<Rightarrow> lexer \<Rightarrow> bool" where
  "moved l l' \<longleftrightarrow> (\<exists>w. lx_input l = w @ lx_input l' \<and> lx_pos l' = fold pos_char w (lx_pos l))"

lemma moved_refl [simp]: "moved l l"
  by (simp add: moved_def)

lemma moved_trans: "moved l l1 \<Longrightarrow> moved l1 l2 \<Longrightarrow> moved l l2"
  unfolding moved_def by (metis append.assoc fold_append comp_apply)

lemma moved_length: "moved l l' \<Longrightarrow> length (lx_input l') \<le> length (lx_input l)"
  by (auto simp: moved_def)

lemma moved_cong: "lx_input l1 = lx_input l \<Longrightarrow> lx_pos l1 = lx_pos l \<Longrightarrow> moved l l' = moved l1 l'"
  by (simp add: moved_def)

lemma moved_cong2: "lx_input l1 = lx_input l' \<Longrightarrow> lx_pos l1 = lx_pos l' \<Longrightarrow> moved l l' = moved l l1"
  by (simp add: moved_def)

lemma adv_char_pos: "lx_pos (adv_char c l) = pos_char c (lx_pos l)"
  by (simp add: adv_char_def lx_pos_def tabwidth_def)

lemma adv_chars_pos: "lx_pos (fold adv_char w l) = fold pos_char w (lx_pos l)"
  by (induction w arbitrary: l) (simp_all add: adv_char_pos)

lemma adv_char_rest: "lx_input (adv_char c l) = lx_input l" "same_env l (adv_char c l)"
  "lx_blockComment (adv_char c l) = lx_blockComment l"
  by (simp_all add: adv_char_def same_env_def)

lemma same_env_refl [simp]: "same_env l l"
  by (simp add: same_env_def)

lemma same_env_trans: "same_env l l1 \<Longrightarrow> same_env l1 l2 \<Longrightarrow> same_env l l2"
  by (simp add: same_env_def)

lemma adv_chars_rest:
  "lx_input (fold adv_char w l) = lx_input l \<and> same_env l (fold adv_char w l) \<and>
   lx_blockComment (fold adv_char w l) = lx_blockComment l"
proof (induction w arbitrary: l)
  case (Cons c w)
  from Cons.IH [of "adv_char c l"] adv_char_rest [where c = c and l = l] show ?case
    by (auto intro: same_env_trans)
qed simp

definition adv :: "nat \<Rightarrow> lexer \<Rightarrow> lexer" where
  "adv n l = (fold adv_char (take n (lx_input l)) l)\<lparr>lx_input := drop n (lx_input l)\<rparr>"

lemma advance_eq: "advance (int n) l = (if n \<le> length (lx_input l) then Inr (adv n l) else Inl AdvanceRange)"
  by (simp add: advance_def adv_def)

lemma adv_simps [simp]: "lx_input (adv n l) = drop n (lx_input l)"
  "lx_blockComment (adv n l) = lx_blockComment l" "same_env l (adv n l)"
  using adv_chars_rest [of "take n (lx_input l)" l] by (simp_all add: adv_def same_env_def)

lemma adv_pos: "lx_pos (adv n l) = fold pos_char (take n (lx_input l)) (lx_pos l)"
  using adv_chars_pos [of "take n (lx_input l)" l] by (simp add: adv_def lx_pos_def)

lemma adv_moved [simp]: "moved l (adv n l)"
  unfolding moved_def by (rule exI [of _ "take n (lx_input l)"]) (simp add: adv_pos)

text \<open>What holds of every operation: it returns, having moved.\<close>

definition moves :: "lexer \<Rightarrow> lex_panic + ('a \<times> lexer) \<Rightarrow> bool" where
  "moves l r \<longleftrightarrow> (\<exists>x l'. r = Inr (x, l') \<and> moved l l' \<and> same_env l l')"

lemma movesI: "moved l l' \<Longrightarrow> same_env l l' \<Longrightarrow> moves l (Inr (x, l'))"
  by (simp add: moves_def)

lemma movesE:
  assumes "moves l r" obtains x l' where "r = Inr (x, l')" "moved l l'" "same_env l l'"
  using assms by (auto simp: moves_def)

lemma moves_trans: "moved l l1 \<Longrightarrow> same_env l l1 \<Longrightarrow> moves l1 r \<Longrightarrow> moves l r"
  by (auto simp: moves_def intro: moved_trans same_env_trans)

lemma moves_bind:
  assumes "moves l r" "\<And>x l1. r = Inr (x, l1) \<Longrightarrow> moved l l1 \<Longrightarrow> same_env l l1 \<Longrightarrow> moves l (f x l1)"
  shows "moves l (bindE r (\<lambda>(x, l1). f x l1))"
  using assms by (auto elim!: movesE)

section \<open>Searching\<close>

lemma str_IndexFunc_range: "- 1 \<le> str_IndexFunc s f \<and> str_IndexFunc s f < int (length s)"
  by (auto simp: str_IndexFunc_def Let_def)

lemma str_IndexFunc_nth: "str_IndexFunc s f = int n \<Longrightarrow> n < length s \<and> f (s ! n)"
proof -
  assume a: "str_IndexFunc s f = int n"
  then have n: "n = length (takeWhile (\<lambda>c. \<not> f c) s)" "n < length s"
    by (auto simp: str_IndexFunc_def Let_def split: if_splits)
  with nth_length_takeWhile [of "\<lambda>c. \<not> f c" s] show ?thesis by simp
qed

lemma str_Index_range: "- 1 \<le> str_Index s sub \<and> (0 \<le> str_Index s sub \<longrightarrow> str_Index s sub + int (length sub) \<le> int (length s))"
proof (induction s sub rule: str_Index.induct)
  case (2 c s sub)
  show ?case
  proof (cases "take (length sub) (c # s) = sub")
    case True
    from arg_cong [OF True, of length] have "int (length sub) \<le> int (length (c # s))"
      by (simp only: length_take)
    with True show ?thesis by simp
  next
    case False
    with 2 show ?thesis by (auto simp: Let_def)
  qed
qed simp

section \<open>No operation panics\<close>

lemma moves_advance: "n \<le> length (lx_input l) \<Longrightarrow> moves l (bindE (advance (int n) l) (\<lambda>l1. Inr (x, l1)))"
  by (simp add: advance_eq moves_def)

lemma findEOL_range: "0 \<le> findEOL l \<and> findEOL l \<le> int (length (lx_input l))"
  using str_IndexFunc_range [of "lx_input l" "\<lambda>x. x = CHR 0x0A"]
  by (auto simp: findEOL_def Let_def str_IndexByte_def)

lemma skipLine_eq:
  "skipLine l = Inr (adv (if str_IndexByte (lx_input l) (CHR 0x0A) < 0 then length (lx_input l)
     else nat (str_IndexByte (lx_input l) (CHR 0x0A) + 1)) l)"
proof -
  have r: "str_IndexByte (lx_input l) (CHR 0x0A) < int (length (lx_input l))"
    using str_IndexFunc_range by (simp add: str_IndexByte_def)
  show ?thesis
  proof (cases "str_IndexByte (lx_input l) (CHR 0x0A) < 0")
    case True
    then show ?thesis by (simp add: skipLine_def Let_def advance_eq)
  next
    case False
    then have e: "str_IndexByte (lx_input l) (CHR 0x0A) + 1 = int (nat (str_IndexByte (lx_input l) (CHR 0x0A) + 1))"
      by simp
    from False r show ?thesis by (simp add: skipLine_def Let_def) (subst e, subst advance_eq, simp)
  qed
qed

lemma advance_nat: "0 \<le> i \<Longrightarrow> i \<le> int (length (lx_input l)) \<Longrightarrow> advance i l = Inr (adv (nat i) l)"
  using advance_eq [of "nat i" l] by (simp add: nat_le_iff)

lemma moves_RestOfLine: "moves l (RestOfLine l)"
  using findEOL_range [of l]
  by (auto simp: RestOfLine_def Let_def advance_nat skipLine_eq intro!: movesI
      intro: moved_trans [OF adv_moved adv_moved] same_env_trans [OF adv_simps(3) adv_simps(3)])

lemma moves_skipWS: "moves l (skipWS l)"
  using str_IndexFunc_range [of "lx_input l" isNotWS]
  by (auto simp: skipWS_def Let_def advance_nat intro!: movesI)

lemma isEOL_range: "0 \<le> isEOL s \<and> isEOL s \<le> int (length s)"
  by (auto simp: isEOL_def)

lemma moves_skipWSNL: "moves l (skipWSNL l)"
  unfolding skipWSNL_def
proof (rule moves_bind [OF moves_skipWS])
  fix x l1 assume "moved l l1" "same_env l l1"
  then show "moves l (let n = isEOL (lx_input l1) in
      if n > 0 then bindE (advance n l1) (\<lambda>l2. Inr (True, l2)) else Inr (False, l1))"
    using isEOL_range [of "lx_input l1"]
    by (auto simp: Let_def advance_nat intro!: movesI intro: moved_trans [OF _ adv_moved]
        same_env_trans [OF _ adv_simps(3)])
qed

lemma moves_findCommentStart: "moves l (findCommentStart tp l)"
  using str_IndexFunc_range [of "lx_input l" isNotWS]
  by (auto simp: findCommentStart_def Let_def advance_nat intro!: movesI)

lemma moves_eol_or_skip:
  assumes "0 \<le> n" "0 \<le> e" "n + e \<le> int (length (lx_input l))"
  shows "moves l (if b then bindE (advance (n + e) l) (\<lambda>l2. Inr (c, l2))
    else if e = 0 then bindE (advance n l) (\<lambda>l2. Inr ([], l2)) else Inr ([], l))"
  using assms by (simp add: advance_nat movesI)

lemma moves_block_at_eol: "moves l (block_at_eol l)"
proof (cases "str_Index (drop 2 (lx_input l)) ''*/'' < 0")
  case True
  then show ?thesis by (simp add: block_at_eol_def Let_def movesI)
next
  case False
  let ?s = "lx_input l" let ?j = "str_Index (drop 2 ?s) ''*/''"
  let ?n = "?j + 4 + str_IndexFunc (drop (nat (?j + 4)) ?s) isNotWS"
  from str_Index_range [of "drop 2 ?s" "''*/''"] False have j: "?j + 4 \<le> int (length ?s)" by auto
  from str_IndexFunc_range [of "drop (nat (?j + 4)) ?s" isNotWS] j False
  have n: "0 \<le> ?n" "?n \<le> int (length ?s)" by auto
  from isEOL_range [of "drop (nat ?n) ?s"] n have e: "0 \<le> isEOL (drop (nat ?n) ?s)"
    "?n + isEOL (drop (nat ?n) ?s) \<le> int (length ?s)" by auto
  show ?thesis
    unfolding block_at_eol_def Let_def if_not_P [OF False] by (rule moves_eol_or_skip [OF n(1) e])
qed

lemma moves_get1: "moves l (get1LineBlockComment l)"
  unfolding get1LineBlockComment_def
  by (rule moves_bind [OF moves_findCommentStart]) (simp add: movesI moves_trans [OF _ _ moves_block_at_eol])

lemma moves_line_loop: "moves l (line_loop out column l)"
proof (induction out column l rule: line_loop.induct)
  case (1 out column l)
  show ?case
  proof (subst line_loop.simps, rule moves_bind [OF moves_findCommentStart])
    fix found l1 assume f: "findCommentStart (CHR ''/'') l = Inr (found, l1)" and m: "moved l l1" "same_env l l1"
    show "moves l (if \<not> found then Inr (out, l1)
       else let (out1, column1) =
               (if lx_colno l1 \<noteq> column then ([], lx_colno l1) else (out @ [CHR 0x0A], column))
         in bindE (RestOfLine l1) (\<lambda>(s, l2). line_loop (out1 @ s) column1 l2))"
    proof (cases found)
      case False
      with m show ?thesis by (simp add: movesI)
    next
      case True
      obtain out1 column1 where oc:
        "(if lx_colno l1 \<noteq> column then ([], lx_colno l1) else (out @ [CHR 0x0A], column)) = (out1, column1)"
        by fastforce
      have "moves l (bindE (RestOfLine l1) (\<lambda>(s, l2). line_loop (out1 @ s) column1 l2))"
      proof (rule moves_trans [OF m], rule moves_bind [OF moves_RestOfLine])
        fix s l2 assume r: "RestOfLine l1 = Inr (s, l2)" "moved l1 l2" "same_env l1 l2"
        have "moves l2 (line_loop (out1 @ s) column1 l2)"
          by (rule "1.IH" [OF f refl _ oc [symmetric] refl r(1) refl]) (simp add: True)
        with r show "moves l1 (line_loop (out1 @ s) column1 l2)" by (blast intro: moves_trans)
      qed
      with True oc show ?thesis by simp
    qed
  qed
qed

lemma moves_getLineComment: "moves l (getLineComment l)"
  unfolding getLineComment_def
proof (rule moves_bind [OF moves_findCommentStart])
  fix found l1 assume "moved l l1" "same_env l l1"
  note t = moves_trans [OF this]
  show "moves l (if \<not> found then get1LineBlockComment l1
       else if lx_midline l1 then RestOfLine l1 else line_loop [] (- 1) l1)"
    by (simp add: t moves_get1 moves_RestOfLine moves_line_loop)
qed

lemma clear_moved: "moved l (clearComment l1) = moved l l1" "same_env l (clearComment l1) = same_env l l1"
  "lx_input (clearComment l) = lx_input l" "lx_midline (clearComment l) = lx_midline l"
  "moved l (l1\<lparr>lx_blockComment := c\<rparr>) = moved l l1" "same_env l (l1\<lparr>lx_blockComment := c\<rparr>) = same_env l l1"
  by (simp_all add: clearComment_def moved_def same_env_def lx_pos_def)

lemma moves_skip_block: "moves l (skip_block b l)"
proof (cases "0 \<le> str_Index (drop 2 (lx_input l)) ''*/''")
  case False
  then show ?thesis by (simp add: skip_block_def Let_def movesI clear_moved)
next
  case True
  let ?l2 = "adv (nat (str_Index (drop 2 (lx_input l)) ''*/'' + 4)) (clearComment l)"
  have j: "str_Index (drop 2 (lx_input l)) ''*/'' + 4 \<le> int (length (lx_input l))"
    using str_Index_range [of "drop 2 (lx_input l)" "''*/''"] True by auto
  have m: "moved l ?l2" "same_env l ?l2"
    using moved_trans [OF _ adv_moved, of l "clearComment l"]
      same_env_trans [OF _ adv_simps(3), of l "clearComment l"] by (simp_all add: clear_moved)
  from moves_skipWSNL [of ?l2] obtain nl l3 where
    w: "skipWSNL ?l2 = Inr (nl, l3)" "moved ?l2 l3" "same_env ?l2 l3" by (rule movesE)
  note m3 = moved_trans [OF m(1) w(2)] same_env_trans [OF m(2) w(3)]
  show ?thesis
    using True m m3 w(1) j by (auto simp: skip_block_def Let_def advance_nat clear_moved intro!: movesI)
qed

lemma moves_skipComment: "moves l (skipComment l)"
  unfolding skipComment_def Let_def
proof (rule moves_bind [OF moves_getLineComment])
  fix comment l1 assume m: "moved l l1" "same_env l l1"
  have "moves l1 (bindE (findCommentStart (CHR ''*'') l1) (\<lambda>(found, l2).
          if \<not> found then Inr (False, l2) else skip_block (lx_midline l) l2))"
    by (rule moves_bind [OF moves_findCommentStart]) (simp add: movesI moves_trans [OF _ _ moves_skip_block])
  with m show "moves l (if comment \<noteq> [] then
          Inr (True, if lx_midline l then clearComment l1 else (clearComment l1)\<lparr>lx_blockComment := comment\<rparr>)
        else bindE (findCommentStart (CHR ''*'') l1) (\<lambda>(found, l2).
          if \<not> found then Inr (False, l2) else skip_block (lx_midline l) l2))"
    by (auto simp: clear_moved intro: movesI moves_trans)
qed

end
