(* ===== verification/LexerTotal.thy ===== *)
theory LexerTotal imports LexerPos begin

text \<open>
  When the loops of the lexer end. Every round of skipSpace and next consumes input, except
  at the start of a block comment that is never closed, where skipSpace loops forever.
\<close>

section \<open>Progress\<close>

abbreviation rem :: "lexer \<Rightarrow> nat" where
  "rem l \<equiv> length (lx_input l)"

lemma advance_lt: "advance n l = Inr l' \<Longrightarrow> 0 < n \<Longrightarrow> rem l' < rem l"
  by (drule advance_input) (auto simp: diff_less)

lemma findCommentStart_at:
  assumes "findCommentStart tp l = Inr (True, l1)"
  shows "\<exists>s. lx_input l1 = CHR ''/'' # tp # s"
proof -
  let ?i = "str_IndexFunc (lx_input l) isNotWS"
  have c: "?i \<ge> 0" "int (rem l) - ?i \<ge> 2" "lx_input l ! nat ?i = CHR ''/''" "lx_input l ! nat (?i + 1) = tp"
    and a: "advance ?i l = Inr l1"
    using assms by (auto simp: findCommentStart_def Let_def bindE_eq_Inr split: if_splits)
  have i: "nat (?i + 1) = Suc (nat ?i)" using c(1) by simp
  from a c have l1: "lx_input l1 = drop (nat ?i) (lx_input l)" by (auto dest: advance_input)
  have "drop (nat ?i) (lx_input l) = lx_input l ! nat ?i # lx_input l ! Suc (nat ?i) # drop (Suc (Suc (nat ?i))) (lx_input l)"
    using c Cons_nth_drop_Suc [of "nat ?i" "lx_input l"] Cons_nth_drop_Suc [of "Suc (nat ?i)" "lx_input l"]
    by (simp add: nat_less_iff)
  then show ?thesis using c l1 i by simp
qed

lemma line_loop_progress:
  assumes "line_loop out column l = Inr (c, l')" "findCommentStart (CHR ''/'') l = Inr (True, l1)"
  shows "rem l' < rem l"
proof -
  obtain out1 column1 where oc:
    "(if lx_colno l1 \<noteq> column then ([], lx_colno l1) else (out @ [CHR 0x0A], column)) = (out1, column1)"
    by fastforce
  from assms oc obtain s l2 where r: "RestOfLine l1 = Inr (s, l2)" "line_loop (out1 @ s) column1 l2 = Inr (c, l')"
    by (subst (asm) line_loop.simps) (auto simp: bindE_eq_Inr Let_def)
  have "moved l2 l'" using moves_line_loop [of l2 "out1 @ s" column1] r(2) by (auto elim: movesE)
  moreover have "rem l2 < rem l1" by (rule RestOfLine_lt [OF r(1) findCommentStart_nonempty [OF assms(2)]])
  ultimately show ?thesis using findCommentStart_le [OF assms(2)] moved_length [of l2 l'] by linarith
qed

lemma block_at_eol_progress:
  assumes "block_at_eol l = Inr (c, l')" "c \<noteq> []"
  shows "rem l' < rem l"
proof -
  let ?j = "str_Index (drop 2 (lx_input l)) ''*/''"
  let ?n = "?j + 4 + str_IndexFunc (drop (nat (?j + 4)) (lx_input l)) isNotWS"
  from assms have a: "0 \<le> ?j" "advance (?n + isEOL (drop (nat ?n) (lx_input l))) l = Inr l'"
    by (auto simp: block_at_eol_def Let_def bindE_eq_Inr split: if_splits)
  have "0 < ?n + isEOL (drop (nat ?n) (lx_input l))"
    using a(1) isEOL_range [of "drop (nat ?n) (lx_input l)"]
      str_IndexFunc_range [of "drop (nat (?j + 4)) (lx_input l)" isNotWS] by linarith
  from advance_lt [OF a(2) this] show ?thesis .
qed

lemma getLineComment_progress:
  assumes "getLineComment l = Inr (c, l')" "c \<noteq> []"
  shows "rem l' < rem l"
proof -
  from assms(1) obtain found l1 where f: "findCommentStart (CHR ''/'') l = Inr (found, l1)"
    and r: "(if \<not> found then get1LineBlockComment l1
       else if lx_midline l1 then RestOfLine l1 else line_loop [] (- 1) l1) = Inr (c, l')"
    by (auto simp: getLineComment_def bindE_eq_Inr)
  note le = findCommentStart_le [OF f]
  show ?thesis
  proof (cases found)
    case True
    from f True have "findCommentStart (CHR ''/'') l = Inr (True, l1)" by simp
    from findCommentStart_at [OF this] obtain s where s: "lx_input l1 = CHR ''/'' # CHR ''/'' # s" by blast
    have "findCommentStart (CHR ''/'') l1 = Inr (True, adv 0 l1)"
      using s by (simp add: findCommentStart_def str_IndexFunc_def isNotWS_def advance_nat)
    with r True s have "rem l' < rem l1"
      using RestOfLine_lt [of l1 c l'] line_loop_progress [of "[]" "- 1" l1 c l'] by (auto split: if_splits)
    with le show ?thesis by linarith
  next
    case False
    with r obtain b l2 where g: "findCommentStart (CHR ''*'') l1 = Inr (b, l2)"
      "(if \<not> b then Inr ([], l2) else block_at_eol l2) = Inr (c, l')"
      by (auto simp: get1LineBlockComment_def bindE_eq_Inr)
    with assms(2) have "block_at_eol l2 = Inr (c, l')" by (cases b) auto
    from block_at_eol_progress [OF this assms(2)] findCommentStart_le [OF g(1)] le show ?thesis by linarith
  qed
qed

text \<open>Every \<open>/*\<close> is followed by a \<open>*/\<close>.\<close>

definition comments_closed :: "string \<Rightarrow> bool" where
  "comments_closed s \<longleftrightarrow>
     list_all (\<lambda>k. if take 2 (drop k s) = ''/*'' then 0 \<le> str_Index (drop (k + 2) s) ''*/'' else True)
       [0..<length s]"

lemma comments_closed_iff:
  "comments_closed s \<longleftrightarrow> (\<forall>k. take 2 (drop k s) = ''/*'' \<longrightarrow> 0 \<le> str_Index (drop (k + 2) s) ''*/'')"
proof
  assume a: "comments_closed s"
  show "\<forall>k. take 2 (drop k s) = ''/*'' \<longrightarrow> 0 \<le> str_Index (drop (k + 2) s) ''*/''"
  proof (intro allI impI)
    fix k assume k: "take 2 (drop k s) = ''/*''"
    have "k < length s"
    proof (rule ccontr)
      assume "\<not> k < length s"
      with k show False by simp
    qed
    with a k show "0 \<le> str_Index (drop (k + 2) s) ''*/''"
      unfolding comments_closed_def list_all_iff by (auto dest: bspec [where x = k])
  qed
qed (auto simp: comments_closed_def list_all_iff)

lemma comments_closed_drop: "comments_closed s \<Longrightarrow> comments_closed (drop n s)"
proof (unfold comments_closed_iff, intro allI impI)
  fix k assume a: "\<forall>k. take 2 (drop k s) = ''/*'' \<longrightarrow> 0 \<le> str_Index (drop (k + 2) s) ''*/''"
    "take 2 (drop k (drop n s)) = ''/*''"
  from a(1) [rule_format, of "n + k"] a(2) show "0 \<le> str_Index (drop (k + 2) (drop n s)) ''*/''"
    by (simp add: add.commute add.left_commute)
qed

lemma comments_closed_moved: "moved l l' \<Longrightarrow> comments_closed (lx_input l) \<Longrightarrow> comments_closed (lx_input l')"
  unfolding moved_def by (metis append_eq_conv_conj comments_closed_drop)

lemma skip_block_progress:
  assumes "skip_block b l = Inr (x, l')" "take 2 (lx_input l) = ''/*''" "comments_closed (lx_input l)"
  shows "rem l' < rem l"
proof -
  let ?j = "str_Index (drop 2 (lx_input l)) ''*/''" let ?l2 = "adv (nat (?j + 4)) (clearComment l)"
  from assms(2,3) have "0 \<le> ?j" unfolding comments_closed_iff by (metis add_0 drop_0)
  with str_Index_range [of "drop 2 (lx_input l)" "''*/''"] have j: "0 \<le> ?j" "?j + 4 \<le> int (rem l)" by auto
  have l2: "rem ?l2 < rem l" using j by (simp add: clear_moved)
  from moves_skipWSNL [of ?l2] obtain nl l3 where
    w: "skipWSNL ?l2 = Inr (nl, l3)" "moved ?l2 l3" by (rule movesE)
  have "lx_input l' = lx_input ?l2 \<or> lx_input l' = lx_input l3"
    using assms(1) j w(1) by (auto simp: skip_block_def Let_def advance_nat clear_moved bindE_eq_Inr split: if_splits)
  with l2 moved_length [OF w(2)] show ?thesis by auto
qed

lemma skipComment_progress:
  assumes "skipComment l = Inr (True, l')" "comments_closed (lx_input l)"
  shows "rem l' < rem l"
proof -
  from assms(1) obtain c l1 where g: "getLineComment l = Inr (c, l1)" and
    r: "(if c \<noteq> [] then
          Inr (True, if lx_midline l then clearComment l1 else (clearComment l1)\<lparr>lx_blockComment := c\<rparr>)
        else bindE (findCommentStart (CHR ''*'') l1) (\<lambda>(found, l2).
          if \<not> found then Inr (False, l2) else skip_block (lx_midline l) l2)) = Inr (True, l')"
    unfolding skipComment_def Let_def bindE_eq_Inr by (elim exE conjE) (simp only: split_paired_all prod.case)
  from moves_getLineComment [of l] g have m: "moved l l1" by (auto elim: movesE)
  show ?thesis
  proof (cases "c = []")
    case False
    with r have "lx_input l' = lx_input l1" by (auto simp: clear_moved)
    with getLineComment_progress [OF g False] show ?thesis by simp
  next
    case True
    with r obtain b l2 where b: "findCommentStart (CHR ''*'') l1 = Inr (b, l2)"
      "(if \<not> b then Inr (False, l2) else skip_block (lx_midline l) l2) = Inr (True, l')"
      by (auto simp: bindE_eq_Inr)
    then have f: "findCommentStart (CHR ''*'') l1 = Inr (True, l2)" "skip_block (lx_midline l) l2 = Inr (True, l')"
      by (cases b; simp)+
    from findCommentStart_at [OF f(1)] have s: "take 2 (lx_input l2) = ''/*''" by auto
    from moves_findCommentStart [of l1 "CHR ''*''"] f(1) have "moved l1 l2" by (auto elim: movesE)
    with m have m2: "moved l l2" by (rule moved_trans)
    from skip_block_progress [OF f(2) s comments_closed_moved [OF m2 assms(2)]] moved_length [OF m2]
    show ?thesis by linarith
  qed
qed

lemma skipWSNL_progress: "skipWSNL l = Inr (True, l') \<Longrightarrow> rem l' < rem l"
proof -
  assume a: "skipWSNL l = Inr (True, l')"
  then obtain b l1 where w: "skipWS l = Inr (b, l1)" "isEOL (lx_input l1) > 0"
      "advance (isEOL (lx_input l1)) l1 = Inr l'"
    by (auto simp: skipWSNL_def Let_def bindE_eq_Inr split: if_splits)
  from moves_skipWS [of l] w(1) have "moved l l1" by (auto elim: movesE)
  from moved_length [OF this] advance_lt [OF w(3,2)] show ?thesis by linarith
qed

section \<open>skipSpace and next return\<close>

lemma skipSpace_unfold:
  assumes "skipComment l = Inr (com, l1)" "skipWSNL l1 = Inr (nl, l2)"
  shows "skipSpace l = (if nl then skipSpace (clearComment l2) else if \<not> com then Some (Inr l2) else skipSpace l2)"
  by (subst skipSpace.simps) (simp add: assms)

lemma skipSpace_total:
  "comments_closed (lx_input l) \<Longrightarrow>
   \<exists>l'. skipSpace l = Some (Inr l') \<and> moved l l' \<and> same_env l l'"
proof (induction "rem l" arbitrary: l rule: less_induct)
  case less
  from moves_skipComment [of l] obtain com l1 where
    c: "skipComment l = Inr (com, l1)" "moved l l1" "same_env l l1" by (rule movesE)
  from moves_skipWSNL [of l1] obtain nl l2 where
    w: "skipWSNL l1 = Inr (nl, l2)" "moved l1 l2" "same_env l1 l2" by (rule movesE)
  note m = moved_trans [OF c(2) w(2)] same_env_trans [OF c(3) w(3)]
  note u = skipSpace_unfold [OF c(1) w(1)]
  have closed: "comments_closed (lx_input l2)" by (rule comments_closed_moved [OF m(1) less.prems])
  show ?case
  proof (cases "nl \<or> com")
    case False
    with u m show ?thesis by simp
  next
    case True
    have "rem l2 < rem l"
    proof (cases nl)
      case True
      with skipWSNL_progress [of l1 l2] w(1) moved_length [OF c(2)] show ?thesis by simp
    next
      case False
      with True skipComment_progress [of l l1] c(1) less.prems moved_length [OF w(2)] show ?thesis by simp
    qed
    then have "\<exists>l'. skipSpace (clearComment l2) = Some (Inr l') \<and> moved l2 l' \<and> same_env l2 l'"
      "\<exists>l'. skipSpace l2 = Some (Inr l') \<and> moved l2 l' \<and> same_env l2 l'"
      using less.hyps [of "clearComment l2"] less.hyps [of l2] closed
      by (auto simp: clear_moved moved_cong [of "clearComment l2" l2] same_env_def clearComment_def lx_pos_def)
    with True u show ?thesis by (auto intro: moved_trans [OF m(1)] same_env_trans [OF m(2)])
  qed
qed

lemma makeToken_spec:
  assumes "0 < n" "n \<le> int (rem l)"
  shows "\<exists>t l'. makeToken ty n l = Inr (t, l') \<and> tk_Type t = ty \<and> tk_Value t = take (nat n) (lx_input l) \<and>
    moved (adv (nat n) l) l' \<and> lx_lastTokLine l' = lx_lineno l \<and> lx_lastTokCol l' = lx_colno l \<and>
    lx_newsymbols l' = lx_newsymbols l \<and> lx_errors l' = lx_errors l \<and> lx_Failed l' = lx_Failed l"
proof -
  let ?l1 = "clearComment (l\<lparr>lx_lastTokLine := lx_lineno l, lx_lastTokCol := lx_colno l\<rparr>)"
  have i: "lx_input ?l1 = lx_input l" "lx_pos ?l1 = lx_pos l" by (simp_all add: clearComment_def lx_pos_def)
  have a: "advance n ?l1 = Inr (adv (nat n) ?l1)" using assms i by (simp add: advance_nat)
  from moves_getLineComment [of "adv (nat n) ?l1"] obtain com l3 where
    g: "getLineComment (adv (nat n) ?l1) = Inr (com, l3)" "moved (adv (nat n) ?l1) l3"
      "same_env (adv (nat n) ?l1) l3" by (rule movesE)
  have "moved (adv (nat n) l) l3"
    using g(2) i by (subst moved_cong [of "adv (nat n) ?l1"]) (simp_all add: adv_pos)
  moreover have "same_env ?l1 l3" by (rule same_env_trans [OF adv_simps(3) g(3)])
  ultimately show ?thesis
    using assms a g(1) by (auto simp: makeToken_def Let_def same_env_def clearComment_def)
qed

lemma count_from_range:
  "0 \<le> i \<Longrightarrow> i \<le> int (rem l) \<Longrightarrow> i \<le> count_from P i l \<and> count_from P i l \<le> int (rem l)"
  using length_takeWhile_le [of "\<lambda>c. P (rune c)" "drop (nat i) (lx_input l)"]
  by (auto simp: count_from_def)

lemma lx_at_in: "lx_at l i \<noteq> - 1 \<Longrightarrow> 0 \<le> i \<and> i < int (rem l)"
  by (auto simp: lx_at_def EOFRune_def split: if_splits)

lemma digit_not_EOF: "isDigit c \<Longrightarrow> c \<noteq> - 1" "isHexDigit c \<Longrightarrow> c \<noteq> - 1" "isIdStart c \<Longrightarrow> c \<noteq> - 1"
  by (auto simp: isDigit_def isHexDigit_def isIdStart_def)

text \<open>What a token adds to what makeToken does.\<close>

definition tokenized :: "lexer \<Rightarrow> token \<Rightarrow> lexer \<Rightarrow> bool" where
  "tokenized l t l' \<longleftrightarrow> tk_Value t \<noteq> [] \<and>
     (\<exists>n. tk_Value t = take n (lx_input l) \<and> 0 < n \<and> n \<le> rem l \<and> moved (adv n l) l') \<and>
     lx_lastTokLine l' = lx_lineno l \<and> lx_lastTokCol l' = lx_colno l \<and>
     lx_newsymbols l' = lx_newsymbols l \<and> lx_errors l' = lx_errors l \<and> lx_Failed l' = lx_Failed l"

lemma makeToken_tokenized:
  assumes "0 < n" "n \<le> int (rem l)"
  shows "\<exists>t l'. makeToken ty n l = Inr (t, l') \<and> tk_Type t = ty \<and> tk_Value t = take (nat n) (lx_input l) \<and>
    tokenized l t l'"
proof -
  have "0 < nat n" "nat n \<le> rem l" "take (nat n) (lx_input l) \<noteq> []" using assms by auto
  with makeToken_spec [OF assms, of ty] show ?thesis by (auto simp: tokenized_def intro!: exI [of _ "nat n"])
qed

lemma tokenized_moved: "tokenized l t l' \<Longrightarrow> moved l l' \<and> rem l' < rem l"
proof -
  assume "tokenized l t l'"
  then obtain n where n: "0 < n" "n \<le> rem l" "moved (adv n l) l'" by (auto simp: tokenized_def)
  from moved_trans [OF adv_moved n(3)] moved_length [OF n(3)] n(1,2) show ?thesis by auto
qed

section \<open>The token at the cursor\<close>

lemma lex_next_unfold:
  assumes "skipSpace l = Some (Inr l1)"
  shows "lex_next l =
    (case next_token l1 of
       Inl p \<Rightarrow> Some (Inl p)
     | Inr (Inl r) \<Rightarrow> Some (Inr r)
     | Inr (Inr l2) \<Rightarrow> lex_next l2)"
  by (subst lex_next.simps) (simp add: assms)

lemma identifier_token_spec:
  assumes "isIdStart (lx_at l 0)"
  shows "\<exists>t l'. identifier_token l = Inr (Some t, l') \<and> tk_Type t = T_ID \<and>
    tk_Value t = take (nat (count_from isIdRest 1 l)) (lx_input l) \<and> tokenized l t l'"
proof -
  have "lx_at l 0 \<noteq> - 1" by (rule digit_not_EOF(3) [OF assms])
  from lx_at_in [OF this] have "1 \<le> int (rem l)" by linarith
  from count_from_range [OF _ this, of isIdRest] makeToken_tokenized [of "count_from isIdRest 1 l" l T_ID]
  show ?thesis using assms by (auto simp: identifier_token_def)
qed

text \<open>Where the number that starts at the cursor begins and ends.\<close>

definition sign_len :: "lexer \<Rightarrow> int" where
  "sign_len l = (if lx_at l 0 = 43 \<or> lx_at l 0 = 45 then 1 else 0)"

definition number_end :: "lexer \<Rightarrow> int" where
  "number_end l =
     (let i = sign_len l in
      if lx_at l i = 48 \<and> lx_at l (i + 1) OR 0x20 = 120 \<and> isHexDigit (lx_at l (i + 2))
      then count_from isHexDigit (i + 2) l else count_from isDigit (i + 1) l)"

lemma integer_token_eq:
  "integer_token l =
     (if isDigit (lx_at l (sign_len l))
      then bindE (makeToken T_NUM (number_end l) l) (\<lambda>(t, l'). Inr (Some t, l')) else Inr (None, l))"
  by (simp add: integer_token_def sign_len_def number_end_def Let_def)

lemma number_end_range:
  assumes "isDigit (lx_at l (sign_len l))"
  shows "sign_len l < number_end l \<and> number_end l \<le> int (rem l)"
proof -
  let ?i = "sign_len l"
  have i: "0 \<le> ?i" by (simp add: sign_len_def)
  from lx_at_in [OF digit_not_EOF(1) [OF assms]] have d: "?i + 1 \<le> int (rem l)" by simp
  have h: "?i + 2 \<le> int (rem l)" if "isHexDigit (lx_at l (?i + 2))"
    using lx_at_in [OF digit_not_EOF(2) [OF that]] by simp
  show ?thesis
    using count_from_range [of "?i + 2" l isHexDigit] count_from_range [of "?i + 1" l isDigit] i d h
    by (auto simp: number_end_def Let_def)
qed

lemma integer_token_spec:
  assumes "isDigit (lx_at l (sign_len l))"
  shows "\<exists>t l'. integer_token l = Inr (Some t, l') \<and> tk_Type t = T_NUM \<and>
    tk_Value t = take (nat (number_end l)) (lx_input l) \<and> tokenized l t l'"
proof -
  have "0 < number_end l" "number_end l \<le> int (rem l)"
    using number_end_range [OF assms] by (auto simp: sign_len_def split: if_splits)
  from makeToken_tokenized [OF this, of T_NUM] assms show ?thesis by (auto simp: integer_token_eq)
qed

lemma next_token_total:
  "(\<exists>x l2. next_token l = Inr (Inl (x, l2)) \<and> moved l l2 \<and> (x = None \<or> rem l2 < rem l)) \<or>
   (\<exists>l2. next_token l = Inr (Inr l2) \<and> moved l l2 \<and> rem l2 < rem l)"
proof -
  let ?c = "lx_at l 0"
  consider (eof) "?c = EOFRune"
    | (punct) "?c \<noteq> EOFRune" "?c \<in> rune ` set punctuation"
    | (id) "?c \<noteq> EOFRune" "?c \<notin> rune ` set punctuation" "isIdStart ?c"
    | (num) "?c \<noteq> EOFRune" "?c \<notin> rune ` set punctuation" "\<not> isIdStart ?c" "isDigit ?c \<or> ?c = 43 \<or> ?c = 45"
    | (pass) "?c \<noteq> EOFRune" "?c \<notin> rune ` set punctuation" "\<not> isIdStart ?c"
        "\<not> (isDigit ?c \<or> ?c = 43 \<or> ?c = 45)" "?c = 37 \<and> lx_colno l = 0"
    | (bad) "?c \<noteq> EOFRune" "?c \<notin> rune ` set punctuation" "\<not> isIdStart ?c"
        "\<not> (isDigit ?c \<or> ?c = 43 \<or> ?c = 45)" "\<not> (?c = 37 \<and> lx_colno l = 0)"
    by blast
  then show ?thesis
  proof cases
    case eof
    then show ?thesis by (simp add: next_token_def)
  next
    case punct
    then have "1 \<le> int (rem l)" using lx_at_in [of l 0] unfolding EOFRune_def by linarith
    with makeToken_tokenized [of 1 l "T_char ?c"] punct show ?thesis
      by (auto simp: next_token_def Let_def dest: tokenized_moved)
  next
    case id
    with identifier_token_spec [OF id(3)] show ?thesis
      by (auto simp: next_token_def Let_def dest: tokenized_moved)
  next
    case num
    then have e: "next_token l = bindE (integer_token l) (\<lambda>x. Inr (Inl x))"
      by (simp only: next_token_def Let_def if_False if_True)
    show ?thesis
    proof (cases "isDigit (lx_at l (sign_len l))")
      case True
      from integer_token_spec [OF True] obtain t l' where t: "integer_token l = Inr (Some t, l')" "tokenized l t l'"
        by blast
      with tokenized_moved [OF t(2)] e show ?thesis by simp
    next
      case False
      with e show ?thesis by (simp add: integer_token_eq)
    qed
  next
    case pass
    then have "lx_input l \<noteq> []" using lx_at_in [of l 0] by (auto simp: EOFRune_def)
    then have "rem (the (Some l)) > 0" by simp
    with pass skipLine_lt [of l] show ?thesis
      by (auto simp: next_token_def Let_def skipLine_eq)
  next
    case bad
    then have "1 \<le> int (rem l)" using lx_at_in [of l 0] unfolding EOFRune_def by linarith
    with makeToken_tokenized [of 1 l T_bad] bad show ?thesis
      by (auto simp: next_token_def Let_def lex_Error_def moved_def lx_pos_def dest!: tokenized_moved)
  qed
qed

lemma lex_next_total:
  "comments_closed (lx_input l) \<Longrightarrow> \<exists>x l'. lex_next l = Some (Inr (x, l')) \<and> moved l l'"
proof (induction "rem l" arbitrary: l rule: less_induct)
  case less
  from skipSpace_total [OF less.prems] obtain l1 where s: "skipSpace l = Some (Inr l1)" "moved l l1" by blast
  note u = lex_next_unfold [OF s(1)]
  consider x l2 where "next_token l1 = Inr (Inl (x, l2))" "moved l1 l2"
    | l2 where "next_token l1 = Inr (Inr l2)" "moved l1 l2" "rem l2 < rem l1"
    using next_token_total [of l1] by blast
  then show ?case
  proof cases
    case (1 x l2)
    with u moved_trans [OF s(2)] show ?thesis by auto
  next
    case n: (2 l2)
    note m = moved_trans [OF s(2) n(2)]
    have "rem l2 < rem l" using n(3) moved_length [OF s(2)] by linarith
    from less.hyps [OF this comments_closed_moved [OF m less.prems]] obtain x l' where
      "lex_next l2 = Some (Inr (x, l'))" "moved l2 l'" by blast
    with u n(1) moved_trans [OF m] show ?thesis by auto
  qed
qed

end
