(* ===== verification/LexerCorrect.thy ===== *)
theory LexerCorrect imports LexerTotal begin

text \<open>
  The properties of the lexer: it returns, except on an unclosed block comment; what a token
  is and where; that it reads back what a printer of tokens writes; and inputs it handles
  other than its authors meant.
\<close>

section \<open>Blanks\<close>

definition blanks :: "string \<Rightarrow> bool" where
  "blanks ws \<longleftrightarrow> list_all (\<lambda>c. \<not> isNotWS c) ws"

lemma IndexFunc_blanks:
  "blanks ws \<Longrightarrow> isNotWS c \<Longrightarrow> str_IndexFunc (ws @ c # s) isNotWS = int (length ws)"
  "blanks ws \<Longrightarrow> str_IndexFunc ws isNotWS = - 1"
proof -
  assume b: "blanks ws"
  then have tw: "takeWhile (\<lambda>c. \<not> isNotWS c) ws = ws"
    by (simp add: blanks_def list_all_iff takeWhile_eq_all_conv)
  show "str_IndexFunc ws isNotWS = - 1"
    by (simp only: str_IndexFunc_def tw Let_def less_irrefl if_False)
  show "isNotWS c \<Longrightarrow> str_IndexFunc (ws @ c # s) isNotWS = int (length ws)"
    using b by (simp add: str_IndexFunc_def blanks_def list_all_iff takeWhile_append2)
qed

lemma adv_0 [simp]: "adv 0 l = l"
  by (simp add: adv_def)

lemma findCommentStart_yes:
  "lx_input l = ws @ CHR ''/'' # tp # s \<Longrightarrow> blanks ws \<Longrightarrow>
   findCommentStart tp l = Inr (True, adv (length ws) l)"
  by (simp add: findCommentStart_def IndexFunc_blanks(1) isNotWS_def nth_append advance_eq nat_add_distrib)

lemma findCommentStart_no:
  "lx_input l = ws @ c # s \<Longrightarrow> blanks ws \<Longrightarrow> isNotWS c \<Longrightarrow> c \<noteq> CHR ''/'' \<or> s = [] \<or> hd s \<noteq> tp \<Longrightarrow>
   findCommentStart tp l = Inr (False, l)"
  "lx_input l = ws \<Longrightarrow> blanks ws \<Longrightarrow> findCommentStart tp l = Inr (False, l)"
  by (cases s; auto simp: findCommentStart_def IndexFunc_blanks nth_append nat_add_distrib Let_def)
    (simp add: findCommentStart_def IndexFunc_blanks)

text \<open>The first character after blanks starts no comment.\<close>

definition no_comment :: "string \<Rightarrow> bool" where
  "no_comment s \<longleftrightarrow> blanks s \<or> (\<exists>ws c r. s = ws @ c # r \<and> blanks ws \<and> isNotWS c \<and>
     (c \<noteq> CHR ''/'' \<or> r = [] \<or> hd r \<noteq> CHR ''/'' \<and> hd r \<noteq> CHR ''*''))"

lemma no_comment_start:
  assumes "no_comment (lx_input l)" "tp = CHR ''/'' \<or> tp = CHR ''*''"
  shows "findCommentStart tp l = Inr (False, l)"
  using assms findCommentStart_no by (auto simp: no_comment_def)

lemma getLineComment_none: "no_comment (lx_input l) \<Longrightarrow> getLineComment l = Inr ([], l)"
  by (simp add: getLineComment_def get1LineBlockComment_def no_comment_start)

lemma skipComment_none: "no_comment (lx_input l) \<Longrightarrow> skipComment l = Inr (False, l)"
  by (simp add: skipComment_def getLineComment_none no_comment_start Let_def)

lemma skipWS_eq:
  "lx_input l = ws @ c # s \<Longrightarrow> blanks ws \<Longrightarrow> isNotWS c \<Longrightarrow> skipWS l = Inr (ws \<noteq> [], adv (length ws) l)"
  "blanks (lx_input l) \<Longrightarrow> skipWS l = Inr (False, l)"
  by (simp_all add: skipWS_def IndexFunc_blanks advance_eq)

lemma skipWSNL_newline:
  "lx_input l = ws @ CHR 0x0A # s \<Longrightarrow> blanks ws \<Longrightarrow> skipWSNL l = Inr (True, adv 1 (adv (length ws) l))"
  using advance_eq [of 1 "adv (length ws) l"]
  by (simp add: skipWSNL_def skipWS_eq isNotWS_def isEOL_def)

lemma skipWSNL_stop:
  "lx_input l = ws @ c # s \<Longrightarrow> blanks ws \<Longrightarrow> isNotWS c \<Longrightarrow> c \<noteq> CHR 0x0A \<Longrightarrow> c \<noteq> CHR 0x0D \<Longrightarrow>
   skipWSNL l = Inr (False, adv (length ws) l)"
  by (simp add: skipWSNL_def skipWS_eq isEOL_def)

lemma blanks_no_eol: "blanks s \<Longrightarrow> isEOL s = 0"
  by (cases s) (auto simp: isEOL_def blanks_def isNotWS_def)

lemma skipWSNL_blanks: "blanks (lx_input l) \<Longrightarrow> skipWSNL l = Inr (False, l)"
  by (simp add: skipWSNL_def skipWS_eq blanks_no_eol)

section \<open>Unclosed comments\<close>

definition unclosed :: "lexer \<Rightarrow> bool" where
  "unclosed l \<longleftrightarrow> (\<exists>ws s. lx_input l = ws @ ''/*'' @ s \<and> blanks ws \<and> str_Index s ''*/'' < 0)"

lemma unclosed_round:
  assumes "unclosed l"
  shows "\<exists>l1. skipComment l = Inr (True, l1) \<and> skipWSNL l1 = Inr (False, l1) \<and> unclosed l1"
proof -
  from assms obtain ws s where u: "lx_input l = ws @ CHR ''/'' # CHR ''*'' # s" "blanks ws" "str_Index s ''*/'' < 0"
    by (auto simp: unclosed_def)
  let ?l1 = "adv (length ws) l"
  have i: "lx_input ?l1 = [] @ CHR ''/'' # CHR ''*'' # s" using u(1) by simp
  have b: "blanks []" by (simp add: blanks_def)
  have "findCommentStart (CHR ''/'') l = Inr (False, l)"
    by (rule findCommentStart_no(1) [OF u(1,2)]) (simp_all add: isNotWS_def)
  then have "getLineComment l = Inr ([], ?l1)"
    using findCommentStart_yes [OF u(1,2)] i u(3)
    by (simp add: getLineComment_def get1LineBlockComment_def block_at_eol_def)
  then have c: "skipComment l = Inr (True, clearComment ?l1)"
    using findCommentStart_yes [OF i b] i u(3) by (simp add: skipComment_def skip_block_def clear_moved)
  have ic: "lx_input (clearComment ?l1) = [] @ CHR ''/'' # CHR ''*'' # s" using i by (simp add: clear_moved)
  have "skipWSNL (clearComment ?l1) = Inr (False, clearComment ?l1)"
    using skipWSNL_stop [OF ic b] by (simp add: isNotWS_def)
  moreover have "unclosed (clearComment ?l1)"
    unfolding unclosed_def using ic u(3) b by (intro exI [of _ "[]"] exI [of _ s]) simp
  ultimately show ?thesis using c by blast
qed

lemma skipSpace_hangs:
  assumes "unclosed l"
  shows "skipSpace l = None"
proof -
  have "\<not> unclosed l" if "skipSpace l = Some r" for l r
  proof (rule skipSpace.raw_induct [of "\<lambda>l r. \<not> unclosed l" l r])
    show "\<not> unclosed w"
      if ih: "\<And>x y. f x = Some y \<Longrightarrow> \<not> unclosed x"
        and eq: "(case skipComment w of Inl p \<Rightarrow> Some (Inl p)
          | Inr (com, l1) \<Rightarrow> (case skipWSNL l1 of Inl p \<Rightarrow> Some (Inl p)
            | Inr (nl, l2) \<Rightarrow> if nl then f (clearComment l2) else if \<not> com then Some (Inr l2) else f l2)) = Some z"
      for f w z
    proof
      assume "unclosed w"
      from unclosed_round [OF this] obtain l1 where
        "skipComment w = Inr (True, l1)" "skipWSNL l1 = Inr (False, l1)" "unclosed l1" by blast
      with eq ih [of l1 z] show False by simp
    qed
  qed (use that in simp)
  with assms show ?thesis by (metis not_None_eq)
qed

lemma lex_next_hangs: "unclosed l \<Longrightarrow> lex_next l = None"
  by (subst lex_next.simps) (simp add: skipSpace_hangs)

section \<open>What a token is\<close>

definition stops :: "(int \<Rightarrow> bool) \<Rightarrow> string \<Rightarrow> bool" where
  "stops P s \<longleftrightarrow> s = [] \<or> \<not> P (rune (hd s))"

definition runes :: "(int \<Rightarrow> bool) \<Rightarrow> string \<Rightarrow> bool" where
  "runes P s \<longleftrightarrow> list_all (\<lambda>c. P (rune c)) s"

text \<open>A number: digits, or hexadecimal digits after 0x, as far as they go.\<close>

definition number_shape :: "string \<Rightarrow> string \<Rightarrow> bool" where
  "number_shape v rest \<longleftrightarrow>
     (\<exists>sg body. v = sg @ body \<and> sg \<in> {[], ''+'', ''-''} \<and>
       ((\<exists>x hs. body = CHR ''0'' # x # hs \<and> rune x OR 0x20 = 120 \<and> hs \<noteq> [] \<and> runes isHexDigit hs \<and>
           stops isHexDigit rest) \<or>
        (body \<noteq> [] \<and> runes isDigit body \<and> stops isDigit rest)))"

definition word_type :: "string \<Rightarrow> token_type" where
  "word_type v = (case map_of keyword_map v of Some kw \<Rightarrow> kw | None \<Rightarrow> T_ID)"

definition word_shape :: "string \<Rightarrow> string \<Rightarrow> bool" where
  "word_shape v rest \<longleftrightarrow> v \<noteq> [] \<and> isIdStart (rune (hd v)) \<and> runes isIdRest (tl v) \<and> stops isIdRest rest"

definition token_shape :: "token_type \<Rightarrow> string \<Rightarrow> string \<Rightarrow> bool" where
  "token_shape ty v rest \<longleftrightarrow>
     (\<exists>c. ty = T_char (rune c) \<and> v = [c] \<and> c \<in> set punctuation) \<or>
     (ty = T_NUM \<and> number_shape v rest) \<or>
     (ty = word_type v \<and> word_shape v rest)"

lemma count_from_split:
  assumes "lx_input l = u @ s"
  shows "take (nat (count_from P (int (length u)) l)) (lx_input l) = u @ takeWhile (\<lambda>c. P (rune c)) s"
    and "drop (nat (count_from P (int (length u)) l)) (lx_input l) = dropWhile (\<lambda>c. P (rune c)) s"
  using assms takeWhile_dropWhile_id [of "\<lambda>c. P (rune c)" s]
  by (simp_all add: count_from_def nat_add_distrib takeWhile_eq_take [symmetric] dropWhile_eq_drop [symmetric])

lemma stops_dropWhile: "stops P (dropWhile (\<lambda>c. P (rune c)) s)"
  by (metis hd_dropWhile stops_def)

lemma runes_takeWhile: "runes P (takeWhile (\<lambda>c. P (rune c)) s)"
  by (auto simp: runes_def list_all_iff dest: set_takeWhileD)

lemma lx_at_0: "lx_at l 0 = (case lx_input l of [] \<Rightarrow> - 1 | c # s \<Rightarrow> rune c)"
  by (simp add: lx_at_def EOFRune_def split: list.splits)

lemma lx_at_append: "lx_input l = u @ s \<Longrightarrow> lx_at l (int (length u)) = (case s of [] \<Rightarrow> - 1 | c # r \<Rightarrow> rune c)"
  by (simp add: lx_at_def EOFRune_def split: list.splits)

lemma identifier_shape:
  assumes "identifier_token l = Inr (Some t, l')"
  shows "tokenized l t l' \<and> tk_Type t = T_ID \<and>
    (\<exists>rest. lx_input l = tk_Value t @ rest \<and> word_shape (tk_Value t) rest)"
proof -
  have i: "isIdStart (lx_at l 0)" using assms by (auto simp: identifier_token_def split: if_splits)
  then obtain c s where s: "lx_input l = [c] @ s" "isIdStart (rune c)"
    by (cases "lx_input l") (auto simp: lx_at_0 isIdStart_def)
  note cs = count_from_split [OF s(1), of isIdRest]
  from identifier_token_spec [OF i] assms have t: "tk_Type t = T_ID" "tokenized l t l'"
    "tk_Value t = take (nat (count_from isIdRest 1 l)) (lx_input l)" by auto
  moreover have "lx_input l = tk_Value t @ dropWhile (\<lambda>c. isIdRest (rune c)) s"
    using cs t(3) s(1) by simp
  moreover have "word_shape (tk_Value t) (dropWhile (\<lambda>c. isIdRest (rune c)) s)"
    using cs t(3) s by (simp add: word_shape_def stops_dropWhile runes_takeWhile)
  ultimately show ?thesis by blast
qed

lemma number_end_shape:
  assumes "lx_input l = sg @ c # s" "int (length sg) = sign_len l" "isDigit (rune c)"
  shows "\<exists>body rest. take (nat (number_end l)) (lx_input l) = sg @ body \<and> lx_input l = sg @ body @ rest \<and>
    ((\<exists>x hs. body = CHR ''0'' # x # hs \<and> rune x OR 0x20 = 120 \<and> hs \<noteq> [] \<and> runes isHexDigit hs \<and>
        stops isHexDigit rest) \<or>
     (body \<noteq> [] \<and> runes isDigit body \<and> stops isDigit rest))"
proof (cases "lx_at l (sign_len l) = 48 \<and> lx_at l (sign_len l + 1) OR 0x20 = 120 \<and> isHexDigit (lx_at l (sign_len l + 2))")
  case True
  have c0: "rune c = 48"
    using lx_at_append [of l sg "c # s"] assms(1,2) True by simp
  have c: "c = CHR ''0''"
  proof (rule injD [OF inj_of_char [where ?'a = int]])
    show "(of_char c :: int) = of_char (CHR ''0'')" using c0 by (simp add: rune_def)
  qed
  from lx_at_append [of l "sg @ [c]" s] assms(1,2) True obtain x s1 where
    x: "s = x # s1" "rune x OR 0x20 = 120" by (cases s) (auto simp: add.commute)
  from lx_at_append [of l "sg @ [c, x]" s1] assms(1,2) True x have
    h: "isHexDigit (case s1 of [] \<Rightarrow> - 1 | h # hs \<Rightarrow> rune h)" by (simp add: add.commute)
  then obtain h hs where s1: "s1 = h # hs" "isHexDigit (rune h)"
    by (cases s1) (auto simp: isHexDigit_def isDigit_def)
  have "number_end l = count_from isHexDigit (int (length (sg @ [c, x]))) l"
    using True assms(2) by (simp add: number_end_def Let_def add.commute)
  then have e: "take (nat (number_end l)) (lx_input l) = sg @ c # x # takeWhile (\<lambda>c. isHexDigit (rune c)) s1"
    using count_from_split(1) [of l "sg @ [c, x]" s1 isHexDigit] assms(1) x(1) by simp
  show ?thesis
    by (rule exI [of _ "c # x # takeWhile (\<lambda>c. isHexDigit (rune c)) s1"],
        rule exI [of _ "dropWhile (\<lambda>c. isHexDigit (rune c)) s1"])
      (use assms(1) x s1 c e runes_takeWhile [of isHexDigit "h # hs"] stops_dropWhile [of isHexDigit "h # hs"] in simp)
next
  case False
  then have "number_end l = count_from isDigit (int (length (sg @ [c]))) l"
    using assms(2) by (auto simp: number_end_def Let_def add.commute)
  then have e: "take (nat (number_end l)) (lx_input l) = sg @ c # takeWhile (\<lambda>c. isDigit (rune c)) s"
    using count_from_split(1) [of l "sg @ [c]" s isDigit] assms(1) by simp
  show ?thesis
    by (rule exI [of _ "c # takeWhile (\<lambda>c. isDigit (rune c)) s"],
        rule exI [of _ "dropWhile (\<lambda>c. isDigit (rune c)) s"])
      (use assms(1,3) e runes_takeWhile [of isDigit s] stops_dropWhile [of isDigit s] in \<open>simp add: runes_def\<close>)
qed

lemma integer_shape:
  assumes "integer_token l = Inr (Some t, l')"
  shows "tokenized l t l' \<and> tk_Type t = T_NUM \<and>
    (\<exists>rest. lx_input l = tk_Value t @ rest \<and> number_shape (tk_Value t) rest)"
proof -
  have d: "isDigit (lx_at l (sign_len l))" using assms by (auto simp: integer_token_eq split: if_splits)
  from integer_token_spec [OF d] assms have t: "tk_Type t = T_NUM" "tokenized l t l'"
    "tk_Value t = take (nat (number_end l)) (lx_input l)" by auto
  obtain sg c s where s: "lx_input l = sg @ c # s" "int (length sg) = sign_len l" "sg \<in> {[], ''+'', ''-''}"
  proof (cases "sign_len l = 0")
    case True
    with d obtain c s where "lx_input l = c # s" by (cases "lx_input l") (auto simp: lx_at_0 isDigit_def)
    with that [of "[]" c s] True show ?thesis by simp
  next
    case False
    then have o: "sign_len l = 1" "lx_at l 0 = 43 \<or> lx_at l 0 = 45" by (auto simp: sign_len_def split: if_splits)
    then obtain a r where a: "lx_input l = a # r" "rune a = 43 \<or> rune a = 45"
      by (cases "lx_input l") (auto simp: lx_at_0)
    have "rune a = rune (CHR ''+'') \<or> rune a = rune (CHR ''-'')" using a(2) by (simp add: rune_def)
    then have ac: "a = CHR ''+'' \<or> a = CHR ''-''"
      unfolding rune_def using injD [OF inj_of_char [where ?'a = int]] by blast
    from lx_at_append [of l "[a]" r] a(1) d o(1) obtain c s where "r = c # s"
      by (cases r) (auto simp: isDigit_def)
    with that [of "[a]" c s] a(1) ac o(1) show ?thesis by auto
  qed
  have "isDigit (rune c)" using d lx_at_append [of l sg "c # s"] s by simp
  from number_end_shape [OF s(1,2) this] obtain body rest where b:
    "take (nat (number_end l)) (lx_input l) = sg @ body" "lx_input l = sg @ body @ rest"
    "(\<exists>x hs. body = CHR ''0'' # x # hs \<and> rune x OR 0x20 = 120 \<and> hs \<noteq> [] \<and> runes isHexDigit hs \<and>
        stops isHexDigit rest) \<or> (body \<noteq> [] \<and> runes isDigit body \<and> stops isDigit rest)" by blast
  then have "number_shape (tk_Value t) rest" 
    unfolding number_shape_def t(3) using s(3)
    by (intro exI [of _ sg] exI [of _ body] conjI)
  with t b(1,2) show ?thesis by (simp only: append_assoc simp_thms) blast
qed

lemma next_token_shape:
  assumes "next_token l = Inr (Inl (Some t, l'))"
  shows "tokenized l t l' \<and> (\<exists>rest. lx_input l = tk_Value t @ rest \<and> token_shape (tk_Type t) (tk_Value t) rest)"
proof -
  let ?c = "lx_at l 0"
  have ne: "?c \<noteq> EOFRune" using assms by (auto simp: next_token_def)
  consider (punct) "?c \<in> rune ` set punctuation"
    | (id) "?c \<notin> rune ` set punctuation" "isIdStart ?c"
    | (num) "?c \<notin> rune ` set punctuation" "\<not> isIdStart ?c" "isDigit ?c \<or> ?c = 43 \<or> ?c = 45"
    using assms ne by (auto simp: next_token_def Let_def bindE_eq_Inr split: if_splits)
  then show ?thesis
  proof cases
    case punct
    from ne obtain c s where s: "lx_input l = c # s" by (cases "lx_input l") (auto simp: lx_at_0 EOFRune_def)
    with punct have "rune c \<in> rune ` set punctuation" by (simp add: lx_at_0)
    then have cp: "c \<in> set punctuation"
      unfolding rune_def using injD [OF inj_of_char [where ?'a = int]] by blast
    have "1 \<le> int (rem l)" using s by simp
    with makeToken_tokenized [of 1 l "T_char ?c"] obtain t2 l2 where
      m: "makeToken (T_char ?c) 1 l = Inr (t2, l2)" "tk_Type t2 = T_char ?c"
        "tk_Value t2 = take (nat 1) (lx_input l)" "tokenized l t2 l2" by auto
    have "next_token l = Inr (Inl (Some t2, l2))"
      using punct ne m(1) by (simp only: next_token_def Let_def if_True if_False bindE_Inr prod.case)
    with assms have "t2 = t" "l2 = l'" by simp_all
    moreover have "token_shape (tk_Type t2) (tk_Value t2) s"
      unfolding token_shape_def using m(2,3) s cp by (simp add: lx_at_0)
    ultimately show ?thesis using m s by auto
  next
    case id
    with assms ne obtain x l2 where x: "identifier_token l = Inr (x, l2)" "l' = l2"
      "Some t = map_option (\<lambda>t. case map_of keyword_map (tk_Value t) of
         Some kw \<Rightarrow> t\<lparr>tk_Type := kw\<rparr> | None \<Rightarrow> t) x"
      by (auto simp: next_token_def Let_def bindE_eq_Inr simp del: map_option_eq_Some)
    then obtain t0 where t0: "x = Some t0" by (cases x) auto
    from identifier_shape [of l t0 l2] x(1) t0 obtain rest where
      i: "tokenized l t0 l2" "tk_Type t0 = T_ID" "lx_input l = tk_Value t0 @ rest" "word_shape (tk_Value t0) rest"
      by blast
    have v: "tk_Value t = tk_Value t0" "tk_Type t = word_type (tk_Value t0)"
      using x(3) t0 i(2) by (auto simp: word_type_def split: option.splits)
    with i x(2) show ?thesis by (auto simp: tokenized_def token_shape_def)
  next
    case num
    then have "next_token l = bindE (integer_token l) (\<lambda>x. Inr (Inl x))"
      using ne by (simp only: next_token_def Let_def if_False if_True)
    with assms have "integer_token l = Inr (Some t, l')" by (auto simp: bindE_eq_Inr)
    from integer_shape [OF this] show ?thesis by (auto simp: token_shape_def)
  qed
qed

lemma skipSpace_moved:
  assumes "skipSpace l = Some (Inr l')"
  shows "moved l l'"
proof -
  have "\<forall>l'. r = Inr l' \<longrightarrow> moved l l'" if "skipSpace l = Some r" for r
  proof (rule skipSpace.raw_induct [of "\<lambda>l r. \<forall>l'. r = Inr l' \<longrightarrow> moved l l'" l r])
    show "\<forall>l'. z = Inr l' \<longrightarrow> moved w l'"
      if ih: "\<And>x y. f x = Some y \<Longrightarrow> \<forall>l'. y = Inr l' \<longrightarrow> moved x l'"
        and eq: "(case skipComment w of Inl p \<Rightarrow> Some (Inl p)
          | Inr (com, l1) \<Rightarrow> (case skipWSNL l1 of Inl p \<Rightarrow> Some (Inl p)
            | Inr (nl, l2) \<Rightarrow> if nl then f (clearComment l2) else if \<not> com then Some (Inr l2) else f l2)) = Some z"
      for f w z
    proof (intro allI impI)
      fix l' assume z: "z = Inr l'"
      from moves_skipComment [of w] obtain com l1 where c: "skipComment w = Inr (com, l1)" "moved w l1" by (rule movesE)
      from moves_skipWSNL [of l1] obtain nl l2 where w: "skipWSNL l1 = Inr (nl, l2)" "moved l1 l2" by (rule movesE)
      note m = moved_trans [OF c(2) w(2)]
      have "moved (clearComment l2) l' = moved l2 l'" by (simp add: moved_def clearComment_def lx_pos_def)
      with eq z ih [of "clearComment l2" z] ih [of l2 z] c(1) w(1) m show "moved w l'"
        by (auto split: if_splits intro: moved_trans)
    qed
  qed (use that in simp)
  with assms show ?thesis by blast
qed

lemma next_token_more: "next_token l = Inr (Inr l2) \<Longrightarrow> moved l l2"
  using next_token_total [of l] by auto

lemma lex_next_token:
  assumes "lex_next l = Some (Inr (Some t, l'))"
  shows "\<exists>l1. moved l l1 \<and> tokenized l1 t l' \<and>
    (\<exists>rest. lx_input l1 = tk_Value t @ rest \<and> token_shape (tk_Type t) (tk_Value t) rest)"
proof -
  let ?P = "\<lambda>l r. \<forall>t l'. r = Inr (Some t, l') \<longrightarrow> (\<exists>l1. moved l l1 \<and> tokenized l1 t l' \<and>
    (\<exists>rest. lx_input l1 = tk_Value t @ rest \<and> token_shape (tk_Type t) (tk_Value t) rest))"
  have "?P l r" if "lex_next l = Some r" for r
  proof (rule lex_next.raw_induct [of ?P l r])
    show "?P w z"
      if ih: "\<And>x y. f x = Some y \<Longrightarrow> ?P x y"
        and eq: "(case skipSpace w of None \<Rightarrow> None | Some (Inl p) \<Rightarrow> Some (Inl p)
          | Some (Inr l1) \<Rightarrow> (case next_token l1 of Inl p \<Rightarrow> Some (Inl p) | Inr (Inl r) \<Rightarrow> Some (Inr r)
            | Inr (Inr l2) \<Rightarrow> f l2)) = Some z"
      for f w z
    proof (intro allI impI)
      fix t l' assume z: "z = Inr (Some t, l')"
      with eq obtain l1 where s: "skipSpace w = Some (Inr l1)"
        "(case next_token l1 of Inl p \<Rightarrow> Some (Inl p) | Inr (Inl r) \<Rightarrow> Some (Inr r) | Inr (Inr l2) \<Rightarrow> f l2) =
          Some (Inr (Some t, l'))"
        by (auto split: option.splits sum.splits)
      note m = skipSpace_moved [OF s(1)]
      consider "next_token l1 = Inr (Inl (Some t, l'))" | l2 where "next_token l1 = Inr (Inr l2)" "f l2 = Some (Inr (Some t, l'))"
        using s(2) by (auto split: sum.splits)
      then show "\<exists>l1. moved w l1 \<and> tokenized l1 t l' \<and>
          (\<exists>rest. lx_input l1 = tk_Value t @ rest \<and> token_shape (tk_Type t) (tk_Value t) rest)"
      proof cases
        case 1
        from next_token_shape [OF 1] m show ?thesis by blast
      next
        case (2 l2)
        from moved_trans [OF m next_token_more [OF 2(1)]] ih [OF 2(2)] show ?thesis
          by (blast intro: moved_trans)
      qed
    qed
  qed (use that in simp)
  with assms show ?thesis by blast
qed

section \<open>Where a token is\<close>

text \<open>Lines counted from 1; columns from 0, a tab going to the next multiple of 8.\<close>

definition last_line :: "string \<Rightarrow> string" where
  "last_line pre = rev (takeWhile (\<lambda>c. c \<noteq> CHR 0x0A) (rev pre))"

definition line_of :: "string \<Rightarrow> int" where
  "line_of pre = 1 + int (length (filter (\<lambda>c. c = CHR 0x0A) pre))"

definition col_of :: "string \<Rightarrow> int" where
  "col_of pre = fold (\<lambda>c n. if c = CHR 0x09 then (n div 8 + 1) * 8 else n + 1) (last_line pre) 0"

definition mid_of :: "string \<Rightarrow> bool" where
  "mid_of pre \<longleftrightarrow> list_ex isNotWS (last_line pre)"

lemma tab_stop: "(n :: int) + (8 - n mod 8) = (n div 8 + 1) * 8"
  using div_mult_mod_eq [of n 8] by (simp add: algebra_simps)

lemma pos_of: "fold pos_char pre (1, 0, False) = (line_of pre, col_of pre, mid_of pre)"
proof (induction pre rule: rev_induct)
  case Nil
  show ?case by (simp add: line_of_def col_of_def mid_of_def last_line_def)
next
  case (snoc c pre)
  show ?case
  proof (cases "c = CHR 0x0A")
    case True
    with snoc show ?thesis by (simp add: line_of_def col_of_def mid_of_def last_line_def)
  next
    case False
    then have l: "last_line (pre @ [c]) = last_line pre @ [c]" by (simp add: last_line_def)
    have c: "col_of (pre @ [c]) = (if c = CHR 0x09 then (col_of pre div 8 + 1) * 8 else col_of pre + 1)"
      by (simp add: col_of_def l)
    have m: "mid_of (pre @ [c]) \<longleftrightarrow> mid_of pre \<or> isNotWS c" by (simp add: mid_of_def l)
    have n: "line_of (pre @ [c]) = line_of pre" using False by (simp add: line_of_def)
    show ?thesis using False snoc by (simp add: c m n tab_stop isNotWS_def)
  qed
qed

lemma moved_pos:
  assumes "moved (NewLexer inp) l"
  shows "\<exists>pre. inp = pre @ lx_input l \<and> lx_lineno l = line_of pre \<and> lx_colno l = col_of pre \<and>
    lx_midline l = mid_of pre"
proof -
  from assms obtain pre where p: "inp = pre @ lx_input l" "lx_pos l = fold pos_char pre (lx_pos (NewLexer inp))"
    by (auto simp: moved_def NewLexer_def)
  have "lx_pos (NewLexer inp) = (1, 0, False)" by (simp add: lx_pos_def NewLexer_def)
  with p(2) have "lx_pos l = (line_of pre, col_of pre, mid_of pre)" by (simp only: pos_of)
  with p(1) show ?thesis by (auto simp: lx_pos_def)
qed

section \<open>Properties\<close>


definition ex_enum_tok :: token where
  "ex_enum_tok = \<lparr>tk_Type = T_ENUM, tk_Value = ''enum'', tk_BlockComment = [], tk_LineComment = []\<rparr>"

definition ex_enum_end :: lexer where
  "ex_enum_end = \<lparr>lx_input = [], lx_lineno = 1, lx_colno = 14, lx_lastTokLine = 1, lx_lastTokCol = 10,
     lx_midline = True, lx_blockComment = [], lx_newsymbols = {}, lx_errors = [], lx_Failed = False\<rparr>"

lemma ex_Lex: "Lex (NewLexer ''  /* a */ enum'') = Some (Inr (Some (T_ENUM, ex_enum_tok), ex_enum_end))"
  by code_simp


text \<open>
  C25. Lex returns, without a panic, on every input in which each start of a comment has an
  end after it.
\<close>

theorem Lex_returns:
  assumes "comments_closed (lx_input l)"
  shows "\<exists>x l'. Lex l = Some (Inr (x, l')) \<and> moved l l' \<and> comments_closed (lx_input l')"
proof -
  from lex_next_total [OF assms] obtain x l' where "lex_next l = Some (Inr (x, l'))" "moved l l'" by blast
  with comments_closed_moved assms show ?thesis by (auto simp: Lex_def)
qed

theorem Lex_returns_witness:
  "\<exists>x l'. Lex (NewLexer ''const /* c */ x = 1; // y'') = Some (Inr (x, l')) \<and>
    moved (NewLexer ''const /* c */ x = 1; // y'') l' \<and> comments_closed (lx_input l')"
  by (rule Lex_returns) code_simp

text \<open>
  Lex never returns at a block comment that is not closed: skipSpace loops on it
  without moving.
\<close>

lemma unclosed_comment_hangs:
  assumes "lx_input l = ws @ ''/*'' @ s" and "blanks ws" and "str_Index s ''*/'' < 0"
  shows "skipSpace l = None \<and> Lex l = None"
proof -
  have "unclosed l" using assms by (auto simp: unclosed_def)
  then show ?thesis by (simp add: skipSpace_hangs lex_next_hangs Lex_def)
qed

lemma unclosed_comment_hangs_witness:
  "skipSpace (NewLexer ''  /* const'') = None \<and> Lex (NewLexer ''  /* const'') = None"
  by (rule unclosed_comment_hangs [of _ "''  ''" "'' const''"]) (code_simp+)

section \<open>Text after the last token\<close>

lemma makeToken_plain:
  assumes "0 < n" "n \<le> int (rem l)" "no_comment (drop (nat n) (lx_input l))"
  shows "\<exists>l'. makeToken ty n l = Inr (\<lparr>tk_Type = ty, tk_Value = take (nat n) (lx_input l),
      tk_BlockComment = lx_blockComment l, tk_LineComment = []\<rparr>, l') \<and>
    lx_input l' = drop (nat n) (lx_input l) \<and> lx_errors l' = lx_errors l \<and> lx_Failed l' = lx_Failed l \<and>
    lx_blockComment l' = [] \<and> moved l l'"
proof -
  let ?l1 = "clearComment (l\<lparr>lx_lastTokLine := lx_lineno l, lx_lastTokCol := lx_colno l\<rparr>)"
  let ?l2 = "adv (nat n) ?l1"
  have i: "lx_input ?l1 = lx_input l" "lx_pos ?l1 = lx_pos l" "lx_blockComment ?l1 = []"
    by (simp_all add: clearComment_def lx_pos_def)
  have a: "advance n ?l1 = Inr ?l2" using assms i by (simp add: advance_nat)
  have g: "getLineComment ?l2 = Inr ([], ?l2)" by (rule getLineComment_none) (simp add: i assms(3))
  have e: "same_env ?l1 ?l2" by simp
  have m: "moved l ?l2" using adv_moved [of ?l1 "nat n"] i by (subst moved_cong [of ?l1]) simp_all
  have "makeToken ty n l = Inr (\<lparr>tk_Type = ty, tk_Value = take (nat n) (lx_input l),
      tk_BlockComment = lx_blockComment l, tk_LineComment = []\<rparr>, ?l2)"
    using assms a g by (simp add: makeToken_def)
  then show ?thesis
    using e i m by (intro exI [of _ ?l2]) (simp add: same_env_def clearComment_def)
qed

text \<open>A character that begins no token is reported and dropped.\<close>

definition no_token :: "char \<Rightarrow> bool" where
  "no_token c \<longleftrightarrow> rune c \<notin> rune ` set punctuation \<and> \<not> isIdStart (rune c) \<and> \<not> isDigit (rune c) \<and>
     rune c \<notin> {43, 45, 37}"

lemma rune_nonneg: "rune c \<noteq> - 1"
proof -
  have "rune c = int (of_char c)" by (simp only: rune_def of_nat_of_char)
  then show ?thesis by linarith
qed

lemma bad_character:
  assumes "lx_input l = c # s" "no_token c" "no_comment s"
  shows "\<exists>l'. next_token l = Inr (Inr l') \<and> lx_input l' = s \<and>
    lx_errors l' = lx_errors l @ [(lx_lineno l, lx_colno l + 1, BadCharacter (rune c))] \<and> lx_Failed l'"
proof -
  have n: "0 < (1 :: int)" "1 \<le> int (rem l)" "no_comment (drop (nat 1) (lx_input l))" using assms by simp_all
  from makeToken_plain [OF n, of T_bad] obtain t l2 where
    m: "makeToken T_bad 1 l = Inr (t, l2)" "lx_input l2 = s" "lx_errors l2 = lx_errors l"
    using assms(1) by auto
  from makeToken_spec [OF n(1,2), of T_bad] m(1) have
    p: "lx_lastTokLine l2 = lx_lineno l" "lx_lastTokCol l2 = lx_colno l" by auto
  have "next_token l = Inr (Inr (lex_Error (BadCharacter (rune c)) l2))"
    using assms(1,2) m(1) rune_nonneg [of c] by (simp add: next_token_def lx_at_0 EOFRune_def no_token_def)
  with m p show ?thesis by (simp add: lex_Error_def)
qed

lemma blank_no_token: "\<not> isNotWS c \<Longrightarrow> no_token c" "no_token (CHR ''/'')"
  by (auto simp: isNotWS_def no_token_def rune_def isIdStart_def isDigit_def punctuation_def)

lemma lex_blanks:
  "blanks (lx_input l) \<Longrightarrow> \<exists>l' es. lex_next l = Some (Inr (None, l')) \<and> lx_errors l' = lx_errors l @ es \<and>
     length es = rem l \<and> (lx_Failed l' \<longleftrightarrow> lx_Failed l \<or> es \<noteq> [])"
proof (induction "lx_input l" arbitrary: l)
  case Nil
  then have s: "skipSpace l = Some (Inr l)"
    by (subst skipSpace_unfold [OF skipComment_none skipWSNL_blanks]) (simp_all add: no_comment_def)
  show ?case using Nil(1) [symmetric] by (subst lex_next_unfold [OF s]) (simp add: next_token_def lx_at_0 EOFRune_def)
next
  case (Cons c s)
  have b: "blanks (lx_input l)" "blanks s" "\<not> isNotWS c"
    using Cons.prems Cons.hyps(2) [symmetric] by (simp_all add: blanks_def)
  then have s: "skipSpace l = Some (Inr l)"
    by (subst skipSpace_unfold [OF skipComment_none skipWSNL_blanks]) (simp_all add: no_comment_def)
  have nc: "no_comment s" using b(2) by (simp add: no_comment_def)
  from bad_character [OF Cons.hyps(2) [symmetric] blank_no_token(1) [OF b(3)] nc] obtain l2 e where
    n: "next_token l = Inr (Inr l2)" "lx_input l2 = s" "lx_errors l2 = lx_errors l @ [e]" "lx_Failed l2"
    by auto
  have "s = lx_input l2" "blanks (lx_input l2)" using n(2) b(2) by simp_all
  from Cons.hyps(1) [OF this] obtain l' es where
    "lex_next l2 = Some (Inr (None, l'))" "lx_errors l' = lx_errors l2 @ es" "length es = rem l2" "lx_Failed l'"
    using n(4) by blast
  with n Cons.hyps(2) [symmetric] show ?case
    by (intro exI [of _ l'] exI [of _ "e # es"]) (simp add: lex_next_unfold [OF s])
qed

lemma drop_comment: "drop (length c + 3) (x # y # c @ z # s) = s"
  "drop (3 + length c) (x # y # c @ z # s) = s" "drop (length c + 4) (x # y # c @ z # w # s) = s"
  by (simp_all add: numeral_3_eq_3 numeral_eq_Suc)

lemma final_comment_skipped:
  assumes "lx_input l = ''/*'' @ c @ ''*/'' @ ws" and "str_Index (c @ ''*/'' @ ws) ''*/'' = int (length c)"
    and "blanks ws"
  shows "skipSpace l = Some (Inr (adv (length c + 3) l))"
proof -
  let ?l1 = "adv (length c + 3) l"
  have i: "lx_input l = [] @ CHR ''/'' # CHR ''*'' # c @ ''*/'' @ ws" and b: "blanks []"
    using assms(1) by (simp_all add: blanks_def)
  have i1: "lx_input ?l1 = [] @ CHR ''/'' # ws" using assms(1) by (simp add: drop_comment)
  have d: "drop (nat (int (length c) + 4)) (lx_input l) = ws"
    "drop (nat (int (length c) + 4 - 1)) (lx_input l) = CHR ''/'' # ws"
    using assms(1) by (simp_all add: nat_add_distrib nat_diff_distrib drop_comment)
  have "isEOL (CHR ''/'' # ws) = 0" by (simp add: isEOL_def)
  moreover have "advance (3 + int (length c)) l = Inr ?l1"
    using advance_eq [of "length c + 3" l] assms(1) by (simp add: add.commute)
  ultimately have "block_at_eol l = Inr ([], ?l1)"
    using assms d IndexFunc_blanks(2) [OF assms(3)] by (simp add: block_at_eol_def Let_def)
  moreover have "findCommentStart (CHR ''/'') l = Inr (False, l)"
    by (rule findCommentStart_no(1) [OF i b]) (simp_all add: isNotWS_def)
  ultimately have g: "getLineComment l = Inr ([], ?l1)"
    using findCommentStart_yes [OF i b] by (simp add: getLineComment_def get1LineBlockComment_def)
  have "findCommentStart (CHR ''*'') ?l1 = Inr (False, ?l1)"
    using assms(3) by (intro findCommentStart_no(1) [OF i1 b]) (cases ws; auto simp: isNotWS_def blanks_def)+
  with g have sc: "skipComment l = Inr (False, ?l1)" by (simp add: skipComment_def)
  have "skipWSNL ?l1 = Inr (False, ?l1)" using skipWSNL_stop [OF i1 b] by (simp add: isNotWS_def)
  from skipSpace_unfold [OF sc this] show ?thesis by simp
qed

text \<open>
  A file whose last line ends in a block comment without a newline after it is
  rejected: the closing slash, and every blank that follows it, is reported as a bad
  character. Without the comment, so is every trailing blank.
\<close>

lemma final_comment_rejected:
  assumes "lx_input l = ''/*'' @ c @ ''*/'' @ ws" and "str_Index (c @ ''*/'' @ ws) ''*/'' = int (length c)"
    and "blanks ws"
  shows "\<exists>l' es. Lex l = Some (Inr (None, l')) \<and> lx_errors l' = lx_errors l @ es \<and>
    length es = 1 + length ws \<and> lx_Failed l'"
proof -
  let ?l1 = "adv (length c + 3) l"
  note s = final_comment_skipped [OF assms]
  have i: "lx_input ?l1 = CHR ''/'' # ws" using assms(1) by (simp add: drop_comment)
  have nc: "no_comment ws" using assms(3) by (simp add: no_comment_def)
  from bad_character [OF i blank_no_token(2) nc] obtain l2 e where
    n: "next_token ?l1 = Inr (Inr l2)" "lx_input l2 = ws" "lx_errors l2 = lx_errors ?l1 @ [e]" "lx_Failed l2"
    by auto
  have "blanks (lx_input l2)" using n(2) assms(3) by simp
  from lex_blanks [OF this] n obtain l' es where
    "lex_next l2 = Some (Inr (None, l'))" "lx_errors l' = lx_errors l2 @ es" "length es = length ws" "lx_Failed l'"
    by auto
  moreover have "lx_errors ?l1 = lx_errors l" using adv_simps(3) [where l = l] unfolding same_env_def by blast
  ultimately show ?thesis
    using n lex_next_unfold [OF s] by (intro exI [of _ l'] exI [of _ "e # es"]) (simp add: Lex_def)
qed

lemma final_comment_rejected_witness:
  "\<exists>l' es. Lex (NewLexer ''/* end */'') = Some (Inr (None, l')) \<and>
    lx_errors l' = lx_errors (NewLexer ''/* end */'') @ es \<and> length es = 1 + length ([] :: string) \<and> lx_Failed l'"
  by (rule final_comment_rejected [of _ "'' end ''"]) (code_simp+)

text \<open>
  A sign that no digit follows ends the token stream: Lex answers as at the end of the
  file, without an error, whatever the rest of the file is.
\<close>

lemma stray_sign_ends_file:
  assumes "lx_input l = c # s" and "c = CHR ''+'' \<or> c = CHR ''-''" and "s = [] \<or> \<not> isDigit (rune (hd s))"
  shows "Lex l = Some (Inr (None, l))"
proof -
  have i: "lx_input l = [] @ c # s" and b: "blanks []" and w: "isNotWS c"
    using assms(1,2) by (auto simp: blanks_def isNotWS_def)
  have nc: "no_comment (lx_input l)"
    unfolding no_comment_def using i b w assms(2) by (intro disjI2 exI [of _ "[]"] exI [of _ c] exI [of _ s]) auto
  have "skipWSNL l = Inr (False, l)" using skipWSNL_stop [OF i b w] assms(2) by auto
  from skipSpace_unfold [OF skipComment_none [OF nc] this] have s: "skipSpace l = Some (Inr l)" by simp
  have r: "lx_at l 0 = rune c" "lx_at l 1 = (case s of [] \<Rightarrow> - 1 | d # r \<Rightarrow> rune d)"
    using assms(1) lx_at_append [of l "[c]" s] by (simp_all add: lx_at_0)
  have "next_token l = Inr (Inl (None, l))"
    using assms(2,3) r
    by (cases s) (auto simp: next_token_def EOFRune_def rune_def punctuation_def isIdStart_def integer_token_eq
        sign_len_def isDigit_def)
  then show ?thesis by (simp add: Lex_def lex_next_unfold [OF s])
qed

lemma stray_sign_ends_file_witness:
  "Lex (NewLexer ''+ const X = 1;'') = Some (Inr (None, NewLexer ''+ const X = 1;''))"
  by (rule stray_sign_ends_file [of _ "CHR ''+''" "'' const X = 1;''"]) (code_simp+)

section \<open>Reading back printed tokens\<close>

definition spaces :: "string \<Rightarrow> bool" where
  "spaces w \<longleftrightarrow> list_all (\<lambda>c. c \<in> {CHR 0x20, CHR 0x09, CHR 0x0A}) w"

definition starts :: "string \<Rightarrow> bool" where
  "starts r \<longleftrightarrow> r \<noteq> [] \<and> hd r \<notin> {CHR 0x20, CHR 0x09, CHR 0x0A, CHR 0x0D, CHR ''/''}"

text \<open>Either a token follows the spaces, or the file ends with a newline.\<close>

definition well_spaced :: "string \<Rightarrow> string \<Rightarrow> bool" where
  "well_spaced w r \<longleftrightarrow> spaces w \<and> (starts r \<or> r = [] \<and> (w = [] \<or> last w = CHR 0x0A))"

lemma spaces_split:
  assumes "spaces w"
  shows "blanks w \<or> (\<exists>b w'. w = b @ CHR 0x0A # w' \<and> blanks b \<and> spaces w')"
proof (cases "CHR 0x0A \<in> set w")
  case True
  from split_list_first [OF this] obtain b w' where w: "w = b @ CHR 0x0A # w'" "CHR 0x0A \<notin> set b" by blast
  with assms have "blanks b" "spaces w'" by (auto simp: spaces_def blanks_def isNotWS_def list_all_iff)
  with w show ?thesis by blast
next
  case False
  with assms show ?thesis by (auto simp: spaces_def blanks_def isNotWS_def list_all_iff)
qed

lemma well_spaced_no_comment: "well_spaced w r \<Longrightarrow> no_comment (w @ r)"
proof -
  assume a: "well_spaced w r"
  then have "spaces w" by (simp add: well_spaced_def)
  from spaces_split [OF this] show ?thesis
  proof (elim disjE exE conjE)
    assume b: "blanks w"
    show ?thesis
    proof (cases "starts r")
      case True
      then obtain c r' where "r = c # r'" "isNotWS c" "c \<noteq> CHR ''/''" by (cases r) (auto simp: starts_def isNotWS_def)
      with b show ?thesis unfolding no_comment_def by blast
    next
      case False
      with a b show ?thesis by (simp add: well_spaced_def no_comment_def)
    qed
  next
    fix b w' assume w: "w = b @ CHR 0x0A # w'" "blanks b"
    have "isNotWS (CHR 0x0A)" "CHR 0x0A \<noteq> CHR ''/''" by (simp_all add: isNotWS_def)
    with w show ?thesis unfolding no_comment_def by (metis append.assoc append_Cons)
  qed
qed

lemma skipSpace_spaces:
  "lx_input l = w @ r \<Longrightarrow> well_spaced w r \<Longrightarrow>
   \<exists>l'. skipSpace l = Some (Inr l') \<and> lx_input l' = r \<and> lx_errors l' = lx_errors l \<and> lx_Failed l' = lx_Failed l"
proof (induction "length w" arbitrary: w l rule: less_induct)
  case less
  have sc: "skipComment l = Inr (False, l)"
    by (rule skipComment_none) (simp add: less.prems well_spaced_no_comment)
  have e: "lx_errors (adv n x) = lx_errors x" "lx_Failed (adv n x) = lx_Failed x" for n x
    using adv_simps(3) [where n = n and l = x] by (simp_all add: same_env_def)
  have "spaces w" using less.prems(2) by (simp add: well_spaced_def)
  from spaces_split [OF this] show ?case
  proof (elim disjE exE conjE)
    assume b: "blanks w"
    show ?thesis
    proof (cases "starts r")
      case True
      then obtain c r' where c: "r = c # r'" "isNotWS c" "c \<noteq> CHR 0x0A" "c \<noteq> CHR 0x0D"
        by (cases r) (auto simp: starts_def isNotWS_def)
      have i: "lx_input l = w @ c # r'" using less.prems(1) c(1) by simp
      from skipSpace_unfold [OF sc skipWSNL_stop [OF i b c(2,3,4)]] i c(1) e show ?thesis by simp
    next
      case False
      with less.prems(2) have r: "r = []" "w = [] \<or> last w = CHR 0x0A" by (simp_all add: well_spaced_def)
      have "w = []"
      proof (rule ccontr)
        assume w: "w \<noteq> []"
        with r(2) have "last w = CHR 0x0A" by blast
        with last_in_set [OF w] have n: "CHR 0x0A \<in> set w" by (simp only:)
        have "\<not> isNotWS (CHR 0x0A)" using b n unfolding blanks_def list_all_iff by blast
        then show False by (simp add: isNotWS_def)
      qed
      with r(1) less.prems(1) have "lx_input l = []" by simp
      then have bl: "blanks (lx_input l)" by (simp add: blanks_def)
      from skipSpace_unfold [OF sc skipWSNL_blanks [OF bl]] \<open>lx_input l = []\<close> r(1) show ?thesis by simp
    qed
  next
    fix b w' assume w: "w = b @ CHR 0x0A # w'" "blanks b" "spaces w'"
    let ?l2 = "clearComment (adv 1 (adv (length b) l))"
    have i: "lx_input l = b @ CHR 0x0A # w' @ r" using less.prems(1) w(1) by simp
    have "skipSpace l = skipSpace ?l2" using skipSpace_unfold [OF sc skipWSNL_newline [OF i w(2)]] by simp
    moreover have "lx_input ?l2 = w' @ r" using i by (simp add: clear_moved)
    moreover have "well_spaced w' r" using less.prems(2) w by (auto simp: well_spaced_def split: if_splits)
    moreover have "length w' < length w" using w(1) by simp
    ultimately show ?thesis using less.hyps [of w' ?l2] e by (simp add: clearComment_def)
  qed
qed

text \<open>A token by itself, and one token's step through the printed text.\<close>

lemma space_runes:
  assumes "spaces w" "w \<noteq> []"
  shows "\<not> isIdRest (rune (hd w))" "\<not> isDigit (rune (hd w))" "\<not> isHexDigit (rune (hd w))"
    "rune (hd w) OR 0x20 \<noteq> 120"
proof -
  have "hd w \<in> {CHR 0x20, CHR 0x09, CHR 0x0A}" using assms by (cases w) (auto simp: spaces_def)
  then show "\<not> isIdRest (rune (hd w))" "\<not> isDigit (rune (hd w))" "\<not> isHexDigit (rune (hd w))"
    "rune (hd w) OR 0x20 \<noteq> 120"
    by (auto simp: isIdRest_def isIdStart_def isDigit_def isHexDigit_def rune_def)
qed

lemma takeWhile_runes:
  "runes P s \<Longrightarrow> r = [] \<or> \<not> P (rune (hd r)) \<Longrightarrow> takeWhile (\<lambda>c. P (rune c)) (s @ r) = s"
  by (induction s) (cases r; auto simp: runes_def)+

lemma count_from_runes:
  assumes "lx_input l = u @ s @ r" "runes P s" "r = [] \<or> \<not> P (rune (hd r))"
  shows "count_from P (int (length u)) l = int (length (u @ s))"
  using assms takeWhile_runes [OF assms(2,3)] by (simp add: count_from_def)

definition printable :: "token_type \<times> string \<Rightarrow> bool" where
  "printable x \<longleftrightarrow> token_shape (fst x) (snd x) []"

lemma punct_runes: "rune ` set punctuation = {61, 59, 123, 125, 60, 62, 91, 93, 42, 44, 58, 40, 41}"
  by (simp add: punctuation_def rune_def)

lemma word_not_punct: "isIdStart c \<Longrightarrow> c \<notin> rune ` set punctuation"
  unfolding punct_runes by (auto simp: isIdStart_def)

lemma isDigit_cases: "isDigit d \<longleftrightarrow> d \<in> {39, 48, 49, 50, 51, 52, 53, 54, 55, 56, 57}"
  by (simp add: isDigit_def) presburger

lemma digit_not_x: "isDigit d \<Longrightarrow> d OR 0x20 \<noteq> 120"
  unfolding isDigit_cases by auto

lemma number_split:
  assumes "number_shape v r"
  shows "\<exists>sg c s. v = sg @ c # s \<and> sg \<in> {[], ''+'', ''-''} \<and> isDigit (rune c)"
proof -
  from assms obtain sg body where v: "v = sg @ body" "sg \<in> {[], ''+'', ''-''}"
    and body: "(\<exists>x hs. body = CHR ''0'' # x # hs) \<or> (body \<noteq> [] \<and> runes isDigit body)"
    unfolding number_shape_def by blast
  have "isDigit (rune (CHR ''0''))" by (simp add: isDigit_def rune_def)
  with body obtain c s where "body = c # s" "isDigit (rune c)" by (cases body) (auto simp: runes_def)
  with v show ?thesis by blast
qed

lemma number_at:
  assumes "number_shape v []" "lx_input l = v @ r"
    and "r \<noteq> []" "\<not> isDigit (rune (hd r))" "\<not> isHexDigit (rune (hd r))" "rune (hd r) OR 0x20 \<noteq> 120"
  shows "isDigit (lx_at l (sign_len l)) \<and> number_end l = int (length v) \<and> v \<noteq> [] \<and>
    (isDigit (lx_at l 0) \<or> lx_at l 0 = 43 \<or> lx_at l 0 = 45)"
proof -
  from assms(1) obtain sg body where v: "v = sg @ body" "sg \<in> {[], ''+'', ''-''}"
    and body: "(\<exists>x hs. body = CHR ''0'' # x # hs \<and> rune x OR 0x20 = 120 \<and> hs \<noteq> [] \<and> runes isHexDigit hs) \<or>
      (body \<noteq> [] \<and> runes isDigit body)"
    unfolding number_shape_def by blast
  have z: "rune (CHR ''0'') = 48" "rune (CHR ''+'') = 43" "rune (CHR ''-'') = 45" by (simp_all add: rune_def)
  have d48: "isDigit 48" by (simp add: isDigit_def)
  from body obtain c s where b: "body = c # s" "isDigit (rune c)" using z d48 by (cases body) (auto simp: runes_def)
  have sl: "sign_len l = int (length sg)"
    using v b assms(2) z by (auto simp: sign_len_def lx_at_0 isDigit_def)
  have d: "isDigit (lx_at l (sign_len l))" using lx_at_append [of l sg "c # s @ r"] assms(2) v(1) b sl by simp
  have first: "isDigit (lx_at l 0) \<or> lx_at l 0 = 43 \<or> lx_at l 0 = 45"
    using v b assms(2) z by (auto simp: lx_at_0)
  from lx_at_append [of l "sg @ [c]" "s @ r"] assms(2) v(1) b(1)
  have a1: "lx_at l (int (length sg) + 1) = (case s @ r of [] \<Rightarrow> - 1 | d # r \<Rightarrow> rune d)" by (simp add: add.commute)
  from body have "number_end l = int (length v)"
  proof (elim disjE exE conjE)
    fix x hs assume h: "body = CHR ''0'' # x # hs" "rune x OR 0x20 = 120" "hs \<noteq> []" "runes isHexDigit hs"
    then obtain h1 hs1 where hs: "hs = h1 # hs1" "isHexDigit (rune h1)" by (cases hs) (auto simp: runes_def)
    from lx_at_append [of l "sg @ [c, x]" "hs @ r"] assms(2) v(1) h(1) b(1)
    have a2: "lx_at l (int (length sg) + 2) = rune h1" using hs(1) by (simp add: add.commute)
    have a0: "lx_at l (int (length sg)) = 48"
      using lx_at_append [of l sg "body @ r"] assms(2) v(1) h(1) z by simp
    have "number_end l = count_from isHexDigit (int (length (sg @ [c, x]))) l"
      using a0 a1 a2 hs h b(1) sl by (simp add: number_end_def Let_def add.commute)
    also have "\<dots> = int (length ((sg @ [c, x]) @ hs))"
      by (rule count_from_runes [of _ _ _ r]) (use assms v(1) h b(1) in simp_all)
    finally show ?thesis using v(1) h(1) b(1) by simp
  next
    assume h: "runes isDigit body"
    have "lx_at l (int (length sg) + 1) OR 0x20 \<noteq> 120"
    proof (cases s)
      case Nil
      with a1 assms(3,6) show ?thesis by (cases r) simp_all
    next
      case (Cons e s')
      with h b(1) have "isDigit (rune e)" by (simp add: runes_def)
      with a1 Cons digit_not_x show ?thesis by simp
    qed
    then have "number_end l = count_from isDigit (int (length (sg @ [c]))) l"
      using sl by (simp add: number_end_def Let_def add.commute)
    also have "\<dots> = int (length ((sg @ [c]) @ s))"
      by (rule count_from_runes [of _ _ _ r]) (use assms v(1) h b(1) in \<open>simp_all add: runes_def\<close>)
    finally show ?thesis using v(1) b(1) by simp
  qed
  with d first b(1) v(1) show ?thesis by simp
qed

lemma number_start: "isDigit c \<or> c = 43 \<or> c = 45 \<Longrightarrow> \<not> isIdStart c \<and> c \<notin> rune ` set punctuation \<and> c \<noteq> - 1"
  unfolding punct_runes isDigit_cases by (auto simp: isIdStart_def)

lemma next_token_print:
  assumes "printable (ty, v)" "lx_input l = v @ w @ r" "w \<noteq> []" "well_spaced w r"
  shows "\<exists>t l'. next_token l = Inr (Inl (Some t, l')) \<and> tk_Type t = ty \<and> tk_Value t = v \<and> lx_input l' = w @ r \<and>
    lx_errors l' = lx_errors l \<and> lx_Failed l' = lx_Failed l"
proof -
  have sp: "spaces w" using assms(4) by (simp add: well_spaced_def)
  note sr = space_runes [OF sp assms(3)]
  have hd: "hd (w @ r) = hd w" "w @ r \<noteq> []" using assms(3) by simp_all
  have mk: "\<exists>t l'. makeToken ty' (int (length v)) l = Inr (t, l') \<and> tk_Type t = ty' \<and> tk_Value t = v \<and>
      lx_input l' = w @ r \<and> lx_errors l' = lx_errors l \<and> lx_Failed l' = lx_Failed l" if "v \<noteq> []" for ty'
    using makeToken_plain [of "int (length v)" l ty'] well_spaced_no_comment [OF assms(4)] assms(2) that by auto
  consider (punct) c where "ty = T_char (rune c)" "v = [c]" "c \<in> set punctuation"
    | (num) "ty = T_NUM" "number_shape v []" | (word) "ty = word_type v" "word_shape v []"
    using assms(1) unfolding printable_def token_shape_def by auto
  then show ?thesis
  proof cases
    case (punct c)
    then have "lx_at l 0 = rune c" "rune c \<in> rune ` set punctuation" using assms(2) by (simp_all add: lx_at_0)
    then have "next_token l = bindE (makeToken ty (int (length v)) l) (\<lambda>(t, l2). Inr (Inl (Some t, l2)))"
      using rune_nonneg [of c] punct by (simp add: next_token_def EOFRune_def)
    with mk [of ty] punct(2) show ?thesis by auto
  next
    case word
    then obtain c s where v: "v = [c] @ s" "isIdStart (rune c)" "runes isIdRest s"
      by (cases v) (auto simp: word_shape_def)
    have a: "lx_at l 0 = rune c" using assms(2) v by (simp add: lx_at_0)
    have "count_from isIdRest (int (length [c])) l = int (length ([c] @ s))"
      by (rule count_from_runes [of _ _ _ "w @ r"]) (use assms(2) v sr(1) hd in simp_all)
    then have "identifier_token l = bindE (makeToken T_ID (int (length v)) l) (\<lambda>(t, l'). Inr (Some t, l'))"
      using a v by (simp add: identifier_token_def)
    with mk [of T_ID] v(1) obtain t l' where
      t: "identifier_token l = Inr (Some t, l')" "tk_Type t = T_ID" "tk_Value t = v" "lx_input l' = w @ r"
        "lx_errors l' = lx_errors l" "lx_Failed l' = lx_Failed l" by auto
    have "next_token l = bindE (identifier_token l) (\<lambda>(t, l2). Inr (Inl (map_option (\<lambda>t. case map_of keyword_map (tk_Value t) of
             Some kw \<Rightarrow> t\<lparr>tk_Type := kw\<rparr> | None \<Rightarrow> t) t, l2)))"
      using a v(2) word_not_punct [OF v(2)] rune_nonneg [of c] by (simp add: next_token_def EOFRune_def)
    with t word(1) show ?thesis by (auto simp: word_type_def split: option.splits)
  next
    case num
    have n: "isDigit (lx_at l (sign_len l))" "number_end l = int (length v)" "v \<noteq> []"
      "isDigit (lx_at l 0) \<or> lx_at l 0 = 43 \<or> lx_at l 0 = 45"
      using number_at [OF num(2) assms(2) hd(2)] sr hd(1) by simp_all
    with number_start [OF n(4)]
    have "next_token l = bindE (makeToken T_NUM (int (length v)) l) (\<lambda>(t, l2). Inr (Inl (Some t, l2)))"
      by (simp add: next_token_def EOFRune_def integer_token_eq bindE_assoc split_def)
    with mk [OF n(3), of T_NUM] num(1) show ?thesis by auto
  qed
qed

lemma printable_starts:
  assumes "printable (ty, v)"
  shows "starts (v @ r)"
proof -
  consider c where "v = [c]" "c \<in> set punctuation" | "number_shape v []" | "word_shape v []"
    using assms unfolding printable_def token_shape_def by auto
  then obtain c s where v: "v = c # s" "c \<in> set punctuation \<or> isIdStart (rune c) \<or> isDigit (rune c) \<or> rune c \<in> {43, 45}"
  proof cases
    case 2
    from number_split [OF 2] that show ?thesis by (auto simp: rune_def)
  next
    case 3
    then show ?thesis using that by (cases v) (auto simp: word_shape_def)
  qed auto
  have "c \<notin> {CHR 0x20, CHR 0x09, CHR 0x0A, CHR 0x0D, CHR ''/''}"
  proof
    assume "c \<in> {CHR 0x20, CHR 0x09, CHR 0x0A, CHR 0x0D, CHR ''/''}"
    then show False
      using v(2) by (auto simp: rune_def isIdStart_def isDigit_def punctuation_def)
  qed
  with v(1) show ?thesis by (simp add: starts_def)
qed

fun printed :: "((token_type \<times> string) \<times> string) list \<Rightarrow> string" where
  "printed [] = [CHR 0x0A]"
| "printed ((x, w) # ts) = snd x @ w @ printed ts"

inductive lexes :: "lexer \<Rightarrow> (token_type \<times> string) list \<Rightarrow> lexer \<Rightarrow> bool" where
  lexes_end: "Lex l = Some (Inr (None, l')) \<Longrightarrow> lexes l [] l'"
| lexes_more: "Lex l = Some (Inr (Some (ty, t), l1)) \<Longrightarrow> lexes l1 ts l' \<Longrightarrow> lexes l ((ty, tk_Value t) # ts) l'"

lemma lexes_printed:
  "lx_input l = w0 @ printed ts \<Longrightarrow> spaces w0 \<Longrightarrow> list_all (\<lambda>(x, w). printable x \<and> spaces w \<and> w \<noteq> []) ts \<Longrightarrow>
   \<exists>l'. lexes l (map fst ts) l' \<and> lx_input l' = [] \<and> lx_errors l' = lx_errors l \<and> lx_Failed l' = lx_Failed l"
proof (induction ts arbitrary: l w0)
  case Nil
  then have "lx_input l = (w0 @ [CHR 0x0A]) @ []" "well_spaced (w0 @ [CHR 0x0A]) []"
    by (simp_all add: well_spaced_def spaces_def)
  from skipSpace_spaces [OF this] obtain l1 where
    s: "skipSpace l = Some (Inr l1)" "lx_input l1 = []" "lx_errors l1 = lx_errors l" "lx_Failed l1 = lx_Failed l"
    by auto
  have "next_token l1 = Inr (Inl (None, l1))" using s(2) by (simp add: next_token_def lx_at_0 EOFRune_def)
  then have "Lex l = Some (Inr (None, l1))" by (simp add: Lex_def lex_next_unfold [OF s(1)])
  with s show ?case by (auto intro: lexes_end)
next
  case (Cons xw ts)
  obtain ty v w where x: "xw = ((ty, v), w)" by (metis prod.exhaust)
  have p: "printable (ty, v)" "spaces w" "w \<noteq> []" "list_all (\<lambda>(x, w). printable x \<and> spaces w \<and> w \<noteq> []) ts"
    using Cons.prems(3) x by auto
  have i: "lx_input l = w0 @ v @ w @ printed ts" using Cons.prems(1) x by simp
  have ws0: "well_spaced w0 (v @ w @ printed ts)"
    using Cons.prems(2) printable_starts [OF p(1)] by (simp add: well_spaced_def)
  from skipSpace_spaces [OF i ws0] obtain l1 where
    s: "skipSpace l = Some (Inr l1)" "lx_input l1 = v @ w @ printed ts" "lx_errors l1 = lx_errors l"
      "lx_Failed l1 = lx_Failed l" by blast
  obtain w2 r2 where ws: "w @ printed ts = w2 @ r2" "w2 \<noteq> []" "well_spaced w2 r2"
  proof (cases ts)
    case Nil
    with that [of "w @ [CHR 0x0A]" "[]"] p(2) show ?thesis by (simp add: well_spaced_def spaces_def)
  next
    case (Cons y ts')
    then obtain ty' v' w' where y: "y = ((ty', v'), w')" by (metis prod.exhaust)
    with Cons p(4) have "printable (ty', v')" by simp
    from printable_starts [OF this] that [of w "printed ts"] Cons y p(2,3) show ?thesis by (simp add: well_spaced_def)
  qed
  have i1: "lx_input l1 = v @ w2 @ r2" using s(2) ws(1) by simp
  from next_token_print [OF p(1) i1 ws(2,3)] obtain t l2 where
    t: "next_token l1 = Inr (Inl (Some t, l2))" "tk_Type t = ty" "tk_Value t = v" "lx_input l2 = w @ printed ts"
      "lx_errors l2 = lx_errors l1" "lx_Failed l2 = lx_Failed l1" using ws(1) by auto
  have L: "Lex l = Some (Inr (Some (ty, t), l2))" using t(1,2) by (simp add: Lex_def lex_next_unfold [OF s(1)])
  from Cons.IH [OF t(4) p(2,4)] obtain l' where
    "lexes l2 (map fst ts) l'" "lx_input l' = []" "lx_errors l' = lx_errors l2" "lx_Failed l' = lx_Failed l2" by blast
  with lexes_more [OF L] t x s show ?case by auto
qed

text \<open>
  C24. Lexing reads back printed tokens: tokens of every form, each followed by spaces, tabs
  and newlines and the last by a newline, give those tokens, then the end of the file, and
  no error.
\<close>

theorem Lex_printed:
  assumes "list_all (\<lambda>(x, w). printable x \<and> spaces w \<and> w \<noteq> []) ts"
  shows "\<exists>l'. lexes (NewLexer (printed ts)) (map fst ts) l' \<and> lx_input l' = [] \<and>
    lx_errors l' = [] \<and> \<not> lx_Failed l'"
proof -
  have "lx_input (NewLexer (printed ts)) = [] @ printed ts" "spaces []"
    by (simp_all add: NewLexer_def spaces_def)
  from lexes_printed [OF this assms] show ?thesis by (simp add: NewLexer_def)
qed

definition ex_tokens :: "((token_type \<times> string) \<times> string) list" where
  "ex_tokens = [((T_CONST, ''const''), '' ''), ((T_ID, ''x_1''), [CHR 0x09]), ((T_char 61, ''=''), '' ''),
     ((T_NUM, ''-0x1F''), '' ''), ((T_char 59, '';''), [CHR 0x0A])]"

lemma ex_printable: "list_all (\<lambda>(x, w). printable x \<and> spaces w \<and> w \<noteq> []) ex_tokens"
proof -
  have "word_shape ''const'' []" "word_shape ''x_1'' []" "word_type ''const'' = T_CONST" "word_type ''x_1'' = T_ID"
    by code_simp+
  then have w: "printable (T_CONST, ''const'')" "printable (T_ID, ''x_1'')"
    by (simp_all add: printable_def token_shape_def)
  have "rune (CHR ''='') = 61" "rune (CHR '';'') = 59" "CHR ''='' \<in> set punctuation" "CHR '';'' \<in> set punctuation"
    by (simp_all add: rune_def punctuation_def)
  then have p: "printable (T_char 61, ''='')" "printable (T_char 59, '';'')"
    unfolding printable_def token_shape_def by auto
  have "rune (CHR ''x'') OR 0x20 = 120" "runes isHexDigit ''1F''" by code_simp+
  then have "number_shape (''-'' @ CHR ''0'' # CHR ''x'' # ''1F'') []"
    unfolding number_shape_def stops_def by (intro exI [of _ "''-''"] exI [of _ "''0x1F''"]) auto
  then have "printable (T_NUM, ''-0x1F'')" by (simp add: printable_def token_shape_def)
  with w p show ?thesis by (simp add: ex_tokens_def spaces_def)
qed

theorem Lex_printed_witness:
  "\<exists>l'. lexes (NewLexer (printed ex_tokens)) (map fst ex_tokens) l' \<and> lx_input l' = [] \<and>
    lx_errors l' = [] \<and> \<not> lx_Failed l'"
  by (rule Lex_printed [OF ex_printable])

end
