(* ===== verification/GoText.thy ===== *)
theory GoText imports GoPrelude begin

text \<open>
  What the program uses of Go's packages strconv, fmt and encoding/hex on text: numbers
  written in decimal and read back (ParseUint, ParseInt, the verbs d and v of Fscanf),
  quoting with the verb q, hexadecimal. A Go string is the list of its bytes, as chars.
\<close>

section \<open>Characters\<close>

definition byte_at :: "char \<Rightarrow> int" where
  "byte_at c = of_char c"

definition is_lower :: "char \<Rightarrow> bool" where
  "is_lower c \<longleftrightarrow> 97 \<le> byte_at c \<and> byte_at c \<le> 122"

definition is_upper :: "char \<Rightarrow> bool" where
  "is_upper c \<longleftrightarrow> 65 \<le> byte_at c \<and> byte_at c \<le> 90"

section \<open>Numbers\<close>

text \<open>
  strconv.ParseUint(s, 0, 32) on identifiers and on the numbers the lexer returns, in which
  no underscore follows a digit.
\<close>

definition digit_val :: "char \<Rightarrow> nat option" where
  "digit_val c =
     (let x = byte_at c; y = x OR 0x20 in
      if 48 \<le> x \<and> x \<le> 57 then Some (nat (x - 48))
      else if 97 \<le> y \<and> y \<le> 122 then Some (nat (y - 87))
      else None)"

fun parse_digits :: "nat \<Rightarrow> nat \<Rightarrow> string \<Rightarrow> nat option" where
  "parse_digits base acc [] = Some acc"
| "parse_digits base acc (c # s) =
     (case digit_val c of
        None \<Rightarrow> None
      | Some d \<Rightarrow> if d < base then parse_digits base (acc * base + d) s else None)"

fun base_prefix :: "string \<Rightarrow> nat \<times> string" where
  "base_prefix (c # d # e # s) =
     (if c = CHR ''0''
      then (if byte_at d OR 0x20 = 98 then (2, e # s)
            else if byte_at d OR 0x20 = 111 then (8, e # s)
            else if byte_at d OR 0x20 = 120 then (16, e # s)
            else (8, d # e # s))
      else (10, c # d # e # s))"
| "base_prefix (c # s) = (if c = CHR ''0'' then (8, s) else (10, c # s))"
| "base_prefix [] = (10, [])"

definition ParseUint :: "string \<Rightarrow> nat option" where
  "ParseUint s =
     (if s = [] then None
      else case base_prefix s of (base, t) \<Rightarrow>
        (case parse_digits base 0 t of
           None \<Rightarrow> None
         | Some n \<Rightarrow> if n < 2 ^ 32 then Some n else None))"

text \<open>fmt.Sprintf of a number with the verb d.\<close>

fun decimal :: "nat \<Rightarrow> string" where
  "decimal n = (if n < 10 then [char_of (n + 48)] else decimal (n div 10) @ [char_of (n mod 10 + 48)])"

declare decimal.simps [simp del]

lemma digit_char:
  assumes "n < 10"
  shows "byte_at (char_of (n + 48 :: nat)) = int n + 48" "digit_val (char_of (n + 48)) = Some n"
    "char_of (n + 48) \<noteq> CHR ''_''" "char_of (n + 48) \<noteq> CHR ''u''"
proof -
  have "of_char (char_of (n + 48) :: char) = n + 48" using assms by (simp add: of_char_of)
  then have b: "byte_at (char_of (n + 48 :: nat)) = int n + 48"
    unfolding byte_at_def by (metis of_nat_add of_nat_numeral of_nat_of_char)
  then show "byte_at (char_of (n + 48 :: nat)) = int n + 48" .
  show "digit_val (char_of (n + 48)) = Some n" using assms by (simp add: digit_val_def b)
  show "char_of (n + 48) \<noteq> CHR ''_''" "char_of (n + 48) \<noteq> CHR ''u''"
    using assms b by (auto simp: byte_at_def)
qed

lemma digit_chars:
  "char_of (48 :: nat) = CHR ''0''" "char_of (49 :: nat) = CHR ''1''" "char_of (50 :: nat) = CHR ''2''"
  "char_of (51 :: nat) = CHR ''3''" "char_of (52 :: nat) = CHR ''4''" "char_of (53 :: nat) = CHR ''5''"
  "char_of (54 :: nat) = CHR ''6''" "char_of (55 :: nat) = CHR ''7''" "char_of (56 :: nat) = CHR ''8''"
  "char_of (57 :: nat) = CHR ''9''"
  by code_simp+

lemma parse_digits_append:
  "parse_digits b a (s @ t) = (case parse_digits b a s of None \<Rightarrow> None | Some a' \<Rightarrow> parse_digits b a' t)"
  by (induction b a s rule: parse_digits.induct) (auto split: option.splits)

lemma parse_decimal: "parse_digits 10 0 (decimal n) = Some n"
proof (induction n rule: decimal.induct)
  case (1 n)
  show ?case
  proof (cases "n < 10")
    case True
    then show ?thesis by (subst decimal.simps) (simp add: digit_char)
  next
    case False
    with 1 show ?thesis
      by (subst decimal.simps) (simp add: parse_digits_append digit_char)
  qed
qed

lemma decimal_inject [simp]: "decimal m = decimal n \<longleftrightarrow> m = n"
  by (metis parse_decimal option.inject)

lemma decimal_chars: "CHR ''_'' \<notin> set (decimal n)" "CHR ''u'' \<notin> set (decimal n)"
proof (induction n rule: decimal.induct)
  case (1 n)
  { case 1 with "1.IH" show ?case by (subst decimal.simps) (auto simp: digit_char dest: sym) }
  { case 2 with "1.IH" show ?case by (subst decimal.simps) (auto simp: digit_char dest: sym) }
qed

section \<open>Written numbers\<close>

definition show_int :: "int \<Rightarrow> string" where
  "show_int n = (if n < 0 then CHR ''-'' # decimal (nat (- n)) else decimal (nat n))"

text \<open>
  fmt.Sprint of the float64 that holds an integer of at most 15 digits: the verb g with the
  fewest digits, which is exponential from \<open>10 ^ 6\<close> on.
\<close>

definition strip_zeros :: "string \<Rightarrow> string" where
  "strip_zeros s = rev (dropWhile (\<lambda>c. c = CHR ''0'') (rev s))"

definition sprint_float_nat :: "nat \<Rightarrow> string" where
  "sprint_float_nat n =
     (let ds = decimal n; e = length ds - 1; frac = strip_zeros (tl ds) in
      if n < 10 ^ 6 then ds
      else hd ds # (if frac = [] then [] else CHR ''.'' # frac) @ ''e+'' @
        (if e < 10 then ''0'' @ decimal e else decimal e))"

definition sprint_float :: "int \<Rightarrow> string" where
  "sprint_float n =
     (if n < 0 then CHR ''-'' # sprint_float_nat (nat (- n)) else sprint_float_nat (nat n))"

section \<open>Reading numbers\<close>

text \<open>
  SkipSpace of a ScanState, on the blanks of ASCII; \<open>nl\<close> says whether newlines are blanks
  (Sscan) or an error (Fscanf).
\<close>

definition blank :: "char \<Rightarrow> bool" where
  "blank c \<longleftrightarrow> byte_at c \<in> {9, 11, 12, 13, 32}"

fun skip_space :: "bool \<Rightarrow> string \<Rightarrow> string option" where
  "skip_space nl [] = Some []"
| "skip_space nl (c # s) =
     (if byte_at c = 13 \<and> s \<noteq> [] \<and> byte_at (hd s) = 10 then skip_space nl s
      else if byte_at c = 10 then (if nl then skip_space nl s else None)
      else if blank c then skip_space nl s
      else Some (c # s))"

definition dec_char :: "char \<Rightarrow> bool" where
  "dec_char c \<longleftrightarrow> 48 \<le> byte_at c \<and> byte_at c \<le> 57"

definition accept_sign :: "string \<Rightarrow> string \<times> string" where
  "accept_sign s = (if s \<noteq> [] \<and> hd s \<in> {CHR ''+'', CHR ''-''} then ([hd s], tl s) else ([], s))"

text \<open>scanBasePrefix: the digits that may follow, what was read, the rest.\<close>

definition digit_below :: "nat \<Rightarrow> char \<Rightarrow> bool" where
  "digit_below b c \<longleftrightarrow> c = CHR ''_'' \<or> (case digit_val c of Some d \<Rightarrow> d < b | None \<Rightarrow> False)"

definition scanBasePrefix :: "string \<Rightarrow> nat \<times> string \<times> string" where
  "scanBasePrefix s =
     (if s \<noteq> [] \<and> hd s = CHR ''0''
      then (let t = tl s; c = (if t = [] then 0 else byte_at (hd t)) in
            if c \<in> {98, 66} then (2, [CHR ''0'', hd t], tl t)
            else if c \<in> {111, 79} then (8, [CHR ''0'', hd t], tl t)
            else if c \<in> {120, 88} then (16, [CHR ''0'', hd t], tl t)
            else (8, ''0'', t))
      else (10, [], s))"

text \<open>scanNumber for the verbs v and d: the token, if there is a digit.\<close>

definition scanNumber :: "bool \<Rightarrow> string \<Rightarrow> string option" where
  "scanNumber v s =
     (case (if v then scanBasePrefix s else (10, [], s)) of (b, pre, r) \<Rightarrow>
        let ok = (if v then digit_below b else dec_char) in
        if pre = [] \<and> (r = [] \<or> \<not> ok (hd r)) then None else Some (pre @ takeWhile ok r))"

text \<open>underscoreOK after the prefix: an underscore stands between digits.\<close>

fun us_ok :: "bool \<Rightarrow> bool \<Rightarrow> string \<Rightarrow> bool" where
  "us_ok digit us [] = (\<not> us)"
| "us_ok digit us (c # s) =
     (if c = CHR ''_'' then digit \<and> us_ok False True s else us_ok True False s)"

definition underscoreOK :: "string \<Rightarrow> bool" where
  "underscoreOK t =
     (case base_prefix t of (b, s) \<Rightarrow>
        if length t = length s + 2 then us_ok True False s else us_ok False False t)"

definition ParseUint64 :: "bool \<Rightarrow> string \<Rightarrow> nat option" where
  "ParseUint64 base0 t =
     (if t = [] then None
      else case (if base0 then base_prefix t else (10, t)) of (b, s) \<Rightarrow>
        (case parse_digits b 0 (if base0 then filter (\<lambda>c. c \<noteq> CHR ''_'') s else s) of
           None \<Rightarrow> None
         | Some n \<Rightarrow> if n < 2 ^ 64 \<and> (base0 \<and> CHR ''_'' \<in> set s \<longrightarrow> underscoreOK t) then Some n else None))"

definition ParseInt64 :: "bool \<Rightarrow> string \<Rightarrow> int option" where
  "ParseInt64 base0 t =
     (case accept_sign t of (sg, u) \<Rightarrow>
        bindO (ParseUint64 base0 u) (\<lambda>n.
          if sg = ''-'' then (if n \<le> 2 ^ 63 then Some (- int n) else None)
          else if n < 2 ^ 63 then Some (int n) else None))"

text \<open>
  Fscanf with the verb v (\<open>v\<close> true) or d on an integer of the given width. What follows
  the number is not looked at.
\<close>

definition scan_int :: "bool \<Rightarrow> nat \<Rightarrow> string \<Rightarrow> int option" where
  "scan_int v bits s =
     bindO (skip_space False s) (\<lambda>t.
       case accept_sign t of (sg, r) \<Rightarrow>
         bindO (scanNumber v r) (\<lambda>tok.
         bindO (ParseInt64 v (sg @ tok)) (\<lambda>i.
           if - (2 ^ (bits - 1)) \<le> i \<and> i < 2 ^ (bits - 1) then Some i else None)))"

definition scan_uint :: "nat \<Rightarrow> string \<Rightarrow> nat option" where
  "scan_uint bits s =
     bindO (skip_space False s) (\<lambda>t.
     bindO (scanNumber True t) (\<lambda>tok.
     bindO (ParseUint64 True tok) (\<lambda>n. if n < 2 ^ bits then Some n else None)))"

text \<open>scanBool: the first letter decides; a longer word must be spelled right, but only then.\<close>

definition next_in :: "string \<Rightarrow> string \<Rightarrow> bool" where
  "next_in s cs \<longleftrightarrow> s \<noteq> [] \<and> hd s \<in> set cs"

definition scan_bool :: "string \<Rightarrow> bool option" where
  "scan_bool s =
     bindO (skip_space False s) (\<lambda>t.
       if t = [] then None
       else let c = hd t; a = tl t; b = tl a; d = tl b; e = tl d in
         if c = CHR ''0'' then Some False
         else if c = CHR ''1'' then Some True
         else if c \<in> set ''tT''
         then (if next_in a ''rR'' \<and> (\<not> next_in b ''uU'' \<or> \<not> next_in d ''eE'') then None else Some True)
         else if c \<in> set ''fF''
         then (if next_in a ''aA'' \<and> (\<not> next_in b ''lL'' \<or> \<not> next_in d ''sS'' \<or> \<not> next_in e ''eE'')
               then None else Some False)
         else Some False)"

section \<open>Quoting and hexadecimal\<close>

definition hex_digit :: "nat \<Rightarrow> char" where
  "hex_digit n = char_of (if n < 10 then n + 48 else n + 87)"

definition hex_byte :: "u8 \<Rightarrow> string" where
  "hex_byte b = [hex_digit (unat b div 16), hex_digit (unat b mod 16)]"

definition EncodeToString :: "bytes \<Rightarrow> string" where
  "EncodeToString bs = concat (map hex_byte bs)"

definition hex_val :: "char \<Rightarrow> nat option" where
  "hex_val c = (case digit_val c of Some d \<Rightarrow> if d < 16 then Some d else None | None \<Rightarrow> None)"

fun DecodeString :: "string \<Rightarrow> bytes option" where
  "DecodeString [] = Some []"
| "DecodeString [c] = None"
| "DecodeString (c # d # s) =
     bindO (hex_val c) (\<lambda>x. bindO (hex_val d) (\<lambda>y. bindO (DecodeString s) (\<lambda>bs.
       Some (of_nat (16 * x + y) # bs))))"

text \<open>
  strconv.Quote, the verb q: of a string of ASCII characters; \<open>quote_rest\<close> gives the
  others.
\<close>

definition quote_char :: "char \<Rightarrow> string" where
  "quote_char c =
     (let x = byte_at c; esc = CHR 0x5C in
      if x = 34 \<or> x = 92 then [esc, c]
      else if x = 7 then [esc, CHR ''a''] else if x = 8 then [esc, CHR ''b'']
      else if x = 12 then [esc, CHR ''f''] else if x = 10 then [esc, CHR ''n'']
      else if x = 13 then [esc, CHR ''r''] else if x = 9 then [esc, CHR ''t'']
      else if x = 11 then [esc, CHR ''v'']
      else if x < 32 \<or> x = 127 then [esc, CHR ''x''] @ hex_byte (of_int x)
      else [c])"

definition Quote :: "(string \<Rightarrow> string) \<Rightarrow> string \<Rightarrow> string" where
  "Quote quote_rest s =
     (if \<forall>c \<in> set s. byte_at c < 128
      then CHR 0x22 # concat (map quote_char s) @ [CHR 0x22] else quote_rest s)"

text \<open>The bytes of a string and back.\<close>

definition chars_of :: "bytes \<Rightarrow> string" where
  "chars_of bs = map (\<lambda>b. char_of (unat b)) bs"

definition bytes_of :: "string \<Rightarrow> bytes" where
  "bytes_of s = map (\<lambda>c. of_nat (of_char c)) s"

section \<open>Numbers are read as they were written\<close>

lemma dec_char_digit: "dec_char c \<Longrightarrow> digit_val c = Some (nat (byte_at c - 48)) \<and> nat (byte_at c - 48) < 10"
  by (auto simp: dec_char_def digit_val_def)

lemma dec_char_below: "dec_char c \<Longrightarrow> digit_below 10 c"
  using dec_char_digit [of c] by (simp add: digit_below_def)

lemma decimal_dec: "list_all dec_char (decimal n)"
proof (induction n rule: decimal.induct)
  case (1 n)
  have d: "dec_char (char_of (k + 48 :: nat))" if "k < 10" for k
    using digit_char(1) [OF that] that by (simp add: dec_char_def)
  show ?case
  proof (cases "n < 10")
    case True
    then show ?thesis by (subst decimal.simps) (simp add: d)
  next
    case False
    with 1 d [of "n mod 10"] show ?thesis by (subst decimal.simps) simp
  qed
qed

lemma decimal_ne [simp]: "decimal n \<noteq> []"
  by (subst decimal.simps) simp

lemma hd_decimal_0: "hd (decimal n) = CHR ''0'' \<Longrightarrow> n = 0"
proof (induction n rule: decimal.induct)
  case (1 n)
  show ?case
  proof (cases "n < 10")
    case True
    with "1.prems" digit_char(1) [OF True] show ?thesis
      by (subst (asm) decimal.simps) (simp add: byte_at_def)
  next
    case False
    with "1.prems" have "hd (decimal (n div 10)) = CHR ''0''" by (subst (asm) decimal.simps) simp
    with "1.IH" [OF False] False show ?thesis by simp
  qed
qed

lemma dec_char_hd: "dec_char (hd (decimal n))"
  using decimal_dec [of n] by (metis decimal_ne hd_in_set list_all_iff)

lemma show_int_inject: "show_int m = show_int n \<longleftrightarrow> m = n"
proof -
  have "CHR ''-'' # s \<noteq> decimal k" for s k
    using decimal_dec [of k] by (auto simp: list_all_iff dec_char_def byte_at_def dest: sym)
  from this this [symmetric] show ?thesis by (auto simp: show_int_def)
qed

lemma decimal_0: "decimal 0 = ''0''"
  by (simp add: decimal.simps digit_chars)

lemma dec_char_not: "dec_char c \<Longrightarrow> byte_at c \<noteq> 13 \<and> byte_at c \<noteq> 10 \<and> \<not> blank c \<and> c \<notin> {CHR ''+'', CHR ''-'', CHR ''_''}"
  by (auto simp: dec_char_def blank_def byte_at_def)

lemma skip_space_dec: "dec_char c \<Longrightarrow> skip_space nl (c # s) = Some (c # s)"
  using dec_char_not [of c] by simp

lemma accept_sign_dec: "dec_char c \<Longrightarrow> accept_sign (c # s) = ([], c # s)"
  using dec_char_not [of c] by (simp add: accept_sign_def)

text \<open>What may follow a number without being taken for a part of it.\<close>

definition ends_number :: "string \<Rightarrow> bool" where
  "ends_number s \<longleftrightarrow> s = [] \<or> hd s \<in> {CHR ''.'', CHR ''e''}"

lemma ends_numberD: "ends_number s \<Longrightarrow> s \<noteq> [] \<Longrightarrow> \<not> dec_char (hd s) \<and> \<not> digit_below 10 (hd s) \<and> \<not> digit_below 8 (hd s) \<and> byte_at (hd s) \<notin> {98, 66, 111, 79, 120, 88}"
  by (auto simp: ends_number_def dec_char_def digit_below_def digit_val_def byte_at_def)

lemma takeWhile_ends:
  "list_all p s \<Longrightarrow> (t \<noteq> [] \<Longrightarrow> \<not> p (hd t)) \<Longrightarrow> takeWhile p (s @ t) = s"
  by (cases t) (simp_all add: takeWhile_append list_all_iff)

lemma scanNumber_decimal:
  assumes "ends_number r"
  shows "scanNumber v (decimal n @ r) = Some (decimal n)"
proof -
  obtain c s where d: "decimal n = c # s" by (cases "decimal n") auto
  have c: "dec_char c" using dec_char_hd [of n] d by simp
  have all: "list_all dec_char (decimal n)" "list_all (digit_below 10) (decimal n)"
    using decimal_dec [of n] dec_char_below by (auto simp: list_all_iff)
  have tw: "takeWhile dec_char (decimal n @ r) = decimal n" "takeWhile (digit_below 10) (decimal n @ r) = decimal n"
    using all ends_numberD [OF assms] by (auto intro: takeWhile_ends)
  show ?thesis
  proof (cases "v \<and> c = CHR ''0''")
    case True
    then have "n = 0" using hd_decimal_0 [of n] d by simp
    with True d have s: "s = []" by (simp add: decimal_0)
    have "takeWhile (digit_below 8) r = []"
      using ends_numberD [OF assms] by (cases r) auto
    with True s d ends_numberD [OF assms] show ?thesis
      by (auto simp: scanNumber_def scanBasePrefix_def Let_def)
  next
    case False
    with tw d c dec_char_below [OF c] show ?thesis
      by (auto simp: scanNumber_def scanBasePrefix_def)
  qed
qed

lemma base_prefix_decimal: "base_prefix (decimal n) = (if n = 0 then (8, []) else (10, decimal n))"
proof (cases "n = 0")
  case True
  then show ?thesis by (simp add: decimal_0)
next
  case False
  then have "hd (decimal n) \<noteq> CHR ''0''" using hd_decimal_0 by blast
  with False show ?thesis by (cases "decimal n" rule: base_prefix.cases) auto
qed

lemma filter_no_us: "CHR ''_'' \<notin> set s \<Longrightarrow> filter (\<lambda>c. c \<noteq> CHR ''_'') s = s"
  by (auto simp: filter_id_conv)

lemma ParseUint64_decimal: "n < 2 ^ 64 \<Longrightarrow> ParseUint64 b (decimal n) = Some n"
  using decimal_chars(1) [of n] parse_decimal [of n]
  by (cases "n = 0") (auto simp: ParseUint64_def base_prefix_decimal filter_no_us decimal_0 digit_val_def byte_at_def)


lemma decimal_Cons: obtains c s where "decimal n = c # s" "dec_char c"
proof -
  obtain c s where d: "decimal n = c # s" by (cases "decimal n") auto
  with dec_char_hd [of n] that show thesis by simp
qed

lemma scan_uint_decimal:
  assumes "n < 2 ^ bits" "bits \<le> 64" "ends_number r"
  shows "scan_uint bits (decimal n @ r) = Some n"
proof -
  have "n < 2 ^ 64" using assms(1,2) by (meson less_le_trans one_le_numeral power_increasing)
  then have "ParseUint64 True (decimal n) = Some n" by (rule ParseUint64_decimal)
  moreover obtain c s where "decimal n = c # s" "dec_char c" by (rule decimal_Cons)
  ultimately show ?thesis
    using scanNumber_decimal [OF assms(3), of True n] assms(1) by (simp add: scan_uint_def skip_space_dec del: skip_space.simps)
qed

definition in_range :: "nat \<Rightarrow> int \<Rightarrow> bool" where
  "in_range bits n \<longleftrightarrow> - (2 ^ (bits - 1)) \<le> n \<and> n < 2 ^ (bits - 1)"

lemma in_range_64:
  assumes "in_range bits n" "bits \<le> 64"
  shows "- (2 ^ 63) \<le> n" "n < 2 ^ 63"
proof -
  have "(2 :: int) ^ (bits - 1) \<le> 2 ^ 63" using assms(2) by (intro power_increasing) auto
  with assms(1) show "- (2 ^ 63) \<le> n" "n < 2 ^ 63" by (auto simp: in_range_def)
qed

lemma scan_int_neg:
  assumes "in_range bits (- int k)" "bits \<le> 64" "ends_number r"
  shows "scan_int v bits (CHR ''-'' # decimal k @ r) = Some (- int k)"
proof -
  from in_range_64 [OF assms(1,2)] have k: "int k \<le> 2 ^ 63" by simp
  then have k: "k \<le> 2 ^ 63" by simp
  then have "ParseUint64 v (decimal k) = Some k" by (intro ParseUint64_decimal) simp
  with k have p: "ParseInt64 v (CHR ''-'' # decimal k) = Some (- int k)"
    by (simp add: ParseInt64_def accept_sign_def)
  have "skip_space False (CHR ''-'' # decimal k @ r) = Some (CHR ''-'' # decimal k @ r)"
    by (simp add: blank_def byte_at_def)
  with p scanNumber_decimal [OF assms(3), of v k] assms(1) show ?thesis
    by (simp add: scan_int_def accept_sign_def in_range_def)
qed

lemma scan_int_pos:
  assumes "in_range bits (int k)" "bits \<le> 64" "ends_number r"
  shows "scan_int v bits (decimal k @ r) = Some (int k)"
proof -
  from in_range_64 [OF assms(1,2)] have k: "int k < 2 ^ 63" by simp
  then have k: "k < 2 ^ 63" by simp
  then have u: "ParseUint64 v (decimal k) = Some k" by (intro ParseUint64_decimal) simp
  obtain c s where d: "decimal k = c # s" "dec_char c" by (rule decimal_Cons)
  from u k d have p: "ParseInt64 v (decimal k) = Some (int k)"
    by (simp add: ParseInt64_def accept_sign_dec)
  with scanNumber_decimal [OF assms(3), of v k] assms(1) d show ?thesis
    by (simp add: scan_int_def accept_sign_dec skip_space_dec in_range_def del: skip_space.simps)
qed

lemma scan_int_show: "in_range bits n \<Longrightarrow> bits \<le> 64 \<Longrightarrow> scan_int v bits (show_int n) = Some n"
  using scan_int_neg [of bits "nat (- n)" "[]" v] scan_int_pos [of bits "nat n" "[]" v]
  by (simp add: show_int_def ends_number_def)

section \<open>Numbers that went through a float64\<close>

lemma decimal_single: "k < 10 \<Longrightarrow> decimal k = [char_of (k + 48)]"
  by (subst decimal.simps) simp

lemma decimal_leading: "\<exists>k s. k < 10 \<and> decimal n = decimal k @ s \<and> (10 \<le> n \<longrightarrow> 0 < k) \<and> (n < 10 \<longrightarrow> k = n)"
proof (induction n rule: decimal.induct)
  case (1 n)
  show ?case
  proof (cases "n < 10")
    case True
    then show ?thesis by (intro exI [of _ n] exI [of _ "[]"]) simp
  next
    case False
    with 1 obtain k s where k: "k < 10" "decimal (n div 10) = decimal k @ s" "10 \<le> n div 10 \<longrightarrow> 0 < k"
      "n div 10 < 10 \<longrightarrow> k = n div 10" by blast
    have "0 < k" using k(3,4) False by (cases "n div 10 < 10") auto
    with k False show ?thesis by (subst decimal.simps) auto
  qed
qed

text \<open>From \<open>10 ^ 6\<close> on only the leading digit is read back.\<close>

definition leading :: "nat \<Rightarrow> nat" where
  "leading n = (case digit_val (hd (decimal n)) of Some d \<Rightarrow> d | None \<Rightarrow> 0)"

lemma sprint_big:
  assumes "10 ^ 6 \<le> n"
  obtains r where "sprint_float_nat n = decimal (leading n) @ r" "ends_number r" "leading n < 10"
proof -
  obtain k s where k: "k < 10" "decimal n = decimal k @ s" using decimal_leading by blast
  then have h: "hd (decimal n) = char_of (k + 48)" by (simp add: decimal_single)
  then have l: "leading n = k" using k(1) digit_char(2) by (simp add: leading_def)
  show thesis
    by (rule that [of "tl (sprint_float_nat n)"])
      (use assms l k h in \<open>auto simp: sprint_float_nat_def Let_def decimal_single ends_number_def\<close>)
qed

lemma sprint_small: "n < 10 ^ 6 \<Longrightarrow> sprint_float_nat n = decimal n"
  by (simp add: sprint_float_nat_def Let_def)

lemma scan_uint_float:
  assumes "n < 2 ^ 32"
  shows "scan_uint 32 (sprint_float (int n)) = Some (if n < 10 ^ 6 then n else leading n)"
proof (cases "n < 10 ^ 6")
  case True
  with assms scan_uint_decimal [of n 32 "[]"] show ?thesis
    by (simp add: sprint_float_def sprint_small ends_number_def)
next
  case False
  then obtain r where "sprint_float_nat n = decimal (leading n) @ r" "ends_number r" "leading n < 10"
    using sprint_big [of n] by auto
  with False scan_uint_decimal [of "leading n" 32 r] show ?thesis by (simp add: sprint_float_def)
qed

lemma scan_int_float:
  assumes "in_range 32 n"
  shows "scan_int True 32 (sprint_float n) =
    Some (if \<bar>n\<bar> < 10 ^ 6 then n else sgn n * int (leading (nat \<bar>n\<bar>)))"
proof (cases "\<bar>n\<bar> < 10 ^ 6")
  case True
  then have "sprint_float n = show_int n"
    by (auto simp: sprint_float_def show_int_def sprint_small)
  with True scan_int_show [OF assms] show ?thesis by simp
next
  case False
  let ?m = "nat \<bar>n\<bar>"
  have "10 ^ 6 \<le> ?m" using False by simp
  from sprint_big [OF this] obtain r where r: "sprint_float_nat ?m = decimal (leading ?m) @ r"
    "ends_number r" "leading ?m < 10" by blast
  have "in_range 32 (int (leading ?m))" "in_range 32 (- int (leading ?m))"
    using r(3) by (simp_all add: in_range_def)
  from scan_int_pos [OF this(1) _ r(2), of True] scan_int_neg [OF this(2) _ r(2), of True] r(1) False
  show ?thesis by (auto simp: sprint_float_def sgn_if)
qed

section \<open>Words\<close>

lemma in_range_sint: "in_range 32 (sint (w :: u32))" "in_range 64 (sint (x :: u64))"
  using sint_ge [of w] sint_lt [of w] sint_ge [of x] sint_lt [of x] by (simp_all add: in_range_def)

section \<open>Hexadecimal, quoting and bytes\<close>

lemma unat_u8: "unat (b :: u8) < 256"
  using unsigned_less [where 'a = nat, of b] by simp

lemma hex_val_digit: "n < 16 \<Longrightarrow> hex_val (hex_digit n) = Some n"
proof -
  have "\<forall>n \<in> set [0 ..< 16]. hex_val (hex_digit n) = Some n" by code_simp
  then show "n < 16 \<Longrightarrow> hex_val (hex_digit n) = Some n" by simp
qed

lemma DecodeString_Encode [simp]: "DecodeString (EncodeToString bs) = Some bs"
proof (induction bs)
  case (Cons b bs)
  have "unat b div 16 < 16" using unat_u8 [of b] by simp
  moreover have "16 * (unat b div 16) + unat b mod 16 = unat b" by simp
  then have "(16 * of_nat (unat b div 16) + of_nat (unat b mod 16) :: u8) = b"
    by (metis of_nat_add of_nat_mult of_nat_numeral of_nat_unat_id)
  ultimately show ?case using Cons by (simp add: EncodeToString_def hex_byte_def hex_val_digit)
qed (simp add: EncodeToString_def)

text \<open>Strings the verb q only puts between quotes.\<close>

definition plain_char :: "char \<Rightarrow> bool" where
  "plain_char c \<longleftrightarrow> 32 \<le> byte_at c \<and> byte_at c < 127 \<and> byte_at c \<noteq> 34 \<and> byte_at c \<noteq> 92"

lemma Quote_plain:
  assumes "list_all plain_char s"
  shows "Quote r s = CHR 0x22 # s @ [CHR 0x22]"
proof -
  have "map quote_char s = map (\<lambda>c. [c]) s"
    using assms by (auto simp: quote_char_def plain_char_def list_all_iff Let_def)
  then have "concat (map quote_char s) = s" by (simp only:) (induction s, simp_all)
  moreover have "\<forall>c \<in> set s. byte_at c < 128" using assms by (auto simp: plain_char_def list_all_iff)
  ultimately show ?thesis by (simp add: Quote_def)
qed

lemma hex_digit_plain: "n < 16 \<Longrightarrow> plain_char (hex_digit n)"
proof -
  have "\<forall>n \<in> set [0 ..< 16]. plain_char (hex_digit n)" by code_simp
  then show "n < 16 \<Longrightarrow> plain_char (hex_digit n)" by simp
qed

lemma Encode_plain: "list_all plain_char (EncodeToString bs)"
proof -
  have "list_all plain_char (hex_byte b)" for b :: u8
    using unat_u8 [of b] by (simp add: hex_byte_def hex_digit_plain)
  then show ?thesis by (auto simp: EncodeToString_def list_all_iff)
qed

lemma bytes_of_chars [simp]: "bytes_of (chars_of bs) = bs"
proof -
  have "of_nat (of_char (char_of (unat b) :: char)) = b" for b :: u8
    using unat_u8 [of b] by simp
  then show ?thesis by (simp add: bytes_of_def chars_of_def comp_def map_idI)
qed

lemma length_bytes_of [simp]: "length (bytes_of s) = length s"
  by (simp add: bytes_of_def)

lemma length_chars_of [simp]: "length (chars_of s) = length s"
  by (simp add: chars_of_def)


end
