(* ===== verification/Emitter.thy ===== *)
theory Emitter imports XdrSchema GoText begin

text \<open>
  What the emitter of goxdr (cmd/goxdr/goxdr.go) decides before it formats any text: Go
  names of XDR names, the bound of a declaration (get_bound), whether a discriminant is a
  bool (is_bool), the names of the helper types for pointers, vectors and arrays and
  their emission at most once (gen_ptr, gen_vec, gen_array, gen_array_opaque, done), the
  renaming of enum tags under -scoped-enums (scopeEnumTags); and the action of parse.y that
  appends an arm to a union. The symbol table is an association list by XDR name; the
  text of a helper type is a value that holds what the template is instantiated with.
\<close>

section \<open>Names\<close>

text \<open>The XDR name and the Go name of an identifier (syms.go).\<close>

record idval =
  xid :: string
  goid :: string

fun capitalize :: "string \<Rightarrow> string" where
  "capitalize [] = []"
| "capitalize (c # s) = (if is_lower c then char_of (byte_at c AND NOT 0x20) # s else c # s)"

fun uncapitalize :: "string \<Rightarrow> string" where
  "uncapitalize [] = []"
| "uncapitalize (c # s) = (if is_upper c then char_of (byte_at c OR 0x20) # s else c # s)"

definition setglobal :: "string \<Rightarrow> idval" where
  "setglobal s = \<lparr>xid = s, goid = capitalize s\<rparr>"

definition setlocal :: "string \<Rightarrow> idval" where
  "setlocal s = \<lparr>xid = s, goid = s\<rparr>"

definition Xdrinline_prefix :: string where
  "Xdrinline_prefix = ''XdrAnon_''"

definition xdrinline :: "string \<Rightarrow> string" where
  "xdrinline s = (if take (length Xdrinline_prefix) s = Xdrinline_prefix then s else Xdrinline_prefix @ s)"

section \<open>Syntax trees\<close>

text \<open>The symbols the parser produces; the typ of an inline declaration is the empty name.\<close>

datatype ast_decl =
  Decl (ad_id: idval) (ad_qual: qual_t) (ad_bound: idval) (ad_typ: idval) (ad_inline: "ast_sym option")
and ast_field =
  Field (af_cases: "idval list") (af_decl: ast_decl) (af_default: bool)
and ast_sym =
    S_const idval idval
  | S_typedef ast_decl
  | S_enum idval "(idval \<times> idval) list"
  | S_struct idval "ast_decl list"
  | S_union idval idval idval "ast_field list" bool
  | S_program idval

type_synonym symmap = "(string \<times> ast_sym) list"

section \<open>Bounds\<close>

text \<open>The loop of get_bound: through constants, until a name comes back.\<close>

function bound_loop :: "symmap \<Rightarrow> string list \<Rightarrow> idval \<Rightarrow> idval" where
  "bound_loop S seen b =
     (if xid b \<in> set seen then b
      else case map_of S (xid b) of
        Some (S_const i v) \<Rightarrow> bound_loop S (xid b # seen) v
      | _ \<Rightarrow> b)"
  by pat_completeness auto

termination
proof (relation "measure (\<lambda>(S, seen, b). card (set (map fst S) - set seen))")
  fix S :: symmap and seen and b :: idval and s i v
  assume "xid b \<notin> set seen" "map_of S (xid b) = Some s" "s = S_const i v"
  then have "xid b \<in> set (map fst S) - set seen" by (auto dest: map_of_SomeD simp: rev_image_eqI)
  then have "card (set (map fst S) - set seen - {xid b}) < card (set (map fst S) - set seen)"
    by (intro card_Diff1_less) auto
  moreover have "set (map fst S) - set (xid b # seen) = set (map fst S) - set seen - {xid b}" by auto
  ultimately show "((S, xid b # seen, v), (S, seen, b)) \<in> measure (\<lambda>(S, seen, b). card (set (map fst S) - set seen))"
    by simp
qed simp

declare bound_loop.simps [simp del]

definition get_bound :: "symmap \<Rightarrow> idval \<Rightarrow> string \<times> string" where
  "get_bound S b0 =
     (let b = bound_loop S [] b0; x = (if xid b = [] then ''0xffffffff'' else xid b)
      in case ParseUint x of
           Some n \<Rightarrow>
             (if decimal n = ''4294967295'' then (decimal n, ''unbounded'') else (decimal n, decimal n))
         | None \<Rightarrow>
             (if hd x = CHR ''-'' then (xid b0, xid b0)
              else if x = ''4294967295'' then (x, ''unbounded'') else (x, x)))"

section \<open>Bool discriminants\<close>

text \<open>One step of the loop of is_bool: the answer, or the type a typedef stands for.\<close>

definition bool_step :: "symmap \<Rightarrow> idval \<Rightarrow> bool + idval" where
  "bool_step S t =
     (if xid t = ''bool'' then Inl True
      else if goid t = [] \<or> is_lower (hd (goid t)) then Inl False
      else case map_of S (xid t) of
        Some (S_typedef d) \<Rightarrow>
          if ad_qual d \<noteq> SCALAR \<or> goid (ad_typ d) = [] \<or> ad_inline d \<noteq> None then Inl False
          else Inr (ad_typ d)
      | _ \<Rightarrow> Inl False)"

text \<open>The loop has no bound of its own: None means that it does not return.\<close>

partial_function (option) is_bool :: "symmap \<Rightarrow> idval \<Rightarrow> bool option" where
  "is_bool S t = (case bool_step S t of Inl b \<Rightarrow> Some b | Inr t' \<Rightarrow> is_bool S t')"

section \<open>Helper types\<close>

text \<open>
  The text written to the footer for a pointer, vector or array type: the template and
  the type and bound it is instantiated with.
\<close>

datatype helper = H_ptr string | H_vec string string | H_array string string | H_opaque string

text \<open>The emitter: the names done() has seen, and the helper types in the footer.\<close>

record emitter =
  em_emitted :: "string set"
  em_footer :: "(string \<times> helper) list"

definition em_done :: "string \<Rightarrow> emitter \<Rightarrow> bool \<times> emitter" where
  "em_done typ e =
     (if typ \<in> em_emitted e then (True, e) else (False, e\<lparr>em_emitted := insert typ (em_emitted e)\<rparr>))"

definition gen_once :: "string \<Rightarrow> helper \<Rightarrow> emitter \<Rightarrow> string \<times> emitter" where
  "gen_once name h e =
     (case em_done name e of
        (True, e') \<Rightarrow> (name, e')
      | (False, e') \<Rightarrow> (name, e'\<lparr>em_footer := em_footer e' @ [(name, h)]\<rparr>))"

definition gen_ptr :: "idval \<Rightarrow> emitter \<Rightarrow> string \<times> emitter" where
  "gen_ptr typ e =
     (let ptrtyp = (if hd (goid typ) = CHR ''_'' then ''_XdrPtr'' @ goid typ else ''_XdrPtr_'' @ goid typ)
      in gen_once ptrtyp (H_ptr (goid typ)) e)"

definition gen_vec :: "symmap \<Rightarrow> idval \<Rightarrow> idval \<Rightarrow> emitter \<Rightarrow> string \<times> emitter" where
  "gen_vec S typ bound0 e =
     (case get_bound S bound0 of (bound, sbound) \<Rightarrow>
        let vectyp = (if hd (goid typ) = CHR ''_'' then ''_XdrVec'' @ goid typ
                      else ''_XdrVec_'' @ sbound @ ''_'' @ goid typ)
        in gen_once vectyp (H_vec bound (goid typ)) e)"

definition gen_array :: "symmap \<Rightarrow> idval \<Rightarrow> idval \<Rightarrow> emitter \<Rightarrow> string \<times> emitter" where
  "gen_array S typ bound0 e =
     (case get_bound S bound0 of (bound, sbound) \<Rightarrow>
        let vectyp = (if hd (goid typ) = CHR ''_'' then ''_XdrArray'' @ goid typ
                      else ''_XdrArray_'' @ bound @ ''_'' @ goid typ)
        in gen_once vectyp (H_array bound (goid typ)) e)"

definition gen_array_opaque :: "symmap \<Rightarrow> idval \<Rightarrow> emitter \<Rightarrow> string \<times> emitter" where
  "gen_array_opaque S bound0 e =
     (case get_bound S bound0 of (bound, sbound) \<Rightarrow>
        gen_once (''_XdrArray_'' @ bound @ ''_opaque'') (H_opaque bound) e)"

text \<open>xdrtype and xdrval: the helper type of a declaration whose type has a name, if it needs one.\<close>

definition gen_decl :: "symmap \<Rightarrow> ast_decl \<Rightarrow> emitter \<Rightarrow> string option \<times> emitter" where
  "gen_decl S d e =
     (let some = (\<lambda>(n, e'). (Some n, e')); typ = ad_typ d in
      if goid typ = ''string'' then (None, e)
      else if goid typ = ''byte''
      then (if ad_qual d = VEC then (None, e) else some (gen_array_opaque S (ad_bound d) e))
      else case ad_qual d of
        SCALAR \<Rightarrow> (None, e)
      | PTR \<Rightarrow> some (gen_ptr typ e)
      | ARRAY \<Rightarrow> some (gen_array S typ (ad_bound d) e)
      | VEC \<Rightarrow> some (gen_vec S typ (ad_bound d) e))"

definition gen_decls :: "symmap \<Rightarrow> ast_decl list \<Rightarrow> emitter \<Rightarrow> emitter" where
  "gen_decls S ds e = fold (\<lambda>d e. snd (gen_decl S d e)) ds e"

definition new_emitter :: emitter where
  "new_emitter = \<lparr>em_emitted = {}, em_footer = []\<rparr>"

section \<open>Scoped enum tags\<close>

definition scoped_name :: "idval \<Rightarrow> idval \<Rightarrow> string" where
  "scoped_name e tag = ''k'' @ goid e @ capitalize (xid tag)"

text \<open>The map of renames: a later tag of the same name wins.\<close>

definition renames :: "ast_sym list \<Rightarrow> string \<rightharpoonup> string" where
  "renames syms =
     fold (\<lambda>s r. case s of
             S_enum e tags \<Rightarrow> fold (\<lambda>(t, v) r. r(xid t \<mapsto> scoped_name e t)) tags r
           | _ \<Rightarrow> r) syms Map.empty"

definition applyRename :: "(string \<rightharpoonup> string) \<Rightarrow> idval \<Rightarrow> idval" where
  "applyRename r iv = (case r (xid iv) of Some n \<Rightarrow> iv\<lparr>goid := n\<rparr> | None \<Rightarrow> iv)"

definition scope_sym :: "(string \<rightharpoonup> string) \<Rightarrow> ast_sym \<Rightarrow> ast_sym" where
  "scope_sym r s =
     (case s of
        S_enum e tags \<Rightarrow> S_enum e (map (\<lambda>(t, v). (t\<lparr>goid := scoped_name e t\<rparr>, applyRename r v)) tags)
      | S_union i tt ti fs dflt \<Rightarrow>
          S_union i tt ti (map (\<lambda>f. Field (map (applyRename r) (af_cases f)) (af_decl f) (af_default f)) fs) dflt
      | S_const i v \<Rightarrow> S_const i (applyRename r v)
      | _ \<Rightarrow> s)"

definition scope_entry :: "(string \<rightharpoonup> string) \<Rightarrow> ast_sym \<Rightarrow> ast_sym" where
  "scope_entry r s = (case s of S_const i v \<Rightarrow> S_const (applyRename r i) (applyRename r v) | _ \<Rightarrow> s)"

definition scopeEnumTags :: "ast_sym list \<times> symmap \<Rightarrow> ast_sym list \<times> symmap" where
  "scopeEnumTags = (\<lambda>(syms, S).
     let r = renames syms in (map (scope_sym r) syms, map (\<lambda>(k, s). (k, scope_entry r s)) S))"

section \<open>The arms of a union in the parser\<close>

text \<open>
  The action of union_case_spec_list, with the number of errors reported: fields[n] with n
  the length of fields is out of range.
\<close>

datatype arms = Arms "ast_field list" bool nat | Index_panic

definition add_case_spec :: "arms \<Rightarrow> ast_field \<Rightarrow> arms" where
  "add_case_spec a f =
     (case a of
        Arms fs dflt errors \<Rightarrow>
          if \<not> dflt then Arms (fs @ [f]) (af_default f) errors
          else if \<not> af_default f
          then (let n = length fs in
                if n < length fs then Arms ((fs @ [fs ! n])[n := f]) dflt errors else Index_panic)
          else Arms fs dflt (Suc errors)
      | Index_panic \<Rightarrow> Index_panic)"

fun union_case_spec_list :: "ast_field list \<Rightarrow> arms" where
  "union_case_spec_list [] = Arms [] False 0"
| "union_case_spec_list (f # fs) = foldl add_case_spec (Arms [f] (af_default f) 0) fs"

section \<open>Initial discriminants\<close>

text \<open>
  XdrInitialize of an enum, and of a union without a default arm: the tags in the order of
  the source, unless one of them has a bound that reads 0 (or FALSE), when the method is
  not emitted.
\<close>

definition enum_tags_init :: "symmap \<Rightarrow> (idval \<times> idval) list \<Rightarrow> idval list option" where
  "enum_tags_init S tags =
     (if list_ex (\<lambda>(t, v). fst (get_bound S t) = ''0'') tags then None else Some (map fst tags))"

definition union_tags_init :: "symmap \<Rightarrow> ast_field list \<Rightarrow> idval list option" where
  "union_tags_init S fs =
     (let tags = concat (map af_cases fs) in
      if list_ex (\<lambda>t. fst (get_bound S t) = ''0'' \<or> fst (get_bound S t) = ''FALSE'') tags
      then None else Some tags)"

text \<open>
  The emitted method on a value; \<open>val\<close> is what the Go compiler evaluates a constant to. A
  switch whose cases hold 0 leaves the value alone.
\<close>

definition XdrInitialize :: "(idval \<Rightarrow> u32) \<Rightarrow> idval list option \<Rightarrow> u32 \<Rightarrow> u32" where
  "XdrInitialize val init v =
     (case init of
        None \<Rightarrow> v
      | Some tags \<Rightarrow> if 0 \<in> set (map val tags) then v else if v = 0 then val (hd tags) else v)"


end
