(* ===== verification/EmitterCorrect.thy ===== *)
theory EmitterCorrect imports Emitter begin

text \<open>
  The emitter's decisions: bounds and bool discriminants through constants and typedefs,
  helper types declared once and for the right type and bound, scoped enum tags, the arms
  of a union.
\<close>

section \<open>Bounds\<close>

text \<open>
  What a bound stands for: the end of the chain of constants that starts at its name, if
  the chain ends. The number of steps only depends on the name.
\<close>

inductive ends_at :: "symmap \<Rightarrow> nat \<Rightarrow> idval \<Rightarrow> idval \<Rightarrow> bool" for S where
  ends_here: "\<forall>i v. map_of S (xid b) \<noteq> Some (S_const i v) \<Longrightarrow> ends_at S 0 b b"
| ends_step: "map_of S (xid b) = Some (S_const i v) \<Longrightarrow> ends_at S k v c \<Longrightarrow> ends_at S (Suc k) b c"

inductive_cases ends_constE: "ends_at S k b c"

lemma ends_at_length: "ends_at S k b c \<Longrightarrow> ends_at S k' b' c' \<Longrightarrow> xid b = xid b' \<Longrightarrow> k = k'"
proof (induction arbitrary: k' b' rule: ends_at.induct)
  case (ends_here b)
  from ends_here.prems(1) show ?case by (cases rule: ends_constE) (use ends_here in auto)
next
  case (ends_step b i v k c)
  have "\<exists>j. k' = Suc j \<and> ends_at S j v c'"
    using ends_step.prems(1) ends_step.hyps(1) ends_step.prems(2) by (auto elim: ends_constE)
  then show ?case using ends_step.IH [of _ v] by auto
qed

lemma bound_loop_ends:
  "ends_at S k b c \<Longrightarrow> \<forall>x \<in> set seen. \<exists>j b' c'. k < j \<and> xid b' = x \<and> ends_at S j b' c' \<Longrightarrow>
   bound_loop S seen b = c"
proof (induction arbitrary: seen rule: ends_at.induct)
  case (ends_here b)
  then show ?case by (subst bound_loop.simps) (auto split: option.splits ast_sym.splits)
next
  case (ends_step b i v k c)
  have e: "ends_at S (Suc k) b c" using ends_step.hyps by (rule ends_at.ends_step)
  have "xid b \<notin> set seen" using ends_step.prems ends_at_length [OF e] by fastforce
  moreover have "bound_loop S (xid b # seen) v = c"
  proof (rule ends_step.IH)
    show "\<forall>x \<in> set (xid b # seen). \<exists>j b' c'. k < j \<and> xid b' = x \<and> ends_at S j b' c'"
      using ends_step.prems e by (metis Suc_lessD lessI set_ConsD)
  qed
  ultimately show ?case using ends_step.hyps(1) by (subst bound_loop.simps) simp
qed

lemma get_bound_ends:
  "ends_at S k b c \<Longrightarrow> ParseUint (if xid c = [] then ''0xffffffff'' else xid c) = Some n \<Longrightarrow>
   get_bound S b = (decimal n, if decimal n = ''4294967295'' then ''unbounded'' else decimal n)"
  using bound_loop_ends [of S k b c "[]"] by (simp add: get_bound_def)

lemma get_bound_number:
  assumes "ends_at S k b c" and "if xid c = [] then n = 0xffffffff else ParseUint (xid c) = Some n"
  shows "get_bound S b = (decimal n, if n = 0xffffffff then ''unbounded'' else decimal n)"
proof -
  have u: "ParseUint ''0xffffffff'' = Some 0xffffffff"
    by (simp add: ParseUint_def digit_val_def byte_at_def)
  have d: "''4294967295'' = decimal 0xffffffff"
    by (simp add: decimal.simps digit_chars)
  have "ParseUint (if xid c = [] then ''0xffffffff'' else xid c) = Some n"
    using assms(2) u by (cases "xid c = []") (simp_all only: if_True if_False simp_thms)
  from get_bound_ends [OF assms(1) this] show ?thesis unfolding d decimal_inject .
qed

text \<open>
  get_bound follows constants, whatever their number and order, to the number they stand
  for and returns it in decimal, with the name unbounded for 0xffffffff, which no bound at
  all also stands for.
\<close>

lemma get_bound_follows_constants:
  assumes "ends_at S k b c" and "if xid c = [] then n = 0xffffffff else ParseUint (xid c) = Some n"
  shows "get_bound S b = (decimal n, if n = 0xffffffff then ''unbounded'' else decimal n)"
  by (rule get_bound_number [OF assms])

definition ex_syms :: symmap where
  "ex_syms = [(''A'', S_const (setglobal ''A'') (setglobal ''B'')), (''B'', S_const (setglobal ''B'') (setglobal ''0x10'')),
     (''L'', S_const (setglobal ''L'') (setglobal ''L''))]"

lemma get_bound_follows_constants_witness:
  "get_bound ex_syms (setglobal ''A'') = (decimal 16, decimal 16) \<and> get_bound ex_syms (setlocal []) = (decimal 0xffffffff, ''unbounded'')"
proof -
  have A: "ends_at ex_syms 2 (setglobal ''A'') (setglobal ''0x10'')"
    unfolding numeral_2_eq_2
  proof (rule ends_step)
    show "map_of ex_syms (xid (setglobal ''A'')) = Some (S_const (setglobal ''A'') (setglobal ''B''))" by code_simp
    show "ends_at ex_syms (Suc 0) (setglobal ''B'') (setglobal ''0x10'')"
    proof (rule ends_step)
      show "map_of ex_syms (xid (setglobal ''B'')) = Some (S_const (setglobal ''B'') (setglobal ''0x10''))" by code_simp
      show "ends_at ex_syms 0 (setglobal ''0x10'') (setglobal ''0x10'')"
        by (rule ends_here) (simp add: ex_syms_def setglobal_def)
    qed
  qed
  have E: "ends_at ex_syms 0 (setlocal []) (setlocal [])"
    by (rule ends_here) (simp add: ex_syms_def setlocal_def)
  have "if xid (setglobal ''0x10'') = [] then (16 :: nat) = 0xffffffff else ParseUint (xid (setglobal ''0x10'')) = Some 16"
    by (simp add: setglobal_def ParseUint_def digit_val_def byte_at_def)
  from get_bound_follows_constants [OF A this] get_bound_follows_constants [OF E, where n = "0xffffffff"]
  show ?thesis by (simp add: setlocal_def)
qed

section \<open>Bool discriminants\<close>

text \<open>The chain of typedefs is_bool walks: its \<open>k\<close>-th type, or the answer before it.\<close>

fun bool_chain :: "symmap \<Rightarrow> nat \<Rightarrow> idval \<Rightarrow> bool + idval" where
  "bool_chain S 0 t = Inr t"
| "bool_chain S (Suc k) t = (case bool_step S t of Inl b \<Rightarrow> Inl b | Inr t' \<Rightarrow> bool_chain S k t')"

lemma is_bool_step:
  "bool_step S t = Inl b \<Longrightarrow> is_bool S t = Some b"
  "bool_step S t = Inr t' \<Longrightarrow> is_bool S t = is_bool S t'"
  by (subst is_bool.simps; simp)+

lemma is_bool_answer: "bool_chain S k t = Inl b \<Longrightarrow> is_bool S t = Some b"
  by (induction k arbitrary: t) (auto simp: is_bool_step split: sum.splits)

lemma is_bool_chain:
  assumes "is_bool S t = Some b"
  shows "\<exists>k. bool_chain S k t = Inl b"
proof (rule is_bool.raw_induct [OF _ assms, where P = "\<lambda>S t b. \<exists>k. bool_chain S k t = Inl b"])
  fix rec S t b
  assume IH: "\<And>S t b. rec S t = Some b \<Longrightarrow> \<exists>k. bool_chain S k t = Inl b"
    and r: "(case bool_step S t of Inl b \<Rightarrow> Some b | Inr t' \<Rightarrow> rec S t') = Some b"
  show "\<exists>k. bool_chain S k t = Inl b"
  proof (cases "bool_step S t")
    case (Inl c)
    with r show ?thesis by (intro exI [of _ "Suc 0"]) simp
  next
    case (Inr t')
    with r IH [of S t' b] obtain k where "bool_chain S k t' = Inl b" by auto
    with Inr show ?thesis by (intro exI [of _ "Suc k"]) simp
  qed
qed

lemma bool_chain_cycle:
  assumes "bool_chain S n t = Inr t" "0 < n"
  shows "\<exists>u. bool_chain S k t = Inr u"
proof (induction k rule: less_induct)
  case (less k)
  have add: "bool_chain S (i + j) t = (case bool_chain S i t of Inl b \<Rightarrow> Inl b | Inr u \<Rightarrow> bool_chain S j u)" for i j t
    by (induction i arbitrary: t) (auto split: sum.splits)
  show ?case
  proof (cases "k < n")
    case True
    with add [of k "n - k" t] assms(1) show ?thesis by (cases "bool_chain S k t") auto
  next
    case False
    with add [of n "k - n" t] assms less.IH [of "k - n"] show ?thesis by simp
  qed
qed

lemma is_bool_True:
  "is_bool S t = Some True \<longleftrightarrow> (\<exists>k u. bool_chain S k t = Inr u \<and> xid u = ''bool'')"
proof
  assume "is_bool S t = Some True"
  then obtain k where "bool_chain S k t = Inl True" using is_bool_chain by blast
  then show "\<exists>k u. bool_chain S k t = Inr u \<and> xid u = ''bool''"
  proof (induction k arbitrary: t)
    case (Suc k)
    show ?case
    proof (cases "bool_step S t")
      case (Inl c)
      with Suc.prems have "xid t = ''bool''"
        by (auto simp: bool_step_def split: if_splits option.splits ast_sym.splits)
      then show ?thesis by (intro exI [of _ 0]) simp
    next
      case (Inr t')
      with Suc.prems Suc.IH [of t'] obtain j u where "bool_chain S j t' = Inr u" "xid u = ''bool''" by auto
      with Inr show ?thesis by (intro exI [of _ "Suc j"]) simp
    qed
  qed simp
next
  assume "\<exists>k u. bool_chain S k t = Inr u \<and> xid u = ''bool''"
  then obtain k u where "bool_chain S k t = Inr u" "xid u = ''bool''" by blast
  then show "is_bool S t = Some True"
  proof (induction k arbitrary: t)
    case 0
    then show ?case by (simp add: is_bool_step bool_step_def)
  next
    case (Suc k)
    then show ?case by (auto simp: is_bool_step split: sum.splits)
  qed
qed

text \<open>
  is_bool returns if and only if the typedefs it follows end, and then answers whether
  they end at bool. On typedefs that lead back to where they started it does not return, so
  that goxdr hangs on a union whose discriminant has such a type.
\<close>

lemma is_bool_returns:
  "(is_bool S t \<noteq> None \<longleftrightarrow> (\<exists>k b. bool_chain S k t = Inl b)) \<and>
   (is_bool S t = Some True \<longleftrightarrow> (\<exists>k u. bool_chain S k t = Inr u \<and> xid u = ''bool'')) \<and>
   ((\<exists>n. bool_chain S (Suc n) t = Inr t) \<longrightarrow> is_bool S t = None)"
proof (intro conjI)
  show "is_bool S t \<noteq> None \<longleftrightarrow> (\<exists>k b. bool_chain S k t = Inl b)"
    using is_bool_answer is_bool_chain by (metis not_None_eq)
  show "(\<exists>n. bool_chain S (Suc n) t = Inr t) \<longrightarrow> is_bool S t = None"
    using bool_chain_cycle is_bool_chain by (metis Inl_Inr_False not_None_eq zero_less_Suc)
qed (rule is_bool_True)

definition ex_typedefs :: symmap where
  "ex_typedefs =
     [(''A'', S_typedef (Decl (setglobal ''A'') SCALAR (setlocal []) (setglobal ''B'') None)),
      (''B'', S_typedef (Decl (setglobal ''B'') SCALAR (setlocal []) (setglobal ''A'') None)),
      (''C'', S_typedef (Decl (setglobal ''C'') SCALAR (setlocal []) (setlocal ''bool'') None))]"

lemma is_bool_returns_witness:
  "is_bool ex_typedefs (setglobal ''A'') = None \<and> is_bool ex_typedefs (setglobal ''C'') = Some True"
proof -
  have "bool_chain ex_typedefs (Suc (Suc 0)) (setglobal ''A'') = Inr (setglobal ''A'')" by code_simp
  moreover have "bool_chain ex_typedefs (Suc 0) (setglobal ''C'') = Inr (setlocal ''bool'')" by code_simp
  moreover have "xid (setlocal ''bool'') = ''bool''" by (simp add: setlocal_def)
  ultimately show ?thesis using is_bool_returns by blast
qed

section \<open>Helper types\<close>

text \<open>The helper type a declaration needs: its kind, the Go name of its type and its bound.\<close>

definition helper_of :: "symmap \<Rightarrow> ast_decl \<Rightarrow> helper option" where
  "helper_of S d =
     (let typ = goid (ad_typ d); bound = fst (get_bound S (ad_bound d)) in
      if typ = ''string'' then None
      else if typ = ''byte'' then (if ad_qual d = VEC then None else Some (H_opaque bound))
      else case ad_qual d of
        SCALAR \<Rightarrow> None
      | PTR \<Rightarrow> Some (H_ptr typ)
      | ARRAY \<Rightarrow> Some (H_array bound typ)
      | VEC \<Rightarrow> Some (H_vec bound typ))"

text \<open>
  A declaration whose bound is a number, possibly through constants of the same file, and
  whose type is not opaque, which is a keyword, and does not begin with an underscore.
\<close>

definition plain_decl :: "symmap \<Rightarrow> ast_decl \<Rightarrow> bool" where
  "plain_decl S d \<longleftrightarrow> goid (ad_typ d) \<noteq> [] \<and> hd (goid (ad_typ d)) \<noteq> CHR ''_'' \<and> goid (ad_typ d) \<noteq> ''opaque'' \<and>
     (\<exists>n. get_bound S (ad_bound d) = (decimal n, if n = 0xffffffff then ''unbounded'' else decimal n))"

definition vec_bound_name :: "string \<Rightarrow> string" where
  "vec_bound_name b = (if b = decimal 0xffffffff then ''unbounded'' else b)"

fun helper_name :: "helper \<Rightarrow> string" where
  "helper_name (H_ptr t) = ''_XdrPtr_'' @ t"
| "helper_name (H_vec b t) = ''_XdrVec_'' @ vec_bound_name b @ ''_'' @ t"
| "helper_name (H_array b t) = ''_XdrArray_'' @ b @ ''_'' @ t"
| "helper_name (H_opaque b) = ''_XdrArray_'' @ b @ ''_opaque''"

fun plain_helper :: "helper \<Rightarrow> bool" where
  "plain_helper (H_ptr t) = True"
| "plain_helper (H_vec b t) = (\<exists>n. b = decimal n)"
| "plain_helper (H_array b t) = ((\<exists>n. b = decimal n) \<and> t \<noteq> ''opaque'')"
| "plain_helper (H_opaque b) = (\<exists>n. b = decimal n)"

lemma split_at_underscore:
  "CHR ''_'' \<notin> set a \<Longrightarrow> CHR ''_'' \<notin> set b \<Longrightarrow> a @ CHR ''_'' # t = b @ CHR ''_'' # u \<longleftrightarrow> a = b \<and> t = u"
proof (induction a arbitrary: b)
  case Nil
  then show ?case by (cases b) auto
next
  case (Cons c a)
  then show ?case by (cases b) auto
qed

lemma unbounded_ne: "''unbounded'' \<noteq> decimal n" "decimal n \<noteq> ''unbounded''"
  by (metis decimal_chars(2) list.set_intros(1))+

lemma vec_bound_name:
  "CHR ''_'' \<notin> set (vec_bound_name (decimal n))" "vec_bound_name (decimal m) = vec_bound_name (decimal n) \<longleftrightarrow> m = n"
  by (auto simp: vec_bound_name_def decimal_chars unbounded_ne)

lemma helper_name_inject:
  "plain_helper h \<Longrightarrow> plain_helper h' \<Longrightarrow> helper_name h = helper_name h' \<Longrightarrow> h = h'"
  by (cases h; cases h') (auto simp: split_at_underscore decimal_chars vec_bound_name)

lemma get_bound_vec_name:
  "get_bound S b = (decimal n, if n = 0xffffffff then ''unbounded'' else decimal n) \<Longrightarrow>
   vec_bound_name (fst (get_bound S b)) = snd (get_bound S b)"
  by (simp add: vec_bound_name_def)

lemma gen_decl_once:
  assumes "plain_decl S d"
  shows "gen_decl S d e = (case helper_of S d of
      None \<Rightarrow> (None, e) | Some h \<Rightarrow> (case gen_once (helper_name h) h e of (n, e') \<Rightarrow> (Some n, e')))"
    and "helper_of S d = Some h \<Longrightarrow> plain_helper h"
proof -
  from assms obtain n where n: "get_bound S (ad_bound d) = (decimal n, if n = 0xffffffff then ''unbounded'' else decimal n)"
    and t: "hd (goid (ad_typ d)) \<noteq> CHR ''_''" "goid (ad_typ d) \<noteq> ''opaque''"
    by (auto simp: plain_decl_def)
  show "gen_decl S d e = (case helper_of S d of
      None \<Rightarrow> (None, e) | Some h \<Rightarrow> (case gen_once (helper_name h) h e of (n, e') \<Rightarrow> (Some n, e')))"
    using t get_bound_vec_name [OF n] unfolding gen_decl_def helper_of_def
    by (cases "ad_qual d") (simp_all add: Let_def n gen_ptr_def gen_vec_def gen_array_def gen_array_opaque_def split: prod.splits)
  show "plain_helper h" if "helper_of S d = Some h"
    using that t n by (auto simp: helper_of_def Let_def split: if_splits qual_t.splits)
qed

text \<open>The footer declares each name done() has seen once, for the helper that has the name.\<close>

definition em_inv :: "emitter \<Rightarrow> bool" where
  "em_inv e \<longleftrightarrow> em_emitted e = fst ` set (em_footer e) \<and> distinct (map fst (em_footer e)) \<and>
     (\<forall>(n, h) \<in> set (em_footer e). n = helper_name h \<and> plain_helper h)"

lemma gen_once_inv:
  assumes "em_inv e" "plain_helper h" "gen_once (helper_name h) h e = (n, e')"
  shows "em_inv e'" and "n = helper_name h" and "(n, h) \<in> set (em_footer e')"
    and "set (em_footer e) \<subseteq> set (em_footer e')"
proof -
  have "h' = h" if "(helper_name h, h') \<in> set (em_footer e)" for h'
    using that assms(1,2) helper_name_inject [of h' h] by (auto simp: em_inv_def)
  then have old: "(helper_name h, h) \<in> set (em_footer e)" if "helper_name h \<in> em_emitted e"
    using that assms(1) by (auto simp: em_inv_def)
  have c: "e' = e \<and> helper_name h \<in> em_emitted e \<or> helper_name h \<notin> em_emitted e \<and>
      e' = \<lparr>em_emitted = insert (helper_name h) (em_emitted e), em_footer = em_footer e @ [(helper_name h, h)]\<rparr>"
    and n: "n = helper_name h"
    using assms(3) by (auto simp: gen_once_def em_done_def split: if_splits)
  show "n = helper_name h" by (rule n)
  show "(n, h) \<in> set (em_footer e')" "set (em_footer e) \<subseteq> set (em_footer e')" using c old n by auto
  show "em_inv e'" using c
  proof
    assume "helper_name h \<notin> em_emitted e \<and>
      e' = \<lparr>em_emitted = insert (helper_name h) (em_emitted e), em_footer = em_footer e @ [(helper_name h, h)]\<rparr>"
    with assms(1,2) show ?thesis unfolding em_inv_def by simp
  qed (use assms(1) in simp)
qed

lemma gen_decl_inv:
  assumes "em_inv e" "plain_decl S d"
  shows "em_inv (snd (gen_decl S d e))" and "set (em_footer e) \<subseteq> set (em_footer (snd (gen_decl S d e)))"
    and "helper_of S d = Some h \<Longrightarrow> (helper_name h, h) \<in> set (em_footer (snd (gen_decl S d e)))"
proof -
  have "em_inv (snd (gen_decl S d e)) \<and> set (em_footer e) \<subseteq> set (em_footer (snd (gen_decl S d e))) \<and>
    (helper_of S d = Some h \<longrightarrow> (helper_name h, h) \<in> set (em_footer (snd (gen_decl S d e))))" for h
  proof (cases "helper_of S d")
    case None
    with gen_decl_once(1) [OF assms(2)] assms(1) show ?thesis by simp
  next
    case (Some h')
    obtain n e' where g: "gen_once (helper_name h') h' e = (n, e')" by fastforce
    from gen_once_inv [OF assms(1) gen_decl_once(2) [OF assms(2) Some] g] gen_decl_once(1) [OF assms(2)] Some g
    show ?thesis by auto
  qed
  then show "em_inv (snd (gen_decl S d e))" "set (em_footer e) \<subseteq> set (em_footer (snd (gen_decl S d e)))"
    "helper_of S d = Some h \<Longrightarrow> (helper_name h, h) \<in> set (em_footer (snd (gen_decl S d e)))"
    by blast+
qed

lemma gen_decls_inv:
  "em_inv e \<Longrightarrow> \<forall>d \<in> set ds. plain_decl S d \<Longrightarrow>
   em_inv (gen_decls S ds e) \<and> set (em_footer e) \<subseteq> set (em_footer (gen_decls S ds e)) \<and>
   (\<forall>d \<in> set ds. \<forall>h. helper_of S d = Some h \<longrightarrow> (helper_name h, h) \<in> set (em_footer (gen_decls S ds e)))"
proof (induction ds arbitrary: e)
  case Nil
  then show ?case by (simp add: gen_decls_def)
next
  case (Cons d ds)
  then have p: "plain_decl S d" by simp
  note g = gen_decl_inv [OF Cons.prems(1) p]
  have "gen_decls S (d # ds) e = gen_decls S ds (snd (gen_decl S d e))" by (simp add: gen_decls_def)
  with Cons.IH [OF g(1)] Cons.prems(2) g(2,3) show ?case by auto
qed

text \<open>
  The helper types of a file: each name is declared once, and the name by which the code
  emitted for a declaration refers to its helper type is declared as the helper type for
  that declaration's kind, type and bound, whichever declaration came first.
\<close>

lemma helpers_right:
  assumes "\<forall>d \<in> set ds. plain_decl S d"
  shows "distinct (map fst (em_footer (gen_decls S ds new_emitter))) \<and>
    (\<forall>d \<in> set ds. case fst (gen_decl S d e) of
       None \<Rightarrow> helper_of S d = None
     | Some n \<Rightarrow> map_of (em_footer (gen_decls S ds new_emitter)) n = helper_of S d)"
proof -
  let ?e = "gen_decls S ds new_emitter"
  have "em_inv new_emitter" by (simp add: em_inv_def new_emitter_def)
  from gen_decls_inv [OF this assms] have i: "em_inv ?e"
    and h: "\<And>d h. d \<in> set ds \<Longrightarrow> helper_of S d = Some h \<Longrightarrow> (helper_name h, h) \<in> set (em_footer ?e)" by auto
  from i have dist: "distinct (map fst (em_footer ?e))" by (simp add: em_inv_def)
  have "case fst (gen_decl S d e) of None \<Rightarrow> helper_of S d = None | Some n \<Rightarrow> map_of (em_footer ?e) n = helper_of S d"
    if "d \<in> set ds" for d
  proof (cases "helper_of S d")
    case None
    with gen_decl_once(1) assms that show ?thesis by simp
  next
    case (Some x)
    have "fst (gen_decl S d e) = Some (helper_name x)"
      using gen_decl_once(1) [of S d e] assms that Some by (auto simp: gen_once_def split: prod.splits bool.splits)
    with map_of_is_SomeI [OF dist h [OF that Some]] Some show ?thesis by simp
  qed
  with dist show ?thesis by blast
qed

definition ex_decl :: "string \<Rightarrow> qual_t \<Rightarrow> string \<Rightarrow> string \<Rightarrow> ast_decl" where
  "ex_decl f q b t = Decl (setglobal f) q (setglobal b) (setglobal t) None"

lemma ex_decl_simps:
  "goid (ad_typ (ex_decl f q ''7'' ''Foo'')) = ''Foo''" "ad_qual (ex_decl f q b t) = q"
  "get_bound [] (ad_bound (ex_decl f q ''7'' t)) = (''7'', ''7'')" "decimal 7 = ''7''"
proof -
  have "ends_at [] 0 (setglobal ''7'') (setglobal ''7'')" by (rule ends_here) simp
  then have "get_bound [] (setglobal ''7'') = (decimal 7, if 7 = (0xffffffff :: nat) then ''unbounded'' else decimal 7)"
    by (rule get_bound_number) (simp add: setglobal_def ParseUint_def digit_val_def byte_at_def)
  moreover show d: "decimal 7 = ''7''" by (simp add: decimal.simps digit_chars)
  ultimately show "get_bound [] (ad_bound (ex_decl f q ''7'' t)) = (''7'', ''7'')" by (simp add: ex_decl_def)
qed (simp_all add: ex_decl_def setglobal_def is_lower_def byte_at_def)

lemma ex_plain: "plain_decl [] (ex_decl f q ''7'' ''Foo'')"
  unfolding plain_decl_def ex_decl_simps by (intro conjI exI [of _ 7]) (simp_all add: ex_decl_simps)

lemma helpers_right_witness:
  "map_of (em_footer (gen_decls [] [ex_decl ''f'' VEC ''7'' ''Foo'', ex_decl ''g'' ARRAY ''7'' ''Foo''] new_emitter))
     ''_XdrVec_7_Foo'' = Some (H_vec ''7'' ''Foo'')"
proof -
  let ?ds = "[ex_decl ''f'' VEC ''7'' ''Foo'', ex_decl ''g'' ARRAY ''7'' ''Foo'']"
  have g: "fst (gen_decl [] (ex_decl ''f'' VEC ''7'' ''Foo'') new_emitter) = Some ''_XdrVec_7_Foo''"
    "helper_of [] (ex_decl ''f'' VEC ''7'' ''Foo'') = Some (H_vec ''7'' ''Foo'')"
    by (simp_all add: gen_decl_def Let_def gen_vec_def gen_once_def em_done_def new_emitter_def helper_of_def ex_decl_simps)
  have "\<forall>d \<in> set ?ds. plain_decl [] d" using ex_plain by simp
  from helpers_right [OF this, of new_emitter] g show ?thesis by simp
qed

text \<open>
  A type whose name begins with an underscore, which the parser accepts with a warning, has
  one helper type for all its vectors: after a vector of one bound, a vector of another
  bound gets a helper type with the bound of the first.
\<close>

lemma underscore_bound_lost:
  assumes "hd (goid t) = CHR ''_''"
  shows "case gen_vec S t b1 new_emitter of (n1, e1) \<Rightarrow> case gen_vec S t b2 e1 of (n2, e2) \<Rightarrow>
    n2 = n1 \<and> map_of (em_footer e2) n2 = Some (H_vec (fst (get_bound S b1)) (goid t))"
  using assms by (simp add: gen_vec_def Let_def gen_once_def em_done_def new_emitter_def split: prod.splits)

lemma underscore_bound_lost_witness:
  "case gen_vec [] (setglobal ''_foo'') (setglobal ''3'') new_emitter of (n1, e1) \<Rightarrow>
   case gen_vec [] (setglobal ''_foo'') (setglobal ''5'') e1 of (n2, e2) \<Rightarrow>
     n2 = n1 \<and> map_of (em_footer e2) n2 = Some (H_vec (fst (get_bound [] (setglobal ''3''))) ''_foo'')"
proof -
  have "goid (setglobal ''_foo'') = ''_foo''" by code_simp
  with underscore_bound_lost [of "setglobal ''_foo''" "[]" "setglobal ''3''" "setglobal ''5''"] show ?thesis by simp
qed

section \<open>Scoped enum tags\<close>

text \<open>
  The names a top-level symbol declares as constants, and the names it refers to outside
  its inline declarations. Linked: the Go code refers to a constant by the name it is
  declared with.
\<close>

definition const_decls :: "ast_sym \<Rightarrow> idval list" where
  "const_decls s = (case s of S_enum e tags \<Rightarrow> map fst tags | S_const i v \<Rightarrow> [i] | _ \<Rightarrow> [])"

definition const_refs :: "ast_sym \<Rightarrow> idval list" where
  "const_refs s =
     (case s of
        S_enum e tags \<Rightarrow> map snd tags
      | S_const i v \<Rightarrow> [v]
      | S_union i tt ti fs dflt \<Rightarrow> concat (map af_cases fs)
      | _ \<Rightarrow> [])"

definition linked :: "idval list \<Rightarrow> idval list \<Rightarrow> bool" where
  "linked ds rs \<longleftrightarrow> (\<forall>r \<in> set rs. \<forall>d \<in> set ds. xid d = xid r \<longrightarrow> goid d = goid r)"

definition all_decls :: "ast_sym list \<Rightarrow> idval list" where
  "all_decls syms = concat (map const_decls syms)"

definition all_refs :: "ast_sym list \<Rightarrow> idval list" where
  "all_refs syms = concat (map const_refs syms)"

definition tag_names :: "ast_sym \<Rightarrow> (string \<times> string) list" where
  "tag_names s = (case s of S_enum e tags \<Rightarrow> map (\<lambda>(t, v). (xid t, scoped_name e t)) tags | _ \<Rightarrow> [])"

lemma fold_upd: "fold (\<lambda>(k, v) m. m(k \<mapsto> v)) xs m = m ++ map_of (rev xs)"
  by (induction xs arbitrary: m) (auto simp: map_add_def fun_eq_iff split: option.splits)

lemma renames_eq: "renames syms = map_of (rev (concat (map tag_names syms)))"
proof -
  have f: "fold (\<lambda>(t, v) r. r(xid t \<mapsto> scoped_name e t)) tags m = m ++ map_of (rev (map (\<lambda>(t, v). (xid t, scoped_name e t)) tags))"
    for e tags and m :: "string \<rightharpoonup> string"
    by (subst fold_upd [symmetric]) (simp add: fold_map comp_def case_prod_unfold)
  have "fold (\<lambda>s r. case s of S_enum e tags \<Rightarrow> fold (\<lambda>(t, v) r. r(xid t \<mapsto> scoped_name e t)) tags r | _ \<Rightarrow> r) syms m =
      m ++ map_of (rev (concat (map tag_names syms)))" for m :: "string \<rightharpoonup> string"
    by (induction syms arbitrary: m) (auto simp: f tag_names_def split: ast_sym.splits)
  then show ?thesis by (simp add: renames_def)
qed

lemma tag_names_decls: "fst ` set (tag_names s) \<subseteq> xid ` set (const_decls s)"
  by (force simp: tag_names_def const_decls_def split: ast_sym.splits)

lemma all_tag_names_decls: "fst ` set (concat (map tag_names syms)) \<subseteq> xid ` set (all_decls syms)"
  using tag_names_decls by (force simp: all_decls_def)

lemma distinct_decls_Cons:
  assumes "distinct (map xid (all_decls (s # syms)))"
  shows "distinct (map xid (const_decls s))" "distinct (map xid (all_decls syms))"
    "fst ` set (tag_names s) \<inter> xid ` set (all_decls syms) = {}"
    "xid ` set (const_decls s) \<inter> fst ` set (concat (map tag_names syms)) = {}"
proof -
  have d: "distinct (map xid (const_decls s)) \<and> distinct (map xid (all_decls syms)) \<and>
      xid ` set (const_decls s) \<inter> xid ` set (all_decls syms) = {}"
    using assms by (simp add: all_decls_def)
  then show "distinct (map xid (const_decls s))" "distinct (map xid (all_decls syms))" by simp_all
  show "fst ` set (tag_names s) \<inter> xid ` set (all_decls syms) = {}"
    using d tag_names_decls [of s] by blast
  show "xid ` set (const_decls s) \<inter> fst ` set (concat (map tag_names syms)) = {}"
    using d all_tag_names_decls [of syms] by blast
qed

lemma distinct_tag_names:
  "distinct (map xid (all_decls syms)) \<Longrightarrow> distinct (map fst (concat (map tag_names syms)))"
proof (induction syms)
  case (Cons s syms)
  note d = distinct_decls_Cons [OF Cons.prems]
  have "distinct (map fst (tag_names s))"
    using d(1) by (auto simp: tag_names_def const_decls_def case_prod_unfold comp_def split: ast_sym.splits)
  moreover have "fst ` set (tag_names s) \<inter> fst ` set (concat (map tag_names syms)) = {}"
    using d(3) all_tag_names_decls [of syms] by blast
  ultimately show ?case using Cons.IH [OF d(2)] by (simp del: set_concat)
qed simp

lemma const_not_tag:
  "distinct (map xid (all_decls syms)) \<Longrightarrow> S_const i v \<in> set syms \<Longrightarrow>
   xid i \<notin> fst ` set (concat (map tag_names syms))"
proof (induction syms)
  case (Cons s syms)
  note d = distinct_decls_Cons [OF Cons.prems(1)]
  show ?case
  proof (cases "s = S_const i v")
    case True
    then have t: "tag_names s = []" "const_decls s = [i]" by (simp_all add: tag_names_def const_decls_def)
    show ?thesis using d(4) by (simp add: t del: set_concat)
  next
    case False
    with Cons.prems(2) have m: "S_const i v \<in> set syms" by simp
    then have "xid i \<in> xid ` set (all_decls syms)" by (force simp: all_decls_def const_decls_def)
    with d(3) have "xid i \<notin> fst ` set (tag_names s)" by blast
    moreover have "xid i \<notin> fst ` set (concat (map tag_names syms))" by (rule Cons.IH [OF d(2) m])
    ultimately show ?thesis by (simp add: image_Un del: set_concat)
  qed
qed simp

lemma scope_decls:
  assumes "distinct (map xid (all_decls syms))" "s \<in> set syms"
  shows "const_decls (scope_sym (renames syms) s) = map (applyRename (renames syms)) (const_decls s)"
proof (cases s)
  case (S_const i v)
  with const_not_tag [OF assms(1)] assms(2) have "renames syms (xid i) = None"
    by (simp add: renames_eq map_of_eq_None_iff del: set_concat)
  with S_const show ?thesis by (simp add: const_decls_def scope_sym_def applyRename_def)
next
  case (S_enum e tags)
  have d: "distinct (map fst (rev (concat (map tag_names syms))))"
    using distinct_tag_names [OF assms(1)] by (simp add: rev_map [symmetric])
  have "renames syms (xid t) = Some (scoped_name e t)" if "(t, v) \<in> set tags" for t v
    unfolding renames_eq using that S_enum assms(2)
    by (intro map_of_is_SomeI [OF d]) (force simp: tag_names_def)
  with S_enum show ?thesis by (auto simp: const_decls_def scope_sym_def applyRename_def)
qed (simp_all add: const_decls_def scope_sym_def)

lemma scope_refs: "const_refs (scope_sym r s) = map (applyRename r) (const_refs s)"
  by (cases s) (simp_all add: const_refs_def scope_sym_def case_prod_unfold comp_def map_concat)

lemma applyRename_xid [simp]: "xid (applyRename r iv) = xid iv"
  by (simp add: applyRename_def split: option.splits)

lemma linked_rename: "linked ds rs \<Longrightarrow> linked (map (applyRename r) ds) (map (applyRename r) rs)"
  by (auto simp: linked_def applyRename_def split: option.splits)

text \<open>
  Scoping the enum tags gives every tag the name of its enum as a prefix and keeps the
  emitted code linked: when no XDR name is declared twice and the values and cases of the
  top-level definitions refer to constants by the names they are declared with, they still
  do so after the renaming.
\<close>

lemma scope_links:
  assumes "distinct (map xid (all_decls syms))" and "linked (all_decls syms) (all_refs syms)"
  shows "(let syms' = fst (scopeEnumTags (syms, S)) in
    linked (all_decls syms') (all_refs syms') \<and>
    (\<forall>e tags t v. S_enum e tags \<in> set syms' \<and> (t, v) \<in> set tags \<longrightarrow> goid t = scoped_name e t))"
proof -
  let ?r = "renames syms"
  have s: "fst (scopeEnumTags (syms, S)) = map (scope_sym ?r) syms" by (simp add: scopeEnumTags_def Let_def)
  have "all_decls (map (scope_sym ?r) syms) = map (applyRename ?r) (all_decls syms)"
    using scope_decls [OF assms(1)] by (simp add: all_decls_def map_concat comp_def cong: map_cong)
  moreover have "all_refs (map (scope_sym ?r) syms) = map (applyRename ?r) (all_refs syms)"
    by (simp add: all_refs_def map_concat comp_def scope_refs)
  moreover have "goid t = scoped_name e t" if "S_enum e tags \<in> set (map (scope_sym ?r) syms)" "(t, v) \<in> set tags" for e tags t v
    using that by (auto simp: scope_sym_def scoped_name_def split: ast_sym.splits)
  ultimately show ?thesis using linked_rename [OF assms(2), of ?r]
    unfolding s Let_def by (intro conjI allI impI) (simp, blast)
qed

definition ex_enum :: "ast_sym list" where
  "ex_enum = [S_enum (setglobal ''color'') [(setglobal ''red'', setglobal ''0'')],
     S_union (setglobal ''U'') (setglobal ''color'') (setglobal ''c'')
       [Field [setglobal ''red''] (Decl (setlocal []) SCALAR (setlocal []) (setlocal ''void'') None) False] False]"

lemma ex_enum_linked: "distinct (map xid (all_decls ex_enum))" "linked (all_decls ex_enum) (all_refs ex_enum)"
  by code_simp+

lemma scope_links_witness:
  "linked (all_decls (fst (scopeEnumTags (ex_enum, [])))) (all_refs (fst (scopeEnumTags (ex_enum, [])))) \<and>
   map goid (all_decls (fst (scopeEnumTags (ex_enum, [])))) = [''kColorRed''] \<and>
   map goid (all_refs (fst (scopeEnumTags (ex_enum, [])))) = [''0'', ''kColorRed'']"
proof -
  have "map goid (all_decls (fst (scopeEnumTags (ex_enum, [])))) = [''kColorRed'']"
    "map goid (all_refs (fst (scopeEnumTags (ex_enum, [])))) = [''0'', ''kColorRed'']" by code_simp+
  with scope_links [OF ex_enum_linked, of "[]"] show ?thesis by (simp add: Let_def)
qed

text \<open>
  The cases of a union that is declared inside a struct are not renamed: the code emitted
  for them refers to a constant that is not declared any more.
\<close>

definition inline_refs :: "ast_sym \<Rightarrow> idval list" where
  "inline_refs s =
     (case s of
        S_struct i ds \<Rightarrow> concat (map (\<lambda>d. case ad_inline d of Some s \<Rightarrow> const_refs s | None \<Rightarrow> []) ds)
      | _ \<Rightarrow> [])"

definition ex_inline :: "ast_sym list" where
  "ex_inline = [S_enum (setglobal ''color'') [(setglobal ''red'', setglobal ''0'')],
     S_struct (setglobal ''S'') [Decl (setglobal ''u'') SCALAR (setlocal []) (setlocal [])
       (Some (S_union (setlocal []) (setglobal ''color'') (setglobal ''c'')
         [Field [setglobal ''red''] (Decl (setlocal []) SCALAR (setlocal []) (setlocal ''void'') None) False] False))]]"

lemma scope_misses_inline:
  "linked (all_decls ex_inline) (concat (map inline_refs ex_inline)) \<and>
   \<not> linked (all_decls (fst (scopeEnumTags (ex_inline, []))))
       (concat (map inline_refs (fst (scopeEnumTags (ex_inline, [])))))"
  by code_simp

section \<open>The arms of a union in the parser\<close>

lemma add_case_spec_simps:
  "add_case_spec (Arms fs False k) f = Arms (fs @ [f]) (af_default f) k"
  "add_case_spec (Arms fs True k) f = (if af_default f then Arms fs True (Suc k) else Index_panic)"
  "add_case_spec Index_panic f = Index_panic"
  by (simp_all add: add_case_spec_def Let_def)

lemma arms_after_default:
  "foldl add_case_spec (Arms gs True k) fs =
   (if list_all af_default fs then Arms gs True (k + length fs) else Index_panic)"
proof (induction fs arbitrary: k)
  case (Cons f fs)
  have "foldl add_case_spec Index_panic fs = Index_panic" for fs
    by (induction fs) (simp_all add: add_case_spec_simps)
  with Cons show ?case by (simp add: add_case_spec_simps)
qed simp

lemma later_arm_Cons:
  "(\<exists>xs d ys f zs. g # fs = xs @ d # ys @ f # zs \<and> af_default d \<and> \<not> af_default f) \<longleftrightarrow>
   af_default g \<and> \<not> list_all af_default fs \<or>
   (\<exists>xs d ys f zs. fs = xs @ d # ys @ f # zs \<and> af_default d \<and> \<not> af_default f)"
  (is "?l \<longleftrightarrow> ?r1 \<or> ?r2")
proof
  assume ?l
  then obtain xs d ys f zs where x: "g # fs = xs @ d # ys @ f # zs" "af_default d" "\<not> af_default f" by blast
  show "?r1 \<or> ?r2"
  proof (cases xs)
    case Nil
    with x have ?r1 by (simp add: list_all_iff)
    then show ?thesis ..
  next
    case (Cons g' xs')
    with x have "fs = xs' @ d # ys @ f # zs" by simp
    with x(2,3) have ?r2 by blast
    then show ?thesis ..
  qed
next
  assume "?r1 \<or> ?r2"
  then show ?l
  proof
    assume r: ?r1
    then obtain f ys zs where "\<not> af_default f" "fs = ys @ f # zs"
      by (auto simp: list_all_iff dest: split_list)
    with r show ?l by (intro exI [of _ "[]"] exI [of _ g] exI [of _ ys] exI [of _ f] exI [of _ zs]) simp
  next
    assume ?r2
    then obtain xs d ys f zs where "fs = xs @ d # ys @ f # zs \<and> af_default d \<and> \<not> af_default f" by blast
    then show ?l by (intro exI [of _ "g # xs"] exI [of _ d] exI [of _ ys] exI [of _ f] exI [of _ zs]) simp
  qed
qed

lemma later_arm_foldl:
  "foldl add_case_spec (Arms gs False k) fs = Index_panic \<longleftrightarrow>
   (\<exists>xs d ys f zs. fs = xs @ d # ys @ f # zs \<and> af_default d \<and> \<not> af_default f)"
proof (induction fs arbitrary: gs)
  case (Cons g fs)
  show ?case
  proof (cases "af_default g")
    case True
    have "(\<exists>xs d ys f zs. fs = xs @ d # ys @ f # zs \<and> af_default d \<and> \<not> af_default f) \<Longrightarrow> \<not> list_all af_default fs"
      by (auto simp: list_all_iff)
    with True show ?thesis unfolding later_arm_Cons by (auto simp: add_case_spec_simps arms_after_default)
  next
    case False
    with Cons.IH [of "gs @ [g]"] show ?thesis unfolding later_arm_Cons by (simp add: add_case_spec_simps)
  qed
qed simp

text \<open>
  The parser crashes, with an index out of range, exactly on the unions that have an arm
  without a default label after one with a default label; it means to accept them.
\<close>

lemma default_not_last_panics:
  "union_case_spec_list fs = Index_panic \<longleftrightarrow>
   (\<exists>xs d ys f zs. fs = xs @ d # ys @ f # zs \<and> af_default d \<and> \<not> af_default f)"
proof -
  have "union_case_spec_list fs = foldl add_case_spec (Arms [] False 0) fs"
    by (cases fs) (simp_all add: add_case_spec_simps)
  then show ?thesis by (simp only: later_arm_foldl)
qed

section \<open>Initial discriminants\<close>

text \<open>
  XdrInitialize makes the zero value of an enum, and the zero discriminant of a union
  without a default arm, one of the declared tags, and changes no other value: the Go
  compiler only has to evaluate to 0 the constants whose text get_bound reads as 0 or FALSE.
\<close>

lemma XdrInitialize_valid:
  assumes "\<And>t. fst (get_bound S t) = ''0'' \<or> fst (get_bound S t) = ''FALSE'' \<Longrightarrow> val t = 0"
    and "tags \<noteq> []" and "concat (map af_cases fs) \<noteq> []"
  shows "XdrInitialize val (enum_tags_init S tags) 0 \<in> val ` fst ` set tags \<and>
    XdrInitialize val (union_tags_init S fs) 0 \<in> val ` set (concat (map af_cases fs)) \<and>
    (v \<noteq> 0 \<longrightarrow> XdrInitialize val (enum_tags_init S tags) v = v \<and> XdrInitialize val (union_tags_init S fs) v = v)"
proof -
  have init: "XdrInitialize val (if list_ex p ts then None else Some ts) 0 \<in> val ` set ts"
    if "\<And>t. p t \<Longrightarrow> val t = 0" "ts \<noteq> []" for p ts
  proof (cases "list_ex p ts")
    case True
    then obtain t where "t \<in> set ts" "p t" by (auto simp: list_ex_iff)
    with that(1) [of t] True show ?thesis by (auto simp: XdrInitialize_def intro: rev_image_eqI)
  next
    case False
    then show ?thesis using that(2) by (auto simp: XdrInitialize_def image_iff)
  qed
  have e: "enum_tags_init S tags = (if list_ex (\<lambda>t. fst (get_bound S t) = ''0'') (map fst tags) then None else Some (map fst tags))"
    by (simp add: enum_tags_init_def list_ex_iff case_prod_unfold)
  from init [of "\<lambda>t. fst (get_bound S t) = ''0''" "map fst tags"] assms(1,2)
  have "XdrInitialize val (enum_tags_init S tags) 0 \<in> val ` fst ` set tags" by (simp add: e)
  moreover from init [of "\<lambda>t. fst (get_bound S t) = ''0'' \<or> fst (get_bound S t) = ''FALSE''" "concat (map af_cases fs)"] assms(1,3)
  have "XdrInitialize val (union_tags_init S fs) 0 \<in> val ` set (concat (map af_cases fs))"
    unfolding union_tags_init_def Let_def by blast
  ultimately show ?thesis
    by (auto simp: XdrInitialize_def enum_tags_init_def union_tags_init_def Let_def)
qed
definition ex_val :: "idval \<Rightarrow> u32" where
  "ex_val t = (if xid t = ''red'' then 7 else 0)"

definition ex_arms :: "ast_field list" where
  "ex_arms = [Field [setglobal ''red''] (Decl (setlocal []) SCALAR (setlocal []) (setlocal ''void'') None) False]"

lemma ex_red: "xid t = ''red'' \<Longrightarrow> fst (get_bound [] t) = ''red''"
  by (simp add: get_bound_def bound_loop.simps ParseUint_def digit_val_def byte_at_def Let_def)

lemma XdrInitialize_valid_witness:
  "XdrInitialize ex_val (enum_tags_init [] [(setglobal ''red'', setglobal ''7'')]) 0 = 7 \<and>
   XdrInitialize ex_val (union_tags_init [] ex_arms) 0 = 7"
proof -
  have v: "ex_val t = 0" if "fst (get_bound [] t) = ''0'' \<or> fst (get_bound [] t) = ''FALSE''" for t
    using that ex_red [of t] by (auto simp: ex_val_def)
  have "concat (map af_cases ex_arms) \<noteq> []" by (simp add: ex_arms_def)
  from XdrInitialize_valid [of "[]" ex_val "[(setglobal ''red'', setglobal ''7'')]" ex_arms, OF v _ this]
  show ?thesis by (simp add: ex_val_def ex_arms_def setglobal_def)
qed



end
