(* ===== verification/Json.thy ===== *)
theory Json imports XdrTyped GoText begin

text \<open>
  The JSON conversion of gorpc (cmd/gorpc/jsonxdr.go): jsonOut and jsonIn as instances of
  the interface XDR over the XdrRecurse methods goxdr emits, XdrToJson and JsonToXdr. A
  JSON document is what json.Unmarshal stores in an interface{}; json.Unmarshal itself, the
  text of floats and the quoting of strings that are not ASCII are arguments (\<open>golib\<close>).
  Panics of jsonxdr.go's own are AppPanic; JsonToXdr and XdrToJson return them as errors.
\<close>

section \<open>JSON values and the library\<close>

text \<open>A number is the literal it was read from, an object a map without duplicate names.\<close>

datatype json = JNull | JBool bool | JNum string | JStr string | JArr "json list" | JObj "(string \<times> json) list"

record golib =
  l_unmarshal :: "string \<Rightarrow> json option"
  l_num :: "string \<Rightarrow> string"
  l_quote :: "string \<Rightarrow> string"
  l_show32 :: "u32 \<Rightarrow> string"
  l_scan32 :: "string \<Rightarrow> u32 option"
  l_show64 :: "u64 \<Rightarrow> string"
  l_scan64 :: "string \<Rightarrow> u64 option"

section \<open>Names\<close>

text \<open>XdrTypeName of the XdrTypes goxdr emits.\<close>

fun type_name :: "tname \<Rightarrow> string" where
  "type_name (Base b) =
     (case b of Bool \<Rightarrow> ''bool'' | Int32 \<Rightarrow> ''int32'' | Uint32 \<Rightarrow> ''uint32'' | Float32 \<Rightarrow> ''float32''
      | Int64 \<Rightarrow> ''int64'' | Uint64 \<Rightarrow> ''uint64'' | Float64 \<Rightarrow> ''float64'' | String \<Rightarrow> ''string''
      | Byte \<Rightarrow> ''byte'' | Void \<Rightarrow> ''void'')"
| "type_name (Ident s) = s"

definition decl_type_name :: "rpc_decl \<Rightarrow> string" where
  "decl_type_name d =
     (if d_typ d = Base String then ''string''
      else if d_typ d = Base Byte then (if d_qual d = VEC then ''opaque<>'' else ''opaque[]'')
      else case d_qual d of
        SCALAR \<Rightarrow> type_name (d_typ d)
      | PTR \<Rightarrow> type_name (d_typ d) @ ''*''
      | ARRAY \<Rightarrow> type_name (d_typ d) @ ''[]''
      | VEC \<Rightarrow> type_name (d_typ d) @ ''<>'')"

text \<open>What follows the last dot of a field name.\<close>

definition last_part :: "string \<Rightarrow> string" where
  "last_part s = rev (takeWhile (\<lambda>c. c \<noteq> CHR ''.'') (rev s))"

definition vField :: "string \<Rightarrow> bool" where
  "vField field \<longleftrightarrow> 2 \<le> length field \<and> hd field = CHR ''v'' \<and> list_all dec_char (tl field)"

definition isDigitSandwich :: "string \<Rightarrow> string \<Rightarrow> string \<Rightarrow> bool" where
  "isDigitSandwich target pre suf =
     (if take (length pre) target \<noteq> pre then False
      else let t = drop (length pre) target in
        if length t \<le> length suf \<or> drop (length t - length suf) t \<noteq> suf then False
        else list_all dec_char (take (length t - length suf) t))"

definition HideFieldName :: "string \<Rightarrow> string \<Rightarrow> bool" where
  "HideFieldName field typ =
     (if \<not> vField (last_part field) then False
      else isDigitSandwich typ ''TransactionV'' ''Envelope'')"

text \<open>
  The name of an element, which begins with a bracket; nothing else of it is looked at.
\<close>

definition elem_name :: string where
  "elem_name = ''[]''"

section \<open>Enums as text\<close>

definition enum_String :: "string \<Rightarrow> (string \<times> u32) list \<Rightarrow> u32 \<Rightarrow> string" where
  "enum_String T tags w =
     (case find (\<lambda>(s, x). x = w) tags of
        Some (s, x) \<Rightarrow> s
      | None \<Rightarrow> T @ CHR ''#'' # show_int (sint w))"

definition XdrSymChar :: "char \<Rightarrow> bool" where
  "XdrSymChar c \<longleftrightarrow>
     (let r = byte_at c in 97 \<le> r OR 0x20 \<and> r OR 0x20 \<le> 122 \<or> 48 \<le> r \<and> r \<le> 57 \<or> r = 95)"

definition enum_Scan :: "string \<Rightarrow> (string \<times> u32) list \<Rightarrow> string \<Rightarrow> u32 option" where
  "enum_Scan T tags s =
     bindO (skip_space True s) (\<lambda>t.
       let stok = takeWhile XdrSymChar t; r = dropWhile XdrSymChar t in
       case map_of tags stok of
         Some w \<Rightarrow> Some w
       | None \<Rightarrow>
           if stok = T \<and> r \<noteq> [] \<and> hd r = CHR ''#''
           then map_option word_of_int (scan_int False 32 (tl r)) else None)"

section \<open>XDR to JSON\<close>

record jsonOut =
  jo_out :: string
  jo_indent :: string
  jo_needComma :: bool

definition NL :: char where
  "NL = CHR 0x0A"

definition jo_write :: "string \<Rightarrow> jsonOut \<Rightarrow> jsonOut" where
  "jo_write s j = j\<lparr>jo_out := jo_out j @ s\<rparr>"

definition quoted :: "golib \<Rightarrow> string \<Rightarrow> string" where
  "quoted L s = Quote (l_quote L) s"

definition printField :: "golib \<Rightarrow> string \<Rightarrow> string \<Rightarrow> jsonOut \<Rightarrow> jsonOut" where
  "printField L name s j =
     (let j1 = (if jo_needComma j then jo_write [CHR '','', NL] j
                else (jo_write [NL] j)\<lparr>jo_needComma := True\<rparr>);
          j2 = jo_write (jo_indent j1) j1;
          j3 = (if 0 < length name \<and> hd name \<noteq> CHR ''['' then jo_write (quoted L name @ '': '') j2 else j2)
      in jo_write s j3)"

text \<open>
  aggregate, around the recursion into the value: the opening bracket, one more level of
  indentation, the closing bracket on a line of its own.
\<close>

definition aggregate ::
  "char \<Rightarrow> char \<Rightarrow> (jsonOut \<Rightarrow> go_panic + jsonOut) \<Rightarrow> jsonOut \<Rightarrow> go_panic + jsonOut" where
  "aggregate op cl body j =
     (let oldIndent = jo_indent j in
      bindE (body (jo_write [op] (j\<lparr>jo_indent := jo_indent j @ ''    '', jo_needComma := False\<rparr>))) (\<lambda>j'.
        Inr ((jo_write (NL # oldIndent @ [cl]) j')\<lparr>jo_needComma := True, jo_indent := oldIndent\<rparr>)))"

text \<open>
  The case XdrAggregate of Marshal: a hidden field name leaves out the brackets and has
  the XdrRecurse method print into the surrounding object.
\<close>

definition jo_aggregate ::
  "golib \<Rightarrow> string \<Rightarrow> string \<Rightarrow> char \<Rightarrow> char \<Rightarrow> (jsonOut \<Rightarrow> go_panic + jsonOut) \<Rightarrow> (jsonOut \<Rightarrow> go_panic + jsonOut) \<Rightarrow>
   jsonOut \<Rightarrow> go_panic + jsonOut" where
  "jo_aggregate L tn name op cl recurse body j =
     (if HideFieldName name tn then recurse j
      else aggregate op cl body (printField L name [] j))"

type_synonym marshal_out = "string \<Rightarrow> string \<Rightarrow> tname \<Rightarrow> val \<Rightarrow> jsonOut \<Rightarrow> go_panic + jsonOut"

fun jo_each :: "(val \<Rightarrow> jsonOut \<Rightarrow> go_panic + jsonOut) \<Rightarrow> val list \<Rightarrow> jsonOut \<Rightarrow> go_panic + jsonOut" where
  "jo_each f [] j = Inr j"
| "jo_each f (v # vs) j = bindE (f v j) (jo_each f vs)"

definition jo_base :: "golib \<Rightarrow> base \<Rightarrow> string \<Rightarrow> val \<Rightarrow> jsonOut \<Rightarrow> go_panic + jsonOut" where
  "jo_base L b name v j =
     (let show = (\<lambda>s. Inr (printField L name s j)) in
      case v of
        VBool x \<Rightarrow> if b = Bool then show (if x then ''true'' else ''false'') else Inl Stuck
      | VNum32 w \<Rightarrow>
          (case b of
             Int32 \<Rightarrow> show (show_int (sint w))
           | Uint32 \<Rightarrow> show (show_int (uint w))
           | Float32 \<Rightarrow> show (l_show32 L w)
           | _ \<Rightarrow> Inl Stuck)
      | VNum64 w \<Rightarrow>
          (case b of
             Int64 \<Rightarrow> show (quoted L (show_int (sint w)))
           | Uint64 \<Rightarrow> show (quoted L (show_int (uint w)))
           | Float64 \<Rightarrow> show (quoted L (l_show64 L w))
           | _ \<Rightarrow> Inl Stuck)
      | VVoid \<Rightarrow> if b = Void then Inr j else Inl Stuck
      | _ \<Rightarrow> Inl Stuck)"

fun jo_bytes :: "golib \<Rightarrow> string \<Rightarrow> val \<Rightarrow> jsonOut \<Rightarrow> go_panic + jsonOut" where
  "jo_bytes L name (VBytes s) j = Inr (jo_write [CHR 0x22] (jo_write (EncodeToString s) (printField L name [CHR 0x22] j)))"
| "jo_bytes L name (VByteArr s) j = Inr (jo_write [CHR 0x22] (jo_write (EncodeToString s) (printField L name [CHR 0x22] j)))"
| "jo_bytes L name _ j = Inl Stuck"

fun jo_string :: "golib \<Rightarrow> string \<Rightarrow> val \<Rightarrow> jsonOut \<Rightarrow> go_panic + jsonOut" where
  "jo_string L name (VString s) j = Inr (printField L name (quoted L (chars_of s)) j)"
| "jo_string L name _ j = Inl Stuck"

fun jo_ptr :: "golib \<Rightarrow> marshal_out \<Rightarrow> string \<Rightarrow> tname \<Rightarrow> val \<Rightarrow> jsonOut \<Rightarrow> go_panic + jsonOut" where
  "jo_ptr L rec name t (VPtr None) j = Inr (printField L name ''null'' j)"
| "jo_ptr L rec name t (VPtr (Some v)) j = rec (type_name t) name t v j"
| "jo_ptr L rec name t _ j = Inl Stuck"

fun jo_array :: "golib \<Rightarrow> marshal_out \<Rightarrow> string \<Rightarrow> string \<Rightarrow> tname \<Rightarrow> val \<Rightarrow> jsonOut \<Rightarrow> go_panic + jsonOut" where
  "jo_array L rec tn name t (VArr vs) j =
     (let body = jo_each (rec (type_name t) elem_name t) vs
      in jo_aggregate L tn name (CHR ''['') (CHR '']'') body body j)"
| "jo_array L rec tn name t _ j = Inl Stuck"

fun jo_vec :: "golib \<Rightarrow> marshal_out \<Rightarrow> u32 \<Rightarrow> string \<Rightarrow> string \<Rightarrow> tname \<Rightarrow> val \<Rightarrow> jsonOut \<Rightarrow> go_panic + jsonOut" where
  "jo_vec L rec bound tn name t (VSlice l b) j =
     (let n = (of_nat l :: u32);
          body = (\<lambda>j. bindE (XdrCheckLen bound n) (\<lambda>_. jo_each (rec (type_name t) elem_name t) (take (unat n) b) j));
          recurse = (\<lambda>j. body (printField L [] (decimal (unat n)) j))
      in jo_aggregate L tn name (CHR ''['') (CHR '']'') recurse body j)"
| "jo_vec L rec bound tn name t _ j = Inl Stuck"

definition jo_decl :: "golib \<Rightarrow> marshal_out \<Rightarrow> string \<Rightarrow> string \<Rightarrow> rpc_decl \<Rightarrow> val \<Rightarrow> jsonOut \<Rightarrow> go_panic + jsonOut" where
  "jo_decl L rec tn name d =
     (if d_typ d = Base String then jo_string L name
      else if d_typ d = Base Byte then jo_bytes L name
      else case d_qual d of
        SCALAR \<Rightarrow> rec tn name (d_typ d)
      | PTR \<Rightarrow> jo_ptr L rec name (d_typ d)
      | ARRAY \<Rightarrow> jo_array L rec tn name (d_typ d)
      | VEC \<Rightarrow> jo_vec L rec (d_bound d) tn name (d_typ d))"

text \<open>The call for a field: the name of its declaration, the type name of its XdrType.\<close>

definition jo_field :: "golib \<Rightarrow> marshal_out \<Rightarrow> rpc_decl \<Rightarrow> val \<Rightarrow> jsonOut \<Rightarrow> go_panic + jsonOut" where
  "jo_field L rec d = jo_decl L rec (decl_type_name d) (d_id d) d"

fun jo_fields :: "golib \<Rightarrow> marshal_out \<Rightarrow> rpc_decl list \<Rightarrow> val list \<Rightarrow> jsonOut \<Rightarrow> go_panic + jsonOut" where
  "jo_fields L rec [] [] j = Inr j"
| "jo_fields L rec (d # ds) (v # vs) j = bindE (jo_field L rec d v j) (jo_fields L rec ds vs)"
| "jo_fields L rec _ _ j = Inl Stuck"

fun jo_struct :: "golib \<Rightarrow> marshal_out \<Rightarrow> string \<Rightarrow> string \<Rightarrow> rpc_decl list \<Rightarrow> val \<Rightarrow> jsonOut \<Rightarrow> go_panic + jsonOut" where
  "jo_struct L rec tn name ds (VStruct vs) j =
     (let body = jo_fields L rec ds vs in jo_aggregate L tn name (CHR ''{'') (CHR ''}'') body body j)"
| "jo_struct L rec tn name ds _ j = Inl Stuck"

fun jo_union :: "pkg \<Rightarrow> golib \<Rightarrow> marshal_out \<Rightarrow> string \<Rightarrow> string \<Rightarrow> rpc_union \<Rightarrow> val \<Rightarrow> jsonOut \<Rightarrow> go_panic + jsonOut" where
  "jo_union P L rec tn name u (VUnion tag body) j =
     (let recurse = (\<lambda>j. bindE (rec (type_name (u_tagtype u)) (u_tagid u) (u_tagtype u) tag j) (\<lambda>j'.
            case GetU32 tag of
              None \<Rightarrow> Inl Stuck
            | Some disc \<Rightarrow>
               (case select_arm u disc of
                  None \<Rightarrow> Inl (XdrError (InvalidTag (u_tagid u) disc))
                | Some f \<Rightarrow>
                    if isVoid f then Inr j'
                    else bindE (arm_access P u f disc body) (\<lambda>v. jo_field L rec (uf_decl f) v j'))))
      in jo_aggregate L tn name (CHR ''{'') (CHR ''}'') recurse recurse j)"
| "jo_union P L rec tn name u _ j = Inl Stuck"

fun jo_enum :: "golib \<Rightarrow> string \<Rightarrow> (string \<times> u32) list \<Rightarrow> string \<Rightarrow> val \<Rightarrow> jsonOut \<Rightarrow> go_panic + jsonOut" where
  "jo_enum L T tags name (VNum32 w) j = Inr (printField L name (quoted L (enum_String T tags w)) j)"
| "jo_enum L T tags name _ j = Inl Stuck"

text \<open>
  Marshal of the XdrType of a named type; \<open>tn\<close> is the type name of the outermost typedef,
  as XdrBaseType unwraps a typedef without another call of Marshal.
\<close>

fun jo_typ :: "pkg \<Rightarrow> golib \<Rightarrow> nat \<Rightarrow> marshal_out" where
  "jo_typ P L 0 tn name t v j = Inl StackOverflow"
| "jo_typ P L (Suc n) tn name (Base b) v j = jo_base L b name v j"
| "jo_typ P L (Suc n) tn name (Ident s) v j =
     (case sym_of P s of
        None \<Rightarrow> Inl Stuck
      | Some (Sym_typedef d) \<Rightarrow> jo_decl L (jo_typ P L n) tn name d v j
      | Some (Sym_enum tags) \<Rightarrow> jo_enum L s tags name v j
      | Some (Sym_struct ds) \<Rightarrow> jo_struct L (jo_typ P L n) tn name ds v j
      | Some (Sym_union u) \<Rightarrow> jo_union P L (jo_typ P L n) tn name u v j)"

definition XdrToJson :: "pkg \<Rightarrow> golib \<Rightarrow> nat \<Rightarrow> tname \<Rightarrow> val \<Rightarrow> go_panic + string" where
  "XdrToJson P L n t v =
     bindE (jo_typ P L n (type_name t) [] t v \<lparr>jo_out = [], jo_indent = [], jo_needComma = False\<rparr>) (\<lambda>j.
       Inr (jo_out j))"

section \<open>JSON to XDR\<close>

definition mustString :: "golib \<Rightarrow> json \<Rightarrow> go_panic + string" where
  "mustString L i =
     (case i of
        JObj _ \<Rightarrow> Inl (AppPanic ''Expected scalar'')
      | JArr _ \<Rightarrow> Inl (AppPanic ''Expected scalar'')
      | JNull \<Rightarrow> Inr ''<nil>''
      | JBool b \<Rightarrow> Inr (if b then ''true'' else ''false'')
      | JNum s \<Rightarrow> Inr (l_num L s)
      | JStr s \<Rightarrow> Inr s)"

text \<open>get of a jsonIn that holds obj: the value for a field, and what it holds afterwards.\<close>

definition json_get :: "string \<Rightarrow> json \<Rightarrow> go_panic + (json \<times> json)" where
  "json_get name obj =
     (if length name = 0 then Inr (obj, obj)
      else if hd name = CHR ''[''
      then (case obj of
              JArr [] \<Rightarrow> Inl (AppPanic ''insufficient elements in array'')
            | JArr (a # as) \<Rightarrow> Inr (a, JArr as)
            | _ \<Rightarrow> Inl (AppPanic ''interface conversion''))
      else (case obj of
              JObj kvs \<Rightarrow> Inr (case map_of kvs name of Some x \<Rightarrow> x | None \<Rightarrow> JNull, obj)
            | _ \<Rightarrow> Inl (AppPanic ''interface conversion'')))"

type_synonym unmarshal_in = "string \<Rightarrow> tname \<Rightarrow> json \<Rightarrow> val \<Rightarrow> json \<Rightarrow> go_panic + (val \<times> json)"

text \<open>Marshal: \<open>disp\<close> is the switch over the XdrType, given the JSON value.\<close>

definition ji_Marshal ::
  "(json \<Rightarrow> val \<Rightarrow> json \<Rightarrow> go_panic + (val \<times> json)) \<Rightarrow> string \<Rightarrow> string \<Rightarrow> val \<Rightarrow> json \<Rightarrow> go_panic + (val \<times> json)" where
  "ji_Marshal disp name tn old obj =
     bindE (json_get name obj) (\<lambda>(jv, obj').
       let jval = (if HideFieldName name tn then obj' else jv) in
       if jval = JNull then Inr (old, obj') else disp jval old obj')"

definition fromO :: "string \<Rightarrow> 'a option \<Rightarrow> go_panic + 'a" where
  "fromO msg x = (case x of Some a \<Rightarrow> Inr a | None \<Rightarrow> Inl (AppPanic msg))"

definition base_Scan :: "golib \<Rightarrow> base \<Rightarrow> string \<Rightarrow> val option" where
  "base_Scan L b s =
     (case b of
        Bool \<Rightarrow> map_option VBool (scan_bool s)
      | Int32 \<Rightarrow> map_option (\<lambda>i. VNum32 (word_of_int i)) (scan_int True 32 s)
      | Uint32 \<Rightarrow> map_option (\<lambda>i. VNum32 (of_nat i)) (scan_uint 32 s)
      | Float32 \<Rightarrow> map_option VNum32 (l_scan32 L s)
      | Int64 \<Rightarrow> map_option (\<lambda>i. VNum64 (word_of_int i)) (scan_int True 64 s)
      | Uint64 \<Rightarrow> map_option (\<lambda>i. VNum64 (of_nat i)) (scan_uint 64 s)
      | Float64 \<Rightarrow> map_option VNum64 (l_scan64 L s)
      | _ \<Rightarrow> None)"

fun ji_base :: "golib \<Rightarrow> base \<Rightarrow> json \<Rightarrow> val \<Rightarrow> json \<Rightarrow> go_panic + (val \<times> json)" where
  "ji_base L Void jval old obj = Inr (old, obj)"
| "ji_base L String jval old obj = Inl Stuck"
| "ji_base L Byte jval old obj = Inl Stuck"
| "ji_base L b jval old obj =
     bindE (mustString L jval) (\<lambda>s. bindE (fromO ''Scan'' (base_Scan L b s)) (\<lambda>v. Inr (v, obj)))"

definition ji_string :: "golib \<Rightarrow> u32 \<Rightarrow> json \<Rightarrow> val \<Rightarrow> json \<Rightarrow> go_panic + (val \<times> json)" where
  "ji_string L bound jval old obj =
     bindE (mustString L jval) (\<lambda>s.
     bindE (SetByteSlice bound (bytes_of s)) (\<lambda>bs. Inr (VString bs, obj)))"

definition ji_vecopaque :: "golib \<Rightarrow> u32 \<Rightarrow> json \<Rightarrow> val \<Rightarrow> json \<Rightarrow> go_panic + (val \<times> json)" where
  "ji_vecopaque L bound jval old obj =
     bindE (mustString L jval) (\<lambda>s.
     bindE (fromO ''hex'' (DecodeString s)) (\<lambda>bs.
     bindE (SetByteSlice bound bs) (\<lambda>bs. Inr (VBytes bs, obj))))"

fun ji_arropaque :: "golib \<Rightarrow> json \<Rightarrow> val \<Rightarrow> json \<Rightarrow> go_panic + (val \<times> json)" where
  "ji_arropaque L jval (VByteArr old) obj =
     bindE (mustString L jval) (\<lambda>s.
     bindE (fromO ''hex'' (DecodeString s)) (\<lambda>bs.
       if length bs \<noteq> length old then Inl (AppPanic ''wrong number of bytes'') else Inr (VByteArr bs, obj)))"
| "ji_arropaque L jval _ obj = Inl Stuck"

definition SetPresent :: "val \<Rightarrow> val option \<Rightarrow> val" where
  "SetPresent z p = (case p of None \<Rightarrow> z | Some v \<Rightarrow> v)"

text \<open>
  A pointer: the pointed-to value is marshaled under the same name and from the same
  jsonIn, which looks its JSON value up again.
\<close>

fun ji_ptr :: "pkg \<Rightarrow> unmarshal_in \<Rightarrow> string \<Rightarrow> tname \<Rightarrow> json \<Rightarrow> val \<Rightarrow> json \<Rightarrow> go_panic + (val \<times> json)" where
  "ji_ptr P rec name t jval (VPtr p) obj =
     bindE (ji_Marshal (rec name t) name (type_name t) (SetPresent (zero P (go_typ P t)) p) obj)
       (\<lambda>(v, obj'). Inr (VPtr (Some v), obj'))"
| "ji_ptr P rec name t jval _ obj = Inl Stuck"

text \<open>Elements are marshaled from a new jsonIn that holds the JSON value.\<close>

definition ji_elem :: "unmarshal_in \<Rightarrow> tname \<Rightarrow> val \<Rightarrow> json \<Rightarrow> go_panic + (val \<times> json)" where
  "ji_elem rec t = ji_Marshal (rec elem_name t) elem_name (type_name t)"

fun ji_each :: "(val \<Rightarrow> json \<Rightarrow> go_panic + (val \<times> json)) \<Rightarrow> val list \<Rightarrow> json \<Rightarrow> go_panic + (val list \<times> json)" where
  "ji_each f [] o1 = Inr ([], o1)"
| "ji_each f (old # olds) o1 =
     bindE (f old o1) (\<lambda>(v, o2). bindE (ji_each f olds o2) (\<lambda>(vs, o3). Inr (v # vs, o3)))"

fun ji_array :: "unmarshal_in \<Rightarrow> tname \<Rightarrow> json \<Rightarrow> val \<Rightarrow> json \<Rightarrow> go_panic + (val \<times> json)" where
  "ji_array rec t jval (VArr olds) obj =
     bindE (ji_each (ji_elem rec t) olds jval) (\<lambda>(vs, _). Inr (VArr vs, obj))"
| "ji_array rec t jval _ obj = Inl Stuck"

fun ji_vec :: "pkg \<Rightarrow> unmarshal_in \<Rightarrow> u32 \<Rightarrow> tname \<Rightarrow> json \<Rightarrow> val \<Rightarrow> json \<Rightarrow> go_panic + (val \<times> json)" where
  "ji_vec P rec bound t jval (VSlice l b) obj =
     (case jval of
        JArr as \<Rightarrow>
          bindE (XdrMarshalN_in bound (zero P (go_typ P t)) (ji_elem rec t) (of_nat (length as)) (l, b) jval)
            (\<lambda>((l', b'), _). Inr (VSlice l' b', obj))
      | _ \<Rightarrow> Inl (AppPanic ''interface conversion''))"
| "ji_vec P rec bound t jval _ obj = Inl Stuck"

definition ji_decl :: "pkg \<Rightarrow> golib \<Rightarrow> unmarshal_in \<Rightarrow> string \<Rightarrow> rpc_decl \<Rightarrow> json \<Rightarrow> val \<Rightarrow> json \<Rightarrow> go_panic + (val \<times> json)" where
  "ji_decl P L rec name d =
     (if d_typ d = Base String then ji_string L (d_bound d)
      else if d_typ d = Base Byte
      then (if d_qual d = VEC then ji_vecopaque L (d_bound d) else ji_arropaque L)
      else case d_qual d of
        SCALAR \<Rightarrow> rec name (d_typ d)
      | PTR \<Rightarrow> ji_ptr P rec name (d_typ d)
      | ARRAY \<Rightarrow> ji_array rec (d_typ d)
      | VEC \<Rightarrow> ji_vec P rec (d_bound d) (d_typ d))"

definition ji_field :: "pkg \<Rightarrow> golib \<Rightarrow> unmarshal_in \<Rightarrow> rpc_decl \<Rightarrow> val \<Rightarrow> json \<Rightarrow> go_panic + (val \<times> json)" where
  "ji_field P L rec d = ji_Marshal (ji_decl P L rec (d_id d) d) (d_id d) (decl_type_name d)"

fun ji_fields :: "pkg \<Rightarrow> golib \<Rightarrow> unmarshal_in \<Rightarrow> rpc_decl list \<Rightarrow> val list \<Rightarrow> json \<Rightarrow> go_panic + (val list \<times> json)" where
  "ji_fields P L rec [] [] o1 = Inr ([], o1)"
| "ji_fields P L rec (d # ds) (old # olds) o1 =
     bindE (ji_field P L rec d old o1) (\<lambda>(v, o2). bindE (ji_fields P L rec ds olds o2) (\<lambda>(vs, o3). Inr (v # vs, o3)))"
| "ji_fields P L rec _ _ o1 = Inl Stuck"

fun ji_struct :: "pkg \<Rightarrow> golib \<Rightarrow> unmarshal_in \<Rightarrow> rpc_decl list \<Rightarrow> json \<Rightarrow> val \<Rightarrow> json \<Rightarrow> go_panic + (val \<times> json)" where
  "ji_struct P L rec ds jval (VStruct olds) obj =
     bindE (ji_fields P L rec ds olds jval) (\<lambda>(vs, _). Inr (VStruct vs, obj))"
| "ji_struct P L rec ds jval _ obj = Inl Stuck"

fun ji_union :: "pkg \<Rightarrow> golib \<Rightarrow> unmarshal_in \<Rightarrow> rpc_union \<Rightarrow> json \<Rightarrow> val \<Rightarrow> json \<Rightarrow> go_panic + (val \<times> json)" where
  "ji_union P L rec u jval (VUnion tag body) obj =
     bindE (ji_Marshal (rec (u_tagid u) (u_tagtype u)) (u_tagid u) (type_name (u_tagtype u)) tag jval) (\<lambda>(tag', o1).
       case GetU32 tag' of
         None \<Rightarrow> Inl Stuck
       | Some disc \<Rightarrow>
         (case select_arm u disc of
            None \<Rightarrow> Inl (XdrError (InvalidTag (u_tagid u) disc))
          | Some f \<Rightarrow>
            if isVoid f then Inr (VUnion tag' body, obj)
            else bindE (arm_access P u f disc body) (\<lambda>old.
              bindE (ji_field P L rec (uf_decl f) old o1) (\<lambda>(v, _).
                Inr (VUnion tag' (Some (go_decl P (uf_decl f), v)), obj)))))"
| "ji_union P L rec u jval _ obj = Inl Stuck"

definition ji_enum :: "golib \<Rightarrow> string \<Rightarrow> (string \<times> u32) list \<Rightarrow> json \<Rightarrow> val \<Rightarrow> json \<Rightarrow> go_panic + (val \<times> json)" where
  "ji_enum L T tags jval old obj =
     bindE (mustString L jval) (\<lambda>s. bindE (fromO ''Scan'' (enum_Scan T tags s)) (\<lambda>w. Inr (VNum32 w, obj)))"

fun ji_typ :: "pkg \<Rightarrow> golib \<Rightarrow> nat \<Rightarrow> unmarshal_in" where
  "ji_typ P L 0 name t jval old obj = Inl StackOverflow"
| "ji_typ P L (Suc n) name (Base b) jval old obj = ji_base L b jval old obj"
| "ji_typ P L (Suc n) name (Ident s) jval old obj =
     (case sym_of P s of
        None \<Rightarrow> Inl Stuck
      | Some (Sym_typedef d) \<Rightarrow> ji_decl P L (ji_typ P L n) name d jval old obj
      | Some (Sym_enum tags) \<Rightarrow> ji_enum L s tags jval old obj
      | Some (Sym_struct ds) \<Rightarrow> ji_struct P L (ji_typ P L n) ds jval old obj
      | Some (Sym_union u) \<Rightarrow> ji_union P L (ji_typ P L n) u jval old obj)"

text \<open>
  JsonToXdr. The error of json.Unmarshal is dropped: text that is not JSON leaves the nil
  the jsonIn starts with, which Marshal takes for a null.
\<close>

definition JsonToXdr :: "pkg \<Rightarrow> golib \<Rightarrow> nat \<Rightarrow> tname \<Rightarrow> val \<Rightarrow> string \<Rightarrow> go_panic + val" where
  "JsonToXdr P L n t dst src =
     (let obj = (case l_unmarshal L src of Some x \<Rightarrow> x | None \<Rightarrow> JNull) in
      bindE (ji_Marshal (ji_typ P L n [] t) [] (type_name t) dst obj) (\<lambda>(v, _). Inr v))"



end
