(* ===== verification/JsonSpec.thy ===== *)
theory JsonSpec imports Json begin

text \<open>
  The contract of the JSON conversion. \<open>json_typ\<close> says which JSON document stands for an
  XDR value, \<open>render\<close> is the layout of a document as text, \<open>safe_typ\<close> which values survive a
  round trip. The locale \<open>jcoder\<close> relates them to jsonOut and jsonIn; the lemmas show
  that every type constructor keeps it.
\<close>

section \<open>Documents of XDR values\<close>

fun json_base :: "golib \<Rightarrow> base \<Rightarrow> xval \<Rightarrow> json" where
  "json_base L b (XBool x) = JBool x"
| "json_base L b (X32 w) =
     JNum (if b = Int32 then show_int (sint w) else if b = Uint32 then show_int (uint w) else l_show32 L w)"
| "json_base L b (X64 w) =
     JStr (if b = Int64 then show_int (sint w) else if b = Uint64 then show_int (uint w) else l_show64 L w)"
| "json_base L b _ = JNull"

fun json_string :: "xval \<Rightarrow> json" where
  "json_string (XVar s) = JStr (chars_of s)"
| "json_string _ = JNull"

fun json_hex :: "xval \<Rightarrow> json" where
  "json_hex (XVar s) = JStr (EncodeToString s)"
| "json_hex (XFix s) = JStr (EncodeToString s)"
| "json_hex _ = JNull"

fun json_opt :: "(xval \<Rightarrow> json) \<Rightarrow> xval \<Rightarrow> json" where
  "json_opt f (XOpt (Some a)) = f a"
| "json_opt f _ = JNull"

fun json_list :: "(xval \<Rightarrow> json) \<Rightarrow> xval \<Rightarrow> json" where
  "json_list f (XArr as) = JArr (map f as)"
| "json_list f (XVec as) = JArr (map f as)"
| "json_list f _ = JNull"

definition json_decl :: "(tname \<Rightarrow> xval \<Rightarrow> json) \<Rightarrow> rpc_decl \<Rightarrow> xval \<Rightarrow> json" where
  "json_decl rec d =
     (if d_typ d = Base String then json_string
      else if d_typ d = Base Byte then json_hex
      else case d_qual d of
        SCALAR \<Rightarrow> rec (d_typ d)
      | PTR \<Rightarrow> json_opt (rec (d_typ d))
      | _ \<Rightarrow> json_list (rec (d_typ d)))"

fun json_struct :: "(rpc_decl \<Rightarrow> xval \<Rightarrow> json) \<Rightarrow> rpc_decl list \<Rightarrow> xval \<Rightarrow> json" where
  "json_struct f ds (XStruct as) = JObj (map2 (\<lambda>d a. (d_id d, f d a)) ds as)"
| "json_struct f ds _ = JNull"

fun json_union :: "(tname \<Rightarrow> xval \<Rightarrow> json) \<Rightarrow> rpc_union \<Rightarrow> xval \<Rightarrow> json" where
  "json_union rec u (XUnion t None) = JObj [(u_tagid u, rec (u_tagtype u) t)]"
| "json_union rec u (XUnion t (Some a)) =
     JObj ((u_tagid u, rec (u_tagtype u) t) #
       (case bindO (xdisc t) (select_arm u) of
          Some f \<Rightarrow> [(d_id (uf_decl f), json_decl rec (uf_decl f) a)]
        | None \<Rightarrow> []))"
| "json_union rec u _ = JNull"

fun json_enum :: "string \<Rightarrow> (string \<times> u32) list \<Rightarrow> xval \<Rightarrow> json" where
  "json_enum T tags (X32 w) = JStr (enum_String T tags w)"
| "json_enum T tags _ = JNull"

definition json_sym :: "(tname \<Rightarrow> xval \<Rightarrow> json) \<Rightarrow> string \<Rightarrow> rpc_sym \<Rightarrow> xval \<Rightarrow> json" where
  "json_sym rec s sd =
     (case sd of
        Sym_typedef d \<Rightarrow> json_decl rec d
      | Sym_enum tags \<Rightarrow> json_enum s tags
      | Sym_struct ds \<Rightarrow> json_struct (json_decl rec) ds
      | Sym_union u \<Rightarrow> json_union rec u)"

fun json_typ :: "pkg \<Rightarrow> golib \<Rightarrow> nat \<Rightarrow> tname \<Rightarrow> xval \<Rightarrow> json" where
  "json_typ P L 0 t a = JNull"
| "json_typ P L (Suc n) (Base b) a = json_base L b a"
| "json_typ P L (Suc n) (Ident s) a =
     (case sym_of P s of None \<Rightarrow> JNull | Some sd \<Rightarrow> json_sym (json_typ P L n) s sd a)"

section \<open>Layout\<close>

definition lines_of :: "string \<Rightarrow> string list \<Rightarrow> string" where
  "lines_of ind xs = (case xs of [] \<Rightarrow> [] | x # ys \<Rightarrow> NL # ind @ x @ concat (map (\<lambda>y. [CHR '','', NL] @ ind @ y) ys))"

fun render :: "golib \<Rightarrow> string \<Rightarrow> json \<Rightarrow> string" where
  "render L ind JNull = ''null''"
| "render L ind (JBool b) = (if b then ''true'' else ''false'')"
| "render L ind (JNum s) = s"
| "render L ind (JStr s) = quoted L s"
| "render L ind (JArr ts) =
     [CHR ''[''] @ lines_of (ind @ ''    '') (map (render L (ind @ ''    '')) ts) @ NL # ind @ [CHR '']'']"
| "render L ind (JObj kvs) =
     [CHR ''{''] @ lines_of (ind @ ''    '') (map (\<lambda>(k, t). quoted L k @ '': '' @ render L (ind @ ''    '') t) kvs) @
     NL # ind @ [CHR ''}'']"

section \<open>Values that survive\<close>

text \<open>The present pointers: an array element must not be one.\<close>

fun absent :: "xval \<Rightarrow> bool" where
  "absent (XOpt (Some a)) = False"
| "absent _ = True"

fun safe_base :: "golib \<Rightarrow> base \<Rightarrow> xval \<Rightarrow> bool" where
  "safe_base L b (X32 w) =
     (if b = Int32 then \<bar>sint w\<bar> < 10 ^ 6 else if b = Uint32 then unat w < 10 ^ 6
      else l_scan32 L (l_num L (l_show32 L w)) = Some w)"
| "safe_base L b (X64 w) = (b \<in> {Int64, Uint64} \<or> l_scan64 L (l_show64 L w) = Some w)"
| "safe_base L b _ = True"

fun safe_opt :: "(xval \<Rightarrow> json) \<Rightarrow> (xval \<Rightarrow> bool) \<Rightarrow> xval \<Rightarrow> bool" where
  "safe_opt tree safe (XOpt (Some a)) = (safe a \<and> tree a \<noteq> JNull)"
| "safe_opt tree safe _ = True"

fun safe_list :: "(xval \<Rightarrow> bool) \<Rightarrow> xval \<Rightarrow> bool" where
  "safe_list safe (XArr as) = list_all (\<lambda>a. safe a \<and> absent a) as"
| "safe_list safe (XVec as) = list_all (\<lambda>a. safe a \<and> absent a) as"
| "safe_list safe _ = True"

definition safe_decl :: "(tname \<Rightarrow> xval \<Rightarrow> json) \<Rightarrow> (tname \<Rightarrow> xval \<Rightarrow> bool) \<Rightarrow> rpc_decl \<Rightarrow> xval \<Rightarrow> bool" where
  "safe_decl tree rec d =
     (if d_typ d = Base String \<or> d_typ d = Base Byte then (\<lambda>_. True)
      else case d_qual d of
        SCALAR \<Rightarrow> rec (d_typ d)
      | PTR \<Rightarrow> safe_opt (tree (d_typ d)) (rec (d_typ d))
      | _ \<Rightarrow> safe_list (rec (d_typ d)))"

fun safe_struct :: "(rpc_decl \<Rightarrow> xval \<Rightarrow> bool) \<Rightarrow> rpc_decl list \<Rightarrow> xval \<Rightarrow> bool" where
  "safe_struct f ds (XStruct as) = list_all2 f ds as"
| "safe_struct f ds _ = True"

fun safe_union :: "(tname \<Rightarrow> xval \<Rightarrow> json) \<Rightarrow> (tname \<Rightarrow> xval \<Rightarrow> bool) \<Rightarrow> rpc_union \<Rightarrow> xval \<Rightarrow> bool" where
  "safe_union tree rec u (XUnion t body) =
     (rec (u_tagtype u) t \<and>
      (case body of
         None \<Rightarrow> True
       | Some a \<Rightarrow>
           (case bindO (xdisc t) (select_arm u) of
              Some f \<Rightarrow> safe_decl tree rec (uf_decl f) a
            | None \<Rightarrow> True)))"
| "safe_union tree rec u _ = True"

definition safe_sym :: "(tname \<Rightarrow> xval \<Rightarrow> json) \<Rightarrow> (tname \<Rightarrow> xval \<Rightarrow> bool) \<Rightarrow> rpc_sym \<Rightarrow> xval \<Rightarrow> bool" where
  "safe_sym tree rec sd =
     (case sd of
        Sym_typedef d \<Rightarrow> safe_decl tree rec d
      | Sym_enum tags \<Rightarrow> (\<lambda>_. True)
      | Sym_struct ds \<Rightarrow> safe_struct (safe_decl tree rec) ds
      | Sym_union u \<Rightarrow> safe_union tree rec u)"

fun safe_typ :: "pkg \<Rightarrow> golib \<Rightarrow> nat \<Rightarrow> tname \<Rightarrow> xval \<Rightarrow> bool" where
  "safe_typ P L 0 t a = True"
| "safe_typ P L (Suc n) (Base b) a = safe_base L b a"
| "safe_typ P L (Suc n) (Ident s) a =
     (case sym_of P s of None \<Rightarrow> True | Some sd \<Rightarrow> safe_sym (json_typ P L n) (safe_typ P L n) sd a)"

section \<open>Packages\<close>

text \<open>Names as goxdr's lexer and the Go compiler let them through.\<close>

definition visible :: "string \<Rightarrow> bool" where
  "visible tn \<longleftrightarrow> \<not> isDigitSandwich tn ''TransactionV'' ''Envelope''"

definition field_name :: "string \<Rightarrow> bool" where
  "field_name s \<longleftrightarrow> s \<noteq> [] \<and> hd s \<noteq> CHR ''[''"

definition enum_names :: "string \<Rightarrow> (string \<times> u32) list \<Rightarrow> bool" where
  "enum_names s tags \<longleftrightarrow>
     list_all (\<lambda>(n, w). n \<noteq> [] \<and> list_all XdrSymChar n) tags \<and> distinct (map fst tags) \<and>
     list_all XdrSymChar s \<and> s \<noteq> [] \<and> s \<notin> set (map fst tags)"

definition json_names :: "string \<times> rpc_sym \<Rightarrow> bool" where
  "json_names = (\<lambda>(s, sd). visible s \<and>
     (case sd of
        Sym_typedef d \<Rightarrow> True
      | Sym_enum tags \<Rightarrow> enum_names s tags
      | Sym_struct ds \<Rightarrow> distinct (map d_id ds) \<and> list_all (\<lambda>d. field_name (d_id d)) ds
      | Sym_union u \<Rightarrow> field_name (u_tagid u) \<and>
          list_all (\<lambda>f. isVoid f \<or> field_name (d_id (uf_decl f)) \<and> d_id (uf_decl f) \<noteq> u_tagid u) (u_fields u)))"

definition json_pkg :: "pkg \<Rightarrow> bool" where
  "json_pkg P = list_all json_names (p_defs P)"

lemma json_pkg_sym: "json_pkg P \<Longrightarrow> sym_of P s = Some sd \<Longrightarrow> json_names (s, sd)"
  by (auto simp: json_pkg_def sym_of_def list_all_iff dest!: map_of_SomeD)

lemma sandwich_last:
  assumes "isDigitSandwich t p suf" "suf \<noteq> []"
  shows "t \<noteq> [] \<and> last t = last suf"
proof -
  let ?t = "drop (length p) t"
  from assms(1) have l: "length suf < length ?t" "drop (length ?t - length suf) ?t = suf"
    by (simp_all add: isDigitSandwich_def Let_def not_le split: if_splits)
  have "length ?t - length suf < length ?t"
    by (rule diff_less) (use l(1) assms(2) in simp_all)
  with l(2) have "last ?t = last suf" by (metis last_drop)
  moreover have "length p < length t" using l(1) by simp
  ultimately show ?thesis by (auto simp: last_drop)
qed

lemma visible_last: "last t \<noteq> CHR ''e'' \<Longrightarrow> visible t"
  using sandwich_last [of t "''TransactionV''" "''Envelope''"] by (auto simp: visible_def)

lemma visible_suffix [simp]: "visible (s @ ''*'')" "visible (s @ ''[]'')" "visible (s @ ''<>'')"
  by (rule visible_last, simp)+

lemma visible_base: "visible (type_name (Base b))"
proof -
  have "last (type_name (Base b)) \<noteq> CHR ''e'' \<or> type_name (Base b) = ''byte''" by (cases b) simp_all
  moreover have "visible ''byte''" by code_simp
  ultimately show ?thesis using visible_last by metis
qed

lemma visible_type:
  assumes "json_pkg P" "typ_ok P t"
  shows "visible (type_name t)"
proof (cases t)
  case (Base b)
  then show ?thesis using visible_base by simp
next
  case (Ident s)
  with assms show ?thesis using json_pkg_sym by (fastforce simp: typ_ok_def json_names_def)
qed

lemma visible_decl:
  assumes "json_pkg P" "decl_ok P d"
  shows "visible (decl_type_name d)"
proof (cases "d_typ d = Base String \<or> d_typ d = Base Byte")
  case True
  moreover have "visible ''string''" "visible ''opaque<>''" "visible ''opaque[]''" by code_simp+
  ultimately show ?thesis by (auto simp: decl_type_name_def)
next
  case False
  with visible_type [OF assms(1)] decl_typ_ok [OF assms(2)] show ?thesis
    by (auto simp: decl_type_name_def split: qual_t.splits)
qed

lemma HideFieldName_visible [simp]: "visible tn \<Longrightarrow> \<not> HideFieldName name tn"
  by (simp add: visible_def HideFieldName_def)


end
