(* ===== verification/JsonCodec.thy ===== *)
theory JsonCodec imports JsonSpec begin

text \<open>
  The locale \<open>jcoder\<close>, the contract of jsonOut and jsonIn on one type, and the lemmas that
  show every type constructor keeps it; from them the contract of every type of a package.
\<close>

section \<open>Fields of the output\<close>

definition label :: "golib \<Rightarrow> string \<Rightarrow> string" where
  "label L name = (if 0 < length name \<and> hd name \<noteq> CHR ''['' then quoted L name @ '': '' else [])"

lemma label_simps [simp]: "label L [] = []" "label L elem_name = []"
  "field_name s \<Longrightarrow> label L s = quoted L s @ '': ''"
  by (simp_all add: label_def elem_name_def field_name_def)

lemma printField_alt:
  "printField L name s j =
   \<lparr>jo_out = jo_out j @ (if jo_needComma j then [CHR '','', NL] else [NL]) @ jo_indent j @ label L name @ s,
    jo_indent = jo_indent j, jo_needComma = True\<rparr>"
  by (simp add: printField_def Let_def jo_write_def label_def)

definition put :: "string \<Rightarrow> jsonOut \<Rightarrow> jsonOut" where
  "put x j = \<lparr>jo_out = jo_out j @ (if jo_needComma j then [CHR '','', NL] else [NL]) @ jo_indent j @ x,
    jo_indent = jo_indent j, jo_needComma = True\<rparr>"

lemma printField_put: "printField L name s j = put (label L name @ s) j"
  by (simp add: printField_alt put_def)

lemma put_sel [simp]: "jo_indent (put x j) = jo_indent j" "jo_needComma (put x j)"
  by (simp_all add: put_def)

lemma foldl_put_comma:
  "jo_needComma j \<Longrightarrow> foldl (\<lambda>j x. put x j) j xs =
   \<lparr>jo_out = jo_out j @ concat (map (\<lambda>y. [CHR '','', NL] @ jo_indent j @ y) xs),
    jo_indent = jo_indent j, jo_needComma = True\<rparr>"
proof (induction xs arbitrary: j)
  case (Cons x xs)
  then show ?case by (simp add: Cons.IH put_def)
qed simp

lemma foldl_put:
  assumes "\<not> jo_needComma j"
  shows "jo_out (foldl (\<lambda>j x. put x j) j xs) = jo_out j @ lines_of (jo_indent j) xs"
    and "jo_indent (foldl (\<lambda>j x. put x j) j xs) = jo_indent j"
  using assms by (cases xs; simp add: lines_of_def foldl_put_comma; simp add: put_def)+

lemma aggregate_put:
  assumes "\<And>j. jo_indent j = ind @ ''    '' \<Longrightarrow> body j = Inr (foldl (\<lambda>j x. put x j) j xs)"
    and "jo_indent j = ind"
  shows "aggregate op cl body (printField L name [] j) =
    Inr (put (label L name @ [op] @ lines_of (ind @ ''    '') xs @ NL # ind @ [cl]) j)"
proof -
  let ?j = "jo_write [op] ((printField L name [] j)\<lparr>jo_indent := ind @ ''    '', jo_needComma := False\<rparr>)"
  have n: "\<not> jo_needComma ?j" and i: "jo_indent ?j = ind @ ''    ''" by (simp_all add: jo_write_def)
  have "body ?j = Inr (foldl (\<lambda>j x. put x j) ?j xs)" by (rule assms(1) [OF i])
  with foldl_put [OF n, of xs] assms(2) i show ?thesis
    by (simp add: aggregate_def Let_def printField_put jo_write_def put_def)
qed

section \<open>The contract\<close>

text \<open>
  Printing an XDR value appends its document; from the document the same value is read
  back into a pristine destination \<open>z\<close>. A present pointer looks the document up a second
  time, so it must still be there.
\<close>

locale jcoder =
  fixes L :: golib and z :: val and abs :: abstraction and conf safe :: conformance
    and tree :: "xval \<Rightarrow> json" and outp :: "string \<Rightarrow> string \<Rightarrow> val \<Rightarrow> jsonOut \<Rightarrow> go_panic + jsonOut"
    and inp :: "string \<Rightarrow> json \<Rightarrow> val \<Rightarrow> json \<Rightarrow> go_panic + (val \<times> json)"
  assumes prints: "abs v = Some a \<Longrightarrow> conf a \<Longrightarrow> visible tn \<Longrightarrow>
      outp tn name v j = Inr (put (label L name @ render L (jo_indent j) (tree a)) j)"
    and null: "conf a \<Longrightarrow> safe a \<Longrightarrow> tree a = JNull \<Longrightarrow> abs z = Some a"
    and scans: "conf a \<Longrightarrow> safe a \<Longrightarrow> tree a \<noteq> JNull \<Longrightarrow> json_get name obj = Inr (tree a, obj) \<or> absent a \<Longrightarrow>
      \<exists>v. inp name (tree a) z obj = Inr (v, obj) \<and> abs v = Some a"
begin

lemma marshal:
  assumes "conf a" "safe a" "visible tn" "json_get name obj = Inr (tree a, obj')" "obj' = obj \<or> absent a"
  shows "\<exists>v. ji_Marshal (inp name) name tn z obj = Inr (v, obj') \<and> abs v = Some a"
proof (cases "tree a = JNull")
  case True
  with null [OF assms(1,2)] assms(3,4) show ?thesis by (simp add: ji_Marshal_def)
next
  case False
  have "json_get name obj' = Inr (tree a, obj') \<or> absent a" using assms(4,5) by auto
  from scans [OF assms(1,2) False this] assms(3,4) False show ?thesis by (auto simp: ji_Marshal_def)
qed

lemma each_prints:
  assumes "list_all conf as" "visible tn"
  shows "those_opt (map abs vs) = Some as \<Longrightarrow> jo_indent j = ind \<Longrightarrow>
    jo_each (outp tn elem_name) vs j = Inr (foldl (\<lambda>j x. put x j) j (map (render L ind) (map tree as)))"
  using assms(1)
proof (induction vs arbitrary: as j)
  case (Cons v vs)
  then obtain a as' where a: "as = a # as'" "abs v = Some a" "those_opt (map abs vs) = Some as'"
    by (auto simp: bindO_eq_Some)
  with Cons.prems prints [OF a(2) _ assms(2), of elem_name j] Cons.IH [OF a(3)]
  show ?case by simp
qed simp

lemma elem_reads:
  assumes "conf a" "safe a" "absent a" "visible tn"
  shows "\<exists>v. ji_Marshal (inp elem_name) elem_name tn z (JArr (tree a # ts)) = Inr (v, JArr ts) \<and> abs v = Some a"
  using marshal [OF assms(1,2,4), of elem_name "JArr (tree a # ts)" "JArr ts"] assms(3)
  by (simp add: json_get_def elem_name_def)

lemma each_reads:
  assumes "visible tn"
  shows "list_all conf as \<Longrightarrow> list_all (\<lambda>a. safe a \<and> absent a) as \<Longrightarrow>
    \<exists>vs. ji_each (ji_Marshal (inp elem_name) elem_name tn) (replicate (length as) z) (JArr (map tree as @ ts)) = Inr (vs, JArr ts) \<and>
      those_opt (map abs vs) = Some as"
proof (induction as)
  case Nil
  then show ?case by simp
next
  case (Cons a as)
  with elem_reads [OF _ _ _ assms, of a "map tree as @ ts"] obtain v where
    v: "ji_Marshal (inp elem_name) elem_name tn z (JArr (tree a # map tree as @ ts)) = Inr (v, JArr (map tree as @ ts))"
      "abs v = Some a" by auto
  from Cons obtain vs where vs: "ji_each (ji_Marshal (inp elem_name) elem_name tn) (replicate (length as) z) (JArr (map tree as @ ts)) = Inr (vs, JArr ts)"
      "those_opt (map abs vs) = Some as" by auto
  from v vs show ?case by (intro exI [of _ "v # vs"]) simp
qed

end
section \<open>Pointers, arrays, vectors\<close>

lemma json_opt_JNull: "json_opt f (XOpt None) = JNull" "json_opt f (XOpt (Some a)) = f a"
  by simp_all

context jcoder begin

lemma jcoder_ptr:
  assumes O: "\<And>tn name. rec tn name t = outp tn name" and I: "\<And>name. rec' name t = inp name"
    and z: "zero P (go_typ P t) = z" and vis: "visible (type_name t)"
  shows "jcoder L (VPtr None) (abs_ptr abs) (conf_opt conf) (safe_opt tree safe) (json_opt tree)
    (\<lambda>tn name. jo_ptr L rec name t) (\<lambda>name. ji_ptr P rec' name t)"
proof (rule jcoder.intro)
  fix v a tn name j assume "abs_ptr abs v = Some a" "conf_opt conf a" "visible tn"
  then show "jo_ptr L rec name t v j = Inr (put (label L name @ render L (jo_indent j) (json_opt tree a)) j)"
    using prints [OF _ _ vis] by (auto simp: abs_ptr_Some conf_opt_iff O printField_put)
next
  fix a assume "conf_opt conf a" "safe_opt tree safe a" "json_opt tree a = JNull"
  then show "abs_ptr abs (VPtr None) = Some a" by (auto simp: conf_opt_iff)
next
  fix a name obj
  assume c: "conf_opt conf a" "safe_opt tree safe a" "json_opt tree a \<noteq> JNull"
    and g: "json_get name obj = Inr (json_opt tree a, obj) \<or> absent a"
  then obtain b where b: "a = XOpt (Some b)" "conf b" "safe b" by (auto simp: conf_opt_iff)
  with g have "json_get name obj = Inr (tree b, obj)" by simp
  from marshal [OF b(2,3) vis this] obtain v where
    "ji_Marshal (inp name) name (type_name t) z obj = Inr (v, obj)" "abs v = Some b" by auto
  then show "\<exists>v. ji_ptr P rec' name t (json_opt tree a) (VPtr None) obj = Inr (v, obj) \<and> abs_ptr abs v = Some a"
    by (intro exI [of _ "VPtr (Some v)"]) (simp add: I z SetPresent_def b(1))
qed

lemma jcoder_array:
  assumes O: "\<And>tn name. rec tn name t = outp tn name" and I: "\<And>name. rec' name t = inp name"
    and vis: "visible (type_name t)"
  shows "jcoder L (VArr (replicate k z)) (abs_array abs) (conf_arr k conf) (safe_list safe) (json_list tree)
    (\<lambda>tn name. jo_array L rec tn name t) (\<lambda>name. ji_array rec' t)"
proof (rule jcoder.intro)
  fix v a tn name j assume "abs_array abs v = Some a" "conf_arr k conf a" "visible tn"
  then obtain vs as where v: "v = VArr vs" "those_opt (map abs vs) = Some as" "a = XArr as" "list_all conf as"
    by (auto simp: abs_array_Some)
  from aggregate_put [OF each_prints [OF v(4) vis v(2)] refl, where op = "CHR ''[''" and cl = "CHR '']''" and name = name]
  show "jo_array L rec tn name t v j = Inr (put (label L name @ render L (jo_indent j) (json_list tree a)) j)"
    using \<open>visible tn\<close> by (simp add: v(1,3) O jo_aggregate_def comp_def)
next
  fix a assume "conf_arr k conf a" "safe_list safe a" "json_list tree a = JNull"
  then show "abs_array abs (VArr (replicate k z)) = Some a" by (auto simp: conf_arr_iff)
next
  fix a name obj assume "conf_arr k conf a" "safe_list safe a"
  then obtain as where a: "a = XArr as" "length as = k" "list_all conf as" "list_all (\<lambda>a. safe a \<and> absent a) as"
    by (auto simp: conf_arr_iff)
  from each_reads [OF vis a(3,4), of "[]"] a(2) obtain vs where
    "ji_each (ji_Marshal (inp elem_name) elem_name (type_name t)) (replicate k z) (JArr (map tree as)) = Inr (vs, JArr [])"
    "those_opt (map abs vs) = Some as" by auto
  then show "\<exists>v. ji_array rec' t (json_list tree a) (VArr (replicate k z)) obj = Inr (v, obj) \<and> abs_array abs v = Some a"
    by (intro exI [of _ "VArr vs"]) (simp add: a(1) ji_elem_def I)
qed

text \<open>The loop of XdrMarshalN on a slice whose unread elements are all pristine.\<close>

lemma SetVecLen_pristine:
  assumes "i < unat bound" "i \<le> length b" "\<forall>k. i \<le> k \<and> k < length b \<longrightarrow> b ! k = z"
  obtains b1 where "SetVecLen bound z (of_nat (i + 1)) (i, b) = Inr (i + 1, b1)" "i + 1 \<le> length b1"
    "take i b1 = take i b" "\<forall>k. i \<le> k \<and> k < length b1 \<longrightarrow> b1 ! k = z"
proof -
  have u: "(of_nat (i + 1) :: u32) \<le> bound" "unat (of_nat (i + 1) :: u32) = i + 1"
    using len_le_bound [of "i + 1" bound] assms(1) by auto
  from SetVecLen_spec [OF u(1) assms(2), of z] obtain b1 where b1:
      "SetVecLen bound z (of_nat (i + 1)) (i, b) = Inr (i + 1, b1)" "i + 1 \<le> length b1"
      "take (min i (i + 1)) b1 = take (min i (i + 1)) b"
    unfolding u(2) by blast
  then have "b1 = b \<or> b1 = take i b @ replicate (vec_newcap bound (of_nat (i + 1)) (length b) - i) z"
    by (auto simp: SetVecLen_def bindE_eq_Inr split: if_splits)
  then have "\<forall>k. i \<le> k \<and> k < length b1 \<longrightarrow> b1 ! k = z"
    using assms(2,3) by (elim disjE) (auto simp: nth_append)
  with b1 show thesis by (intro that [of b1]) simp_all
qed

lemma vec_loop_reads:
  assumes vis: "visible tn"
  shows "list_all conf as \<Longrightarrow> list_all (\<lambda>a. safe a \<and> absent a) as \<Longrightarrow> i + length as \<le> unat bound \<Longrightarrow>
    i \<le> length b \<Longrightarrow> \<forall>k. i \<le> k \<and> k < length b \<longrightarrow> b ! k = z \<Longrightarrow>
    \<exists>b'. vec_loop bound z (ji_Marshal (inp elem_name) elem_name tn) (length as) i (i, b) (JArr (map tree as)) =
        Inr ((i + length as, b'), JArr []) \<and> i + length as \<le> length b' \<and> take i b' = take i b \<and>
      those_opt (map abs (take (length as) (drop i b'))) = Some as"
proof (induction as arbitrary: i b)
  case Nil
  then show ?case by simp
next
  case (Cons a as)
  let ?f = "ji_Marshal (inp elem_name) elem_name tn"
  have "i < unat bound" using Cons.prems(3) by simp
  from SetVecLen_pristine [OF this Cons.prems(4,5)] obtain b1 where b1:
    "SetVecLen bound z (of_nat (i + 1)) (i, b) = Inr (i + 1, b1)" "i + 1 \<le> length b1"
    "take i b1 = take i b" "\<forall>k. i \<le> k \<and> k < length b1 \<longrightarrow> b1 ! k = z" by blast
  from elem_reads [OF _ _ _ vis, of a "map tree as"] Cons.prems(1,2) obtain v where
    v: "?f z (JArr (tree a # map tree as)) = Inr (v, JArr (map tree as))" "abs v = Some a" by auto
  have z: "b1 ! i = z" using b1(2,4) by simp
  let ?b = "b1[i := v]"
  from Cons.IH [of "i + 1" ?b] Cons.prems b1 obtain b' where b':
    "vec_loop bound z ?f (length as) (i + 1) (i + 1, ?b) (JArr (map tree as)) = Inr ((i + 1 + length as, b'), JArr [])"
    "i + 1 + length as \<le> length b'" "take (i + 1) b' = take (i + 1) ?b"
    "those_opt (map abs (take (length as) (drop (i + 1) b'))) = Some as" by auto
  have tk: "take (Suc i) ?b = take i b1 @ [v]" using b1(2) by (simp add: take_Suc_update)
  then have "take i b' = take i b" using b'(3) b1(2,3) by (metis Suc_eq_plus1 append_eq_append_conv2 take_Suc_conv_app_nth take_update_cancel le_refl take_take min.absorb1 lessI less_imp_le)
  moreover have "b' ! i = v" using b'(2,3) tk nth_of_take_eq [of i b' b1 v] by simp
  then have "take (length (a # as)) (drop i b') = v # take (length as) (drop (i + 1) b')"
    using b'(2) take_Suc_drop_nth [of i b' "length as"] by simp
  ultimately show ?case using b1(1) v z b' by (intro exI [of _ b']) simp
qed

end
context jcoder begin

lemma jcoder_vec:
  assumes O: "\<And>tn name. rec tn name t = outp tn name" and I: "\<And>name. rec' name t = inp name"
    and z: "zero P (go_typ P t) = z" and vis: "visible (type_name t)"
  shows "jcoder L (VSlice 0 []) (abs_vec abs) (conf_vec bound conf) (safe_list safe) (json_list tree)
    (\<lambda>tn name. jo_vec L rec bound tn name t) (\<lambda>name. ji_vec P rec' bound t)"
proof (rule jcoder.intro)
  fix v a tn name j assume "abs_vec abs v = Some a" "conf_vec bound conf a" and tn: "visible tn"
  then obtain l b as where v: "v = VSlice l b" "those_opt (map abs (take l b)) = Some as" "l \<le> length b"
      "a = XVec as" "list_all conf as" "length as \<le> unat bound"
    by (auto simp: abs_vec_Some conf_vec_iff)
  have l: "l = length as" using those_opt_length [OF v(2)] v(3) by simp
  note u = len_le_bound [OF v(6)]
  have c: "XdrCheckLen bound (of_nat l) = Inr ()" using u by (simp add: l XdrCheckLen_def not_less)
  have b: "bindE (XdrCheckLen bound (of_nat l)) (\<lambda>_. jo_each (rec (type_name t) elem_name t) (take (unat (of_nat l :: u32)) b) j') =
      Inr (foldl (\<lambda>j x. put x j) j' (map (render L ind) (map tree as)))" if "jo_indent j' = ind" for j' ind
    using each_prints [OF v(5) vis v(2) that] by (simp add: c [unfolded l] O l u [unfolded l])
  from aggregate_put [OF b refl, where op = "CHR ''[''" and cl = "CHR '']''" and name = name]
  show "jo_vec L rec bound tn name t v j = Inr (put (label L name @ render L (jo_indent j) (json_list tree a)) j)"
    using tn by (simp add: v(1,4) Let_def jo_aggregate_def comp_def)
next
  fix a assume "conf_vec bound conf a" "safe_list safe a" "json_list tree a = JNull"
  then show "abs_vec abs (VSlice 0 []) = Some a" by (auto simp: conf_vec_iff)
next
  fix a name obj assume "conf_vec bound conf a" "safe_list safe a"
  then obtain as where a: "a = XVec as" "length as \<le> unat bound" "list_all conf as" "list_all (\<lambda>a. safe a \<and> absent a) as"
    by (auto simp: conf_vec_iff)
  note u = len_le_bound [OF a(2)]
  have c: "XdrCheckLen bound (of_nat (length as)) = Inr ()" using u by (simp add: XdrCheckLen_def not_less)
  from vec_loop_reads [OF vis a(3,4), of 0 bound "[]"] a(2) obtain b' where
    b': "vec_loop bound z (ji_Marshal (inp elem_name) elem_name (type_name t)) (length as) 0 (0, []) (JArr (map tree as)) =
        Inr ((length as, b'), JArr [])" "length as \<le> length b'" "those_opt (map abs (take (length as) b')) = Some as" by auto
  have "length as < 2 ^ 32" using a(2) unat_lt_pow32 [of bound] by (blast intro: le_less_trans)
  with b' u show "\<exists>v. ji_vec P rec' bound t (json_list tree a) (VSlice 0 []) obj = Inr (v, obj) \<and> abs_vec abs v = Some a"
    by (intro exI [of _ "VSlice (length as) b'"]) (simp add: a(1) ji_elem_def I z XdrMarshalN_in_def c)
qed

end

section \<open>Base types, strings, enums\<close>

definition num_law :: "golib \<Rightarrow> bool" where
  "num_law L \<longleftrightarrow> (\<forall>k. \<bar>k\<bar> < 10 ^ 6 \<longrightarrow> l_num L (show_int k) = show_int k)"

lemma num_law_nat:
  assumes "num_law L" "k < 10 ^ 6"
  shows "l_num L (decimal k) = decimal k"
proof -
  have "\<bar>int k\<bar> < 10 ^ 6" using assms(2) by simp
  with assms(1) have "l_num L (show_int (int k)) = show_int (int k)" by (simp only: num_law_def)
  then show ?thesis by (simp add: show_int_def)
qed

lemma scan_bool_shown: "scan_bool (if b then ''true'' else ''false'') = Some b"
proof -
  have "scan_bool ''true'' = Some True" "scan_bool ''false'' = Some False" by code_simp+
  then show ?thesis by (cases b) simp_all
qed

lemma word_of_sint: "word_of_int (sint (w :: 'a::len word)) = w"
  by simp

lemma show_uint: "show_int (uint (w :: 'a::len word)) = decimal (unat w)"
  by (simp add: show_int_def)

lemma scan_uint_show:
  "scan_uint 32 (decimal (unat (w :: u32))) = Some (unat w)" "scan_uint 64 (decimal (unat (x :: u64))) = Some (unat x)"
  using scan_uint_decimal [of "unat w" 32 "[]"] scan_uint_decimal [of "unat x" 64 "[]"] unsigned_less [where 'a = nat, of x]
  by (simp_all add: ends_number_def)

lemma abs_base_cases:
  assumes "abs_base b v = Some a"
  obtains x where "b = Bool" "v = VBool x" "a = XBool x"
    | w where "b \<in> {Int32, Uint32, Float32}" "v = VNum32 w" "a = X32 w"
    | w where "b \<in> {Int64, Uint64, Float64}" "v = VNum64 w" "a = X64 w"
    | "b = Void"
  using assms by (cases b) (auto simp: abs_base_def abs_prim_Some)

lemma jo_base_prints:
  assumes "abs_base b v = Some a" "b \<noteq> Void"
  shows "jo_base L b name v j = Inr (put (label L name @ render L (jo_indent j) (json_base L b a)) j)"
  using assms by (cases rule: abs_base_cases) (auto simp: jo_base_def Let_def printField_put)

lemma json_base_not_null: "conf_base b a \<Longrightarrow> b \<noteq> Void \<Longrightarrow> json_base L b a \<noteq> JNull"
  by (cases "(b, a)" rule: conf_base.cases) auto

lemma jcoder_base:
  assumes b: "b \<notin> {Void, Byte, String}" and law: "num_law L"
  shows "jcoder L (zero_base b) (abs_base b) (conf_base b) (safe_base L b) (json_base L b)
    (\<lambda>tn name. jo_base L b name) (\<lambda>name. ji_base L b)"
proof (rule jcoder.intro)
  fix a name obj assume c: "conf_base b a" "safe_base L b a"
  have law': "l_num L (show_int (sint w)) = show_int (sint w)" if "\<bar>sint w\<bar> < 10 ^ 6" for w :: u32
    using law that by (simp add: num_law_def)
  have lawu: "l_num L (decimal (unat w)) = decimal (unat w)" if "unat w < 10 ^ 6" for w :: u32
    by (rule num_law_nat [OF law that])
  consider x where "b = Bool" "a = XBool x" | w where "b \<in> {Int32, Uint32, Float32}" "a = X32 w"
    | w where "b \<in> {Int64, Uint64, Float64}" "a = X64 w"
    using c(1) b by (cases "(b, a)" rule: conf_base.cases) auto
  then show "\<exists>v. ji_base L b (json_base L b a) (zero_base b) obj = Inr (v, obj) \<and> abs_base b v = Some a"
  proof cases
    case 1
    then show ?thesis using scan_bool_shown [of x]
      by (simp add: mustString_def base_Scan_def fromO_def abs_base_def)
  next
    case 2
    with c(2) law' [of w] lawu [of w] scan_int_show [OF in_range_sint(1) [of w], of True] scan_uint_show(1) [of w]
    show ?thesis by (auto simp: mustString_def base_Scan_def fromO_def abs_base_def show_uint)
  next
    case 3
    with c(2) scan_int_show [OF in_range_sint(2) [of w], of True] scan_uint_show(2) [of w]
    show ?thesis by (auto simp: mustString_def base_Scan_def fromO_def abs_base_def show_uint)
  qed
qed (use b in \<open>auto simp: jo_base_prints dest: json_base_not_null\<close>)

lemma jcoder_string:
  "jcoder L (VString []) abs_string (conf_var bound) (\<lambda>_. True) json_string
    (\<lambda>tn name. jo_string L name) (\<lambda>name. ji_string L bound)"
  by unfold_locales (auto simp: abs_prim_Some conf_prim_iff printField_put ji_string_def mustString_def SetByteSlice_def)

lemma jcoder_vecopaque:
  "jcoder L (VBytes []) abs_vecopaque (conf_var bound) (\<lambda>_. True) json_hex
    (\<lambda>tn name. jo_bytes L name) (\<lambda>name. ji_vecopaque L bound)"
  by unfold_locales
    (auto simp: abs_prim_Some conf_prim_iff printField_put ji_vecopaque_def mustString_def SetByteSlice_def fromO_def
      quoted_def Quote_plain Encode_plain put_def jo_write_def)

lemma jcoder_arropaque:
  "jcoder L (VByteArr (replicate k 0)) abs_arropaque (conf_fix k) (\<lambda>_. True) json_hex
    (\<lambda>tn name. jo_bytes L name) (\<lambda>name. ji_arropaque L)"
  by unfold_locales
    (auto simp: abs_prim_Some conf_prim_iff printField_put mustString_def fromO_def
      quoted_def Quote_plain Encode_plain put_def jo_write_def)
text \<open>Enums: a named value by its name, another as the type's name, # and the number.\<close>

lemma takeWhile_sym:
  "list_all XdrSymChar n \<Longrightarrow> takeWhile XdrSymChar n = n \<and> dropWhile XdrSymChar n = []"
  by (simp add: list_all_iff takeWhile_eq_all_conv)

lemma XdrSymChar_not_blank: "XdrSymChar c \<Longrightarrow> byte_at c \<noteq> 13 \<and> byte_at c \<noteq> 10 \<and> \<not> blank c \<and> c \<noteq> CHR ''#''"
  by (auto simp: XdrSymChar_def blank_def Let_def byte_at_def)

lemma skip_space_sym: "s \<noteq> [] \<Longrightarrow> XdrSymChar (hd s) \<Longrightarrow> skip_space nl s = Some s"
  using XdrSymChar_not_blank [of "hd s"] by (cases s) auto

lemma enum_Scan_String:
  assumes "enum_names s tags"
  shows "enum_Scan s tags (enum_String s tags w) = Some w"
proof (cases "find (\<lambda>(n, x). x = w) tags")
  case (Some p)
  obtain n x where p: "p = (n, x)" by (cases p)
  from find_in_set [OF Some] p have n: "(n, w) \<in> set tags" "x = w" by auto
  with assms have c: "n \<noteq> []" "list_all XdrSymChar n" "distinct (map fst tags)"
    by (auto simp: enum_names_def list_all_iff)
  then have "XdrSymChar (hd n)" by (simp add: list_all_iff)
  from skip_space_sym [OF c(1) this] map_of_is_SomeI [OF c(3) n(1)] Some p
  show ?thesis by (simp add: enum_Scan_def enum_String_def Let_def takeWhile_sym [OF c(2)])
next
  case None
  from assms have c: "s \<noteq> []" "list_all XdrSymChar s" "map_of tags s = None"
    by (auto simp: enum_names_def map_of_eq_None_iff)
  let ?t = "s @ CHR ''#'' # show_int (sint w)"
  have h: "XdrSymChar (hd ?t)" using c by (simp add: list_all_iff)
  have "\<not> XdrSymChar (CHR ''#'')" using XdrSymChar_not_blank by blast
  then have tw: "takeWhile XdrSymChar ?t = s" "dropWhile XdrSymChar ?t = CHR ''#'' # show_int (sint w)"
    using takeWhile_sym [OF c(2)] c(2) by (simp_all add: takeWhile_append dropWhile_append list_all_iff)
  from skip_space_sym [OF _ h] None c(3) scan_int_show [OF in_range_sint(1) [of w], of False]
  show ?thesis by (simp add: enum_Scan_def enum_String_def Let_def tw)
qed

lemma jcoder_enum:
  assumes "enum_names s tags"
  shows "jcoder L (VNum32 0) abs_num32 conf_num32 (\<lambda>_. True) (json_enum s tags)
    (\<lambda>tn name. jo_enum L s tags name) (\<lambda>name. ji_enum L s tags)"
  by unfold_locales
    (auto simp: abs_prim_Some conf_prim_iff printField_put ji_enum_def mustString_def fromO_def enum_Scan_String [OF assms])

section \<open>Declarations\<close>

lemma jcoder_decl:
  assumes wf: "wf_pkg P" and js: "json_pkg P" and ok: "decl_ok P d"
    and rec: "\<And>t. scalar_ok P t \<Longrightarrow> t \<noteq> Base Void \<Longrightarrow>
      jcoder L (zero P (go_typ P t)) (A t) (C t) (S t) (T t) (\<lambda>tn name. Wr tn name t) (\<lambda>name. Rd name t)"
  shows "jcoder L (zero P (go_decl P d)) (abs_decl A d) (conf_decl C d) (safe_decl T S d) (json_decl T d)
    (\<lambda>tn name. jo_decl L Wr tn name d) (\<lambda>name. ji_decl P L Rd name d)"
proof (cases "d_typ d = Base String \<or> d_typ d = Base Byte")
  case True
  with ok show ?thesis
    by (auto simp: decl_ok_def go_decl_def decltype_def abs_decl_def conf_decl_def safe_decl_def json_decl_def
        jo_decl_def ji_decl_def jcoder_string jcoder_vecopaque jcoder_arropaque)
next
  case False
  then have t: "typ_ok P (d_typ d)" using decl_typ_ok [OF ok] by simp
  from False ok have "scalar_ok P (d_typ d)" "d_typ d \<noteq> Base Void"
    using t by (auto simp: scalar_ok_def decl_ok_def)
  note c = rec [OF this] and vis = visible_type [OF js t]
  show ?thesis
    using False c jcoder.jcoder_ptr [OF c _ _ refl vis, of Wr Rd] jcoder.jcoder_array [OF c _ _ vis, of Wr Rd]
      jcoder.jcoder_vec [OF c _ _ refl vis, of Wr Rd]
    by (cases "d_qual d")
      (simp_all add: go_decl_def decltype_def abs_decl_def conf_decl_def safe_decl_def json_decl_def
        jo_decl_def ji_decl_def)
qed

section \<open>Structs\<close>

text \<open>The contract of a field: its document is that of its name in the object.\<close>

lemma field_prints:
  assumes "jcoder L z ab cf sf tr (\<lambda>tn name. jo_decl L Wr tn name d) (\<lambda>name. ji_decl P L Rd name d)"
    and "ab v = Some a" "cf a" "visible (decl_type_name d)" "field_name (d_id d)"
  shows "jo_field L Wr d v j = Inr (put (quoted L (d_id d) @ '': '' @ render L (jo_indent j) (tr a)) j)"
  using jcoder.prints [OF assms(1-4), of "d_id d" j] assms(5) by (simp add: jo_field_def)

lemma field_reads:
  assumes "jcoder L z ab cf sf tr (\<lambda>tn name. jo_decl L Wr tn name d) (\<lambda>name. ji_decl P L Rd name d)"
    and "cf a" "sf a" "visible (decl_type_name d)" "field_name (d_id d)" "map_of kvs (d_id d) = Some (tr a)"
  shows "\<exists>v. ji_field P L Rd d z (JObj kvs) = Inr (v, JObj kvs) \<and> ab v = Some a"
proof -
  have "json_get (d_id d) (JObj kvs) = Inr (tr a, JObj kvs)"
    using assms(5,6) by (simp add: json_get_def field_name_def)
  from jcoder.marshal [OF assms(1-4) this] show ?thesis by (simp add: ji_field_def)
qed

lemma fields_print:
  assumes "\<And>d. d \<in> set ds \<Longrightarrow> jcoder L (Z d) (A d) (C d) (S d) (T d) (\<lambda>tn name. jo_decl L Wr tn name d) (\<lambda>name. ji_decl P L Rd name d) \<and>
      visible (decl_type_name d) \<and> field_name (d_id d)"
  shows "length ds = length vs \<Longrightarrow> list_all2 C ds as \<Longrightarrow> list_all2 (\<lambda>(d, v) a. A d v = Some a) (zip ds vs) as \<Longrightarrow>
    jo_indent j = ind \<Longrightarrow> jo_fields L Wr ds vs j =
      Inr (foldl (\<lambda>j x. put x j) j (map (\<lambda>(k, t). quoted L k @ '': '' @ render L ind t) (map2 (\<lambda>d a. (d_id d, T d a)) ds as)))"
  using assms
proof (induction ds arbitrary: vs as j)
  case (Cons d ds)
  then obtain v vs' a as' where s: "vs = v # vs'" "as = a # as'" "A d v = Some a" "C d a"
    by (cases vs; cases as) auto
  have c: "jcoder L (Z d) (A d) (C d) (S d) (T d) (\<lambda>tn name. jo_decl L Wr tn name d) (\<lambda>name. ji_decl P L Rd name d)"
    "visible (decl_type_name d)" "field_name (d_id d)" using Cons.prems(5) by auto
  show ?case
    using field_prints [OF c(1) s(3,4) c(2,3), of j] Cons.IH [of vs' as'] Cons.prems s by simp
qed simp

lemma fields_read:
  assumes "\<And>d. d \<in> set ds \<Longrightarrow> jcoder L (Z d) (A d) (C d) (S d) (T d) (\<lambda>tn name. jo_decl L Wr tn name d) (\<lambda>name. ji_decl P L Rd name d) \<and>
      visible (decl_type_name d) \<and> field_name (d_id d)"
  shows "list_all2 C ds as \<Longrightarrow> list_all2 S ds as \<Longrightarrow>
    list_all2 (\<lambda>d a. map_of kvs (d_id d) = Some (T d a)) ds as \<Longrightarrow>
    \<exists>vs. ji_fields P L Rd ds (map Z ds) (JObj kvs) = Inr (vs, JObj kvs) \<and> length vs = length ds \<and>
      list_all2 (\<lambda>(d, v) a. A d v = Some a) (zip ds vs) as"
  using assms
proof (induction ds arbitrary: as)
  case (Cons d ds)
  then obtain a as' where s: "as = a # as'" "C d a" "S d a" "map_of kvs (d_id d) = Some (T d a)"
    by (cases as) auto
  have c: "jcoder L (Z d) (A d) (C d) (S d) (T d) (\<lambda>tn name. jo_decl L Wr tn name d) (\<lambda>name. ji_decl P L Rd name d)"
    "visible (decl_type_name d)" "field_name (d_id d)" using Cons.prems(4) by auto
  from field_reads [OF c(1) s(2,3) c(2,3) s(4)] obtain v where
    "ji_field P L Rd d (Z d) (JObj kvs) = Inr (v, JObj kvs)" "A d v = Some a" by blast
  moreover from Cons.IH [of as'] Cons.prems s obtain vs where
    "ji_fields P L Rd ds (map Z ds) (JObj kvs) = Inr (vs, JObj kvs)" "length vs = length ds"
    "list_all2 (\<lambda>(d, v) a. A d v = Some a) (zip ds vs) as'" by auto
  ultimately show ?case using s(1) by (intro exI [of _ "v # vs"]) simp
qed simp
lemma map_fst_fields:
  "length ds = length as \<Longrightarrow> map fst (map2 (\<lambda>d a. (d_id d, T d a)) ds as) = map d_id ds"
  by (induction ds as rule: list_induct2) auto

lemma map_of_fields:
  assumes "distinct (map d_id ds)" "length as = length ds"
  shows "list_all2 (\<lambda>d a. map_of (map2 (\<lambda>d a. (d_id d, T d a)) ds as) (d_id d) = Some (T d a)) ds as"
proof (rule list_all2_all_nthI)
  fix i assume i: "i < length ds"
  note m = map_fst_fields [OF assms(2) [symmetric], of T]
  have "(d_id (ds ! i), T (ds ! i) (as ! i)) \<in> set (map2 (\<lambda>d a. (d_id d, T d a)) ds as)"
    using i assms(2) by (auto simp: set_zip image_iff intro!: exI [of _ i])
  then show "map_of (map2 (\<lambda>d a. (d_id d, T d a)) ds as) (d_id (ds ! i)) = Some (T (ds ! i) (as ! i))"
    by (rule map_of_is_SomeI [rotated]) (simp only: m assms(1))
qed (use assms in simp)

lemma jcoder_struct:
  assumes c: "\<And>d. d \<in> set ds \<Longrightarrow> jcoder L (Z d) (A d) (C d) (S d) (T d) (\<lambda>tn name. jo_decl L Wr tn name d) (\<lambda>name. ji_decl P L Rd name d) \<and>
      visible (decl_type_name d) \<and> field_name (d_id d)"
    and dist: "distinct (map d_id ds)"
  shows "jcoder L (VStruct (map Z ds)) (abs_struct (map A ds)) (conf_struct (map C ds)) (safe_struct S ds) (json_struct T ds)
    (\<lambda>tn name. jo_struct L Wr tn name ds) (\<lambda>name. ji_struct P L Rd ds)"
proof (rule jcoder.intro)
  fix v a tn name j assume "abs_struct (map A ds) v = Some a" "conf_struct (map C ds) a" and tn: "visible tn"
  then obtain vs as where v: "v = VStruct vs" "length ds = length vs" "a = XStruct as"
      "list_all2 (\<lambda>(d, v) a. A d v = Some a) (zip ds vs) as" "list_all2 C ds as"
    by (auto simp: abs_struct_Some conf_struct_iff)
  from aggregate_put [OF fields_print [OF c v(2,5,4)] refl, where op = "CHR ''{''" and cl = "CHR ''}''" and name = name]
  show "jo_struct L Wr tn name ds v j = Inr (put (label L name @ render L (jo_indent j) (json_struct T ds a)) j)"
    using tn by (simp add: v(1,3) Let_def jo_aggregate_def)
next
  fix a assume "conf_struct (map C ds) a" "safe_struct S ds a" "json_struct T ds a = JNull"
  then show "abs_struct (map A ds) (VStruct (map Z ds)) = Some a" by (auto simp: conf_struct_iff)
next
  fix a name obj assume "conf_struct (map C ds) a" "safe_struct S ds a"
  then obtain as where a: "a = XStruct as" "list_all2 C ds as" "list_all2 S ds as" by (auto simp: conf_struct_iff)
  from map_of_fields [OF dist list_all2_lengthD [OF a(2), symmetric], of T] fields_read [OF c a(2,3)] obtain vs where
    vs: "ji_fields P L Rd ds (map Z ds) (json_struct T ds a) = Inr (vs, json_struct T ds a)" "length vs = length ds"
      "list_all2 (\<lambda>(d, v) a. A d v = Some a) (zip ds vs) as"
    unfolding a(1) json_struct.simps by blast
  have "abs_struct (map A ds) (VStruct vs) = Some a"
    using vs(2,3) by (simp only: abs_struct_Some) (simp add: a(1))
  with vs(1) show "\<exists>v. ji_struct P L Rd ds (json_struct T ds a) (VStruct (map Z ds)) obj = Inr (v, obj) \<and>
      abs_struct (map A ds) v = Some a" by (intro exI [of _ "VStruct vs"]) simp
qed

section \<open>Unions\<close>

text \<open>The value of a union: its discriminant, the arm it selects, and the arm's value.\<close>

lemma conf_unionE:
  assumes "conf_union C u a"
  obtains t w f where "C (u_tagtype u) t" "xdisc t = Some w" "select_arm u w = Some f" "f \<in> set (u_fields u)"
    "isVoid f \<and> a = XUnion t None \<or> \<not> isVoid f \<and> (\<exists>x. conf_decl C (uf_decl f) x \<and> a = XUnion t (Some x))"
  using assms select_arm_in unfolding conf_union_iff by (metis (full_types))

text \<open>What the contract needs of an arm that is not void.\<close>

definition arm_coder ::
  "pkg \<Rightarrow> golib \<Rightarrow> rpc_union \<Rightarrow> (tname \<Rightarrow> abstraction) \<Rightarrow> (tname \<Rightarrow> conformance) \<Rightarrow> (tname \<Rightarrow> conformance) \<Rightarrow>
   (tname \<Rightarrow> xval \<Rightarrow> json) \<Rightarrow> marshal_out \<Rightarrow> unmarshal_in \<Rightarrow> rpc_ufield \<Rightarrow> bool" where
  "arm_coder P L u A C S T Wr Rd f \<longleftrightarrow>
     jcoder L (zero P (go_decl P (uf_decl f))) (abs_decl A (uf_decl f)) (conf_decl C (uf_decl f)) (safe_decl T S (uf_decl f))
       (json_decl T (uf_decl f)) (\<lambda>tn name. jo_decl L Wr tn name (uf_decl f)) (\<lambda>name. ji_decl P L Rd name (uf_decl f)) \<and>
     visible (decl_type_name (uf_decl f)) \<and> field_name (d_id (uf_decl f)) \<and> d_id (uf_decl f) \<noteq> u_tagid u"

lemmas arm_coderD = arm_coder_def [THEN iffD1, THEN conjunct1]
  arm_coder_def [THEN iffD1, THEN conjunct2, THEN conjunct1]
  arm_coder_def [THEN iffD1, THEN conjunct2, THEN conjunct2, THEN conjunct1]
  arm_coder_def [THEN iffD1, THEN conjunct2, THEN conjunct2, THEN conjunct2]

lemma union_prints:
  assumes tag: "jcoder L zt (A (u_tagtype u)) (C (u_tagtype u)) (S (u_tagtype u)) (T (u_tagtype u))
      (\<lambda>tn name. Wr tn name (u_tagtype u)) (\<lambda>name. Rd name (u_tagtype u))"
    and tagn: "visible (type_name (u_tagtype u))" "field_name (u_tagid u)"
    and arm: "\<not> isVoid f \<Longrightarrow> arm_coder P L u A C S T Wr Rd f"
    and v: "A (u_tagtype u) tg = Some t" "GetU32 tg = Some w" "xdisc t = Some w" "select_arm u w = Some f" "C (u_tagtype u) t"
    and x: "if isVoid f then a = XUnion t None
      else \<exists>x. abs_decl A (uf_decl f) (arm_body P (go_decl P (uf_decl f)) body) = Some x \<and> conf_decl C (uf_decl f) x \<and> a = XUnion t (Some x)"
    and tn: "visible tn"
  shows "jo_union P L Wr tn name u (VUnion tg body) j = Inr (put (label L name @ render L (jo_indent j) (json_union T u a)) j)"
proof -
  let ?ind = "jo_indent j @ ''    ''" and ?tt = "type_name (u_tagtype u)"
  let ?line = "quoted L (u_tagid u) @ '': '' @ render L ?ind (T (u_tagtype u) t)"
  have p: "Wr ?tt (u_tagid u) (u_tagtype u) tg j' = Inr (put ?line j')" if "jo_indent j' = ?ind" for j'
    using jcoder.prints [OF tag v(1,5) tagn(1), of "u_tagid u" j'] tagn(2) that by simp
  show ?thesis
  proof (cases "isVoid f")
    case True
    let ?rc = "\<lambda>j. bindE (Wr ?tt (u_tagid u) (u_tagtype u) tg j) Inr"
    have "?rc j' = Inr (foldl (\<lambda>j x. put x j) j' [?line])" if "jo_indent j' = ?ind" for j'
      using p [OF that] by simp
    from aggregate_put [OF this refl, where op = "CHR ''{''" and cl = "CHR ''}''" and name = name and j = j]
    show ?thesis using True x v tn by (simp add: Let_def jo_aggregate_def)
  next
    case False
    with x obtain y where y: "abs_decl A (uf_decl f) (arm_body P (go_decl P (uf_decl f)) body) = Some y"
        "conf_decl C (uf_decl f) y" "a = XUnion t (Some y)" by auto
    note c = arm_coderD [OF arm [OF False]]
    let ?rc = "\<lambda>j. bindE (Wr ?tt (u_tagid u) (u_tagtype u) tg j) (\<lambda>j'.
        jo_field L Wr (uf_decl f) (arm_body P (go_decl P (uf_decl f)) body) j')"
    have "?rc j' = Inr (foldl (\<lambda>j x. put x j) j' [?line,
        quoted L (d_id (uf_decl f)) @ '': '' @ render L ?ind (json_decl T (uf_decl f) y)])"
      if "jo_indent j' = ?ind" for j' using p [OF that] that field_prints [OF c(1) y(1,2) c(2,3)] by simp
    from aggregate_put [OF this refl, where op = "CHR ''{''" and cl = "CHR ''}''" and name = name and j = j]
    show ?thesis using False y(3) v tn by (simp add: Let_def jo_aggregate_def arm_access_selected)
  qed
qed

lemma union_reads:
  assumes tag: "jcoder L zt (A (u_tagtype u)) (C (u_tagtype u)) (S (u_tagtype u)) (T (u_tagtype u))
      (\<lambda>tn name. Wr tn name (u_tagtype u)) (\<lambda>name. Rd name (u_tagtype u))"
    and tagn: "visible (type_name (u_tagtype u))" "field_name (u_tagid u)"
    and disc: "\<And>v a w. A (u_tagtype u) v = Some a \<Longrightarrow> xdisc a = Some w \<Longrightarrow> GetU32 v = Some w"
    and arm: "\<not> isVoid f \<Longrightarrow> arm_coder P L u A C S T Wr Rd f"
    and t: "C (u_tagtype u) t" "xdisc t = Some w" "select_arm u w = Some f" and sf: "safe_union T S u a"
    and a: "isVoid f \<and> a = XUnion t None \<or> \<not> isVoid f \<and> (\<exists>x. conf_decl C (uf_decl f) x \<and> a = XUnion t (Some x))"
  shows "\<exists>v. ji_union P L Rd u (json_union T u a) (VUnion zt None) obj = Inr (v, obj) \<and> abs_union P A u v = Some a"
proof -
  have st: "S (u_tagtype u) t" using a sf by auto
  obtain kvs where kvs: "json_union T u a = JObj ((u_tagid u, T (u_tagtype u) t) # kvs)"
    using a t(2,3) by auto
  have "json_get (u_tagid u) (json_union T u a) = Inr (T (u_tagtype u) t, json_union T u a)"
    using tagn(2) by (simp add: kvs json_get_def field_name_def)
  from jcoder.marshal [OF tag t(1) st tagn(1) this] obtain tg where
    tg: "ji_Marshal (Rd (u_tagid u) (u_tagtype u)) (u_tagid u) (type_name (u_tagtype u)) zt (json_union T u a) = Inr (tg, json_union T u a)"
      "A (u_tagtype u) tg = Some t" by auto
  note gw = disc [OF tg(2) t(2)]
  from a show ?thesis
  proof (elim disjE conjE exE)
    assume "isVoid f" "a = XUnion t None"
    with tg gw t show ?thesis by (intro exI [of _ "VUnion tg None"]) simp
  next
    fix x assume nv: "\<not> isVoid f" and x: "conf_decl C (uf_decl f) x" "a = XUnion t (Some x)"
    note c = arm_coderD [OF arm [OF nv]]
    have sx: "safe_decl T S (uf_decl f) x" using sf x(2) t by simp
    let ?kvs = "[(u_tagid u, T (u_tagtype u) t), (d_id (uf_decl f), json_decl T (uf_decl f) x)]"
    have j: "json_union T u a = JObj ?kvs" using x(2) t by simp
    have "map_of ?kvs (d_id (uf_decl f)) = Some (json_decl T (uf_decl f) x)" using c(4) by simp
    from field_reads [OF c(1) x(1) sx c(2,3) this] obtain v where
      "ji_field P L Rd (uf_decl f) (zero P (go_decl P (uf_decl f))) (JObj ?kvs) = Inr (v, JObj ?kvs)"
      "abs_decl A (uf_decl f) v = Some x" by blast
    with tg gw t nv x(2) show ?thesis unfolding j
      by (intro exI [of _ "VUnion tg (Some (go_decl P (uf_decl f), v))"]) (simp add: arm_access_selected arm_body_def)
  qed
qed

lemma jcoder_union:
  assumes tag: "jcoder L zt (A (u_tagtype u)) (C (u_tagtype u)) (S (u_tagtype u)) (T (u_tagtype u))
      (\<lambda>tn name. Wr tn name (u_tagtype u)) (\<lambda>name. Rd name (u_tagtype u))"
    and tagn: "visible (type_name (u_tagtype u))" "field_name (u_tagid u)"
    and disc: "\<And>v a w. A (u_tagtype u) v = Some a \<Longrightarrow> GetU32 v = Some w \<longleftrightarrow> xdisc a = Some w"
    and arm: "\<And>f. f \<in> set (u_fields u) \<Longrightarrow> \<not> isVoid f \<Longrightarrow> arm_coder P L u A C S T Wr Rd f"
  shows "jcoder L (VUnion zt None) (abs_union P A u) (conf_union C u) (safe_union T S u) (json_union T u)
    (\<lambda>tn name. jo_union P L Wr tn name u) (\<lambda>name. ji_union P L Rd u)"
proof (rule jcoder.intro)
  fix v a tn name j assume ab: "abs_union P A u v = Some a" and cf: "conf_union C u a" and tn: "visible tn"
  from ab obtain tg body t w f where v: "v = VUnion tg body" "A (u_tagtype u) tg = Some t" "GetU32 tg = Some w"
      "select_arm u w = Some f"
    and x: "if isVoid f then a = XUnion t None
      else \<exists>x. abs_decl A (uf_decl f) (arm_body P (go_decl P (uf_decl f)) body) = Some x \<and> a = XUnion t (Some x)"
    unfolding abs_union_Some by blast
  have dw: "xdisc t = Some w" using disc [OF v(2), of w] v(3) by simp
  have ct: "C (u_tagtype u) t" using cf x by (auto simp: conf_union_iff split: if_splits)
  have x': "if isVoid f then a = XUnion t None
      else \<exists>x. abs_decl A (uf_decl f) (arm_body P (go_decl P (uf_decl f)) body) = Some x \<and> conf_decl C (uf_decl f) x \<and> a = XUnion t (Some x)"
    using x cf dw v(4) by (auto simp: conf_union_iff split: if_splits)
  show "jo_union P L Wr tn name u v j = Inr (put (label L name @ render L (jo_indent j) (json_union T u a)) j)"
    unfolding v(1) by (rule union_prints [OF tag tagn arm [OF select_arm_in [OF v(4)]] v(2,3) dw v(4) ct x' tn])
next
  fix a assume "conf_union C u a" "safe_union T S u a" "json_union T u a = JNull"
  then show "abs_union P A u (VUnion zt None) = Some a" by (auto elim!: conf_unionE)
next
  fix a name obj assume cf: "conf_union C u a" and sf: "safe_union T S u a"
  from cf obtain t w f where t: "C (u_tagtype u) t" "xdisc t = Some w" "select_arm u w = Some f" "f \<in> set (u_fields u)"
    and a: "isVoid f \<and> a = XUnion t None \<or> \<not> isVoid f \<and> (\<exists>x. conf_decl C (uf_decl f) x \<and> a = XUnion t (Some x))"
    by (rule conf_unionE)
  have "GetU32 v = Some w" if "A (u_tagtype u) v = Some b" "xdisc b = Some w" for v b w
    using disc [OF that(1)] that(2) by simp
  then show "\<exists>v. ji_union P L Rd u (json_union T u a) (VUnion zt None) obj = Inr (v, obj) \<and> abs_union P A u v = Some a"
    by (rule union_reads [OF tag tagn _ arm [OF t(4)] t(1-3) sf a])
qed

section \<open>All types\<close>

lemma xdisc_GetU32_base: "abs_base b v = Some a \<Longrightarrow> xdisc a = Some w \<Longrightarrow> GetU32 v = Some w"
  by (auto simp: abs_base_def abs_prim_Some split: base.splits)

lemma abs_disc_decl:
  assumes "\<And>t v a w. A t v = Some a \<Longrightarrow> xdisc a = Some w \<Longrightarrow> GetU32 v = Some w"
  shows "abs_decl A d v = Some a \<Longrightarrow> xdisc a = Some w \<Longrightarrow> GetU32 v = Some w"
  using assms [of "d_typ d" v a w]
  by (auto simp: abs_decl_def abs_prim_Some abs_ptr_Some abs_array_Some abs_vec_Some split: qual_t.splits if_splits)

lemma abs_disc_typ: "abs_typ P n t v = Some a \<Longrightarrow> xdisc a = Some w \<Longrightarrow> GetU32 v = Some w"
proof (induction n arbitrary: t v a w)
  case (Suc n)
  show ?case
  proof (cases t)
    case (Base b)
    with Suc.prems show ?thesis by (auto intro: xdisc_GetU32_base)
  next
    case (Ident s)
    with Suc.prems obtain sd where sd: "abs_sym P (abs_typ P n) sd v = Some a"
      by (auto split: option.splits)
    show ?thesis
    proof (cases sd)
      case (Sym_typedef d)
      with sd Suc.prems(2) show ?thesis
        using abs_disc_decl [of "abs_typ P n", OF Suc.IH] by (simp add: abs_sym_def)
    next
      case (Sym_struct ds)
      with sd Suc.prems(2) show ?thesis by (auto simp: abs_sym_def abs_struct_Some)
    next
      case (Sym_union u)
      with sd have "abs_union P (abs_typ P n) u v = Some a" by (simp add: abs_sym_def)
      with Suc.prems(2) show ?thesis by (auto simp: abs_union_Some split: if_splits)
    qed (use sd Suc.prems(2) in \<open>auto simp: abs_sym_def abs_prim_Some\<close>)
  qed
qed simp

lemma disc_typ: "abs_typ P n t v = Some a \<Longrightarrow> GetU32 v = Some w \<longleftrightarrow> xdisc a = Some w"
  using abs_typ_disc abs_disc_typ by blast

text \<open>The contract of the XdrType of a base type, as \<open>jcoder_decl\<close> assumes it.\<close>

definition jcoder_of ::
  "pkg \<Rightarrow> golib \<Rightarrow> (tname \<Rightarrow> abstraction) \<Rightarrow> (tname \<Rightarrow> conformance) \<Rightarrow> (tname \<Rightarrow> conformance) \<Rightarrow>
   (tname \<Rightarrow> xval \<Rightarrow> json) \<Rightarrow> marshal_out \<Rightarrow> unmarshal_in \<Rightarrow> tname \<Rightarrow> bool" where
  "jcoder_of P L A C S T Wr Rd t \<longleftrightarrow>
     jcoder L (zero P (go_typ P t)) (A t) (C t) (S t) (T t) (\<lambda>tn name. Wr tn name t) (\<lambda>name. Rd name t)"

definition json_sort :: "pkg \<Rightarrow> tname \<Rightarrow> bool" where
  "json_sort P t \<longleftrightarrow> scalar_ok P t \<and> t \<noteq> Base Void"

lemma json_typ_Ident:
  assumes "sym_of P s = Some sd"
  shows "json_typ P L (Suc n) (Ident s) = json_sym (json_typ P L n) s sd"
    "safe_typ P L (Suc n) (Ident s) = safe_sym (json_typ P L n) (safe_typ P L n) sd"
  using assms by (simp_all add: fun_eq_iff)
lemma json_base_fun:
  "jo_typ P L (Suc n) tn name (Base b) = jo_base L b name" "ji_typ P L (Suc n) name (Base b) = ji_base L b"
  "safe_typ P L (Suc n) (Base b) = safe_base L b" "json_typ P L (Suc n) (Base b) = json_base L b"
  by (simp_all add: fun_eq_iff)

lemma json_named_fun:
  assumes "sym_of P s = Some sd"
  shows "jo_typ P L (Suc n) tn name (Ident s) =
      (case sd of
         Sym_typedef d \<Rightarrow> jo_decl L (jo_typ P L n) tn name d
       | Sym_enum tags \<Rightarrow> jo_enum L s tags name
       | Sym_struct ds \<Rightarrow> jo_struct L (jo_typ P L n) tn name ds
       | Sym_union u \<Rightarrow> jo_union P L (jo_typ P L n) tn name u)"
    and "ji_typ P L (Suc n) name (Ident s) =
      (case sd of
         Sym_typedef d \<Rightarrow> ji_decl P L (ji_typ P L n) name d
       | Sym_enum tags \<Rightarrow> ji_enum L s tags
       | Sym_struct ds \<Rightarrow> ji_struct P L (ji_typ P L n) ds
       | Sym_union u \<Rightarrow> ji_union P L (ji_typ P L n) u)"
  using assms by (cases sd; simp add: fun_eq_iff)+

lemma tag_json_sort: "tag_ok P t \<Longrightarrow> json_sort P t"
  by (auto simp: json_sort_def tag_scalar_ok) (auto simp: tag_ok_def)

lemma jcoder_sym:
  assumes wf: "wf_pkg P" and js: "json_pkg P" and s: "sym_of P s = Some sd"
    and rec: "\<And>t. json_sort P t \<Longrightarrow> jcoder_of P L (abs_typ P n) (conf_typ P n) (safe_typ P L n) (json_typ P L n) (jo_typ P L n) (ji_typ P L n) t"
  shows "jcoder_of P L (abs_typ P (Suc n)) (conf_typ P (Suc n)) (safe_typ P L (Suc n)) (json_typ P L (Suc n))
    (jo_typ P L (Suc n)) (ji_typ P L (Suc n)) (Ident s)"
proof -
  note wfs = wf_pkg_sym [OF wf s, unfolded wf_sym_def]
  note nm = json_pkg_sym [OF js s, unfolded json_names_def]
  have decl: "jcoder L (zero P (go_decl P d)) (abs_decl (abs_typ P n) d) (conf_decl (conf_typ P n) d)
      (safe_decl (json_typ P L n) (safe_typ P L n) d) (json_decl (json_typ P L n) d)
      (\<lambda>tn name. jo_decl L (jo_typ P L n) tn name d) (\<lambda>name. ji_decl P L (ji_typ P L n) name d)"
    if "decl_ok P d" for d
    by (rule jcoder_decl [OF wf js that]) (use rec in \<open>auto simp: jcoder_of_def json_sort_def\<close>)
  note eqs = jcoder_of_def json_typ_Ident [OF s] json_named_fun [OF s] s abs_sym_def conf_sym_def safe_sym_def json_sym_def
  show ?thesis
  proof (cases sd)
    case (Sym_typedef d)
    with wfs decl [of d] show ?thesis by (simp add: eqs)
  next
    case (Sym_enum tags)
    with wfs nm jcoder_enum [of s tags L] go_typ_named [OF s] show ?thesis by (simp add: eqs)
  next
    case (Sym_struct ds)
    have "jcoder L (VStruct (map (\<lambda>d. zero P (go_decl P d)) ds)) (abs_struct (map (abs_decl (abs_typ P n)) ds))
        (conf_struct (map (conf_decl (conf_typ P n)) ds)) (safe_struct (safe_decl (json_typ P L n) (safe_typ P L n)) ds)
        (json_struct (json_decl (json_typ P L n)) ds) (\<lambda>tn name. jo_struct L (jo_typ P L n) tn name ds)
        (\<lambda>name. ji_struct P L (ji_typ P L n) ds)"
      by (rule jcoder_struct) (use Sym_struct wfs nm decl visible_decl [OF js] in \<open>auto simp: list_all_iff\<close>)
    with Sym_struct wfs go_typ_named [OF s] show ?thesis by (simp add: eqs)
  next
    case (Sym_union u)
    then have tok: "tag_ok P (u_tagtype u)" and tn: "field_name (u_tagid u)" using wfs nm by simp_all
    have arms: "arm_coder P L u (abs_typ P n) (conf_typ P n) (safe_typ P L n) (json_typ P L n) (jo_typ P L n) (ji_typ P L n) f"
      if "f \<in> set (u_fields u)" "\<not> isVoid f" for f
      using that Sym_union wfs nm decl visible_decl [OF js] by (auto simp: arm_coder_def list_all_iff)
    have vis: "visible (type_name (u_tagtype u))"
      using tag_json_sort [OF tok] by (intro visible_type [OF js]) (simp add: json_sort_def scalar_ok_def)
    have "jcoder L (VUnion (zero P (go_typ P (u_tagtype u))) None) (abs_union P (abs_typ P n) u) (conf_union (conf_typ P n) u)
        (safe_union (json_typ P L n) (safe_typ P L n) u) (json_union (json_typ P L n) u)
        (\<lambda>tn name. jo_union P L (jo_typ P L n) tn name u) (\<lambda>name. ji_union P L (ji_typ P L n) u)"
      by (rule jcoder_union) (use rec [OF tag_json_sort [OF tok], unfolded jcoder_of_def] vis tn disc_typ arms in blast)+
    with Sym_union wfs go_typ_named [OF s] show ?thesis by (simp add: eqs)
  qed
qed

lemma jcoder_typ:
  assumes "wf_pkg P" "json_pkg P" "num_law L" "json_sort P t"
  shows "jcoder_of P L (abs_typ P n) (conf_typ P n) (safe_typ P L n) (json_typ P L n) (jo_typ P L n) (ji_typ P L n) t"
  using assms(4)
proof (induction n arbitrary: t)
  case 0
  then show ?case by (simp add: jcoder_of_def jcoder_def)
next
  case (Suc n)
  show ?case
  proof (cases t)
    case (Base b)
    with Suc.prems have "b \<notin> {Void, Byte, String}" by (auto simp: json_sort_def scalar_ok_def typ_ok_def)
    from jcoder_base [OF this assms(3)] Base show ?thesis by (simp add: jcoder_of_def json_base_fun)
  next
    case (Ident s)
    with Suc.prems obtain sd where s: "sym_of P s = Some sd" by (auto simp: json_sort_def scalar_ok_def typ_ok_def)
    from jcoder_sym [OF assms(1,2) s Suc.IH] Ident show ?thesis by simp
  qed
qed

interpretation jstr: jcoder L "VString []" abs_string "conf_var bound" "\<lambda>_. True" json_string
  "\<lambda>tn name. jo_string L name" "\<lambda>name. ji_string L bound"
  by (rule jcoder_string)

interpretation jvec_opaque: jcoder L "VBytes []" abs_vecopaque "conf_var bound" "\<lambda>_. True" json_hex
  "\<lambda>tn name. jo_bytes L name" "\<lambda>name. ji_vecopaque L bound"
  by (rule jcoder_vecopaque)


end
