(* ===== verification/JsonCorrect.thy ===== *)
theory JsonCorrect imports JsonCodec begin

text \<open>
  The properties of the JSON conversion: the layout of what XdrToJson writes, the round
  trip and its limits (32-bit numbers, arrays of pointers), what JsonToXdr does with a
  document that does not fit, and the field names it hides.
\<close>

section \<open>Layout and round trip\<close>

lemma to_json:
  assumes "wf_pkg P" "json_pkg P" "num_law L" "json_sort P t"
    and "abs_typ P n t v = Some a" "conf_typ P n t a"
  shows "XdrToJson P L n t v = Inr (NL # render L [] (json_typ P L n t a))"
proof -
  have "visible (type_name t)"
    using assms(2,4) by (intro visible_type) (auto simp: json_sort_def scalar_ok_def)
  from jcoder.prints [OF jcoder_typ [OF assms(1-4), of n, unfolded jcoder_of_def] assms(5,6) this, of "[]"]
  show ?thesis by (simp add: XdrToJson_def put_def)
qed



definition jx_pkg :: pkg where
  "jx_pkg =
     \<lparr>p_defs =
        [(''Color'', Sym_enum [(''red'', 1), (''green'', 2)]),
         (''Body'', Sym_union \<lparr>u_tagtype = Ident ''Color'', u_tagid = ''kind'',
            u_fields = [\<lparr>uf_cases = [1], uf_decl = \<lparr>d_id = ''count'', d_qual = SCALAR, d_bound = 0, d_typ = Base Int32\<rparr>, uf_hasdefault = False\<rparr>,
              \<lparr>uf_cases = [], uf_decl = \<lparr>d_id = [], d_qual = SCALAR, d_bound = 0, d_typ = Base Void\<rparr>, uf_hasdefault = True\<rparr>],
            u_hasdefault = True\<rparr>),
         (''Node'', Sym_struct
            [\<lparr>d_id = ''name'', d_qual = SCALAR, d_bound = 8, d_typ = Base String\<rparr>,
             \<lparr>d_id = ''key'', d_qual = VEC, d_bound = 4, d_typ = Base Byte\<rparr>,
             \<lparr>d_id = ''big'', d_qual = SCALAR, d_bound = 0, d_typ = Base Int64\<rparr>,
             \<lparr>d_id = ''flags'', d_qual = VEC, d_bound = 3, d_typ = Base Bool\<rparr>,
             \<lparr>d_id = ''body'', d_qual = SCALAR, d_bound = 0, d_typ = Ident ''Body''\<rparr>,
             \<lparr>d_id = ''next'', d_qual = PTR, d_bound = 0, d_typ = Ident ''Node''\<rparr>])],
      p_nest = 3\<rparr>"

lemma jx_pkg_ok: "wf_pkg jx_pkg" "json_pkg jx_pkg" "json_sort jx_pkg (Ident ''Node'')"
  by code_simp+

definition jx_leaf :: val where
  "jx_leaf = VStruct [VString [], VBytes [], VNum64 0, VSlice 0 [], VUnion (VNum32 2) None, VPtr None]"

definition jx_val :: val where
  "jx_val = VStruct [VString [72, 105], VBytes [190, 239], VNum64 12, VSlice 2 [VBool True, VBool False],
     VUnion (VNum32 1) (Some (GBase Int32, VNum32 7)), VPtr (Some jx_leaf)]"

definition jx_xval :: xval where
  "jx_xval = XStruct [XVar [72, 105], XVar [190, 239], X64 12, XVec [XBool True, XBool False],
     XUnion (X32 1) (Some (X32 7)), XOpt (Some (XStruct [XVar [], XVar [], X64 0, XVec [], XUnion (X32 2) None, XOpt None]))]"

text \<open>A library whose floats behave as Go's do on integers, and which parses one document.\<close>

definition jx_num :: "string \<Rightarrow> string" where
  "jx_num s = (case scan_int False 64 s of Some k \<Rightarrow> sprint_float k | None \<Rightarrow> s)"

definition jx_lib :: "json \<Rightarrow> golib" where
  "jx_lib j = \<lparr>l_unmarshal = (\<lambda>s. Some j), l_num = jx_num, l_quote = (\<lambda>s. s), l_show32 = (\<lambda>w. show_int (uint w)),
     l_scan32 = (\<lambda>s. map_option of_nat (scan_uint 32 s)), l_show64 = (\<lambda>w. show_int (uint w)),
     l_scan64 = (\<lambda>s. map_option of_nat (scan_uint 64 s))\<rparr>"

lemma jx_num_show: "in_range 64 k \<Longrightarrow> jx_num (show_int k) = sprint_float k"
  by (simp add: jx_num_def scan_int_show)

lemma sprint_float_small: "\<bar>k\<bar> < 10 ^ 6 \<Longrightarrow> sprint_float k = show_int k"
  by (auto simp: sprint_float_def show_int_def sprint_small)

lemma jx_law: "num_law (jx_lib j)"
  unfolding num_law_def
proof (intro allI impI)
  fix k :: int assume k: "\<bar>k\<bar> < 10 ^ 6"
  then have "in_range 64 k" unfolding in_range_def by (simp add: abs_less_iff)
  with k show "l_num (jx_lib j) (show_int k) = show_int k"
    by (simp add: jx_lib_def jx_num_show sprint_float_small)
qed

lemma jx_syms:
  "sym_of jx_pkg ''Color'' = Some (Sym_enum [(''red'', 1), (''green'', 2)])"
  "sym_of jx_pkg ''Body'' = Some (Sym_union \<lparr>u_tagtype = Ident ''Color'', u_tagid = ''kind'',
      u_fields = [\<lparr>uf_cases = [1], uf_decl = \<lparr>d_id = ''count'', d_qual = SCALAR, d_bound = 0, d_typ = Base Int32\<rparr>, uf_hasdefault = False\<rparr>,
        \<lparr>uf_cases = [], uf_decl = \<lparr>d_id = [], d_qual = SCALAR, d_bound = 0, d_typ = Base Void\<rparr>, uf_hasdefault = True\<rparr>],
      u_hasdefault = True\<rparr>)"
  "sym_of jx_pkg ''Node'' = Some (Sym_struct
      [\<lparr>d_id = ''name'', d_qual = SCALAR, d_bound = 8, d_typ = Base String\<rparr>,
       \<lparr>d_id = ''key'', d_qual = VEC, d_bound = 4, d_typ = Base Byte\<rparr>,
       \<lparr>d_id = ''big'', d_qual = SCALAR, d_bound = 0, d_typ = Base Int64\<rparr>,
       \<lparr>d_id = ''flags'', d_qual = VEC, d_bound = 3, d_typ = Base Bool\<rparr>,
       \<lparr>d_id = ''body'', d_qual = SCALAR, d_bound = 0, d_typ = Ident ''Body''\<rparr>,
       \<lparr>d_id = ''next'', d_qual = PTR, d_bound = 0, d_typ = Ident ''Node''\<rparr>])"
  by (simp_all add: sym_of_def jx_pkg_def)

lemma five: "5 = Suc (Suc (Suc (Suc (Suc 0))))"
  by simp

lemmas jx_eval = jx_syms abs_sym_def abs_decl_def abs_base_def conf_sym_def conf_decl_def
  safe_sym_def safe_decl_def json_sym_def json_decl_def select_arm_def isVoid_def arm_body_def go_decl_def decltype_def

lemma jx_abs: "abs_typ jx_pkg 5 (Ident ''Node'') jx_val = Some jx_xval"
  unfolding five by (simp add: jx_eval jx_val_def jx_leaf_def jx_xval_def)

lemma jx_conf: "conf_typ jx_pkg 5 (Ident ''Node'') jx_xval"
  unfolding five by (simp add: jx_eval jx_xval_def)

lemma jx_safe: "safe_typ jx_pkg L 5 (Ident ''Node'') jx_xval"
  unfolding five by (simp add: jx_eval jx_xval_def)


text \<open>The document does not depend on the parser, so there is a library that parses it.\<close>

definition jx_doc :: json where
  "jx_doc = json_typ jx_pkg (jx_lib JNull) 5 (Ident ''Node'') jx_xval"

lemma jx_doc_lib: "json_typ jx_pkg (jx_lib j) 5 (Ident ''Node'') jx_xval = jx_doc"
  unfolding jx_doc_def five by (simp add: jx_eval jx_xval_def)


section \<open>Numbers\<close>

text \<open>The text of a float64 that holds a 32-bit integer.\<close>

definition float_law :: "golib \<Rightarrow> bool" where
  "float_law L \<longleftrightarrow> (\<forall>k. \<bar>k\<bar> < 2 ^ 32 \<longrightarrow> l_num L (show_int k) = sprint_float k)"

lemma JsonToXdr_base:
  assumes "l_unmarshal L txt = Some (JNum s)" "b \<in> {Int32, Uint32}"
  shows "JsonToXdr P L (Suc n) (Base b) dst txt = fromO ''Scan'' (base_Scan L b (l_num L s))"
  using assms visible_base [of b]
  by (auto simp: JsonToXdr_def ji_Marshal_def json_get_def mustString_def fromO_def bindE_def split: option.splits)

lemma leading_less: "leading n < 10"
proof -
  obtain k s where k: "k < 10" "decimal n = decimal k @ s" using decimal_leading by blast
  then have "hd (decimal n) = char_of (k + 48)" by (simp add: decimal_single)
  with k(1) digit_char(2) show ?thesis by (simp add: leading_def)
qed

lemma sint_bound32: "\<bar>sint (w :: u32)\<bar> < 2 ^ 32"
  using sint_ge [of w] sint_lt [of w] by (simp add: abs_less_iff)

lemma leading_word: "10 ^ 6 \<le> k \<Longrightarrow> k < 2 ^ 32 \<Longrightarrow> (of_nat (leading k) :: u32) \<noteq> of_nat k"
proof
  assume k: "10 ^ 6 \<le> k" "k < 2 ^ 32" and "(of_nat (leading k) :: u32) = of_nat k"
  then have "unat (of_nat (leading k) :: u32) = unat (of_nat k :: u32)" by simp
  with k(2) leading_less [of k] have "leading k = k" by (simp add: unat_of_nat32)
  with k(1) leading_less [of k] show False by simp
qed

lemma float_law_nat:
  assumes "float_law L" "k < 2 ^ 32"
  shows "l_num L (show_int (int k)) = sprint_float (int k)"
proof -
  have "\<bar>int k\<bar> < 2 ^ 32" using assms(2) by simp
  with assms(1) show ?thesis by (simp only: float_law_def)
qed

text \<open>
  A 32-bit number survives JSON if and only if it has less than seven digits: JsonToXdr
  formats the float64 it gets from json.Unmarshal, which gives an exponent from a million
  on, and then scans an integer, which stops at the point or the letter e. Of a longer
  number only the sign and the leading digit remain, and no error is returned.
\<close>

lemma json_numbers_cut:
  assumes "float_law L" and "l_unmarshal L txt = Some (JNum (show_int (uint w)))"
  shows "JsonToXdr P L (Suc n) (Base Uint32) dst txt = Inr (VNum32 (if unat w < 10 ^ 6 then w else of_nat (leading (unat w)))) \<and>
    (JsonToXdr P L (Suc n) (Base Uint32) dst txt = Inr (VNum32 w) \<longleftrightarrow> unat w < 10 ^ 6)"
proof -
  have "l_num L (show_int (int (unat w))) = sprint_float (int (unat w))"
    by (rule float_law_nat [OF assms(1)]) simp
  then have "l_num L (show_int (uint w)) = sprint_float (int (unat w))" by simp
  with JsonToXdr_base [OF assms(2), of Uint32 P n dst] scan_uint_float [of "unat w"]
  have "JsonToXdr P L (Suc n) (Base Uint32) dst txt = Inr (VNum32 (if unat w < 10 ^ 6 then w else of_nat (leading (unat w))))"
    by (simp add: base_Scan_def fromO_def)
  with leading_word [of "unat w"] show ?thesis by auto
qed

lemma json_int32_cut:
  assumes "float_law L" and "l_unmarshal L txt = Some (JNum (show_int (sint w)))"
  shows "JsonToXdr P L (Suc n) (Base Int32) dst txt =
    Inr (VNum32 (if \<bar>sint w\<bar> < 10 ^ 6 then w else word_of_int (sgn (sint w) * int (leading (nat \<bar>sint w\<bar>)))))"
proof -
  from assms(1) have "l_num L (show_int (sint w)) = sprint_float (sint w)"
    using sint_bound32 [of w] by (simp only: float_law_def)
  with JsonToXdr_base [OF assms(2), of Int32 P n dst] scan_int_float [OF in_range_sint(1) [of w]]
  show ?thesis by (simp add: base_Scan_def fromO_def)
qed

lemma jx_float_law: "float_law (jx_lib j)"
  unfolding float_law_def
proof (intro allI impI)
  fix k :: int assume "\<bar>k\<bar> < 2 ^ 32"
  then have "in_range 64 k" unfolding in_range_def by (simp add: abs_less_iff)
  then show "l_num (jx_lib j) (show_int k) = sprint_float k" by (simp add: jx_lib_def jx_num_show)
qed

lemma json_numbers_cut_witness:
  "JsonToXdr jx_pkg (jx_lib (JNum ''7654321'')) 1 (Base Uint32) (VNum32 0) ''7654321'' = Inr (VNum32 7)"
proof -
  have s: "show_int (uint (7654321 :: u32)) = ''7654321''" by (simp add: show_int_def decimal.simps digit_chars)
  have l: "leading 7654321 = 7" by (simp add: leading_def decimal.simps digit_chars digit_val_def byte_at_def)
  have "l_unmarshal (jx_lib (JNum ''7654321'')) ''7654321'' = Some (JNum (show_int (uint (7654321 :: u32))))"
    by (simp only: s) (simp add: jx_lib_def)
  from json_numbers_cut [OF jx_float_law this, of jx_pkg 0 "VNum32 0"] show ?thesis by (simp add: l)
qed

section \<open>Arrays of pointers\<close>

text \<open>
  The last element of an array of pointers cannot be read back unless it is null: the
  pointer takes its element from the array, and the value it points to is then looked up
  in the array again. An element before the last gets the element after it.
\<close>

lemma json_pointer_elements:
  assumes "sym_of P s = Some (Sym_typedef d)" and "d_qual d = PTR" and "d_typ d \<notin> {Base String, Base Byte}"
    and "visible s" and "visible (type_name (d_typ d))" and "x \<noteq> JNull"
  shows "ji_elem (ji_typ P L (Suc n)) (Ident s) (VPtr p) (JArr [x]) = Inl (AppPanic ''insufficient elements in array'') \<and>
    ji_elem (ji_typ P L (Suc n)) (Ident s) (VPtr p) (JArr (x # y # ts)) =
      bindE (if y = JNull then Inr (SetPresent (zero P (go_typ P (d_typ d))) p, JArr ts)
             else ji_typ P L n elem_name (d_typ d) y (SetPresent (zero P (go_typ P (d_typ d))) p) (JArr ts))
        (\<lambda>(v, obj). Inr (VPtr (Some v), obj))"
  using assms by (simp add: ji_elem_def ji_Marshal_def json_get_def elem_name_def ji_decl_def)

definition jp_pkg :: pkg where
  "jp_pkg = \<lparr>p_defs = [(''Opt'', Sym_typedef \<lparr>d_id = ''Opt'', d_qual = PTR, d_bound = 0, d_typ = Base Int32\<rparr>)], p_nest = 2\<rparr>"

lemma jp_Opt: "sym_of jp_pkg ''Opt'' = Some (Sym_typedef \<lparr>d_id = ''Opt'', d_qual = PTR, d_bound = 0, d_typ = Base Int32\<rparr>)"
  by (simp add: jp_pkg_def sym_of_def)

lemma json_pointer_elements_witness:
  "ji_elem (ji_typ jp_pkg (jx_lib JNull) 3) (Ident ''Opt'') (VPtr None) (JArr [JNum ''5'']) =
   Inl (AppPanic ''insufficient elements in array'')"
proof -
  have "visible ''Opt''" "visible (type_name (Base Int32))" by code_simp+
  from json_pointer_elements [OF jp_Opt _ _ this(1), of "JNum ''5''" "jx_lib JNull" 2 None] this(2)
  show ?thesis by simp
qed

section \<open>Text that is not JSON\<close>

text \<open>
  JsonToXdr drops the error of json.Unmarshal: it then reports success and leaves the
  destination as it was.
\<close>

lemma JsonToXdr_ignores_syntax:
  "l_unmarshal L src = None \<Longrightarrow> visible (type_name t) \<Longrightarrow> JsonToXdr P L n t dst src = Inr dst"
  by (simp add: JsonToXdr_def ji_Marshal_def json_get_def)

text \<open>XdrToJson writes such text for a string with a control character JSON has no escape for.\<close>

lemma json_bell: "quoted L (chars_of [7]) = [CHR 0x22, CHR 0x5C, CHR ''a'', CHR 0x22]"
proof -
  have "char_of (7 :: nat) = CHR 0x07" by code_simp
  then show ?thesis by (simp add: quoted_def Quote_def quote_char_def chars_of_def byte_at_def Let_def)
qed

section \<open>Hidden field names\<close>

lemma sandwich_iff:
  "isDigitSandwich t p s \<longleftrightarrow> (\<exists>ds. t = p @ ds @ s \<and> ds \<noteq> [] \<and> list_all dec_char ds)"
proof
  let ?t = "drop (length p) t"
  assume "isDigitSandwich t p s"
  then have h: "take (length p) t = p" "length s < length ?t" "drop (length ?t - length s) ?t = s"
    "list_all dec_char (take (length ?t - length s) ?t)"
    by (auto simp: isDigitSandwich_def Let_def not_le split: if_splits)
  then have "t = p @ take (length ?t - length s) ?t @ s" by (metis append_take_drop_id)
  moreover have "take (length ?t - length s) ?t \<noteq> []"
  proof -
    from h(2) have "length ?t - length s \<noteq> 0" "?t \<noteq> []" by linarith (use h(2) in force)
    then show ?thesis by (simp only: take_eq_Nil) blast
  qed
  ultimately show "\<exists>ds. t = p @ ds @ s \<and> ds \<noteq> [] \<and> list_all dec_char ds" using h(4) by blast
next
  assume "\<exists>ds. t = p @ ds @ s \<and> ds \<noteq> [] \<and> list_all dec_char ds"
  then obtain ds where "t = p @ ds @ s" "ds \<noteq> []" "list_all dec_char ds" by blast
  then show "isDigitSandwich t p s" by (simp add: isDigitSandwich_def Let_def not_le)
qed

lemma vField_iff: "vField f \<longleftrightarrow> (\<exists>ds. f = CHR ''v'' # ds \<and> ds \<noteq> [] \<and> list_all dec_char ds)"
proof
  assume v: "vField f"
  then obtain ds where "f = CHR ''v'' # ds" by (cases f) (auto simp: vField_def)
  with v show "\<exists>ds. f = CHR ''v'' # ds \<and> ds \<noteq> [] \<and> list_all dec_char ds" by (auto simp: vField_def)
qed (auto simp: vField_def Suc_le_eq)

text \<open>
  HideFieldName hides a field exactly if its name, after the last dot, is the letter v and a
  number, and its type's name is a number between TransactionV and Envelope.
\<close>

lemma HideFieldName_iff:
  "HideFieldName f t \<longleftrightarrow>
   (\<exists>ds. last_part f = CHR ''v'' # ds \<and> ds \<noteq> [] \<and> list_all dec_char ds) \<and>
   (\<exists>ds. t = ''TransactionV'' @ ds @ ''Envelope'' \<and> ds \<noteq> [] \<and> list_all dec_char ds)"
  by (simp add: HideFieldName_def vField_iff sandwich_iff)


end
