(* ===== verification/JsonSafe.thy ===== *)
theory JsonSafe imports JsonCorrect begin

text \<open>
  JsonToXdr on any document, of the right shape or not: the destination keeps its type,
  and the only panics are those it returns as errors. No lookup goes wrong in a way Go's
  types allow but the code does not expect (nil errors, values of the wrong shape).
\<close>

section \<open>Safe readers\<close>

fun json_err :: "go_panic \<Rightarrow> bool" where
  "json_err (XdrError e) = True"
| "json_err (AppPanic s) = True"
| "json_err StackOverflow = True"
| "json_err _ = False"

definition okE :: "('a \<Rightarrow> bool) \<Rightarrow> go_panic + 'a \<Rightarrow> bool" where
  "okE Q r \<longleftrightarrow> (case r of Inl e \<Rightarrow> json_err e | Inr x \<Rightarrow> Q x)"

lemma okE_simps [simp]: "okE Q (Inl e) = json_err e" "okE Q (Inr x) = Q x"
  by (simp_all add: okE_def)

lemma okE_bind: "okE Q m \<Longrightarrow> (\<And>x. Q x \<Longrightarrow> okE R (f x)) \<Longrightarrow> okE R (bindE m f)"
  by (cases m) auto

lemma okE_mono: "okE Q m \<Longrightarrow> (\<And>x. Q x \<Longrightarrow> R x) \<Longrightarrow> okE R m"
  by (cases m) auto

text \<open>Readers that keep a type: the switch over an XdrType, and a whole call of Marshal.\<close>

definition reads :: "(val \<Rightarrow> bool) \<Rightarrow> (json \<Rightarrow> val \<Rightarrow> json \<Rightarrow> go_panic + (val \<times> json)) \<Rightarrow> bool" where
  "reads ty f \<longleftrightarrow> (\<forall>jv old obj. ty old \<longrightarrow> okE (\<lambda>(v, o1). ty v) (f jv old obj))"

definition mreads :: "(val \<Rightarrow> bool) \<Rightarrow> (val \<Rightarrow> json \<Rightarrow> go_panic + (val \<times> json)) \<Rightarrow> bool" where
  "mreads ty f \<longleftrightarrow> (\<forall>old obj. ty old \<longrightarrow> okE (\<lambda>(v, o1). ty v) (f old obj))"

lemma readsD: "reads ty f \<Longrightarrow> ty old \<Longrightarrow> okE (\<lambda>(v, o1). ty v) (f jv old obj)"
  by (simp add: reads_def)

lemma mreadsD: "mreads ty f \<Longrightarrow> ty old \<Longrightarrow> okE (\<lambda>(v, o1). ty v) (f old obj)"
  by (simp add: mreads_def)

lemma json_get_ok: "okE (\<lambda>_. True) (json_get name obj)"
  by (auto simp: json_get_def split: json.splits list.splits)

lemma mustString_ok: "okE (\<lambda>_. True) (mustString L jv)"
  by (auto simp: mustString_def split: json.splits)

lemma fromO_ok: "(\<And>x. y = Some x \<Longrightarrow> Q x) \<Longrightarrow> okE Q (fromO msg y)"
  by (cases y) (auto simp: fromO_def)

lemma SetByteSlice_ok: "okE (\<lambda>_. True) (SetByteSlice bound s)"
  by (auto simp: SetByteSlice_def)

lemma ji_Marshal_reads: "reads ty f \<Longrightarrow> mreads ty (ji_Marshal f name tn)"
  unfolding mreads_def ji_Marshal_def
  by (auto simp: reads_def Let_def split_beta intro!: okE_bind [OF json_get_ok])

lemma ji_base_reads:
  assumes "b \<notin> {Byte, String}"
  shows "reads (has_gty P (GBase b)) (ji_base L b)"
proof -
  have sc: "has_gty P (GBase b) v" if "base_Scan L b s = Some v" for s v
    using that assms by (cases b) (auto simp: base_Scan_def)
  have "okE (\<lambda>(v, o1). has_gty P (GBase b) v) (bindE (mustString L jv) (\<lambda>s.
      bindE (fromO ''Scan'' (base_Scan L b s)) (\<lambda>v. Inr (v, obj))))" for jv and obj :: json
    by (rule okE_bind [OF mustString_ok], rule okE_bind [OF fromO_ok [where Q = "has_gty P (GBase b)"]]) (auto dest: sc)
  then show ?thesis using assms by (cases b) (auto simp: reads_def)
qed

lemma ji_string_reads: "reads (has_gty P (GBase String)) (ji_string L bound)"
  unfolding reads_def ji_string_def
  by (auto intro!: okE_bind [OF mustString_ok] okE_bind [OF SetByteSlice_ok])

lemma ji_vecopaque_reads: "reads (has_gty P GBytes) (ji_vecopaque L bound)"
  unfolding reads_def ji_vecopaque_def
  by (auto intro!: okE_bind [OF mustString_ok] okE_bind [OF fromO_ok [where Q = "\<lambda>_. True"]] okE_bind [OF SetByteSlice_ok])

lemma ji_arropaque_reads: "reads (has_gty P (GByteArr k)) (ji_arropaque L)"
  unfolding reads_def
  by (auto intro!: okE_bind [OF mustString_ok] okE_bind [OF fromO_ok [where Q = "\<lambda>_. True"]])

lemma ji_enum_reads: "(\<And>w. ty (VNum32 w)) \<Longrightarrow> reads ty (ji_enum L s tags)"
  unfolding reads_def ji_enum_def
  by (auto intro!: okE_bind [OF mustString_ok] okE_bind [OF fromO_ok [where Q = "\<lambda>_. True"]])

section \<open>Pointers, arrays, vectors\<close>

lemma ji_ptr_reads:
  assumes "reads ty (rec name t)" "ty (zero P (go_typ P t))"
  shows "reads (ptr_ty ty) (ji_ptr P rec name t)"
  unfolding reads_def
proof (intro allI impI)
  fix jv old obj assume "ptr_ty ty old"
  then obtain p where p: "old = VPtr p" "ty (SetPresent (zero P (go_typ P t)) p)"
    using assms(2) by (cases "(ty, old)" rule: ptr_ty.cases) (auto simp: SetPresent_def)
  show "okE (\<lambda>(v, o1). ptr_ty ty v) (ji_ptr P rec name t jv old obj)"
    unfolding p(1) ji_ptr.simps
    by (rule okE_bind [OF mreadsD [OF ji_Marshal_reads [OF assms(1)] p(2)]]) auto
qed

lemma ji_each_reads:
  "mreads ty f \<Longrightarrow> \<forall>x \<in> set olds. ty x \<Longrightarrow>
   okE (\<lambda>(vs, o1). length vs = length olds \<and> (\<forall>x \<in> set vs. ty x)) (ji_each f olds obj)"
proof (induction olds arbitrary: obj)
  case (Cons a olds)
  have "okE (\<lambda>(v, o1). ty v) (f a obj)" using Cons.prems by (intro mreadsD) auto
  with Cons show ?case
    by (auto intro!: okE_bind [of "\<lambda>(v, o1). ty v"] okE_bind [of "\<lambda>(vs, o1). length vs = length olds \<and> (\<forall>x \<in> set vs. ty x)"])
qed simp

lemma ji_array_reads:
  assumes "reads ty (rec elem_name t)"
  shows "reads (arr_ty k ty) (ji_array rec t)"
  unfolding reads_def
proof (intro allI impI)
  fix jv old obj assume "arr_ty k ty old"
  then obtain vs where v: "old = VArr vs" "length vs = k" "\<forall>x \<in> set vs. ty x" by (cases old) auto
  show "okE (\<lambda>(v, o1). arr_ty k ty v) (ji_array rec t jv old obj)"
    unfolding v(1) ji_array.simps ji_elem_def
    by (rule okE_bind [OF ji_each_reads [OF ji_Marshal_reads [OF assms] v(3)]]) (auto simp: v(2))
qed

lemma vec_loop_okE:
  assumes f: "mreads ty f" and z: "ty z"
  shows "i \<le> l \<Longrightarrow> l \<le> length b \<Longrightarrow> \<forall>x \<in> set b. ty x \<Longrightarrow> i + k \<le> unat bound \<Longrightarrow>
    okE (\<lambda>((l', b'), o1). l' \<le> length b' \<and> (\<forall>x \<in> set b'. ty x)) (vec_loop bound z f k i (l, b) obj)"
proof (induction k arbitrary: i l b obj)
  case 0
  then show ?case by simp
next
  case (Suc k)
  obtain l1 b1 where s: "(if l \<le> i then SetVecLen bound z (of_nat (i + 1)) (l, b) else Inr (l, b)) = Inr (l1, b1)"
      "l1 = max l (i + 1)" "l1 \<le> length b1" "\<forall>x \<in> set b1. ty x" "take i b1 = take i b"
    by (rule vec_step [of i l b ty z bound]) (use Suc.prems z in auto)
  have t: "ty (b1 ! i)" using s by simp
  have "okE (\<lambda>((l', b'), o1). l' \<le> length b' \<and> (\<forall>x \<in> set b'. ty x)) (vec_loop bound z f k (i + 1) (l1, b1[i := v]) o1)"
    if "ty v" for v o1
  proof (rule Suc.IH)
    show "\<forall>x \<in> set (b1[i := v]). ty x" using s(4) that by (auto dest: set_update_subset_insert [THEN subsetD])
  qed (use s Suc.prems in auto)
  then show ?case unfolding vec_loop.simps fst_conv s(1)
    by (auto intro!: okE_bind [OF mreadsD [OF f t]])
qed

lemma ji_vec_reads:
  assumes "reads ty (rec elem_name t)" "ty (zero P (go_typ P t))"
  shows "reads (slice_ty ty) (ji_vec P rec bound t)"
  unfolding reads_def
proof (intro allI impI)
  fix jv old obj assume "slice_ty ty old"
  then obtain l b where o: "old = VSlice l b" "l \<le> length b" "\<forall>x \<in> set b. ty x" by (cases old) auto
  show "okE (\<lambda>(v, o1). slice_ty ty v) (ji_vec P rec bound t jv old obj)"
  proof (cases jv)
    case (JArr as)
    let ?n = "of_nat (length as) :: u32" and ?z = "zero P (go_typ P t)"
    have "okE (\<lambda>((l', b'), o1). l' \<le> length b' \<and> (\<forall>x \<in> set b'. ty x)) (vec_loop bound ?z (ji_elem rec t) (unat ?n) 0 (l, b) jv)"
      if "?n \<le> bound"
      by (rule vec_loop_okE) (use o assms ji_Marshal_reads that in \<open>auto simp: ji_elem_def word_le_nat_alt\<close>)
    moreover have "okE (\<lambda>_. ?n \<le> bound) (XdrCheckLen bound ?n)" by (auto simp: XdrCheckLen_def)
    ultimately have "okE (\<lambda>((l', b'), o1). l' \<le> length b' \<and> (\<forall>x \<in> set b'. ty x))
        (XdrMarshalN_in bound ?z (ji_elem rec t) ?n (l, b) jv)"
      unfolding XdrMarshalN_in_def
      by (auto intro!: okE_bind [of "\<lambda>_. ?n \<le> bound"] okE_bind [of "\<lambda>((l', b'), o1). l' \<le> length b' \<and> (\<forall>x \<in> set b'. ty x)"])
    from okE_bind [OF this, of "\<lambda>(v, o1). slice_ty ty v" "\<lambda>((l', b'), _). Inr (VSlice l' b', obj)"]
    show ?thesis by (auto simp: o(1) JArr)
  qed (simp_all add: o(1))
qed
section \<open>Declarations, structs, unions\<close>

lemma ji_decl_reads:
  assumes wf: "wf_pkg P" and ok: "decl_ok P d"
    and rec: "\<And>t name. json_sort P t \<Longrightarrow> reads (has_gty P (go_typ P t)) (R name t)"
  shows "reads (has_gty P (go_decl P d)) (ji_decl P L R name d)"
proof (cases "d_typ d = Base String \<or> d_typ d = Base Byte")
  case True
  with ok show ?thesis
    by (auto simp: decl_ok_def go_decl_def decltype_def ji_decl_def ji_string_reads ji_vecopaque_reads ji_arropaque_reads)
next
  case False
  then have t: "typ_ok P (d_typ d)" using decl_typ_ok [OF ok] by simp
  with False ok have s: "json_sort P (d_typ d)" by (auto simp: json_sort_def scalar_ok_def decl_ok_def)
  have z: "has_gty P (go_typ P (d_typ d)) (zero P (go_typ P (d_typ d)))"
    using wf go_typ_ok [OF wf t] by (rule zero_typed)
  show ?thesis
    using False rec [OF s] ji_ptr_reads [where rec = R and t = "d_typ d", OF rec [OF s] z]
      ji_array_reads [where rec = R and t = "d_typ d", OF rec [OF s]] ji_vec_reads [where rec = R and t = "d_typ d", OF rec [OF s] z]
    by (cases "d_qual d")
      (simp_all add: go_decl_def decltype_def ji_decl_def has_gty_ptr has_gty_arr has_gty_slice)
qed

lemma ji_fields_reads:
  "(\<And>d name. d \<in> set ds \<Longrightarrow> reads (T d) (ji_decl P L R name d)) \<Longrightarrow> list_all2 T ds olds \<Longrightarrow>
   okE (\<lambda>(vs, o1). list_all2 T ds vs) (ji_fields P L R ds olds obj)"
proof (induction ds arbitrary: olds obj)
  case (Cons d ds)
  then obtain v vs where o: "olds = v # vs" "T d v" "list_all2 T ds vs" by (auto simp: list_all2_Cons1)
  have "mreads (T d) (ji_field P L R d)"
    unfolding ji_field_def by (rule ji_Marshal_reads) (use Cons.prems(1) in simp)
  from mreadsD [OF this o(2)] Cons.IH [OF Cons.prems(1) o(3)] show ?case
    by (auto simp: o(1) intro!: okE_bind [of "\<lambda>(v, o1). T d v"] okE_bind [of "\<lambda>(vs, o1). list_all2 T ds vs"])
qed simp

lemma ji_struct_reads:
  assumes "\<And>d name. d \<in> set ds \<Longrightarrow> reads (T d) (ji_decl P L R name d)"
    and ty: "\<And>v. ty v \<longleftrightarrow> (\<exists>vs. v = VStruct vs \<and> list_all2 T ds vs)"
  shows "reads ty (ji_struct P L R ds)"
  unfolding reads_def
proof (intro allI impI)
  fix jv old obj assume "ty old"
  then obtain vs where v: "old = VStruct vs" "list_all2 T ds vs" by (auto simp: ty)
  show "okE (\<lambda>(v, o1). ty v) (ji_struct P L R ds jv old obj)"
    unfolding v(1) ji_struct.simps
    by (rule okE_bind [OF ji_fields_reads [OF assms(1) v(2)]]) (auto simp: ty)
qed

lemma ji_union_reads:
  assumes wf: "wf_pkg P" "tag_ok P (u_tagtype u)"
    and tag: "\<And>name. reads (has_gty P (go_typ P (u_tagtype u))) (R name (u_tagtype u))"
    and arm: "\<And>f name. f \<in> set (u_fields u) \<Longrightarrow> \<not> isVoid f \<Longrightarrow>
      reads (has_gty P (go_decl P (uf_decl f))) (ji_decl P L R name (uf_decl f)) \<and> gty_ok P (go_decl P (uf_decl f))"
    and ty: "\<And>v. ty v \<longleftrightarrow> (\<exists>tag body. v = VUnion tag body \<and> has_gty P (go_typ P (u_tagtype u)) tag \<and>
      (\<forall>g b. body = Some (g, b) \<longrightarrow> has_gty P g b \<and> arm_gty P u g))"
  shows "reads ty (ji_union P L R u)"
  unfolding reads_def
proof (intro allI impI)
  fix jv old and obj :: json assume "ty old"
  then obtain tg body where o: "old = VUnion tg body" "has_gty P (go_typ P (u_tagtype u)) tg"
    and b: "\<forall>g b. body = Some (g, b) \<longrightarrow> has_gty P g b \<and> arm_gty P u g" by (auto simp: ty)
  have bt: "\<forall>g b. body = Some (g, b) \<longrightarrow> has_gty P g b" using b by blast
  have body: "okE (\<lambda>(v, o1). ty v)
      (bindE (ji_field P L R (uf_decl f) (arm_body P (go_decl P (uf_decl f)) body) o1)
        (\<lambda>(v, _). Inr (VUnion tg' (Some (go_decl P (uf_decl f), v)), obj)))"
    if "f \<in> set (u_fields u)" "\<not> isVoid f" "has_gty P (go_typ P (u_tagtype u)) tg'" for f tg' o1
  proof -
    have "mreads (has_gty P (go_decl P (uf_decl f))) (ji_field P L R (uf_decl f))"
      unfolding ji_field_def by (rule ji_Marshal_reads) (use arm that in blast)
    moreover have "has_gty P (go_decl P (uf_decl f)) (arm_body P (go_decl P (uf_decl f)) body)"
      using arm_body_typed [OF wf(1) _ bt] arm that by blast
    ultimately have "okE (\<lambda>(v, o1). has_gty P (go_decl P (uf_decl f)) v)
        (ji_field P L R (uf_decl f) (arm_body P (go_decl P (uf_decl f)) body) o1)" by (rule mreadsD)
    then show ?thesis by (rule okE_bind) (use that in \<open>auto simp: ty arm_gty_def\<close>)
  qed
  show "okE (\<lambda>(v, o1). ty v) (ji_union P L R u jv old obj)"
    unfolding o(1) ji_union.simps
  proof (rule okE_bind [OF mreadsD [OF ji_Marshal_reads [OF tag] o(2)]], clarify)
    fix tg' o1 assume t: "has_gty P (go_typ P (u_tagtype u)) tg'"
    then obtain w where w: "GetU32 tg' = Some w" using tag_GetU32 [OF wf(2)] by blast
    have "ty (VUnion tg' body)" using t b by (simp add: ty)
    with w body t show "okE (\<lambda>(v, o1). ty v) (case GetU32 tg' of None \<Rightarrow> Inl Stuck
        | Some disc \<Rightarrow> (case select_arm u disc of None \<Rightarrow> Inl (XdrError (InvalidTag (u_tagid u) disc))
          | Some f \<Rightarrow> if isVoid f then Inr (VUnion tg' body, obj)
              else bindE (arm_access P u f disc body) (\<lambda>old.
                bindE (ji_field P L R (uf_decl f) old o1) (\<lambda>(v, _). Inr (VUnion tg' (Some (go_decl P (uf_decl f), v)), obj)))))"
      by (auto simp: arm_access_selected select_arm_in split: option.splits)
  qed
qed

section \<open>All types\<close>

lemma ji_sym_reads:
  assumes wf: "wf_pkg P" and s: "sym_of P s = Some sd"
    and rec: "\<And>t name. json_sort P t \<Longrightarrow> reads (has_gty P (go_typ P t)) (ji_typ P L n name t)"
  shows "reads (has_gty P (go_typ P (Ident s))) (ji_typ P L (Suc n) name (Ident s))"
proof -
  note wfs = wf_pkg_sym [OF wf s, unfolded wf_sym_def]
  have decl: "reads (has_gty P (go_decl P d)) (ji_decl P L (ji_typ P L n) name d)" if "decl_ok P d" for d name
    by (rule ji_decl_reads [OF wf that rec])
  show ?thesis
  proof (cases sd)
    case (Sym_typedef d)
    with wfs decl [of d] show ?thesis by (simp add: json_named_fun [OF s])
  next
    case (Sym_enum tags)
    have "reads (has_gty P (GNamed s)) (ji_enum L s tags)"
      by (rule ji_enum_reads) (use s Sym_enum in \<open>simp add: has_named_simps\<close>)
    with Sym_enum go_typ_named [OF s] show ?thesis by (simp add: json_named_fun [OF s])
  next
    case (Sym_struct ds)
    have "reads (has_gty P (GNamed s)) (ji_struct P L (ji_typ P L n) ds)"
      by (rule ji_struct_reads [where T = "\<lambda>d. has_gty P (go_decl P d)"])
        (use Sym_struct s wfs decl in \<open>auto simp: list_all_iff has_named_simps\<close>)
    with Sym_struct go_typ_named [OF s] show ?thesis by (simp add: json_named_fun [OF s])
  next
    case (Sym_union u)
    then have tok: "tag_ok P (u_tagtype u)"
      and ok: "\<And>f. f \<in> set (u_fields u) \<Longrightarrow> \<not> isVoid f \<Longrightarrow> decl_ok P (uf_decl f)"
      using wfs by (auto simp: list_all_iff)
    have ty: "has_gty P (GNamed s) v \<longleftrightarrow> (\<exists>tag body. v = VUnion tag body \<and> has_gty P (go_typ P (u_tagtype u)) tag \<and>
        (\<forall>g b. body = Some (g, b) \<longrightarrow> has_gty P g b \<and> arm_gty P u g))" for v
      using s Sym_union by (auto simp: has_named_simps)
    have "reads (has_gty P (GNamed s)) (ji_union P L (ji_typ P L n) u)"
      by (rule ji_union_reads [OF wf tok _ _ ty])
        (use rec [OF tag_json_sort [OF tok]] ok decl go_decl_ok [OF wf] in auto)
    with Sym_union go_typ_named [OF s] show ?thesis by (simp add: json_named_fun [OF s])
  qed
qed

lemma ji_typ_reads:
  assumes "wf_pkg P"
  shows "json_sort P t \<Longrightarrow> reads (has_gty P (go_typ P t)) (ji_typ P L n name t)"
proof (induction n arbitrary: t name)
  case 0
  then show ?case by (simp add: reads_def)
next
  case (Suc n)
  show ?case
  proof (cases t)
    case (Base b)
    with Suc.prems have "b \<notin> {Byte, String}" by (auto simp: json_sort_def scalar_ok_def typ_ok_def)
    from ji_base_reads [OF this] Base show ?thesis by (simp add: json_base_fun)
  next
    case (Ident s)
    with Suc.prems obtain sd where s: "sym_of P s = Some sd" by (auto simp: json_sort_def scalar_ok_def typ_ok_def)
    from ji_sym_reads [OF assms s Suc.IH] Ident show ?thesis by (simp del: ji_typ.simps)
  qed
qed

text \<open>
  JsonToXdr on any text, into any destination of the type: it returns a value of the type,
  or one of the panics it recovers and returns as an error; the assertion that what it
  recovers is an error cannot fail.
\<close>

lemma JsonToXdr_safe:
  assumes "wf_pkg P" and "json_sort P t" and "has_gty P (go_typ P t) dst"
  shows "case JsonToXdr P L n t dst txt of Inl e \<Rightarrow> json_err e | Inr v \<Rightarrow> has_gty P (go_typ P t) v"
proof -
  have "okE (\<lambda>(v, o1). has_gty P (go_typ P t) v) (ji_Marshal (ji_typ P L n [] t) [] (type_name t) dst obj)" for obj
    by (rule mreadsD [OF ji_Marshal_reads [OF ji_typ_reads [OF assms(1,2)]] assms(3)])
  then have "okE (has_gty P (go_typ P t)) (JsonToXdr P L n t dst txt)"
    unfolding JsonToXdr_def Let_def by (rule okE_bind) auto
  then show ?thesis by (simp add: okE_def)
qed

lemma JsonToXdr_safe_witness:
  "case JsonToXdr jx_pkg (jx_lib (JObj [(''key'', JArr [])])) 5 (Ident ''Node'') (zero jx_pkg (go_typ jx_pkg (Ident ''Node''))) ''[]'' of
     Inl e \<Rightarrow> json_err e | Inr v \<Rightarrow> has_gty jx_pkg (go_typ jx_pkg (Ident ''Node'')) v"
proof (rule JsonToXdr_safe [OF jx_pkg_ok(1,3)])
  show "has_gty jx_pkg (go_typ jx_pkg (Ident ''Node'')) (zero jx_pkg (go_typ jx_pkg (Ident ''Node'')))"
    using go_typ_ok [OF jx_pkg_ok(1)] jx_pkg_ok(3)
    by (intro zero_typed [OF jx_pkg_ok(1)]) (simp add: json_sort_def scalar_ok_def)
qed


end
