(* ===== verification/JsonGo.thy ===== *)
theory JsonGo imports JsonCodec begin

text \<open>
  AnyToJson of cmd/gorpc/jsonxdr.go on Go values that are no XDR types (marshalGo and
  aggregateGo): a tree of what reflection finds, its printing through jsonOut, and the document
  it stands for. The text of values of other kinds (%v) and of times is part of the tree.
\<close>

section \<open>Go values\<close>

text \<open>
  A value by the case of marshalGo it takes: the types of the type switch, then the kinds of
  reflection. \<open>G_bytearr\<close> is an array of bytes or a named slice of bytes; the fields of a struct
  come with their name and whether it is exported; a nil interface prints as a nil pointer does.
\<close>

datatype gval =
    G_bool bool | G_int32 u32 | G_uint32 u32 | G_int64 u64 | G_uint64 u64 | G_float32 u32
  | G_float64 u64 | G_string bytes | G_bytes bytes | G_time string
  | G_bytearr bytes | G_list "gval list" | G_struct "(string \<times> bool \<times> gval) list"
  | G_ptr "gval option" | G_other string

fun marshalGo :: "golib \<Rightarrow> string \<Rightarrow> gval \<Rightarrow> jsonOut \<Rightarrow> go_panic + jsonOut"
and elemsGo :: "golib \<Rightarrow> gval list \<Rightarrow> jsonOut \<Rightarrow> go_panic + jsonOut"
and fieldsGo :: "golib \<Rightarrow> (string \<times> bool \<times> gval) list \<Rightarrow> jsonOut \<Rightarrow> go_panic + jsonOut" where
  "marshalGo L name (G_bool b) j = jo_base L Bool name (VBool b) j"
| "marshalGo L name (G_int32 w) j = jo_base L Int32 name (VNum32 w) j"
| "marshalGo L name (G_uint32 w) j = jo_base L Uint32 name (VNum32 w) j"
| "marshalGo L name (G_int64 w) j = jo_base L Int64 name (VNum64 w) j"
| "marshalGo L name (G_uint64 w) j = jo_base L Uint64 name (VNum64 w) j"
| "marshalGo L name (G_float32 w) j = jo_base L Float32 name (VNum32 w) j"
| "marshalGo L name (G_float64 w) j = jo_base L Float64 name (VNum64 w) j"
| "marshalGo L name (G_string s) j = jo_string L name (VString s) j"
| "marshalGo L name (G_bytes s) j = jo_bytes L name (VBytes s) j"
| "marshalGo L name (G_time s) j = Inr (printField L name s j)"
| "marshalGo L name (G_bytearr s) j =
     Inr (jo_write [CHR 0x22] (jo_write (EncodeToString s) (printField L name [CHR 0x22] j)))"
| "marshalGo L name (G_list vs) j =
     aggregate (CHR ''['') (CHR '']'') (elemsGo L vs) (printField L name [] j)"
| "marshalGo L name (G_struct fs) j =
     aggregate (CHR ''{'') (CHR ''}'') (fieldsGo L fs) (printField L name [] j)"
| "marshalGo L name (G_ptr None) j = Inr (printField L name ''<nil>'' j)"
| "marshalGo L name (G_ptr (Some v)) j = marshalGo L name v j"
| "marshalGo L name (G_other s) j = Inr (printField L name s j)"
| "elemsGo L [] j = Inr j"
| "elemsGo L (v # vs) j = bindE (marshalGo L [] v j) (elemsGo L vs)"
| "fieldsGo L [] j = Inr j"
| "fieldsGo L ((n, exported, v) # fs) j =
     (if exported then bindE (marshalGo L n v j) (fieldsGo L fs) else fieldsGo L fs j)"

text \<open>The argument of AnyToJson, an XDR type or another value.\<close>

datatype any_value = Any_xdr tname val | Any_go gval

definition AnyToJson :: "pkg \<Rightarrow> golib \<Rightarrow> nat \<Rightarrow> any_value \<Rightarrow> go_panic + string" where
  "AnyToJson P L n src =
     (case src of
        Any_xdr t v \<Rightarrow> XdrToJson P L n t v
      | Any_go v \<Rightarrow>
          bindE (marshalGo L [] v \<lparr>jo_out = [], jo_indent = [], jo_needComma = False\<rparr>) (\<lambda>j. Inr (jo_out j)))"

section \<open>Documents\<close>

text \<open>
  The document of a Go value. A text that jsonOut writes as it is stands in the place of a
  number; it need not be one.
\<close>

fun json_go :: "golib \<Rightarrow> gval \<Rightarrow> json" where
  "json_go L (G_bool b) = JBool b"
| "json_go L (G_int32 w) = JNum (show_int (sint w))"
| "json_go L (G_uint32 w) = JNum (show_int (uint w))"
| "json_go L (G_int64 w) = JStr (show_int (sint w))"
| "json_go L (G_uint64 w) = JStr (show_int (uint w))"
| "json_go L (G_float32 w) = JNum (l_show32 L w)"
| "json_go L (G_float64 w) = JStr (l_show64 L w)"
| "json_go L (G_string s) = JStr (chars_of s)"
| "json_go L (G_bytes s) = JStr (EncodeToString s)"
| "json_go L (G_time s) = JNum s"
| "json_go L (G_bytearr s) = JStr (EncodeToString s)"
| "json_go L (G_list vs) = JArr (map (json_go L) vs)"
| "json_go L (G_struct fs) = JObj (map (\<lambda>(n, e, v). (n, json_go L v)) (filter (\<lambda>(n, e, v). e) fs))"
| "json_go L (G_ptr None) = JNum ''<nil>''"
| "json_go L (G_ptr (Some v)) = json_go L v"
| "json_go L (G_other s) = JNum s"

text \<open>Exported field names, which begin with a capital letter.\<close>

fun names_go :: "gval \<Rightarrow> bool" where
  "names_go (G_list vs) = list_all names_go vs"
| "names_go (G_struct fs) = list_all (\<lambda>(n, e, v). e \<longrightarrow> n \<noteq> [] \<and> is_upper (hd n) \<and> names_go v) fs"
| "names_go (G_ptr (Some v)) = names_go v"
| "names_go _ = True"

lemma exported_field: "n \<noteq> [] \<Longrightarrow> is_upper (hd n) \<Longrightarrow> field_name n"
  by (auto simp: field_name_def is_upper_def byte_at_def)

section \<open>Layout\<close>

lemma jo_write_quote:
  "jo_write [CHR 0x22] (jo_write s (put (l @ [CHR 0x22]) j)) = put (l @ CHR 0x22 # s @ [CHR 0x22]) j"
  by (simp add: jo_write_def put_def)

definition members :: "golib \<Rightarrow> string \<Rightarrow> (string \<times> bool \<times> gval) list \<Rightarrow> string list" where
  "members L ind fs = map (\<lambda>(k, t). quoted L k @ '': '' @ render L ind t)
     (map (\<lambda>(n, e, v). (n, json_go L v)) (filter (\<lambda>(n, e, v). e) fs))"

lemma marshalGo_prints:
  "names_go v \<Longrightarrow> marshalGo L name v j = Inr (put (label L name @ render L (jo_indent j) (json_go L v)) j)"
  "list_all names_go vs \<Longrightarrow>
     elemsGo L vs j = Inr (foldl (\<lambda>j x. put x j) j (map (\<lambda>v. render L (jo_indent j) (json_go L v)) vs))"
  "names_go (G_struct fs) \<Longrightarrow> fieldsGo L fs j = Inr (foldl (\<lambda>j x. put x j) j (members L (jo_indent j) fs))"
proof (induction L name v j and L vs j and L fs j rule: marshalGo_elemsGo_fieldsGo.induct)
  case (12 L name vs j)
  have "aggregate (CHR ''['') (CHR '']'') (elemsGo L vs) (printField L name [] j) =
    Inr (put (label L name @ [CHR ''[''] @ lines_of (jo_indent j @ ''    '')
      (map (\<lambda>v. render L (jo_indent j @ ''    '') (json_go L v)) vs) @ NL # jo_indent j @ [CHR '']'']) j)"
  proof (rule aggregate_put [OF _ refl])
    fix j' :: jsonOut assume "jo_indent j' = jo_indent j @ ''    ''"
    with 12 show "elemsGo L vs j' = Inr (foldl (\<lambda>j x. put x j) j' (map (\<lambda>v. render L (jo_indent j @ ''    '') (json_go L v)) vs))"
      by auto
  qed
  then show ?case by (simp add: comp_def)
next
  case (13 L name fs j)
  have "aggregate (CHR ''{'') (CHR ''}'') (fieldsGo L fs) (printField L name [] j) =
    Inr (put (label L name @ [CHR ''{''] @ lines_of (jo_indent j @ ''    '')
      (members L (jo_indent j @ ''    '') fs) @ NL # jo_indent j @ [CHR ''}'']) j)"
  proof (rule aggregate_put [OF _ refl])
    fix j' :: jsonOut assume "jo_indent j' = jo_indent j @ ''    ''"
    with 13 show "fieldsGo L fs j' = Inr (foldl (\<lambda>j x. put x j) j' (members L (jo_indent j @ ''    '') fs))"
      by auto
  qed
  then show ?case by (simp add: members_def)
next
  case (20 L n e v fs j)
  then show ?case
    by (auto simp: members_def exported_field split: if_splits)
qed (auto simp: jo_base_def Let_def printField_put jo_write_quote members_def
    quoted_def Quote_plain Encode_plain)

text \<open>
  C30. AnyToJson writes every Go value as its document, laid out as XdrToJson lays out those of
  XDR values: a member for each exported field in the order of the struct, an element for
  each value of an array or slice, bytes in hexadecimal, 64-bit integers quoted, what a
  pointer points to in its place.
\<close>

theorem AnyToJson_layout:
  assumes "names_go v"
  shows "AnyToJson P L n (Any_go v) = Inr (NL # render L [] (json_go L v))"
  using marshalGo_prints(1) [OF assms, of L "[]" "\<lparr>jo_out = [], jo_indent = [], jo_needComma = False\<rparr>"]
  by (simp add: AnyToJson_def put_def)

definition ex_go :: gval where
  "ex_go = G_struct
     [(''Name'', True, G_string (map of_char ''ab'')), (''seen'', False, G_bool True),
      (''Ids'', True, G_list [G_uint64 7, G_int32 (- 1)]), (''Next'', True, G_ptr None),
      (''Key'', True, G_ptr (Some (G_bytearr [0xbe, 0xef])))]"

theorem AnyToJson_layout_witness:
  "\<forall>P L n. AnyToJson P L n (Any_go ex_go) = Inr (NL # render L [] (json_go L ex_go))"
  by (intro allI AnyToJson_layout) (simp add: ex_go_def is_upper_def byte_at_def)

text \<open>A nil pointer is written as <nil>, and a time without quotes: neither is JSON.\<close>

lemma nil_is_not_json:
  "AnyToJson P L n (Any_go (G_list [G_ptr None, G_time ''2024-01-02 03:04:05 +0000 UTC''])) =
   Inr (NL # ''['' @ NL # ''    <nil>,'' @ NL # ''    2024-01-02 03:04:05 +0000 UTC'' @ NL # '']'')"
  by (simp add: AnyToJson_layout lines_of_def)

end
