(* ===== verification/Compile.thy ===== *)
theory Compile imports Emitter begin

text \<open>
  From syntax trees to the types of a package (cmd/goxdr/goxdr.go: get_typ, decltype, the
  emit methods, emitAll). The first half is the emitter: it names the inline declarations
  and emits their types, so that every declaration of what it emits refers to a type by its
  Go name. The second half reads the emitted definitions as the Go compiler does: constants are
  evaluated, and the definitions become those of a package of XdrSchema.
\<close>

section \<open>The symbol table\<close>

text \<open>
  SymbolMap as the parser leaves it (the actions of file and enum_tag in parse.y), the latest
  entry first: the symbols by XDR name, and every tag of an enum, an inline one too, as a
  constant, unless it has no value of its own.
\<close>

fun decl_tags :: "ast_decl \<Rightarrow> symmap"
and field_tags :: "ast_field \<Rightarrow> symmap"
and sym_tags :: "ast_sym \<Rightarrow> symmap" where
  "decl_tags (Decl i q b t inl) = (case inl of None \<Rightarrow> [] | Some s \<Rightarrow> sym_tags s)"
| "field_tags (Field cs d dflt) = decl_tags d"
| "sym_tags (S_enum i tags) =
     rev (map (\<lambda>(t, v). (xid t, S_const t v)) (filter (\<lambda>(t, v). goid v \<noteq> ''iota'') tags))"
| "sym_tags (S_struct i ds) = concat (rev (map decl_tags ds))"
| "sym_tags (S_union i tt ti fs dflt) = concat (rev (map field_tags fs))"
| "sym_tags (S_typedef d) = decl_tags d"
| "sym_tags (S_const i v) = []"
| "sym_tags (S_program i) = []"

definition sym_id :: "ast_sym \<Rightarrow> idval" where
  "sym_id s =
     (case s of S_const i v \<Rightarrow> i | S_typedef d \<Rightarrow> ad_id d | S_enum i ts \<Rightarrow> i
      | S_struct i ds \<Rightarrow> i | S_union i tt ti fs dflt \<Rightarrow> i | S_program i \<Rightarrow> i)"

definition symbol_table :: "ast_sym list \<Rightarrow> symmap" where
  "symbol_table syms = fold (\<lambda>s S. (xid (sym_id s), s) # sym_tags s @ S) syms []"

section \<open>The emitter\<close>

definition ufield_isVoid :: "ast_field \<Rightarrow> bool" where
  "ufield_isVoid f \<longleftrightarrow> xid (ad_id (af_decl f)) = [] \<or> xid (ad_typ (af_decl f)) = ''void''"

text \<open>
  get_typ, with the types it emits: an inline declaration is named after its context, and
  its symbol is emitted under that name. The parser gives every declaration without a type
  name an inline symbol, an enum, a struct or a union. The methods emit of these write the types
  of their inline declarations to the footer before their own.
\<close>

fun get_typ :: "string \<Rightarrow> ast_decl \<Rightarrow> ast_decl \<times> ast_sym list"
and emit_field :: "string \<Rightarrow> ast_field \<Rightarrow> ast_field \<times> ast_sym list"
and emit_named :: "idval \<Rightarrow> ast_sym \<Rightarrow> ast_sym list" where
  "get_typ ctx (Decl i q b t inl) =
     (if goid t = []
      then (let n = setlocal (xdrinline ctx @ ''_'' @ goid i) in
        (Decl i q b n None, case inl of None \<Rightarrow> [] | Some s \<Rightarrow> emit_named n s))
      else (Decl i q b t None, []))"
| "emit_field ctx (Field cs d dflt) =
     (if ufield_isVoid (Field cs d dflt) then (Field cs d dflt, [])
      else case get_typ ctx d of (d', ts) \<Rightarrow> (Field cs d' dflt, ts))"
| "emit_named n (S_enum i tags) = [S_enum n tags]"
| "emit_named n (S_struct i ds) =
     (let rs = map (get_typ (goid n)) ds in concat (map snd rs) @ [S_struct n (map fst rs)])"
| "emit_named n (S_union i tt ti fs dflt) =
     (let rs = map (emit_field (goid n)) fs in
      concat (map snd rs) @ [S_union n tt ti (map fst rs) dflt])"
| "emit_named n (S_const i v) = [S_const n v]"
| "emit_named n (S_typedef d) = [S_typedef d]"
| "emit_named n (S_program i) = [S_program n]"

definition emit_typedef :: "ast_decl \<Rightarrow> ast_sym list" where
  "emit_typedef d = (case get_typ [] d of (d', ts) \<Rightarrow> ts @ [S_typedef d'])"

definition emit :: "ast_sym \<Rightarrow> ast_sym list" where
  "emit s = (case s of S_typedef d \<Rightarrow> emit_typedef d | _ \<Rightarrow> emit_named (sym_id s) s)"

definition emitAll :: "bool \<Rightarrow> ast_sym list \<times> symmap \<Rightarrow> ast_sym list" where
  "emitAll scoped p = concat (map emit (fst (if scoped then scopeEnumTags p else p)))"

section \<open>Constants of the emitted package\<close>

text \<open>
  The constant declarations, by Go name: the expression, and the index of a tag in the const
  block of its enum, which the expression iota reads. A digit separator of a const becomes an
  underscore.
\<close>

definition const_expr :: "idval \<Rightarrow> idval \<Rightarrow> string \<times> string \<times> nat" where
  "const_expr i v = (goid i, map (\<lambda>c. if c = CHR 0x27 then CHR ''_'' else c) (goid v), 0)"

definition enum_exprs :: "(idval \<times> idval) list \<Rightarrow> (string \<times> string \<times> nat) list" where
  "enum_exprs tags = map (\<lambda>(k, (t, v)). (goid t, goid v, k)) (enumerate 0 tags)"

definition const_decls :: "ast_sym list \<Rightarrow> (string \<times> string \<times> nat) list" where
  "const_decls ds =
     concat (map (\<lambda>s. case s of S_const i v \<Rightarrow> [const_expr i v] | S_enum i tags \<Rightarrow> enum_exprs tags | _ \<Rightarrow> []) ds)"

text \<open>The value of an expression: None for an undefined name and for a cycle, which Go rejects.\<close>

fun go_eval :: "(string \<times> string \<times> nat) list \<Rightarrow> nat \<Rightarrow> nat \<Rightarrow> string \<Rightarrow> int option" where
  "go_eval D n k e =
     (case ParseInt64 True e of
        Some i \<Rightarrow> Some i
      | None \<Rightarrow>
         if e = ''iota'' then Some (int k) else if e = ''true'' then Some 1 else if e = ''false'' then Some 0
         else (case n of
                 0 \<Rightarrow> None
               | Suc m \<Rightarrow> (case map_of D e of None \<Rightarrow> None | Some (e', k') \<Rightarrow> go_eval D m k' e')))"

declare go_eval.simps [simp del]

text \<open>A constant in a context that needs a value between two bounds: an overflow is an error.\<close>

definition go_const :: "(string \<times> string \<times> nat) list \<Rightarrow> int \<Rightarrow> int \<Rightarrow> nat \<Rightarrow> string \<Rightarrow> u32 option" where
  "go_const D lo hi k e =
     bindO (go_eval D (length D) k e) (\<lambda>i. if lo \<le> i \<and> i < hi then Some (of_int i) else None)"

section \<open>The definitions of the package\<close>

definition tname_of :: "string \<Rightarrow> tname" where
  "tname_of s =
     (case map_of [(''bool'', Bool), (''int32'', Int32), (''uint32'', Uint32), (''float32'', Float32),
         (''int64'', Int64), (''uint64'', Uint64), (''float64'', Float64), (''string'', String),
         (''byte'', Byte), (''void'', Void)] s of
        Some b \<Rightarrow> Base b
      | None \<Rightarrow> Ident s)"

text \<open>
  The bound in the emitted code: the number get_bound finds in helper types, the expression
  itself for string and opaque. A Go array has its length in its type as well, and the
  conversion to the helper type needs the same one.
\<close>

definition decl_bound :: "(string \<times> string \<times> nat) list \<Rightarrow> symmap \<Rightarrow> ast_decl \<Rightarrow> u32 option" where
  "decl_bound D S d =
     (let b = ad_bound d;
          ev = go_const D 0 (2 ^ 32) 0;
          normbound = (if goid b = [] then ''0xffffffff'' else goid b);
          helper = ev (fst (get_bound S b))
      in if goid (ad_typ d) = ''string'' then ev normbound
         else case ad_qual d of
           VEC \<Rightarrow> if goid (ad_typ d) = ''byte'' then ev normbound else helper
         | ARRAY \<Rightarrow> if ev (goid b) = helper then helper else None
         | _ \<Rightarrow> Some 0)"

text \<open>The name of a declaration is its Go name, or the XDR name that XdrRecurse passes: \<open>nm\<close>.\<close>

definition go_decl_of :: "(idval \<Rightarrow> string) \<Rightarrow> (string \<times> string \<times> nat) list \<Rightarrow> symmap \<Rightarrow> ast_decl \<Rightarrow>
    rpc_decl option" where
  "go_decl_of nm D S d =
     bindO (decl_bound D S d) (\<lambda>n.
       Some \<lparr>d_id = nm (ad_id d), d_qual = ad_qual d, d_bound = n, d_typ = tname_of (goid (ad_typ d))\<rparr>)"

definition go_field :: "(idval \<Rightarrow> string) \<Rightarrow> (string \<times> string \<times> nat) list \<Rightarrow> symmap \<Rightarrow> ast_field \<Rightarrow>
    rpc_ufield option" where
  "go_field nm D S f =
     bindO (those_opt (map (\<lambda>c. go_const D (- (2 ^ 31)) (2 ^ 32) 0 (goid c)) (af_cases f))) (\<lambda>cs.
     bindO (go_decl_of nm D S (af_decl f)) (\<lambda>d.
       Some \<lparr>uf_cases = cs, uf_decl = d, uf_hasdefault = af_default f\<rparr>))"

text \<open>The entries of the maps _XdrNames and _XdrValues: XDR names and values of the tags.\<close>

definition enum_entries :: "(string \<times> string \<times> nat) list \<Rightarrow> (idval \<times> idval) list \<Rightarrow>
    (string \<times> u32) list option" where
  "enum_entries D tags =
     those_opt (map (\<lambda>(k, (t, v)). bindO (go_const D (- (2 ^ 31)) (2 ^ 31) k (goid v)) (\<lambda>n. Some (xid t, n)))
                  (enumerate 0 tags))"

definition go_union :: "(idval \<Rightarrow> string) \<Rightarrow> (string \<times> string \<times> nat) list \<Rightarrow> symmap \<Rightarrow> idval \<Rightarrow> idval \<Rightarrow>
    ast_field list \<Rightarrow> bool \<Rightarrow> rpc_union option" where
  "go_union nm D S tt ti fs dflt =
     bindO (those_opt (map (go_field nm D S) fs)) (\<lambda>fs'.
       Some \<lparr>u_tagtype = tname_of (goid tt), u_tagid = nm ti, u_fields = fs', u_hasdefault = dflt\<rparr>)"

definition go_def :: "(idval \<Rightarrow> string) \<Rightarrow> (string \<times> string \<times> nat) list \<Rightarrow> symmap \<Rightarrow> ast_sym \<Rightarrow>
    (string \<times> rpc_sym) list option" where
  "go_def nm D S s =
     (let named = map_option (\<lambda>d. [(goid (sym_id s), d)]) in
      case s of
        S_typedef d \<Rightarrow> named (map_option Sym_typedef (go_decl_of nm D S d))
      | S_enum i tags \<Rightarrow> named (map_option Sym_enum (enum_entries D tags))
      | S_struct i ds \<Rightarrow> named (map_option Sym_struct (those_opt (map (go_decl_of nm D S) ds)))
      | S_union i tt ti fs dflt \<Rightarrow> named (map_option Sym_union (go_union nm D S tt ti fs dflt))
      | _ \<Rightarrow> Some [])"

text \<open>The definitions of the package goxdr emits, None when Go's compiler rejects a constant.\<close>

definition package_of :: "(idval \<Rightarrow> string) \<Rightarrow> bool \<Rightarrow> ast_sym list \<times> symmap \<Rightarrow>
    (string \<times> rpc_sym) list option" where
  "package_of nm scoped p =
     (let ds = emitAll scoped p; S = snd (if scoped then scopeEnumTags p else p) in
      bindO (those_opt (map (go_def nm (const_decls ds) S) ds)) (\<lambda>xs. Some (concat xs)))"

end
