(* ===== verification/CompileNames.thy ===== *)
theory CompileNames imports Compile "HOL-Library.Sublist" "HOL-Library.Multiset" begin

text \<open>
  The inline types of an emitted package: every declaration ends up with a named type, whose
  definition is emitted when it is inline; the names are unique if no sibling's name
  continues another's after an underscore, and only then in general.
\<close>

section \<open>Trees of the parser\<close>

text \<open>What type_specifier and union_decl of parse.y build.\<close>

definition inline_sym :: "ast_sym \<Rightarrow> bool" where
  "inline_sym s = (case s of S_enum i ts \<Rightarrow> True | S_struct i ds \<Rightarrow> True | S_union i tt ti fs d \<Rightarrow> True | _ \<Rightarrow> False)"

fun decl_wf :: "ast_decl \<Rightarrow> bool" and field_wf :: "ast_field \<Rightarrow> bool" and sym_wf :: "ast_sym \<Rightarrow> bool" where
  "decl_wf (Decl i q b t inl) =
     (case inl of None \<Rightarrow> goid t \<noteq> [] | Some s \<Rightarrow> goid t = [] \<and> inline_sym s \<and> sym_wf s)"
| "field_wf (Field cs d dflt) = (decl_wf d \<and> (ufield_isVoid (Field cs d dflt) \<longrightarrow> ad_inline d = None))"
| "sym_wf (S_struct i ds) = list_all decl_wf ds"
| "sym_wf (S_union i tt ti fs dflt) = list_all field_wf fs"
| "sym_wf (S_typedef d) = decl_wf d"
| "sym_wf (S_enum i ts) = True"
| "sym_wf (S_const i v) = True"
| "sym_wf (S_program i) = True"

text \<open>The type names a tree mentions.\<close>

fun decl_types :: "ast_decl \<Rightarrow> string set" and field_types :: "ast_field \<Rightarrow> string set"
and sym_types :: "ast_sym \<Rightarrow> string set" where
  "decl_types (Decl i q b t inl) = (case inl of None \<Rightarrow> {goid t} | Some s \<Rightarrow> sym_types s)"
| "field_types (Field cs d dflt) = decl_types d"
| "sym_types (S_struct i ds) = \<Union> (set (map decl_types ds))"
| "sym_types (S_union i tt ti fs dflt) = \<Union> (set (map field_types fs))"
| "sym_types (S_typedef d) = decl_types d"
| "sym_types (S_enum i ts) = {}"
| "sym_types (S_const i v) = {}"
| "sym_types (S_program i) = {}"

section \<open>Every declaration has a type\<close>

definition decls_of :: "ast_sym \<Rightarrow> ast_decl list" where
  "decls_of s = (case s of S_typedef d \<Rightarrow> [d] | S_struct i ds \<Rightarrow> ds
     | S_union i tt ti fs dflt \<Rightarrow> map af_decl fs | _ \<Rightarrow> [])"

definition sym_name :: "ast_sym \<Rightarrow> string" where
  "sym_name s = goid (sym_id s)"

abbreviation names :: "ast_sym list \<Rightarrow> string list" where
  "names ss \<equiv> map sym_name ss"

lemma sym_name_simps [simp]:
  "sym_name (S_enum i ts) = goid i" "sym_name (S_struct i ds) = goid i"
  "sym_name (S_union i tt ti fs d) = goid i" "sym_name (S_typedef dc) = goid (ad_id dc)"
  "sym_name (S_const i v) = goid i" "sym_name (S_program i) = goid i"
  by (simp_all add: sym_name_def sym_id_def)

text \<open>A declaration is resolved when its type is written in the source or one of the symbols emitted.\<close>

definition resolved :: "string set \<Rightarrow> ast_sym list \<Rightarrow> ast_decl \<Rightarrow> bool" where
  "resolved src out d \<longleftrightarrow> ad_inline d = None \<and> goid (ad_typ d) \<noteq> [] \<and>
     (goid (ad_typ d) \<in> src \<or> (\<exists>s \<in> set out. inline_sym s \<and> sym_name s = goid (ad_typ d)))"

definition all_resolved :: "string set \<Rightarrow> ast_sym list \<Rightarrow> bool" where
  "all_resolved src out \<longleftrightarrow> (\<forall>s \<in> set out. \<forall>d \<in> set (decls_of s). resolved src out d)"

lemma resolved_mono:
  "resolved src out d \<Longrightarrow> src \<subseteq> src' \<Longrightarrow> set out \<subseteq> set out' \<Longrightarrow> resolved src' out' d"
  by (auto simp: resolved_def)

lemma all_resolved_concat:
  assumes "\<And>x. x \<in> set xs \<Longrightarrow> all_resolved (src x) (out x)"
  shows "all_resolved (\<Union> (src ` set xs)) (concat (map out xs))"
  unfolding all_resolved_def
proof (intro ballI)
  fix s d
  assume "s \<in> set (concat (map out xs))" and d: "d \<in> set (decls_of s)"
  then obtain x where x: "x \<in> set xs" "s \<in> set (out x)" by auto
  from assms [OF x(1)] x(2) d have "resolved (src x) (out x) d"
    by (auto simp: all_resolved_def)
  then show "resolved (\<Union> (src ` set xs)) (concat (map out xs)) d"
    by (rule resolved_mono) (use x(1) in auto)
qed

lemma all_resolved_snoc:
  assumes "all_resolved src out" and "\<And>d. d \<in> set (decls_of s) \<Longrightarrow> resolved src out d"
  shows "all_resolved src (out @ [s])"
  using assms unfolding all_resolved_def
  by (auto intro: resolved_mono [of src out _ src "out @ [s]"])

lemma emit_named_last:
  "inline_sym s \<Longrightarrow> \<exists>ts s'. emit_named n s = ts @ [s'] \<and> inline_sym s' \<and> sym_name s' = goid n"
  by (cases s) (auto simp: inline_sym_def Let_def)

lemma resolved_in_concat:
  assumes "x \<in> set xs" "resolved (src x) (out x) d"
  shows "resolved (\<Union> (src ` set xs)) (concat (map out xs)) d"
  using assms(2) by (rule resolved_mono) (use assms(1) in auto)

lemma goid_setlocal [simp]: "goid (setlocal s) = s"
  by (simp add: setlocal_def)

lemma emit_resolved:
  "decl_wf d \<Longrightarrow> all_resolved (decl_types d) (snd (get_typ ctx d)) \<and>
      resolved (decl_types d) (snd (get_typ ctx d)) (fst (get_typ ctx d))"
  "field_wf f \<Longrightarrow> all_resolved (field_types f) (snd (emit_field ctx f)) \<and>
      resolved (field_types f) (snd (emit_field ctx f)) (af_decl (fst (emit_field ctx f)))"
  "sym_wf s \<Longrightarrow> inline_sym s \<Longrightarrow> all_resolved (sym_types s) (emit_named n s)"
proof (induction ctx d and ctx f and n s rule: get_typ_emit_field_emit_named.induct)
  case (1 ctx i q b t inl)
  show ?case
  proof (cases inl)
    case None
    with 1 show ?thesis by (simp add: all_resolved_def resolved_def)
  next
    case (Some s)
    let ?n = "setlocal (xdrinline ctx @ ''_'' @ goid i)"
    from 1 Some have "goid t = []" "all_resolved (sym_types s) (emit_named ?n s)" "inline_sym s"
      by auto
    moreover from emit_named_last [OF \<open>inline_sym s\<close>, of ?n] obtain ts s'
      where "emit_named ?n s = ts @ [s']" "inline_sym s'" "sym_name s' = goid ?n" by blast
    ultimately show ?thesis using Some by (auto simp: resolved_def Let_def)
  qed
next
  case (2 ctx cs d dflt)
  show ?case
  proof (cases "ufield_isVoid (Field cs d dflt)")
    case True
    with 2 show ?thesis by (cases d) (auto simp: all_resolved_def resolved_def)
  next
    case False
    with 2 show ?thesis by (auto split: prod.splits)
  qed
next
  case (4 n i ds)
  have IH: "all_resolved (decl_types d) (snd (get_typ (goid n) d)) \<and>
      resolved (decl_types d) (snd (get_typ (goid n) d)) (fst (get_typ (goid n) d))" if "d \<in> set ds" for d
    using 4 that by (auto simp: list_all_iff)
  have "all_resolved (\<Union> (decl_types ` set ds)) (concat (map (\<lambda>d. snd (get_typ (goid n) d)) ds))"
    using IH by (intro all_resolved_concat) auto
  moreover have "resolved (\<Union> (decl_types ` set ds)) (concat (map (\<lambda>d. snd (get_typ (goid n) d)) ds)) (fst (get_typ (goid n) d))"
    if "d \<in> set ds" for d
    using IH [OF that] by (intro resolved_in_concat [OF that]) simp
  ultimately show ?case
    by (auto simp: Let_def comp_def decls_of_def intro!: all_resolved_snoc)
next
  case (5 n i tt ti fs dflt)
  have IH: "all_resolved (field_types f) (snd (emit_field (goid n) f)) \<and>
      resolved (field_types f) (snd (emit_field (goid n) f)) (af_decl (fst (emit_field (goid n) f)))"
    if "f \<in> set fs" for f
    using 5 that by (auto simp: list_all_iff)
  have "all_resolved (\<Union> (field_types ` set fs)) (concat (map (\<lambda>f. snd (emit_field (goid n) f)) fs))"
    using IH by (intro all_resolved_concat) auto
  moreover have "resolved (\<Union> (field_types ` set fs)) (concat (map (\<lambda>f. snd (emit_field (goid n) f)) fs)) (af_decl (fst (emit_field (goid n) f)))"
    if "f \<in> set fs" for f
    using IH [OF that] by (intro resolved_in_concat [OF that]) simp
  ultimately show ?case
    by (auto simp: Let_def comp_def decls_of_def intro!: all_resolved_snoc)
qed (auto simp: all_resolved_def decls_of_def inline_sym_def)

lemma emit_typedef_resolved:
  assumes "decl_wf d"
  shows "all_resolved (decl_types d) (emit_typedef d)"
  using emit_resolved(1) [OF assms, of "[]"]
  by (auto simp: emit_typedef_def decls_of_def split: prod.splits intro!: all_resolved_snoc)

lemma emit_sym_resolved: "sym_wf s \<Longrightarrow> all_resolved (sym_types s) (emit s)"
  using emit_resolved(3) [of s "sym_id s"] emit_typedef_resolved
  by (cases s) (auto simp: emit_def inline_sym_def all_resolved_def decls_of_def)

section \<open>Unique names\<close>

text \<open>Neither of two names continues the other after an underscore.\<close>

definition apart :: "string \<Rightarrow> string \<Rightarrow> bool" where
  "apart i j \<longleftrightarrow> i \<noteq> j \<and> \<not> prefix (i @ ''_'') j \<and> \<not> prefix (j @ ''_'') i"

definition inline_names :: "ast_decl list \<Rightarrow> string list" where
  "inline_names ds = map (\<lambda>d. goid (ad_id d)) (filter (\<lambda>d. goid (ad_typ d) = []) ds)"

fun decl_apart :: "ast_decl \<Rightarrow> bool" and field_apart :: "ast_field \<Rightarrow> bool"
and sym_apart :: "ast_sym \<Rightarrow> bool" where
  "decl_apart (Decl i q b t inl) = (case inl of None \<Rightarrow> True | Some s \<Rightarrow> sym_apart s)"
| "field_apart (Field cs d dflt) = decl_apart d"
| "sym_apart (S_struct i ds) = (sorted_wrt apart (inline_names ds) \<and> list_all decl_apart ds)"
| "sym_apart (S_union i tt ti fs dflt) =
     (sorted_wrt apart (inline_names (map af_decl (filter (\<lambda>f. \<not> ufield_isVoid f) fs))) \<and>
      list_all field_apart fs)"
| "sym_apart (S_typedef d) = decl_apart d"
| "sym_apart (S_enum i ts) = True"
| "sym_apart (S_const i v) = True"
| "sym_apart (S_program i) = True"

text \<open>The names below a name: it, and its continuations.\<close>

definition under :: "string \<Rightarrow> string \<Rightarrow> bool" where
  "under n m \<longleftrightarrow> m = n \<or> prefix (n @ ''_'') m"

lemma under_apart: "under (p @ i) m \<Longrightarrow> under (p @ j) m \<Longrightarrow> \<not> apart i j"
proof -
  assume "under (p @ i) m" "under (p @ j) m"
  then obtain a b where m: "m = p @ i @ a" "m = p @ j @ b"
    and ab: "a = [] \<or> hd a = CHR ''_''" "b = [] \<or> hd b = CHR ''_''"
    unfolding under_def prefix_def by (metis append_Nil2 append_assoc append_Cons list.sel(1))
  then obtain us where "i @ us = j \<and> a = us @ b \<or> i = j @ us \<and> us @ a = b"
    by (auto simp: append_eq_append_conv2)
  with ab show "\<not> apart i j"
    by (cases us) (auto simp: apart_def prefix_def)
qed

lemma under_trans: "prefix (n @ ''_'') m \<Longrightarrow> under m k \<Longrightarrow> prefix (n @ ''_'') k"
  by (auto simp: under_def dest: prefix_order.trans append_prefixD)

lemma xdrinline_prefixed: "xdrinline (Xdrinline_prefix @ t) = Xdrinline_prefix @ t"
  by (simp add: xdrinline_def)

lemma xdrinline_prefix: "\<exists>t. xdrinline s = Xdrinline_prefix @ t"
proof (cases "take (length Xdrinline_prefix) s = Xdrinline_prefix")
  case True
  with append_take_drop_id [of "length Xdrinline_prefix" s] show ?thesis
    by (metis xdrinline_def)
next
  case False
  then show ?thesis by (simp add: xdrinline_def)
qed

lemma xdrinline_idem: "xdrinline (xdrinline s @ t) = xdrinline s @ t"
  using xdrinline_prefix [of s] xdrinline_prefixed by auto

lemma inline_name_neq: "prefix (xdrinline n @ ''_'') m \<Longrightarrow> m \<noteq> n"
  by (auto simp: xdrinline_def prefix_def Xdrinline_prefix_def split: if_splits)

definition own :: "string \<Rightarrow> string \<Rightarrow> string" where
  "own ctx i = xdrinline ctx @ ''_'' @ i"

lemma xdrinline_own [simp]: "xdrinline (own ctx i) = own ctx i"
  unfolding own_def by (rule xdrinline_idem)


lemma under_own: "under (own ctx i) m \<Longrightarrow> prefix (xdrinline ctx @ ''_'') m"
  by (auto simp: under_def own_def prefix_def)

lemma emit_under:
  "decl_wf d \<Longrightarrow> \<forall>m \<in> set (names (snd (get_typ ctx d))).
      goid (ad_typ d) = [] \<and> under (own ctx (goid (ad_id d))) m"
  "field_wf f \<Longrightarrow> \<forall>m \<in> set (names (snd (emit_field ctx f))). \<not> ufield_isVoid f \<and>
      goid (ad_typ (af_decl f)) = [] \<and> under (own ctx (goid (ad_id (af_decl f)))) m"
  "sym_wf s \<Longrightarrow> inline_sym s \<Longrightarrow> \<exists>ns. names (emit_named n s) = ns @ [goid n] \<and>
      (\<forall>m \<in> set ns. prefix (xdrinline (goid n) @ ''_'') m)"
proof (induction ctx d and ctx f and n s rule: get_typ_emit_field_emit_named.induct)
  case (1 ctx i q b t inl)
  show ?case
  proof (cases inl)
    case (Some s)
    let ?n = "setlocal (xdrinline ctx @ ''_'' @ goid i)"
    have n: "goid ?n = own ctx (goid i)" by (simp add: own_def)
    from 1 Some have t: "goid t = []" by simp
    from 1 Some have "\<exists>ns. names (emit_named ?n s) = ns @ [goid ?n] \<and>
        (\<forall>m \<in> set ns. prefix (xdrinline (goid ?n) @ ''_'') m)" by auto
    then obtain ns where "names (emit_named ?n s) = ns @ [goid ?n]"
      "\<forall>m \<in> set ns. prefix (xdrinline (goid ?n) @ ''_'') m" by blast
    then have "\<forall>m \<in> set (names (emit_named ?n s)). under (own ctx (goid i)) m"
      unfolding n by (auto simp: under_def)
    with t Some show ?thesis by (auto simp: Let_def)
  qed (use 1 in auto)
next
  case (2 ctx cs d dflt)
  then show ?case by (auto split: prod.splits)
next
  case (4 n i ds)
  then have "\<forall>m \<in> set (names (concat (map (\<lambda>d. snd (get_typ (goid n) d)) ds))). prefix (xdrinline (goid n) @ ''_'') m"
    by (fastforce simp: list_all_iff dest!: under_own)
  then show ?case by (auto simp: Let_def comp_def)
next
  case (5 n i tt ti fs dflt)
  then have "\<forall>m \<in> set (names (concat (map (\<lambda>f. snd (emit_field (goid n) f)) fs))). prefix (xdrinline (goid n) @ ''_'') m"
    by (fastforce simp: list_all_iff dest!: under_own)
  then show ?case by (auto simp: Let_def comp_def)
qed (auto simp: inline_sym_def)

text \<open>Lists of blocks of names, one below each key.\<close>

lemma distinct_blocks:
  assumes "\<And>x. x \<in> set xs \<Longrightarrow> distinct (out x)"
    and "\<And>x m. x \<in> set xs \<Longrightarrow> m \<in> set (out x) \<Longrightarrow> ok x \<and> under (p @ key x) m"
    and "sorted_wrt apart (map key (filter ok xs))"
  shows "distinct (concat (map out xs))"
  using assms
proof (induction xs)
  case (Cons x xs)
  then have "distinct (concat (map out xs))" by (auto split: if_splits)
  moreover have False if "m \<in> set (out x)" "y \<in> set xs" "m \<in> set (out y)" for y m
  proof -
    have "ok x" "under (p @ key x) m" "ok y" "under (p @ key y) m"
      using Cons.prems(2) that by auto
    with Cons.prems(3) that(2) have "apart (key x) (key y)" by auto
    with under_apart [OF \<open>under (p @ key x) m\<close> \<open>under (p @ key y) m\<close>] show False ..
  qed
  ultimately show ?case using Cons.prems(1) by auto
qed simp

lemma emit_distinct:
  "decl_wf d \<Longrightarrow> decl_apart d \<Longrightarrow> distinct (names (snd (get_typ ctx d)))"
  "field_wf f \<Longrightarrow> field_apart f \<Longrightarrow> distinct (names (snd (emit_field ctx f)))"
  "sym_wf s \<Longrightarrow> inline_sym s \<Longrightarrow> sym_apart s \<Longrightarrow> distinct (names (emit_named n s))"
proof (induction ctx d and ctx f and n s rule: get_typ_emit_field_emit_named.induct)
  case (1 ctx i q b t inl)
  then show ?case by (auto simp: Let_def split: option.splits)
next
  case (2 ctx cs d dflt)
  then show ?case by (auto split: prod.splits)
next
  case (4 n i ds)
  let ?out = "\<lambda>d. names (snd (get_typ (goid n) d))"
  have "distinct (concat (map ?out ds))"
  proof (rule distinct_blocks [where ok = "\<lambda>d. goid (ad_typ d) = []" and key = "\<lambda>d. goid (ad_id d)"
        and p = "xdrinline (goid n) @ ''_''"])
    show "distinct (?out d)" if "d \<in> set ds" for d
      using 4 that by (auto simp: list_all_iff)
    show "goid (ad_typ d) = [] \<and> under ((xdrinline (goid n) @ ''_'') @ goid (ad_id d)) m"
      if "d \<in> set ds" "m \<in> set (?out d)" for d m
      using emit_under(1) [of d "goid n"] 4 that by (auto simp: list_all_iff own_def)
    show "sorted_wrt apart (map (\<lambda>d. goid (ad_id d)) (filter (\<lambda>d. goid (ad_typ d) = []) ds))"
      using 4 by (simp add: inline_names_def)
  qed
  moreover have "goid n \<notin> set (concat (map ?out ds))"
    using emit_under(1) [of _ "goid n"] 4 by (fastforce simp: list_all_iff dest: under_own inline_name_neq)
  ultimately show ?case by (auto simp: Let_def comp_def map_concat)
next
  case (5 n i tt ti fs dflt)
  let ?out = "\<lambda>f. names (snd (emit_field (goid n) f))"
  have "distinct (concat (map ?out fs))"
  proof (rule distinct_blocks [where ok = "\<lambda>f. \<not> ufield_isVoid f \<and> goid (ad_typ (af_decl f)) = []"
        and key = "\<lambda>f. goid (ad_id (af_decl f))" and p = "xdrinline (goid n) @ ''_''"])
    show "distinct (?out f)" if "f \<in> set fs" for f
      using 5 that by (auto simp: list_all_iff)
    show "(\<not> ufield_isVoid f \<and> goid (ad_typ (af_decl f)) = []) \<and>
        under ((xdrinline (goid n) @ ''_'') @ goid (ad_id (af_decl f))) m"
      if "f \<in> set fs" "m \<in> set (?out f)" for f m
      using emit_under(2) [of f "goid n"] 5 that by (auto simp: list_all_iff own_def)
    show "sorted_wrt apart (map (\<lambda>f. goid (ad_id (af_decl f)))
        (filter (\<lambda>f. \<not> ufield_isVoid f \<and> goid (ad_typ (af_decl f)) = []) fs))"
      using 5 by (simp add: inline_names_def filter_map comp_def conj_commute)
  qed
  moreover have "goid n \<notin> set (concat (map ?out fs))"
    using emit_under(2) [of _ "goid n"] 5 by (fastforce simp: list_all_iff dest: under_own inline_name_neq)
  ultimately show ?case by (auto simp: Let_def comp_def map_concat)
qed (auto simp: inline_sym_def)

section \<open>A whole file\<close>

text \<open>Where the names of a symbol's inline types start, and whether it has any.\<close>

definition sym_key :: "ast_sym \<Rightarrow> string" where
  "sym_key s = (case s of S_typedef d \<Rightarrow> ''_'' @ sym_name s | _ \<Rightarrow> sym_name s)"

definition has_inline :: "ast_sym \<Rightarrow> bool" where
  "has_inline s \<longleftrightarrow> tl (emit s) \<noteq> []"

definition anon :: "string \<Rightarrow> bool" where
  "anon n \<longleftrightarrow> prefix Xdrinline_prefix n"

definition file_apart :: "ast_sym list \<Rightarrow> bool" where
  "file_apart syms \<longleftrightarrow> list_all sym_wf syms \<and> list_all sym_apart syms \<and> distinct (names syms) \<and>
     list_all (\<lambda>n. \<not> anon n) (names syms) \<and> sorted_wrt apart (map sym_key (filter has_inline syms))"

lemma xdrinline_plain: "\<not> anon n \<Longrightarrow> xdrinline n = Xdrinline_prefix @ n"
  by (auto simp: xdrinline_def anon_def prefix_def) (metis append_take_drop_id)

lemma anon_xdrinline: "prefix (xdrinline n @ m) k \<Longrightarrow> anon k"
  using xdrinline_prefix [of n] by (auto simp: anon_def prefix_def)

lemma get_typ_id [simp]: "ad_id (fst (get_typ ctx d)) = ad_id d"
  by (cases d) (auto simp: Let_def)

text \<open>The names a symbol emits: those of its inline types, and its own.\<close>

lemma emit_names:
  assumes "sym_wf s" "\<not> anon (sym_name s)"
  shows "\<exists>ns. names (emit s) = ns @ [sym_name s] \<and> (ns \<noteq> [] \<longrightarrow> has_inline s) \<and>
    (\<forall>m \<in> set ns. anon m \<and> under (Xdrinline_prefix @ sym_key s) m) \<and> (sym_apart s \<longrightarrow> distinct ns)"
proof (cases "\<exists>d. s = S_typedef d")
  case True
  then obtain d where s: "s = S_typedef d" ..
  let ?ns = "names (snd (get_typ [] d))"
  have n: "names (emit s) = ?ns @ [sym_name s]"
    by (auto simp: s emit_def emit_typedef_def split: prod.splits dest: arg_cong [of _ _ fst])
  moreover have "has_inline s" if "?ns \<noteq> []"
    using that n by (cases "emit s"; cases "tl (emit s)") (auto simp: has_inline_def)
  moreover have "\<forall>m \<in> set ?ns. under (own [] (sym_name s)) m"
    using emit_under(1) [of d "[]"] assms s by auto
  then have "\<forall>m \<in> set ?ns. anon m \<and> under (Xdrinline_prefix @ sym_key s) m"
    by (auto simp: own_def s sym_key_def xdrinline_def anon_def Xdrinline_prefix_def under_def prefix_def)
  moreover have "sym_apart s \<longrightarrow> distinct ?ns"
    using emit_distinct(1) [of d "[]"] assms s by auto
  ultimately show ?thesis by blast
next
  case nt: False
  show ?thesis
  proof (cases "inline_sym s")
    case True
    have e: "emit s = emit_named (sym_id s) s" using nt by (cases s) (auto simp: emit_def)
    with emit_under(3) [OF assms(1) True, of "sym_id s"] obtain ns where
      ns: "names (emit s) = ns @ [sym_name s]" "\<forall>m \<in> set ns. prefix (xdrinline (sym_name s) @ ''_'') m"
      by (auto simp: sym_name_def)
    moreover from ns(1) have "has_inline s" if "ns \<noteq> []"
      using that by (cases "emit s"; cases "tl (emit s)") (auto simp: has_inline_def)
    moreover have "sym_key s = sym_name s" using nt by (cases s) (auto simp: sym_key_def)
    then have "\<forall>m \<in> set ns. anon m \<and> under (Xdrinline_prefix @ sym_key s) m"
      using ns(2) xdrinline_plain [OF assms(2)] by (auto simp: under_def anon_def prefix_def)
    moreover have "sym_apart s \<longrightarrow> distinct ns"
      using emit_distinct(3) [OF assms(1) True, of "sym_id s"] ns(1) e by auto
    ultimately show ?thesis by blast
  next
    case False
    with nt show ?thesis
      by (cases s) (auto simp: inline_sym_def emit_def sym_id_def)
  qed
qed

end
