(* ===== verification/CompileCorrect.thy ===== *)
theory CompileCorrect imports CompileNames RpcMsg begin

text \<open>
  What goxdr makes of a schema: the package of RPC message headers is the one emitted for
  rpc/rpc_msg.x, every declaration of an emitted package has a type, the types of inline
  declarations included, and when the names of these types are unique.
\<close>

section \<open>The schema of RPC messages\<close>

abbreviation T_decl :: "string \<Rightarrow> idval \<Rightarrow> ast_decl" where
  "T_decl i t \<equiv> Decl (setglobal i) SCALAR (setlocal []) t None"

abbreviation In_decl :: "string \<Rightarrow> ast_sym \<Rightarrow> ast_decl" where
  "In_decl i s \<equiv> Decl (setglobal i) SCALAR (setlocal []) (setlocal []) (Some s)"

abbreviation no_id :: idval where "no_id \<equiv> setlocal []"

abbreviation x_enum :: "string \<Rightarrow> (string \<times> string) list \<Rightarrow> ast_sym" where
  "x_enum i ts \<equiv> S_enum (setglobal i) (map (\<lambda>(t, v). (setglobal t, setglobal v)) ts)"

abbreviation x_case :: "string \<Rightarrow> ast_decl \<Rightarrow> ast_field" where
  "x_case c d \<equiv> Field [setglobal c] d False"

abbreviation mismatch_decl :: ast_decl where
  "mismatch_decl \<equiv> In_decl ''mismatch_info'' (S_struct no_id
     [T_decl ''low'' (setlocal ''uint32''), T_decl ''high'' (setlocal ''uint32'')])"

definition rpc_msg_x :: "ast_sym list" where
  "rpc_msg_x =
     [x_enum ''auth_flavor''
        [(''AUTH_NONE'', ''0''), (''AUTH_SYS'', ''1''), (''AUTH_SHORT'', ''2''), (''AUTH_DH'', ''3''),
         (''RPCSEC_GSS'', ''6'')],
      S_struct (setglobal ''opaque_auth'')
        [T_decl ''flavor'' (setglobal ''auth_flavor''),
         Decl (setglobal ''body'') VEC (setglobal ''400'') (setlocal ''byte'') None],
      x_enum ''msg_type'' [(''CALL'', ''0''), (''REPLY'', ''1'')],
      x_enum ''reply_stat'' [(''MSG_ACCEPTED'', ''0''), (''MSG_DENIED'', ''1'')],
      x_enum ''accept_stat''
        [(''SUCCESS'', ''0''), (''PROG_UNAVAIL'', ''1''), (''PROG_MISMATCH'', ''2''),
         (''PROC_UNAVAIL'', ''3''), (''GARBAGE_ARGS'', ''4''), (''SYSTEM_ERR'', ''5'')],
      x_enum ''reject_stat'' [(''RPC_MISMATCH'', ''0''), (''AUTH_ERROR'', ''1'')],
      x_enum ''auth_stat''
        [(''AUTH_OK'', ''0''), (''AUTH_BADCRED'', ''1''), (''AUTH_REJECTEDCRED'', ''2''),
         (''AUTH_BADVERF'', ''3''), (''AUTH_REJECTEDVERF'', ''4''), (''AUTH_TOOWEAK'', ''5''),
         (''AUTH_INVALIDRESP'', ''6''), (''AUTH_FAILED'', ''7''), (''AUTH_KERB_GENERIC'', ''8''),
         (''AUTH_TIMEEXPIRE'', ''9''), (''AUTH_TKT_FILE'', ''10''), (''AUTH_DECODE'', ''11''),
         (''AUTH_NET_ADDR'', ''12''), (''RPCSEC_GSS_CREDPROBLEM'', ''13''),
         (''RPCSEC_GSS_CTXPROBLEM'', ''14'')],
      S_struct (setglobal ''call_body'')
        [T_decl ''rpcvers'' (setlocal ''uint32''), T_decl ''prog'' (setlocal ''uint32''),
         T_decl ''vers'' (setlocal ''uint32''), T_decl ''proc'' (setlocal ''uint32''),
         T_decl ''cred'' (setglobal ''opaque_auth''), T_decl ''verf'' (setglobal ''opaque_auth'')],
      S_struct (setglobal ''accepted_reply'')
        [T_decl ''verf'' (setglobal ''opaque_auth''),
         In_decl ''reply_data'' (S_union no_id (setglobal ''accept_stat'') (setglobal ''stat'')
           [x_case ''SUCCESS'' (Decl (setglobal ''results'') ARRAY (setglobal ''0'') (setlocal ''byte'') None),
            x_case ''PROG_MISMATCH'' mismatch_decl,
            Field [] (Decl no_id SCALAR no_id (setlocal ''void'') None) True] True)],
      S_union (setglobal ''rejected_reply'') (setglobal ''reject_stat'') (setglobal ''stat'')
        [x_case ''RPC_MISMATCH'' mismatch_decl,
         x_case ''AUTH_ERROR'' (T_decl ''rj_why'' (setglobal ''auth_stat''))] False,
      S_union (setglobal ''reply_body'') (setglobal ''reply_stat'') (setglobal ''stat'')
        [x_case ''MSG_ACCEPTED'' (T_decl ''areply'' (setglobal ''accepted_reply'')),
         x_case ''MSG_DENIED'' (T_decl ''rreply'' (setglobal ''rejected_reply''))] False,
      S_struct (setglobal ''rpc_msg'')
        [T_decl ''xid'' (setlocal ''uint32''),
         In_decl ''body'' (S_union no_id (setglobal ''msg_type'') (setglobal ''mtype'')
           [x_case ''CALL'' (T_decl ''cbody'' (setglobal ''call_body'')),
            x_case ''REPLY'' (T_decl ''rbody'' (setglobal ''reply_body''))] False)]]"


abbreviation rpc_msg_syms :: symmap where "rpc_msg_syms \<equiv> symbol_table rpc_msg_x"

abbreviation rpc_consts :: "(string \<times> string \<times> nat) list" where
  "rpc_consts \<equiv> const_decls (emitAll False (rpc_msg_x, rpc_msg_syms))"

lemmas parse_int_simps = ParseInt64_def ParseUint64_def accept_sign_def digit_val_def byte_at_def

lemma go_const_num:
  "ParseInt64 True e = Some i \<Longrightarrow> lo \<le> i \<Longrightarrow> i < hi \<Longrightarrow> go_const D lo hi k e = Some (of_int i)"
  by (simp add: go_const_def go_eval.simps [of D "length D"])

lemma go_const_name:
  assumes "ParseInt64 True e = None" "e \<notin> {''iota'', ''true'', ''false''}" "map_of D e = Some (e', k')"
    and "ParseInt64 True e' = Some i" "lo \<le> i" "i < hi"
  shows "go_const D lo hi k e = Some (of_int i)"
proof -
  from assms(3) obtain m where "length D = Suc m" by (cases D) auto
  with assms show ?thesis by (simp add: go_const_def go_eval.simps)
qed

lemma rpc_tags_eval:
  "map (map_of rpc_consts)
     [''SUCCESS'', ''PROG_MISMATCH'', ''RPC_MISMATCH'', ''AUTH_ERROR'', ''MSG_ACCEPTED'', ''MSG_DENIED'',
      ''CALL'', ''REPLY''] =
   map Some [(''0'', 0), (''2'', 2), (''0'', 0), (''1'', 1), (''0'', 0), (''1'', 1), (''0'', 0), (''1'', 1)]"
  by code_simp

lemma rpc_cases:
  "go_const rpc_consts (- 0x80000000) 0x100000000 0 ''SUCCESS'' = Some 0"
  "go_const rpc_consts (- 0x80000000) 0x100000000 0 ''PROG_MISMATCH'' = Some 2"
  "go_const rpc_consts (- 0x80000000) 0x100000000 0 ''RPC_MISMATCH'' = Some 0"
  "go_const rpc_consts (- 0x80000000) 0x100000000 0 ''AUTH_ERROR'' = Some 1"
  "go_const rpc_consts (- 0x80000000) 0x100000000 0 ''MSG_ACCEPTED'' = Some 0"
  "go_const rpc_consts (- 0x80000000) 0x100000000 0 ''MSG_DENIED'' = Some 1"
  "go_const rpc_consts (- 0x80000000) 0x100000000 0 ''CALL'' = Some 0"
  "go_const rpc_consts (- 0x80000000) 0x100000000 0 ''REPLY'' = Some 1"
  by (insert rpc_tags_eval, simp_all add: go_const_name parse_int_simps)

lemma rpc_zero_bound: "get_bound rpc_msg_syms (setglobal ''0'') = (''0'', ''0'')"
proof -
  have "map_of rpc_msg_syms ''0'' = None" by code_simp
  then have "bound_loop rpc_msg_syms [] (setglobal ''0'') = setglobal ''0''"
    by (simp add: bound_loop.simps setglobal_def)
  moreover have "ParseUint ''0'' = Some 0" "decimal 0 = ''0''" "xid (setglobal ''0'') = ''0''"
    by (simp_all add: ParseUint_def decimal.simps digit_chars setglobal_def)
  ultimately show ?thesis by (simp add: get_bound_def Let_def)
qed

lemmas emit_simps = emit_def emit_typedef_def sym_id_def setglobal_def setlocal_def
  ufield_isVoid_def xdrinline_def Xdrinline_prefix_def is_lower_def is_upper_def byte_at_def

lemma emitAll_plain: "emitAll False (syms, S) = concat (map emit syms)"
  by (simp add: emitAll_def)

lemma upper_chars:
  "char_of (65::int) = CHR ''A''" "char_of (66::int) = CHR ''B''" "char_of (67::int) = CHR ''C''"
  "char_of (70::int) = CHR ''F''" "char_of (72::int) = CHR ''H''" "char_of (76::int) = CHR ''L''"
  "char_of (77::int) = CHR ''M''" "char_of (79::int) = CHR ''O''" "char_of (80::int) = CHR ''P''"
  "char_of (82::int) = CHR ''R''" "char_of (83::int) = CHR ''S''" "char_of (86::int) = CHR ''V''"
  "char_of (88::int) = CHR ''X''"
  by (simp_all add: char_of_def)

text \<open>What the definitions need of the constants of the schema.\<close>

definition rpc_named :: "(string \<times> string \<times> nat) list \<Rightarrow> bool" where
  "rpc_named D \<longleftrightarrow> list_all (\<lambda>(e, i). go_const D (- 0x80000000) 0x100000000 0 e = Some i)
     [(''SUCCESS'', 0), (''PROG_MISMATCH'', 2), (''RPC_MISMATCH'', 0), (''AUTH_ERROR'', 1),
      (''MSG_ACCEPTED'', 0), (''MSG_DENIED'', 1), (''CALL'', 0), (''REPLY'', 1)]"

lemma package_rpc:
  assumes "rpc_named D" and "get_bound S (setglobal ''0'') = (''0'', ''0'')"
  shows "those_opt (map (go_def goid D S) (concat (map emit rpc_msg_x))) = Some (map (\<lambda>x. [x]) (p_defs rpc_pkg))"
  using assms
  by (simp add: rpc_msg_x_def rpc_named_def emit_simps rpc_pkg_def go_def_def go_decl_of_def
      go_field_def go_union_def enum_entries_def
      decl_bound_def tname_of_def enumerate_eq_zip go_const_num parse_int_simps Let_def
      upper_chars rpc_sym_defs)


section \<open>Inline types\<close>

text \<open>
  Every declaration of an emitted package has a type: one the source names, or an inline enum,
  struct or union whose definition is emitted under the name the declaration was given, at
  any nesting depth.
\<close>

lemma emitted_decls_resolved:
  assumes "list_all sym_wf syms" and "s \<in> set (emitAll False (syms, S))" and "d \<in> set (decls_of s)"
  shows "ad_inline d = None \<and> goid (ad_typ d) \<noteq> [] \<and>
    (goid (ad_typ d) \<in> \<Union> (sym_types ` set syms) \<or>
     (\<exists>s' \<in> set (emitAll False (syms, S)). inline_sym s' \<and> sym_name s' = goid (ad_typ d)))"
proof -
  have "all_resolved (\<Union> (sym_types ` set syms)) (concat (map emit syms))"
    using assms(1) by (intro all_resolved_concat emit_sym_resolved) (simp add: list_all_iff)
  then have "resolved (\<Union> (sym_types ` set syms)) (concat (map emit syms)) d"
    using assms(2,3) by (auto simp: all_resolved_def emitAll_def)
  then show ?thesis by (simp add: resolved_def emitAll_def)
qed

lemma emitted_decls_resolved_witness:
  "list_all sym_wf rpc_msg_x \<and>
   (\<exists>s \<in> set (emitAll False (rpc_msg_x, [])). \<exists>d \<in> set (decls_of s).
      goid (ad_typ d) = ''XdrAnon_Accepted_reply_Reply_data_Mismatch_info'' \<and> ad_inline d = None \<and>
      (\<exists>s' \<in> set (emitAll False (rpc_msg_x, [])). inline_sym s' \<and> sym_name s' = goid (ad_typ d)))"
proof -
  let ?out = "emitAll False (rpc_msg_x, [])" and ?n = "''XdrAnon_Accepted_reply_Reply_data_Mismatch_info''"
  have wf: "list_all sym_wf rpc_msg_x" by code_simp
  have "list_ex (\<lambda>s. list_ex (\<lambda>d. goid (ad_typ d) = ?n) (decls_of s)) ?out" by code_simp
  then obtain s d where sd: "s \<in> set ?out" "d \<in> set (decls_of s)" "goid (ad_typ d) = ?n"
    by (auto simp: list_ex_iff)
  have "?n \<notin> \<Union> (sym_types ` set rpc_msg_x)" by code_simp
  with emitted_decls_resolved [OF wf sd(1,2)] wf sd show ?thesis by metis
qed

text \<open>
  C29. The names of the types and constants a file emits are distinct, the made-up names of its
  inline types included, if those of the file are, none of them starts with XdrAnon_ and,
  wherever two declarations with an inline type stand side by side, neither name continues
  the other after an underscore.
\<close>

theorem emitted_names_unique:
  assumes "file_apart syms"
  shows "distinct (names (emitAll False (syms, S)))"
proof -
  define inner where "inner s = butlast (names (emit s))" for s
  have P: "names (emit s) = inner s @ [sym_name s]" "inner s \<noteq> [] \<longrightarrow> has_inline s"
    "\<forall>m \<in> set (inner s). anon m \<and> under (Xdrinline_prefix @ sym_key s) m" "distinct (inner s)"
    if "s \<in> set syms" for s
    using emit_names [of s] assms that by (force simp: file_apart_def list_all_iff inner_def)+
  have "distinct (concat (map inner syms))"
  proof (rule distinct_blocks [where ok = has_inline and key = sym_key and p = Xdrinline_prefix])
    show "has_inline s \<and> under (Xdrinline_prefix @ sym_key s) m" if "s \<in> set syms" "m \<in> set (inner s)" for s m
      using P(2,3) [OF that(1)] that(2) by auto
  qed (use P(4) assms in \<open>auto simp: file_apart_def\<close>)
  moreover have "distinct (names syms)" and "\<forall>n \<in> set (names syms). \<not> anon n"
    using assms by (auto simp: file_apart_def list_all_iff)
  moreover have "anon m" if "m \<in> set (concat (map inner syms))" for m
    using that P(3) by auto
  ultimately have "distinct (concat (map inner syms) @ names syms)" by (auto simp del: set_map)
  moreover have "mset (names (concat (map emit syms))) = mset (concat (map inner syms) @ names syms)"
    using P(1) by (induction syms) auto
  ultimately have "distinct (names (concat (map emit syms)))"
    using mset_eq_imp_distinct_iff by blast
  then show ?thesis by (simp add: emitAll_def)
qed

theorem emitted_names_unique_witness:
  "file_apart rpc_msg_x \<and> distinct (names (emitAll False (rpc_msg_x, [])))"
proof -
  have "file_apart rpc_msg_x" by code_simp
  with emitted_names_unique [OF this, of "[]"] show ?thesis by simp
qed

text \<open>
  Two inline types of the same name: the field c of a struct a_B, and the field c of the
  inline type of the field b of a struct a.
\<close>

definition clash_x :: "ast_sym list" where
  "clash_x =
     (let leaf = (\<lambda>i. S_struct no_id [T_decl i (setlocal ''int32'')]) in
      [S_struct (setglobal ''a_B'') [In_decl ''c'' (leaf ''x'')],
       S_struct (setglobal ''a'') [In_decl ''b'' (S_struct no_id [In_decl ''c'' (leaf ''y'')])]])"

lemma inline_names_clash:
  "names (emitAll False (clash_x, [])) =
     [''XdrAnon_A_B_C'', ''A_B'', ''XdrAnon_A_B_C'', ''XdrAnon_A_B'', ''A'']"
  by code_simp

end
