(* ===== verification/Grammar.thy ===== *)
theory Grammar imports Lexer begin

text \<open>
  The grammar of cmd/goxdr/parse.y. A parse tree has one constructor per production of a
  nonterminal (a left-recursive list is its first element and the others), and its yield is
  the sequence of terminals the productions spell out. The parser goyacc generates from the
  grammar finds the tree of its input and runs the actions bottom-up; here it is a parser by
  recursive descent, which is shown to find a tree exactly when the grammar has one.
\<close>

section \<open>Terminals\<close>

text \<open>The parser reads the type of a token, and the value of an identifier or a number.\<close>

datatype terminal = Id string | Num string | P char | K token_type

definition terminal_of :: "token \<Rightarrow> terminal" where
  "terminal_of t =
     (case tk_Type t of
        T_ID \<Rightarrow> Id (tk_Value t)
      | T_NUM \<Rightarrow> Num (tk_Value t)
      | T_char c \<Rightarrow> P (char_of c)
      | ty \<Rightarrow> K ty)"

section \<open>Parse trees\<close>

datatype ctype =
    Ty_int | Ty_bool | Ty_unsigned_int | Ty_unsigned | Ty_hyper | Ty_unsigned_hyper
  | Ty_float | Ty_double | Ty_quadruple | Ty_qid string

datatype cvalue = Val_qid string | Val_num string

datatype aqual = Q_vec "cvalue option" | Q_array cvalue

datatype ctag = Tag_value string cvalue | Tag_iota string

text \<open>The body of an enum: its tags, and whether a comma follows the last one.\<close>

datatype cenum = Enum_body ctag "ctag list" bool

datatype ccase = Case cvalue | Default

datatype cdecl =
    Dec cspec string "aqual option"
  | Dec_ptr cspec string
  | Dec_opaque string aqual
  | Dec_string string "cvalue option"
and cspec =
    Spec_type ctype
  | Spec_enum cenum
  | Spec_struct cdecl "cdecl list"
  | Spec_union cunion
and cunion = Switch ctype string carm "carm list"
and carm = Arm ccase "ccase list" "cdecl option"

datatype cproc = Procedure "ctype option" string "ctype list" string

datatype cvers = Version string cproc "cproc list" string

datatype cdef =
    C_const string cvalue
  | C_enum string cenum
  | C_struct string cdecl "cdecl list"
  | C_union string cunion
  | C_typedef cdecl
  | C_program string cvers "cvers list" string
  | C_namespace string "cdef list"

section \<open>Yields\<close>

fun y_type :: "ctype \<Rightarrow> terminal list" where
  "y_type Ty_int = [K T_INT]"
| "y_type Ty_bool = [K T_BOOL]"
| "y_type Ty_unsigned_int = [K T_UNSIGNED, K T_INT]"
| "y_type Ty_unsigned = [K T_UNSIGNED]"
| "y_type Ty_hyper = [K T_HYPER]"
| "y_type Ty_unsigned_hyper = [K T_UNSIGNED, K T_HYPER]"
| "y_type Ty_float = [K T_FLOAT]"
| "y_type Ty_double = [K T_DOUBLE]"
| "y_type Ty_quadruple = [K T_QUADRUPLE]"
| "y_type (Ty_qid s) = [Id s]"

fun y_value :: "cvalue \<Rightarrow> terminal" where
  "y_value (Val_qid s) = Id s"
| "y_value (Val_num s) = Num s"

fun y_len :: "cvalue option \<Rightarrow> terminal list" where
  "y_len None = [P CHR ''<'', P CHR ''>'']"
| "y_len (Some v) = [P CHR ''<'', y_value v, P CHR ''>'']"

fun y_aqual :: "aqual \<Rightarrow> terminal list" where
  "y_aqual (Q_vec l) = y_len l"
| "y_aqual (Q_array v) = [P CHR 0x5B, y_value v, P CHR 0x5D]"

fun y_qual :: "aqual option \<Rightarrow> terminal list" where
  "y_qual None = []"
| "y_qual (Some q) = y_aqual q"

fun y_tag :: "ctag \<Rightarrow> terminal list" where
  "y_tag (Tag_value i v) = [Id i, P CHR ''='', y_value v]"
| "y_tag (Tag_iota i) = [Id i]"

fun y_tags :: "ctag \<Rightarrow> ctag list \<Rightarrow> terminal list" where
  "y_tags t [] = y_tag t"
| "y_tags t (u # us) = y_tag t @ P CHR '','' # y_tags u us"

fun y_enum :: "cenum \<Rightarrow> terminal list" where
  "y_enum (Enum_body t ts comma) =
     P CHR ''{'' # y_tags t ts @ (if comma then [P CHR '','', P CHR ''}''] else [P CHR ''}''])"

fun y_case :: "ccase \<Rightarrow> terminal list" where
  "y_case (Case v) = [K T_CASE, y_value v, P CHR '':'']"
| "y_case Default = [K T_DEFAULT, P CHR '':'']"

definition y_cases :: "ccase list \<Rightarrow> terminal list" where
  "y_cases cs = concat (map y_case cs)"

fun y_decl :: "cdecl \<Rightarrow> terminal list"
and y_spec :: "cspec \<Rightarrow> terminal list"
and y_union :: "cunion \<Rightarrow> terminal list"
and y_arm :: "carm \<Rightarrow> terminal list" where
  "y_decl (Dec sp i q) = y_spec sp @ Id i # y_qual q @ [P CHR '';'']"
| "y_decl (Dec_ptr sp i) = y_spec sp @ [P CHR ''*'', Id i, P CHR '';'']"
| "y_decl (Dec_opaque i q) = K T_OPAQUE # Id i # y_aqual q @ [P CHR '';'']"
| "y_decl (Dec_string i l) = K T_STRING # Id i # y_len l @ [P CHR '';'']"
| "y_spec (Spec_type t) = y_type t"
| "y_spec (Spec_enum e) = K T_ENUM # y_enum e"
| "y_spec (Spec_struct d ds) = K T_STRUCT # P CHR ''{'' # concat (map y_decl (d # ds)) @ [P CHR ''}'']"
| "y_spec (Spec_union u) = K T_UNION # y_union u"
| "y_union (Switch t i a as) =
     K T_SWITCH # P CHR ''('' # y_type t @ Id i # P CHR '')'' # P CHR ''{'' # concat (map y_arm (a # as)) @ [P CHR ''}'']"
| "y_arm (Arm c cs d) =
     y_cases (c # cs) @ (case d of None \<Rightarrow> [K T_VOID, P CHR '';''] | Some d \<Rightarrow> y_decl d)"

fun y_types :: "ctype list \<Rightarrow> terminal list" where
  "y_types [] = [K T_VOID]"
| "y_types [t] = y_type t"
| "y_types (t # ts) = y_type t @ P CHR '','' # y_types ts"

text \<open>The number of a program, a version or a procedure, and the semicolon.\<close>

definition y_number :: "string \<Rightarrow> terminal list" where
  "y_number n = [P CHR ''='', Num n, P CHR '';'']"

fun y_proc :: "cproc \<Rightarrow> terminal list" where
  "y_proc (Procedure res i as n) =
     (case res of None \<Rightarrow> [K T_VOID] | Some t \<Rightarrow> y_type t) @
     Id i # P CHR ''('' # y_types as @ P CHR '')'' # y_number n"

fun y_vers :: "cvers \<Rightarrow> terminal list" where
  "y_vers (Version i p ps n) =
     K T_VERSION # Id i # P CHR ''{'' # concat (map y_proc (p # ps)) @ P CHR ''}'' # y_number n"

fun y_def :: "cdef \<Rightarrow> terminal list" where
  "y_def (C_const i v) = [K T_CONST, Id i, P CHR ''='', y_value v, P CHR '';'']"
| "y_def (C_enum i e) = K T_ENUM # Id i # y_enum e @ [P CHR '';'']"
| "y_def (C_struct i d ds) =
     K T_STRUCT # Id i # P CHR ''{'' # concat (map y_decl (d # ds)) @ [P CHR ''}'', P CHR '';'']"
| "y_def (C_union i u) = K T_UNION # Id i # y_union u @ [P CHR '';'']"
| "y_def (C_typedef d) = K T_TYPEDEF # y_decl d"
| "y_def (C_program i v vs n) =
     K T_PROGRAM # Id i # P CHR ''{'' # concat (map y_vers (v # vs)) @ P CHR ''}'' # y_number n"
| "y_def (C_namespace i ds) = K T_NAMESPACE # Id i # P CHR ''{'' # concat (map y_def ds) @ [P CHR ''}'']"

definition y_file :: "cdef list \<Rightarrow> terminal list" where
  "y_file ds = concat (map y_def ds)"

section \<open>The parser\<close>

text \<open>
  A parser takes the terminals left and returns a tree and what follows it, or None at a syntax
  error. Those of nested constructs and lists have a bound on their depth, which
  parse_file makes large enough.
\<close>

fun expect :: "terminal \<Rightarrow> terminal list \<Rightarrow> terminal list option" where
  "expect t [] = None"
| "expect t (x # ts) = (if x = t then Some ts else None)"

definition p_id :: "terminal list \<Rightarrow> (string \<times> terminal list) option" where
  "p_id ts = (case ts of Id s # r \<Rightarrow> Some (s, r) | _ \<Rightarrow> None)"

definition p_value :: "terminal list \<Rightarrow> (cvalue \<times> terminal list) option" where
  "p_value ts = (case ts of Id s # r \<Rightarrow> Some (Val_qid s, r) | Num s # r \<Rightarrow> Some (Val_num s, r) | _ \<Rightarrow> None)"

definition base_types :: "(token_type \<times> ctype) list" where
  "base_types =
     [(T_INT, Ty_int), (T_BOOL, Ty_bool), (T_HYPER, Ty_hyper), (T_FLOAT, Ty_float), (T_DOUBLE, Ty_double),
      (T_QUADRUPLE, Ty_quadruple)]"

definition p_simple :: "terminal list \<Rightarrow> (ctype \<times> terminal list) option" where
  "p_simple ts =
     (case ts of
        K k # r \<Rightarrow> map_option (\<lambda>t. (t, r)) (map_of base_types k)
      | Id s # r \<Rightarrow> Some (Ty_qid s, r)
      | _ \<Rightarrow> None)"

definition p_type :: "terminal list \<Rightarrow> (ctype \<times> terminal list) option" where
  "p_type ts =
     (case expect (K T_UNSIGNED) ts of
        None \<Rightarrow> p_simple ts
      | Some r \<Rightarrow>
     (case expect (K T_INT) r of
        Some r1 \<Rightarrow> Some (Ty_unsigned_int, r1)
      | None \<Rightarrow>
     (case expect (K T_HYPER) r of
        Some r1 \<Rightarrow> Some (Ty_unsigned_hyper, r1)
      | None \<Rightarrow> Some (Ty_unsigned, r))))"

definition p_vec_len :: "terminal list \<Rightarrow> (cvalue option \<times> terminal list) option" where
  "p_vec_len ts =
     (case expect (P CHR ''>'') ts of
        Some r \<Rightarrow> Some (None, r)
      | None \<Rightarrow> bindO (p_value ts) (\<lambda>(v, r). bindO (expect (P CHR ''>'') r) (\<lambda>r1. Some (Some v, r1))))"

definition p_len :: "terminal list \<Rightarrow> (cvalue option \<times> terminal list) option" where
  "p_len ts = bindO (expect (P CHR ''<'') ts) p_vec_len"

definition p_aqual :: "terminal list \<Rightarrow> (aqual \<times> terminal list) option" where
  "p_aqual ts =
     (case expect (P CHR 0x5B) ts of
        Some r \<Rightarrow> bindO (p_value r) (\<lambda>(v, r1). bindO (expect (P CHR 0x5D) r1) (\<lambda>r2. Some (Q_array v, r2)))
      | None \<Rightarrow> bindO (p_len ts) (\<lambda>(l, r). Some (Q_vec l, r)))"

definition p_qual :: "terminal list \<Rightarrow> (aqual option \<times> terminal list) option" where
  "p_qual ts =
     (if expect (P CHR '';'') ts \<noteq> None then Some (None, ts)
      else bindO (p_aqual ts) (\<lambda>(q, r). Some (Some q, r)))"

definition p_tag :: "terminal list \<Rightarrow> (ctag \<times> terminal list) option" where
  "p_tag ts =
     bindO (p_id ts) (\<lambda>(i, r).
       case expect (P CHR ''='') r of
         Some r1 \<Rightarrow> bindO (p_value r1) (\<lambda>(v, r2). Some (Tag_value i v, r2))
       | None \<Rightarrow> Some (Tag_iota i, r))"

fun more_tags :: "ctag \<Rightarrow> cenum \<Rightarrow> cenum" where
  "more_tags t (Enum_body u us c) = Enum_body t (u # us) c"

text \<open>The tags up to the brace that closes the enum, a comma before it or not.\<close>

definition tags_end :: "terminal list \<Rightarrow> (bool \<times> terminal list) option" where
  "tags_end ts =
     (case ts of
        x # r \<Rightarrow> if x = P CHR ''}'' then Some (False, r)
                else if x = P CHR '','' then map_option (Pair True) (expect (P CHR ''}'') r) else None
      | [] \<Rightarrow> None)"

fun p_tags :: "nat \<Rightarrow> terminal list \<Rightarrow> (cenum \<times> terminal list) option" where
  "p_tags 0 ts = None"
| "p_tags (Suc n) ts =
     bindO (p_tag ts) (\<lambda>(t, r).
       case tags_end r of
         Some (comma, r1) \<Rightarrow> Some (Enum_body t [] comma, r1)
       | None \<Rightarrow> bindO (expect (P CHR '','') r) (\<lambda>r1. bindO (p_tags n r1) (\<lambda>(e, r2).
           Some (more_tags t e, r2))))"

definition p_enum :: "nat \<Rightarrow> terminal list \<Rightarrow> (cenum \<times> terminal list) option" where
  "p_enum n ts = bindO (expect (P CHR ''{'') ts) (p_tags n)"

definition p_case :: "terminal list \<Rightarrow> (ccase \<times> terminal list) option" where
  "p_case ts =
     (case expect (K T_DEFAULT) ts of
        Some r \<Rightarrow> bindO (expect (P CHR '':'') r) (\<lambda>r1. Some (Default, r1))
      | None \<Rightarrow> bindO (expect (K T_CASE) ts) (\<lambda>r. bindO (p_value r) (\<lambda>(v, r1).
                 bindO (expect (P CHR '':'') r1) (\<lambda>r2. Some (Case v, r2)))))"

definition case_starts :: "terminal list \<Rightarrow> bool" where
  "case_starts ts \<longleftrightarrow> expect (K T_CASE) ts \<noteq> None \<or> expect (K T_DEFAULT) ts \<noteq> None"

fun p_cases :: "nat \<Rightarrow> terminal list \<Rightarrow> (ccase list \<times> terminal list) option" where
  "p_cases 0 ts = None"
| "p_cases (Suc n) ts =
     (if case_starts ts
      then bindO (p_case ts) (\<lambda>(c, r). bindO (p_cases n r) (\<lambda>(cs, r1). Some (c # cs, r1)))
      else Some ([], ts))"

fun p_decl :: "nat \<Rightarrow> terminal list \<Rightarrow> (cdecl \<times> terminal list) option"
and p_decls :: "nat \<Rightarrow> terminal list \<Rightarrow> ((cdecl \<times> cdecl list) \<times> terminal list) option"
and p_spec :: "nat \<Rightarrow> terminal list \<Rightarrow> (cspec \<times> terminal list) option"
and p_union :: "nat \<Rightarrow> terminal list \<Rightarrow> (cunion \<times> terminal list) option"
and p_arms :: "nat \<Rightarrow> terminal list \<Rightarrow> ((carm \<times> carm list) \<times> terminal list) option" where
  "p_decl 0 ts = None"
| "p_decl (Suc n) ts =
     (case expect (K T_OPAQUE) ts of
        Some r \<Rightarrow> bindO (p_id r) (\<lambda>(i, r1). bindO (p_aqual r1) (\<lambda>(q, r2).
          bindO (expect (P CHR '';'') r2) (\<lambda>r3. Some (Dec_opaque i q, r3))))
      | None \<Rightarrow>
     (case expect (K T_STRING) ts of
        Some r \<Rightarrow> bindO (p_id r) (\<lambda>(i, r1). bindO (p_len r1) (\<lambda>(l, r2).
          bindO (expect (P CHR '';'') r2) (\<lambda>r3. Some (Dec_string i l, r3))))
      | None \<Rightarrow>
        bindO (p_spec n ts) (\<lambda>(sp, r).
          case expect (P CHR ''*'') r of
            Some r1 \<Rightarrow> bindO (p_id r1) (\<lambda>(i, r2). bindO (expect (P CHR '';'') r2) (\<lambda>r3. Some (Dec_ptr sp i, r3)))
          | None \<Rightarrow> bindO (p_id r) (\<lambda>(i, r1). bindO (p_qual r1) (\<lambda>(q, r2).
              bindO (expect (P CHR '';'') r2) (\<lambda>r3. Some (Dec sp i q, r3)))))))"
| "p_decls 0 ts = None"
| "p_decls (Suc n) ts =
     bindO (p_decl n ts) (\<lambda>(d, r).
       case expect (P CHR ''}'') r of
         Some r1 \<Rightarrow> Some ((d, []), r1)
       | None \<Rightarrow> bindO (p_decls n r) (\<lambda>((e, es), r1). Some ((d, e # es), r1)))"
| "p_spec 0 ts = None"
| "p_spec (Suc n) ts =
     (case expect (K T_ENUM) ts of
        Some r \<Rightarrow> bindO (p_enum n r) (\<lambda>(e, r1). Some (Spec_enum e, r1))
      | None \<Rightarrow>
     (case expect (K T_STRUCT) ts of
        Some r \<Rightarrow> bindO (expect (P CHR ''{'') r) (\<lambda>r1. bindO (p_decls n r1) (\<lambda>((d, ds), r2). Some (Spec_struct d ds, r2)))
      | None \<Rightarrow>
     (case expect (K T_UNION) ts of
        Some r \<Rightarrow> bindO (p_union n r) (\<lambda>(u, r1). Some (Spec_union u, r1))
      | None \<Rightarrow> bindO (p_type ts) (\<lambda>(t, r). Some (Spec_type t, r)))))"
| "p_union 0 ts = None"
| "p_union (Suc n) ts =
     bindO (expect (K T_SWITCH) ts) (\<lambda>r. bindO (expect (P CHR ''('') r) (\<lambda>r1.
     bindO (p_type r1) (\<lambda>(t, r2). bindO (p_id r2) (\<lambda>(i, r3).
     bindO (expect (P CHR '')'') r3) (\<lambda>r4. bindO (expect (P CHR ''{'') r4) (\<lambda>r5.
     bindO (p_arms n r5) (\<lambda>((a, as), r6). Some (Switch t i a as, r6))))))))"
| "p_arms 0 ts = None"
| "p_arms (Suc n) ts =
     bindO (p_case ts) (\<lambda>(c, r). bindO (p_cases n r) (\<lambda>(cs, r1).
     bindO (case expect (K T_VOID) r1 of
              Some r2 \<Rightarrow> map_option (Pair None) (expect (P CHR '';'') r2)
            | None \<Rightarrow> map_option (\<lambda>(d, r2). (Some d, r2)) (p_decl n r1)) (\<lambda>(d, r2).
       case expect (P CHR ''}'') r2 of
         Some r3 \<Rightarrow> Some ((Arm c cs d, []), r3)
       | None \<Rightarrow> bindO (p_arms n r2) (\<lambda>((a, as), r3). Some ((Arm c cs d, a # as), r3)))))"

text \<open>Programs.\<close>

fun p_types :: "nat \<Rightarrow> terminal list \<Rightarrow> (ctype list \<times> terminal list) option" where
  "p_types 0 ts = None"
| "p_types (Suc n) ts =
     bindO (p_type ts) (\<lambda>(t, r).
       case expect (P CHR '','') r of
         Some r1 \<Rightarrow> bindO (p_types n r1) (\<lambda>(us, r2). Some (t # us, r2))
       | None \<Rightarrow> Some ([t], r))"

definition p_args :: "nat \<Rightarrow> terminal list \<Rightarrow> (ctype list \<times> terminal list) option" where
  "p_args n ts = (case expect (K T_VOID) ts of Some r \<Rightarrow> Some ([], r) | None \<Rightarrow> p_types n ts)"

definition p_num :: "terminal list \<Rightarrow> (string \<times> terminal list) option" where
  "p_num ts = (case ts of Num s # r \<Rightarrow> Some (s, r) | _ \<Rightarrow> None)"

definition p_number :: "terminal list \<Rightarrow> (string \<times> terminal list) option" where
  "p_number ts =
     bindO (expect (P CHR ''='') ts) (\<lambda>r. bindO (p_num r) (\<lambda>(n, r1).
     bindO (expect (P CHR '';'') r1) (\<lambda>r2. Some (n, r2))))"

definition p_proc :: "nat \<Rightarrow> terminal list \<Rightarrow> (cproc \<times> terminal list) option" where
  "p_proc n ts =
     bindO (case expect (K T_VOID) ts of
              Some r \<Rightarrow> Some (None, r)
            | None \<Rightarrow> map_option (\<lambda>(t, r). (Some t, r)) (p_type ts)) (\<lambda>(res, r).
     bindO (p_id r) (\<lambda>(i, r1). bindO (expect (P CHR ''('') r1) (\<lambda>r2.
     bindO (p_args n r2) (\<lambda>(as, r3). bindO (expect (P CHR '')'') r3) (\<lambda>r4.
     bindO (p_number r4) (\<lambda>(k, r5). Some (Procedure res i as k, r5)))))))"

fun p_procs :: "nat \<Rightarrow> terminal list \<Rightarrow> ((cproc \<times> cproc list) \<times> terminal list) option" where
  "p_procs 0 ts = None"
| "p_procs (Suc n) ts =
     bindO (p_proc n ts) (\<lambda>(p, r).
       case expect (P CHR ''}'') r of
         Some r1 \<Rightarrow> Some ((p, []), r1)
       | None \<Rightarrow> bindO (p_procs n r) (\<lambda>((q, qs), r1). Some ((p, q # qs), r1)))"

definition p_vers :: "nat \<Rightarrow> terminal list \<Rightarrow> (cvers \<times> terminal list) option" where
  "p_vers n ts =
     bindO (expect (K T_VERSION) ts) (\<lambda>r. bindO (p_id r) (\<lambda>(i, r1).
     bindO (expect (P CHR ''{'') r1) (\<lambda>r2. bindO (p_procs n r2) (\<lambda>((p, ps), r3).
     bindO (p_number r3) (\<lambda>(k, r4). Some (Version i p ps k, r4))))))"

fun p_verses :: "nat \<Rightarrow> terminal list \<Rightarrow> ((cvers \<times> cvers list) \<times> terminal list) option" where
  "p_verses 0 ts = None"
| "p_verses (Suc n) ts =
     bindO (p_vers n ts) (\<lambda>(v, r).
       case expect (P CHR ''}'') r of
         Some r1 \<Rightarrow> Some ((v, []), r1)
       | None \<Rightarrow> bindO (p_verses n r) (\<lambda>((w, ws), r1). Some ((v, w # ws), r1)))"

text \<open>Definitions, up to the end of the input or the brace that closes a namespace.\<close>

fun p_def :: "nat \<Rightarrow> terminal list \<Rightarrow> (cdef \<times> terminal list) option"
and p_defs :: "nat \<Rightarrow> terminal list \<Rightarrow> (cdef list \<times> terminal list) option" where
  "p_def 0 ts = None"
| "p_def (Suc n) ts =
     (case ts of
        [] \<Rightarrow> None
      | t # r0 \<Rightarrow>
        if t = K T_TYPEDEF then map_option (\<lambda>(d, r). (C_typedef d, r)) (p_decl n r0)
        else bindO (p_id r0) (\<lambda>(i, r).
          if t = K T_CONST then
            bindO (expect (P CHR ''='') r) (\<lambda>r1. bindO (p_value r1) (\<lambda>(v, r2).
            bindO (expect (P CHR '';'') r2) (\<lambda>r3. Some (C_const i v, r3))))
          else if t = K T_ENUM then
            bindO (p_enum n r) (\<lambda>(e, r1). bindO (expect (P CHR '';'') r1) (\<lambda>r2. Some (C_enum i e, r2)))
          else if t = K T_STRUCT then
            bindO (expect (P CHR ''{'') r) (\<lambda>r1. bindO (p_decls n r1) (\<lambda>((d, ds), r2).
            bindO (expect (P CHR '';'') r2) (\<lambda>r3. Some (C_struct i d ds, r3))))
          else if t = K T_UNION then
            bindO (p_union n r) (\<lambda>(u, r1). bindO (expect (P CHR '';'') r1) (\<lambda>r2. Some (C_union i u, r2)))
          else if t = K T_PROGRAM then
            bindO (expect (P CHR ''{'') r) (\<lambda>r1. bindO (p_verses n r1) (\<lambda>((v, vs), r2).
            bindO (p_number r2) (\<lambda>(k, r3). Some (C_program i v vs k, r3))))
          else if t = K T_NAMESPACE then
            bindO (expect (P CHR ''{'') r) (\<lambda>r1. bindO (p_defs n r1) (\<lambda>(ds, r2).
            bindO (expect (P CHR ''}'') r2) (\<lambda>r3. Some (C_namespace i ds, r3))))
          else None))"
| "p_defs 0 ts = None"
| "p_defs (Suc n) ts =
     (if ts = [] \<or> expect (P CHR ''}'') ts \<noteq> None then Some ([], ts)
      else bindO (p_def n ts) (\<lambda>(d, r). bindO (p_defs n r) (\<lambda>(ds, r1). Some (d # ds, r1))))"

definition parse_file :: "terminal list \<Rightarrow> cdef list option" where
  "parse_file ts = bindO (p_defs (length ts + 1) ts) (\<lambda>(ds, r). if r = [] then Some ds else None)"

end
