(* ===== verification/GrammarCorrect.thy ===== *)
theory GrammarCorrect imports Grammar begin

text \<open>
  The parser finds a tree exactly when the grammar has one for its input, and the grammar has at
  most one. Soundness goes by computation induction; completeness by induction on the
  trees, with what each one can begin with, on which the parser's choices rest.
\<close>

section \<open>Soundness\<close>

lemma expect_Some [simp]: "expect t ts = Some r \<longleftrightarrow> ts = t # r"
  by (cases ts) auto

lemma expect_None [simp]: "expect t ts = None \<longleftrightarrow> (\<forall>r. ts \<noteq> t # r)"
  by (cases ts) auto

lemma p_id_sound: "p_id ts = Some (i, r) \<Longrightarrow> ts = Id i # r"
  by (auto simp: p_id_def split: list.split_asm terminal.splits)

lemma p_value_sound: "p_value ts = Some (v, r) \<Longrightarrow> ts = y_value v # r"
  by (auto simp: p_value_def split: list.split_asm terminal.splits)

lemma p_simple_sound: "p_simple ts = Some (t, r) \<Longrightarrow> ts = y_type t @ r"
  by (auto simp: p_simple_def base_types_def split: list.split_asm terminal.split_asm if_split_asm)

lemma p_type_sound: "p_type ts = Some (t, r) \<Longrightarrow> ts = y_type t @ r"
  by (auto simp: p_type_def split: option.split_asm dest: p_simple_sound)

lemma p_vec_len_sound: "p_vec_len ts = Some (l, r) \<Longrightarrow> P CHR ''<'' # ts = y_len l @ r"
  by (auto simp: p_vec_len_def bindO_eq_Some split: option.split_asm dest!: p_value_sound)

lemma p_len_sound: "p_len ts = Some (l, r) \<Longrightarrow> ts = y_len l @ r"
  by (auto simp: p_len_def bindO_eq_Some dest!: p_vec_len_sound)

lemma p_aqual_sound: "p_aqual ts = Some (q, r) \<Longrightarrow> ts = y_aqual q @ r"
  by (auto simp: p_aqual_def bindO_eq_Some split: option.split_asm dest!: p_value_sound p_len_sound)

lemma p_qual_sound: "p_qual ts = Some (q, r) \<Longrightarrow> ts = y_qual q @ r"
  by (auto simp: p_qual_def bindO_eq_Some split: if_split_asm dest!: p_aqual_sound)

lemma p_tag_sound: "p_tag ts = Some (t, r) \<Longrightarrow> ts = y_tag t @ r"
  by (auto simp: p_tag_def bindO_eq_Some split: option.split_asm dest!: p_id_sound p_value_sound)

lemma tags_end_eq:
  "tags_end ts = Some (c, r) \<longleftrightarrow> ts = (if c then [P CHR '','', P CHR ''}''] else [P CHR ''}'']) @ r"
  by (auto simp: tags_end_def split: list.splits if_splits)

lemma p_tags_sound:
  "p_tags n ts = Some (Enum_body t us c, r) \<Longrightarrow>
   ts = y_tags t us @ (if c then [P CHR '','', P CHR ''}''] else [P CHR ''}'']) @ r"
proof (induction n arbitrary: ts t us c r)
  case (Suc n)
  then obtain a r1 where a: "p_tag ts = Some (a, r1)" by (auto simp: bindO_eq_Some)
  show ?case
  proof (cases "tags_end r1")
    case None
    with a Suc.prems obtain x e where x: "r1 = P CHR '','' # x" "p_tags n x = Some (e, r)"
      and e: "more_tags a e = Enum_body t us c"
      by (auto simp: bindO_eq_Some)
    with Suc.IH [of x _ _ _ r] p_tag_sound [OF a] show ?thesis by (cases e) auto
  next
    case (Some y)
    with a Suc.prems p_tag_sound [OF a] show ?thesis by (cases y) (auto simp: tags_end_eq)
  qed
qed simp

lemma p_enum_sound: "p_enum n ts = Some (e, r) \<Longrightarrow> ts = y_enum e @ r"
  by (cases e) (auto simp: p_enum_def bindO_eq_Some dest!: p_tags_sound)

lemma p_case_sound: "p_case ts = Some (c, r) \<Longrightarrow> ts = y_case c @ r"
  by (auto simp: p_case_def bindO_eq_Some split: option.split_asm dest!: p_value_sound)

lemma p_cases_sound: "p_cases n ts = Some (cs, r) \<Longrightarrow> ts = y_cases cs @ r"
  by (induction n ts arbitrary: cs r rule: p_cases.induct)
    (auto simp: bindO_eq_Some y_cases_def split: if_split_asm dest!: p_case_sound)

lemmas base_sound = p_id_sound p_value_sound p_type_sound p_len_sound p_aqual_sound p_qual_sound
  p_enum_sound p_case_sound p_cases_sound

lemma p_decl_sound:
  "p_decl n ts = Some (d, r) \<Longrightarrow> ts = y_decl d @ r"
  "p_decls n ts = Some ((d, ds), r) \<Longrightarrow> ts = concat (map y_decl (d # ds)) @ P CHR ''}'' # r"
  "p_spec n ts = Some (sp, r) \<Longrightarrow> ts = y_spec sp @ r"
  "p_union n ts = Some (u, r) \<Longrightarrow> ts = y_union u @ r"
  "p_arms n ts = Some ((a, as), r) \<Longrightarrow> ts = concat (map y_arm (a # as)) @ P CHR ''}'' # r"
proof (induction n ts and n ts and n ts and n ts and n ts arbitrary: d r and d ds r and sp r and u r and a as r
    rule: p_decl_p_decls_p_spec_p_union_p_arms.induct)
  case (2 n ts)
  then show ?case by (auto simp: bindO_eq_Some split: option.split_asm dest!: base_sound)
next
  case (4 n ts)
  then show ?case by (auto simp: bindO_eq_Some split: option.split_asm)
next
  case (6 n ts)
  then show ?case by (auto simp: bindO_eq_Some split: option.split_asm dest!: base_sound)
next
  case (8 n ts)
  then show ?case by (auto simp: bindO_eq_Some y_cases_def dest!: base_sound)
next
  case (10 n ts)
  then show ?case
    by (auto simp: bindO_eq_Some y_cases_def split: option.split_asm dest!: base_sound)
qed auto

lemma p_types_sound: "p_types n ts = Some (us, r) \<Longrightarrow> us \<noteq> [] \<and> ts = y_types us @ r"
proof (induction n ts arbitrary: us r rule: p_types.induct)
  case (2 n ts)
  then show ?case
    by (fastforce simp: bindO_eq_Some neq_Nil_conv split: option.split_asm dest!: p_type_sound)
qed simp

lemma p_args_sound: "p_args n ts = Some (us, r) \<Longrightarrow> ts = y_types us @ r"
  by (auto simp: p_args_def split: option.split_asm dest: p_types_sound)

lemma p_num_sound: "p_num ts = Some (k, r) \<Longrightarrow> ts = Num k # r"
  by (auto simp: p_num_def split: list.split_asm terminal.split_asm)

lemma p_number_sound: "p_number ts = Some (k, r) \<Longrightarrow> ts = y_number k @ r"
  by (auto simp: p_number_def y_number_def bindO_eq_Some dest!: p_num_sound)

lemma p_proc_sound: "p_proc n ts = Some (p, r) \<Longrightarrow> ts = y_proc p @ r"
  by (auto simp: p_proc_def bindO_eq_Some split: option.split_asm
      dest!: p_id_sound p_type_sound p_args_sound p_number_sound)

lemma p_procs_sound:
  "p_procs n ts = Some ((p, ps), r) \<Longrightarrow> ts = concat (map y_proc (p # ps)) @ P CHR ''}'' # r"
  by (induction n ts arbitrary: p ps r rule: p_procs.induct)
    (auto simp: bindO_eq_Some split: option.split_asm dest!: p_proc_sound)

lemma p_vers_sound: "p_vers n ts = Some (v, r) \<Longrightarrow> ts = y_vers v @ r"
  by (auto simp: p_vers_def bindO_eq_Some dest!: p_id_sound p_procs_sound p_number_sound)

lemma p_verses_sound:
  "p_verses n ts = Some ((v, vs), r) \<Longrightarrow> ts = concat (map y_vers (v # vs)) @ P CHR ''}'' # r"
  by (induction n ts arbitrary: v vs r rule: p_verses.induct)
    (auto simp: bindO_eq_Some split: option.split_asm dest!: p_vers_sound)

lemma p_def_sound:
  "p_def n ts = Some (d, r) \<Longrightarrow> ts = y_def d @ r"
  "p_defs n ts = Some (ds, r) \<Longrightarrow> ts = y_file ds @ r"
proof (induction n ts and n ts arbitrary: d r and ds r rule: p_def_p_defs.induct)
  case (2 n ts)
  then show ?case
    by (auto simp: bindO_eq_Some y_file_def split: list.split_asm if_splits
        dest!: p_id_sound p_value_sound p_enum_sound p_decl_sound p_verses_sound p_number_sound)
next
  case (4 n ts)
  then show ?case by (auto simp: bindO_eq_Some y_file_def split: if_split_asm)
qed auto

section \<open>What a construct begins with\<close>

lemma type_starts [simp]:
  "expect (K T_ENUM) (y_type t @ r) = None" "expect (K T_STRUCT) (y_type t @ r) = None"
  "expect (K T_UNION) (y_type t @ r) = None" "expect (K T_VOID) (y_type t @ r) = None"
  "expect (K T_OPAQUE) (y_type t @ r) = None" "expect (K T_STRING) (y_type t @ r) = None"
  "expect (K T_CASE) (y_type t @ r) = None" "expect (K T_DEFAULT) (y_type t @ r) = None"
  "expect (P c) (y_type t @ r) = None"
  by (cases t; simp)+

lemma spec_starts [simp]:
  "expect (K T_OPAQUE) (y_spec sp @ r) = None" "expect (K T_STRING) (y_spec sp @ r) = None"
  "expect (K T_VOID) (y_spec sp @ r) = None" "expect (K T_CASE) (y_spec sp @ r) = None"
  "expect (K T_DEFAULT) (y_spec sp @ r) = None" "expect (P c) (y_spec sp @ r) = None"
  by (cases sp; simp del: expect_None; simp)+

lemma decl_starts [simp]:
  "expect (K T_VOID) (y_decl d @ r) = None" "expect (K T_CASE) (y_decl d @ r) = None"
  "expect (K T_DEFAULT) (y_decl d @ r) = None" "expect (P c) (y_decl d @ r) = None"
  by (cases d; simp del: expect_None; simp)+

lemma tag_starts [simp]: "expect (P c) (y_tag t @ r) = None"
  by (cases t) auto

lemma case_starts_yield [simp]:
  "case_starts (y_case c @ r)" "\<not> case_starts (y_decl d @ r)" "\<not> case_starts (K T_VOID # r)"
  "expect (P x) (y_case c @ r) = None"
proof -
  show "case_starts (y_case c @ r)" "expect (P x) (y_case c @ r) = None"
    by (cases c; simp add: case_starts_def)+
qed (simp_all add: case_starts_def del: expect_None)

section \<open>Completeness\<close>

lemma p_id_Id [simp]: "p_id (Id i # r) = Some (i, r)"
  by (simp add: p_id_def)

lemma p_value_yield [simp]: "p_value (y_value v # r) = Some (v, r)"
  by (cases v) (simp_all add: p_value_def)

lemma y_value_neq [simp]: "y_value v \<noteq> P c" "y_value v \<noteq> K k"
  by (cases v; simp)+

lemma p_type_yield:
  "expect (K T_INT) r = None \<Longrightarrow> expect (K T_HYPER) r = None \<Longrightarrow> p_type (y_type t @ r) = Some (t, r)"
  by (cases t) (auto simp: p_type_def p_simple_def base_types_def simp del: expect_None)

lemma p_type_Id [simp]: "p_type (y_type t @ Id i # r) = Some (t, Id i # r)"
  by (rule p_type_yield) simp_all

lemma p_type_P [simp]: "p_type (y_type t @ P c # r) = Some (t, P c # r)"
  by (rule p_type_yield) simp_all

lemma p_len_yield [simp]: "p_len (y_len l @ r) = Some (l, r)"
  by (cases l) (simp_all add: p_len_def p_vec_len_def)

lemma len_starts [simp]: "expect (P c) (y_len l @ r) = (if c = CHR ''<'' then Some (tl (y_len l) @ r) else None)"
  by (cases l) simp_all

lemma p_aqual_yield [simp]: "p_aqual (y_aqual q @ r) = Some (q, r)"
proof (cases q)
  case (Q_vec l)
  then show ?thesis by (simp add: p_aqual_def del: expect_None)
qed (simp add: p_aqual_def)

lemma p_qual_yield [simp]: "p_qual (y_qual q @ P CHR '';'' # r) = Some (q, P CHR '';'' # r)"
proof (cases q)
  case (Some a)
  have "expect (P CHR '';'') (y_aqual a @ P CHR '';'' # r) = None"
    by (cases a) (simp_all del: expect_None)
  with Some show ?thesis by (simp add: p_qual_def del: expect_None)
qed (simp add: p_qual_def)

lemma tags_end_tag [simp]: "tags_end (y_tag t @ r) = None" "tags_end (P CHR '','' # y_tag t @ r) = None"
  by (cases t; simp add: tags_end_def)+

lemma p_tag_yield: "expect (P CHR ''='') r = None \<Longrightarrow> p_tag (y_tag t @ r) = Some (t, r)"
  by (cases t) (simp_all add: p_tag_def del: expect_None)

lemma p_tag_P [simp]: "c \<noteq> CHR ''='' \<Longrightarrow> p_tag (y_tag t @ P c # r) = Some (t, P c # r)"
  by (rule p_tag_yield) simp

lemma y_tags_more: "y_tags t us = y_tag t @ (case us of [] \<Rightarrow> [] | v # vs \<Rightarrow> P CHR '','' # y_tags v vs)"
  by (cases us) simp_all

lemma p_tags_yield:
  "length (y_tags t us) < n \<Longrightarrow>
   p_tags n (y_tags t us @ (if c then [P CHR '','', P CHR ''}''] else [P CHR ''}'']) @ r) =
     Some (Enum_body t us c, r)"
proof (induction us arbitrary: t n)
  case Nil
  then obtain m where "n = Suc m" by (cases n) auto
  then show ?case by (cases c) (simp_all add: tags_end_def)
next
  case (Cons v vs)
  then obtain m where n: "n = Suc m" by (cases n) auto
  have "tags_end (P CHR '','' # y_tags v vs @ s) = None" for s
    by (cases vs) simp_all
  moreover have "length (y_tags v vs) < m" using Cons.prems n by simp
  ultimately show ?case using Cons.IH [of v m] n by (simp del: if_split)
qed

lemma p_enum_yield: "length (y_enum e) \<le> n \<Longrightarrow> p_enum n (y_enum e @ r) = Some (e, r)"
  using p_tags_yield [of _ _ n _ r] by (cases e) (auto simp: p_enum_def split: if_splits)

lemma p_case_yield [simp]: "p_case (y_case c @ r) = Some (c, r)"
  by (cases c) (simp_all add: p_case_def)

lemma y_case_length [simp]: "0 < length (y_case c)"
  by (cases c) simp_all

lemma p_cases_yield:
  "length (y_cases cs) < n \<Longrightarrow> \<not> case_starts r \<Longrightarrow> p_cases n (y_cases cs @ r) = Some (cs, r)"
proof (induction cs arbitrary: n)
  case Nil
  then show ?case by (cases n) (simp_all add: y_cases_def)
next
  case (Cons c cs)
  then obtain m where n: "n = Suc m" by (cases n) auto
  have "length (y_cases cs) < m" using Cons.prems n y_case_length [of c] by (simp add: y_cases_def del: length_greater_0_conv y_case_length)
  with Cons.IH [of m] Cons.prems n show ?case by (simp add: y_cases_def)
qed


definition good_decl :: "cdecl \<Rightarrow> bool" where
  "good_decl d \<longleftrightarrow> (\<forall>n r. length (y_decl d) \<le> n \<longrightarrow> p_decl n (y_decl d @ r) = Some (d, r))"

definition good_arm :: "carm \<Rightarrow> bool" where
  "good_arm a \<longleftrightarrow> (case a of Arm c cs d \<Rightarrow> case d of None \<Rightarrow> True | Some d \<Rightarrow> good_decl d)"

lemma p_decls_yield:
  "good_decl d \<Longrightarrow> list_all good_decl ds \<Longrightarrow> length (concat (map y_decl (d # ds))) < n \<Longrightarrow>
   p_decls n (concat (map y_decl (d # ds)) @ P CHR ''}'' # r) = Some ((d, ds), r)"
proof (induction ds arbitrary: d n)
  case Nil
  then obtain m where n: "n = Suc m" by (cases n) auto
  with Nil show ?case by (simp add: good_decl_def)
next
  case (Cons e es)
  then obtain m where n: "n = Suc m" by (cases n) auto
  have d: "p_decl m (y_decl d @ r) = Some (d, r)" for r
    using Cons.prems n by (simp add: good_decl_def)
  have "0 < length (y_decl d)" by (cases d) simp_all
  then have "length (concat (map y_decl (e # es))) < m" using Cons.prems(3) n by (simp del: length_greater_0_conv)
  with Cons.IH [of e m] Cons.prems n d show ?case by (simp del: expect_None)
qed

lemma p_arm_tail:
  assumes "good_arm (Arm c cs d)" "length (y_arm (Arm c cs d)) \<le> n"
  shows "(case expect (K T_VOID) ((case d of None \<Rightarrow> [K T_VOID, P CHR '';''] | Some d \<Rightarrow> y_decl d) @ r) of
       Some r2 \<Rightarrow> map_option (Pair None) (expect (P CHR '';'') r2)
     | None \<Rightarrow> map_option (\<lambda>(d, r2). (Some d, r2))
         (p_decl n ((case d of None \<Rightarrow> [K T_VOID, P CHR '';''] | Some d \<Rightarrow> y_decl d) @ r))) = Some (d, r)"
  using assms by (cases d) (simp_all add: good_arm_def good_decl_def del: expect_None)

lemma p_arms_step:
  assumes "good_arm a" "length (y_arm a) \<le> n"
  shows "p_arms (Suc n) (y_arm a @ r) =
    (case expect (P CHR ''}'') r of
       Some r1 \<Rightarrow> Some ((a, []), r1)
     | None \<Rightarrow> bindO (p_arms n r) (\<lambda>((b, bs), r1). Some ((a, b # bs), r1)))"
proof (cases a)
  case (Arm c cs d)
  let ?t = "case d of None \<Rightarrow> [K T_VOID, P CHR '';''] | Some d \<Rightarrow> y_decl d"
  have "p_cases n (y_cases cs @ ?t @ r) = Some (cs, ?t @ r)"
  proof (rule p_cases_yield)
    show "length (y_cases cs) < n" using assms(2) Arm y_case_length [of c] by (simp add: y_cases_def del: length_greater_0_conv y_case_length)
    show "\<not> case_starts (?t @ r)" by (cases d) simp_all
  qed
  moreover note p_arm_tail [of c cs d n r]
  moreover have "y_arm a @ r = y_case c @ y_cases cs @ ?t @ r" by (simp add: Arm y_cases_def)
  ultimately show ?thesis using assms Arm by (simp only: p_arms.simps p_case_yield bindO_Some) simp
qed

lemma p_arms_yield:
  "good_arm a \<Longrightarrow> list_all good_arm as \<Longrightarrow> length (concat (map y_arm (a # as))) < n \<Longrightarrow>
   p_arms n (concat (map y_arm (a # as)) @ P CHR ''}'' # r) = Some ((a, as), r)"
proof (induction as arbitrary: a n)
  case Nil
  then obtain m where n: "n = Suc m" by (cases n) auto
  with Nil show ?case using p_arms_step [of a m] by simp
next
  case (Cons b bs)
  then obtain m where n: "n = Suc m" by (cases n) auto
  obtain c cs d where a: "a = Arm c cs d" by (cases a)
  have "0 < length (y_arm a)" using y_case_length [of c] a by (simp add: y_cases_def)
  then have "length (concat (map y_arm (b # bs))) < m" using Cons.prems(3) n by (simp del: length_greater_0_conv)
  moreover have "expect (P CHR ''}'') (y_arm b @ s) = None" for s
    by (cases b) (simp add: y_cases_def del: expect_None)
  ultimately show ?case
    using Cons.IH [of b m] Cons.prems n p_arms_step [of a m "concat (map y_arm (b # bs)) @ P CHR ''}'' # r"]
    by (simp del: expect_None p_arms.simps)
qed

lemma p_decl_yield:
  "good_decl d"
  "length (y_spec sp) \<le> n \<Longrightarrow> p_spec n (y_spec sp @ Id i # r) = Some (sp, Id i # r) \<and>
    p_spec n (y_spec sp @ P c # r) = Some (sp, P c # r)"
  "length (y_union u) \<le> n \<Longrightarrow> p_union n (y_union u @ r) = Some (u, r)"
  "good_arm a"
proof (induction d and sp and u and a arbitrary: and n i c r and n r and rule: cdecl.induct cspec.induct cunion.induct carm.induct)
  case (Dec sp i q)
  show ?case
    unfolding good_decl_def
  proof (intro allI impI)
    fix n r assume l: "length (y_decl (Dec sp i q)) \<le> n"
    then obtain m where n: "n = Suc m" by (cases n) auto
    with Dec [of m i "y_qual q @ P CHR '';'' # r"] l
    show "p_decl n (y_decl (Dec sp i q) @ r) = Some (Dec sp i q, r)" by (simp del: expect_None)
  qed
next
  case (Dec_ptr sp i)
  show ?case
    unfolding good_decl_def
  proof (intro allI impI)
    fix n r assume l: "length (y_decl (Dec_ptr sp i)) \<le> n"
    then obtain m where n: "n = Suc m" by (cases n) auto
    with Dec_ptr [of m i "Id i # P CHR '';'' # r" "CHR ''*''"] l
    show "p_decl n (y_decl (Dec_ptr sp i) @ r) = Some (Dec_ptr sp i, r)" by (simp del: expect_None)
  qed
next
  case (Dec_opaque i q)
  show ?case unfolding good_decl_def
  proof (intro allI impI)
    fix n r assume l: "length (y_decl (Dec_opaque i q)) \<le> n"
    then obtain m where n: "n = Suc m" by (cases n) auto
    then show "p_decl n (y_decl (Dec_opaque i q) @ r) = Some (Dec_opaque i q, r)" by (simp del: expect_None)
  qed
next
  case (Dec_string i q)
  show ?case unfolding good_decl_def
  proof (intro allI impI)
    fix n r assume l: "length (y_decl (Dec_string i q)) \<le> n"
    then obtain m where n: "n = Suc m" by (cases n) auto
    then show "p_decl n (y_decl (Dec_string i q) @ r) = Some (Dec_string i q, r)" by (simp del: expect_None)
  qed
next
  case (Spec_type t)
  have "0 < length (y_type t)" by (cases t) simp_all
  with Spec_type obtain m where n: "n = Suc m" by (cases n) auto
  then show ?case by (simp del: expect_None)
next
  case (Spec_enum e)
  then obtain m where n: "n = Suc m" by (cases n) auto
  with Spec_enum show ?case by (simp add: p_enum_yield del: expect_None)
next
  case (Spec_struct d ds)
  then obtain m where n: "n = Suc m" by (cases n) auto
  have "list_all good_decl ds" using Spec_struct.IH by (simp add: list_all_iff)
  with n Spec_struct p_decls_yield [of d ds m] show ?case by (simp del: expect_None)
next
  case (Spec_union u)
  then obtain m where n: "n = Suc m" by (cases n) auto
  with Spec_union show ?case by (simp del: expect_None)
next
  case (Switch t i a as)
  then obtain m where n: "n = Suc m" by (cases n) auto
  have "list_all good_arm as" using Switch.IH by (simp add: list_all_iff)
  with n Switch p_arms_yield [of a as m r] show ?case by (simp del: expect_None)
next
  case (Arm c cs d)
  then show ?case by (cases d) (simp_all add: good_arm_def)
qed


lemmas p_decl_parses = p_decl_yield(1) [unfolded good_decl_def, rule_format]

lemma p_decls_parses:
  "length (concat (map y_decl (d # ds))) < n \<Longrightarrow>
   p_decls n (y_decl d @ concat (map y_decl ds) @ P CHR ''}'' # r) = Some ((d, ds), r)"
  using p_decls_yield [of d ds n r] by (simp add: p_decl_yield(1) list_all_iff)

lemma y_type_length [simp]: "0 < length (y_type t)"
  by (cases t) simp_all

lemma p_types_yield:
  "us \<noteq> [] \<Longrightarrow> length (y_types us) \<le> n \<Longrightarrow> p_types n (y_types us @ P CHR '')'' # r) = Some (us, P CHR '')'' # r)"
proof (induction us arbitrary: n rule: y_types.induct)
  case (2 t)
  then obtain m where "n = Suc m" using y_type_length [of t] by (cases n) auto
  then show ?case by simp
next
  case (3 t u us)
  then obtain m where n: "n = Suc m" by (cases n) auto
  with 3 show ?case by simp
qed simp

lemma p_args_yield: "length (y_types us) \<le> n \<Longrightarrow> p_args n (y_types us @ P CHR '')'' # r) = Some (us, P CHR '')'' # r)"
proof (cases us)
  case (Cons t ts)
  have "expect (K T_VOID) (y_types us @ P CHR '')'' # r) = None"
    unfolding Cons by (cases ts) (simp_all del: expect_None)
  with Cons p_types_yield [of us n r] show "length (y_types us) \<le> n \<Longrightarrow> ?thesis"
    by (simp add: p_args_def del: expect_None)
qed (simp add: p_args_def)

lemma p_number_yield [simp]: "p_number (y_number k @ r) = Some (k, r)"
  by (simp add: p_number_def y_number_def p_num_def)

lemma p_proc_yield: "length (y_proc p) \<le> n \<Longrightarrow> p_proc n (y_proc p @ r) = Some (p, r)"
proof (cases p)
  case (Procedure res i as k)
  assume "length (y_proc p) \<le> n"
  then have "length (y_types as) \<le> n" by (simp add: Procedure)
  then show ?thesis
    by (cases res) (simp_all add: Procedure p_proc_def p_args_yield del: expect_None)
qed

lemma proc_starts [simp]: "expect (P c) (y_proc p @ r) = None"
proof (cases p)
  case (Procedure res i as k)
  then show ?thesis by (cases res) (simp_all del: expect_None)
qed

lemma p_procs_yield:
  "length (concat (map y_proc (p # ps))) < n \<Longrightarrow>
   p_procs n (y_proc p @ concat (map y_proc ps) @ P CHR ''}'' # r) = Some ((p, ps), r)"
proof (induction ps arbitrary: p n)
  case Nil
  then obtain m where "n = Suc m" by (cases n) auto
  with Nil show ?case by (simp add: p_proc_yield)
next
  case (Cons q qs)
  then obtain m where n: "n = Suc m" by (cases n) auto
  have "0 < length (y_proc p)" by (cases p) simp
  then have "length (concat (map y_proc (q # qs))) < m" "length (y_proc p) \<le> m"
    using Cons.prems n by (simp_all del: length_greater_0_conv)
  with Cons.IH [of q m] n show ?case by (simp add: p_proc_yield del: expect_None)
qed

lemma p_vers_yield: "length (y_vers v) \<le> n \<Longrightarrow> p_vers n (y_vers v @ r) = Some (v, r)"
  by (cases v) (simp add: p_vers_def p_procs_yield)

lemma p_verses_yield:
  "length (concat (map y_vers (v # vs))) < n \<Longrightarrow>
   p_verses n (y_vers v @ concat (map y_vers vs) @ P CHR ''}'' # r) = Some ((v, vs), r)"
proof (induction vs arbitrary: v n)
  case Nil
  then obtain m where "n = Suc m" by (cases n) auto
  with Nil show ?case by (simp add: p_vers_yield)
next
  case (Cons w ws)
  then obtain m where n: "n = Suc m" by (cases n) auto
  have "0 < length (y_vers v)" by (cases v) simp
  then have "length (concat (map y_vers (w # ws))) < m" "length (y_vers v) \<le> m"
    using Cons.prems n by (simp_all del: length_greater_0_conv)
  moreover have "expect (P CHR ''}'') (y_vers w @ s) = None" for s by (cases w) simp
  ultimately show ?case using Cons.IH [of w m] n by (simp add: p_vers_yield del: expect_None)
qed

definition good_def :: "cdef \<Rightarrow> bool" where
  "good_def d \<longleftrightarrow> (\<forall>n r. length (y_def d) \<le> n \<longrightarrow> p_def n (y_def d @ r) = Some (d, r))"

lemma p_defs_yield:
  "list_all good_def ds \<Longrightarrow> length (y_file ds) < n \<Longrightarrow> r = [] \<or> expect (P CHR ''}'') r \<noteq> None \<Longrightarrow>
   p_defs n (y_file ds @ r) = Some (ds, r)"
proof (induction ds arbitrary: n)
  case Nil
  then obtain m where "n = Suc m" by (cases n) auto
  with Nil show ?case by (auto simp: y_file_def)
next
  case (Cons d ds)
  then obtain m where n: "n = Suc m" by (cases n) auto
  have pos: "0 < length (y_def d)" and "expect (P CHR ''}'') (y_def d @ s) = None" for s
    by (cases d; simp)+
  moreover from pos have "length (y_file ds) < m" "length (y_def d) \<le> m"
    using Cons.prems n by (simp_all add: y_file_def del: length_greater_0_conv)
  ultimately show ?case using Cons.IH [of m] Cons.prems n
    by (simp add: y_file_def good_def_def del: expect_None)
qed

lemma p_def_yield: "good_def d"
proof (induction d)
  case (C_namespace i ds)
  show ?case
    unfolding good_def_def
  proof (intro allI impI)
    fix n r assume l: "length (y_def (C_namespace i ds)) \<le> n"
    then obtain m where n: "n = Suc m" by (cases n) auto
    have "list_all good_def ds" using C_namespace by (simp add: list_all_iff)
    from p_defs_yield [OF this, of m "P CHR ''}'' # r"] l n
    show "p_def n (y_def (C_namespace i ds) @ r) = Some (C_namespace i ds, r)"
      by (simp add: y_file_def)
  qed
qed (unfold good_def_def; intro allI impI; case_tac n;
     simp add: p_enum_yield p_decl_parses p_decls_parses p_decl_yield(3) p_verses_yield del: expect_None)+

lemma parse_file_complete: "parse_file (y_file ds) = Some ds"
  using p_defs_yield [of ds "length (y_file ds) + 1" "[]"]
  by (simp add: parse_file_def list_all_iff p_def_yield)

section \<open>The parser and the grammar\<close>


end
