(* ===== verification/Parser.thy ===== *)
theory Parser imports Grammar Compile begin

text \<open>
  The actions of cmd/goxdr/parse.y, run on a parse tree from left to right and bottom-up, the
  order in which the generated parser reduces: names that are declared twice, the symbol
  table, and the symbols of the file. Then a whole run of the compiler: files are lexed and parsed one
  after the other into the same tables, and code is emitted only if nothing failed.
  Comments are left out. yacc's value of an empty any_qual still holds the bound of whatever was
  on the stack, which nothing reads for a scalar; here it is empty.
\<close>

section \<open>State\<close>

text \<open>
  What the actions change: newsymbols of the lexer, and SymbolMap, Symbols and Failed of the output; errors and
  warnings are lists of what is printed, without the position.
\<close>

datatype parse_error = Redefined_name string | Duplicate_default | Bad_number string

datatype warning = No_tag_value | Comma_after_last | Bare_unsigned | Leading_underscore string

record ast_proc =
  ap_id :: idval
  ap_val :: u32
  ap_arg :: "idval list"
  ap_res :: idval

record ast_vers =
  av_id :: idval
  av_val :: u32
  av_procs :: "ast_proc list"

record ast_program =
  ag_id :: idval
  ag_val :: u32
  ag_vers :: "ast_vers list"

datatype ast_def = A_sym ast_sym | A_program ast_program

fun def_sym :: "ast_def \<Rightarrow> ast_sym" where
  "def_sym (A_sym s) = s"
| "def_sym (A_program p) = S_program (ag_id p)"

record parse_out =
  po_newsymbols :: "string set"
  po_SymbolMap :: symmap
  po_Symbols :: "ast_def list"
  po_errors :: "parse_error list"
  po_warnings :: "warning list"

text \<open>The action of union_case_spec_list may index out of range.\<close>

datatype parse_panic = Arms_index

type_synonym 'a act = "parse_out \<Rightarrow> parse_panic + ('a \<times> parse_out)"

definition ret :: "'a \<Rightarrow> 'a act" where
  "ret x = (\<lambda>s. Inr (x, s))"

definition seq :: "'a act \<Rightarrow> ('a \<Rightarrow> 'b act) \<Rightarrow> 'b act" where
  "seq m f = (\<lambda>s. bindE (m s) (\<lambda>(x, s1). f x s1))"

lemma seq_cong [fundef_cong]: "m s = m' s \<Longrightarrow> (\<And>x s1. m' s = Inr (x, s1) \<Longrightarrow> f x s1 = g x s1) \<Longrightarrow> s = s' \<Longrightarrow>
    seq m f s = seq m' g s'"
  by (cases "m' s") (auto simp: seq_def)

fun acts :: "('a \<Rightarrow> 'b act) \<Rightarrow> 'a list \<Rightarrow> 'b list act" where
  "acts f [] = ret []"
| "acts f (x # xs) = seq (f x) (\<lambda>y. seq (acts f xs) (\<lambda>ys. ret (y # ys)))"

lemma acts_cong [fundef_cong]: "xs = ys \<Longrightarrow> (\<And>x. x \<in> set ys \<Longrightarrow> f x = g x) \<Longrightarrow> acts f xs = acts g ys"
  by (induction xs arbitrary: ys) (auto simp: seq_def)

definition yy_error :: "parse_error \<Rightarrow> unit act" where
  "yy_error e = (\<lambda>s. Inr ((), s\<lparr>po_errors := po_errors s @ [e]\<rparr>))"

definition yy_warn :: "warning \<Rightarrow> unit act" where
  "yy_warn w = (\<lambda>s. Inr ((), s\<lparr>po_warnings := po_warnings s @ [w]\<rparr>))"

section \<open>Names and values\<close>

definition check_dup :: "string \<Rightarrow> unit act" where
  "check_dup i = (\<lambda>s.
     if i \<in> po_newsymbols s then yy_error (Redefined_name i) s
     else Inr ((), s\<lparr>po_newsymbols := insert i (po_newsymbols s)\<rparr>))"

definition warn_underscore :: "idval \<Rightarrow> unit act" where
  "warn_underscore i = (if xid i \<noteq> [] \<and> hd (xid i) = CHR ''_'' then yy_warn (Leading_underscore (xid i)) else ret ())"

definition a_newid :: "string \<Rightarrow> idval act" where
  "a_newid i = seq (check_dup i) (\<lambda>_. seq (warn_underscore (setglobal i)) (\<lambda>_. ret (setglobal i)))"

definition a_id :: "string \<Rightarrow> idval act" where
  "a_id i = seq (warn_underscore (setglobal i)) (\<lambda>_. ret (setglobal i))"

definition qid :: "string \<Rightarrow> idval" where
  "qid i =
     (if i = ''TRUE'' then (setglobal i)\<lparr>goid := ''true''\<rparr>
      else if i = ''FALSE'' then (setglobal i)\<lparr>goid := ''false''\<rparr> else setglobal i)"

fun value_of :: "cvalue \<Rightarrow> idval" where
  "value_of (Val_qid i) = qid i"
| "value_of (Val_num n) = setglobal n"

fun a_type :: "ctype \<Rightarrow> idval act" where
  "a_type Ty_int = ret (setlocal ''int32'')"
| "a_type Ty_bool = ret (setlocal ''bool'')"
| "a_type Ty_unsigned_int = ret (setlocal ''uint32'')"
| "a_type Ty_unsigned = seq (yy_warn Bare_unsigned) (\<lambda>_. ret (setlocal ''uint32''))"
| "a_type Ty_hyper = ret (setlocal ''int64'')"
| "a_type Ty_unsigned_hyper = ret (setlocal ''uint64'')"
| "a_type Ty_float = ret (setlocal ''float32'')"
| "a_type Ty_double = ret (setlocal ''float64'')"
| "a_type Ty_quadruple = ret (setlocal ''float128'')"
| "a_type (Ty_qid i) = ret (qid i)"

text \<open>vec_qual and array_qual: the qualifier and the bound.\<close>

fun len_of :: "cvalue option \<Rightarrow> idval" where
  "len_of None = setlocal []"
| "len_of (Some v) = value_of v"

fun aqual_of :: "aqual \<Rightarrow> qual_t \<times> idval" where
  "aqual_of (Q_vec l) = (VEC, len_of l)"
| "aqual_of (Q_array v) = (ARRAY, value_of v)"

fun qual_of :: "aqual option \<Rightarrow> qual_t \<times> idval" where
  "qual_of None = (SCALAR, setlocal [])"
| "qual_of (Some q) = aqual_of q"

text \<open>strconv.ParseUint returns the largest number when the number is too large, 0 on other errors.\<close>

definition a_number :: "string \<Rightarrow> u32 act" where
  "a_number n =
     (case ParseUint n of
        Some k \<Rightarrow> ret (of_nat k)
      | None \<Rightarrow> seq (yy_error (Bad_number n)) (\<lambda>_.
          ret (case base_prefix n of (base, t) \<Rightarrow> if parse_digits base 0 t = None then 0 else 0xFFFFFFFF)))"

section \<open>Enums\<close>

definition set_symbol :: "idval \<Rightarrow> ast_sym \<Rightarrow> unit act" where
  "set_symbol i x = (\<lambda>s. Inr ((), s\<lparr>po_SymbolMap := (xid i, x) # po_SymbolMap s\<rparr>))"

fun a_tag :: "ctag \<Rightarrow> (idval \<times> idval) act" where
  "a_tag (Tag_value i v) =
     seq (a_newid i) (\<lambda>t. seq (set_symbol t (S_const t (value_of v))) (\<lambda>_. ret (t, value_of v)))"
| "a_tag (Tag_iota i) = seq (a_newid i) (\<lambda>t. seq (yy_warn No_tag_value) (\<lambda>_. ret (t, setlocal ''iota'')))"

fun a_enum :: "cenum \<Rightarrow> (idval \<times> idval) list act" where
  "a_enum (Enum_body t ts comma) =
     seq (acts a_tag (t # ts)) (\<lambda>tags. seq (if comma then yy_warn Comma_after_last else ret ()) (\<lambda>_. ret tags))"

section \<open>Declarations\<close>

fun case_of :: "ccase \<Rightarrow> idval" where
  "case_of (Case v) = value_of v"
| "case_of Default = setlocal []"

text \<open>union_case_list: the cases, and whether one of them is the default.\<close>

definition add_case :: "idval list \<times> bool \<Rightarrow> idval \<Rightarrow> (idval list \<times> bool) act" where
  "add_case = (\<lambda>(cases, dflt) c.
     if xid c \<noteq> [] then ret (cases @ [c], dflt)
     else if \<not> dflt then ret (cases, True)
     else seq (yy_error Duplicate_default) (\<lambda>_. ret (cases, dflt)))"

fun more_cases :: "idval list \<times> bool \<Rightarrow> idval list \<Rightarrow> (idval list \<times> bool) act" where
  "more_cases acc [] = ret acc"
| "more_cases acc (c # cs) = seq (add_case acc c) (\<lambda>acc1. more_cases acc1 cs)"

definition a_cases :: "idval \<Rightarrow> idval list \<Rightarrow> (idval list \<times> bool) act" where
  "a_cases c cs = more_cases (if xid c = [] then ([], True) else ([c], False)) cs"

text \<open>
  union_case_spec_list, over the arms as they are reduced; an error of add_case_spec is reported.
\<close>

definition a_add_arm :: "arms \<Rightarrow> ast_field \<Rightarrow> arms act" where
  "a_add_arm a f =
     (case add_case_spec a f of
        Index_panic \<Rightarrow> (\<lambda>s. Inl Arms_index)
      | Arms fs dflt e \<Rightarrow> if e = 0 then ret (Arms fs dflt 0)
                        else seq (yy_error Duplicate_default) (\<lambda>_. ret (Arms fs dflt 0)))"

fun add_arms :: "arms \<Rightarrow> ast_field act list \<Rightarrow> arms act" where
  "add_arms a [] = ret a"
| "add_arms a (m # ms) = seq m (\<lambda>f. seq (a_add_arm a f) (\<lambda>a1. add_arms a1 ms))"

definition a_arms :: "ast_field act \<Rightarrow> ast_field act list \<Rightarrow> arms act" where
  "a_arms m ms = seq m (\<lambda>f. add_arms (Arms [f] (af_default f) 0) ms)"

definition mk_union :: "idval \<Rightarrow> idval \<Rightarrow> idval \<Rightarrow> arms \<Rightarrow> ast_sym" where
  "mk_union i t ti a =
     (case a of Arms fs dflt e \<Rightarrow> S_union i t ti fs dflt | Index_panic \<Rightarrow> S_union i t ti [] False)"

definition void_decl :: ast_decl where
  "void_decl = Decl (setlocal []) SCALAR (setlocal []) (setlocal ''void'') None"

fun a_decl :: "cdecl \<Rightarrow> ast_decl act"
and a_spec :: "cspec \<Rightarrow> (idval \<times> ast_sym option) act"
and a_union :: "cunion \<Rightarrow> (idval \<Rightarrow> ast_sym) act"
and a_arm :: "carm \<Rightarrow> ast_field act" where
  "a_decl (Dec sp i q) =
     seq (a_spec sp) (\<lambda>(t, inl). seq (a_id i) (\<lambda>n. ret (Decl n (fst (qual_of q)) (snd (qual_of q)) t inl)))"
| "a_decl (Dec_ptr sp i) =
     seq (a_spec sp) (\<lambda>(t, inl). seq (a_id i) (\<lambda>n. ret (Decl n PTR (setlocal []) t inl)))"
| "a_decl (Dec_opaque i q) =
     seq (a_id i) (\<lambda>n. ret (Decl n (fst (aqual_of q)) (snd (aqual_of q)) (setlocal ''byte'') None))"
| "a_decl (Dec_string i l) =
     seq (a_id i) (\<lambda>n. ret (Decl n SCALAR (len_of l) (setlocal ''string'') None))"
| "a_spec (Spec_type t) = seq (a_type t) (\<lambda>i. ret (i, None))"
| "a_spec (Spec_enum e) = seq (a_enum e) (\<lambda>tags. ret (setlocal [], Some (S_enum (setlocal []) tags)))"
| "a_spec (Spec_struct d ds) =
     seq (acts a_decl (d # ds)) (\<lambda>decls. ret (setlocal [], Some (S_struct (setlocal []) decls)))"
| "a_spec (Spec_union u) = seq (a_union u) (\<lambda>mk. ret (setlocal [], Some (mk (setlocal []))))"
| "a_union (Switch t i a as) =
     seq (a_type t) (\<lambda>tt. seq (a_id i) (\<lambda>ti.
     seq (a_arms (a_arm a) (map a_arm as)) (\<lambda>arms. ret (\<lambda>n. mk_union n tt ti arms))))"
| "a_arm (Arm c cs d) =
     seq (a_cases (case_of c) (map case_of cs)) (\<lambda>(cases, dflt).
     seq (case d of None \<Rightarrow> ret void_decl | Some d \<Rightarrow> a_decl d) (\<lambda>decl. ret (Field cases decl dflt)))"

section \<open>Programs\<close>

definition a_result :: "ctype option \<Rightarrow> idval act" where
  "a_result res =
     (case res of None \<Rightarrow> ret \<lparr>xid = ''void'', goid = ''XdrVoid''\<rparr> | Some t \<Rightarrow> a_type t)"

fun a_proc :: "cproc \<Rightarrow> ast_proc act" where
  "a_proc (Procedure res i args n) =
     seq (a_result res) (\<lambda>r. seq (a_newid i) (\<lambda>p. seq (acts a_type args) (\<lambda>as.
     seq (a_number n) (\<lambda>k. ret \<lparr>ap_id = p, ap_val = k, ap_arg = as, ap_res = r\<rparr>))))"

fun a_vers :: "cvers \<Rightarrow> ast_vers act" where
  "a_vers (Version i p ps n) =
     seq (a_newid i) (\<lambda>v. seq (acts a_proc (p # ps)) (\<lambda>procs.
     seq (a_number n) (\<lambda>k. ret \<lparr>av_id = v, av_val = k, av_procs = procs\<rparr>)))"

section \<open>Definitions and files\<close>

text \<open>The action of file: a definition that is not a namespace is recorded.\<close>

definition add_symbol :: "ast_def \<Rightarrow> unit act" where
  "add_symbol d = (\<lambda>s. Inr ((),
     s\<lparr>po_Symbols := po_Symbols s @ [d],
       po_SymbolMap := (xid (sym_id (def_sym d)), def_sym d) # po_SymbolMap s\<rparr>))"

fun a_def :: "cdef \<Rightarrow> ast_def option act" where
  "a_def (C_const i v) = seq (a_newid i) (\<lambda>n. ret (Some (A_sym (S_const n (value_of v)))))"
| "a_def (C_enum i e) = seq (a_newid i) (\<lambda>n. seq (a_enum e) (\<lambda>tags. ret (Some (A_sym (S_enum n tags)))))"
| "a_def (C_struct i d ds) =
     seq (a_newid i) (\<lambda>n. seq (acts a_decl (d # ds)) (\<lambda>decls. ret (Some (A_sym (S_struct n decls)))))"
| "a_def (C_union i u) = seq (a_newid i) (\<lambda>n. seq (a_union u) (\<lambda>mk. ret (Some (A_sym (mk n)))))"
| "a_def (C_typedef d) = seq (a_decl d) (\<lambda>decl. ret (Some (A_sym (S_typedef decl))))"
| "a_def (C_program i v vs n) =
     seq (a_newid i) (\<lambda>p. seq (acts a_vers (v # vs)) (\<lambda>vers. seq (a_number n) (\<lambda>k.
     ret (Some (A_program \<lparr>ag_id = p, ag_val = k, ag_vers = vers\<rparr>)))))"
| "a_def (C_namespace i ds) =
     seq (acts (\<lambda>d. seq (a_def d) (\<lambda>x. case x of None \<Rightarrow> ret () | Some y \<Rightarrow> add_symbol y)) ds) (\<lambda>_. ret None)"

definition a_item :: "cdef \<Rightarrow> unit act" where
  "a_item d = seq (a_def d) (\<lambda>x. case x of None \<Rightarrow> ret () | Some y \<Rightarrow> add_symbol y)"

definition a_file :: "cdef list \<Rightarrow> unit act" where
  "a_file ds = seq (acts a_item ds) (\<lambda>_. ret ())"

section \<open>The compiler\<close>

text \<open>
  The tokens of an input, up to the end or to what Lex takes for the end; None when the lexer does
  not return.
\<close>

partial_function (option) lex_all :: "lexer \<Rightarrow> (lex_panic + (token list \<times> lexer)) option" where
  "lex_all l =
     (case Lex l of
        None \<Rightarrow> None
      | Some (Inl p) \<Rightarrow> Some (Inl p)
      | Some (Inr (None, l1)) \<Rightarrow> Some (Inr ([], l1))
      | Some (Inr (Some (ty, t), l1)) \<Rightarrow>
        Option.bind (lex_all l1) (\<lambda>r. Some (bindE r (\<lambda>(ts, l2). Inr (t # ts, l2)))))"

text \<open>
  parseXDR, with the result of reading the file. What the actions did before a
  syntax error is left out, since Failed then ends the run, and the file is lexed to its
  end before it is parsed.
\<close>

record rpc_syms =
  sy_SymbolMap :: symmap
  sy_Symbols :: "ast_def list"
  sy_Failed :: bool

datatype goxdr_panic = Lex_panic lex_panic | Parse_panic parse_panic

definition start :: "rpc_syms \<Rightarrow> parse_out" where
  "start out = \<lparr>po_newsymbols = {}, po_SymbolMap = sy_SymbolMap out, po_Symbols = sy_Symbols out,
     po_errors = [], po_warnings = []\<rparr>"

definition yyParse :: "terminal list \<Rightarrow> rpc_syms \<Rightarrow> parse_panic + rpc_syms" where
  "yyParse ts out =
     (case parse_file ts of
        None \<Rightarrow> Inr (out\<lparr>sy_Failed := True\<rparr>)
      | Some ds \<Rightarrow> bindE (a_file ds (start out)) (\<lambda>(_, s).
          Inr \<lparr>sy_SymbolMap = po_SymbolMap s, sy_Symbols = po_Symbols s,
               sy_Failed = (sy_Failed out \<or> po_errors s \<noteq> [])\<rparr>))"

definition parseXDR :: "string option \<Rightarrow> rpc_syms \<Rightarrow> (goxdr_panic + rpc_syms) option" where
  "parseXDR src out =
     (case src of
        None \<Rightarrow> Some (Inr (out\<lparr>sy_Failed := True\<rparr>))
      | Some input \<Rightarrow> map_option (\<lambda>r.
          case r of
            Inl p \<Rightarrow> Inl (Lex_panic p)
          | Inr (ts, l) \<Rightarrow>
            (case yyParse (map terminal_of ts) out of
               Inl p \<Rightarrow> Inl (Parse_panic p)
             | Inr out1 \<Rightarrow> Inr (out1\<lparr>sy_Failed := sy_Failed out1 \<or> lx_Failed l\<rparr>)))
          (lex_all (NewLexer input)))"

text \<open>
  The part of main that decides what is written: the files one after the other, and the
  types of the emitted package, or none when a file failed.
\<close>

fun parse_files :: "string option list \<Rightarrow> rpc_syms \<Rightarrow> (goxdr_panic + rpc_syms) option" where
  "parse_files [] out = Some (Inr out)"
| "parse_files (f # fs) out =
     bindO (parseXDR f out) (\<lambda>r. case r of Inl p \<Rightarrow> Some (Inl p) | Inr out1 \<Rightarrow> parse_files fs out1)"

definition no_syms :: rpc_syms where
  "no_syms = \<lparr>sy_SymbolMap = [], sy_Symbols = [], sy_Failed = False\<rparr>"

datatype outcome = Exit_1 | Crash goxdr_panic | Emitted "ast_sym list"

definition goxdr_main :: "bool \<Rightarrow> string option list \<Rightarrow> outcome option" where
  "goxdr_main scoped files =
     map_option (\<lambda>r. case r of
         Inl p \<Rightarrow> Crash p
       | Inr out \<Rightarrow> if sy_Failed out then Exit_1
                   else Emitted (emitAll scoped (map def_sym (sy_Symbols out), sy_SymbolMap out)))
       (parse_files files no_syms)"

declare lex_all.simps [code]

end
