(* ===== verification/ParserCorrect.thy ===== *)
theory ParserCorrect imports GrammarCorrect Parser LexerCorrect CompileCorrect begin

text \<open>
  What the actions of the grammar do: when they report an error or crash, and what the
  symbol table holds after a file without errors. Then the front end as a whole: the
  text of a file, lexed, parsed and compiled.
\<close>

section \<open>Effects\<close>

definition fresh :: "string list \<Rightarrow> string set \<Rightarrow> bool" where
  "fresh ns N \<longleftrightarrow> distinct ns \<and> set ns \<inter> N = {}"

lemma fresh_append: "fresh (ns @ ms) N \<longleftrightarrow> fresh ns N \<and> fresh ms (N \<union> set ns)"
  by (auto simp: fresh_def)

lemma fresh_simps [simp]: "fresh [] N" "fresh [i] N \<longleftrightarrow> i \<notin> N"
  by (simp_all add: fresh_def)

text \<open>
  An action that declares the names \<open>ns\<close>, reports no error and does not crash exactly if
  \<open>ok\<close> and the names are new, has a result with \<open>V\<close>, and, without errors, adds symbols
  and entries of the symbol table with \<open>Q\<close>.
\<close>

definition outcome_ok :: "string list \<Rightarrow> bool \<Rightarrow> ('a \<Rightarrow> bool) \<Rightarrow> ('a \<Rightarrow> ast_def list \<Rightarrow> symmap \<Rightarrow> bool) \<Rightarrow>
    parse_out \<Rightarrow> 'a \<Rightarrow> parse_out \<Rightarrow> bool" where
  "outcome_ok ns ok V Q s x s' \<longleftrightarrow>
     V x \<and> po_newsymbols s' = po_newsymbols s \<union> set ns \<and>
     (\<exists>e. po_errors s' = po_errors s @ e \<and> (e = [] \<longleftrightarrow> ok \<and> fresh ns (po_newsymbols s)) \<and>
       (e = [] \<longrightarrow> (\<exists>zs t. po_Symbols s' = po_Symbols s @ zs \<and> po_SymbolMap s' = t @ po_SymbolMap s \<and> Q x zs t)))"

definition effect :: "string list \<Rightarrow> bool \<Rightarrow> ('a \<Rightarrow> bool) \<Rightarrow> ('a \<Rightarrow> ast_def list \<Rightarrow> symmap \<Rightarrow> bool) \<Rightarrow>
    'a act \<Rightarrow> bool" where
  "effect ns ok V Q m \<longleftrightarrow>
     (\<forall>s. case m s of Inl p \<Rightarrow> \<not> ok | Inr (x, s') \<Rightarrow> outcome_ok ns ok V Q s x s')"

lemma outcome_seq:
  assumes "outcome_ok ns ok V Q s x s1" "outcome_ok ns' ok' V' Q' s1 y s2"
    and R: "\<And>zs t ws u. ok \<Longrightarrow> ok' \<Longrightarrow> Q x zs t \<Longrightarrow> Q' y ws u \<Longrightarrow> R y (zs @ ws) (u @ t)"
  shows "outcome_ok (ns @ ns') (ok \<and> ok') V' R s y s2"
proof -
  from assms(1) obtain e where e: "po_newsymbols s1 = po_newsymbols s \<union> set ns" "po_errors s1 = po_errors s @ e"
    "e = [] \<longleftrightarrow> ok \<and> fresh ns (po_newsymbols s)"
    "e = [] \<longrightarrow> (\<exists>zs t. po_Symbols s1 = po_Symbols s @ zs \<and> po_SymbolMap s1 = t @ po_SymbolMap s \<and> Q x zs t)"
    unfolding outcome_ok_def by blast
  from assms(2) obtain e' where e': "V' y" "po_newsymbols s2 = po_newsymbols s1 \<union> set ns'"
    "po_errors s2 = po_errors s1 @ e'" "e' = [] \<longleftrightarrow> ok' \<and> fresh ns' (po_newsymbols s1)"
    "e' = [] \<longrightarrow> (\<exists>zs t. po_Symbols s2 = po_Symbols s1 @ zs \<and> po_SymbolMap s2 = t @ po_SymbolMap s1 \<and> Q' y zs t)"
    unfolding outcome_ok_def by blast
  have "\<exists>zs t. po_Symbols s2 = po_Symbols s @ zs \<and> po_SymbolMap s2 = t @ po_SymbolMap s \<and> R y zs t"
    if n: "e @ e' = []"
  proof -
    from n e(4) obtain zs t where
      1: "po_Symbols s1 = po_Symbols s @ zs" "po_SymbolMap s1 = t @ po_SymbolMap s" "Q x zs t" by auto
    from n e'(5) obtain ws u where
      2: "po_Symbols s2 = po_Symbols s1 @ ws" "po_SymbolMap s2 = u @ po_SymbolMap s1" "Q' y ws u" by auto
    from n e(3) e'(4) have "ok" "ok'" by auto
    from R [OF this 1(3) 2(3)] 1 2 show ?thesis by auto
  qed
  moreover have "e @ e' = [] \<longleftrightarrow> (ok \<and> ok') \<and> fresh (ns @ ns') (po_newsymbols s)"
    using e(1,3) e'(4) by (auto simp: fresh_append)
  ultimately show ?thesis
    unfolding outcome_ok_def using e(1,2) e'(1,2,3) by (intro conjI exI [of _ "e @ e'"]) auto
qed

lemma effect_seq:
  assumes m: "effect ns ok V Q m" and f: "\<And>x. V x \<Longrightarrow> effect ns' ok' V' (Q' x) (f x)"
    and R: "\<And>x y zs t ws u. ok \<Longrightarrow> ok' \<Longrightarrow> V x \<Longrightarrow> Q x zs t \<Longrightarrow> Q' x y ws u \<Longrightarrow> R y (zs @ ws) (u @ t)"
  shows "effect (ns @ ns') (ok \<and> ok') V' R (seq m f)"
  unfolding effect_def
proof
  fix s
  show "case seq m f s of Inl p \<Rightarrow> \<not> (ok \<and> ok') | Inr (x, s') \<Rightarrow> outcome_ok (ns @ ns') (ok \<and> ok') V' R s x s'"
  proof (cases "m s")
    case (Inl p)
    with m [unfolded effect_def, rule_format, of s] show ?thesis by (simp add: seq_def)
  next
    case (Inr xs)
    obtain x s1 where x: "xs = (x, s1)" by (cases xs)
    with Inr m [unfolded effect_def, rule_format, of s] have 1: "outcome_ok ns ok V Q s x s1" by simp
    then have vx: "V x" by (simp add: outcome_ok_def)
    note f [OF vx, unfolded effect_def, rule_format, of s1]
    with Inr x show ?thesis
      by (auto simp: seq_def split: sum.splits prod.splits intro!: outcome_seq [OF 1] R [OF _ _ vx])
  qed
qed

lemma effect_ret: "V x \<Longrightarrow> Q x [] [] \<Longrightarrow> effect [] True V Q (ret x)"
  by (auto simp: effect_def outcome_ok_def ret_def)

text \<open>The result of an action that adds nothing.\<close>

definition plain :: "'a \<Rightarrow> ast_def list \<Rightarrow> symmap \<Rightarrow> bool" where
  "plain x zs t \<longleftrightarrow> zs = [] \<and> t = []"

lemma effect_map:
  assumes "effect ns ok V Q m" and "\<And>x. V x \<Longrightarrow> V' (f x)" and "\<And>x zs t. V x \<Longrightarrow> Q x zs t \<Longrightarrow> R (f x) zs t"
  shows "effect ns ok V' R (seq m (\<lambda>x. ret (f x)))"
proof -
  have "effect (ns @ []) (ok \<and> True) V' R (seq m (\<lambda>x. ret (f x)))"
    by (rule effect_seq [OF assms(1), where Q' = "\<lambda>x y zs t. y = f x \<and> zs = [] \<and> t = []"])
      (use assms(2,3) in \<open>auto intro: effect_ret\<close>)
  then show ?thesis by simp
qed

lemma effect_ignore:
  assumes "effect [] True V plain m" and "\<And>x. V x \<Longrightarrow> effect ns ok V' R (f x)"
  shows "effect ns ok V' R (seq m f)"
proof -
  have "effect ([] @ ns) (True \<and> ok) V' R (seq m f)"
    by (rule effect_seq [OF assms(1), where Q' = "\<lambda>x. R"]) (use assms(2) in \<open>auto simp: plain_def\<close>)
  then show ?thesis by simp
qed

lemma effect_weaken:
  assumes "effect ns ok V Q m" "\<And>x. V x \<Longrightarrow> V' x" "\<And>x zs t. V x \<Longrightarrow> Q x zs t \<Longrightarrow> R x zs t"
  shows "effect ns ok V' R m"
  unfolding effect_def
proof
  fix s
  have "outcome_ok ns ok V' R s x s'" if "outcome_ok ns ok V Q s x s'" for x s'
    using that assms(2,3) unfolding outcome_ok_def by metis
  with assms(1) [unfolded effect_def, rule_format, of s]
  show "case m s of Inl p \<Rightarrow> \<not> ok | Inr (x, s') \<Rightarrow> outcome_ok ns ok V' R s x s'"
    by (auto split: sum.splits)
qed

lemma effect_warn [simp]: "effect [] True (\<lambda>_. True) plain (yy_warn w)"
  by (auto simp: effect_def outcome_ok_def yy_warn_def plain_def)

lemma effect_error: "effect [] False (\<lambda>_. True) Q (yy_error e)"
  by (auto simp: effect_def outcome_ok_def yy_error_def)

lemma effect_acts:
  assumes "\<And>x. x \<in> set xs \<Longrightarrow> effect (n x) (ok x) V Q (f x)"
    and "A [] [] []" and "\<And>y ys zs t ws u. V y \<Longrightarrow> Q y zs t \<Longrightarrow> A ys ws u \<Longrightarrow> A (y # ys) (zs @ ws) (u @ t)"
  shows "effect (concat (map n xs)) (list_all ok xs) (list_all V) A (acts f xs)"
  using assms(1)
proof (induction xs)
  case Nil
  show ?case using assms(2) by (simp add: effect_ret)
next
  case (Cons x xs)
  have "effect (n x @ concat (map n xs)) (ok x \<and> list_all ok xs) (list_all V) A
      (seq (f x) (\<lambda>y. seq (acts f xs) (\<lambda>ys. ret (y # ys))))"
  proof (rule effect_seq [where Q' = "\<lambda>y zs ws u. \<exists>ys. zs = y # ys \<and> A ys ws u"])
    show "effect (n x) (ok x) V Q (f x)" by (rule Cons.prems) simp
    show "effect (concat (map n xs)) (list_all ok xs) (list_all V) (\<lambda>zs ws u. \<exists>ys. zs = y # ys \<and> A ys ws u)
        (seq (acts f xs) (\<lambda>ys. ret (y # ys)))" if "V y" for y
      by (rule effect_map [OF Cons.IH]) (use Cons.prems that in auto)
  qed (use assms(3) in auto)
  then show ?case by simp
qed

section \<open>Names, numbers and enums\<close>

lemma effect_check_dup: "effect [i] True (\<lambda>_. True) plain (check_dup i)"
  by (auto simp: effect_def outcome_ok_def check_dup_def yy_error_def plain_def)

lemma effect_underscore: "effect [] True (\<lambda>_. True) plain (warn_underscore i)"
  by (auto simp: warn_underscore_def plain_def intro: effect_ret)

lemma effect_id: "effect [] True (\<lambda>x. x = setglobal i) plain (a_id i)"
  unfolding a_id_def by (rule effect_map [OF effect_underscore]) (auto simp: plain_def)

lemma effect_newid: "effect [i] True (\<lambda>x. x = setglobal i) plain (a_newid i)"
proof -
  have "effect ([i] @ []) (True \<and> True) (\<lambda>x. x = setglobal i) plain (a_newid i)"
    unfolding a_newid_def
    by (rule effect_seq [OF effect_check_dup, where Q' = "\<lambda>_. plain"])
      (auto simp: plain_def intro!: effect_map [OF effect_underscore])
  then show ?thesis by simp
qed

lemma effect_type: "effect [] True (\<lambda>_. True) plain (a_type t)"
  by (cases t) (auto simp: plain_def intro!: effect_ret effect_map [OF effect_warn])

definition number_ok :: "string \<Rightarrow> bool" where
  "number_ok n \<longleftrightarrow> ParseUint n \<noteq> None"

lemma effect_number: "effect [] (number_ok n) (\<lambda>_. True) plain (a_number n)"
proof (cases "ParseUint n")
  case None
  have "effect [] False (\<lambda>_. True) plain (a_number n)"
    unfolding a_number_def None by (auto intro!: effect_map [OF effect_error])
  with None show ?thesis by (simp add: number_ok_def)
next
  case (Some k)
  have "effect [] True (\<lambda>_. True) plain (a_number n)"
    unfolding a_number_def Some by (simp add: effect_ret plain_def)
  with Some show ?thesis by (simp add: number_ok_def)
qed

definition tags_table :: "(idval \<times> idval) list \<Rightarrow> symmap" where
  "tags_table tags = sym_tags (S_enum (setlocal []) tags)"

lemma tags_table_simps:
  "tags_table [] = []"
  "tags_table ((t, v) # tags) = tags_table tags @ (if goid v = ''iota'' then [] else [(xid t, S_const t v)])"
  by (simp_all add: tags_table_def)

lemma capitalize_iota: "capitalize s \<noteq> ''iota''"
proof
  assume "capitalize s = ''iota''"
  then obtain c r where s: "s = c # r" by (cases s) auto
  have all: "\<forall>x \<in> set [97..122]. char_of (x AND NOT 0x20) \<noteq> CHR ''i''" by code_simp
  show False
  proof (cases "is_lower c")
    case True
    then have "byte_at c \<in> set [97..122]" by (simp add: is_lower_def del: upto_rec_numeral)
    from bspec [OF all this] True \<open>capitalize s = ''iota''\<close> s show False by simp
  next
    case False
    with \<open>capitalize s = ''iota''\<close> s have "c = CHR ''i''" by simp
    with False show False by (simp add: is_lower_def byte_at_def)
  qed
qed

lemma value_not_iota: "goid (value_of v) \<noteq> ''iota''"
  by (cases v) (simp_all add: qid_def setglobal_def capitalize_iota)

fun tag_name :: "ctag \<Rightarrow> string" where
  "tag_name (Tag_value i v) = i"
| "tag_name (Tag_iota i) = i"

fun enum_names :: "cenum \<Rightarrow> string list" where
  "enum_names (Enum_body t ts c) = map tag_name (t # ts)"

lemma effect_set_symbol: "effect [] True (\<lambda>_. True) (\<lambda>x zs t. zs = [] \<and> t = [(xid i, y)]) (set_symbol i y)"
  by (auto simp: effect_def outcome_ok_def set_symbol_def)

lemma effect_tag: "effect [tag_name t] True (\<lambda>_. True) (\<lambda>x zs u. zs = [] \<and> u = tags_table [x]) (a_tag t)"
proof (cases t)
  case (Tag_value i v)
  have "effect ([i] @ []) (True \<and> True) (\<lambda>_. True) (\<lambda>x zs u. zs = [] \<and> u = tags_table [x]) (a_tag t)"
    unfolding Tag_value a_tag.simps
    by (rule effect_seq [OF effect_newid, where Q' = "\<lambda>_ x zs u. zs = [] \<and> u = tags_table [x]"])
      (auto simp: plain_def tags_table_simps value_not_iota intro!: effect_map [OF effect_set_symbol])
  then show ?thesis by (simp add: Tag_value)
next
  case (Tag_iota i)
  have "effect ([i] @ []) (True \<and> True) (\<lambda>_. True) (\<lambda>x zs u. zs = [] \<and> u = tags_table [x]) (a_tag t)"
    unfolding Tag_iota a_tag.simps
    by (rule effect_seq [OF effect_newid, where Q' = "\<lambda>_ x zs u. zs = [] \<and> u = tags_table [x]"])
      (auto simp: plain_def tags_table_simps setlocal_def intro!: effect_map [OF effect_warn])
  then show ?thesis by (simp add: Tag_iota)
qed

lemma effect_enum: "effect (enum_names e) True (\<lambda>_. True) (\<lambda>x zs u. zs = [] \<and> u = tags_table x) (a_enum e)"
proof (cases e)
  case (Enum_body t ts c)
  have "effect (concat (map (\<lambda>t. [tag_name t]) (t # ts))) (list_all (\<lambda>_. True) (t # ts)) (list_all (\<lambda>_. True))
      (\<lambda>x zs u. zs = [] \<and> u = tags_table x) (acts a_tag (t # ts))"
    by (rule effect_acts [OF effect_tag]) (auto simp: tags_table_simps)
  moreover have "concat (map (\<lambda>t. [tag_name t]) us) = map tag_name us" "list_all (\<lambda>_. True) us" for us
    by (induction us) auto
  ultimately have a: "effect (map tag_name (t # ts)) True (list_all (\<lambda>_. True))
      (\<lambda>x zs u. zs = [] \<and> u = tags_table x) (acts a_tag (t # ts))"
    by (simp only:)
  have c: "effect [] True (\<lambda>_. True) plain (if c then yy_warn Comma_after_last else ret ())"
    by (auto simp: plain_def intro: effect_ret)
  have "effect (map tag_name (t # ts) @ []) (True \<and> True) (\<lambda>_. True) (\<lambda>x zs u. zs = [] \<and> u = tags_table x)
      (a_enum (Enum_body t ts c))"
    unfolding a_enum.simps
    by (rule effect_seq [OF a, where Q' = "\<lambda>x y zs u. y = x \<and> zs = [] \<and> u = []"], rule effect_map [OF c])
      (auto simp: plain_def)
  then show ?thesis by (simp add: Enum_body)
qed

section \<open>Declarations\<close>

definition is_dflt :: "ccase \<Rightarrow> bool" where
  "is_dflt c \<longleftrightarrow> xid (case_of c) = []"

lemma effect_add_case:
  "effect [] (\<not> (snd acc \<and> xid c = [])) (\<lambda>x. snd x = (snd acc \<or> xid c = [])) plain (add_case acc c)"
  by (cases acc) (auto simp: add_case_def plain_def intro!: effect_ret effect_map [OF effect_error])

definition one_dflt :: "bool \<Rightarrow> idval list \<Rightarrow> bool" where
  "one_dflt d cs \<longleftrightarrow> length (filter (\<lambda>c. xid c = []) cs) + (if d then 1 else 0) \<le> 1"

lemma effect_more_cases:
  "effect [] (one_dflt (snd acc) cs) (\<lambda>x. snd x = (snd acc \<or> list_ex (\<lambda>c. xid c = []) cs)) plain (more_cases acc cs)"
proof (induction cs arbitrary: acc)
  case Nil
  show ?case by (simp add: one_dflt_def effect_ret plain_def)
next
  case (Cons c cs)
  have o: "one_dflt (snd acc) (c # cs) \<longleftrightarrow>
      \<not> (snd acc \<and> xid c = []) \<and> one_dflt (snd acc \<or> xid c = []) cs"
    by (auto simp: one_dflt_def)
  have "effect ([] @ []) (\<not> (snd acc \<and> xid c = []) \<and> one_dflt (snd acc \<or> xid c = []) cs)
     (\<lambda>x. snd x = (snd acc \<or> list_ex (\<lambda>c. xid c = []) (c # cs))) plain (more_cases acc (c # cs))"
    unfolding more_cases.simps
  proof (rule effect_seq [OF effect_add_case, where Q' = "\<lambda>_. plain"])
    fix x :: "idval list \<times> bool" assume x: "snd x = (snd acc \<or> xid c = [])"
    show "effect [] (one_dflt (snd acc \<or> xid c = []) cs)
       (\<lambda>x. snd x = (snd acc \<or> list_ex (\<lambda>c. xid c = []) (c # cs))) plain (more_cases x cs)"
      using Cons.IH [of x] x by (auto elim: effect_weaken)
  qed (auto simp: plain_def)
  with o show ?case by simp
qed

lemma effect_cases:
  "effect [] (one_dflt False (c # cs)) (\<lambda>x. snd x = list_ex (\<lambda>c. xid c = []) (c # cs)) plain (a_cases c cs)"
proof -
  have o: "one_dflt False (c # cs) = one_dflt (xid c = []) cs" by (simp add: one_dflt_def)
  show ?thesis
    using effect_more_cases [of "if xid c = [] then ([], True) else ([c], False)" cs]
    unfolding a_cases_def o by (auto elim: effect_weaken)
qed

text \<open>An arm after the default arm is a crash, or an error if it is one, too.\<close>

fun arms_ok :: "bool \<Rightarrow> (bool \<times> bool) list \<Rightarrow> bool" where
  "arms_ok d [] = True"
| "arms_ok d ((ok, d') # as) = (\<not> d \<and> ok \<and> arms_ok d' as)"

definition field_table :: "ast_field \<Rightarrow> ast_def list \<Rightarrow> symmap \<Rightarrow> bool" where
  "field_table f zs t \<longleftrightarrow> zs = [] \<and> t = field_tags f"

fun arms_table :: "arms \<Rightarrow> symmap" where
  "arms_table (Arms fs d e) = concat (rev (map field_tags fs))"
| "arms_table Index_panic = []"

fun plain_arms :: "bool \<Rightarrow> arms \<Rightarrow> bool" where
  "plain_arms d (Arms fs d' e) \<longleftrightarrow> e = 0 \<and> d' = d"
| "plain_arms d Index_panic \<longleftrightarrow> False"

lemma effect_add_arm:
  assumes "plain_arms d a"
  shows "effect [] (\<not> d) (plain_arms (d \<or> af_default f))
    (\<lambda>x zs t. zs = [] \<and> t = [] \<and> arms_table x = field_tags f @ arms_table a) (a_add_arm a f)"
proof -
  from assms obtain fs where a: "a = Arms fs d 0" by (cases a) auto
  show ?thesis
  proof (cases d)
    case False
    then show ?thesis by (simp add: a a_add_arm_def add_case_spec_def effect_ret)
  next
    case d: True
    show ?thesis
    proof (cases "af_default f")
      case True
      with d show ?thesis
        by (auto simp: a a_add_arm_def add_case_spec_def intro!: effect_map [OF effect_error [where Q = "\<lambda>_ _ _. False"]])
    next
      case False
      with d show ?thesis by (simp add: a a_add_arm_def add_case_spec_def effect_def)
    qed
  qed
qed

lemma effect_add_arms:
  assumes "list_all2 (\<lambda>(n, ok, d) m. effect n ok (\<lambda>f. af_default f = d) field_table m) as ms" "plain_arms d a"
  shows "effect (concat (map fst as)) (arms_ok d (map snd as)) (\<lambda>x. \<exists>d. plain_arms d x)
    (\<lambda>x zs t. zs = [] \<and> arms_table x = t @ arms_table a) (add_arms a ms)"
  using assms
proof (induction as ms arbitrary: d a rule: list_all2_induct)
  case Nil
  then show ?case by (auto intro!: effect_ret)
next
  case (Cons x as m ms)
  obtain n ok d' where x: "x = (n, ok, d')" by (cases x)
  with Cons.hyps(1) have m: "effect n ok (\<lambda>f. af_default f = d') field_table m" by simp
  let ?R = "\<lambda>x zs t. zs = [] \<and> arms_table x = t @ arms_table a"
  have step: "effect ([] @ concat (map fst as)) (\<not> d \<and> arms_ok (d \<or> d') (map snd as)) (\<lambda>x. \<exists>d. plain_arms d x)
      (\<lambda>y zs t. zs = [] \<and> arms_table y = t @ field_tags f @ arms_table a)
      (seq (a_add_arm a f) (\<lambda>a1. add_arms a1 ms))" if f: "af_default f = d'" for f
    by (rule effect_seq [OF effect_add_arm [OF Cons.prems], where Q' = "\<lambda>a1 y ws u. ws = [] \<and> arms_table y = u @ arms_table a1"])
      (use f Cons.IH in auto)
  have "effect (n @ [] @ concat (map fst as)) (ok \<and> \<not> d \<and> arms_ok (d \<or> d') (map snd as)) (\<lambda>x. \<exists>d. plain_arms d x)
      ?R (add_arms a (m # ms))"
    unfolding add_arms.simps
    by (rule effect_seq [OF m step]) (auto simp: field_table_def)
  moreover have "(ok \<and> \<not> d \<and> arms_ok (d \<or> d') (map snd as)) = arms_ok d (map snd (x # as))"
    by (auto simp: x)
  ultimately show ?case by (simp add: x)
qed

text \<open>The names a construct declares, in order, and whether its unions and numbers are right.\<close>

fun decl_names :: "cdecl \<Rightarrow> string list"
and spec_names :: "cspec \<Rightarrow> string list"
and union_names :: "cunion \<Rightarrow> string list"
and arm_names :: "carm \<Rightarrow> string list" where
  "decl_names (Dec sp i q) = spec_names sp"
| "decl_names (Dec_ptr sp i) = spec_names sp"
| "decl_names (Dec_opaque i q) = []"
| "decl_names (Dec_string i l) = []"
| "spec_names (Spec_type t) = []"
| "spec_names (Spec_enum e) = enum_names e"
| "spec_names (Spec_struct d ds) = concat (map decl_names (d # ds))"
| "spec_names (Spec_union u) = union_names u"
| "union_names (Switch t i a as) = concat (map arm_names (a # as))"
| "arm_names (Arm c cs d) = (case d of None \<Rightarrow> [] | Some d \<Rightarrow> decl_names d)"

fun arm_dflt :: "carm \<Rightarrow> bool" where
  "arm_dflt (Arm c cs d) = list_ex (\<lambda>c. xid c = []) (map case_of (c # cs))"

fun decl_passes :: "cdecl \<Rightarrow> bool"
and spec_passes :: "cspec \<Rightarrow> bool"
and union_passes :: "cunion \<Rightarrow> bool"
and arm_passes :: "carm \<Rightarrow> bool" where
  "decl_passes (Dec sp i q) = spec_passes sp"
| "decl_passes (Dec_ptr sp i) = spec_passes sp"
| "decl_passes (Dec_opaque i q) = True"
| "decl_passes (Dec_string i l) = True"
| "spec_passes (Spec_type t) = True"
| "spec_passes (Spec_enum e) = True"
| "spec_passes (Spec_struct d ds) = list_all decl_passes (d # ds)"
| "spec_passes (Spec_union u) = union_passes u"
| "union_passes (Switch t i a as) = arms_ok False (map (\<lambda>a. (arm_passes a, arm_dflt a)) (a # as))"
| "arm_passes (Arm c cs d) = (one_dflt False (map case_of (c # cs)) \<and> (case d of None \<Rightarrow> True | Some d \<Rightarrow> decl_passes d))"

definition decl_effect :: "cdecl \<Rightarrow> bool" where
  "decl_effect d \<longleftrightarrow>
     effect (decl_names d) (decl_passes d) (\<lambda>_. True) (\<lambda>x zs t. zs = [] \<and> t = decl_tags x) (a_decl d)"

definition spec_effect :: "cspec \<Rightarrow> bool" where
  "spec_effect sp \<longleftrightarrow>
     effect (spec_names sp) (spec_passes sp) (\<lambda>_. True)
       (\<lambda>x zs t. zs = [] \<and> t = (case snd x of None \<Rightarrow> [] | Some y \<Rightarrow> sym_tags y)) (a_spec sp)"

definition union_effect :: "cunion \<Rightarrow> bool" where
  "union_effect u \<longleftrightarrow>
     effect (union_names u) (union_passes u) (\<lambda>_. True) (\<lambda>mk zs t. zs = [] \<and> (\<forall>n. t = sym_tags (mk n))) (a_union u)"

definition arm_effect :: "carm \<Rightarrow> bool" where
  "arm_effect a \<longleftrightarrow> effect (arm_names a) (arm_passes a) (\<lambda>f. af_default f = arm_dflt a) field_table (a_arm a)"

lemma effect_spec_id:
  assumes "spec_effect sp" and "\<And>t inl n. decl_tags (g t inl n) = (case inl of None \<Rightarrow> [] | Some y \<Rightarrow> sym_tags y)"
  shows "effect (spec_names sp) (spec_passes sp) (\<lambda>_. True) (\<lambda>x zs t. zs = [] \<and> t = decl_tags x)
    (seq (a_spec sp) (\<lambda>(t, inl). seq (a_id i) (\<lambda>n. ret (g t inl n))))"
proof -
  have "effect (spec_names sp @ []) (spec_passes sp \<and> True) (\<lambda>_. True) (\<lambda>x zs t. zs = [] \<and> t = decl_tags x)
      (seq (a_spec sp) (\<lambda>(t, inl). seq (a_id i) (\<lambda>n. ret (g t inl n))))"
    by (rule effect_seq [OF assms(1) [unfolded spec_effect_def],
          where Q' = "\<lambda>x y zs t. zs = [] \<and> t = [] \<and> (\<exists>n. y = g (fst x) (snd x) n)"])
      (auto simp: plain_def assms(2) intro!: effect_map [OF effect_id])
  then show ?thesis by simp
qed

lemma struct_effect:
  assumes "\<And>d. d \<in> set ds \<Longrightarrow> decl_effect d"
  shows "effect (concat (map decl_names ds)) (list_all decl_passes ds) (\<lambda>_. True)
    (\<lambda>ys zs t. zs = [] \<and> t = concat (rev (map decl_tags ys))) (acts a_decl ds)"
proof -
  have "effect (concat (map decl_names ds)) (list_all decl_passes ds) (list_all (\<lambda>_. True))
    (\<lambda>ys zs t. zs = [] \<and> t = concat (rev (map decl_tags ys))) (acts a_decl ds)"
    by (rule effect_acts [OF assms [unfolded decl_effect_def]]) auto
  then show ?thesis by (rule effect_weaken) auto
qed

lemma arms_effect:
  assumes "\<And>x. x \<in> set (a # as) \<Longrightarrow> arm_effect x"
  shows "effect (concat (map arm_names (a # as))) (arms_ok False (map (\<lambda>a. (arm_passes a, arm_dflt a)) (a # as)))
    (\<lambda>x. \<exists>d. plain_arms d x) (\<lambda>x zs t. zs = [] \<and> t = arms_table x) (a_arms (a_arm a) (map a_arm as))"
proof -
  let ?as = "map (\<lambda>a. (arm_names a, arm_passes a, arm_dflt a)) as"
  have "list_all2 (\<lambda>(n, ok, d) m. effect n ok (\<lambda>f. af_default f = d) field_table m) ?as (map a_arm as)"
    using assms by (auto simp: list_all2_map1 list_all2_map2 list_all2_same arm_effect_def)
  note rest = effect_add_arms [OF this]
  have s: "map snd ?as = map (\<lambda>a. (arm_passes a, arm_dflt a)) as" "map fst ?as = map arm_names as" by simp_all
  have "effect (arm_names a @ concat (map fst ?as)) (arm_passes a \<and> arms_ok (arm_dflt a) (map snd ?as))
      (\<lambda>x. \<exists>d. plain_arms d x) (\<lambda>x zs t. zs = [] \<and> t = arms_table x) (a_arms (a_arm a) (map a_arm as))"
    unfolding a_arms_def
  proof (rule effect_seq)
    show "effect (arm_names a) (arm_passes a) (\<lambda>f. af_default f = arm_dflt a) field_table (a_arm a)"
      using assms by (simp add: arm_effect_def)
    show "effect (concat (map fst ?as)) (arms_ok (arm_dflt a) (map snd ?as)) (\<lambda>x. \<exists>d. plain_arms d x)
        (\<lambda>x zs t. zs = [] \<and> arms_table x = t @ arms_table (Arms [f] (af_default f) 0))
        (add_arms (Arms [f] (af_default f) 0) (map a_arm as))" if "af_default f = arm_dflt a" for f
      using rest [of "arm_dflt a" "Arms [f] (af_default f) 0"] that by simp
  qed (auto simp: field_table_def)
  then show ?thesis unfolding s by simp
qed

lemma mk_union_tags: "plain_arms d a \<Longrightarrow> sym_tags (mk_union n t ti a) = arms_table a"
  by (cases a) (simp_all add: mk_union_def)

lemma effects:
  "decl_effect d" "spec_effect sp" "union_effect u" "arm_effect a"
proof (induction d and sp and u and a rule: cdecl.induct cspec.induct cunion.induct carm.induct)
  case (Dec sp i q)
  then show ?case
    unfolding decl_effect_def a_decl.simps decl_names.simps decl_passes.simps by (rule effect_spec_id) simp
next
  case (Dec_ptr sp i)
  then show ?case
    unfolding decl_effect_def a_decl.simps decl_names.simps decl_passes.simps by (rule effect_spec_id) simp
next
  case (Dec_opaque i q)
  show ?case unfolding decl_effect_def a_decl.simps decl_names.simps decl_passes.simps
    by (rule effect_map [OF effect_id]) (auto simp: plain_def)
next
  case (Dec_string i l)
  show ?case unfolding decl_effect_def a_decl.simps decl_names.simps decl_passes.simps
    by (rule effect_map [OF effect_id]) (auto simp: plain_def)
next
  case (Spec_type t)
  show ?case unfolding spec_effect_def a_spec.simps spec_names.simps spec_passes.simps
    by (rule effect_map [OF effect_type]) (auto simp: plain_def)
next
  case (Spec_enum e)
  show ?case unfolding spec_effect_def a_spec.simps spec_names.simps spec_passes.simps
    by (rule effect_map [OF effect_enum]) (auto simp: tags_table_def)
next
  case (Spec_struct d ds)
  show ?case unfolding spec_effect_def a_spec.simps spec_names.simps spec_passes.simps
    by (rule effect_map [OF struct_effect]) (use Spec_struct in auto)
next
  case (Spec_union u)
  show ?case unfolding spec_effect_def a_spec.simps spec_names.simps spec_passes.simps
    by (rule effect_map [OF Spec_union [unfolded union_effect_def]]) auto
next
  case (Switch t i a as)
  have "arm_effect x" if "x \<in> set (a # as)" for x using that Switch by auto
  note arms = arms_effect [OF this]
  show ?case unfolding union_effect_def a_union.simps union_names.simps union_passes.simps
    by (rule effect_ignore [OF effect_type], rule effect_ignore [OF effect_weaken [OF effect_id]],
        simp, simp, rule effect_map [OF arms]) (auto simp: mk_union_tags)
next
  case (Arm c cs d)
  let ?d = "case d of None \<Rightarrow> ret void_decl | Some d \<Rightarrow> a_decl d"
  have d: "effect (arm_names (Arm c cs d)) (case d of None \<Rightarrow> True | Some d \<Rightarrow> decl_passes d) (\<lambda>_. True)
      (\<lambda>x zs t. zs = [] \<and> t = decl_tags x) ?d"
    using Arm by (cases d) (auto simp: decl_effect_def void_decl_def intro!: effect_ret)
  have "effect ([] @ arm_names (Arm c cs d)) (arm_passes (Arm c cs d))
     (\<lambda>f. af_default f = arm_dflt (Arm c cs d)) field_table (a_arm (Arm c cs d))"
    unfolding a_arm.simps arm_passes.simps list.map
  proof (rule effect_seq [OF effect_cases, where Q' = "\<lambda>_. field_table"])
    fix x :: "idval list \<times> bool"
    assume "snd x = list_ex (\<lambda>c. xid c = []) (case_of c # map case_of cs)"
    then obtain l where x: "x = (l, arm_dflt (Arm c cs d))" by (cases x) simp
    show "effect (arm_names (Arm c cs d)) (case d of None \<Rightarrow> True | Some d \<Rightarrow> decl_passes d)
        (\<lambda>f. af_default f = arm_dflt (Arm c cs d)) field_table
        ((\<lambda>(cases, dflt). seq ?d (\<lambda>decl. ret (Field cases decl dflt))) x)"
      unfolding x prod.case by (rule effect_map [OF d]) (auto simp: field_table_def)
  qed (auto simp: plain_def field_table_def)
  then show ?case by (simp add: arm_effect_def)
qed

lemmas effect_decl = effects(1) [unfolded decl_effect_def]
lemmas effect_union = effects(3) [unfolded union_effect_def]

section \<open>Definitions\<close>

fun proc_name :: "cproc \<Rightarrow> string" where "proc_name (Procedure res i as n) = i"
fun proc_passes :: "cproc \<Rightarrow> bool" where "proc_passes (Procedure res i as n) = number_ok n"
fun vers_names :: "cvers \<Rightarrow> string list" where "vers_names (Version i p ps n) = i # map proc_name (p # ps)"
fun vers_passes :: "cvers \<Rightarrow> bool" where "vers_passes (Version i p ps n) = (list_all proc_passes (p # ps) \<and> number_ok n)"

fun def_names :: "cdef \<Rightarrow> string list" where
  "def_names (C_const i v) = [i]"
| "def_names (C_enum i e) = i # enum_names e"
| "def_names (C_struct i d ds) = i # concat (map decl_names (d # ds))"
| "def_names (C_union i u) = i # union_names u"
| "def_names (C_typedef d) = decl_names d"
| "def_names (C_program i v vs n) = i # concat (map vers_names (v # vs))"
| "def_names (C_namespace i ds) = concat (map def_names ds)"

fun def_passes :: "cdef \<Rightarrow> bool" where
  "def_passes (C_const i v) = True"
| "def_passes (C_enum i e) = True"
| "def_passes (C_struct i d ds) = list_all decl_passes (d # ds)"
| "def_passes (C_union i u) = union_passes u"
| "def_passes (C_typedef d) = decl_passes d"
| "def_passes (C_program i v vs n) = (list_all vers_passes (v # vs) \<and> number_ok n)"
| "def_passes (C_namespace i ds) = list_all def_passes ds"

definition file_names :: "cdef list \<Rightarrow> string list" where
  "file_names ds = concat (map def_names ds)"

lemma effect_plain_acts:
  assumes "\<And>x. x \<in> set xs \<Longrightarrow> effect (n x) (ok x) (\<lambda>_. True) plain (f x)"
  shows "effect (concat (map n xs)) (list_all ok xs) (\<lambda>_. True) plain (acts f xs)"
proof -
  have "effect (concat (map n xs)) (list_all ok xs) (list_all (\<lambda>_. True)) plain (acts f xs)"
    by (rule effect_acts [OF assms]) (auto simp: plain_def)
  then show ?thesis by (rule effect_weaken) auto
qed

lemma effect_types: "effect [] True (\<lambda>_. True) plain (acts a_type as)"
proof -
  have "effect (concat (map (\<lambda>_. []) as)) (list_all (\<lambda>_. True) as) (\<lambda>_. True) plain (acts a_type as)"
    by (rule effect_plain_acts [OF effect_type])
  moreover have "concat (map (\<lambda>_. []) as) = ([] :: string list)" "list_all (\<lambda>_. True) as"
    by (induction as) auto
  ultimately show ?thesis by simp
qed

lemma effect_result: "effect [] True (\<lambda>_. True) plain (a_result res)"
  by (cases res) (auto simp: a_result_def plain_def intro!: effect_ret effect_type)

lemma effect_named:
  assumes "effect ns ok (\<lambda>_. True) Q (f (setglobal i))" and "\<And>x zs t. Q x zs t \<Longrightarrow> R x zs t"
  shows "effect (i # ns) ok (\<lambda>_. True) R (seq (a_newid i) f)"
proof -
  have "effect ([i] @ ns) (True \<and> ok) (\<lambda>_. True) R (seq (a_newid i) f)"
    by (rule effect_seq [OF effect_newid, where Q' = "\<lambda>_. Q"]) (use assms in \<open>auto simp: plain_def\<close>)
  then show ?thesis by simp
qed

lemma effect_then_number:
  assumes "effect ns ok (\<lambda>_. True) plain m" and "\<And>x k. R (g x k) [] []"
  shows "effect ns (ok \<and> number_ok n) (\<lambda>_. True) R (seq m (\<lambda>x. seq (a_number n) (\<lambda>k. ret (g x k))))"
proof -
  have "effect (ns @ []) (ok \<and> number_ok n) (\<lambda>_. True) R (seq m (\<lambda>x. seq (a_number n) (\<lambda>k. ret (g x k))))"
    by (rule effect_seq [OF assms(1), where Q' = "\<lambda>_. R"], rule effect_map [OF effect_number])
      (use assms(2) in \<open>auto simp: plain_def\<close>)
  then show ?thesis by simp
qed

lemma effect_proc: "effect [proc_name p] (proc_passes p) (\<lambda>_. True) plain (a_proc p)"
proof (cases p)
  case (Procedure res i as n)
  have "effect [] (True \<and> number_ok n) (\<lambda>_. True) plain
      (seq (acts a_type as) (\<lambda>as. seq (a_number n) (\<lambda>k. ret \<lparr>ap_id = q, ap_val = k, ap_arg = as, ap_res = r\<rparr>)))" for q r
    by (rule effect_then_number [OF effect_types]) (simp add: plain_def)
  then show ?thesis
    unfolding Procedure a_proc.simps proc_name.simps proc_passes.simps
    by (intro effect_ignore [OF effect_result] effect_named) simp_all
qed

lemma effect_vers: "effect (vers_names v) (vers_passes v) (\<lambda>_. True) plain (a_vers v)"
proof (cases v)
  case (Version i p ps n)
  have "effect (concat (map (\<lambda>p. [proc_name p]) (p # ps))) (list_all proc_passes (p # ps)) (\<lambda>_. True) plain
      (acts a_proc (p # ps))"
    by (rule effect_plain_acts [OF effect_proc])
  moreover have "concat (map (\<lambda>p. [proc_name p]) qs) = map proc_name qs" for qs by (induction qs) auto
  ultimately have "effect (map proc_name (p # ps)) (list_all proc_passes (p # ps)) (\<lambda>_. True) plain (acts a_proc (p # ps))"
    by (simp only:)
  then show ?thesis
    unfolding Version a_vers.simps vers_names.simps vers_passes.simps
    by (intro effect_named effect_then_number) (simp_all add: plain_def)
qed

text \<open>The entries of the symbol table for the symbols of a file.\<close>

definition file_table :: "ast_def list \<Rightarrow> symmap" where
  "file_table zs = concat (rev (map (\<lambda>s. (xid (sym_id s), s) # sym_tags s) (map def_sym zs)))"

lemma symbol_table_file: "symbol_table (map def_sym zs) = file_table zs"
proof -
  have "fold (\<lambda>s S. (xid (sym_id s), s) # sym_tags s @ S) ss T =
      concat (rev (map (\<lambda>s. (xid (sym_id s), s) # sym_tags s) ss)) @ T" for ss T
    by (induction ss arbitrary: T) auto
  then show ?thesis by (simp add: symbol_table_def file_table_def)
qed

lemma file_table_append: "file_table (xs @ ys) = file_table ys @ file_table xs"
  by (simp add: file_table_def)

definition def_table :: "ast_def option \<Rightarrow> ast_def list \<Rightarrow> symmap \<Rightarrow> bool" where
  "def_table x zs t \<longleftrightarrow>
     (case x of None \<Rightarrow> t = file_table zs | Some y \<Rightarrow> zs = [] \<and> t = sym_tags (def_sym y))"

definition items :: "'a \<Rightarrow> ast_def list \<Rightarrow> symmap \<Rightarrow> bool" where
  "items x zs t \<longleftrightarrow> t = file_table zs"

lemma effect_add_symbol:
  "effect [] True (\<lambda>_. True) (\<lambda>x zs t. zs = [y] \<and> t = [(xid (sym_id (def_sym y)), def_sym y)]) (add_symbol y)"
  by (auto simp: effect_def outcome_ok_def add_symbol_def)

lemma effect_record:
  assumes "effect ns ok (\<lambda>_. True) def_table m"
  shows "effect ns ok (\<lambda>_. True) items (seq m (\<lambda>x. case x of None \<Rightarrow> ret () | Some y \<Rightarrow> add_symbol y))"
proof -
  have "effect (ns @ []) (ok \<and> True) (\<lambda>_. True) items (seq m (\<lambda>x. case x of None \<Rightarrow> ret () | Some y \<Rightarrow> add_symbol y))"
  proof (rule effect_seq [OF assms, where Q' = "\<lambda>x _ zs t. case x of None \<Rightarrow> zs = [] \<and> t = []
        | Some y \<Rightarrow> zs = [y] \<and> t = [(xid (sym_id (def_sym y)), def_sym y)]"])
    show "effect [] True (\<lambda>_. True) (\<lambda>_ zs t. case x of None \<Rightarrow> zs = [] \<and> t = []
        | Some y \<Rightarrow> zs = [y] \<and> t = [(xid (sym_id (def_sym y)), def_sym y)])
      (case x of None \<Rightarrow> ret () | Some y \<Rightarrow> add_symbol y)" for x
      by (cases x) (simp_all add: effect_ret effect_add_symbol)
  qed (auto simp: def_table_def items_def file_table_def split: option.splits)
  then show ?thesis by simp
qed

lemma effect_items:
  assumes "\<And>x. x \<in> set ds \<Longrightarrow> effect (def_names x) (def_passes x) (\<lambda>_. True) def_table (a_def x)"
  shows "effect (file_names ds) (list_all def_passes ds) (\<lambda>_. True) items (acts a_item ds)"
proof -
  have "effect (concat (map def_names ds)) (list_all def_passes ds) (list_all (\<lambda>_. True)) items (acts a_item ds)"
    unfolding a_item_def
    by (rule effect_acts [OF effect_record [OF assms]]) (auto simp: items_def file_table_append, simp add: file_table_def)
  then show ?thesis unfolding file_names_def by (rule effect_weaken) auto
qed

lemma effect_definition: "effect (def_names d) (def_passes d) (\<lambda>_. True) def_table (a_def d)"
proof (induction d)
  case (C_const i v)
  have "effect [] True (\<lambda>_. True) def_table (ret (Some (A_sym (S_const (setglobal i) (value_of v)))))"
    by (simp add: effect_ret def_table_def)
  then show ?case by (auto intro: effect_named)
next
  case (C_enum i e)
  show ?case unfolding a_def.simps def_names.simps def_passes.simps
    by (rule effect_named [OF effect_map [OF effect_enum, where R = def_table]])
      (auto simp: def_table_def tags_table_def)
next
  case (C_struct i d ds)
  show ?case unfolding a_def.simps def_names.simps def_passes.simps
    by (rule effect_named [OF effect_map [OF struct_effect, where R = def_table]])
      (auto simp: def_table_def effects)
next
  case (C_union i u)
  show ?case unfolding a_def.simps def_names.simps def_passes.simps
    by (rule effect_named [OF effect_map [OF effect_union, where R = def_table]]) (auto simp: def_table_def)
next
  case (C_typedef d)
  show ?case unfolding a_def.simps def_names.simps def_passes.simps
    by (rule effect_map [OF effect_decl]) (auto simp: def_table_def)
next
  case (C_program i v vs n)
  show ?case unfolding a_def.simps def_names.simps def_passes.simps
    by (rule effect_named [OF effect_then_number [OF effect_plain_acts [OF effect_vers], where R = def_table]])
      (auto simp: def_table_def)
next
  case (C_namespace i ds)
  show ?case unfolding a_def.simps def_names.simps def_passes.simps a_item_def [symmetric] file_names_def [symmetric]
    by (rule effect_map [OF effect_items [OF C_namespace]]) (auto simp: def_table_def items_def)
qed

lemma effect_file: "effect (file_names ds) (list_all def_passes ds) (\<lambda>_. True) items (a_file ds)"
  unfolding a_file_def by (rule effect_map [OF effect_items [OF effect_definition]]) (auto simp: items_def)

section \<open>Errors and the symbol table\<close>

lemma file_outcome:
  assumes "a_file ds (start out) = Inr (u, s)"
  shows "outcome_ok (file_names ds) (list_all def_passes ds) (\<lambda>_. True) items (start out) u s"
  using effect_file [unfolded effect_def, rule_format, of ds "start out"] assms by simp


lemma file_symbols:
  assumes "a_file ds (start no_syms) = Inr ((), s)" "po_errors s = []"
  shows "po_SymbolMap s = symbol_table (map def_sym (po_Symbols s))"
  using file_outcome [OF assms(1)] assms(2)
  by (auto simp: outcome_ok_def start_def no_syms_def items_def symbol_table_file)

text \<open>An arm after the default arm crashes the parser where it means to accept the union.\<close>

lemma default_arm_first:
  "a_file [C_union ''u'' (Switch Ty_int ''t'' (Arm Default [] None) [Arm (Case (Val_num ''1'')) [] None])]
     (start no_syms) = Inl Arms_index"
  by code_simp

section \<open>From text to symbols\<close>

text \<open>How a terminal is written, and which terminals can be.\<close>

definition keyword_of :: "token_type \<Rightarrow> string" where
  "keyword_of k = (case find (\<lambda>x. snd x = k) keyword_map of Some x \<Rightarrow> fst x | None \<Rightarrow> [])"

fun spelling :: "terminal \<Rightarrow> token_type \<times> string" where
  "spelling (Id s) = (T_ID, s)"
| "spelling (Num s) = (T_NUM, s)"
| "spelling (P c) = (T_char (rune c), [c])"
| "spelling (K k) = (k, keyword_of k)"

fun writable :: "terminal \<Rightarrow> bool" where
  "writable (Id s) \<longleftrightarrow> word_type s = T_ID \<and> word_shape s []"
| "writable (Num s) \<longleftrightarrow> number_shape s []"
| "writable (P c) \<longleftrightarrow> c \<in> set punctuation"
| "writable (K k) \<longleftrightarrow> k \<in> snd ` set keyword_map"

lemma keywords_written:
  "list_all (\<lambda>k. word_type (keyword_of k) = k \<and> word_shape (keyword_of k) []) (map snd keyword_map)"
  by code_simp

lemma writable_printable:
  assumes "writable x"
  shows "printable (spelling x)"
proof (cases x)
  case (K k)
  with assms keywords_written have "word_type (keyword_of k) = k" "word_shape (keyword_of k) []"
    by (auto simp: list_all_iff)
  then have "token_shape k (keyword_of k) []" by (simp add: token_shape_def)
  then show ?thesis by (simp add: K printable_def)
qed (use assms in \<open>auto simp: printable_def token_shape_def\<close>)

lemma terminal_of_spelling:
  assumes "(tk_Type t, tk_Value t) = spelling x" "writable x"
  shows "terminal_of t = x"
proof (cases x)
  case (K k)
  have "list_all (\<lambda>k. k \<noteq> T_ID \<and> k \<noteq> T_NUM \<and> (\<forall>c. k \<noteq> T_char c)) (map snd keyword_map)"
    by (simp add: keyword_map_def)
  with K assms have "k \<noteq> T_ID" "k \<noteq> T_NUM" "\<forall>c. k \<noteq> T_char c" by (auto simp: list_all_iff)
  with K assms(1) show ?thesis by (cases k) (simp_all add: terminal_of_def)
qed (use assms in \<open>auto simp: terminal_of_def rune_def\<close>)

lemma lexes_lex_all:
  "lexes l xs l' \<Longrightarrow> \<exists>ts. lex_all l = Some (Inr (ts, l')) \<and> map (\<lambda>t. (tk_Type t, tk_Value t)) ts = xs"
proof (induction rule: lexes.induct)
  case (lexes_end l l')
  then show ?case by (simp add: lex_all.simps [of l])
next
  case (lexes_more l ty t l1 ts l')
  then have "ty = tk_Type t" by (auto simp: Lex_def bindE_eq_Inr)
  with lexes_more show ?case by (auto simp: lex_all.simps [of l])
qed

lemma lex_all_text:
  assumes "list_all writable xs" "length ws = length xs" "list_all (\<lambda>w. spaces w \<and> w \<noteq> []) ws"
  shows "\<exists>ts l. lex_all (NewLexer (printed (zip (map spelling xs) ws))) = Some (Inr (ts, l)) \<and>
    map terminal_of ts = xs \<and> \<not> lx_Failed l"
proof -
  let ?ts = "zip (map spelling xs) ws"
  have f: "map fst ?ts = map spelling xs" using assms(2) by simp
  have "list_all (\<lambda>(x, w). printable x \<and> spaces w \<and> w \<noteq> []) ?ts"
  proof -
    have "printable x" "spaces w \<and> w \<noteq> []" if "(x, w) \<in> set ?ts" for x w
    proof -
      from set_zip_leftD [OF that] obtain y where "y \<in> set xs" "x = spelling y" by auto
      with assms(1) show "printable x" by (simp add: list_all_iff writable_printable)
      from set_zip_rightD [OF that] assms(3) show "spaces w \<and> w \<noteq> []" by (simp add: list_all_iff)
    qed
    then show ?thesis by (simp only: list_all_iff) blast
  qed
  from lexes_printed [OF _ _ this, of "NewLexer (printed ?ts)" "[]"] obtain l where
    l: "lexes (NewLexer (printed ?ts)) (map spelling xs) l" "\<not> lx_Failed l"
    unfolding f by (auto simp: NewLexer_def spaces_def)
  from lexes_lex_all [OF l(1)] obtain ts where
    ts: "lex_all (NewLexer (printed ?ts)) = Some (Inr (ts, l))" "map (\<lambda>t. (tk_Type t, tk_Value t)) ts = map spelling xs"
    by blast
  have "map terminal_of ts = xs"
    using ts(2) assms(1)
  proof (induction xs arbitrary: ts)
    case (Cons x xs)
    then show ?case by (cases ts) (auto intro: terminal_of_spelling)
  qed simp
  with l(2) ts(1) show ?thesis by blast
qed

lemma parse_text:
  assumes "list_all writable (y_file ds)" "length ws = length (y_file ds)" "list_all (\<lambda>w. spaces w \<and> w \<noteq> []) ws"
  shows "parseXDR (Some (printed (zip (map spelling (y_file ds)) ws))) out =
    Some (case a_file ds (start out) of
        Inl p \<Rightarrow> Inl (Parse_panic p)
      | Inr (u, s) \<Rightarrow> Inr \<lparr>sy_SymbolMap = po_SymbolMap s, sy_Symbols = po_Symbols s,
          sy_Failed = (sy_Failed out \<or> po_errors s \<noteq> [])\<rparr>)"
proof -
  from lex_all_text [OF assms] obtain ts l where
    l: "lex_all (NewLexer (printed (zip (map spelling (y_file ds)) ws))) = Some (Inr (ts, l))"
      "map terminal_of ts = y_file ds" "\<not> lx_Failed l" by blast
  have "parse_file (y_file ds) = Some ds" by (rule parse_file_complete)
  with l show ?thesis
    by (cases "a_file ds (start out)") (auto simp: parseXDR_def yyParse_def)
qed

end
