(* ===== verification/ParserRpc.thy ===== *)
theory ParserRpc imports ParserCorrect begin

text \<open>
  The schema of RPC messages through the whole front end: the parse tree of rpc/rpc_msg.x, and what
  the lexer, the parser and its actions make of the text of its tokens.
\<close>

definition rpc_msg_tree :: "cdef list" where
  "rpc_msg_tree =
   [C_enum ''auth_flavor'' (Enum_body (Tag_value ''AUTH_NONE'' (Val_num ''0''))
     [Tag_value ''AUTH_SYS'' (Val_num ''1''),
      Tag_value ''AUTH_SHORT'' (Val_num ''2''),
      Tag_value ''AUTH_DH'' (Val_num ''3''),
      Tag_value ''RPCSEC_GSS'' (Val_num ''6'')] False),
    C_struct ''opaque_auth'' (Dec (Spec_type (Ty_qid ''auth_flavor'')) ''flavor'' None)
     [Dec_opaque ''body'' (Q_vec (Some (Val_num ''400'')))],
    C_enum ''msg_type'' (Enum_body (Tag_value ''CALL'' (Val_num ''0''))
     [Tag_value ''REPLY'' (Val_num ''1'')] False),
    C_enum ''reply_stat'' (Enum_body (Tag_value ''MSG_ACCEPTED'' (Val_num ''0''))
     [Tag_value ''MSG_DENIED'' (Val_num ''1'')] False),
    C_enum ''accept_stat'' (Enum_body (Tag_value ''SUCCESS'' (Val_num ''0''))
     [Tag_value ''PROG_UNAVAIL'' (Val_num ''1''),
      Tag_value ''PROG_MISMATCH'' (Val_num ''2''),
      Tag_value ''PROC_UNAVAIL'' (Val_num ''3''),
      Tag_value ''GARBAGE_ARGS'' (Val_num ''4''),
      Tag_value ''SYSTEM_ERR'' (Val_num ''5'')] False),
    C_enum ''reject_stat'' (Enum_body (Tag_value ''RPC_MISMATCH'' (Val_num ''0''))
     [Tag_value ''AUTH_ERROR'' (Val_num ''1'')] False),
    C_enum ''auth_stat'' (Enum_body (Tag_value ''AUTH_OK'' (Val_num ''0''))
     [Tag_value ''AUTH_BADCRED'' (Val_num ''1''),
      Tag_value ''AUTH_REJECTEDCRED'' (Val_num ''2''),
      Tag_value ''AUTH_BADVERF'' (Val_num ''3''),
      Tag_value ''AUTH_REJECTEDVERF'' (Val_num ''4''),
      Tag_value ''AUTH_TOOWEAK'' (Val_num ''5''),
      Tag_value ''AUTH_INVALIDRESP'' (Val_num ''6''),
      Tag_value ''AUTH_FAILED'' (Val_num ''7''),
      Tag_value ''AUTH_KERB_GENERIC'' (Val_num ''8''),
      Tag_value ''AUTH_TIMEEXPIRE'' (Val_num ''9''),
      Tag_value ''AUTH_TKT_FILE'' (Val_num ''10''),
      Tag_value ''AUTH_DECODE'' (Val_num ''11''),
      Tag_value ''AUTH_NET_ADDR'' (Val_num ''12''),
      Tag_value ''RPCSEC_GSS_CREDPROBLEM'' (Val_num ''13''),
      Tag_value ''RPCSEC_GSS_CTXPROBLEM'' (Val_num ''14'')] False),
    C_struct ''call_body'' (Dec (Spec_type Ty_unsigned_int) ''rpcvers'' None)
     [Dec (Spec_type Ty_unsigned_int) ''prog'' None,
      Dec (Spec_type Ty_unsigned_int) ''vers'' None,
      Dec (Spec_type Ty_unsigned_int) ''proc'' None,
      Dec (Spec_type (Ty_qid ''opaque_auth'')) ''cred'' None,
      Dec (Spec_type (Ty_qid ''opaque_auth'')) ''verf'' None],
    C_struct ''accepted_reply'' (Dec (Spec_type (Ty_qid ''opaque_auth'')) ''verf'' None)
     [Dec (Spec_union (Switch (Ty_qid ''accept_stat'') ''stat''
        (Arm (Case (Val_qid ''SUCCESS'')) [] (Some (Dec_opaque ''results'' (Q_array (Val_num ''0'')))))
        [Arm (Case (Val_qid ''PROG_MISMATCH'')) [] (Some (Dec (Spec_struct (Dec (Spec_type Ty_unsigned_int) ''low'' None)
            [Dec (Spec_type Ty_unsigned_int) ''high'' None]) ''mismatch_info'' None)),
         Arm Default [] None])) ''reply_data'' None],
    C_union ''rejected_reply'' (Switch (Ty_qid ''reject_stat'') ''stat''
      (Arm (Case (Val_qid ''RPC_MISMATCH'')) [] (Some (Dec (Spec_struct (Dec (Spec_type Ty_unsigned_int) ''low'' None)
          [Dec (Spec_type Ty_unsigned_int) ''high'' None]) ''mismatch_info'' None)))
      [Arm (Case (Val_qid ''AUTH_ERROR'')) [] (Some (Dec (Spec_type (Ty_qid ''auth_stat'')) ''rj_why'' None))]),
    C_union ''reply_body'' (Switch (Ty_qid ''reply_stat'') ''stat''
      (Arm (Case (Val_qid ''MSG_ACCEPTED'')) [] (Some (Dec (Spec_type (Ty_qid ''accepted_reply'')) ''areply'' None)))
      [Arm (Case (Val_qid ''MSG_DENIED'')) [] (Some (Dec (Spec_type (Ty_qid ''rejected_reply'')) ''rreply'' None))]),
    C_struct ''rpc_msg'' (Dec (Spec_type Ty_unsigned_int) ''xid'' None)
     [Dec (Spec_union (Switch (Ty_qid ''msg_type'') ''mtype''
        (Arm (Case (Val_qid ''CALL'')) [] (Some (Dec (Spec_type (Ty_qid ''call_body'')) ''cbody'' None)))
        [Arm (Case (Val_qid ''REPLY'')) [] (Some (Dec (Spec_type (Ty_qid ''reply_body'')) ''rbody'' None))])) ''body'' None]]"

text \<open>The tokens of the file, each followed by a space.\<close>

definition rpc_msg_text :: string where
  "rpc_msg_text =
     printed (zip (map spelling (y_file rpc_msg_tree)) (replicate (length (y_file rpc_msg_tree)) '' ''))"

fun plain_terminal :: "terminal \<Rightarrow> bool" where
  "plain_terminal (Id s) \<longleftrightarrow> word_type s = T_ID \<and> word_shape s []"
| "plain_terminal (Num s) \<longleftrightarrow> s \<noteq> [] \<and> runes isDigit s"
| "plain_terminal (P c) \<longleftrightarrow> c \<in> set punctuation"
| "plain_terminal (K k) \<longleftrightarrow> k \<in> set (map snd keyword_map)"

lemma plain_writable: "plain_terminal x \<Longrightarrow> writable x"
proof (cases x)
  case (Num s)
  assume "plain_terminal x"
  with Num have "s \<noteq> []" "runes isDigit s" by simp_all
  then have "number_shape s []"
    unfolding number_shape_def by (intro exI [of _ "[]"] exI [of _ s]) (simp add: stops_def)
  with Num show ?thesis by simp
qed auto

lemma rpc_tree_writable: "list_all writable (y_file rpc_msg_tree)"
proof -
  have "list_all plain_terminal (y_file rpc_msg_tree)" by code_simp
  then show ?thesis by (auto simp: list_all_iff intro: plain_writable)
qed

lemma rpc_tree_actions:
  "(case a_file rpc_msg_tree (start no_syms) of
      Inl p \<Rightarrow> False
    | Inr (u, s) \<Rightarrow> map def_sym (po_Symbols s) = rpc_msg_x \<and> po_errors s = [] \<and> po_warnings s = [])"
  by code_simp

text \<open>
  C36. The front end reads what the grammar writes: the text of any parse tree, with
  identifiers and numbers the lexer knows and blanks after every token, is lexed without an error,
  parsed to that tree, and leaves exactly what the actions make of the tree.
\<close>

theorem parseXDR_text:
  assumes "list_all writable (y_file ds)" "length ws = length (y_file ds)" "list_all (\<lambda>w. spaces w \<and> w \<noteq> []) ws"
  shows "parseXDR (Some (printed (zip (map spelling (y_file ds)) ws))) out =
    Some (case a_file ds (start out) of
        Inl p \<Rightarrow> Inl (Parse_panic p)
      | Inr (u, s) \<Rightarrow> Inr \<lparr>sy_SymbolMap = po_SymbolMap s, sy_Symbols = po_Symbols s,
          sy_Failed = (sy_Failed out \<or> po_errors s \<noteq> [])\<rparr>)"
  using assms by (rule parse_text)

lemma space_blanks: "list_all (\<lambda>w. spaces w \<and> w \<noteq> []) (replicate n '' '')"
  by (simp add: list_all_iff spaces_def)

theorem parseXDR_text_witness:
  "list_all writable (y_file rpc_msg_tree) \<and>
   (case parseXDR (Some rpc_msg_text) no_syms of
      Some (Inr out) \<Rightarrow> map def_sym (sy_Symbols out) = rpc_msg_x \<and> \<not> sy_Failed out
    | _ \<Rightarrow> False)"
  using parseXDR_text [OF rpc_tree_writable length_replicate space_blanks, of no_syms] rpc_tree_actions rpc_tree_writable
  by (auto simp: rpc_msg_text_def no_syms_def split: sum.splits)


end
