(* ===== verification/DriverLife.thy ===== *)
theory DriverLife imports Driver begin

text \<open>
  The driver_life of a Driver (rpc/driver.go): the goroutines NewDriverTuned starts, which receive,
  send and watch the context, the main loop that Go runs, and the handlers of messages. What
  each does between two points where it can wait is one action; any interleaving of
  actions is possible. A message is a number. Both queues have room for at least one message.
\<close>

section \<open>Peers and contexts\<close>

text \<open>
  The value a context has for ctxKey: a peerCtx, or a srvCtx with its peer and the unlocker
  of a call. A nil context is None; \<open>Ctx_other\<close> is a context derived in another way.
\<close>

datatype ctx_panic = NilDeref

datatype peerCtxVal = PeerCtx string | SrvCtx string nat

datatype ctx = Background | Ctx_other ctx | WithValue ctx peerCtxVal

fun ctx_Value :: "ctx \<Rightarrow> peerCtxVal option" where
  "ctx_Value Background = None"
| "ctx_Value (Ctx_other c) = ctx_Value c"
| "ctx_Value (WithValue c v) = Some v"

fun val_GetPeer :: "peerCtxVal \<Rightarrow> string" where
  "val_GetPeer (PeerCtx p) = p"
| "val_GetPeer (SrvCtx p i) = p"

fun val_WithPeer :: "peerCtxVal \<Rightarrow> string \<Rightarrow> peerCtxVal" where
  "val_WithPeer (PeerCtx p) peer = PeerCtx peer"
| "val_WithPeer (SrvCtx p i) peer = SrvCtx peer i"

definition GetPeer :: "ctx option \<Rightarrow> string" where
  "GetPeer c =
     (case c of None \<Rightarrow> [] | Some x \<Rightarrow> (case ctx_Value x of Some v \<Rightarrow> val_GetPeer v | None \<Rightarrow> []))"

definition WithPeer :: "ctx option \<Rightarrow> string \<Rightarrow> ctx_panic + ctx" where
  "WithPeer c peer =
     (case c of
        None \<Rightarrow> Inl NilDeref
      | Some x \<Rightarrow> Inr
         (case ctx_Value x of
            Some v \<Rightarrow> if val_GetPeer v = peer then x else WithValue x (val_WithPeer v peer)
          | None \<Rightarrow> WithValue x (PeerCtx peer)))"

definition Detach :: "ctx option \<Rightarrow> lock_sys \<Rightarrow> ctx_panic + lock_sys" where
  "Detach c s =
     (case c of
        None \<Rightarrow> Inl NilDeref
      | Some x \<Rightarrow> Inr (case ctx_Value x of Some (SrvCtx p i) \<Rightarrow> run_unlock i s | _ \<Rightarrow> s))"

text \<open>The context doMsg sets for the service of a call.\<close>

definition call_ctx :: "ctx \<Rightarrow> string \<Rightarrow> nat \<Rightarrow> ctx" where
  "call_ctx driver_ctx peer i = WithValue driver_ctx (SrvCtx peer i)"

section \<open>Goroutines\<close>

datatype recv_state = R_receiving | R_holding nat | R_exited
datatype main_state = M_idle | M_running | M_exited
datatype life_panic = CloseOfClosed | GoTwice

record regime =
  RecvQueueLen :: nat
  SendQueueLen :: nat

record driver_life =
  lf_done :: bool
  lf_tx_closed :: bool
  lf_recv :: recv_state
  lf_in :: "nat list"
  lf_in_closed :: bool
  lf_send :: bool
  lf_out :: "nat list"
  lf_outClose :: bool
  lf_watch :: bool
  lf_started :: bool
  lf_main :: main_state
  lf_handling :: "nat list"
  lf_cancelled :: bool
  lf_panic :: "life_panic option"

definition NewDriverTuned :: driver_life where
  "NewDriverTuned = \<lparr>lf_done = False, lf_tx_closed = False, lf_recv = R_receiving, lf_in = [],
     lf_in_closed = False, lf_send = True, lf_out = [], lf_outClose = False, lf_watch = True,
     lf_started = False, lf_main = M_idle, lf_handling = [], lf_cancelled = False, lf_panic = None\<rparr>"

definition close_in :: "driver_life \<Rightarrow> driver_life" where
  "close_in s = (if lf_in_closed s then s\<lparr>lf_panic := Some CloseOfClosed\<rparr> else s\<lparr>lf_in_closed := True\<rparr>)"

definition close_outClose :: "driver_life \<Rightarrow> driver_life" where
  "close_outClose s = (if lf_outClose s then s\<lparr>lf_panic := Some CloseOfClosed\<rparr> else s\<lparr>lf_outClose := True\<rparr>)"

text \<open>The receiver: Receive returns a message or an error, then the select.\<close>

definition recv_msg :: "nat \<Rightarrow> driver_life \<Rightarrow> driver_life option" where
  "recv_msg m s = (if lf_recv s = R_receiving \<and> \<not> lf_tx_closed s then Some (s\<lparr>lf_recv := R_holding m\<rparr>) else None)"

definition recv_error :: "driver_life \<Rightarrow> driver_life option" where
  "recv_error s =
     (if lf_recv s = R_receiving then Some ((close_in s)\<lparr>lf_tx_closed := True, lf_recv := R_exited\<rparr>) else None)"

definition recv_put :: "regime \<Rightarrow> driver_life \<Rightarrow> driver_life option" where
  "recv_put r s =
     (case lf_recv s of
        R_holding m \<Rightarrow>
          if length (lf_in s) < RecvQueueLen r then Some (s\<lparr>lf_in := lf_in s @ [m], lf_recv := R_receiving\<rparr>) else None
      | _ \<Rightarrow> None)"

definition recv_abandon :: "driver_life \<Rightarrow> driver_life option" where
  "recv_abandon s =
     (case lf_recv s of
        R_holding m \<Rightarrow>
          if lf_done s then Some ((close_in s)\<lparr>lf_tx_closed := True, lf_recv := R_exited\<rparr>) else None
      | _ \<Rightarrow> None)"

text \<open>The sender: a cancelled one closes the transport; a failed Send cancels the call, closes it and goes on.\<close>

definition send_cancel :: "driver_life \<Rightarrow> driver_life option" where
  "send_cancel s =
     (if lf_send s \<and> lf_outClose s then Some (s\<lparr>lf_tx_closed := True, lf_send := False\<rparr>) else None)"

definition send_msg :: "bool \<Rightarrow> driver_life \<Rightarrow> driver_life option" where
  "send_msg ok s =
     (case lf_out s of
        m # ms \<Rightarrow>
          if \<not> lf_send s \<or> ok \<and> lf_tx_closed s then None
          else if ok then Some (s\<lparr>lf_out := ms\<rparr>) else Some (s\<lparr>lf_out := ms, lf_tx_closed := True\<rparr>)
      | [] \<Rightarrow> None)"

text \<open>The goroutine that waits for the context.\<close>

definition watch_done :: "driver_life \<Rightarrow> driver_life option" where
  "watch_done s =
     (if lf_watch s \<and> lf_done s then Some ((close_outClose s)\<lparr>lf_tx_closed := True, lf_watch := False\<rparr>) else None)"

definition lf_Close :: "driver_life \<Rightarrow> driver_life" where
  "lf_Close s = s\<lparr>lf_done := True\<rparr>"

text \<open>Go, and the cases of the select of doMsgs.\<close>

definition lf_Go :: "driver_life \<Rightarrow> driver_life" where
  "lf_Go s =
     (if lf_started s then s\<lparr>lf_panic := Some GoTwice\<rparr> else s\<lparr>lf_started := True, lf_main := M_running\<rparr>)"

definition main_done :: "driver_life \<Rightarrow> driver_life option" where
  "main_done s =
     (if lf_main s = M_running \<and> lf_done s
      then Some ((lf_Close s)\<lparr>lf_cancelled := True, lf_main := M_exited\<rparr>) else None)"

definition main_msg :: "driver_life \<Rightarrow> driver_life option" where
  "main_msg s =
     (if lf_main s = M_running
      then (case lf_in s of
              m # ms \<Rightarrow> Some (s\<lparr>lf_in := ms, lf_handling := m # lf_handling s\<rparr>)
            | [] \<Rightarrow> if lf_in_closed s then Some (lf_Close s) else None)
      else None)"

text \<open>
  A handler ends without a reply, with a reply in the send queue, or by ending the driver: a bad
  header, or safeSend finding the context done. A caller's safeSend queues a message too.
\<close>

definition handler_end :: "nat \<Rightarrow> driver_life \<Rightarrow> driver_life option" where
  "handler_end m s = (if m \<in> set (lf_handling s) then Some (s\<lparr>lf_handling := remove1 m (lf_handling s)\<rparr>) else None)"

definition queue_msg :: "regime \<Rightarrow> nat \<Rightarrow> driver_life \<Rightarrow> driver_life option" where
  "queue_msg r m s = (if length (lf_out s) < SendQueueLen r then Some (s\<lparr>lf_out := lf_out s @ [m]\<rparr>) else None)"

definition handler_reply :: "regime \<Rightarrow> nat \<Rightarrow> nat \<Rightarrow> driver_life \<Rightarrow> driver_life option" where
  "handler_reply r m reply s = bindO (handler_end m s) (queue_msg r reply)"

definition handler_close :: "nat \<Rightarrow> driver_life \<Rightarrow> driver_life option" where
  "handler_close m s = map_option lf_Close (handler_end m s)"

section \<open>Runs\<close>

datatype action =
    Recv_msg nat | Recv_error | Recv_put | Recv_abandon | Send_cancel | Send_msg bool | Watch_done
  | Close_driver | Go | Main_done | Main_msg | Handler_end nat | Handler_reply nat nat | Handler_close nat
  | Queue_msg nat

definition act :: "regime \<Rightarrow> action \<Rightarrow> driver_life \<Rightarrow> driver_life option" where
  "act r a s =
     (case a of
        Recv_msg m \<Rightarrow> recv_msg m s | Recv_error \<Rightarrow> recv_error s | Recv_put \<Rightarrow> recv_put r s
      | Recv_abandon \<Rightarrow> recv_abandon s | Send_cancel \<Rightarrow> send_cancel s | Send_msg ok \<Rightarrow> send_msg ok s
      | Watch_done \<Rightarrow> watch_done s | Close_driver \<Rightarrow> Some (lf_Close s) | Go \<Rightarrow> Some (lf_Go s)
      | Main_done \<Rightarrow> main_done s | Main_msg \<Rightarrow> main_msg s | Handler_end m \<Rightarrow> handler_end m s
      | Handler_reply m m' \<Rightarrow> handler_reply r m m' s | Handler_close m \<Rightarrow> handler_close m s
      | Queue_msg m \<Rightarrow> queue_msg r m s)"

inductive lives :: "regime \<Rightarrow> driver_life \<Rightarrow> bool" for r where
  lives_new: "lives r NewDriverTuned"
| lives_act: "lives r s \<Longrightarrow> act r a s = Some s' \<Longrightarrow> lives r s'"

lemmas act_defs = act_def recv_msg_def recv_error_def recv_put_def recv_abandon_def send_cancel_def
  send_msg_def watch_done_def lf_Close_def lf_Go_def main_done_def main_msg_def handler_end_def
  queue_msg_def handler_reply_def handler_close_def close_in_def close_outClose_def

definition life_ok :: "driver_life \<Rightarrow> bool" where
  "life_ok s \<longleftrightarrow>
     (lf_in_closed s \<longrightarrow> lf_recv s = R_exited \<and> lf_tx_closed s) \<and> (lf_recv s = R_exited \<longrightarrow> lf_in_closed s) \<and>
     (lf_watch s \<longrightarrow> \<not> lf_outClose s) \<and> (\<not> lf_watch s \<longrightarrow> lf_outClose s \<and> lf_done s \<and> lf_tx_closed s) \<and>
     (\<not> lf_send s \<longrightarrow> lf_outClose s) \<and> (lf_main s = M_exited \<longrightarrow> lf_done s \<and> lf_cancelled s) \<and>
     (lf_started s \<longrightarrow> lf_main s \<noteq> M_idle) \<and> (lf_main s \<noteq> M_idle \<longrightarrow> lf_started s) \<and>
     lf_panic s \<noteq> Some CloseOfClosed"

lemma life_ok_new: "life_ok NewDriverTuned"
  by (simp add: life_ok_def NewDriverTuned_def)

lemma life_ok_recv:
  "life_ok s \<Longrightarrow> recv_msg m s = Some s' \<Longrightarrow> life_ok s'"
  "life_ok s \<Longrightarrow> recv_error s = Some s' \<Longrightarrow> life_ok s'"
  "life_ok s \<Longrightarrow> recv_put r s = Some s' \<Longrightarrow> life_ok s'"
  "life_ok s \<Longrightarrow> recv_abandon s = Some s' \<Longrightarrow> life_ok s'"
  by (auto simp: recv_msg_def recv_error_def recv_put_def recv_abandon_def close_in_def
      split: if_splits recv_state.split_asm)
    (auto simp: life_ok_def)

lemma life_ok_send:
  "life_ok s \<Longrightarrow> send_cancel s = Some s' \<Longrightarrow> life_ok s'"
  "life_ok s \<Longrightarrow> send_msg ok s = Some s' \<Longrightarrow> life_ok s'"
  "life_ok s \<Longrightarrow> watch_done s = Some s' \<Longrightarrow> life_ok s'"
  by (auto simp: send_cancel_def send_msg_def watch_done_def close_outClose_def
      split: if_splits list.split_asm)
    (auto simp: life_ok_def)

lemma life_ok_main:
  "life_ok s \<Longrightarrow> life_ok (lf_Close s)"
  "life_ok s \<Longrightarrow> life_ok (lf_Go s)"
  "life_ok s \<Longrightarrow> main_done s = Some s' \<Longrightarrow> life_ok s'"
  "life_ok s \<Longrightarrow> main_msg s = Some s' \<Longrightarrow> life_ok s'"
  by (auto simp: lf_Close_def lf_Go_def main_done_def main_msg_def
      split: if_splits list.split_asm)
    (auto simp: life_ok_def)

lemma life_ok_queues [simp]:
  "life_ok (s\<lparr>lf_handling := xs\<rparr>) = life_ok s" "life_ok (s\<lparr>lf_out := xs\<rparr>) = life_ok s"
  by (simp_all add: life_ok_def)

lemma life_ok_handler:
  "life_ok s \<Longrightarrow> handler_end m s = Some s' \<Longrightarrow> life_ok s'"
  "life_ok s \<Longrightarrow> queue_msg r m s = Some s' \<Longrightarrow> life_ok s'"
  by (auto simp: handler_end_def queue_msg_def split: if_splits)

lemma life_ok_act: "life_ok s \<Longrightarrow> act r a s = Some s' \<Longrightarrow> life_ok s'"
  by (cases a)
    (auto simp: act_def handler_reply_def handler_close_def bindO_eq_Some
      dest: life_ok_recv life_ok_send life_ok_main life_ok_handler)

lemma lives_ok: "lives r s \<Longrightarrow> life_ok s"
  by (induction rule: lives.induct) (auto intro: life_ok_new life_ok_act)

section \<open>Shutting down\<close>

text \<open>
  The actions the program takes by itself; Receive returns an error by itself only when the
  transport is closed.
\<close>

definition own_action :: "driver_life \<Rightarrow> action \<Rightarrow> bool" where
  "own_action s a =
     (case a of Recv_msg m \<Rightarrow> False | Recv_error \<Rightarrow> lf_tx_closed s | Close_driver \<Rightarrow> False | Go \<Rightarrow> False
      | Queue_msg m \<Rightarrow> False | _ \<Rightarrow> True)"

definition moves_on :: "regime \<Rightarrow> driver_life \<Rightarrow> driver_life \<Rightarrow> bool" where
  "moves_on r s s' \<longleftrightarrow> s' \<noteq> s \<and> (\<exists>a. own_action s a \<and> act r a s = Some s')"

inductive winds :: "regime \<Rightarrow> driver_life \<Rightarrow> nat \<Rightarrow> driver_life \<Rightarrow> bool" for r s where
  winds_0: "winds r s 0 s"
| winds_Suc: "winds r s n s1 \<Longrightarrow> moves_on r s1 s2 \<Longrightarrow> winds r s (Suc n) s2"

definition stopped :: "driver_life \<Rightarrow> bool" where
  "stopped s \<longleftrightarrow> lf_recv s = R_exited \<and> \<not> lf_send s \<and> \<not> lf_watch s \<and> lf_main s \<noteq> M_running \<and>
     lf_handling s = [] \<and> lf_in_closed s \<and> lf_outClose s \<and> lf_tx_closed s \<and>
     (lf_started s \<longrightarrow> lf_cancelled s)"

definition life_weight :: "driver_life \<Rightarrow> nat" where
  "life_weight s =
     (case lf_recv s of R_receiving \<Rightarrow> 1 | R_holding m \<Rightarrow> 5 | R_exited \<Rightarrow> 0) +
     3 * length (lf_in s) + 2 * length (lf_handling s) + length (lf_out s) +
     of_bool (lf_send s) + of_bool (lf_watch s) + of_bool (lf_main s = M_running)"

lemma weight_recv:
  "lf_done s \<Longrightarrow> recv_error s = Some s' \<Longrightarrow> life_weight s' < life_weight s \<and> lf_done s'"
  "lf_done s \<Longrightarrow> recv_put r s = Some s' \<Longrightarrow> life_weight s' < life_weight s \<and> lf_done s'"
  "lf_done s \<Longrightarrow> recv_abandon s = Some s' \<Longrightarrow> life_weight s' < life_weight s \<and> lf_done s'"
  by (auto simp: recv_error_def recv_put_def recv_abandon_def close_in_def
      split: if_splits recv_state.split_asm)
    (simp_all add: life_weight_def)

lemma weight_send:
  "lf_done s \<Longrightarrow> send_cancel s = Some s' \<Longrightarrow> life_weight s' < life_weight s \<and> lf_done s'"
  "lf_done s \<Longrightarrow> send_msg ok s = Some s' \<Longrightarrow> life_weight s' < life_weight s \<and> lf_done s'"
  "lf_done s \<Longrightarrow> watch_done s = Some s' \<Longrightarrow> life_weight s' < life_weight s \<and> lf_done s'"
  by (auto simp: send_cancel_def send_msg_def watch_done_def close_outClose_def
      split: if_splits list.split_asm)
    (simp_all add: life_weight_def)

lemma weight_main:
  "lf_done s \<Longrightarrow> main_done s = Some s' \<Longrightarrow> life_weight s' < life_weight s \<and> lf_done s'"
  "lf_done s \<Longrightarrow> main_msg s = Some s' \<Longrightarrow> s' \<noteq> s \<Longrightarrow> life_weight s' < life_weight s \<and> lf_done s'"
  by (auto simp: lf_Close_def main_done_def main_msg_def
      split: if_splits list.split_asm)
    (simp_all add: life_weight_def)

lemma weight_handler:
  assumes "lf_done s" "handler_end m s = Some s'"
  shows "life_weight s' + 2 = life_weight s \<and> lf_done s'"
proof -
  from assms(2) have m: "m \<in> set (lf_handling s)" "s' = s\<lparr>lf_handling := remove1 m (lf_handling s)\<rparr>"
    by (auto simp: handler_end_def split: if_splits)
  then have "length (lf_handling s) = Suc (length (remove1 m (lf_handling s)))"
    using length_pos_if_in_set [of m "lf_handling s"] by (simp add: length_remove1)
  with m assms(1) show ?thesis by (simp add: life_weight_def)
qed

lemma weight_queue:
  "lf_done s \<Longrightarrow> queue_msg r m s = Some s' \<Longrightarrow> life_weight s' = life_weight s + 1 \<and> lf_done s'"
  by (auto simp: life_weight_def queue_msg_def split: if_splits)

lemma weight_Close: "life_weight (lf_Close s) = life_weight s" "lf_done (lf_Close s)"
  by (simp_all add: life_weight_def lf_Close_def)

lemma weight_moves:
  assumes "lf_done s" "moves_on r s s'"
  shows "life_weight s' < life_weight s \<and> lf_done s'"
proof -
  from assms(2) obtain a where a: "own_action s a" "act r a s = Some s'" "s' \<noteq> s" by (auto simp: moves_on_def)
  from a(1,2) consider "recv_error s = Some s'" | "recv_put r s = Some s'" | "recv_abandon s = Some s'"
    | "send_cancel s = Some s'" | ok where "send_msg ok s = Some s'" | "watch_done s = Some s'"
    | "main_done s = Some s'" | "main_msg s = Some s'" | m where "handler_end m s = Some s'"
    | m m' s1 where "handler_end m s = Some s1" "queue_msg r m' s1 = Some s'"
    | m s1 where "handler_end m s = Some s1" "s' = lf_Close s1"
    by (cases a) (auto simp: own_action_def act_def handler_reply_def handler_close_def bindO_eq_Some)
  then show ?thesis
  proof cases
    case (10 m m' s1)
    with weight_handler [OF assms(1) 10(1)] weight_queue [OF _ 10(2)] show ?thesis by simp
  next
    case (11 m s1)
    with weight_handler [OF assms(1) 11(1)] show ?thesis by (simp add: weight_Close)
  next
    case (9 m)
    with weight_handler [OF assms(1) 9] show ?thesis by simp
  qed (use weight_recv [OF assms(1)] weight_send [OF assms(1)] weight_main [OF assms(1)] a(3) in blast)+
qed

lemma winds_weight:
  assumes "lf_done s" "winds r s n s'"
  shows "n + life_weight s' \<le> life_weight s \<and> lf_done s'"
  using assms(2)
proof (induction rule: winds.induct)
  case (winds_Suc n s1 s2)
  with weight_moves [of s1 r s2] show ?case by simp
qed (simp add: assms(1))

lemma moves_on_lives: "lives r s \<Longrightarrow> moves_on r s s' \<Longrightarrow> lives r s'"
  by (auto simp: moves_on_def intro: lives_act)

lemma winds_lives: "winds r s n s' \<Longrightarrow> lives r s \<Longrightarrow> lives r s'"
  by (induction rule: winds.induct) (auto intro: moves_on_lives)

text \<open>Where nothing moves on, everything has stopped.\<close>

lemma not_stopped_moves:
  assumes "lives r s" "lf_done s" "\<not> stopped s"
  shows "\<exists>s'. moves_on r s s'"
proof -
  have ok: "life_ok s" by (rule lives_ok [OF assms(1)])
  have step: ?thesis if "own_action s a" "act r a s = Some s'" "life_weight s' < life_weight s" for a s'
    using that by (auto simp: moves_on_def)
  consider "lf_watch s" | "\<not> lf_watch s" "lf_recv s = R_receiving" | m where "lf_recv s = R_holding m"
    | "\<not> lf_watch s" "lf_send s" | "lf_main s = M_running" | m where "m \<in> set (lf_handling s)"
    using assms(3) ok by (cases "lf_recv s"; cases "lf_handling s"; cases "lf_main s")
      (auto simp: stopped_def life_ok_def)
  then show ?thesis
  proof cases
    case 1
    then obtain s' where "watch_done s = Some s'" using assms(2) by (simp add: watch_done_def)
    then show ?thesis using weight_send(3) [OF assms(2)]
      by (intro step [of Watch_done]) (auto simp: own_action_def act_def)
  next
    case 2
    then obtain s' where "recv_error s = Some s'" "lf_tx_closed s" using ok by (auto simp: recv_error_def life_ok_def)
    then show ?thesis using weight_recv(1) [OF assms(2)]
      by (intro step [of Recv_error]) (auto simp: own_action_def act_def)
  next
    case (3 m)
    then obtain s' where "recv_abandon s = Some s'" using assms(2) by (simp add: recv_abandon_def)
    then show ?thesis using weight_recv(3) [OF assms(2)]
      by (intro step [of Recv_abandon]) (auto simp: own_action_def act_def)
  next
    case 4
    then obtain s' where "send_cancel s = Some s'" using ok by (auto simp: send_cancel_def life_ok_def)
    then show ?thesis using weight_send(1) [OF assms(2)]
      by (intro step [of Send_cancel]) (auto simp: own_action_def act_def)
  next
    case 5
    then obtain s' where "main_done s = Some s'" using assms(2) by (simp add: main_done_def)
    then show ?thesis using weight_main(1) [OF assms(2)]
      by (intro step [of Main_done]) (auto simp: own_action_def act_def)
  next
    case (6 m)
    then obtain s' where "handler_end m s = Some s'" by (simp add: handler_end_def)
    then show ?thesis using weight_handler [OF assms(2)]
      by (intro step [of "Handler_end m"]) (fastforce simp: own_action_def act_def)+
  qed
qed

lemma winds_to_stop:
  assumes "lives r s" "lf_done s"
  shows "\<exists>n s'. winds r s n s' \<and> stopped s'"
proof -
  have "\<exists>n' s''. winds r s n' s'' \<and> stopped s''" if "winds r s n s'" for n s'
    using that
  proof (induction "life_weight s'" arbitrary: n s' rule: less_induct)
    case less
    show ?case
    proof (cases "stopped s'")
      case False
      have d: "lf_done s'" "lives r s'" using winds_weight [OF assms(2) less(2)] winds_lives [OF less(2) assms(1)] by auto
      from not_stopped_moves [OF d(2,1) False] obtain s2 where m: "moves_on r s' s2" by blast
      from weight_moves [OF d(1) m] less(1) [OF _ winds_Suc [OF less(2) m]] show ?thesis by blast
    qed (use less in blast)
  qed
  then show ?thesis using winds_0 by blast
qed

section \<open>Properties\<close>



text \<open>A driver with a message received, one queued and Go running, after Close.\<close>

definition ex_regime :: regime where
  "ex_regime = \<lparr>RecvQueueLen = 10, SendQueueLen = 10\<rparr>"

fun acts :: "regime \<Rightarrow> action list \<Rightarrow> driver_life \<Rightarrow> driver_life option" where
  "acts r [] s = Some s"
| "acts r (a # as) s = bindO (act r a s) (acts r as)"

lemma acts_lives: "lives r s \<Longrightarrow> acts r as s = Some s' \<Longrightarrow> lives r s'"
  by (induction as arbitrary: s) (auto simp: bindO_eq_Some intro: lives_act)

definition ex_life :: driver_life where
  "ex_life = the (acts ex_regime [Go, Recv_msg 1, Recv_put, Recv_msg 2, Queue_msg 3, Close_driver] NewDriverTuned)"

lemma ex_life_ok: "lives ex_regime ex_life" "lf_done ex_life" "life_weight ex_life = 12"
proof -
  have "acts ex_regime [Go, Recv_msg 1, Recv_put, Recv_msg 2, Queue_msg 3, Close_driver] NewDriverTuned = Some ex_life"
    unfolding ex_life_def by code_simp
  then show "lives ex_regime ex_life" by (rule acts_lives [OF lives_new])
  show "lf_done ex_life" "life_weight ex_life = 12" by code_simp+
qed



text \<open>What is still queued when a driver stops is not recycled: here messages 1 and 3.\<close>

lemma stopped_with_messages:
  "\<exists>s. acts ex_regime [Go, Recv_msg 1, Recv_put, Recv_msg 2, Queue_msg 3, Close_driver, Main_done,
      Recv_abandon, Watch_done, Send_cancel] NewDriverTuned = Some s \<and>
    stopped s \<and> lf_in s = [1] \<and> lf_out s = [3]"
  by (rule exI [of _ "the (acts ex_regime [Go, Recv_msg 1, Recv_put, Recv_msg 2, Queue_msg 3, Close_driver, Main_done,
      Recv_abandon, Watch_done, Send_cancel] NewDriverTuned)"], intro conjI; code_simp)

lemma Go_twice: "lives r s \<Longrightarrow> lf_panic (lf_Go (lf_Go s)) = Some GoTwice"
  by (simp add: lf_Go_def)

text \<open>
  WithPeer gives a context with that peer that is still the context of the same call: Detach on
  it, as on the context itself, frees the lock the call holds, and unlocking again, as doMsg
  does when the call returns, changes nothing.
\<close>

lemma Detach_once:
  assumes "lk_reach s" and "lk_holder s = Some i" and "ctx_Value c = Some (SrvCtx p i)"
    and "WithPeer (Some c) peer = Inr c'"
  shows "GetPeer (Some c') = peer \<and> Detach (Some c') s = Detach (Some c) s \<and>
    (\<exists>s'. Detach (Some c') s = Inr s' \<and> lk_holder s' = None \<and> \<not> lk_fatal s' \<and> run_unlock i s' = s')"
proof -
  from assms(3,4) have v: "ctx_Value c' = Some (SrvCtx peer i)"
    by (auto simp: WithPeer_def split: if_splits)
  have inv: "lk_inv s" by (rule lk_reach_inv [OF assms(1)])
  with assms(2) have "i \<notin> lk_done s" "\<not> lk_fatal s" by (auto simp: lk_inv_def)
  then have "lk_holder (run_unlock i s) = None" "\<not> lk_fatal (run_unlock i s)"
    "run_unlock i (run_unlock i s) = run_unlock i s"
    using assms(2) by (auto simp: run_unlock_def Unlock_def)
  with v assms(3) show ?thesis by (simp add: GetPeer_def Detach_def)
qed

lemma Detach_once_witness:
  "\<exists>s c'. mkUnlocker 4 lock_init = Some s \<and> lk_holder s = Some 4 \<and>
     WithPeer (Some (call_ctx Background ''a'' 4)) ''b'' = Inr c' \<and> GetPeer (Some c') = ''b'' \<and>
     (\<exists>s'. Detach (Some c') s = Inr s' \<and> lk_holder s' = None)"
proof -
  obtain s where s: "mkUnlocker 4 lock_init = Some s" "lk_holder s = Some 4"
    by (simp add: mkUnlocker_def lock_init_def)
  obtain c' where c: "WithPeer (Some (call_ctx Background ''a'' 4)) ''b'' = Inr c'"
    by (simp add: WithPeer_def call_ctx_def)
  have "ctx_Value (call_ctx Background ''a'' 4) = Some (SrvCtx ''a'' 4)" by (simp add: call_ctx_def)
  from Detach_once [OF lk_lock [OF lk_start s(1)] s(2) this c] s c show ?thesis by blast
qed

text \<open>GetPeer takes a nil context, WithPeer and Detach do not.\<close>

lemma nil_contexts:
  "GetPeer None = []" "WithPeer None peer = Inl NilDeref" "Detach None s = Inl NilDeref"
  by (simp_all add: GetPeer_def WithPeer_def Detach_def)

end
