(* ===== verification/FileTransport.thy ===== *)
theory FileTransport imports RpcCorrect StreamTransport begin

text \<open>
  ReceiveFile (rpc/filerpc.go): the RPC headers recorded in a file, read through a
  StreamTransport whose connection is the file. A read from a file returns all it is asked for
  up to the end, so the file is one chunk.
\<close>

section \<open>Reading a file\<close>

text \<open>recvRpcMsg: the error of Receive or of GetMsg, or the header; the message is recycled.\<close>

datatype file_error = Receive_error "tx_error option" | GetMsg_error xdr_error

definition recvRpcMsg :: "stream_tx \<Rightarrow> go_panic + ((file_error + rpc_msg) \<times> stream_tx)" where
  "recvRpcMsg t =
     (case tx_Receive t of
        (Inl e, t') \<Rightarrow> Inr (Inl (Receive_error e), t')
      | (Inr m, t') \<Rightarrow>
          bindE (GetMsg m) (\<lambda>g. Inr (case g of Inl e \<Rightarrow> Inl (GetMsg_error e) | Inr (rpcMsg, rest) \<Rightarrow> Inr rpcMsg, t')))"

lemma Receive_less:
  assumes "tx_Receive t = (Inr m, t')"
  shows "length (concat (tx_conn t')) < length (concat (tx_conn t))"
proof -
  from assms obtain cs where r: "recv_loop (tx_MaxMsgSize t) (tx_conn t) [] = Inr (m, cs)" "t' = t\<lparr>tx_conn := cs\<rparr>"
    by (auto simp: tx_Receive_def split: if_splits sum.splits)
  from recv_sound [OF r(1)] obtain fs where
    "fs \<noteq> []" "concat (tx_conn t) = wire_frags fs @ concat cs" by blast
  then show ?thesis using wire_frags_Nil [of fs] r(2) by simp
qed

lemma recvRpcMsg_less:
  "recvRpcMsg t = Inr (Inr m, t') \<Longrightarrow> length (concat (tx_conn t')) < length (concat (tx_conn t))"
proof -
  assume r: "recvRpcMsg t = Inr (Inr m, t')"
  then obtain b where "tx_Receive t = (Inr b, t')"
    by (cases "tx_Receive t"; cases "fst (tx_Receive t)") (auto simp: recvRpcMsg_def bindE_eq_Inr)
  then show ?thesis by (rule Receive_less)
qed

text \<open>The loop of ReceiveFile; \<open>acc\<close> is what proc was called with. Every error ends it.\<close>

function file_loop :: "stream_tx \<Rightarrow> rpc_msg list \<Rightarrow> go_panic + rpc_msg list" where
  "file_loop t acc =
     (case recvRpcMsg t of
        Inl p \<Rightarrow> Inl p
      | Inr (Inl e, t') \<Rightarrow> Inr acc
      | Inr (Inr m, t') \<Rightarrow> file_loop t' (acc @ [m]))"
  by pat_completeness auto

termination
  by (relation "measure (\<lambda>(t, acc). length (concat (tx_conn t)))") (auto dest: recvRpcMsg_less simp del: length_concat)

declare file_loop.simps [simp del]

definition DefaultMaxMsgSize :: int where
  "DefaultMaxMsgSize = 10000000"

text \<open>The contents of the file, or the error of Open, which is the only one returned.\<close>

definition ReceiveFile :: "io_error + bytes \<Rightarrow> go_panic + (io_error option \<times> rpc_msg list)" where
  "ReceiveFile file =
     (case file of
        Inl e \<Rightarrow> Inr (Some e, [])
      | Inr content \<Rightarrow>
          bindE (file_loop (NewStreamTransport DefaultMaxMsgSize [content]) []) (\<lambda>ms. Inr (None, ms)))"

section \<open>One chunk\<close>

lemma conn_Read_chunks: "conn_Read cs k = Inr (b, cs') \<Longrightarrow> length cs' \<le> length cs"
  by (induction cs k rule: conn_Read.induct) (auto split: if_splits)

lemma conn_CopyN_chunks: "conn_CopyN cs n = Inr (b, cs') \<Longrightarrow> length cs' \<le> length cs"
proof (induction cs n arbitrary: b cs' rule: conn_CopyN.induct)
  case (3 c cs n)
  then show ?case by (fastforce simp: bindE_eq_Inr split: if_splits)
qed auto

lemma recv_chunks: "recv_loop mx cs acc = Inr (m, cs') \<Longrightarrow> length cs' \<le> length cs"
proof (induction mx cs acc rule: recv_loop.induct)
  case (1 mx cs acc)
  from "1.prems" obtain b cs1 d cs2 where
    b: "conn_Read cs 4 = Inr (b, cs1)" "length b = 4" "\<not> int (frag_len b) > mx - int (length acc)"
    and d: "conn_CopyN cs1 (frag_len b) = Inr (d, cs2)"
    and rest: "if hd b AND 0x80 = 0 then recv_loop mx cs2 (acc @ d) = Inr (m, cs')
      else (acc @ d, cs2) = (m, cs')"
    by (subst (asm) recv_loop.simps) (auto split: sum.splits prod.splits if_splits)
  have "length cs2 \<le> length cs" using conn_Read_chunks [OF b(1)] conn_CopyN_chunks [OF d] by simp
  moreover have "length cs' \<le> length cs2"
    using rest "1.IH" [OF b(1) refl _ b(3) d refl] b(2) by (cases "hd b AND 0x80 = 0") auto
  ultimately show ?case by simp
qed

lemma one_chunk: "length cs \<le> 1 \<Longrightarrow> cs = [concat cs] \<or> cs = [] \<and> concat cs = []"
  by (cases cs) auto

text \<open>A sent message at the front of the file is received.\<close>

lemma Receive_file:
  assumes "tx_okay t = 1" "length (tx_conn t) \<le> 1" "concat (tx_conn t) = send_frames m @ rest"
    and "int (length m) \<le> tx_MaxMsgSize t"
  shows "\<exists>cs. tx_Receive t = (Inr m, t\<lparr>tx_conn := cs\<rparr>) \<and> length cs \<le> 1 \<and> concat cs = rest"
proof -
  note sp = segs_props [of m]
  then have c: "concat (tx_conn t) = wire_frags (segs m) @ rest" using assms(3) by simp
  have "tx_conn t \<noteq> []" using c sp wire_frags_Nil [of "segs m"] by auto
  with one_chunk [OF assms(2)] c have t: "tx_conn t = [wire_frags (segs m) @ rest]" by simp
  have "hdr_whole (segs m) (tx_conn t)" unfolding t using sp by (intro hdr_whole_one_chunk) auto
  from recv_complete [OF _ c _ _ this, of "[]" "tx_MaxMsgSize t"] sp assms(4) obtain cs where
    cs: "recv_loop (tx_MaxMsgSize t) (tx_conn t) [] = Inr (m, cs)" "concat cs = rest" by auto
  with recv_chunks [OF cs(1)] assms(1,2) show ?thesis
    by (auto simp: tx_Receive_def tx_failed_def)
qed

section \<open>Properties\<close>

text \<open>A record: the encoding of a header and what follows it in the message.\<close>

definition record_of :: "rpc_msg \<times> bytes \<Rightarrow> bytes" where
  "record_of = (\<lambda>(m, body). (case marshal_msg m of Inr b \<Rightarrow> b @ body | Inl p \<Rightarrow> []))"

definition recorded :: "rpc_msg \<times> bytes \<Rightarrow> bool" where
  "recorded mb \<longleftrightarrow> msg_fits (fst mb) \<and> int (length (record_of mb)) \<le> DefaultMaxMsgSize"

lemma GetMsg_record:
  assumes "recorded mb"
  shows "\<exists>m' r. GetMsg (record_of mb) = Inr (Inr (m', r)) \<and> norm_msg m' = norm_msg (fst mb)"
proof -
  obtain m body where mb: "mb = (m, body)" by (cases mb)
  from unmarshal_marshal [of m zero_msg body] assms mb obtain b m' where
    b: "marshal_msg m = Inr b" "unmarshal_msg zero_msg (b @ body) = Inr (m', body)" "norm_msg m' = norm_msg m"
    by (auto simp: recorded_def)
  then have "GetMsg (record_of mb) = Inr (Inr (m', body))" by (simp add: record_of_def mb unmarshal_zero_eq)
  with b(3) mb show ?thesis by auto
qed

lemma file_loop_records:
  assumes "list_all recorded mbs" "tx_okay t = 1" "length (tx_conn t) \<le> 1"
    and "concat (tx_conn t) = concat (map (\<lambda>mb. send_frames (record_of mb)) mbs) @ rest"
    and "tx_MaxMsgSize t = DefaultMaxMsgSize"
  shows "\<exists>ms t'. file_loop t acc = file_loop t' (acc @ ms) \<and> tx_okay t' = 1 \<and> length (tx_conn t') \<le> 1 \<and>
    concat (tx_conn t') = rest \<and> list_all2 (\<lambda>m mb. norm_msg m = norm_msg (fst mb)) ms mbs"
  using assms
proof (induction mbs arbitrary: t acc)
  case Nil
  then show ?case by (intro exI [of _ "[]"] exI [of _ t]) simp
next
  case (Cons mb mbs)
  let ?rest = "concat (map (\<lambda>mb. send_frames (record_of mb)) mbs) @ rest"
  from Cons.prems Receive_file [of t "record_of mb" ?rest] obtain cs where
    cs: "tx_Receive t = (Inr (record_of mb), t\<lparr>tx_conn := cs\<rparr>)" "length cs \<le> 1" "concat cs = ?rest"
    by (auto simp: recorded_def)
  from Cons.prems GetMsg_record [of mb] obtain m' r where
    m': "GetMsg (record_of mb) = Inr (Inr (m', r))" "norm_msg m' = norm_msg (fst mb)" by auto
  have step: "file_loop t acc = file_loop (t\<lparr>tx_conn := cs\<rparr>) (acc @ [m'])"
    using cs(1) m'(1) by (subst file_loop.simps) (simp add: recvRpcMsg_def)
  from Cons.IH [of "t\<lparr>tx_conn := cs\<rparr>" "acc @ [m']"] Cons.prems cs obtain ms t' where
    "file_loop (t\<lparr>tx_conn := cs\<rparr>) (acc @ [m']) = file_loop t' ((acc @ [m']) @ ms)" "tx_okay t' = 1"
    "length (tx_conn t') \<le> 1" "concat (tx_conn t') = rest"
    "list_all2 (\<lambda>m mb. norm_msg m = norm_msg (fst mb)) ms mbs" by auto
  with step m'(2) show ?case by (intro exI [of _ "m' # ms"] exI [of _ t']) simp
qed

lemma file_loop_end:
  assumes "tx_okay t = 1" "concat (tx_conn t) = []"
  shows "file_loop t acc = Inr acc"
proof -
  have "conn_Read cs 4 = Inl EOF" if "concat cs = []" for cs using that by (induction cs) auto
  with assms have "recv_loop (tx_MaxMsgSize t) (tx_conn t) [] = Inl (ConnErr EOF)"
    by (subst recv_loop.simps) simp
  then show ?thesis using assms(1)
    by (subst file_loop.simps) (simp add: recvRpcMsg_def tx_Receive_def tx_failed_def)
qed

text \<open>
  C33. ReceiveFile calls its argument with the headers of all messages a StreamTransport wrote to
  the file, in their order, and returns no error; the headers agree in their Xids,
  discriminants and selected bodies.
\<close>

theorem ReceiveFile_reads_back:
  assumes "list_all recorded mbs"
  shows "\<exists>ms. ReceiveFile (Inr (concat (map (\<lambda>mb. send_frames (record_of mb)) mbs))) = Inr (None, ms) \<and>
    list_all2 (\<lambda>m mb. norm_msg m = norm_msg (fst mb)) ms mbs"
proof -
  let ?t = "NewStreamTransport DefaultMaxMsgSize [concat (map (\<lambda>mb. send_frames (record_of mb)) mbs)]"
  from file_loop_records [OF assms, of ?t "[]" "[]"] obtain ms t' where
    "file_loop ?t [] = file_loop t' ms" "tx_okay t' = 1" "concat (tx_conn t') = []"
    "list_all2 (\<lambda>m mb. norm_msg m = norm_msg (fst mb)) ms mbs"
    by (auto simp: NewStreamTransport_def)
  then show ?thesis using file_loop_end [of t' ms] by (auto simp: ReceiveFile_def)
qed

theorem ReceiveFile_reads_back_witness:
  "\<exists>ms. ReceiveFile (Inr (concat (map (\<lambda>mb. send_frames (record_of mb))
      [(call_msg 7 \<lparr>xp_Prog = 1, xp_Vers = 2, xp_Proc = 3, xp_in = (\<lambda>b. Inr (VBool True, b))\<rparr>, [0, 0, 0, 1])]))) =
    Inr (None, ms) \<and> length ms = 1"
proof -
  let ?m = "call_msg 7 \<lparr>xp_Prog = 1, xp_Vers = 2, xp_Proc = 3, xp_in = (\<lambda>b. Inr (VBool True, b))\<rparr>"
  have "(case marshal_msg ?m of Inr b \<Rightarrow> length b = 40 | Inl p \<Rightarrow> False)" by code_simp
  then have "list_all recorded [(?m, [0, 0, 0, 1])]"
    using ex_call_fits by (auto simp: recorded_def record_of_def DefaultMaxMsgSize_def split: sum.splits)
  from ReceiveFile_reads_back [OF this] show ?thesis by (auto simp: list_all2_Cons2)
qed

text \<open>Damage at the end of a file is not reported: what precedes it is all that is seen.\<close>

lemma ReceiveFile_hides_errors:
  assumes "list_all recorded mbs" "length rest < 4"
  shows "\<exists>ms. ReceiveFile (Inr (concat (map (\<lambda>mb. send_frames (record_of mb)) mbs) @ rest)) = Inr (None, ms) \<and>
    length ms = length mbs"
proof -
  let ?t = "NewStreamTransport DefaultMaxMsgSize [concat (map (\<lambda>mb. send_frames (record_of mb)) mbs) @ rest]"
  from file_loop_records [OF assms(1), of ?t rest "[]"] obtain ms t' where
    l: "file_loop ?t [] = file_loop t' ms" "tx_okay t' = 1" "concat (tx_conn t') = rest"
    "list_all2 (\<lambda>m mb. norm_msg m = norm_msg (fst mb)) ms mbs"
    by (auto simp: NewStreamTransport_def)
  have "\<exists>e. recv_loop mx (tx_conn t') [] = Inl e" for mx
  proof (cases "conn_Read (tx_conn t') 4")
    case (Inr x)
    obtain b cs where x: "x = (b, cs)" by (cases x)
    from conn_Read_stream [OF Inr [unfolded x]] l(3) assms(2) have "length b \<noteq> 4" by auto
    with Inr x show ?thesis by (subst recv_loop.simps) simp
  qed (subst recv_loop.simps, simp)
  then obtain e where "recv_loop (tx_MaxMsgSize t') (tx_conn t') [] = Inl e" by blast
  then have "file_loop t' ms = Inr ms"
    using l(2) by (subst file_loop.simps) (simp add: recvRpcMsg_def tx_Receive_def tx_failed_def)
  with l(1,4) show ?thesis by (auto simp: ReceiveFile_def dest: list_all2_lengthD)
qed

end
