(* ===== verification/Stat.thy ===== *)
theory Stat imports GoText Complex_Main begin

text \<open>
  Package stat: the counter of stat/counter.go and the latency meter of stat/latency.go. The
  operations of float64 are arguments (\<open>flops\<close>); the properties of the averages take them to be
  those of the reals. Times are nanoseconds, None the zero time; what time.Now returns is an
  argument. Every method holds the lock from start to end and is one step.
\<close>

section \<open>Counters\<close>

record 'f flops =
  f_int :: "int \<Rightarrow> 'f"
  f_add :: "'f \<Rightarrow> 'f \<Rightarrow> 'f"
  f_sub :: "'f \<Rightarrow> 'f \<Rightarrow> 'f"
  f_mul :: "'f \<Rightarrow> 'f \<Rightarrow> 'f"
  f_div :: "'f \<Rightarrow> 'f \<Rightarrow> 'f"
  f_sqrt :: "'f \<Rightarrow> 'f"
  f_min :: "'f \<Rightarrow> 'f \<Rightarrow> 'f"
  f_max :: "'f \<Rightarrow> 'f \<Rightarrow> 'f"
  f_trunc :: "'f \<Rightarrow> int"
  f_seconds :: "int \<Rightarrow> 'f"

record 'f counter =
  ct_first :: "int option"
  ct_last :: "int option"
  ct_sum :: 'f
  ct_sum2 :: 'f
  ct_min :: 'f
  ct_max :: 'f
  ct_count :: int

definition new_counter :: "'f flops \<Rightarrow> 'f counter" where
  "new_counter F = \<lparr>ct_first = None, ct_last = None, ct_sum = f_int F 0, ct_sum2 = f_int F 0,
     ct_min = f_int F 0, ct_max = f_int F 0, ct_count = 0\<rparr>"

definition ct_Add :: "'f flops \<Rightarrow> int \<Rightarrow> 'f \<Rightarrow> 'f counter \<Rightarrow> int \<times> 'f counter" where
  "ct_Add F now v x =
     (let x' = (if ct_first x = None then x\<lparr>ct_first := Some now, ct_min := v, ct_max := v\<rparr>
                else x\<lparr>ct_min := f_min F (ct_min x) v, ct_max := f_max F (ct_max x) v,
                       ct_sum := f_add F (ct_sum x) v, ct_sum2 := f_add F (ct_sum2 x) (f_mul F v v),
                       ct_count := ct_count x + 1, ct_last := Some now\<rparr>)
      in (ct_count x', x'))"

definition average :: "'f flops \<Rightarrow> 'f counter \<Rightarrow> 'f" where
  "average F x = f_div F (ct_sum x) (f_int F (ct_count x))"

definition stddev :: "'f flops \<Rightarrow> 'f counter \<Rightarrow> 'f" where
  "stddev F x =
     (let avg = f_div F (ct_sum x) (f_int F (ct_count x));
          avg2 = f_div F (ct_sum2 x) (f_int F (ct_count x))
      in f_sqrt F (f_sub F avg2 (f_mul F avg avg)))"

text \<open>Time.Sub: a difference that does not fit an int64 is the smallest or largest one.\<close>

definition time_Sub :: "int option \<Rightarrow> int option \<Rightarrow> int" where
  "time_Sub t u =
     (case (t, u) of
        (Some a, Some b) \<Rightarrow> max (- (2 ^ 63)) (min (2 ^ 63 - 1) (a - b))
      | (None, None) \<Rightarrow> 0
      | (None, Some b) \<Rightarrow> - (2 ^ 63)
      | (Some a, None) \<Rightarrow> 2 ^ 63 - 1)"

definition speedPerSec :: "'f flops \<Rightarrow> 'f counter \<Rightarrow> 'f" where
  "speedPerSec F x = f_div F (ct_sum x) (f_seconds F (time_Sub (ct_last x) (ct_first x)))"

record 'f counter_stats =
  cs_Min :: 'f
  cs_Max :: 'f
  cs_Average :: 'f
  cs_Stddev :: 'f
  cs_Count :: int
  cs_SpeedPerSec :: 'f

definition ct_Stats :: "'f flops \<Rightarrow> 'f counter \<Rightarrow> 'f counter_stats" where
  "ct_Stats F x = \<lparr>cs_Min = ct_min x, cs_Max = ct_max x, cs_Average = average F x, cs_Stddev = stddev F x,
     cs_Count = ct_count x, cs_SpeedPerSec = speedPerSec F x\<rparr>"

section \<open>Latency meters\<close>

text \<open>Units of a duration in nanoseconds.\<close>

definition Microsecond :: int where "Microsecond = 1000"
definition Millisecond :: int where "Millisecond = 1000000"
definition Second :: int where "Second = 1000000000"
definition Minute :: int where "Minute = 60 * Second"
definition Hour :: int where "Hour = 60 * Minute"

text \<open>
  fmtDur: hours with one decimal (\<open>hours\<close> is the text), otherwise whole units. Minutes and
  Seconds are floats, exact enough below an hour that the conversion to int64 rounds down.
\<close>

definition fmtDur :: "(int \<Rightarrow> string) \<Rightarrow> int \<Rightarrow> string" where
  "fmtDur hours d =
     (if d \<ge> Hour then hours d @ ''h''
      else if d \<ge> Minute then show_int (d div Minute) @ ''m''
      else if d \<ge> Second then show_int (d div Second) @ ''s''
      else if d \<ge> Millisecond then show_int (d div Millisecond) @ ''ms''
      else if d \<ge> Microsecond then show_int (d div Microsecond) @ [char_of (0xC2 :: nat), char_of (0xB5 :: nat)] @ ''s''
      else show_int d @ ''ns'')"

text \<open>The format of String and Summarize: average, deviation, and the range.\<close>

definition summary :: "(int \<Rightarrow> string) \<Rightarrow> int \<Rightarrow> int \<Rightarrow> int \<Rightarrow> int \<Rightarrow> string" where
  "summary hours a s lo hi =
     fmtDur hours a @ [char_of (0xC2 :: nat), char_of (0xB1 :: nat)] @ fmtDur hours s @ '' ['' @
     fmtDur hours lo @ '':'' @ fmtDur hours hi @ '']''"

record 'f latency_meter =
  lm_ctr :: "'f counter"

record latency_span =
  sp_start :: int

definition lm_Start :: "int \<Rightarrow> latency_span" where
  "lm_Start now = \<lparr>sp_start = now\<rparr>"

definition lm_Add :: "'f flops \<Rightarrow> int \<Rightarrow> int \<Rightarrow> 'f latency_meter \<Rightarrow> int \<times> 'f latency_meter" where
  "lm_Add F now d x = (case ct_Add F now (f_int F d) (lm_ctr x) of (n, c) \<Rightarrow> (n, x\<lparr>lm_ctr := c\<rparr>))"

text \<open>Stop reads the time for the span, Add reads it again for the counter.\<close>

definition span_Stop :: "'f flops \<Rightarrow> int \<Rightarrow> int \<Rightarrow> latency_span \<Rightarrow> 'f latency_meter \<Rightarrow> 'f latency_meter" where
  "span_Stop F now1 now2 sp x = snd (lm_Add F now2 (time_Sub (Some now1) (Some (sp_start sp))) x)"

definition lm_Average :: "'f flops \<Rightarrow> 'f latency_meter \<Rightarrow> int" where
  "lm_Average F x = f_trunc F (average F (lm_ctr x))"

definition lm_Min :: "'f flops \<Rightarrow> 'f latency_meter \<Rightarrow> int" where
  "lm_Min F x = f_trunc F (ct_min (lm_ctr x))"

definition lm_Max :: "'f flops \<Rightarrow> 'f latency_meter \<Rightarrow> int" where
  "lm_Max F x = f_trunc F (ct_max (lm_ctr x))"

definition lm_Stddev :: "'f flops \<Rightarrow> 'f latency_meter \<Rightarrow> int" where
  "lm_Stddev F x = f_trunc F (stddev F (lm_ctr x))"

definition lm_String :: "'f flops \<Rightarrow> (int \<Rightarrow> string) \<Rightarrow> 'f latency_meter \<Rightarrow> string" where
  "lm_String F hours x = summary hours (lm_Average F x) (lm_Stddev F x) (lm_Min F x) (lm_Max F x)"

record 'f latency_stats =
  ls_Summary :: string
  ls_NSec :: "'f counter_stats"

definition Summarize :: "'f flops \<Rightarrow> (int \<Rightarrow> string) \<Rightarrow> 'f latency_stats \<Rightarrow> string" where
  "Summarize F hours x =
     summary hours (f_trunc F (cs_Average (ls_NSec x))) (f_trunc F (cs_Stddev (ls_NSec x)))
       (f_trunc F (cs_Min (ls_NSec x))) (f_trunc F (cs_Max (ls_NSec x)))"

definition lm_Stats :: "'f flops \<Rightarrow> (int \<Rightarrow> string) \<Rightarrow> 'f latency_meter \<Rightarrow> 'f latency_stats" where
  "lm_Stats F hours x =
     (let s = \<lparr>ls_Summary = [], ls_NSec = ct_Stats F (lm_ctr x)\<rparr> in s\<lparr>ls_Summary := Summarize F hours s\<rparr>)"

section \<open>What a counter holds\<close>

definition add_all :: "'f flops \<Rightarrow> (int \<times> 'f) list \<Rightarrow> 'f counter \<Rightarrow> 'f counter" where
  "add_all F vs x = fold (\<lambda>(now, v) x. snd (ct_Add F now v x)) vs x"

lemma ct_Add_more:
  "ct_first x \<noteq> None \<Longrightarrow> snd (ct_Add F now v x) =
     x\<lparr>ct_min := f_min F (ct_min x) v, ct_max := f_max F (ct_max x) v,
       ct_sum := f_add F (ct_sum x) v, ct_sum2 := f_add F (ct_sum2 x) (f_mul F v v),
       ct_count := ct_count x + 1, ct_last := Some now\<rparr>"
  by (auto simp: ct_Add_def Let_def)

lemma add_all_more:
  "ct_first x \<noteq> None \<Longrightarrow>
   ct_first (add_all F vs x) = ct_first x \<and>
   ct_count (add_all F vs x) = ct_count x + int (length vs) \<and>
   ct_sum (add_all F vs x) = foldl (f_add F) (ct_sum x) (map snd vs) \<and>
   ct_sum2 (add_all F vs x) = foldl (f_add F) (ct_sum2 x) (map (\<lambda>(t, v). f_mul F v v) vs) \<and>
   ct_min (add_all F vs x) = foldl (f_min F) (ct_min x) (map snd vs) \<and>
   ct_max (add_all F vs x) = foldl (f_max F) (ct_max x) (map snd vs) \<and>
   ct_last (add_all F vs x) = (if vs = [] then ct_last x else Some (fst (last vs)))"
proof (induction vs arbitrary: x)
  case Nil
  then show ?case by (simp add: add_all_def)
next
  case (Cons p vs)
  obtain now v where p: "p = (now, v)" by (cases p)
  have "add_all F (p # vs) x = add_all F vs (snd (ct_Add F now v x))" by (simp add: add_all_def p)
  then show ?case using Cons.IH [of "snd (ct_Add F now v x)"] Cons.prems by (auto simp: p ct_Add_more)
qed

lemma add_all_new:
  "add_all F ((now, v) # vs) (new_counter F) =
   add_all F vs ((new_counter F)\<lparr>ct_first := Some now, ct_min := v, ct_max := v\<rparr>)"
  by (simp add: add_all_def ct_Add_def new_counter_def)

lemma ct_Add_count: "fst (ct_Add F now v x) = ct_count (snd (ct_Add F now v x))"
  by (simp add: ct_Add_def Let_def)

lemma counter_state:
  "let x = add_all F ((now, v) # vs) (new_counter F) in
     ct_count x = int (length vs) \<and>
     ct_sum x = foldl (f_add F) (f_int F 0) (map snd vs) \<and>
     ct_sum2 x = foldl (f_add F) (f_int F 0) (map (\<lambda>(t, v). f_mul F v v) vs) \<and>
     ct_min x = foldl (f_min F) v (map snd vs) \<and> ct_max x = foldl (f_max F) v (map snd vs) \<and>
     ct_first x = Some now \<and> ct_last x = (if vs = [] then None else Some (fst (last vs)))"
  unfolding add_all_new Let_def
  using add_all_more [of "(new_counter F)\<lparr>ct_first := Some now, ct_min := v, ct_max := v\<rparr>" F vs]
  by (simp add: new_counter_def)

section \<open>Properties\<close>

text \<open>
  A counter holds the least and the largest of all its values, but the number, sum and sum
  of squares of all values except the first, and the times of the first and the last.
\<close>

lemma counter_holds:
  "let x = add_all F ((now, v) # vs) (new_counter F) in
     ct_count x = int (length vs) \<and>
     ct_sum x = foldl (f_add F) (f_int F 0) (map snd vs) \<and>
     ct_sum2 x = foldl (f_add F) (f_int F 0) (map (\<lambda>(t, v). f_mul F v v) vs) \<and>
     ct_min x = foldl (f_min F) v (map snd vs) \<and> ct_max x = foldl (f_max F) v (map snd vs) \<and>
     ct_first x = Some now \<and> ct_last x = (if vs = [] then None else Some (fst (last vs)))"
  by (rule counter_state)

definition real_ops :: "real flops" where
  "real_ops = \<lparr>f_int = of_int, f_add = (+), f_sub = (-), f_mul = (*), f_div = (/), f_sqrt = sqrt,
     f_min = min, f_max = max, f_trunc = (\<lambda>r. if r < 0 then \<lceil>r\<rceil> else \<lfloor>r\<rfloor>),
     f_seconds = (\<lambda>d. of_int d / 1000000000)\<rparr>"

lemma foldl_sum: "foldl (+) (a :: real) xs = a + sum_list xs"
  by (induction xs arbitrary: a) auto

lemma variance:
  assumes "xs \<noteq> []" "m = sum_list xs / real (length xs)"
  shows "sum_list (map (\<lambda>v. v * v) xs) / real (length xs) - m * m =
    sum_list (map (\<lambda>v. (v - m) * (v - m)) xs) / real (length xs)"
proof -
  define n s2 where "n = real (length xs)" and "s2 = sum_list (map (\<lambda>v. v * v) xs)"
  have "sum_list (map (\<lambda>v. (v - m) * (v - m)) xs) =
      sum_list (map (\<lambda>v. v * v) xs) - 2 * m * sum_list xs + real (length xs) * (m * m)"
    by (induction xs) (auto simp: algebra_simps)
  also have "\<dots> = s2 - n * (m * m)" using assms by (simp add: n_def s2_def)
  finally have e: "sum_list (map (\<lambda>v. (v - m) * (v - m)) xs) = s2 - n * (m * m)" .
  have "n \<noteq> 0" using assms(1) by (simp add: n_def)
  then have "s2 / n - m * m = (s2 - n * (m * m)) / n" by (simp add: diff_divide_distrib)
  then show ?thesis unfolding e unfolding n_def [symmetric] s2_def [symmetric] .
qed

text \<open>
  In exact arithmetic, Average and Stddev of a counter are the mean and the standard
  deviation of all its values but the first, once there are two.
\<close>

lemma counter_statistics:
  assumes "vs \<noteq> []"
  shows "let s = ct_Stats real_ops (add_all real_ops ((now, v) # vs) (new_counter real_ops));
             n = real (length vs); m = sum_list (map snd vs) / n in
    cs_Average s = m \<and> cs_Stddev s = sqrt (sum_list (map (\<lambda>(t, x). (x - m) * (x - m)) vs) / n) \<and>
    cs_Count s = int (length vs)"
proof -
  let ?x = "add_all real_ops ((now, v) # vs) (new_counter real_ops)"
  let ?n = "real (length vs)" and ?m = "sum_list (map snd vs) / real (length vs)"
  have x: "ct_count ?x = int (length vs)" "ct_sum ?x = sum_list (map snd vs)"
    "ct_sum2 ?x = sum_list (map (\<lambda>v. v * v) (map snd vs))"
    using counter_state [of real_ops now v vs]
    by (simp_all add: Let_def real_ops_def foldl_sum split_def comp_def)
  have "sum_list (map (\<lambda>v. v * v) (map snd vs)) / ?n - ?m * ?m =
      sum_list (map (\<lambda>v. (v - ?m) * (v - ?m)) (map snd vs)) / ?n"
    using variance [of "map snd vs" ?m] assms by simp
  with x show ?thesis
    by (simp add: Let_def ct_Stats_def average_def stddev_def real_ops_def split_def comp_def)
qed

lemma counter_statistics_witness:
  "[(1, 2), (2, 4 :: real)] \<noteq> [] \<and>
   (let s = ct_Stats real_ops (add_all real_ops [(0, 9), (1, 2), (2, 4)] (new_counter real_ops))
    in cs_Average s = 3 \<and> cs_Stddev s = 1 \<and> cs_Count s = 2)"
  using counter_statistics [of "[(1, 2), (2, 4)]" 0 9] by (simp add: Let_def)

text \<open>With one value or none, the average is that of no values: zero divided by zero.\<close>

lemma average_of_none:
  "average F (add_all F [(now, v)] (new_counter F)) = f_div F (f_int F 0) (f_int F 0)"
  "average F (new_counter F) = f_div F (f_int F 0) (f_int F 0)"
  by (simp_all add: average_def add_all_def ct_Add_def new_counter_def)

definition dur_unit :: "int \<Rightarrow> int \<times> string" where
  "dur_unit d =
     (if d \<ge> Hour then (Hour, ''h'') else if d \<ge> Minute then (Minute, ''m'')
      else if d \<ge> Second then (Second, ''s'') else if d \<ge> Millisecond then (Millisecond, ''ms'')
      else if d \<ge> Microsecond then (Microsecond, [char_of (0xC2 :: nat), char_of (0xB5 :: nat)] @ ''s'')
      else (1, ''ns''))"

lemma fmtDur_unit:
  "fmtDur hours d = (if Hour \<le> d then hours d else show_int (d div fst (dur_unit d))) @ snd (dur_unit d)"
  by (simp add: fmtDur_def dur_unit_def)

lemmas unit_defs = Hour_def Minute_def Second_def Millisecond_def Microsecond_def

lemma dur_unit_largest:
  "fst (dur_unit d) \<le> d \<or> dur_unit d = (1, ''ns'')" "0 < fst (dur_unit d)"
  "u \<in> {Hour, Minute, Second, Millisecond, Microsecond} \<Longrightarrow> u \<le> d \<Longrightarrow> u \<le> fst (dur_unit d)"
  by (auto simp: dur_unit_def unit_defs)

text \<open>
  The summary in Stats of a latency meter is what its String method prints, and every
  duration in it is printed in the largest unit it is not shorter than, rounded down; one
  shorter than a microsecond, or negative, in nanoseconds.
\<close>

lemma latency_summary:
  "ls_Summary (lm_Stats F hours x) = lm_String F hours x \<and>
   (\<forall>d. \<exists>unit nm. fmtDur hours d = (if Hour \<le> d then hours d else show_int (d div unit)) @ nm \<and>
      (unit, nm) \<in> {(Hour, ''h''), (Minute, ''m''), (Second, ''s''), (Millisecond, ''ms''),
        (Microsecond, [char_of (0xC2 :: nat), char_of (0xB5 :: nat)] @ ''s''), (1, ''ns'')} \<and>
      (unit \<le> d \<or> unit = 1) \<and> (\<forall>u \<in> {Hour, Minute, Second, Millisecond, Microsecond}. u \<le> d \<longrightarrow> u \<le> unit) \<and>
      d div unit * unit \<le> d \<and> d < (d div unit + 1) * unit)"
  (is "_ \<and> (\<forall>d. \<exists>unit nm. ?P d unit nm)")
proof (intro conjI allI)
  show "ls_Summary (lm_Stats F hours x) = lm_String F hours x"
    by (simp add: lm_Stats_def Summarize_def lm_String_def ct_Stats_def lm_Average_def lm_Stddev_def
        lm_Min_def lm_Max_def)
next
  fix d
  obtain unit nm where u: "dur_unit d = (unit, nm)" by (cases "dur_unit d")
  have "(unit, nm) \<in> {(Hour, ''h''), (Minute, ''m''), (Second, ''s''), (Millisecond, ''ms''),
        (Microsecond, [char_of (0xC2 :: nat), char_of (0xB5 :: nat)] @ ''s''), (1, ''ns'')}"
    unfolding u [symmetric] by (simp add: dur_unit_def)
  moreover have "0 < unit" using dur_unit_largest(2) [of d] u by simp
  then have m: "0 \<le> d mod unit" "d mod unit < unit" by simp_all
  have "d div unit * unit + d mod unit = d" "(d div unit + 1) * unit = d div unit * unit + unit"
    by (simp_all add: distrib_right)
  with m have "d div unit * unit \<le> d" "d < (d div unit + 1) * unit" by linarith+
  moreover have "\<forall>u \<in> {Hour, Minute, Second, Millisecond, Microsecond}. u \<le> d \<longrightarrow> u \<le> unit"
    using dur_unit_largest(3) [of _ d] u by simp
  moreover have "unit \<le> d \<or> unit = 1" using dur_unit_largest(1) [of d] u by auto
  moreover have "fmtDur hours d = (if Hour \<le> d then hours d else show_int (d div unit)) @ nm"
    using fmtDur_unit [of hours d] u by simp
  ultimately have "?P d unit nm" by blast
  then show "\<exists>unit nm. ?P d unit nm" by blast
qed

lemma latency_summary_witness:
  "\<forall>hours. \<exists>unit nm. fmtDur hours 1500000 = show_int (1500000 div unit) @ nm \<and>
     (unit \<le> 1500000 \<or> unit = 1) \<and> Millisecond \<le> unit \<and>
     ls_Summary (lm_Stats real_ops hours \<lparr>lm_ctr = new_counter real_ops\<rparr>) =
     lm_String real_ops hours \<lparr>lm_ctr = new_counter real_ops\<rparr>"
proof (intro allI)
  fix hours
  note l = latency_summary [of real_ops hours "\<lparr>lm_ctr = new_counter real_ops\<rparr>"]
  from l [THEN conjunct2, THEN spec, of 1500000] obtain unit nm where
    "fmtDur hours 1500000 = (if Hour \<le> 1500000 then hours 1500000 else show_int (1500000 div unit)) @ nm"
    "unit \<le> 1500000 \<or> unit = 1"
    "\<forall>u \<in> {Hour, Minute, Second, Millisecond, Microsecond}. u \<le> 1500000 \<longrightarrow> u \<le> unit" by blast
  then have "fmtDur hours 1500000 = show_int (1500000 div unit) @ nm" "unit \<le> 1500000 \<or> unit = 1"
    "Millisecond \<le> unit" by (simp_all add: unit_defs)
  with l show "\<exists>unit nm. fmtDur hours 1500000 = show_int (1500000 div unit) @ nm \<and>
     (unit \<le> 1500000 \<or> unit = 1) \<and> Millisecond \<le> unit \<and>
     ls_Summary (lm_Stats real_ops hours \<lparr>lm_ctr = new_counter real_ops\<rparr>) =
     lm_String real_ops hours \<lparr>lm_ctr = new_counter real_ops\<rparr>" by blast
qed

end
