(* ===== verification/XdrPrint.thy ===== *)
theory XdrPrint imports JsonCodec begin

text \<open>
  The back end XdrPrint (cmd/goxdr/header.go.in), which shows a value as lines of text: a
  path, a colon and the value at it. The model follows XdrPrint.Marshal over the XdrRecurse,
  XdrMarshalValue and XdrMarshalN methods goxdr emits; what it returns is what is written.
  \<open>lns_typ\<close> is the specification: the lines of an XDR value.
\<close>

section \<open>XdrPrint\<close>

definition px_line :: "string \<Rightarrow> string \<Rightarrow> string" where
  "px_line name s = name @ '': '' @ s @ [NL]"

text \<open>The paths the emitted methods and Marshal make with Sprintf.\<close>

definition index_name :: "string \<Rightarrow> nat \<Rightarrow> string" where
  "index_name name i = name @ ''['' @ decimal i @ '']''"

definition member_name :: "string \<Rightarrow> string \<Rightarrow> string" where
  "member_name name field = (if name \<noteq> [] then name @ ''.'' else []) @ field"

definition deref_name :: "string \<Rightarrow> string" where
  "deref_name name = ''(*'' @ name @ '')''"

definition bool_text :: "bool \<Rightarrow> string" where
  "bool_text b = (if b then ''true'' else ''false'')"

type_synonym print_out = "string \<Rightarrow> tname \<Rightarrow> val \<Rightarrow> go_panic + string"

text \<open>What is written by two steps in order.\<close>

definition px_seq :: "go_panic + string \<Rightarrow> go_panic + string \<Rightarrow> go_panic + string" where
  "px_seq p q = bindE p (\<lambda>s. bindE q (\<lambda>t. Inr (s @ t)))"

text \<open>The String methods of the base types; an XdrVoid marshals as nothing.\<close>

definition px_base :: "golib \<Rightarrow> base \<Rightarrow> string \<Rightarrow> val \<Rightarrow> go_panic + string" where
  "px_base L b name v =
     (let show = (\<lambda>s. Inr (px_line name s)) in
      case v of
        VBool x \<Rightarrow> if b = Bool then show (bool_text x) else Inl Stuck
      | VNum32 w \<Rightarrow>
          (case b of
             Int32 \<Rightarrow> show (show_int (sint w))
           | Uint32 \<Rightarrow> show (show_int (uint w))
           | Float32 \<Rightarrow> show (l_show32 L w)
           | _ \<Rightarrow> Inl Stuck)
      | VNum64 w \<Rightarrow>
          (case b of
             Int64 \<Rightarrow> show (show_int (sint w))
           | Uint64 \<Rightarrow> show (show_int (uint w))
           | Float64 \<Rightarrow> show (l_show64 L w)
           | _ \<Rightarrow> Inl Stuck)
      | VVoid \<Rightarrow> if b = Void then Inr [] else Inl Stuck
      | _ \<Rightarrow> Inl Stuck)"

fun px_bytes :: "string \<Rightarrow> val \<Rightarrow> go_panic + string" where
  "px_bytes name (VBytes s) = Inr (px_line name (EncodeToString s))"
| "px_bytes name (VByteArr s) = Inr (px_line name (EncodeToString s))"
| "px_bytes name _ = Inl Stuck"

fun px_string :: "golib \<Rightarrow> string \<Rightarrow> val \<Rightarrow> go_panic + string" where
  "px_string L name (VString s) = Inr (px_line name (quoted L (chars_of s)))"
| "px_string L name _ = Inl Stuck"

text \<open>The case XdrPtr, with XdrMarshalValue.\<close>

fun px_ptr :: "print_out \<Rightarrow> string \<Rightarrow> tname \<Rightarrow> val \<Rightarrow> go_panic + string" where
  "px_ptr rec name t (VPtr p) =
     px_seq (Inr (px_line (name @ ''.present'') (bool_text (p \<noteq> None))))
       (case p of None \<Rightarrow> Inr [] | Some v \<Rightarrow> rec (deref_name name) t v)"
| "px_ptr rec name t _ = Inl Stuck"

fun px_each :: "(string \<Rightarrow> val \<Rightarrow> go_panic + string) \<Rightarrow> string \<Rightarrow> nat \<Rightarrow> val list \<Rightarrow> go_panic + string" where
  "px_each f name i [] = Inr []"
| "px_each f name i (v # vs) = px_seq (f (index_name name i) v) (px_each f name (Suc i) vs)"

fun px_array :: "print_out \<Rightarrow> string \<Rightarrow> tname \<Rightarrow> val \<Rightarrow> go_panic + string" where
  "px_array rec name t (VArr vs) = px_each (\<lambda>n. rec n t) name 0 vs"
| "px_array rec name t _ = Inl Stuck"

text \<open>The case XdrVec, with XdrMarshalN of the length.\<close>

fun px_vec :: "print_out \<Rightarrow> u32 \<Rightarrow> string \<Rightarrow> tname \<Rightarrow> val \<Rightarrow> go_panic + string" where
  "px_vec rec bound name t (VSlice l b) =
     (let n = (of_nat l :: u32) in
      px_seq (Inr (px_line (name @ ''.len'') (decimal (unat n))))
        (bindE (XdrCheckLen bound n) (\<lambda>_. px_each (\<lambda>m. rec m t) name 0 (take (unat n) b))))"
| "px_vec rec bound name t _ = Inl Stuck"

definition px_decl :: "golib \<Rightarrow> print_out \<Rightarrow> string \<Rightarrow> rpc_decl \<Rightarrow> val \<Rightarrow> go_panic + string" where
  "px_decl L rec name d =
     (if d_typ d = Base String then px_string L name
      else if d_typ d = Base Byte then px_bytes name
      else case d_qual d of
        SCALAR \<Rightarrow> rec name (d_typ d)
      | PTR \<Rightarrow> px_ptr rec name (d_typ d)
      | ARRAY \<Rightarrow> px_array rec name (d_typ d)
      | VEC \<Rightarrow> px_vec rec (d_bound d) name (d_typ d))"

fun px_fields :: "golib \<Rightarrow> print_out \<Rightarrow> string \<Rightarrow> rpc_decl list \<Rightarrow> val list \<Rightarrow> go_panic + string" where
  "px_fields L rec name [] [] = Inr []"
| "px_fields L rec name (d # ds) (v # vs) =
     px_seq (px_decl L rec (member_name name (d_id d)) d v) (px_fields L rec name ds vs)"
| "px_fields L rec name _ _ = Inl Stuck"

fun px_struct :: "golib \<Rightarrow> print_out \<Rightarrow> string \<Rightarrow> rpc_decl list \<Rightarrow> val \<Rightarrow> go_panic + string" where
  "px_struct L rec name ds (VStruct vs) = px_fields L rec name ds vs"
| "px_struct L rec name ds _ = Inl Stuck"

fun px_union :: "pkg \<Rightarrow> golib \<Rightarrow> print_out \<Rightarrow> string \<Rightarrow> rpc_union \<Rightarrow> val \<Rightarrow> go_panic + string" where
  "px_union P L rec name u (VUnion tag body) =
     px_seq (rec (member_name name (u_tagid u)) (u_tagtype u) tag)
       (case GetU32 tag of
          None \<Rightarrow> Inl Stuck
        | Some disc \<Rightarrow>
           (case select_arm u disc of
              None \<Rightarrow> Inl (XdrError (InvalidTag (u_tagid u) disc))
            | Some f \<Rightarrow>
                if isVoid f then Inr []
                else bindE (arm_access P u f disc body) (\<lambda>v.
                  px_decl L rec (member_name name (d_id (uf_decl f))) (uf_decl f) v)))"
| "px_union P L rec name u _ = Inl Stuck"

fun px_enum :: "string \<Rightarrow> (string \<times> u32) list \<Rightarrow> string \<Rightarrow> val \<Rightarrow> go_panic + string" where
  "px_enum T tags name (VNum32 w) = Inr (px_line name (enum_String T tags w))"
| "px_enum T tags name _ = Inl Stuck"

fun px_typ :: "pkg \<Rightarrow> golib \<Rightarrow> nat \<Rightarrow> print_out" where
  "px_typ P L 0 name t v = Inl StackOverflow"
| "px_typ P L (Suc n) name (Base b) v = px_base L b name v"
| "px_typ P L (Suc n) name (Ident s) v =
     (case sym_of P s of
        None \<Rightarrow> Inl Stuck
      | Some (Sym_typedef d) \<Rightarrow> px_decl L (px_typ P L n) name d v
      | Some (Sym_enum tags) \<Rightarrow> px_enum s tags name v
      | Some (Sym_struct ds) \<Rightarrow> px_struct L (px_typ P L n) name ds v
      | Some (Sym_union u) \<Rightarrow> px_union P L (px_typ P L n) name u v)"

definition XdrToString :: "pkg \<Rightarrow> golib \<Rightarrow> nat \<Rightarrow> tname \<Rightarrow> val \<Rightarrow> go_panic + string" where
  "XdrToString P L n t v = px_typ P L n [] t v"

section \<open>The lines of an XDR value\<close>

definition lns_line :: "string \<Rightarrow> string \<Rightarrow> string list" where
  "lns_line name s = [name @ '': '' @ s]"

fun lns_base :: "golib \<Rightarrow> base \<Rightarrow> string \<Rightarrow> xval \<Rightarrow> string list" where
  "lns_base L b name (XBool x) = lns_line name (bool_text x)"
| "lns_base L b name (X32 w) = lns_line name
     (if b = Int32 then show_int (sint w) else if b = Uint32 then show_int (uint w) else l_show32 L w)"
| "lns_base L b name (X64 w) = lns_line name
     (if b = Int64 then show_int (sint w) else if b = Uint64 then show_int (uint w) else l_show64 L w)"
| "lns_base L b name _ = []"

fun lns_string :: "golib \<Rightarrow> string \<Rightarrow> xval \<Rightarrow> string list" where
  "lns_string L name (XVar s) = lns_line name (quoted L (chars_of s))"
| "lns_string L name _ = []"

fun lns_hex :: "string \<Rightarrow> xval \<Rightarrow> string list" where
  "lns_hex name (XVar s) = lns_line name (EncodeToString s)"
| "lns_hex name (XFix s) = lns_line name (EncodeToString s)"
| "lns_hex name _ = []"

fun lns_opt :: "(string \<Rightarrow> xval \<Rightarrow> string list) \<Rightarrow> string \<Rightarrow> xval \<Rightarrow> string list" where
  "lns_opt f name (XOpt p) = lns_line (name @ ''.present'') (bool_text (p \<noteq> None)) @
     (case p of None \<Rightarrow> [] | Some a \<Rightarrow> f (deref_name name) a)"
| "lns_opt f name _ = []"

fun lns_each :: "(string \<Rightarrow> xval \<Rightarrow> string list) \<Rightarrow> string \<Rightarrow> nat \<Rightarrow> xval list \<Rightarrow> string list" where
  "lns_each f name i [] = []"
| "lns_each f name i (a # as) = f (index_name name i) a @ lns_each f name (Suc i) as"

fun lns_list :: "(string \<Rightarrow> xval \<Rightarrow> string list) \<Rightarrow> string \<Rightarrow> xval \<Rightarrow> string list" where
  "lns_list f name (XArr as) = lns_each f name 0 as"
| "lns_list f name (XVec as) = lns_line (name @ ''.len'') (decimal (length as)) @ lns_each f name 0 as"
| "lns_list f name _ = []"

definition lns_decl :: "golib \<Rightarrow> (tname \<Rightarrow> string \<Rightarrow> xval \<Rightarrow> string list) \<Rightarrow> rpc_decl \<Rightarrow> string \<Rightarrow> xval \<Rightarrow> string list" where
  "lns_decl L rec d =
     (if d_typ d = Base String then lns_string L
      else if d_typ d = Base Byte then lns_hex
      else case d_qual d of
        SCALAR \<Rightarrow> rec (d_typ d)
      | PTR \<Rightarrow> lns_opt (rec (d_typ d))
      | _ \<Rightarrow> lns_list (rec (d_typ d)))"

fun lns_fields :: "(rpc_decl \<Rightarrow> string \<Rightarrow> xval \<Rightarrow> string list) \<Rightarrow> rpc_decl list \<Rightarrow> string \<Rightarrow> xval list \<Rightarrow> string list" where
  "lns_fields f (d # ds) name (a # as) = f d (member_name name (d_id d)) a @ lns_fields f ds name as"
| "lns_fields f _ name _ = []"

fun lns_struct :: "(rpc_decl \<Rightarrow> string \<Rightarrow> xval \<Rightarrow> string list) \<Rightarrow> rpc_decl list \<Rightarrow> string \<Rightarrow> xval \<Rightarrow> string list" where
  "lns_struct f ds name (XStruct as) = lns_fields f ds name as"
| "lns_struct f ds name _ = []"

fun lns_union :: "golib \<Rightarrow> (tname \<Rightarrow> string \<Rightarrow> xval \<Rightarrow> string list) \<Rightarrow> rpc_union \<Rightarrow> string \<Rightarrow> xval \<Rightarrow> string list" where
  "lns_union L rec u name (XUnion t body) =
     rec (u_tagtype u) (member_name name (u_tagid u)) t @
     (case body of
        None \<Rightarrow> []
      | Some a \<Rightarrow>
         (case bindO (xdisc t) (select_arm u) of
            Some f \<Rightarrow> lns_decl L rec (uf_decl f) (member_name name (d_id (uf_decl f))) a
          | None \<Rightarrow> []))"
| "lns_union L rec u name _ = []"

fun lns_enum :: "string \<Rightarrow> (string \<times> u32) list \<Rightarrow> string \<Rightarrow> xval \<Rightarrow> string list" where
  "lns_enum T tags name (X32 w) = lns_line name (enum_String T tags w)"
| "lns_enum T tags name _ = []"

definition lns_sym :: "golib \<Rightarrow> (tname \<Rightarrow> string \<Rightarrow> xval \<Rightarrow> string list) \<Rightarrow> string \<Rightarrow> rpc_sym \<Rightarrow> string \<Rightarrow> xval \<Rightarrow> string list" where
  "lns_sym L rec s sd =
     (case sd of
        Sym_typedef d \<Rightarrow> lns_decl L rec d
      | Sym_enum tags \<Rightarrow> lns_enum s tags
      | Sym_struct ds \<Rightarrow> lns_struct (lns_decl L rec) ds
      | Sym_union u \<Rightarrow> lns_union L rec u)"

fun lns_typ :: "pkg \<Rightarrow> golib \<Rightarrow> nat \<Rightarrow> tname \<Rightarrow> string \<Rightarrow> xval \<Rightarrow> string list" where
  "lns_typ P L 0 t name a = []"
| "lns_typ P L (Suc n) (Base b) name a = lns_base L b name a"
| "lns_typ P L (Suc n) (Ident s) name a =
     (case sym_of P s of None \<Rightarrow> [] | Some sd \<Rightarrow> lns_sym L (lns_typ P L n) s sd name a)"

end
