(* ===== verification/XdrPrintCorrect.thy ===== *)
theory XdrPrintCorrect imports XdrPrint JsonCorrect begin

text \<open>
  What XdrToString writes: the lines of the value, in order. The lines are a prefix code, so
  values of one type with the same text are equal.
\<close>

section \<open>The contract of the printer\<close>

definition text_of :: "string list \<Rightarrow> string" where
  "text_of ls = concat (map (\<lambda>l. l @ [NL]) ls)"

lemma text_of_simps [simp]:
  "text_of [] = []" "text_of (ls @ ms) = text_of ls @ text_of ms" "text_of (lns_line name s) = px_line name s"
  by (simp_all add: text_of_def lns_line_def px_line_def)

lemma px_seq_Inr [simp]: "px_seq (Inr s) (Inr t) = Inr (s @ t)"
  by (simp add: px_seq_def)

locale printer =
  fixes abs :: abstraction and conf :: conformance
    and lns :: "string \<Rightarrow> xval \<Rightarrow> string list" and outp :: "string \<Rightarrow> val \<Rightarrow> go_panic + string"
  assumes prints: "abs v = Some a \<Longrightarrow> conf a \<Longrightarrow> outp name v = Inr (text_of (lns name a))"
begin

lemma each_prints:
  "list_all conf as \<Longrightarrow> those_opt (map abs vs) = Some as \<Longrightarrow>
   px_each outp name i vs = Inr (text_of (lns_each lns name i as))"
proof (induction vs arbitrary: as i)
  case (Cons v vs)
  then obtain a as' where a: "as = a # as'" "abs v = Some a" "those_opt (map abs vs) = Some as'"
    by (auto simp: bindO_eq_Some)
  with Cons.prems(1) Cons.IH [of as' "Suc i"] prints [OF a(2)] show ?case by simp
qed simp

lemma ptr_prints: "printer (abs_ptr abs) (conf_opt conf) (lns_opt lns) (\<lambda>name. px_ptr (\<lambda>n t. outp n) name t)"
  by unfold_locales (auto simp: abs_ptr_Some conf_opt_iff prints)

lemma array_prints: "printer (abs_array abs) (conf_arr k conf) (lns_list lns) (\<lambda>name. px_array (\<lambda>n t. outp n) name t)"
  by unfold_locales (auto simp: abs_array_Some each_prints)

lemma vec_prints: "printer (abs_vec abs) (conf_vec bound conf) (lns_list lns) (\<lambda>name. px_vec (\<lambda>n t. outp n) bound name t)"
proof
  fix v a name assume "abs_vec abs v = Some a" "conf_vec bound conf a"
  then obtain l b as where v: "v = VSlice l b" "those_opt (map abs (take l b)) = Some as" "l \<le> length b"
      "a = XVec as" "list_all conf as" "length as \<le> unat bound"
    by (auto simp: abs_vec_Some conf_vec_iff)
  have l: "l = length as" using those_opt_length [OF v(2)] v(3) by simp
  note u = len_le_bound [OF v(6)]
  have c: "XdrCheckLen bound (of_nat (length as)) = Inr ()" using u by (simp add: XdrCheckLen_def not_less)
  from each_prints [OF v(5,2), of name 0] u show "px_vec (\<lambda>n t. outp n) bound name t v = Inr (text_of (lns_list lns name a))"
    by (simp add: v(1,4) l Let_def c)
qed

end

interpretation string_printer: printer abs_string "conf_var bound" "lns_string L" "px_string L" for bound L
  by unfold_locales (auto simp: abs_prim_Some)

interpretation enum_printer: printer abs_num32 conf_num32 "lns_enum s tags" "px_enum s tags" for s tags
  by unfold_locales (auto simp: abs_prim_Some)

lemma printer_base: "printer (abs_base b) (conf_base b) (lns_base L b) (px_base L b)"
proof
  fix v a name assume a: "abs_base b v = Some a"
  then show "px_base L b name v = Inr (text_of (lns_base L b name a))"
    by (cases rule: abs_base_cases)
      (use a in \<open>auto simp: px_base_def Let_def abs_base_def abs_prim_Some\<close>)
qed

lemma printer_bytes:
  "printer abs_vecopaque (conf_var bound) lns_hex px_bytes" "printer abs_arropaque (conf_fix k) lns_hex px_bytes"
  by (unfold_locales; auto simp: abs_prim_Some)+

lemma printer_decl:
  assumes ok: "decl_ok P d" and rec: "\<And>t. json_sort P t \<Longrightarrow> printer (A t) (C t) (T t) (\<lambda>name. Wr name t)"
  shows "printer (abs_decl A d) (conf_decl C d) (lns_decl L T d) (\<lambda>name. px_decl L Wr name d)"
proof (cases "d_typ d = Base String \<or> d_typ d = Base Byte")
  case True
  with ok show ?thesis
    by (auto simp: decl_ok_def abs_decl_def conf_decl_def lns_decl_def px_decl_def printer_bytes
        string_printer.printer_axioms)
next
  case False
  with decl_typ_ok [OF ok] ok have "json_sort P (d_typ d)"
    by (auto simp: json_sort_def scalar_ok_def decl_ok_def)
  from rec [OF this] have c: "printer (A (d_typ d)) (C (d_typ d)) (T (d_typ d)) (\<lambda>name. Wr name (d_typ d))" .
  have "px_ptr Wr name t v = px_ptr (\<lambda>n t. Wr n (d_typ d)) name t v" if "t = d_typ d" for name t v
    using that by (cases v) simp_all
  moreover have "px_array Wr name t v = px_array (\<lambda>n t. Wr n (d_typ d)) name t v" if "t = d_typ d" for name t v
    using that by (cases v) simp_all
  moreover have "px_vec Wr b name t v = px_vec (\<lambda>n t. Wr n (d_typ d)) b name t v" if "t = d_typ d" for b name t v
    using that by (cases v) (simp_all add: Let_def)
  ultimately show ?thesis
    using False c printer.ptr_prints [OF c] printer.array_prints [OF c] printer.vec_prints [OF c]
    by (cases "d_qual d") (simp_all add: abs_decl_def conf_decl_def lns_decl_def px_decl_def printer_def)
qed

lemma fields_print_lines:
  assumes "\<And>d. d \<in> set ds \<Longrightarrow> printer (A d) (C d) (T d) (\<lambda>name. px_decl L Wr name d)"
  shows "length ds = length vs \<Longrightarrow> list_all2 C ds as \<Longrightarrow> list_all2 (\<lambda>(d, v) a. A d v = Some a) (zip ds vs) as \<Longrightarrow>
    px_fields L Wr name ds vs = Inr (text_of (lns_fields T ds name as))"
  using assms
proof (induction ds arbitrary: vs as)
  case (Cons d ds)
  then obtain v vs' a as' where s: "vs = v # vs'" "as = a # as'" "A d v = Some a" "C d a"
    by (cases vs; cases as) auto
  have "printer (A d) (C d) (T d) (\<lambda>name. px_decl L Wr name d)" using Cons.prems(4) by simp
  from printer.prints [OF this s(3,4)] Cons.IH [of vs' as'] Cons.prems s show ?case by simp
qed simp

lemma printer_struct:
  assumes "\<And>d. d \<in> set ds \<Longrightarrow> printer (A d) (C d) (T d) (\<lambda>name. px_decl L Wr name d)"
  shows "printer (abs_struct (map A ds)) (conf_struct (map C ds)) (lns_struct T ds) (\<lambda>name. px_struct L Wr name ds)"
  by unfold_locales (auto simp: abs_struct_Some conf_struct_iff fields_print_lines [OF assms])

lemma printer_union:
  assumes tag: "printer (A (u_tagtype u)) (C (u_tagtype u)) (T (u_tagtype u)) (\<lambda>name. Wr name (u_tagtype u))"
    and disc: "\<And>v a w. A (u_tagtype u) v = Some a \<Longrightarrow> GetU32 v = Some w \<longleftrightarrow> xdisc a = Some w"
    and arm: "\<And>f. f \<in> set (u_fields u) \<Longrightarrow> \<not> isVoid f \<Longrightarrow>
      printer (abs_decl A (uf_decl f)) (conf_decl C (uf_decl f)) (lns_decl L T (uf_decl f)) (\<lambda>name. px_decl L Wr name (uf_decl f))"
  shows "printer (abs_union P A u) (conf_union C u) (lns_union L T u) (\<lambda>name. px_union P L Wr name u)"
proof
  fix v a name assume ab: "abs_union P A u v = Some a" and cf: "conf_union C u a"
  from ab obtain tg body t w f where v: "v = VUnion tg body" "A (u_tagtype u) tg = Some t" "GetU32 tg = Some w"
      "select_arm u w = Some f"
    and x: "if isVoid f then a = XUnion t None
      else \<exists>x. abs_decl A (uf_decl f) (arm_body P (go_decl P (uf_decl f)) body) = Some x \<and> a = XUnion t (Some x)"
    unfolding abs_union_Some by blast
  have dw: "xdisc t = Some w" using disc [OF v(2), of w] v(3) by simp
  have ct: "C (u_tagtype u) t" using cf x by (auto simp: conf_union_iff split: if_splits)
  note p = printer.prints [OF tag v(2) ct]
  show "px_union P L Wr name u v = Inr (text_of (lns_union L T u name a))"
  proof (cases "isVoid f")
    case True
    with x v p show ?thesis by simp
  next
    case False
    with x obtain y where y: "abs_decl A (uf_decl f) (arm_body P (go_decl P (uf_decl f)) body) = Some y" "a = XUnion t (Some y)"
      by auto
    with cf dw v(4) False have cy: "conf_decl C (uf_decl f) y" by (auto simp: conf_union_iff split: if_splits)
    from printer.prints [OF arm [OF select_arm_in [OF v(4)] False] y(1) cy] False v dw p
    show ?thesis by (simp add: y(2) arm_access_selected)
  qed
qed

lemma px_typ_fun:
  "px_typ P L (Suc n) name (Base b) = px_base L b name"
  "sym_of P s = Some sd \<Longrightarrow> px_typ P L (Suc n) name (Ident s) =
     (case sd of
        Sym_typedef d \<Rightarrow> px_decl L (px_typ P L n) name d
      | Sym_enum tags \<Rightarrow> px_enum s tags name
      | Sym_struct ds \<Rightarrow> px_struct L (px_typ P L n) name ds
      | Sym_union u \<Rightarrow> px_union P L (px_typ P L n) name u)"
  "lns_typ P L (Suc n) (Base b) = lns_base L b"
  "sym_of P s = Some sd \<Longrightarrow> lns_typ P L (Suc n) (Ident s) = lns_sym L (lns_typ P L n) s sd"
  by (auto simp: fun_eq_iff split: rpc_sym.split)

lemma printer_typ:
  assumes "wf_pkg P" "json_sort P t"
  shows "printer (abs_typ P n t) (conf_typ P n t) (lns_typ P L n t) (\<lambda>name. px_typ P L n name t)"
  using assms(2)
proof (induction n arbitrary: t)
  case 0
  then show ?case by (simp add: printer_def)
next
  case (Suc n)
  show ?case
  proof (cases t)
    case (Base b)
    then show ?thesis by (simp only: px_typ_fun abs_typ.simps conf_typ.simps printer_base)
  next
    case (Ident s)
    with Suc.prems obtain sd where s: "sym_of P s = Some sd" by (auto simp: json_sort_def scalar_ok_def typ_ok_def)
    note wfs = wf_pkg_sym [OF assms(1) s, unfolded wf_sym_def]
    have decl: "printer (abs_decl (abs_typ P n) d) (conf_decl (conf_typ P n) d) (lns_decl L (lns_typ P L n) d)
        (\<lambda>name. px_decl L (px_typ P L n) name d)" if "decl_ok P d" for d
      by (rule printer_decl [OF that]) (rule Suc.IH)
    note eqs = px_typ_fun(2,4) [OF s] s abs_sym_def conf_sym_def lns_sym_def
    show ?thesis
    proof (cases sd)
      case (Sym_typedef d)
      with wfs decl Ident show ?thesis by (simp add: eqs)
    next
      case (Sym_enum tags)
      with Ident show ?thesis by (simp add: eqs enum_printer.printer_axioms)
    next
      case (Sym_struct ds)
      have "printer (abs_struct (map (abs_decl (abs_typ P n)) ds)) (conf_struct (map (conf_decl (conf_typ P n)) ds))
          (lns_struct (lns_decl L (lns_typ P L n)) ds) (\<lambda>name. px_struct L (px_typ P L n) name ds)"
        by (rule printer_struct) (use Sym_struct wfs decl in \<open>auto simp: list_all_iff\<close>)
      with Sym_struct Ident show ?thesis by (simp add: eqs)
    next
      case (Sym_union u)
      then have tag: "json_sort P (u_tagtype u)" using wfs by (simp add: tag_json_sort)
      have "printer (abs_union P (abs_typ P n) u) (conf_union (conf_typ P n) u) (lns_union L (lns_typ P L n) u)
          (\<lambda>name. px_union P L (px_typ P L n) name u)"
        by (rule printer_union [OF Suc.IH [OF tag] disc_typ decl])
          (use Sym_union wfs in \<open>auto simp: list_all_iff\<close>)
      with Sym_union Ident show ?thesis by (simp add: eqs)
    qed
  qed
qed

section \<open>The lines determine the value\<close>

definition plain_id :: "string \<Rightarrow> bool" where
  "plain_id s \<longleftrightarrow> NL \<notin> set s"

text \<open>
  What the text of a value needs to be unambiguous: the values of a type, the lines they
  have, no line break within a line, and no two values of which one's lines begin the other's.
\<close>

locale shown =
  fixes conf :: conformance and lns :: "string \<Rightarrow> xval \<Rightarrow> string list"
  assumes unique: "conf a \<Longrightarrow> conf b \<Longrightarrow> lns name a @ r = lns name b @ r' \<Longrightarrow> a = b \<and> r = r'"
    and unbroken: "conf a \<Longrightarrow> plain_id name \<Longrightarrow> l \<in> set (lns name a) \<Longrightarrow> plain_id l"
begin

lemma each_unique:
  "list_all conf as \<Longrightarrow> list_all conf bs \<Longrightarrow> length as = length bs \<Longrightarrow>
   lns_each lns name i as @ r = lns_each lns name i bs @ r' \<Longrightarrow> as = bs \<and> r = r'"
proof (induction as arbitrary: bs i)
  case (Cons a as)
  then obtain b bs' where b: "bs = b # bs'" by (cases bs) auto
  with Cons.prems have c: "conf a" "conf b" "list_all conf as" "list_all conf bs'" "length as = length bs'"
    and e: "lns (index_name name i) a @ lns_each lns name (Suc i) as @ r =
      lns (index_name name i) b @ lns_each lns name (Suc i) bs' @ r'" by simp_all
  from unique [OF c(1,2) e] Cons.IH [OF c(3-5)] b show ?case by blast
qed simp

end

lemma lns_line_eq [simp]: "lns_line name s = lns_line name s' \<longleftrightarrow> s = s'"
  by (simp add: lns_line_def)

lemma lns_line_app [simp]: "lns_line name s @ r = lns_line name s' @ r' \<longleftrightarrow> s = s' \<and> r = r'"
  by (simp add: lns_line_def)

lemma plain_id_app [simp]:
  "plain_id (s @ t) \<longleftrightarrow> plain_id s \<and> plain_id t" "plain_id []" "plain_id (c # s) \<longleftrightarrow> c \<noteq> NL \<and> plain_id s"
  by (auto simp: plain_id_def)

lemma NL_byte: "byte_at NL = 10"
  by code_simp

lemma plain_texts [simp]:
  "plain_id (decimal n)" "plain_id (show_int i)" "plain_id (bool_text b)" "plain_id (EncodeToString bs)"
proof -
  show d: "plain_id (decimal n)" for n
    using decimal_dec [of n] NL_byte by (auto simp: plain_id_def list_all_iff dec_char_def)
  show "plain_id (show_int i)" using d by (simp add: show_int_def NL_def)
  show "plain_id (bool_text b)" by (simp add: bool_text_def NL_def)
  show "plain_id (EncodeToString bs)"
    using Encode_plain [of bs] NL_byte by (auto simp: plain_id_def list_all_iff plain_char_def)
qed

lemma plain_line: "l \<in> set (lns_line name s) \<Longrightarrow> plain_id name \<Longrightarrow> plain_id s \<Longrightarrow> plain_id l"
  by (auto simp: lns_line_def NL_def)

lemma plain_names [simp]:
  "plain_id (index_name name i) \<longleftrightarrow> plain_id name" "plain_id (deref_name name) \<longleftrightarrow> plain_id name"
  "plain_id name \<Longrightarrow> plain_id f \<Longrightarrow> plain_id (member_name name f)"
  by (auto simp: index_name_def deref_name_def member_name_def NL_def)

lemma plain_suffix [simp]: "plain_id ''.present''" "plain_id ''.len''"
  by (simp_all add: NL_def)

context shown begin

lemma each_unbroken:
  "list_all conf as \<Longrightarrow> plain_id name \<Longrightarrow> l \<in> set (lns_each lns name i as) \<Longrightarrow> plain_id l"
proof (induction as arbitrary: i)
  case (Cons a as)
  then show ?case using unbroken [of a "index_name name i" l] by auto
qed simp

lemma opt_shown: "shown (conf_opt conf) (lns_opt lns)"
proof
  fix a b name r r' assume c: "conf_opt conf a" "conf_opt conf b" "lns_opt lns name a @ r = lns_opt lns name b @ r'"
  then obtain p q where pq: "a = XOpt p" "b = XOpt q" by (auto simp: conf_opt_iff)
  from c(3) have "(p \<noteq> None) = (q \<noteq> None)" by (auto simp: pq bool_text_def split: if_splits)
  then consider "p = None" "q = None" | x y where "p = Some x" "q = Some y" by auto
  then show "a = b \<and> r = r'"
  proof cases
    case 1
    with c(3) show ?thesis by (simp add: pq)
  next
    case 2
    from unique [of x y "deref_name name" r r'] c show ?thesis by (simp add: pq 2)
  qed
next
  fix a name l assume c: "conf_opt conf a" "plain_id name" "l \<in> set (lns_opt lns name a)"
  then obtain p where p: "a = XOpt p" by (auto simp: conf_opt_iff)
  show "plain_id l"
  proof (cases "l \<in> set (lns_line (name @ ''.present'') (bool_text (p \<noteq> None)))")
    case True
    then show ?thesis by (rule plain_line) (use c(2) in \<open>simp_all del: plain_id_app(3)\<close>)
  next
    case False
    with c p obtain x where "p = Some x" "l \<in> set (lns (deref_name name) x)" by (cases p) auto
    with c p unbroken [of x "deref_name name" l] show ?thesis by simp
  qed
qed

lemma arr_shown: "shown (conf_arr k conf) (lns_list lns)"
proof
  fix a b name r r' assume c: "conf_arr k conf a" "conf_arr k conf b" "lns_list lns name a @ r = lns_list lns name b @ r'"
  then obtain as bs where ab: "a = XArr as" "b = XArr bs" "list_all conf as" "list_all conf bs" "length as = length bs"
    by (auto simp: conf_arr_iff)
  from c(3) have "lns_each lns name 0 as @ r = lns_each lns name 0 bs @ r'" by (simp add: ab)
  from each_unique [OF ab(3-5) this] show "a = b \<and> r = r'" by (simp add: ab)
next
  fix a name l assume "conf_arr k conf a" "plain_id name" "l \<in> set (lns_list lns name a)"
  then show "plain_id l" by (auto simp: conf_arr_iff intro: each_unbroken)
qed

lemma vec_shown: "shown (conf_vec bound conf) (lns_list lns)"
proof
  fix a b name r r' assume c: "conf_vec bound conf a" "conf_vec bound conf b" "lns_list lns name a @ r = lns_list lns name b @ r'"
  then obtain as bs where ab: "a = XVec as" "b = XVec bs" "list_all conf as" "list_all conf bs" by (auto simp: conf_vec_iff)
  from c(3) have "length as = length bs" "lns_each lns name 0 as @ r = lns_each lns name 0 bs @ r'" by (simp_all add: ab)
  from each_unique [OF ab(3,4) this] show "a = b \<and> r = r'" by (simp add: ab)
next
  fix a name l assume c: "conf_vec bound conf a" "plain_id name" "l \<in> set (lns_list lns name a)"
  then obtain as where a: "a = XVec as" "list_all conf as" by (auto simp: conf_vec_iff)
  show "plain_id l"
  proof (cases "l \<in> set (lns_line (name @ ''.len'') (decimal (length as)))")
    case True
    then show ?thesis by (rule plain_line) (use c(2) in \<open>simp_all del: plain_id_app(3)\<close>)
  next
    case False
    with c a show ?thesis using each_unbroken [OF a(2) c(2)] by auto
  qed
qed

end

text \<open>
  The library's part: strconv.Quote keeps strings apart and escapes line breaks. Floats are
  left out of the types, as Go prints all NaNs alike.
\<close>

definition quote_law :: "golib \<Rightarrow> bool" where
  "quote_law L \<longleftrightarrow> (\<forall>s t. quoted L s = quoted L t \<longrightarrow> s = t) \<and> (\<forall>s. plain_id (quoted L s))"

definition no_float :: "tname \<Rightarrow> bool" where
  "no_float t \<longleftrightarrow> t \<noteq> Base Float32 \<and> t \<noteq> Base Float64"

definition print_names :: "string \<times> rpc_sym \<Rightarrow> bool" where
  "print_names = (\<lambda>(s, sd).
     (case sd of
        Sym_typedef d \<Rightarrow> no_float (d_typ d)
      | Sym_enum tags \<Rightarrow> enum_names s tags
      | Sym_struct ds \<Rightarrow> list_all (\<lambda>d. no_float (d_typ d) \<and> plain_id (d_id d)) ds
      | Sym_union u \<Rightarrow> plain_id (u_tagid u) \<and>
          list_all (\<lambda>f. isVoid f \<or> no_float (d_typ (uf_decl f)) \<and> plain_id (d_id (uf_decl f))) (u_fields u)))"

definition print_pkg :: "pkg \<Rightarrow> bool" where
  "print_pkg P = list_all print_names (p_defs P)"

lemma print_pkg_sym: "print_pkg P \<Longrightarrow> sym_of P s = Some sd \<Longrightarrow> print_names (s, sd)"
  by (auto simp: print_pkg_def sym_of_def list_all_iff dest!: map_of_SomeD)

lemma chars_of_inject: "chars_of s = chars_of t \<longleftrightarrow> s = t"
  by (metis bytes_of_chars)

lemma Encode_inject: "EncodeToString s = EncodeToString t \<longleftrightarrow> s = t"
  by (metis DecodeString_Encode option.inject)

lemma enum_String_inject:
  "enum_names s tags \<Longrightarrow> enum_String s tags w = enum_String s tags x \<longleftrightarrow> w = x"
  by (metis enum_Scan_String option.inject)

lemma XdrSymChar_plain: "list_all XdrSymChar s \<Longrightarrow> plain_id s"
proof -
  have "\<not> XdrSymChar NL" by code_simp
  then show "list_all XdrSymChar s \<Longrightarrow> plain_id s" by (auto simp: plain_id_def list_all_iff)
qed

lemma enum_String_plain: "enum_names s tags \<Longrightarrow> plain_id (enum_String s tags w)"
proof -
  assume e: "enum_names s tags"
  then have "plain_id s" by (simp add: enum_names_def XdrSymChar_plain)
  moreover have "plain_id n" if "find (\<lambda>(s, x). x = w) tags = Some (n, y)" for n y
    using find_in_set [OF that] e by (auto simp: enum_names_def list_all_iff XdrSymChar_plain)
  ultimately show ?thesis by (auto simp: enum_String_def NL_def split: option.split)
qed

text \<open>A value that is one line.\<close>

lemma shown_line:
  assumes "\<And>a. conf a \<Longrightarrow> \<exists>x. a = K x" and "\<And>name x. lns name (K x) = lns_line name (f x)"
    and "\<And>x y. f x = f y \<Longrightarrow> K x = K y" and "\<And>x. plain_id (f x)"
  shows "shown conf lns"
proof
  fix a b name r r' assume c: "conf a" "conf b" "lns name a @ r = lns name b @ r'"
  from assms(1) [OF c(1)] assms(1) [OF c(2)] obtain x y where xy: "a = K x" "b = K y" by blast
  from c(3) have "f x = f y" "r = r'" by (simp_all add: xy assms(2))
  with assms(3) show "a = b \<and> r = r'" unfolding xy by blast
next
  fix a name l assume "conf a" "plain_id name" "l \<in> set (lns name a)"
  with assms(1) [of a] assms(2,4) plain_line show "plain_id l" by metis
qed

lemma shown_string: "quote_law L \<Longrightarrow> shown (conf_var bound) (lns_string L)"
  by (rule shown_line [where K = XVar and f = "\<lambda>s. quoted L (chars_of s)"])
    (auto simp: conf_prim_iff quote_law_def simp flip: chars_of_inject)

lemma shown_hex: "shown (conf_var bound) lns_hex" "shown (conf_fix k) lns_hex"
  by (rule shown_line [where K = XVar and f = EncodeToString], auto simp: conf_prim_iff Encode_inject)
    (rule shown_line [where K = XFix and f = EncodeToString], auto simp: conf_prim_iff Encode_inject)

lemma shown_enum: "enum_names s tags \<Longrightarrow> shown conf_num32 (lns_enum s tags)"
  by (rule shown_line [where K = X32 and f = "enum_String s tags"])
    (auto simp: conf_prim_iff enum_String_inject enum_String_plain)

lemma conf_base_cases:
  assumes "conf_base b a"
  obtains x where "b = Bool" "a = XBool x" | w where "b \<in> {Int32, Uint32, Float32}" "a = X32 w"
    | w where "b \<in> {Int64, Uint64, Float64}" "a = X64 w" | "b = Void" "a = XVoid"
  using assms by (cases "(b, a)" rule: conf_base.cases) auto

lemma shown_base:
  assumes "b \<noteq> Float32" "b \<noteq> Float64"
  shows "shown (conf_base b) (lns_base L b)"
proof
  fix a c name r r' assume c: "conf_base b a" "conf_base b c" "lns_base L b name a @ r = lns_base L b name c @ r'"
  from c(1) show "a = c \<and> r = r'"
    by (cases rule: conf_base_cases; use c(2) in \<open>cases rule: conf_base_cases\<close>;
      use c(3) assms in \<open>auto simp: show_int_inject bool_text_def intro: signed_word_eqI unsigned_word_eqI split: if_splits\<close>)
next
  fix a name l assume "conf_base b a" "plain_id name" "l \<in> set (lns_base L b name a)"
  then show "plain_id l"
    by (cases rule: conf_base_cases) (use assms in \<open>auto elim!: plain_line\<close>)
qed

lemma shown_decl:
  assumes ok: "decl_ok P d" "no_float (d_typ d)" and law: "quote_law L"
    and rec: "\<And>t. json_sort P t \<Longrightarrow> no_float t \<Longrightarrow> shown (C t) (T t)"
  shows "shown (conf_decl C d) (lns_decl L T d)"
proof (cases "d_typ d = Base String \<or> d_typ d = Base Byte")
  case True
  with ok show ?thesis
    by (auto simp: decl_ok_def conf_decl_def lns_decl_def shown_hex shown_string [OF law])
next
  case False
  with decl_typ_ok [OF ok(1)] ok have "json_sort P (d_typ d)"
    by (auto simp: json_sort_def scalar_ok_def decl_ok_def)
  note c = rec [OF this ok(2)]
  show ?thesis
    using False c shown.opt_shown [OF c] shown.arr_shown [OF c] shown.vec_shown [OF c]
    by (cases "d_qual d") (simp_all add: conf_decl_def lns_decl_def)
qed

lemma fields_unique:
  assumes "\<And>d. d \<in> set ds \<Longrightarrow> shown (C d) (T d)"
  shows "list_all2 C ds as \<Longrightarrow> list_all2 C ds bs \<Longrightarrow>
    lns_fields T ds name as @ r = lns_fields T ds name bs @ r' \<Longrightarrow> as = bs \<and> r = r'"
  using assms
proof (induction ds arbitrary: as bs)
  case (Cons d ds)
  then obtain a as' b bs' where s: "as = a # as'" "bs = b # bs'" "C d a" "C d b" "list_all2 C ds as'" "list_all2 C ds bs'"
    by (cases as; cases bs) auto
  have sd: "shown (C d) (T d)" using Cons.prems(4) by simp
  from Cons.prems(3) have "T d (member_name name (d_id d)) a @ lns_fields T ds name as' @ r =
      T d (member_name name (d_id d)) b @ lns_fields T ds name bs' @ r'" by (simp add: s)
  from shown.unique [OF sd s(3,4) this] Cons.IH [OF s(5,6)] Cons.prems(4) s(1,2) show ?case by simp
qed simp

lemma fields_unbroken:
  assumes "\<And>d. d \<in> set ds \<Longrightarrow> shown (C d) (T d) \<and> plain_id (d_id d)" and "plain_id name"
  shows "list_all2 C ds as \<Longrightarrow> l \<in> set (lns_fields T ds name as) \<Longrightarrow> plain_id l"
  using assms(1)
proof (induction ds arbitrary: as)
  case (Cons d ds)
  then obtain a as' where s: "as = a # as'" "C d a" "list_all2 C ds as'" by (cases as) auto
  have sd: "shown (C d) (T d)" "plain_id (member_name name (d_id d))" using Cons.prems(3) assms(2) by simp_all
  from Cons.prems(2) s have "l \<in> set (T d (member_name name (d_id d)) a) \<or> l \<in> set (lns_fields T ds name as')" by simp
  with shown.unbroken [OF sd(1) s(2) sd(2)] Cons.IH [OF s(3)] Cons.prems(3) show ?case by auto
qed simp

lemma shown_struct:
  assumes "\<And>d. d \<in> set ds \<Longrightarrow> shown (C d) (T d) \<and> plain_id (d_id d)"
  shows "shown (conf_struct (map C ds)) (lns_struct T ds)"
proof
  fix a b name r r' assume c: "conf_struct (map C ds) a" "conf_struct (map C ds) b"
    "lns_struct T ds name a @ r = lns_struct T ds name b @ r'"
  then obtain as bs where ab: "a = XStruct as" "b = XStruct bs" "list_all2 C ds as" "list_all2 C ds bs"
    by (auto simp: conf_struct_iff)
  from c(3) have "lns_fields T ds name as @ r = lns_fields T ds name bs @ r'" by (simp add: ab)
  from fields_unique [OF _ ab(3,4) this] assms show "a = b \<and> r = r'" by (simp add: ab)
next
  fix a name l assume c: "conf_struct (map C ds) a" "plain_id name" "l \<in> set (lns_struct T ds name a)"
  then show "plain_id l" using fields_unbroken [OF assms c(2)] by (auto simp: conf_struct_iff)
qed

lemma shown_union:
  assumes tag: "shown (C (u_tagtype u)) (T (u_tagtype u))" "plain_id (u_tagid u)"
    and arm: "\<And>f. f \<in> set (u_fields u) \<Longrightarrow> \<not> isVoid f \<Longrightarrow>
      shown (conf_decl C (uf_decl f)) (lns_decl L T (uf_decl f)) \<and> plain_id (d_id (uf_decl f))"
  shows "shown (conf_union C u) (lns_union L T u)"
proof
  fix a b name r r' assume c: "conf_union C u a" "conf_union C u b" "lns_union L T u name a @ r = lns_union L T u name b @ r'"
  from c(1) obtain t w f where t: "C (u_tagtype u) t" "xdisc t = Some w" "select_arm u w = Some f" "f \<in> set (u_fields u)"
    and a: "isVoid f \<and> a = XUnion t None \<or> \<not> isVoid f \<and> (\<exists>x. conf_decl C (uf_decl f) x \<and> a = XUnion t (Some x))"
    by (rule conf_unionE)
  from c(2) obtain t' w' f' where t': "C (u_tagtype u) t'" "xdisc t' = Some w'" "select_arm u w' = Some f'"
    and b: "isVoid f' \<and> b = XUnion t' None \<or> \<not> isVoid f' \<and> (\<exists>x. conf_decl C (uf_decl f') x \<and> b = XUnion t' (Some x))"
    by (rule conf_unionE)
  obtain s s' where "lns_union L T u name a @ r = T (u_tagtype u) (member_name name (u_tagid u)) t @ s"
    "lns_union L T u name b @ r' = T (u_tagtype u) (member_name name (u_tagid u)) t' @ s'"
    using a b by fastforce
  with shown.unique [OF tag(1) t(1) t'(1)] c(3) have tt: "t' = t" by metis
  with t(2,3) t'(2,3) have f: "f' = f" by simp
  from a show "a = b \<and> r = r'"
  proof (elim disjE conjE exE)
    assume "isVoid f" "a = XUnion t None"
    with b c(3) show ?thesis by (simp add: f tt)
  next
    fix x assume nv: "\<not> isVoid f" and x: "conf_decl C (uf_decl f) x" "a = XUnion t (Some x)"
    from b obtain y where y: "conf_decl C (uf_decl f) y" "b = XUnion t (Some y)" using nv by (auto simp: f tt)
    from c(3) have "lns_decl L T (uf_decl f) (member_name name (d_id (uf_decl f))) x @ r =
        lns_decl L T (uf_decl f) (member_name name (d_id (uf_decl f))) y @ r'" by (simp add: x(2) y(2) t(2,3))
    from shown.unique [OF arm [OF t(4) nv, THEN conjunct1] x(1) y(1) this] show ?thesis by (simp add: x(2) y(2))
  qed
next
  fix a name l assume c: "conf_union C u a" "plain_id name" "l \<in> set (lns_union L T u name a)"
  from c(1) obtain t w f where t: "C (u_tagtype u) t" "xdisc t = Some w" "select_arm u w = Some f" "f \<in> set (u_fields u)"
    and a: "isVoid f \<and> a = XUnion t None \<or> \<not> isVoid f \<and> (\<exists>x. conf_decl C (uf_decl f) x \<and> a = XUnion t (Some x))"
    by (rule conf_unionE)
  have p: "plain_id (member_name name (u_tagid u))" using tag(2) c(2) by simp
  show "plain_id l"
  proof (cases "l \<in> set (T (u_tagtype u) (member_name name (u_tagid u)) t)")
    case True
    then show ?thesis by (rule shown.unbroken [OF tag(1) t(1) p])
  next
    case False
    with a c(3) t obtain x where x: "conf_decl C (uf_decl f) x" "\<not> isVoid f"
      "l \<in> set (lns_decl L T (uf_decl f) (member_name name (d_id (uf_decl f))) x)" by auto
    from arm [OF t(4) x(2)] have s: "shown (conf_decl C (uf_decl f)) (lns_decl L T (uf_decl f))"
      "plain_id (member_name name (d_id (uf_decl f)))" using c(2) by simp_all
    from shown.unbroken [OF s(1) x(1) s(2) x(3)] show ?thesis .
  qed
qed

lemma shown_typ:
  assumes wf: "wf_pkg P" and pp: "print_pkg P" and law: "quote_law L"
  shows "json_sort P t \<Longrightarrow> no_float t \<Longrightarrow> shown (conf_typ P n t) (lns_typ P L n t)"
proof (induction n arbitrary: t)
  case 0
  then show ?case by (simp add: shown_def)
next
  case (Suc n)
  show ?case
  proof (cases t)
    case (Base b)
    with Suc.prems(2) have "b \<noteq> Float32" "b \<noteq> Float64" by (auto simp: no_float_def)
    from shown_base [OF this] Base show ?thesis by (simp only: px_typ_fun conf_typ.simps)
  next
    case (Ident s)
    with Suc.prems obtain sd where s: "sym_of P s = Some sd" by (auto simp: json_sort_def scalar_ok_def typ_ok_def)
    note wfs = wf_pkg_sym [OF wf s, unfolded wf_sym_def]
    note nm = print_pkg_sym [OF pp s, unfolded print_names_def]
    have decl: "shown (conf_decl (conf_typ P n) d) (lns_decl L (lns_typ P L n) d)"
      if "decl_ok P d" "no_float (d_typ d)" for d
      by (rule shown_decl [OF that law]) (rule Suc.IH)
    note eqs = px_typ_fun(4) [OF s] s conf_sym_def lns_sym_def
    show ?thesis
    proof (cases sd)
      case (Sym_typedef d)
      with wfs nm decl Ident show ?thesis by (simp add: eqs)
    next
      case (Sym_enum tags)
      with nm Ident show ?thesis by (simp add: eqs shown_enum)
    next
      case (Sym_struct ds)
      have "shown (conf_struct (map (conf_decl (conf_typ P n)) ds)) (lns_struct (lns_decl L (lns_typ P L n)) ds)"
        by (rule shown_struct) (use Sym_struct wfs nm decl in \<open>auto simp: list_all_iff\<close>)
      with Sym_struct Ident show ?thesis by (simp add: eqs)
    next
      case (Sym_union u)
      then have tok: "tag_ok P (u_tagtype u)" using wfs by simp
      then have "no_float (u_tagtype u)" by (auto simp: no_float_def tag_ok_def)
      from Suc.IH [OF tag_json_sort [OF tok] this]
      have "shown (conf_union (conf_typ P n) u) (lns_union L (lns_typ P L n) u)"
        by (rule shown_union) (use Sym_union wfs nm decl in \<open>auto simp: list_all_iff\<close>)
      with Sym_union Ident show ?thesis by (simp add: eqs)
    qed
  qed
qed

lemma text_of_inject:
  "list_all plain_id ls \<Longrightarrow> list_all plain_id ms \<Longrightarrow> text_of ls = text_of ms \<Longrightarrow> ls = ms"
proof (induction ls arbitrary: ms)
  case Nil
  then show ?case by (cases ms) (simp_all add: text_of_def)
next
  case (Cons l ls)
  then obtain m ms' where m: "ms = m # ms'" by (cases ms) (simp_all add: text_of_def)
  with Cons.prems have e: "l @ NL # text_of ls = m @ NL # text_of ms'" "NL \<notin> set l" "NL \<notin> set m"
    by (simp_all add: text_of_def plain_id_def)
  have "takeWhile (\<lambda>c. c \<noteq> NL) (x @ NL # y) = x" if "NL \<notin> set x" for x y
    using that by (induction x) auto
  with e have "l = m" by metis
  with e(1) Cons m show ?case by simp
qed

lemma lines_plain:
  assumes "shown conf lns" "conf a" "plain_id name"
  shows "list_all plain_id (lns name a)"
  using shown.unbroken [OF assms] by (simp add: list_all_iff)

section \<open>Quote keeps strings apart\<close>

definition ascii :: "char list" where
  "ascii = map (\<lambda>n. char_of (n :: nat)) [0 ..< 128]"

definition escaped :: "char \<Rightarrow> bool" where
  "escaped c \<longleftrightarrow> hd (quote_char c) = CHR 0x5C"

definition apart :: "string \<Rightarrow> string \<Rightarrow> bool" where
  "apart s t \<longleftrightarrow> list_ex (\<lambda>(a, b). a \<noteq> b) (zip s t)"

lemma quote_char_ascii:
  "list_all (\<lambda>c. plain_id (quote_char c) \<and> quote_char c \<noteq> [] \<and> (escaped c \<or> quote_char c = [c])) ascii"
  "sorted_wrt apart (map quote_char (filter escaped ascii))"
  unfolding plain_id_def by code_simp+

lemma in_ascii: "byte_at c < 128 \<Longrightarrow> c \<in> set ascii"
proof -
  assume "byte_at c < 128"
  then have "of_char c < (128 :: nat)"
    unfolding byte_at_def by (metis of_nat_less_iff of_nat_numeral of_nat_of_char)
  then have "char_of (of_char c :: nat) \<in> set ascii" unfolding ascii_def by (simp only: set_map) (rule imageI, simp)
  then show ?thesis by simp
qed

lemma apart_append: "apart s t \<Longrightarrow> s @ x \<noteq> t @ y"
  by (induction s t rule: list_induct2') (auto simp: apart_def)

lemma quote_char_apart:
  assumes "c \<in> set ascii" "d \<in> set ascii" "quote_char c @ x = quote_char d @ y"
  shows "c = d"
proof -
  note q = quote_char_ascii(1) [unfolded list_all_iff, rule_format]
  have h: "hd (quote_char c) = hd (quote_char d)"
    using arg_cong [OF assms(3), of hd] q [OF assms(1)] q [OF assms(2)] by simp
  show ?thesis
  proof (cases "escaped c")
    case False
    with h have "\<not> escaped d" by (simp add: escaped_def)
    with False q [OF assms(1)] q [OF assms(2)] h show ?thesis by auto
  next
    case True
    with h have "escaped d" by (simp add: escaped_def)
    let ?e = "filter escaped ascii"
    from True \<open>escaped d\<close> assms(1,2) have "c \<in> set ?e" "d \<in> set ?e" by simp_all
    then obtain i j where ij: "i < length ?e" "j < length ?e" "?e ! i = c" "?e ! j = d"
      by (auto simp only: in_set_conv_nth)
    have "\<not> i < j"
      using sorted_wrt_nth_less [OF quote_char_ascii(2), of i j] apart_append assms(3) ij by auto
    moreover have "\<not> j < i"
      using sorted_wrt_nth_less [OF quote_char_ascii(2), of j i] apart_append assms(3) [symmetric] ij by auto
    ultimately show ?thesis using ij by simp
  qed
qed

lemma concat_quote_inject:
  "set s \<subseteq> set ascii \<Longrightarrow> set t \<subseteq> set ascii \<Longrightarrow> concat (map quote_char s) = concat (map quote_char t) \<Longrightarrow> s = t"
proof (induction s arbitrary: t)
  case Nil
  then show ?case
    using quote_char_ascii(1) by (cases t) (auto simp: list_all_iff)
next
  case (Cons c s)
  have "quote_char c \<noteq> []" using Cons.prems(1) quote_char_ascii(1) by (simp add: list_all_iff)
  with Cons.prems(3) obtain d t' where t: "t = d # t'" by (cases t) auto
  with Cons.prems have "c = d" by (intro quote_char_apart) auto
  with t Cons show ?case by simp
qed

text \<open>An instance of the library: what is not ASCII is shown in hexadecimal.\<close>

definition px_lib :: golib where
  "px_lib = (jx_lib JNull)\<lparr>l_quote := (\<lambda>s. CHR ''x'' # EncodeToString (bytes_of s))\<rparr>"

lemma bytes_of_inject: "bytes_of s = bytes_of t \<Longrightarrow> s = t"
proof -
  have "chars_of (bytes_of u) = u" for u
  proof -
    have "char_of (unat (of_nat (of_char c) :: u8)) = c" for c
      by (simp add: unat_of_nat take_bit_eq_mod [symmetric])
    then show ?thesis by (simp add: chars_of_def bytes_of_def comp_def map_idI)
  qed
  then show "bytes_of s = bytes_of t \<Longrightarrow> s = t" by metis
qed

lemma px_lib_law: "quote_law px_lib"
  unfolding quote_law_def
proof (intro conjI allI impI)
  fix s t assume q: "quoted px_lib s = quoted px_lib t"
  show "s = t"
  proof (cases "(\<forall>c \<in> set s. byte_at c < 128) \<and> (\<forall>c \<in> set t. byte_at c < 128)")
    case True
    then have "set s \<subseteq> set ascii" "set t \<subseteq> set ascii" by (auto intro: in_ascii)
    moreover have "concat (map quote_char s) = concat (map quote_char t)"
      using q True by (simp add: quoted_def Quote_def)
    ultimately show ?thesis by (rule concat_quote_inject)
  next
    case False
    with q have "EncodeToString (bytes_of s) = EncodeToString (bytes_of t)"
      by (auto simp: quoted_def Quote_def px_lib_def split: if_splits)
    then show ?thesis by (simp add: Encode_inject bytes_of_inject)
  qed
next
  fix s
  show "plain_id (quoted px_lib s)"
  proof (cases "\<forall>c \<in> set s. byte_at c < 128")
    case True
    then have "\<forall>c \<in> set s. plain_id (quote_char c)"
      using quote_char_ascii(1) in_ascii by (auto simp: list_all_iff)
    then have "plain_id (concat (map quote_char s))" by (induction s) auto
    with True show ?thesis by (simp add: quoted_def Quote_def NL_def)
  next
    case False
    then show ?thesis by (auto simp: quoted_def Quote_def px_lib_def NL_def)
  qed
qed

section \<open>The text of a value\<close>

text \<open>
  C38. XdrToString neither panics nor loses anything: for values of a type without floats its output
  is the lines of the value, each a path, a colon and the text at it, and two values have the
  same output only if they are the same XDR value.
\<close>

theorem XdrToString_faithful:
  assumes "wf_pkg P" "print_pkg P" "quote_law L" "json_sort P t" "no_float t"
    and "abs_typ P n t v = Some a" "conf_typ P n t a" "abs_typ P n t w = Some b" "conf_typ P n t b"
  shows "XdrToString P L n t v = Inr (text_of (lns_typ P L n t [] a)) \<and>
    (XdrToString P L n t v = XdrToString P L n t w \<longleftrightarrow> a = b)"
proof -
  note p = printer.prints [OF printer_typ [OF assms(1,4)], of n _ _ L "[]"]
  note sh = shown_typ [OF assms(1-5), of n]
  have eq: "XdrToString P L n t v = Inr (text_of (lns_typ P L n t [] a))"
    "XdrToString P L n t w = Inr (text_of (lns_typ P L n t [] b))"
    using p [OF assms(6,7)] p [OF assms(8,9)] by (simp_all add: XdrToString_def)
  have "a = b" if "text_of (lns_typ P L n t [] a) = text_of (lns_typ P L n t [] b)"
  proof -
    have "lns_typ P L n t [] a = lns_typ P L n t [] b"
      by (rule text_of_inject [OF lines_plain [OF sh assms(7)] lines_plain [OF sh assms(9)] that]) simp_all
    with shown.unique [OF sh assms(7,9), of "[]" "[]" "[]"] show ?thesis by simp
  qed
  then show ?thesis by (auto simp: eq)
qed

definition px_xleaf :: xval where
  "px_xleaf = XStruct [XVar [], XVar [], X64 0, XVec [], XUnion (X32 2) None, XOpt None]"

lemma px_leaf:
  "abs_typ jx_pkg 5 (Ident ''Node'') jx_leaf = Some px_xleaf" "conf_typ jx_pkg 5 (Ident ''Node'') px_xleaf"
  unfolding five by (simp_all add: jx_eval jx_leaf_def px_xleaf_def)

lemma px_pkg_ok: "print_pkg jx_pkg" "no_float (Ident ''Node'')"
  unfolding print_pkg_def print_names_def plain_id_def by code_simp+

theorem XdrToString_faithful_witness:
  "XdrToString jx_pkg px_lib 5 (Ident ''Node'') jx_val =
     Inr (text_of (lns_typ jx_pkg px_lib 5 (Ident ''Node'') [] jx_xval)) \<and>
   (XdrToString jx_pkg px_lib 5 (Ident ''Node'') jx_val = XdrToString jx_pkg px_lib 5 (Ident ''Node'') jx_leaf
     \<longleftrightarrow> jx_xval = px_xleaf)"
  by (rule XdrToString_faithful [OF jx_pkg_ok(1) px_pkg_ok(1) px_lib_law jx_pkg_ok(3) px_pkg_ok(2) jx_abs jx_conf px_leaf])

lemma px_decimals:
  "decimal 12 = ''12''" "decimal 7 = ''7''" "decimal 0 = ''0''" "decimal (Suc 0) = ''1''" "decimal (Suc (Suc 0)) = ''2''"
  by code_simp+

lemma px_example:
  "lns_typ jx_pkg px_lib 5 (Ident ''Node'') [] jx_xval =
     [''name: '' @ quoted px_lib (chars_of [72, 105]), ''key: '' @ EncodeToString [190, 239], ''big: 12'',
      ''flags.len: 2'', ''flags[0]: true'', ''flags[1]: false'', ''body.kind: red'', ''body.count: 7'',
      ''next.present: true'', ''(*next).name: '' @ quoted px_lib [], ''(*next).key: '', ''(*next).big: 0'',
      ''(*next).flags.len: 0'', ''(*next).body.kind: green'', ''(*next).next.present: false'']"
  unfolding five
  by (simp add: jx_eval jx_xval_def lns_sym_def lns_decl_def lns_line_def index_name_def member_name_def
      deref_name_def bool_text_def enum_String_def show_int_def chars_of_def EncodeToString_def px_decimals)

end
