(* ===== verification/Comments.thy ===== *)
theory Comments imports Parser LexerTotal begin

text \<open>
  The comments goxdr copies into its output. normalize_comment and enum_comment of
  cmd/goxdr/goxdr.go cut a comment at fixed places, so they crash on a string that is none;
  every comment the lexer attaches to a token has the form they expect.
\<close>

section \<open>normalize_comment\<close>

definition trim :: "string \<Rightarrow> string" where
  "trim s = rev (dropWhile (\<lambda>c. \<not> isNotWS c) (rev (dropWhile (\<lambda>c. \<not> isNotWS c) s)))"

text \<open>A slice from index 2: None is the panic of Go.\<close>

definition from_2 :: "string \<Rightarrow> string option" where
  "from_2 s = (if length s < 2 then None else Some (drop 2 s))"

fun norm_lines :: "bool \<Rightarrow> string list \<Rightarrow> string option" where
  "norm_lines block [] = Some []"
| "norm_lines block (l # ls) =
     bindO (if block then Some l else from_2 l) (\<lambda>l1.
     bindO (norm_lines block ls) (\<lambda>r.
       Some ((if trim l1 = [] then [] else CHR '' '' # trim l1) @ r)))"

definition normalize_comment :: "string \<Rightarrow> string option" where
  "normalize_comment c =
     (if length c < 2 then None
      else
        let block = (c ! 1 = CHR ''*'');
            s = (if block then take (length c - 2) c else c)
        in case split_lines s of
             [] \<Rightarrow> None
           | l # ls \<Rightarrow> bindO (from_2 l) (\<lambda>l1. bindO (norm_lines block ls) (\<lambda>r. Some (trim l1 @ r))))"

text \<open>
  The map _XdrComments_ of an enum, for its tags with their comments, or no map when none
  has a comment.
\<close>

definition enum_comment :: "(idval \<times> string) list \<Rightarrow> (string \<times> string) list option option" where
  "enum_comment tags =
     (let cs = filter (\<lambda>(i, c). c \<noteq> []) tags in
      if cs = [] then Some None
      else map_option Some (those_opt (map (\<lambda>(i, c). bindO (normalize_comment c) (\<lambda>n. Some (goid i, n))) cs)))"

section \<open>The form of a comment\<close>

definition line_comment :: "string \<Rightarrow> bool" where
  "line_comment s \<longleftrightarrow> list_all (\<lambda>l. \<exists>r. l = ''//'' @ r) (split_lines s)"

definition block_comment :: "string \<Rightarrow> bool" where
  "block_comment s \<longleftrightarrow> (\<exists>b. s = ''/*'' @ b @ ''*/'')"

definition comment_form :: "string \<Rightarrow> bool" where
  "comment_form s \<longleftrightarrow> s = [] \<or> line_comment s \<or> block_comment s"

lemma split_lines_ne [simp]: "split_lines s \<noteq> []"
  by (induction s rule: split_lines.induct) (auto split: list.splits)

lemma split_lines_plain: "CHR 0x0A \<notin> set s \<Longrightarrow> split_lines s = [s]"
  by (induction s) auto

lemma split_lines_hd: "\<exists>r ls. split_lines (a @ s) = (a @ r) # ls" if "CHR 0x0A \<notin> set a"
  using that
proof (induction a)
  case Nil
  then show ?case by (cases "split_lines s") auto
qed auto

lemma split_lines_append: "split_lines (a @ CHR 0x0A # b) = split_lines a @ split_lines b"
proof (induction a)
  case (Cons c a)
  obtain l ls where "split_lines a = l # ls" by (cases "split_lines a") auto
  with Cons show ?case by simp
qed simp

lemma norm_lines_block: "norm_lines True ls \<noteq> None"
  by (induction ls) (auto simp: bindO_eq_Some)

lemma norm_lines_line: "list_all (\<lambda>l. \<exists>r. l = ''//'' @ r) ls \<Longrightarrow> norm_lines False ls \<noteq> None"
  by (induction ls) (auto simp: from_2_def)

lemma normalize_form:
  assumes "comment_form c" "c \<noteq> []"
  shows "normalize_comment c \<noteq> None"
proof -
  from assms consider "line_comment c" | "block_comment c" by (auto simp: comment_form_def)
  then show ?thesis
  proof cases
    case 1
    obtain l ls where s: "split_lines c = l # ls" by (cases "split_lines c") auto
    with 1 obtain r where l: "l = ''//'' @ r" "list_all (\<lambda>l. \<exists>r. l = ''//'' @ r) ls"
      by (auto simp: line_comment_def)
    obtain x d where c: "c = x # d" using assms(2) by (cases c) auto
    with s l obtain y e where d: "d = y # e" by (cases d) (auto split: if_splits list.splits)
    with s l c have "y = CHR ''/''" by (auto split: if_splits list.splits)
    with c d have "c ! 1 = CHR ''/''" "\<not> length c < 2" by simp_all
    with s l norm_lines_line [OF l(2)] show ?thesis
      by (auto simp: normalize_comment_def from_2_def)
  next
    case 2
    then obtain b where c: "c = ''/*'' @ b @ ''*/''" by (auto simp: block_comment_def)
    then have t: "take (length c - 2) c = ''/*'' @ b" "c ! 1 = CHR ''*''" "\<not> length c < 2" by simp_all
    obtain r ls where s: "split_lines (''/*'' @ b) = (''/*'' @ r) # ls"
      using split_lines_hd [of "''/*''" b] by auto
    with t norm_lines_block [of ls] show ?thesis
      by (auto simp: normalize_comment_def from_2_def simp del: append.simps split_lines.simps)
  qed
qed

section \<open>The comments of the lexer\<close>

lemma moved_colno: "moved l l' \<Longrightarrow> 0 \<le> lx_colno l \<Longrightarrow> 0 \<le> lx_colno l'"
proof -
  have "0 \<le> fst (snd p) \<Longrightarrow> 0 \<le> fst (snd (fold pos_char w p))" for w p
  proof (induction w arbitrary: p)
    case (Cons c w)
    obtain a b d where p: "p = (a, b, d)" by (cases p)
    have "b mod 8 < 8" by simp
    then have "0 \<le> b \<Longrightarrow> 0 \<le> b + (8 - b mod 8)" by linarith
    with Cons p show ?case by simp
  qed simp
  then have f: "0 \<le> fst (snd (lx_pos l)) \<Longrightarrow> 0 \<le> fst (snd (fold pos_char w (lx_pos l)))" for w by blast
  assume "moved l l'" "0 \<le> lx_colno l"
  then obtain w where w: "lx_pos l' = fold pos_char w (lx_pos l)" by (auto simp: moved_def)
  from f [of w] \<open>0 \<le> lx_colno l\<close> show "0 \<le> lx_colno l'"
    unfolding w [symmetric] by (simp add: lx_pos_def)
qed

lemma advance_block: "advance n l = Inr l' \<Longrightarrow> lx_blockComment l' = lx_blockComment l"
  using adv_chars_rest [of "take (nat n) (lx_input l)" l] by (auto simp: advance_def split: if_splits)

lemma find_block: "findCommentStart tp l = Inr (b, l') \<Longrightarrow> lx_blockComment l' = lx_blockComment l"
  by (auto simp: findCommentStart_def Let_def bindE_eq_Inr split: if_splits dest!: advance_block)

lemma skipLine_block: "skipLine l = Inr l' \<Longrightarrow> lx_blockComment l' = lx_blockComment l"
  by (auto simp: skipLine_def Let_def split: if_splits dest!: advance_block)

lemma rest_block: "RestOfLine l = Inr (s, l') \<Longrightarrow> lx_blockComment l' = lx_blockComment l"
  by (auto simp: RestOfLine_def Let_def bindE_eq_Inr dest!: advance_block skipLine_block)

lemma skipWSNL_block: "skipWSNL l = Inr (b, l') \<Longrightarrow> lx_blockComment l' = lx_blockComment l"
  by (auto simp: skipWSNL_def skipWS_def Let_def bindE_eq_Inr split: if_splits dest!: advance_block)

lemma at_eol_block: "block_at_eol l = Inr (c, l') \<Longrightarrow> lx_blockComment l' = lx_blockComment l"
  by (auto simp: block_at_eol_def Let_def bindE_eq_Inr split: if_splits dest!: advance_block)

lemma line_loop_block: "line_loop out column l = Inr (c, l') \<Longrightarrow> lx_blockComment l' = lx_blockComment l"
proof (induction out column l rule: line_loop.induct)
  case (1 out column l)
  from 1(2) obtain found l1 where f: "findCommentStart (CHR ''/'') l = Inr (found, l1)"
    by (subst (asm) line_loop.simps) (auto simp: bindE_eq_Inr)
  note b = find_block [OF f]
  show ?case
  proof (cases found)
    case False
    with 1(2) f b show ?thesis by (subst (asm) line_loop.simps) simp
  next
    case True
    obtain out1 column1 where oc:
      "(if lx_colno l1 \<noteq> column then ([], lx_colno l1) else (out @ [CHR 0x0A], column)) = (out1, column1)"
      by fastforce
    with 1(2) f True obtain s l2 where r: "RestOfLine l1 = Inr (s, l2)" "line_loop (out1 @ s) column1 l2 = Inr (c, l')"
      by (subst (asm) line_loop.simps) (auto simp: bindE_eq_Inr)
    have "lx_blockComment l' = lx_blockComment l2"
      by (rule "1.IH" [OF f refl _ oc [symmetric] refl r(1) refl r(2)]) (simp add: True)
    with rest_block [OF r(1)] b show ?thesis by simp
  qed
qed

lemma getLineComment_block: "getLineComment l = Inr (c, l') \<Longrightarrow> lx_blockComment l' = lx_blockComment l"
  by (auto simp: getLineComment_def get1LineBlockComment_def bindE_eq_Inr split: if_splits
      dest!: find_block at_eol_block rest_block line_loop_block)

text \<open>The text of a line comment.\<close>

lemma IndexByte_split:
  "str_IndexByte s c \<ge> 0 \<Longrightarrow> c \<notin> set (take (nat (str_IndexByte s c)) s)"
  "str_IndexByte s c < 0 \<Longrightarrow> c \<notin> set s"
proof -
  let ?t = "takeWhile (\<lambda>x. x \<noteq> c) s"
  have t: "str_IndexByte s c = (if length ?t < length s then int (length ?t) else - 1)"
    by (simp add: str_IndexByte_def str_IndexFunc_def Let_def)
  have "c \<notin> set ?t" by (auto dest: set_takeWhileD)
  moreover have "take (length ?t) s = ?t" by (simp add: takeWhile_eq_take [symmetric])
  ultimately show "str_IndexByte s c \<ge> 0 \<Longrightarrow> c \<notin> set (take (nat (str_IndexByte s c)) s)"
    using t by (auto split: if_splits)
  assume "str_IndexByte s c < 0"
  with t have "\<not> length ?t < length s" by (auto split: if_splits)
  then have "?t = s" by (metis takeWhile_eq_take take_all linorder_not_less)
  with \<open>c \<notin> set ?t\<close> show "c \<notin> set s" by simp
qed

lemma RestOfLine_form:
  assumes "RestOfLine l = Inr (s, l')" "lx_input l = ''//'' @ u"
  shows "\<exists>r. s = ''//'' @ r \<and> CHR 0x0A \<notin> set s"
proof -
  let ?i = "lx_input l" let ?n = "str_IndexByte ?i (CHR 0x0A)"
  from assms(1) have s: "s = take (nat (findEOL l)) ?i" by (auto simp: RestOfLine_def Let_def bindE_eq_Inr)
  have n2: "2 \<le> ?n" if "0 \<le> ?n"
    using that assms(2) by (auto simp: str_IndexByte_def str_IndexFunc_def Let_def split: if_splits)
  have "?n \<noteq> 2" if "?i ! nat (?n - 1) = CHR 0x0D" using that assms(2) by auto
  with n2 have e: "2 \<le> findEOL l \<and> (0 \<le> ?n \<longrightarrow> findEOL l \<le> ?n)"
    using assms(2) by (auto simp: findEOL_def Let_def)
  have "CHR 0x0A \<notin> set s"
  proof (cases "0 \<le> ?n")
    case True
    with e have "nat (findEOL l) \<le> nat ?n" by (intro nat_mono) simp
    then have "set s \<subseteq> set (take (nat ?n) ?i)" unfolding s by (rule set_take_subset_set_take)
    with IndexByte_split(1) [OF True] show ?thesis by blast
  next
    case False
    then have "CHR 0x0A \<notin> set ?i" by (intro IndexByte_split(2)) simp
    then show ?thesis using s by (auto dest: in_set_takeD)
  qed
  moreover from e have "nat (findEOL l) = Suc (Suc (nat (findEOL l) - 2))" by linarith
  then have "s = ''//'' @ take (nat (findEOL l) - 2) u" using s assms(2) by (metis append_Cons append_Nil take_Suc_Cons)
  ultimately show ?thesis by blast
qed

lemma line_comment_one: "CHR 0x0A \<notin> set s \<Longrightarrow> s = ''//'' @ r \<Longrightarrow> line_comment s"
  by (auto simp: line_comment_def split_lines_plain)

lemma line_comment_more: "line_comment a \<Longrightarrow> line_comment b \<Longrightarrow> line_comment (a @ CHR 0x0A # b)"
  by (simp add: line_comment_def split_lines_append)

lemma line_loop_form:
  "line_loop out column l = Inr (c, l') \<Longrightarrow> 0 \<le> lx_colno l \<Longrightarrow> (out = [] \<and> column < 0) \<or> line_comment out \<Longrightarrow>
   c = [] \<or> line_comment c"
proof (induction out column l rule: line_loop.induct)
  case (1 out column l)
  from 1(2) obtain found l1 where f: "findCommentStart (CHR ''/'') l = Inr (found, l1)"
    by (subst (asm) line_loop.simps) (auto simp: bindE_eq_Inr)
  have m: "moved l l1" using moves_findCommentStart [of l "CHR ''/''"] f by (auto simp: moves_def)
  show ?case
  proof (cases found)
    case False
    with 1(2,4) f show ?thesis by (subst (asm) line_loop.simps) auto
  next
    case True
    obtain out1 column1 where oc:
      "(if lx_colno l1 \<noteq> column then ([], lx_colno l1) else (out @ [CHR 0x0A], column)) = (out1, column1)"
      by fastforce
    with 1(2) f True obtain s l2 where r: "RestOfLine l1 = Inr (s, l2)" "line_loop (out1 @ s) column1 l2 = Inr (c, l')"
      by (subst (asm) line_loop.simps) (auto simp: bindE_eq_Inr)
    from findCommentStart_at [of "CHR ''/''" l l1] f True obtain u where "lx_input l1 = ''//'' @ u" by auto
    from RestOfLine_form [OF r(1) this] have s: "line_comment s" by (auto intro: line_comment_one)
    have m2: "moved l1 l2" using moves_RestOfLine [of l1] r(1) by (auto simp: moves_def)
    have c1: "0 \<le> lx_colno l1" "0 \<le> lx_colno l2"
      using moved_colno [OF m 1(3)] moved_colno [OF m2] by auto
    have "line_comment (out1 @ s)"
      using oc s 1(4) c1(1) line_comment_more [of out s] by (auto split: if_splits)
    with "1.IH" [OF f refl _ oc [symmetric] refl r(1) refl r(2) c1(2)] True show ?thesis by simp
  qed
qed

text \<open>The text of a block comment.\<close>

lemma str_Index_found: "0 \<le> str_Index s sub \<Longrightarrow> \<exists>u. s = take (nat (str_Index s sub)) s @ sub @ u"
proof (induction s sub rule: str_Index.induct)
  case (1 sub)
  then show ?case by (auto split: if_splits)
next
  case (2 c s sub)
  show ?case
  proof (cases "take (length sub) (c # s) = sub")
    case True
    then have "c # s = sub @ drop (length sub) (c # s)" by (metis append_take_drop_id)
    moreover have "str_Index (c # s) sub = 0" using True by simp
    ultimately show ?thesis by (metis append_Nil nat_0 take0)
  next
    case False
    with "2.prems" have i: "0 \<le> str_Index s sub" "str_Index (c # s) sub = str_Index s sub + 1"
      by (auto simp: Let_def split: if_splits)
    from "2.IH" [OF False i(1)] obtain u where u: "s = take (nat (str_Index s sub)) s @ sub @ u" by blast
    have "nat (str_Index (c # s) sub) = Suc (nat (str_Index s sub))" using i by simp
    with u show ?thesis by (metis append_Cons take_Suc_Cons)
  qed
qed

lemma block_text_form:
  assumes "lx_input l = ''/*'' @ s" "0 \<le> str_Index s ''*/''"
  shows "\<exists>b. take (nat (str_Index s ''*/'' + 4)) (lx_input l) = ''/*'' @ b @ ''*/''"
proof -
  let ?j = "nat (str_Index s ''*/'')"
  from str_Index_found [OF assms(2)] obtain u where u: "s = take ?j s @ ''*/'' @ u" by blast
  have j: "?j \<le> length s" using str_Index_range [of s "''*/''"] assms(2) by auto
  have "nat (str_Index s ''*/'' + 4) = Suc (Suc (?j + 2))" using assms(2) by simp
  then have "take (nat (str_Index s ''*/'' + 4)) (lx_input l) = ''/*'' @ take (?j + 2) s"
    using assms(1) by simp
  also have "take (?j + 2) s = take ?j s @ ''*/''"
    using u j by (metis (no_types, lifting) append_assoc append_eq_conv_conj length_Cons list.size(3) length_append
        length_take min.absorb2 numeral_2_eq_2)
  finally show ?thesis by blast
qed

lemma at_eol_form:
  assumes "block_at_eol l = Inr (c, l')" "lx_input l = ''/*'' @ s"
  shows "c = [] \<or> block_comment c"
proof (cases "0 \<le> str_Index s ''*/''")
  case False
  with assms show ?thesis by (simp add: block_at_eol_def)
next
  case True
  from block_text_form [OF assms(2) True] have "block_comment (take (nat (str_Index s ''*/'' + 4)) (lx_input l))"
    by (auto simp: block_comment_def)
  moreover have "drop 2 (lx_input l) = s" using assms(2) by simp
  ultimately show ?thesis using assms(1) True
    by (auto simp: block_at_eol_def Let_def bindE_eq_Inr split: if_splits)
qed

lemma getLineComment_form:
  assumes "getLineComment l = Inr (c, l')" "0 \<le> lx_colno l"
  shows "comment_form c"
proof -
  from assms(1) obtain found l1 where f: "findCommentStart (CHR ''/'') l = Inr (found, l1)"
    and g: "(if \<not> found then get1LineBlockComment l1 else if lx_midline l1 then RestOfLine l1
      else line_loop [] (- 1) l1) = Inr (c, l')"
    by (auto simp: getLineComment_def bindE_eq_Inr)
  have m: "moved l l1" using moves_findCommentStart [of l "CHR ''/''"] f by (auto simp: moves_def)
  show ?thesis
  proof (cases found)
    case False
    with g obtain b l2 where b: "findCommentStart (CHR ''*'') l1 = Inr (b, l2)"
      "(if \<not> b then Inr ([], l2) else block_at_eol l2) = Inr (c, l')"
      by (auto simp: get1LineBlockComment_def bindE_eq_Inr split: if_splits)
    then show ?thesis
      using findCommentStart_at [of "CHR ''*''" l1 l2] at_eol_form [of l2 c l']
      by (auto simp: comment_form_def split: if_splits)
  next
    case True
    from findCommentStart_at [of "CHR ''/''" l l1] f True obtain u where u: "lx_input l1 = ''//'' @ u" by auto
    show ?thesis
    proof (cases "lx_midline l1")
      case True
      with g \<open>found\<close> have "RestOfLine l1 = Inr (c, l')" by simp
      from RestOfLine_form [OF this u] show ?thesis by (auto simp: comment_form_def intro: line_comment_one)
    next
      case False
      with g \<open>found\<close> have "line_loop [] (- 1) l1 = Inr (c, l')" by simp
      from line_loop_form [OF this moved_colno [OF m assms(2)]] show ?thesis by (auto simp: comment_form_def)
    qed
  qed
qed

lemma TrimSuffix_end: "s \<noteq> [] \<Longrightarrow> last s \<noteq> CHR 0x0D \<Longrightarrow> TrimSuffix_cr s = s"
  by (simp add: TrimSuffix_cr_def)

lemma TrimSuffix_start: "\<exists>r'. TrimSuffix_cr (''/*'' @ r) = ''/*'' @ r'"
  by (cases r rule: rev_cases) (auto simp: TrimSuffix_cr_def butlast_append)

lemma split_lines_last:
  assumes "CHR 0x0A \<notin> set e"
  shows "\<exists>ls r. split_lines (b @ e) = ls @ [r @ e]"
proof (induction b)
  case Nil
  show ?case using split_lines_plain [OF assms] by simp
next
  case (Cons c b)
  then obtain ls r where b: "split_lines (b @ e) = ls @ [r @ e]" by blast
  show ?case
  proof (cases "c = CHR 0x0A")
    case True
    with b show ?thesis by (intro exI [of _ "[] # ls"] exI [of _ r]) simp
  next
    case False
    show ?thesis
    proof (cases ls)
      case Nil
      with b False show ?thesis by (intro exI [of _ "[]"] exI [of _ "c # r"]) simp
    next
      case (Cons l ls')
      with b False show ?thesis by (intro exI [of _ "(c # l) # ls'"] exI [of _ r]) simp
    qed
  qed
qed

lemma strip_keeps:
  assumes "isNotWS e" shows "\<exists>r'. stripToColumn column (r @ e # s) = r' @ e # s"
proof -
  have "\<exists>c' r'. strip_loop column c (r @ e # s) = (c', r' @ e # s)" for c
  proof (induction r arbitrary: c)
    case Nil
    show ?case using assms by (auto simp: isNotWS_def)
  next
    case (Cons x r)
    have "\<exists>r'. x # r @ e # s = r' @ e # s" by (rule exI [of _ "x # r"]) simp
    with Cons show ?case by auto
  qed
  from this [of 0] obtain c' r' where "strip_loop column 0 (r @ e # s) = (c', r' @ e # s)" by blast
  then show ?thesis by (auto simp: stripToColumn_def)
qed

lemma block_text_shape: "block_comment (block_text column (''/*'' @ b @ ''*/''))"
proof -
  obtain ls r where e: "split_lines ((''/*'' @ b) @ ''*/'') = ls @ [r @ ''*/'']"
    using split_lines_last [of "''*/''" "''/*'' @ b"] by auto
  obtain r0 ls0 where h: "split_lines (''/*'' @ b @ ''*/'') = (''/*'' @ r0) # ls0"
    using split_lines_hd [of "''/*''" "b @ ''*/''"] by auto
  let ?f = "\<lambda>x. CHR 0x0A # TrimSuffix_cr (stripToColumn column x)"
  have t: "block_text column (''/*'' @ b @ ''*/'') = TrimSuffix_cr (''/*'' @ r0) @ concat (map ?f ls0)"
    by (simp only: block_text_def h list.case)
  from e h have eh: "(''/*'' @ r0) # ls0 = ls @ [r @ ''*/'']" by simp
  show ?thesis
  proof (cases ls)
    case Nil
    with eh have r: "''/*'' @ r0 = r @ ''*/''" "ls0 = []" by simp_all
    have "last (''/*'' @ r0) \<noteq> CHR 0x0D" unfolding r(1) by simp
    then have "TrimSuffix_cr (''/*'' @ r0) = ''/*'' @ r0" by (intro TrimSuffix_end) simp_all
    moreover have "''/*'' @ b @ ''*/'' = ''/*'' @ r0"
    proof -
      have "CHR 0x0A \<notin> set (''/*'' @ b @ ''*/'')"
      proof
        assume "CHR 0x0A \<in> set (''/*'' @ b @ ''*/'')"
        then obtain u v where "''/*'' @ b @ ''*/'' = u @ CHR 0x0A # v" by (meson split_list)
        with h r(2) split_lines_append [of u v] split_lines_ne [of u] split_lines_ne [of v] show False
          by (metis append_is_Nil_conv append_eq_Cons_conv)
      qed
      from split_lines_plain [OF this] h show ?thesis by simp
    qed
    ultimately show ?thesis using t r(2) by (auto simp: block_comment_def)
  next
    case (Cons l ls')
    with eh have l0: "ls0 = ls' @ [r @ ''*/'']" by simp
    obtain r' where r': "stripToColumn column (r @ ''*/'') = r' @ ''*/''"
      using strip_keeps [of "CHR ''*''" column r "''/''"] by (auto simp: isNotWS_def)
    have "TrimSuffix_cr (r' @ ''*/'') = r' @ ''*/''" by (rule TrimSuffix_end) simp_all
    moreover obtain q where "TrimSuffix_cr (''/*'' @ r0) = ''/*'' @ q" using TrimSuffix_start by blast
    ultimately have "block_text column (''/*'' @ b @ ''*/'') =
        ''/*'' @ (q @ concat (map ?f ls') @ CHR 0x0A # r') @ ''*/''"
      using t l0 r' by simp
    then show ?thesis unfolding block_comment_def by blast
  qed
qed

text \<open>What the lexer keeps: the pending block comment is a comment, and no column is negative.\<close>

definition comment_inv :: "lexer \<Rightarrow> bool" where
  "comment_inv l \<longleftrightarrow> comment_form (lx_blockComment l) \<and> 0 \<le> lx_colno l"

lemma comment_inv_moved:
  "comment_inv l \<Longrightarrow> moved l l' \<Longrightarrow> lx_blockComment l' = lx_blockComment l \<Longrightarrow> comment_inv l'"
  by (auto simp: comment_inv_def dest: moved_colno)

lemma comment_inv_clear [simp]: "comment_inv (clearComment l) \<longleftrightarrow> 0 \<le> lx_colno l"
  by (simp add: comment_inv_def clearComment_def comment_form_def)

lemma comment_inv_set: "comment_inv (l\<lparr>lx_blockComment := c\<rparr>) \<longleftrightarrow> comment_form c \<and> 0 \<le> lx_colno l"
  by (simp add: comment_inv_def)

lemma clear_fields [simp]: "lx_colno (clearComment l) = lx_colno l" "lx_blockComment (clearComment l) = []"
  "comment_form []"
  by (simp_all add: clearComment_def comment_form_def)

lemma skip_block_inv:
  assumes "skip_block b l = Inr (x, l')" "comment_inv l" "lx_input l = ''/*'' @ s"
  shows "comment_inv l'"
proof (cases "0 \<le> str_Index s ''*/''")
  case False
  with assms show ?thesis by (auto simp: skip_block_def comment_inv_def clearComment_def comment_form_def)
next
  case True
  have d: "drop 2 (lx_input l) = s" using assms(3) by simp
  have m: "moved l l'" using moves_skip_block [of l b] assms(1) by (auto simp: moves_def)
  have c: "0 \<le> lx_colno l'" using moved_colno [OF m] assms(2) by (simp add: comment_inv_def)
  from block_text_form [OF assms(3) True] obtain b' where
    b': "take (nat (str_Index s ''*/'' + 4)) (lx_input l) = ''/*'' @ b' @ ''*/''" by blast
  have "comment_form (lx_blockComment l')"
    using assms(1) True d b' block_text_shape [of "lx_colno l" b']
    by (auto simp: skip_block_def Let_def bindE_eq_Inr clearComment_def comment_form_def split: if_splits
        dest!: advance_block skipWSNL_block)
  with c show ?thesis by (simp add: comment_inv_def)
qed

lemma skipComment_inv:
  assumes "skipComment l = Inr (x, l')" "comment_inv l"
  shows "comment_inv l'"
proof -
  have c0: "0 \<le> lx_colno l" using assms(2) by (simp add: comment_inv_def)
  from assms(1) obtain com l1 where g: "getLineComment l = Inr (com, l1)"
    and r: "(if com \<noteq> [] then Inr (True, if lx_midline l then clearComment l1 else (clearComment l1)\<lparr>lx_blockComment := com\<rparr>)
      else bindE (findCommentStart (CHR ''*'') l1) (\<lambda>(found, l2).
        if \<not> found then Inr (False, l2) else skip_block (lx_midline l) l2)) = Inr (x, l')"
    by (auto simp: skipComment_def Let_def bindE_eq_Inr)
  have m: "moved l l1" using moves_getLineComment [of l] g by (auto simp: moves_def)
  have i1: "comment_inv l1" by (rule comment_inv_moved [OF assms(2) m getLineComment_block [OF g]])
  show ?thesis
  proof (cases "com = []")
    case False
    with r getLineComment_form [OF g c0] i1 show ?thesis
      by (auto simp: comment_inv_set comment_inv_def split: if_splits)
  next
    case True
    with r obtain found l2 where f: "findCommentStart (CHR ''*'') l1 = Inr (found, l2)"
      "(if \<not> found then Inr (False, l2) else skip_block (lx_midline l) l2) = Inr (x, l')"
      by (auto simp: bindE_eq_Inr)
    have "moved l1 l2" using moves_findCommentStart [of l1 "CHR ''*''"] f(1) by (auto simp: moves_def)
    from comment_inv_moved [OF i1 this find_block [OF f(1)]] have i2: "comment_inv l2" .
    show ?thesis
    proof (cases found)
      case False
      with f(2) i2 show ?thesis by simp
    next
      case True
      from findCommentStart_at [of "CHR ''*''" l1 l2] f(1) True obtain u where "lx_input l2 = ''/*'' @ u" by auto
      from skip_block_inv [OF _ i2 this] f(2) True show ?thesis by simp
    qed
  qed
qed

lemma skipSpace_inv:
  assumes "skipSpace l = Some (Inr l')" "comment_inv l"
  shows "comment_inv l'"
proof -
  have "\<forall>l'. r = Inr l' \<longrightarrow> comment_inv l \<longrightarrow> comment_inv l'" if "skipSpace l = Some r" for r
  proof (rule skipSpace.raw_induct [of "\<lambda>l r. \<forall>l'. r = Inr l' \<longrightarrow> comment_inv l \<longrightarrow> comment_inv l'" l r])
    show "\<forall>l'. z = Inr l' \<longrightarrow> comment_inv w \<longrightarrow> comment_inv l'"
      if ih: "\<And>x y. f x = Some y \<Longrightarrow> \<forall>l'. y = Inr l' \<longrightarrow> comment_inv x \<longrightarrow> comment_inv l'"
        and eq: "(case skipComment w of Inl p \<Rightarrow> Some (Inl p)
          | Inr (com, l1) \<Rightarrow> (case skipWSNL l1 of Inl p \<Rightarrow> Some (Inl p)
            | Inr (nl, l2) \<Rightarrow> if nl then f (clearComment l2) else if \<not> com then Some (Inr l2) else f l2)) = Some z"
      for f w z
    proof (intro allI impI)
      fix l' assume z: "z = Inr l'" and i: "comment_inv w"
      from moves_skipComment [of w] obtain com l1 where c: "skipComment w = Inr (com, l1)" by (rule movesE)
      from moves_skipWSNL [of l1] obtain nl l2 where w: "skipWSNL l1 = Inr (nl, l2)" "moved l1 l2" by (rule movesE)
      have i2: "comment_inv l2"
        by (rule comment_inv_moved [OF skipComment_inv [OF c i] w(2) skipWSNL_block [OF w(1)]])
      then have "comment_inv (clearComment l2)" by (simp add: comment_inv_def)
      with eq z ih [of "clearComment l2" z] ih [of l2 z] c w(1) i2 show "comment_inv l'"
        by (auto split: if_splits)
    qed
  qed (use that in simp)
  with assms show ?thesis by blast
qed

definition token_comments :: "token \<Rightarrow> bool" where
  "token_comments t \<longleftrightarrow> comment_form (tk_BlockComment t) \<and> comment_form (tk_LineComment t)"

lemma makeToken_comments:
  assumes "makeToken ty n l = Inr (t, l')" "comment_inv l"
  shows "token_comments t \<and> comment_inv l'"
proof -
  let ?l1 = "clearComment (l\<lparr>lx_lastTokLine := lx_lineno l, lx_lastTokCol := lx_colno l\<rparr>)"
  from assms(1) obtain l2 com where a: "advance n ?l1 = Inr l2" "getLineComment l2 = Inr (com, l')"
    and n: "0 < n" "n \<le> int (rem l)"
    and t: "tk_BlockComment t = lx_blockComment l" "tk_LineComment t = com"
    by (auto simp: makeToken_def Let_def bindE_eq_Inr split: if_splits)
  have i: "lx_input ?l1 = lx_input l" by (simp add: clearComment_def)
  then have "l2 = adv (nat n) ?l1" using a(1) n advance_nat [of n ?l1] by simp
  then have m: "moved ?l1 l2" by simp
  have i1: "comment_inv ?l1" using assms(2) by (simp add: comment_inv_def)
  have i2: "comment_inv l2" by (rule comment_inv_moved [OF i1 m advance_block [OF a(1)]])
  then have c: "comment_form com" using getLineComment_form [OF a(2)] by (simp add: comment_inv_def)
  have "moved l2 l'" using moves_getLineComment [of l2] a(2) by (auto simp: moves_def)
  from comment_inv_moved [OF i2 this getLineComment_block [OF a(2)]] c t assms(2)
  show ?thesis by (simp add: token_comments_def comment_inv_def)
qed

lemma next_token_comments:
  assumes "next_token l = Inr r" "comment_inv l"
  shows "case r of Inl (Some t, l') \<Rightarrow> token_comments t \<and> comment_inv l' | Inl (None, l') \<Rightarrow> True | Inr l' \<Rightarrow> comment_inv l'"
proof -
  have sl: "comment_inv l2" if "skipLine l = Inr l2" for l2
  proof -
    have "moved l l2" using that skipLine_eq [of l] by auto
    from comment_inv_moved [OF assms(2) this skipLine_block [OF that]] show ?thesis .
  qed
  have er: "comment_inv (lex_Error e l2) = comment_inv l2" for e l2 by (simp add: lex_Error_def comment_inv_def)
  have kw: "token_comments (t\<lparr>tk_Type := k\<rparr>) = token_comments t" for t k by (simp add: token_comments_def)
  show ?thesis
    using assms makeToken_comments [OF _ assms(2)] sl
    by (auto simp: next_token_def identifier_token_def integer_token_def Let_def bindE_eq_Inr er kw split: if_splits option.splits)
qed

lemma lex_next_comments:
  assumes "lex_next l = Some (Inr (Some t, l'))" "comment_inv l"
  shows "token_comments t \<and> comment_inv l'"
proof -
  let ?A = "\<lambda>l r. \<forall>t l'. r = Inr (Some t, l') \<longrightarrow> comment_inv l \<longrightarrow> token_comments t \<and> comment_inv l'"
  have "?A l r" if "lex_next l = Some r" for r
  proof (rule lex_next.raw_induct [of ?A l r])
    show "?A w z"
      if ih: "\<And>x y. f x = Some y \<Longrightarrow> ?A x y"
        and eq: "(case skipSpace w of None \<Rightarrow> None | Some (Inl p) \<Rightarrow> Some (Inl p)
          | Some (Inr l1) \<Rightarrow> (case next_token l1 of Inl p \<Rightarrow> Some (Inl p) | Inr (Inl r) \<Rightarrow> Some (Inr r)
            | Inr (Inr l2) \<Rightarrow> f l2)) = Some z"
      for f w z
    proof (intro allI impI)
      fix t l' assume z: "z = Inr (Some t, l')" and i: "comment_inv w"
      with eq obtain l1 r where s: "skipSpace w = Some (Inr l1)" "next_token l1 = Inr r"
        "(case r of Inl r \<Rightarrow> Some (Inr r) | Inr l2 \<Rightarrow> f l2) = Some (Inr (Some t, l'))"
        by (auto split: option.splits sum.splits)
      note n = next_token_comments [OF s(2) skipSpace_inv [OF s(1) i]]
      show "token_comments t \<and> comment_inv l'"
      proof (cases r)
        case (Inl y)
        with s(3) n show ?thesis by (cases y) auto
      next
        case (Inr l2)
        with s(3) n ih [of l2 z] z show ?thesis by auto
      qed
    qed
  qed (use that in simp)
  with assms show ?thesis by blast
qed

lemma lex_all_comments:
  assumes "lex_all l = Some (Inr (ts, l'))" "comment_inv l" "t \<in> set ts"
  shows "token_comments t"
proof -
  let ?A = "\<lambda>l r. \<forall>ts l' t. r = Inr (ts, l') \<longrightarrow> comment_inv l \<longrightarrow> t \<in> set ts \<longrightarrow> token_comments t"
  have "?A l r" if "lex_all l = Some r" for r
  proof (rule lex_all.raw_induct [of ?A l r])
    show "?A w z"
      if ih: "\<And>x y. f x = Some y \<Longrightarrow> ?A x y"
        and eq: "(case Lex w of None \<Rightarrow> None | Some (Inl p) \<Rightarrow> Some (Inl p)
          | Some (Inr (None, l1)) \<Rightarrow> Some (Inr ([], l1))
          | Some (Inr (Some (ty, t), l1)) \<Rightarrow>
              Option.bind (f l1) (\<lambda>r. Some (bindE r (\<lambda>(ts, l2). Inr (t # ts, l2))))) = Some z"
      for f w z
    proof (intro allI impI)
      fix ts l' t assume z: "z = Inr (ts, l')" and i: "comment_inv w" and t: "t \<in> set ts"
      from eq z t obtain u l1 us where L: "lex_next w = Some (Inr (Some u, l1))"
        and f: "f l1 = Some (Inr (us, l'))" "ts = u # us"
        by (auto simp: Lex_def bindE_eq_Inr Option.bind_eq_Some_conv split: option.splits sum.splits prod.splits)
      from lex_next_comments [OF L i] ih [OF f(1)] f(2) t show "token_comments t" by auto
    qed
  qed (use that in simp)
  with assms show ?thesis by blast
qed

text \<open>
  C39. normalize_comment does not crash on a comment that goxdr attaches to a declaration: whatever the input,
  the comments the lexer gives its tokens are empty, lines that start with //, or the text from /* to */.
\<close>

theorem comments_normalize:
  assumes "lex_all (NewLexer input) = Some (Inr (ts, l))" and "t \<in> set ts"
    and "c \<in> {tk_BlockComment t, tk_LineComment t}" and "c \<noteq> []"
  shows "comment_form c \<and> normalize_comment c \<noteq> None"
proof -
  have "comment_inv (NewLexer input)" by (simp add: NewLexer_def comment_inv_def comment_form_def)
  from lex_all_comments [OF assms(1) this assms(2)] assms(3) have "comment_form c"
    by (auto simp: token_comments_def)
  with normalize_form [OF this assms(4)] show ?thesis by simp
qed

definition ex_comment :: string where
  "ex_comment = ''const A = 3; // three
''"

lemma ex_comment_tokens:
  "case lex_all (NewLexer ex_comment) of
     Some (Inr (ts, l)) \<Rightarrow> ts \<noteq> [] \<and> tk_LineComment (last ts) = ''// three''
   | _ \<Rightarrow> False"
  by code_simp

theorem comments_normalize_witness:
  "\<exists>ts l t. lex_all (NewLexer ex_comment) = Some (Inr (ts, l)) \<and> t \<in> set ts \<and>
     tk_LineComment t = ''// three'' \<and> normalize_comment (tk_LineComment t) \<noteq> None"
proof -
  from ex_comment_tokens obtain ts l where
    l: "lex_all (NewLexer ex_comment) = Some (Inr (ts, l))" "ts \<noteq> []" "tk_LineComment (last ts) = ''// three''"
    by (auto split: option.split_asm sum.split_asm prod.split_asm)
  have "normalize_comment (tk_LineComment (last ts)) \<noteq> None"
    using comments_normalize [OF l(1), of "last ts" "tk_LineComment (last ts)"] l(2,3) by simp
  with l last_in_set [OF l(2)] show ?thesis
    by (intro exI [of _ ts] exI [of _ l] exI [of _ "last ts"] conjI) simp_all
qed

text \<open>What is no comment crashes it.\<close>

lemma normalize_crash: "normalize_comment ''/*/'' = None" "normalize_comment ''/'' = None"
  by code_simp+

lemma normalize_examples:
  "normalize_comment ''/* remote can't decode */'' = Some ''remote can't decode''" 
  "normalize_comment (''// one'' @ CHR 0x0A # ''//   two'') = Some ''one two''"
  by code_simp+

end
