(* ===== verification/RpcErrors.thy ===== *)
theory RpcErrors imports RpcServer Json Comments begin

text \<open>
  An RPC reply as a Go error (rpc/util.go): the comments of rpc_msg.x as the text of its
  enums, the statuses package rpc adds to them in init, and Rpc_msg.Error.
\<close>

section \<open>The comments of the enums\<close>

text \<open>The tags of accept_stat and reject_stat with the comments of rpc_msg.x.\<close>

definition accept_tags :: "(string \<times> u32 \<times> string) list" where
  "accept_tags =
     [(''SUCCESS'', 0, ''/* RPC executed successfully       */''),
      (''PROG_UNAVAIL'', 1, ''/* remote hasn'' @ [CHR 0x27] @ ''t exported program  */''),
      (''PROG_MISMATCH'', 2, ''/* remote can'' @ [CHR 0x27] @ ''t support version #  */''),
      (''PROC_UNAVAIL'', 3, ''/* program can'' @ [CHR 0x27] @ ''t support procedure */''),
      (''GARBAGE_ARGS'', 4, ''/* procedure can'' @ [CHR 0x27] @ ''t decode params   */''),
      (''SYSTEM_ERR'', 5, ''/* e.g. memory allocation failure  */'')]"

definition reject_tags :: "(string \<times> u32 \<times> string) list" where
  "reject_tags =
     [(''RPC_MISMATCH'', 0, ''/* RPC version number != 2          */''),
      (''AUTH_ERROR'', 1, ''/* remote can'' @ [CHR 0x27] @ ''t authenticate caller */'')]"

text \<open>The maps goxdr emits for an enum.\<close>

record enum_maps =
  em_Names :: "u32 \<rightharpoonup> string"
  em_Values :: "string \<rightharpoonup> u32"
  em_Comments :: "u32 \<rightharpoonup> string"

definition maps_of :: "(string \<times> u32 \<times> string) list \<Rightarrow> enum_maps" where
  "maps_of tags =
     \<lparr>em_Names = map_of (map (\<lambda>(s, w, c). (w, s)) tags),
      em_Values = map_of (map (\<lambda>(s, w, c). (s, w)) tags),
      em_Comments = map_of (map (\<lambda>(s, w, c). (w, the (normalize_comment c))) tags)\<rparr>"

definition pseudo_states :: "(u32 \<times> string \<times> string) list" where
  "pseudo_states =
     [(SEND_ERR, ''SEND_ERR'', ''Transport-level error when sending call''),
      (CANCELED, ''CANCELED'', ''Call context canceled''),
      (GARBAGE_RET, ''GARBAGE_RET'', ''Unable to decode return value'')]"

definition add_state :: "u32 \<times> string \<times> string \<Rightarrow> enum_maps \<Rightarrow> enum_maps" where
  "add_state = (\<lambda>(w, name, comment) m.
     m\<lparr>em_Names := (em_Names m)(w \<mapsto> name), em_Values := (em_Values m)(name \<mapsto> w),
       em_Comments := (em_Comments m)(w \<mapsto> comment)\<rparr>)"

definition accept_maps :: enum_maps where
  "accept_maps = fold add_state pseudo_states (maps_of accept_tags)"

definition reject_maps :: enum_maps where
  "reject_maps = maps_of reject_tags"

text \<open>String of an enum, over the map of names.\<close>

definition maps_String :: "string \<Rightarrow> enum_maps \<Rightarrow> u32 \<Rightarrow> string" where
  "maps_String T m w =
     (case em_Names m w of Some s \<Rightarrow> s | None \<Rightarrow> T @ CHR ''#'' # show_int (sint w))"

section \<open>Error\<close>

text \<open>The comment of a status, or its name.\<close>

definition stat_text :: "string \<Rightarrow> enum_maps \<Rightarrow> u32 \<Rightarrow> string" where
  "stat_text T m w = (case em_Comments m w of Some c \<Rightarrow> c | None \<Rightarrow> maps_String T m w)"

text \<open>Error; the numbers of a mismatch are printed in decimal.\<close>

definition rpc_Error :: "rpc_msg \<Rightarrow> go_panic + string" where
  "rpc_Error m =
     (if Mtype (Body m) \<noteq> REPLY then Inr ''RPC message not a REPLY''
      else bindE (Rbody (Body m)) (\<lambda>rb.
        if rb_Stat rb = MSG_ACCEPTED then
          bindE (Areply rb) (\<lambda>ar.
            let stat = rd_Stat (ar_Reply_data ar); c = stat_text ''Accept_stat'' accept_maps stat in
            if stat = PROG_MISMATCH then
              bindE (rd_Mismatch_info (ar_Reply_data ar)) (\<lambda>mmi.
                Inr (c @ '' (low '' @ decimal (unat (Low mmi)) @ '', high '' @ decimal (unat (High mmi)) @ '')''))
            else Inr c)
        else if rb_Stat rb = MSG_DENIED then
          bindE (Rreply rb) (\<lambda>rr. Inr (stat_text ''Reject_stat'' reject_maps (rj_Stat rr)))
        else Inr ''Invalid reply_stat''))"

lemma comments_normal:
  "list_all (\<lambda>(s, w, c). normalize_comment c \<noteq> None) (accept_tags @ reject_tags)"
  by code_simp

lemma accept_texts:
  "list_all (\<lambda>(w, c). stat_text ''Accept_stat'' accept_maps w = c)
     [(SUCCESS, ''RPC executed successfully''),
      (PROG_UNAVAIL, ''remote hasn'' @ [CHR 0x27] @ ''t exported program''),
      (PROG_MISMATCH, ''remote can'' @ [CHR 0x27] @ ''t support version #''),
      (PROC_UNAVAIL, ''program can'' @ [CHR 0x27] @ ''t support procedure''),
      (GARBAGE_ARGS, ''procedure can'' @ [CHR 0x27] @ ''t decode params''),
      (SYSTEM_ERR, ''e.g. memory allocation failure''),
      (SEND_ERR, ''Transport-level error when sending call''),
      (CANCELED, ''Call context canceled''),
      (GARBAGE_RET, ''Unable to decode return value'')]"
  by code_simp

text \<open>The three statuses of init clash with no status of the protocol.\<close>

lemma pseudo_states_new:
  "list_all (\<lambda>(w, s, c). em_Names (maps_of accept_tags) w = None \<and> em_Values (maps_of accept_tags) s = None \<and>
     em_Names accept_maps w = Some s \<and> em_Values accept_maps s = Some w) pseudo_states"
  by code_simp

section \<open>What an error says\<close>

definition accept_known :: "u32 list" where
  "accept_known = map (fst \<circ> snd) accept_tags @ map fst pseudo_states"

lemma accept_unknown:
  assumes "w \<notin> set accept_known"
  shows "stat_text ''Accept_stat'' accept_maps w = ''Accept_stat#'' @ show_int (sint w)"
proof -
  from assms have "em_Names accept_maps w = None \<and> em_Comments accept_maps w = None"
    by (simp add: accept_known_def accept_maps_def pseudo_states_def accept_tags_def add_state_def maps_of_def)
  then show ?thesis by (simp add: stat_text_def maps_String_def)
qed

lemma accept_known_texts:
  "list_all (\<lambda>w. stat_text ''Accept_stat'' accept_maps w \<noteq> [] \<and>
     hd (stat_text ''Accept_stat'' accept_maps w) \<noteq> CHR ''A'' \<and>
     (take 10 (stat_text ''Accept_stat'' accept_maps w) = ''remote can'' \<longleftrightarrow> w = PROG_MISMATCH)) accept_known"
  "distinct (map (stat_text ''Accept_stat'' accept_maps) accept_known)"
  by code_simp+

text \<open>The text of an accepted reply: only a version mismatch adds to the comment of its status.\<close>

definition accept_error :: "u32 \<Rightarrow> string \<Rightarrow> string" where
  "accept_error w s = stat_text ''Accept_stat'' accept_maps w @ (if w = PROG_MISMATCH then s else [])"

lemma accept_error_unknown:
  "w \<notin> set accept_known \<Longrightarrow> accept_error w s = ''Accept_stat#'' @ show_int (sint w)"
proof -
  assume w: "w \<notin> set accept_known"
  then have "w \<noteq> PROG_MISMATCH" by (auto simp: accept_known_def accept_tags_def PROG_MISMATCH_def)
  with w show ?thesis by (simp add: accept_error_def accept_unknown)
qed

lemma accept_error_known:
  assumes "w \<in> set accept_known"
  shows "accept_error w s \<noteq> []" "hd (accept_error w s) \<noteq> CHR ''A''"
    "take 10 (accept_error w s) = ''remote can'' \<longleftrightarrow> w = PROG_MISMATCH"
proof -
  let ?t = "stat_text ''Accept_stat'' accept_maps w"
  from assms accept_known_texts(1) have k: "?t \<noteq> []" "hd ?t \<noteq> CHR ''A''" "take 10 ?t = ''remote can'' \<longleftrightarrow> w = PROG_MISMATCH"
    by (auto simp only: list_all_iff)
  from k(1) show "accept_error w s \<noteq> []" by (simp add: accept_error_def)
  from k(1,2) show "hd (accept_error w s) \<noteq> CHR ''A''" by (simp add: accept_error_def)
  have "take 10 (?t @ s) = take 10 ?t" if "take 10 ?t = ''remote can''"
  proof -
    from arg_cong [OF that, of length] have "10 \<le> length ?t" by simp
    then show ?thesis by simp
  qed
  with k(3) show "take 10 (accept_error w s) = ''remote can'' \<longleftrightarrow> w = PROG_MISMATCH"
    by (auto simp: accept_error_def)
qed

lemma accept_error_inject:
  "accept_error w s = accept_error w' s' \<Longrightarrow> w = w'"
proof (cases "w \<in> set accept_known"; cases "w' \<in> set accept_known")
  assume e: "accept_error w s = accept_error w' s'" and m: "w \<in> set accept_known" "w' \<in> set accept_known"
  show ?thesis
  proof (cases "w = PROG_MISMATCH")
    case True
    with e m show ?thesis by (metis accept_error_known(3))
  next
    case False
    with e m have "w' \<noteq> PROG_MISMATCH" by (metis accept_error_known(3))
    with e False have "stat_text ''Accept_stat'' accept_maps w = stat_text ''Accept_stat'' accept_maps w'"
      by (simp add: accept_error_def)
    with m accept_known_texts(2) show ?thesis by (auto simp only: distinct_map inj_on_def)
  qed
next
  assume e: "accept_error w s = accept_error w' s'" and m: "w \<in> set accept_known" "w' \<notin> set accept_known"
  from accept_error_known(2) [OF m(1), of s] e show ?thesis by (simp add: accept_error_unknown [OF m(2)])
next
  assume e: "accept_error w s = accept_error w' s'" and m: "w \<notin> set accept_known" "w' \<in> set accept_known"
  from accept_error_known(2) [OF m(2), of s'] e [symmetric] show ?thesis by (simp add: accept_error_unknown [OF m(1)])
next
  assume "accept_error w s = accept_error w' s'" "w \<notin> set accept_known" "w' \<notin> set accept_known"
  then show ?thesis by (simp add: accept_error_unknown show_int_inject signed_word_eqI)
qed

lemma accept_error_ne: "accept_error w s \<noteq> []"
  by (cases "w \<in> set accept_known") (simp_all add: accept_error_known accept_error_unknown)

lemma rpc_Error_SetStat:
  "\<exists>m' s. SetStat m w = Inr m' \<and> rpc_Error m' = Inr (accept_error w s)"
  by (auto simp: SetStat_eq rpc_Error_def Rbody_def Areply_def rd_Mismatch_info_def Let_def accept_error_def)

text \<open>
  C40. What Error says of an accepted reply determines its status: SetStat and Error return for all headers and
  statuses, and headers that were given two different statuses have different texts, none empty; the
  three statuses that package rpc adds and numbers no enum declares are included.
\<close>

theorem Error_tells_status:
  assumes "w \<noteq> w'"
  shows "\<exists>m1 m2 s1 s2. SetStat m w = Inr m1 \<and> SetStat m' w' = Inr m2 \<and>
    rpc_Error m1 = Inr s1 \<and> rpc_Error m2 = Inr s2 \<and> s1 \<noteq> [] \<and> s2 \<noteq> [] \<and> s1 \<noteq> s2"
proof -
  obtain m1 m2 s1 s2 where "SetStat m w = Inr m1" "SetStat m' w' = Inr m2"
    "rpc_Error m1 = Inr (accept_error w s1)" "rpc_Error m2 = Inr (accept_error w' s2)"
    using rpc_Error_SetStat by metis
  moreover from assms have "accept_error w s1 \<noteq> accept_error w' s2" by (metis accept_error_inject)
  ultimately show ?thesis
    by (intro exI [of _ m1] exI [of _ m2] exI [of _ "accept_error w s1"] exI [of _ "accept_error w' s2"])
      (simp add: accept_error_ne)
qed

theorem Error_tells_status_witness:
  "\<exists>m1 m2 s1 s2. SetStat zero_msg GARBAGE_ARGS = Inr m1 \<and> SetStat zero_msg GARBAGE_RET = Inr m2 \<and>
    rpc_Error m1 = Inr s1 \<and> rpc_Error m2 = Inr s2 \<and> s1 \<noteq> [] \<and> s2 \<noteq> [] \<and> s1 \<noteq> s2"
  by (rule Error_tells_status) (simp add: rpc_consts)

text \<open>Error returns for every header, whatever its discriminants are.\<close>

lemma rpc_Error_total: "\<exists>s. rpc_Error m = Inr s"
  by (auto simp: rpc_Error_def Rbody_def Areply_def Rreply_def rd_Mismatch_info_def Let_def)

lemma mismatch_text:
  "bindE (SetStat zero_msg PROG_MISMATCH) (\<lambda>m.
     bindE (with_reply_mismatch (\<lambda>mmi. fold ver_step [2, 4, 3] (mmi\<lparr>Low := 0xffffffff\<rparr>)) m) rpc_Error) =
   Inr (''remote can'' @ [CHR 0x27] @ ''t support version # (low 2, high 4)'')"
  by code_simp

end
