(* ===== verification/MsgReport.thy ===== *)
theory MsgReport imports XdrPrint begin

text \<open>
  The clock readings and the report of a message (rpc/msg.go) and the trace a driver writes
  with them (logMsg, rpc/driver.go). Times are nanoseconds; a clock reading is an argument of
  the operation that takes it. A report is what it writes to the driver's log, or its panic.
\<close>

section \<open>Durations\<close>

text \<open>time.Since, which stays within an int64.\<close>

definition Since :: "int \<Rightarrow> int \<Rightarrow> int" where
  "Since now t = max (- (2 ^ 63)) (min (2 ^ 63 - 1) (now - t))"

text \<open>A number with leading zeros, and a fraction without trailing ones.\<close>

fun padded :: "nat \<Rightarrow> nat \<Rightarrow> string" where
  "padded 0 n = []"
| "padded (Suc k) n = padded k (n div 10) @ decimal (n mod 10)"

definition fraction :: "nat \<Rightarrow> nat \<Rightarrow> string" where
  "fraction prec n =
     (let s = rev (dropWhile (\<lambda>c. c = CHR ''0'') (rev (padded prec (n mod 10 ^ prec))))
      in if s = [] then [] else CHR ''.'' # s)"

text \<open>The verb v of a time.Duration: its String method. The micro sign is two bytes of UTF-8.\<close>

definition duration_text :: "int \<Rightarrow> string" where
  "duration_text d =
     (let u = nat \<bar>d\<bar>;
          unit = (\<lambda>prec suf. decimal (u div 10 ^ prec) @ fraction prec u @ suf);
          s = u div 10 ^ 9
      in (if d < 0 then ''-'' else []) @
         (if u = 0 then ''0s''
          else if u < 10 ^ 3 then unit 0 ''ns''
          else if u < 10 ^ 6 then unit 3 [CHR 0xC2, CHR 0xB5, CHR ''s'']
          else if u < 10 ^ 9 then unit 6 ''ms''
          else (if 3600 \<le> s then decimal (s div 3600) @ ''h'' else []) @
               (if 60 \<le> s then decimal (s div 60 mod 60) @ ''m'' else []) @
               decimal (s mod 60) @ fraction 9 u @ ''s''))"

section \<open>Messages\<close>

type_synonym report = "int \<Rightarrow> int \<Rightarrow> int \<Rightarrow> go_panic + string"

text \<open>The fields of a message that concern its report.\<close>

record msg_meta =
  mm_enteredQueue :: int
  mm_ioLatency :: int
  mm_queueLatency :: int
  mm_serdeLatency :: int
  mm_report :: "report option"

definition zeroTime :: int where
  "zeroTime = 0"

definition meta_reset :: "msg_meta \<Rightarrow> msg_meta" where
  "meta_reset m = m\<lparr>mm_enteredQueue := zeroTime, mm_ioLatency := 0, mm_queueLatency := 0,
     mm_serdeLatency := 0, mm_report := None\<rparr>"

definition SetReport :: "report \<Rightarrow> msg_meta \<Rightarrow> msg_meta" where
  "SetReport f m = m\<lparr>mm_report := Some f\<rparr>"

definition CancelReport :: "msg_meta \<Rightarrow> msg_meta" where
  "CancelReport m = m\<lparr>mm_report := None\<rparr>"

definition SetIOLatency :: "int \<Rightarrow> msg_meta \<Rightarrow> msg_meta" where
  "SetIOLatency l m = m\<lparr>mm_ioLatency := l\<rparr>"

definition SetSerdeLatency :: "int \<Rightarrow> msg_meta \<Rightarrow> msg_meta" where
  "SetSerdeLatency l m = m\<lparr>mm_serdeLatency := l\<rparr>"

definition EnteringQueue :: "int \<Rightarrow> msg_meta \<Rightarrow> msg_meta" where
  "EnteringQueue now m = m\<lparr>mm_enteredQueue := now\<rparr>"

definition LeavingQueue :: "int \<Rightarrow> msg_meta \<Rightarrow> msg_meta" where
  "LeavingQueue now m = m\<lparr>mm_queueLatency := Since now (mm_enteredQueue m)\<rparr>"

text \<open>The clock of Serialize, which replaces the latency of an earlier call.\<close>

definition meta_Serialize :: "int \<Rightarrow> int \<Rightarrow> msg_meta \<Rightarrow> msg_meta" where
  "meta_Serialize t0 now m = m\<lparr>mm_serdeLatency := Since now t0\<rparr>"

text \<open>Recycle: what the report writes, if there is one; the pool resets the message.\<close>

definition meta_Recycle :: "msg_meta \<Rightarrow> go_panic + (string list \<times> msg_meta)" where
  "meta_Recycle m =
     (case mm_report m of
        None \<Rightarrow> Inr ([], meta_reset m)
      | Some f \<Rightarrow>
          bindE (f (mm_ioLatency m) (mm_queueLatency m) (mm_serdeLatency m)) (\<lambda>out. Inr ([out], meta_reset m)))"

section \<open>The trace of a driver\<close>

text \<open>The settings of a driver: whether it has a log, and its two switches.\<close>

record log_settings =
  lg_Log :: bool
  lg_LogCalls :: bool
  lg_LogStats :: bool

text \<open>
  The closure of logMsg: \<open>head\<close> is the formatted first part, \<open>shown\<close> what XdrPrint writes of the
  argument or result when the report runs.
\<close>

definition report_of :: "log_settings \<Rightarrow> string \<Rightarrow> go_panic + string \<Rightarrow> report" where
  "report_of r head shown = (\<lambda>io queue serde.
     let out = head @ ''io='' @ duration_text io @ '', queue='' @ duration_text queue @ '', serde='' @
               duration_text serde @ [NL]
     in if lg_LogCalls r then bindE shown (\<lambda>s. Inr (out @ s)) else Inr out)"

definition logMsg :: "log_settings \<Rightarrow> string \<Rightarrow> go_panic + string \<Rightarrow> msg_meta \<Rightarrow> msg_meta" where
  "logMsg r head shown m =
     (if \<not> lg_Log r then m
      else if \<not> lg_LogCalls r \<and> \<not> lg_LogStats r then m
      else SetReport (report_of r head shown) m)"

section \<open>The way of a message\<close>

text \<open>
  How a message ends that safeSend was given: dropped by its select; taken by SendChan, then
  refused by a transport that had failed, lost in a failing write, or written between two
  readings of the clock.
\<close>

datatype out_end = Out_dropped | Out_refused int | Out_write_error int | Out_written int int int

definition meta_send :: "int \<Rightarrow> out_end \<Rightarrow> msg_meta \<Rightarrow> go_panic + (string list \<times> msg_meta)" where
  "meta_send entered e m =
     (let m1 = EnteringQueue entered m in
      case e of
        Out_dropped \<Rightarrow> meta_Recycle m1
      | Out_refused left \<Rightarrow> meta_Recycle (CancelReport (LeavingQueue left m1))
      | Out_write_error left \<Rightarrow> meta_Recycle (CancelReport (LeavingQueue left m1))
      | Out_written left t0 t1 \<Rightarrow> meta_Recycle (SetIOLatency (Since t1 t0) (LeavingQueue left m1)))"

text \<open>The message of SendCall, new from its pool.\<close>

definition meta_call :: "log_settings \<Rightarrow> string \<Rightarrow> go_panic + string \<Rightarrow> int \<times> int \<Rightarrow> int \<Rightarrow> out_end \<Rightarrow> msg_meta \<Rightarrow>
    go_panic + (string list \<times> msg_meta)" where
  "meta_call r head shown s entered e m =
     meta_send entered e (meta_Serialize (fst s) (snd s) (logMsg r head shown (meta_reset m)))"

text \<open>
  The reply of a served call: the header is serialized, and the result with it if the call was
  successful; only then is it logged.
\<close>

definition meta_reply :: "log_settings \<Rightarrow> string \<Rightarrow> go_panic + string \<Rightarrow> bool \<Rightarrow> int \<times> int \<Rightarrow> int \<times> int \<Rightarrow> int \<Rightarrow> out_end \<Rightarrow>
    msg_meta \<Rightarrow> go_panic + (string list \<times> msg_meta)" where
  "meta_reply r head shown ok s1 s2 entered e m =
     (let m1 = meta_Serialize (fst s1) (snd s1) (meta_reset m);
          m2 = (if ok then logMsg r head shown (meta_Serialize (fst s2) (snd s2) m1) else m1)
      in meta_send entered e m2)"

text \<open>
  A message from Receive to the end of doMsg: \<open>head\<close> is None when doMsg logs nothing, that is
  for a bad header and for a message that is neither a reply in time nor a call to serve.
\<close>

definition meta_received :: "log_settings \<Rightarrow> string option \<Rightarrow> go_panic + string \<Rightarrow> int \<times> int \<Rightarrow> int \<Rightarrow> int \<Rightarrow> int \<times> int \<Rightarrow>
    msg_meta \<Rightarrow> go_panic + (string list \<times> msg_meta)" where
  "meta_received r head shown io entered left s m =
     (let m1 = SetIOLatency (Since (snd io) (fst io)) (meta_reset m);
          m2 = LeavingQueue left (EnteringQueue entered m1);
          m3 = SetSerdeLatency (Since (snd s) (fst s)) m2
      in meta_Recycle (case head of None \<Rightarrow> m3 | Some h \<Rightarrow> logMsg r h shown m3))"

section \<open>What the trace holds\<close>

lemmas meta_defs = meta_send_def meta_call_def meta_reply_def meta_received_def meta_Recycle_def meta_reset_def
  logMsg_def SetReport_def CancelReport_def SetIOLatency_def SetSerdeLatency_def EnteringQueue_def LeavingQueue_def
  meta_Serialize_def Let_def

definition tracing :: "log_settings \<Rightarrow> bool" where
  "tracing r \<longleftrightarrow> lg_Log r \<and> (lg_LogCalls r \<or> lg_LogStats r)"

text \<open>A log alone, with neither switch set, traces nothing.\<close>

lemma not_tracing:
  assumes "\<not> tracing r"
  shows "meta_call r head shown s entered e m = Inr ([], meta_reset m)"
    "meta_reply r head shown ok s s2 entered e m = Inr ([], meta_reset m)"
    "meta_received r hdr shown io entered left s m = Inr ([], meta_reset m)"
  using assms by (cases e; auto simp: meta_defs tracing_def split: option.split)+

definition trace_entry :: "log_settings \<Rightarrow> string \<Rightarrow> string \<Rightarrow> int \<Rightarrow> int \<Rightarrow> int \<Rightarrow> string" where
  "trace_entry r head x io queue serde =
     head @ ''io='' @ duration_text io @ '', queue='' @ duration_text queue @ '', serde='' @ duration_text serde @
     [NL] @ (if lg_LogCalls r then x else [])"

text \<open>
  The entry of a call, written once when its message was sent: whatever the message was used for
  before, only this call's head and clock readings show. A refused or failing write leaves
  none; a message safeSend dropped is traced as if it had taken no time.
\<close>

lemma call_traced:
  assumes "tracing r" "shown = Inr x"
  shows "meta_call r head shown s entered e m = Inr
    (case e of
       Out_dropped \<Rightarrow> [trace_entry r head x 0 0 (Since (snd s) (fst s))]
     | Out_written left t0 t1 \<Rightarrow> [trace_entry r head x (Since t1 t0) (Since left entered) (Since (snd s) (fst s))]
     | _ \<Rightarrow> [], meta_reset m)"
  using assms by (cases e) (auto simp: meta_defs report_of_def tracing_def trace_entry_def)

text \<open>No report outlives its message.\<close>

lemma report_gone:
  "meta_Recycle m = Inr (out, m') \<Longrightarrow> length out \<le> 1 \<and> meta_Recycle m' = Inr ([], m')"
  by (auto simp: meta_defs bindE_eq_Inr split: option.splits)

text \<open>The serialization time in the trace of a reply is that of the result alone.\<close>

lemma reply_serde:
  "meta_reply r head shown True s1 s2 entered e m = meta_reply r head shown True s1' s2 entered e m"
  by (cases e) (simp_all add: meta_defs)

text \<open>What the switches let through that does not fit its type makes the report panic.\<close>

lemma report_panics:
  assumes "tracing r" "lg_LogCalls r" "shown = Inl p" "e = Out_written left t0 t1"
  shows "meta_call r head shown s entered e m = Inl p"
  using assms by (simp add: meta_defs report_of_def tracing_def)

lemma Since_ordered: "t \<le> now \<Longrightarrow> now - t < 2 ^ 63 \<Longrightarrow> Since now t = now - t \<and> 0 \<le> Since now t"
  by (simp add: Since_def)

lemma padded_numeral: "padded (numeral k) n = padded (pred_numeral k) (n div 10) @ decimal (n mod 10)"
  by (simp only: numeral_eq_Suc [of k] padded.simps)

lemma decimals:
  "decimal 0 = ''0''" "decimal 1 = ''1''" "decimal (Suc 0) = ''1''" "decimal 2 = ''2''" "decimal 5 = ''5''" "decimal 17 = ''17''"
  by code_simp+

lemma duration_examples:
  "duration_text 0 = ''0s''" "duration_text 17 = ''17ns''" "duration_text 1500000 = ''1.5ms''"
  "duration_text 3661000000000 = ''1h1m1s''" "duration_text (- 2000000000) = ''-2s''"
  "duration_text 60250000000 = ''1m0.25s''"
  by (simp_all add: duration_text_def Let_def fraction_def padded_numeral decimals)

end
