(* ===== verification/Spec2Isabelle.thy ===== *)
theory Spec2Isabelle imports XdrCorrect RpcCorrect PoolCorrect TransportCorrect DriverSafety StubsCorrect Decoder LexerCorrect EmitterCorrect JsonSafe JsonGo CompileCorrect ParserRpc DriverLife FileTransport Stat XdrPrintCorrect RpcErrors MsgReport begin

text \<open>
  goxdr: an XDR (RFC 4506) compiler for Go, its runtime, and an RPC (RFC 5531) library.

  THE PROGRAM. The compiler (cmd/goxdr) reads a .x file with a hand-written lexer (lex.go)
  and a goyacc grammar (parse.y) into a symbol table (syms.go), and emits Go code for it
  (goxdr.go): types, the XdrRecurse methods that marshal them, and for every RPC program
  client and server stubs. The emitted code runs on a fixed runtime (header.go.in, copied
  to package xdr) with two marshalers, XdrOut and XdrIn, and on package xdr's object pools
  (arena.go, pool.go). Package rpc moves messages: records over a byte stream
  (transport.go), message buffers (msg.go, msgpool.go), the table of pending calls
  (CallSet in util.go, callpool.go), the table of services (RpcSrv in util.go), and the
  driver (driver.go) whose main loop reads messages from the transport, hands replies to
  the calls that wait for them and calls to the services, and sends what these produce.

  THEORIES AND CODE.
    GoPrelude: Go's panics as values of a sum type, the error and option binds, words.
    XdrPrim, XdrUnits: 4- and 8-byte units, padding and byte strings of XdrIn and XdrOut
      over a bytes.Buffer (header.go.in), a locale for fixed-size big-endian units.
    XdrSchema, XdrWf: the declarations of a package as the emitter sees them, Go types and
      values, zero values, union accessors; the executable check of a package.
    XdrMarshal: XdrIn and XdrOut on the emitted XdrRecurse methods (templates of
      gen_ptr, gen_vec, gen_array, rpc_struct.emit, rpc_union.emit in goxdr.go).
    XdrSpec: RFC 4506 values, their encoding and conformance to a type, and the
      abstraction from Go values. XdrCodec: the contract between the two, the locale
      coder. XdrCompose, XdrTyped: every type constructor keeps the contract.
    XdrDepth: decoding needs finitely many nested calls. XdrPanics: which panics are
      xdrRuntimeErrors. XdrUnion: the switches of a union. XdrCorrect: the properties.
    RpcMsg, RpcWire: the package of rpc_msg.x, its records, accessors, GetMsg, Serialize
      and the correspondence of records with generic Go values. RpcServer: Register and
      GetProc. CallSet, CallLife: the pending calls and the life of a callback.
      RpcCorrect: their properties.
    ObjPool, PoolCorrect: Arena and Pool over a store of objects with the contract the
      users of pools rely on (locales), instantiated for both. MsgPool: message pools.
    StreamTransport, TransportCorrect: record marking, the sticky failure, and the
      interleaving of fail and failed at the granularity of their atomic actions.
    Driver, DriverCorrect, DriverSafety: SendCall, doMsg, doMsgs, ReceiveChan, SendChan,
      mkUnlocker, the composition of two drivers, and what the driver survives.
    Stubs, StubsCorrect: the XdrProc, XdrSrvProc, server and client types and the XdrCatalog
      that rpc_program.emit, getArgType and doClientProc (goxdr.go) emit for a program, and a
      remote call from the client's method to the service's method and back.
    Decoder: the trace decoder (decode.go).
    Lexer, LexerPos, LexerTotal, LexerCorrect: lex.go, its positions and its termination.
    Emitter, EmitterCorrect: what goxdr.go decides before it formats text (bounds, bool
      discriminants, helper types, scoped enum tags, initial discriminants), and the action
      of parse.y for the arms of a union.
    Compile, CompileNames, CompileCorrect: from syntax trees to the package XdrSchema
      describes: inline types and their names, constants, bounds, the order of emission; the
      package of rpc_msg.x is what comes out for that file's tree.
    Grammar, GrammarCorrect: the grammar of parse.y as parse trees with their yields, and a
      recursive-descent parser in place of the generated one. Parser: the actions of parse.y,
      parseXDR and the part of main up to the emitter. ParserCorrect, ParserRpc: which files are
      accepted, the symbol table, and rpc_msg.x from text to syntax trees.
    GoText: what the program uses of strconv, fmt and encoding/hex. Json: XdrToJson and
      JsonToXdr of cmd/gorpc/jsonxdr.go. JsonSpec: the JSON document of an XDR value, its
      layout, and the values that survive. JsonCodec: the contract between them, the locale
      jcoder, for every type constructor. JsonCorrect, JsonSafe: the properties. JsonGo:
      AnyToJson, which prints Go values that are no XDR types.
    XdrPrint, XdrPrintCorrect: XdrToString over the emitted XdrRecurse methods, the lines it
      writes for a value (locale printer), and that they determine the value (locale shown).
    Comments: normalize_comment and enum_comment (goxdr.go) on the comments the lexer keeps.
    RpcErrors: the names and comments of accept_stat and reject_stat with the statuses
      init adds (util.go), and Error, what a failed call tells its caller.
    MsgReport: the latencies kept in a message, its report (msg.go), and the trace a driver
      writes through it (logMsg in driver.go), from a message's pool back to it.
    DriverLife: context values, Detach, and the goroutines of a driver with their channels,
      from NewDriverTuned to the end. FileTransport: ReceiveFile (filerpc.go).
    Stat: the counters and latency meters of package stat, over any arithmetic and over the
      real numbers.

  HOW CODE IS REPRESENTED. A panic is Inl of go_panic: XdrError carries the runtime's own
  errors, which safeMarshal recovers; AppPanic is a panic of the program's own code, the
  others are run-time panics and raw io errors, which cross safeMarshal; Stuck marks values of the wrong shape, which Go's types exclude, and is proved unreachable from well
  typed values. A method that changes its receiver returns the new state. What the
  environment decides (map iteration order, select, what a pool hands out, whether a read
  is short) is an argument, and theorems hold for all of them.

  BOUNDS. in_typ and out_typ take the number of nested named types they may go through, as
  the Go stack is finite; running out is the panic StackOverflow. unmarshal_terminates
  shows that for every input some depth is enough and that a larger one gives the same
  result; the depth of rpc_msg.x is at most 7 (rpc_depth). p_nest bounds the nesting of a
  package's types without pointers; wf_pkg checks that it is enough. Loops that may run
  forever are partial functions to option, None meaning that the loop does not return:
  next_xid (when every XID is pending), skipSpace and lex_next (on an unclosed comment);
  the theorems say exactly when they return.

  NOT MODELLED. The tables of the parser goyacc generates from parse.y; the comments the parser's
  actions keep for the output; the text the emitter writes, as opposed to the behaviour of the code it
  emits; flags and output files, the socket helpers, what is printed to the standard error, and the Scan methods
  but those JsonToXdr calls. Goroutines are modelled as steps whose order
  the theorems leave open; the memory model below the locks is not.
\<close>

end
